(* ===== verification/Erpc_Prelude.thy ===== *)
theory Erpc_Prelude
  imports Main "HOL-Library.Word" "HOL-Library.Multiset"
begin

unbundle bit_operations_syntax

section \<open>Prelude: machine types, results, shared lemmas\<close>

text \<open>
  What the component theories share: names for the C++ integer types, the result type that
  carries a failed \<open>assert\<close>, a thrown exception or a process exit as a value, the wrapping
  \<open>size_t\<close> arithmetic written on \<open>nat\<close>, and generic facts on lists and results.

  The model is the program of the default build (\<open>-O0 -DDEBUG\<close>, see \<open>src/CMakeLists.txt\<close>):
  \<open>assert\<close> is enabled, so every \<open>assert(c)\<close> of the source is a branch \<open>assertE c k\<close> whose
  failure is the value \<open>Inl AssertFail\<close>.
\<close>

named_theorems res_simps \<open>unfolding rules of the result combinators\<close>
named_theorems inv_intros \<open>preservation of component invariants\<close>

type_synonym u8 = "8 word"
type_synonym u16 = "16 word"
type_synonym u32 = "32 word"
type_synonym u64 = "64 word"

subsection \<open>Results\<close>

text \<open>
  \<^item> \<open>AssertFail\<close>: an \<open>assert\<close> does not hold.
  \<^item> \<open>RuntimeError\<close>: a \<open>std::runtime_error\<close> is thrown (\<open>rt_assert\<close> in \<open>common.h\<close>).
  \<^item> \<open>OutOfRange\<close>: an access outside an array or container (undefined behaviour in C++).
  \<^item> \<open>ExitProcess\<close>: \<open>exit(-1)\<close> or \<open>abort()\<close>.
  \<^item> \<open>NoReturn\<close>: the call does not return within the environment's finite answer script.
\<close>

datatype error = AssertFail | RuntimeError | OutOfRange | ExitProcess | NoReturn

type_synonym 'a res = "error + 'a"

definition bindE :: "'a res \<Rightarrow> ('a \<Rightarrow> 'b res) \<Rightarrow> 'b res" where
  "bindE m f = (case m of Inl e \<Rightarrow> Inl e | Inr x \<Rightarrow> f x)"

definition assertE :: "bool \<Rightarrow> 'a res \<Rightarrow> 'a res" where
  "assertE c k = (if c then k else Inl AssertFail)"

definition rt_assert :: "bool \<Rightarrow> 'a res \<Rightarrow> 'a res" where
  "rt_assert c k = (if c then k else Inl RuntimeError)"

definition rangeE :: "bool \<Rightarrow> 'a res \<Rightarrow> 'a res" where
  "rangeE c k = (if c then k else Inl OutOfRange)"

lemma bindE_simps [simp]: "bindE (Inl e) f = Inl e" "bindE (Inr x) f = f x"
  by (simp_all add: bindE_def)

lemma bindE_eq_Inr: "bindE m f = Inr y \<longleftrightarrow> (\<exists>x. m = Inr x \<and> f x = Inr y)"
  by (cases m) simp_all

lemma assertE_eq_Inr: "assertE c k = Inr y \<longleftrightarrow> c \<and> k = Inr y"
  by (simp add: assertE_def)

lemma rt_assert_eq_Inr: "rt_assert c k = Inr y \<longleftrightarrow> c \<and> k = Inr y"
  by (simp add: rt_assert_def)

lemma rangeE_eq_Inr: "rangeE c k = Inr y \<longleftrightarrow> c \<and> k = Inr y"
  by (simp add: rangeE_def)

lemma assertE_True [simp]: "c \<Longrightarrow> assertE c k = k"
  by (simp add: assertE_def)

lemma rt_assert_True [simp]: "c \<Longrightarrow> rt_assert c k = k"
  by (simp add: rt_assert_def)

lemma rangeE_True [simp]: "c \<Longrightarrow> rangeE c k = k"
  by (simp add: rangeE_def)

lemma bindE_cong [fundef_cong]:
  "m = m' \<Longrightarrow> (\<And>x. m' = Inr x \<Longrightarrow> f x = f' x) \<Longrightarrow> bindE m f = bindE m' f'"
  by (cases m') auto

lemma assertE_cong [fundef_cong]:
  "c = c' \<Longrightarrow> (c' \<Longrightarrow> k = k') \<Longrightarrow> assertE c k = assertE c' k'"
  by (simp add: assertE_def)

lemmas res_Inr = bindE_eq_Inr assertE_eq_Inr rt_assert_eq_Inr rangeE_eq_Inr

declare bindE_def [res_simps] assertE_def [res_simps] rt_assert_def [res_simps]
  rangeE_def [res_simps]

subsection \<open>Hoare-style triples on results\<close>

text \<open>
  \<open>holds P m\<close>: the call returns normally, and \<open>P\<close> holds of its value. It is a total-correctness
  statement: it says that no assertion fails, nothing is thrown and the call returns.
\<close>

definition holds :: "('a \<Rightarrow> bool) \<Rightarrow> 'a res \<Rightarrow> bool" where
  "holds P m = (case m of Inl e \<Rightarrow> False | Inr x \<Rightarrow> P x)"

lemma holds_Inr [simp]: "holds P (Inr x) = P x"
  by (simp add: holds_def)

lemma holds_Inl [simp]: "\<not> holds P (Inl e)"
  by (simp add: holds_def)

lemma holdsE: "holds P m \<Longrightarrow> (\<And>x. m = Inr x \<Longrightarrow> P x \<Longrightarrow> R) \<Longrightarrow> R"
  by (cases m) auto

lemma holds_iff: "holds P m \<longleftrightarrow> (\<exists>x. m = Inr x \<and> P x)"
  by (cases m) auto

lemma holds_bind: "holds P m \<Longrightarrow> (\<And>x. P x \<Longrightarrow> holds Q (f x)) \<Longrightarrow> holds Q (bindE m f)"
  by (cases m) auto

lemma holds_weaken: "holds P m \<Longrightarrow> (\<And>x. P x \<Longrightarrow> Q x) \<Longrightarrow> holds Q m"
  by (cases m) auto

lemma holds_conj: "holds P m \<Longrightarrow> holds Q m \<Longrightarrow> holds (\<lambda>x. P x \<and> Q x) m"
  by (cases m) auto

lemma holds_if: "(c \<Longrightarrow> holds P a) \<Longrightarrow> (\<not> c \<Longrightarrow> holds P b) \<Longrightarrow> holds P (if c then a else b)"
  by simp

subsection \<open>Loops over an index range\<close>

text \<open>\<open>forE n f s\<close> is \<open>for (i = 0; i < n; i++) s = f(i, s);\<close> and \<open>foldE\<close> a range-based \<open>for\<close>.\<close>

fun foldE :: "('x \<Rightarrow> 's \<Rightarrow> 's res) \<Rightarrow> 'x list \<Rightarrow> 's \<Rightarrow> 's res" where
  "foldE f [] s = Inr s"
| "foldE f (x # xs) s = bindE (f x s) (foldE f xs)"

definition forE :: "nat \<Rightarrow> (nat \<Rightarrow> 's \<Rightarrow> 's res) \<Rightarrow> 's \<Rightarrow> 's res" where
  "forE n f s = foldE f [0..<n] s"

lemma foldE_append: "foldE f (xs @ ys) s = bindE (foldE f xs s) (foldE f ys)"
proof (induction xs arbitrary: s)
  case (Cons x xs)
  then show ?case by (cases "f x s") auto
qed simp

lemma bindE_foldE_Nil [simp]: "bindE m (foldE f []) = m"
  by (cases m) simp_all

lemma foldE_cong [fundef_cong]:
  "xs = ys \<Longrightarrow> s = t \<Longrightarrow> (\<And>x s. x \<in> set ys \<Longrightarrow> f x s = g x s) \<Longrightarrow> foldE f xs s = foldE g ys t"
proof (induction ys arbitrary: xs s t)
  case (Cons y ys)
  then show ?case by (auto intro!: bindE_cong)
qed simp

lemma holds_foldE:
  assumes "\<And>x s. x \<in> set xs \<Longrightarrow> P s \<Longrightarrow> holds P (f x s)" and "P s"
  shows "holds P (foldE f xs s)"
  using assms
proof (induction xs arbitrary: s)
  case (Cons x xs)
  then have "holds P (f x s)" by simp
  moreover have "holds P (foldE f xs t)" if "P t" for t
    using Cons.IH [of t] Cons.prems(1) that by simp
  ultimately show ?case by (auto elim: holdsE)
qed simp

text \<open>The loop rule: an invariant indexed by the number of elements already processed.\<close>

lemma holds_forE:
  assumes step: "\<And>i s. i < n \<Longrightarrow> P i s \<Longrightarrow> holds (P (Suc i)) (f i s)" and init: "P 0 s"
  shows "holds (P n) (forE n f s)"
proof -
  have "k \<le> n \<Longrightarrow> holds (P k) (foldE f [0..<k] s)" for k
  proof (induction k)
    case (Suc k)
    then have "holds (P k) (foldE f [0..<k] s)" by simp
    with Suc.prems step show ?case by (auto simp: foldE_append Suc_le_eq elim!: holdsE)
  qed (simp add: init)
  then show ?thesis by (simp add: forE_def)
qed

text \<open>Partial-correctness versions, for calls that may fail through the environment.\<close>

lemma foldE_inv:
  assumes "foldE f xs s = Inr s'" "P s" "\<And>x s s'. x \<in> set xs \<Longrightarrow> P s \<Longrightarrow> f x s = Inr s' \<Longrightarrow> P s'"
  shows "P s'"
  using assms
proof (induction xs arbitrary: s)
  case (Cons x xs)
  then obtain t where "f x s = Inr t" "foldE f xs t = Inr s'" by (auto simp: bindE_eq_Inr)
  with Cons show ?case by (metis list.set_intros(1,2))
qed simp

lemma forE_inv:
  assumes ret: "forE n f s = Inr s'" and init: "P 0 s"
    and step: "\<And>i s s'. i < n \<Longrightarrow> P i s \<Longrightarrow> f i s = Inr s' \<Longrightarrow> P (Suc i) s'"
  shows "P n s'"
proof -
  have "k \<le> n \<Longrightarrow> foldE f [0..<k] s = Inr t \<Longrightarrow> P k t" for k t
  proof (induction k arbitrary: t)
    case (Suc k)
    then obtain u where "foldE f [0..<k] s = Inr u" "f k u = Inr t"
      by (auto simp: foldE_append bindE_eq_Inr)
    with Suc step show ?case by (simp add: Suc_le_eq)
  qed (use init in simp)
  then show ?thesis using ret by (simp add: forE_def)
qed

subsection \<open>Wrapping \<open>size_t\<close> arithmetic on \<open>nat\<close>\<close>

text \<open>
  Sizes, counters and timestamps are \<open>nat\<close>. Where the source subtracts two \<open>size_t\<close> values the
  model uses \<open>sub64\<close>, which wraps like the machine; counters that are only incremented are not
  reduced modulo \<^term>\<open>2 ^ 64 :: nat\<close> (they would need more than \<^term>\<open>2 ^ 64 :: nat\<close> steps).
\<close>

definition sub64 :: "nat \<Rightarrow> nat \<Rightarrow> nat" where
  "sub64 a b = (if b \<le> a then a - b else 2 ^ 64 - (b - a))"

lemma sub64_le [simp]: "b \<le> a \<Longrightarrow> sub64 a b = a - b"
  by (simp add: sub64_def)

lemma sub64_word: "a < 2 ^ 64 \<Longrightarrow> b < 2 ^ 64 \<Longrightarrow> sub64 a b = unat ((of_nat a :: u64) - of_nat b)"
  by (auto simp: sub64_def unat_sub_if' unat_of_nat take_bit_eq_mod)

subsection \<open>Lists\<close>

lemma nth_list_update_full:
  "(xs[i := v]) ! j = (if i = j \<and> i < length xs then v else xs ! j)"
  by (cases "i < length xs") (simp_all add: nth_list_update list_update_beyond)

lemma map_update_id: "g v = g (xs ! i) \<Longrightarrow> map g (xs[i := v]) = map g xs"
  by (rule nth_equalityI) (auto simp: nth_list_update_full)

lemma sum_list_update_comm:
  "i < length xs \<Longrightarrow> sum_list (xs[i := v]) + xs ! i = sum_list xs + (v :: 'b::comm_monoid_add)"
proof (induction xs arbitrary: i)
  case (Cons x xs)
  then show ?case by (cases i) (auto simp: ac_simps)
qed simp

lemma sum_list_map_update:
  "i < length xs \<Longrightarrow>
    sum_list (map f (xs[i := v])) + f (xs ! i) = sum_list (map f xs) + (f v :: 'b::comm_monoid_add)"
  using sum_list_update_comm [of i "map f xs" "f v"] by (simp add: map_update)

lemma nth_le_sum_list_map: "i < length xs \<Longrightarrow> f (xs ! i) \<le> sum_list (map f xs :: nat list)"
  by (metis elem_le_sum_list length_map nth_map)

lemma filter_neq_update [simp]: "a \<notin> set xs \<Longrightarrow> filter (\<lambda>x. x \<noteq> a) xs = xs"
  by (induction xs) auto

end
