(* ===== verification/Math_Utils.thy ===== *)
theory Math_Utils
  imports Erpc_Prelude
begin

section \<open>Bit tricks of \<open>util/math_utils.h\<close> and the generator of \<open>util/rand.h\<close>\<close>

text \<open>
  \<open>is_power_of_two\<close>, \<open>round_up\<close> and \<open>msb_index\<close> as the source writes them, on machine words,
  against their arithmetic meaning. \<open>msb_index\<close> uses the x86 instruction \<open>bsrl\<close>, whose
  destination is not written when the source operand is zero; the value the register then keeps
  is the parameter \<open>r0\<close>.
\<close>

subsection \<open>Definitions\<close>

definition is_power_of_two :: "'a::len word \<Rightarrow> bool" where
  "is_power_of_two x = (x \<noteq> 0 \<and> (x AND (x - 1)) = 0)"

definition round_up :: "'a::len word \<Rightarrow> 'a word \<Rightarrow> 'a word" where
  "round_up p x = ((x + (p - 1)) AND (NOT (p - 1)))"

text \<open>\<open>bsrl\<close>: the index of the most significant set bit; nothing is written for operand 0.\<close>

fun bsr_nat :: "nat \<Rightarrow> nat" where
  "bsr_nat n = (if n \<le> 1 then 0 else Suc (bsr_nat (n div 2)))"

declare bsr_nat.simps [simp del]

definition bsrl :: "nat \<Rightarrow> u32 \<Rightarrow> nat" where
  "bsrl r0 x = (if x = 0 then r0 else bsr_nat (unat x))"

definition msb_index :: "nat \<Rightarrow> u32 \<Rightarrow> nat res" where
  "msb_index r0 x = assertE (sint x < (2 ^ 31 - 1) div 2) (Inr (bsrl r0 (push_bit 1 x)))"

text \<open>The linear congruential generator \<open>FastRand::next_u32\<close>: new seed and returned value.\<close>

definition next_u32 :: "u64 \<Rightarrow> u64 \<times> u32" where
  "next_u32 seed = (let seed' = seed * 1103515245 + 12345 in (seed', ucast (drop_bit 32 seed')))"

subsection \<open>Powers of two\<close>

lemma and_minus_one_even_nat: "even n \<Longrightarrow> 0 < n \<Longrightarrow>
    n AND (n - 1) = 2 * ((n div 2) AND (n div 2 - 1))" for n :: nat
proof (elim evenE)
  fix m assume n: "n = 2 * m" and "0 < n"
  then obtain k where m: "m = Suc k" by (cases m) auto
  have "(2 * Suc k) AND (2 * Suc k - 1) = 2 * (Suc k AND k)"
    by (subst and_rec) simp
  then show "n AND (n - 1) = 2 * ((n div 2) AND (n div 2 - 1))"
    by (simp add: n m)
qed

lemma and_minus_one_odd_nat: "odd n \<Longrightarrow> n AND (n - 1) = n - 1" for n :: nat
proof (elim oddE)
  fix m assume n: "n = 2 * m + 1"
  have "(2 * m + 1) AND (2 * m) = 2 * m"
    by (subst and_rec) simp
  then show "n AND (n - 1) = n - 1" by (simp add: n)
qed

lemma and_pred_zero_iff_nat: "0 < n \<Longrightarrow> n AND (n - 1) = 0 \<longleftrightarrow> (\<exists>k. n = 2 ^ k)" for n :: nat
proof (induction n rule: less_induct)
  case (less n)
  show ?case
  proof (cases "even n")
    case True
    with less.prems obtain m where m: "n = 2 * m" "0 < m" "m < n" by (auto elim: evenE)
    have "n AND (n - 1) = 0 \<longleftrightarrow> m AND (m - 1) = 0"
      using and_minus_one_even_nat [OF True less.prems] m by simp
    also have "\<dots> \<longleftrightarrow> (\<exists>k. m = 2 ^ k)" using less.IH m by simp
    also have "\<dots> \<longleftrightarrow> (\<exists>k. n = 2 ^ k)"
    proof
      assume "\<exists>k. m = 2 ^ k"
      then obtain k where "m = 2 ^ k" ..
      then have "n = 2 ^ Suc k" using m by simp
      then show "\<exists>k. n = 2 ^ k" ..
    next
      assume "\<exists>k. n = 2 ^ k"
      then obtain k where k: "n = 2 ^ k" ..
      with True less.prems m have "k \<noteq> 0" by (cases k) auto
      with k m show "\<exists>k. m = 2 ^ k" by (cases k) auto
    qed
    finally show ?thesis .
  next
    case False
    then have "n AND (n - 1) = n - 1" by (rule and_minus_one_odd_nat)
    moreover have "(\<exists>k. n = 2 ^ k) \<longleftrightarrow> n = 1"
    proof
      assume "\<exists>k. n = 2 ^ k"
      then obtain k where "n = 2 ^ k" ..
      with False show "n = 1" by (cases k) auto
    next
      assume "n = 1"
      then have "n = 2 ^ 0" by simp
      then show "\<exists>k. n = 2 ^ k" ..
    qed
    ultimately show ?thesis using less.prems by auto
  qed
qed

lemma is_power_of_two_iff_nat: "is_power_of_two x \<longleftrightarrow> (\<exists>k. unat x = 2 ^ k)"
proof (cases "x = 0")
  case True
  then show ?thesis by (simp add: is_power_of_two_def)
next
  case False
  then have pos: "0 < unat x" by (simp add: unat_gt_0)
  have sub: "unat (x - 1) = unat x - 1" using False by (simp add: unat_minus_one)
  have "x AND (x - 1) = 0 \<longleftrightarrow> unat (x AND (x - 1)) = 0" by (simp add: unat_eq_zero)
  also have "unat (x AND (x - 1)) = unat x AND (unat x - 1)"
    by (simp add: unsigned_and_eq sub)
  finally show ?thesis using and_pred_zero_iff_nat [OF pos] False by (simp add: is_power_of_two_def)
qed

subsection \<open>Rounding up\<close>

lemma and_not_mask_nat_div:
  "unat (x AND NOT (mask k)) = (unat x div 2 ^ k) * 2 ^ k" for x :: "'a::len word"
proof -
  have "unat x div 2 ^ k * 2 ^ k \<le> unat x" by simp
  then have less: "unat x div 2 ^ k * 2 ^ k < 2 ^ LENGTH('a)"
    using unsigned_less [of x] by (rule le_less_trans)
  have "x AND NOT (mask k) = push_bit k (drop_bit k x)"
    by (rule bit_eqI) (auto simp: bit_simps)
  then have "unat (x AND NOT (mask k)) = take_bit LENGTH('a) (push_bit k (drop_bit k (unat x)))"
    by (simp only: unsigned_push_bit_eq unsigned_drop_bit_eq)
      (simp add: take_bit_eq_mod drop_bit_eq_div push_bit_eq_mult)
  then show ?thesis
    using less by (simp add: take_bit_eq_mod drop_bit_eq_div push_bit_eq_mult)
qed

text \<open>
  \<open>round_up\<close> is the least multiple of the power of two that is not below its argument, as long
  as the addition does not wrap.
\<close>

lemma unat_round_up:
  fixes p x :: "'a::len word"
  assumes "unat p = 2 ^ k" and "k < LENGTH('a)" and "unat x + unat p - 1 < 2 ^ LENGTH('a)"
  shows "unat (round_up p x) = ((unat x + unat p - 1) div unat p) * unat p"
proof -
  have "p = of_nat (unat p)" by simp
  also have "\<dots> = 2 ^ k" by (simp only: assms(1)) simp
  finally have p: "p = 2 ^ k" .
  then have "p - 1 = mask k" by (simp add: mask_eq_decr_exp)
  moreover have "unat (x + (p - 1)) = unat x + unat p - 1"
  proof -
    have "p \<noteq> 0" using assms(1) by (metis unat_0 power_not_zero zero_neq_numeral)
    then have "unat (p - 1) = unat p - 1" by (rule unat_minus_one)
    moreover have "1 \<le> unat p" using assms(1) by simp
    ultimately show ?thesis using assms(3) by (subst unat_add_lem [THEN iffD1]) auto
  qed
  ultimately show ?thesis
    using and_not_mask_nat_div [of "x + (p - 1)" k] assms(1) by (simp add: round_up_def)
qed

lemma round_up_nat_bounds:
  fixes x p :: nat
  assumes "0 < p"
  shows "x \<le> ((x + p - 1) div p) * p" and "((x + p - 1) div p) * p < x + p"
    and "p dvd ((x + p - 1) div p) * p"
proof -
  have "(x + p - 1) mod p < p" using assms by simp
  moreover have "(x + p - 1) div p * p + (x + p - 1) mod p = x + p - 1" by simp
  ultimately show "x \<le> ((x + p - 1) div p) * p" and "((x + p - 1) div p) * p < x + p"
    using assms by linarith+
qed simp

subsection \<open>The most significant bit\<close>

lemma bsr_nat_bounds: "0 < n \<Longrightarrow> 2 ^ bsr_nat n \<le> n \<and> n < 2 ^ Suc (bsr_nat n)"
proof (induction n rule: bsr_nat.induct)
  case (1 n)
  show ?case
  proof (cases "n \<le> 1")
    case True
    then show ?thesis using "1.prems" by (simp add: bsr_nat.simps)
  next
    case False
    then have "2 ^ bsr_nat (n div 2) \<le> n div 2 \<and> n div 2 < 2 ^ Suc (bsr_nat (n div 2))"
      using 1 by simp
    with False show ?thesis by (auto simp: bsr_nat.simps [of n])
  qed
qed

lemma bsr_nat_unique: "2 ^ k \<le> n \<Longrightarrow> n < 2 ^ Suc k \<Longrightarrow> bsr_nat n = k"
proof -
  assume *: "2 ^ k \<le> n" "n < 2 ^ Suc k"
  then have "0 < n" by (metis le_0_eq not_gr_zero power_not_zero zero_neq_numeral)
  then have "2 ^ bsr_nat n \<le> n" "n < 2 ^ Suc (bsr_nat n)" using bsr_nat_bounds by auto
  then have "(2::nat) ^ k < 2 ^ Suc (bsr_nat n)" "(2::nat) ^ bsr_nat n < 2 ^ Suc k"
    using * by linarith+
  then show ?thesis by (metis less_Suc_eq_le order_antisym power_less_imp_less_exp one_less_numeral_iff semiring_norm(76))
qed

lemma msb_index_small:
  assumes "n < 2 ^ 29"
  shows "msb_index r0 (of_nat n) = Inr (if n = 0 then r0 else Suc (bsr_nat n))"
proof -
  have u: "unat (of_nat n :: u32) = n" using assms by (simp add: unat_of_nat take_bit_eq_mod)
  have "sint (of_nat n :: u32) = int n"
  proof -
    have "uint (of_nat n :: u32) = int n" using u by (metis uint_nat)
    moreover have "int n < 2 ^ 31" using assms by simp
    ultimately show ?thesis by (simp add: sint_uint signed_take_bit_eq_if_positive bit_iff_odd take_bit_eq_mod)
  qed
  moreover have "unat (push_bit 1 (of_nat n :: u32)) = 2 * n"
    using u assms by (simp only: unsigned_push_bit_eq) (simp add: push_bit_eq_mult take_bit_eq_mod)
  moreover have "bsr_nat (2 * n) = Suc (bsr_nat n)" if "0 < n"
    using that by (simp add: bsr_nat.simps [of "2 * n"])
  ultimately show ?thesis
    using assms by (auto simp: msb_index_def bsrl_def unat_eq_zero [symmetric])
qed

end
