(* ===== verification/Huge_Alloc.thy ===== *)
theory Huge_Alloc
  imports Math_Utils "HOL-Library.While_Combinator"
begin

section \<open>The hugepage allocator (\<open>util/huge_alloc.h\<close>, \<open>util/huge_alloc.cc\<close>, \<open>util/buffer.h\<close>)\<close>

text \<open>
  \<open>HugeAlloc\<close> keeps one free list per power-of-two size class and splits larger buffers on demand.
  The operating system is an input: \<open>os_script\<close> is the list of its answers to the successive
  \<open>shmget\<close> calls (with the address \<open>shmat\<close> gives and whether \<open>mbind\<close> succeeds), so the retry loop of
  \<open>alloc_raw\<close> is a recursion over that list. \<open>reg\<close> is the transport's \<open>reg_mr_func\<close> (the
  \<open>lkey\<close> it returns) and \<open>r0\<close> the register content that \<open>bsrl\<close> leaves for operand 0
  (see \<open>Math_Utils\<close>).
\<close>

subsection \<open>State\<close>

record Buffer =
  b_buf :: "nat option"
  class_size :: nat
  lkey :: u32

definition null_Buffer :: Buffer where
  "null_Buffer = \<lparr>b_buf = None, class_size = 0, lkey = 0\<rparr>"

record shm_region =
  sr_key :: int
  sr_buf :: nat
  sr_size :: nat
  sr_registered :: bool
  sr_lkey :: u32

text \<open>The operating system's answer to one \<open>shmget\<close> call: \<open>ShmOk key address mbind_ok\<close>, or \<open>errno\<close>.\<close>

datatype shm_answer = ShmOk int nat bool | ShmEEXIST | ShmEACCES | ShmEINVAL | ShmENOMEM | ShmOther

record huge_alloc =
  shm_list :: "shm_region list"
  freelist :: "Buffer list list"
  prev_allocation_size :: nat
  shm_reserved :: nat
  user_alloc_tot :: nat
  os_script :: "shm_answer list"

datatype DoRegister = RegTrue | RegFalse

abbreviation (input) k_min_class_size :: nat where "k_min_class_size \<equiv> 64"
abbreviation (input) k_max_class_size :: nat where "k_max_class_size \<equiv> 8388608"
abbreviation (input) k_num_classes :: nat where "k_num_classes \<equiv> 18"
abbreviation (input) kHugepageSize :: nat where "kHugepageSize \<equiv> 2097152"

definition class_max_size :: "nat \<Rightarrow> nat" where
  "class_max_size class_i = k_min_class_size * 2 ^ class_i"

definition huge_alloc_init :: "nat \<Rightarrow> shm_answer list \<Rightarrow> huge_alloc" where
  "huge_alloc_init initial_size script =
    \<lparr>shm_list = [], freelist = replicate k_num_classes [],
     prev_allocation_size =
       (if initial_size < k_max_class_size then k_max_class_size else initial_size),
     shm_reserved = 0, user_alloc_tot = 0, os_script = script\<rparr>"

subsection \<open>Size classes\<close>

definition get_class :: "nat \<Rightarrow> nat \<Rightarrow> nat res" where
  "get_class r0 sz = assertE (1 \<le> sz \<and> sz \<le> k_max_class_size)
    (msb_index r0 (of_nat (drop_bit 6 (sz - 1))))"

definition get_class_slow :: "nat \<Rightarrow> nat res" where
  "get_class_slow sz = assertE (1 \<le> sz \<and> sz \<le> k_max_class_size)
    (Inr (fst (while (\<lambda>(sclass, class_lim). class_lim < sz)
      (\<lambda>(sclass, class_lim). (sclass + 1, class_lim * 2)) (0, k_min_class_size))))"

subsection \<open>Free lists\<close>

definition push_free :: "nat \<Rightarrow> Buffer \<Rightarrow> huge_alloc \<Rightarrow> huge_alloc" where
  "push_free c b h = h\<lparr>freelist := (freelist h)[c := freelist h ! c @ [b]]\<rparr>"

definition pop_free :: "nat \<Rightarrow> huge_alloc \<Rightarrow> huge_alloc" where
  "pop_free c h = h\<lparr>freelist := (freelist h)[c := butlast (freelist h ! c)]\<rparr>"

definition free_buf :: "nat \<Rightarrow> Buffer \<Rightarrow> huge_alloc \<Rightarrow> huge_alloc res" where
  "free_buf r0 b h = assertE (b_buf b \<noteq> None)
    (bindE (get_class r0 (class_size b)) (\<lambda>sclass.
     assertE (class_max_size sclass = class_size b)
     (rangeE (sclass < k_num_classes)
       (Inr ((push_free sclass b h)
          \<lparr>user_alloc_tot := sub64 (user_alloc_tot h) (class_size b)\<rparr>)))))"

definition split_buf :: "nat \<Rightarrow> huge_alloc \<Rightarrow> huge_alloc res" where
  "split_buf sclass h =
    assertE (1 \<le> sclass) (assertE (freelist h ! sclass \<noteq> [])
    (assertE (freelist h ! (sclass - 1) = [])
    (let buffer = last (freelist h ! sclass);
         h1 = pop_free sclass h
     in assertE (class_size buffer = class_max_size sclass)
       (let buffer_0 = \<lparr>b_buf = b_buf buffer, class_size = class_size buffer div 2,
                        lkey = lkey buffer\<rparr>;
            buffer_1 = \<lparr>b_buf = map_option (\<lambda>a. a + class_size buffer div 2) (b_buf buffer),
                        class_size = class_size buffer div 2, lkey = lkey buffer\<rparr>
        in Inr (push_free (sclass - 1) buffer_1 (push_free (sclass - 1) buffer_0 h1))))))"

text \<open>
  The source writes \<open>assert(buffer.class_size_ = class_max_size(size_class))\<close>, an assignment: with
  assertions on, the class sz is overwritten and the check is that it is not zero.
\<close>

definition alloc_from_class :: "nat \<Rightarrow> huge_alloc \<Rightarrow> (Buffer \<times> huge_alloc) res" where
  "alloc_from_class sclass h = assertE (sclass < k_num_classes)
    (rangeE (freelist h ! sclass \<noteq> [])
    (let buffer = (last (freelist h ! sclass))\<lparr>class_size := class_max_size sclass\<rparr>
     in assertE (class_size buffer \<noteq> 0)
       (Inr (buffer, (pop_free sclass h)
          \<lparr>user_alloc_tot := user_alloc_tot h + class_size buffer\<rparr>))))"

subsection \<open>Reserving memory\<close>

fun shmget_loop :: "shm_answer list \<Rightarrow> ((int \<times> nat \<times> bool) option \<times> shm_answer list) res" where
  "shmget_loop [] = Inl NoReturn"
| "shmget_loop (ShmEEXIST # as) = shmget_loop as"
| "shmget_loop (ShmEACCES # as) = Inl RuntimeError"
| "shmget_loop (ShmEINVAL # as) = Inl RuntimeError"
| "shmget_loop (ShmENOMEM # as) = Inr (None, as)"
| "shmget_loop (ShmOther # as) = Inl RuntimeError"
| "shmget_loop (ShmOk key addr mbind_ok # as) = Inr (Some (key, addr, mbind_ok), as)"

definition alloc_raw ::
  "(nat \<Rightarrow> nat \<Rightarrow> u32) \<Rightarrow> nat \<Rightarrow> DoRegister \<Rightarrow> huge_alloc \<Rightarrow> (Buffer \<times> huge_alloc) res" where
  "alloc_raw reg size0 do_register h =
    (let sz = unat (round_up (of_nat kHugepageSize) (of_nat size0 :: u64))
     in bindE (shmget_loop (os_script h)) (\<lambda>(ans, script).
       case ans of
         None \<Rightarrow> Inr (null_Buffer, h\<lparr>os_script := script\<rparr>)
       | Some (key, shm_buf, mbind_ok) \<Rightarrow>
           rt_assert (shm_buf \<noteq> 0) (rt_assert mbind_ok
             (let do_reg = (do_register = RegTrue);
                  reg_lkey = (if do_reg then reg shm_buf sz else 0xffffffff)
              in assertE (sz mod kHugepageSize = 0)
                (Inr (\<lparr>b_buf = Some shm_buf, class_size = 2 ^ 64 - 1,
                       lkey = (if do_reg then reg_lkey else 0xffffffff)\<rparr>,
                  h\<lparr>shm_list := shm_list h @
                      [\<lparr>sr_key = key, sr_buf = shm_buf, sr_size = sz, sr_registered = do_reg,
                        sr_lkey = reg_lkey\<rparr>],
                    shm_reserved := shm_reserved h + sz, os_script := script\<rparr>))))))"

definition reserve_hugepages ::
  "(nat \<Rightarrow> nat \<Rightarrow> u32) \<Rightarrow> nat \<Rightarrow> huge_alloc \<Rightarrow> (bool \<times> huge_alloc) res" where
  "reserve_hugepages reg sz h = assertE (k_max_class_size \<le> sz)
    (bindE (alloc_raw reg sz RegTrue h) (\<lambda>(buffer, h1).
      case b_buf buffer of
        None \<Rightarrow> Inr (False, h1)
      | Some base \<Rightarrow>
          (let num_buffers = sz div k_max_class_size
           in assertE (1 \<le> num_buffers)
             (Inr (True, fold (\<lambda>i. push_free (k_num_classes - 1)
                  \<lparr>b_buf = Some (base + i * k_max_class_size), class_size = k_max_class_size,
                   lkey = lkey buffer\<rparr>) [0..<num_buffers] h1)))))"

subsection \<open>Allocation\<close>

function next_class :: "Buffer list list \<Rightarrow> nat \<Rightarrow> nat" where
  "next_class fl j =
    (if j < k_num_classes then (if fl ! j \<noteq> [] then j else next_class fl (j + 1)) else j)"
  by pat_completeness auto
termination by (relation "measure (\<lambda>(fl, j). k_num_classes - j)") auto

declare next_class.simps [simp del]

function split_down :: "nat \<Rightarrow> nat \<Rightarrow> huge_alloc \<Rightarrow> huge_alloc res" where
  "split_down next sclass h =
    (if next = sclass then Inr h
     else bindE (split_buf next h) (\<lambda>h1. split_down (next - 1) sclass h1))"
  by pat_completeness auto
termination
  by (relation "measure (\<lambda>(next, c, h). next)") (auto simp: split_buf_def assertE_eq_Inr)

declare split_down.simps [simp del]

definition alloc ::
  "nat \<Rightarrow> (nat \<Rightarrow> nat \<Rightarrow> u32) \<Rightarrow> nat \<Rightarrow> huge_alloc \<Rightarrow> (Buffer \<times> huge_alloc) res" where
  "alloc r0 reg sz h = assertE (sz \<le> k_max_class_size)
    (bindE (get_class r0 sz) (\<lambda>sclass.
     assertE (sclass < k_num_classes)
     (if freelist h ! sclass \<noteq> [] then alloc_from_class sclass h
      else
       (let nc = next_class (freelist h) (sclass + 1)
        in bindE
          (if nc = k_num_classes
           then bindE (reserve_hugepages reg (prev_allocation_size h * 2)
                  (h\<lparr>prev_allocation_size := prev_allocation_size h * 2\<rparr>))
                (\<lambda>(success, h1).
                  if success then Inr (Some (k_num_classes - 1), h1)
                  else Inr (None, h1\<lparr>prev_allocation_size := prev_allocation_size h1 div 2\<rparr>))
           else Inr (Some nc, h))
          (\<lambda>(start, h2).
            case start of
              None \<Rightarrow> Inr (null_Buffer, h2)
            | Some nc2 \<Rightarrow> assertE (nc2 < k_num_classes)
                (bindE (split_down nc2 sclass h2) (\<lambda>h3.
                 assertE (freelist h3 ! sclass \<noteq> []) (alloc_from_class sclass h3))))))))"

subsection \<open>The optimised size-class computation\<close>

text \<open>\<open>class_for sz c\<close>: \<open>c\<close> is the least class whose buffers hold \<open>sz\<close> bytes.\<close>

definition class_for :: "nat \<Rightarrow> nat \<Rightarrow> bool" where
  "class_for sz c \<longleftrightarrow> sz \<le> class_max_size c \<and> (c = 0 \<or> class_max_size (c - 1) < sz)"

lemma class_max_size_mono: "i \<le> j \<Longrightarrow> class_max_size i \<le> class_max_size j"
  by (simp add: class_max_size_def)

lemma class_max_size_Suc: "class_max_size (Suc i) = 2 * class_max_size i"
  by (simp add: class_max_size_def)

lemma class_max_size_0: "class_max_size 0 = 64"
  by (simp add: class_max_size_def)

lemma class_max_size_pos [simp]: "0 < class_max_size i"
  by (simp add: class_max_size_def)

lemma class_max_size_17: "class_max_size 17 = k_max_class_size"
  by (simp add: class_max_size_def)

lemma class_for_le: "class_for sz c \<Longrightarrow> sz \<le> class_max_size d \<Longrightarrow> c \<le> d"
proof (rule ccontr)
  assume a: "class_for sz c" "sz \<le> class_max_size d" "\<not> c \<le> d"
  then have "class_max_size d \<le> class_max_size (c - 1)" by (intro class_max_size_mono) simp
  with a show False by (auto simp: class_for_def)
qed

lemma class_for_unique: "class_for sz c \<Longrightarrow> class_for sz d \<Longrightarrow> c = d"
  by (metis class_for_def class_for_le order_antisym)

lemma class_for_less: "class_for sz c \<Longrightarrow> sz \<le> k_max_class_size \<Longrightarrow> c < k_num_classes"
  using class_for_le [of sz c 17] by (simp add: class_max_size_17)

lemma get_class_slow_spec:
  assumes "1 \<le> sz" "sz \<le> k_max_class_size"
  shows "\<exists>c. get_class_slow sz = Inr c \<and> class_for sz c"
proof -
  let ?b = "\<lambda>(sclass :: nat, class_lim). class_lim < sz"
  let ?c = "\<lambda>(sclass :: nat, class_lim :: nat). (sclass + 1, class_lim * 2)"
  let ?P = "\<lambda>(c, l). l = class_max_size c \<and> (c = 0 \<or> class_max_size (c - 1) < sz)"
  have "case while ?b ?c (0, k_min_class_size) of (c, l) \<Rightarrow> class_for sz c"
    by (rule while_rule [where P = ?P and r = "measure (\<lambda>(c, l). sz - l)"])
      (auto simp: class_for_def class_max_size_Suc class_max_size_0 split: prod.splits
        intro!: diff_less_mono2)
  then have "class_for sz (fst (while ?b ?c (0, k_min_class_size)))"
    by (simp add: case_prod_unfold)
  then show ?thesis using assms by (simp add: get_class_slow_def)
qed

lemma get_class_large:
  assumes "k_min_class_size < sz" "sz \<le> k_max_class_size"
  shows "\<exists>c. get_class r0 sz = Inr c \<and> class_for sz c"
proof -
  let ?n = "(sz - 1) div 64"
  have n: "1 \<le> ?n" "?n < 2 ^ 29" using assms by auto
  let ?k = "bsr_nat ?n"
  have k: "2 ^ ?k \<le> ?n" "?n < 2 ^ Suc ?k" using bsr_nat_bounds [of ?n] n by auto
  have "get_class r0 sz = Inr (Suc ?k)"
    using assms n by (simp add: get_class_def drop_bit_eq_div msb_index_small)
  moreover have "64 * 2 ^ ?k \<le> 64 * ?n" using k by simp
  then have "class_max_size ?k < sz" using assms by (simp add: class_max_size_def)
  moreover have "?n + 1 \<le> 2 ^ Suc ?k" using k by simp
  then have "64 * (?n + 1) \<le> 64 * 2 ^ Suc ?k" by (rule mult_le_mono2)
  then have "sz \<le> class_max_size (Suc ?k)" using assms by (simp add: class_max_size_def)
  ultimately show ?thesis by (auto simp: class_for_def)
qed

lemma get_class_small: "1 \<le> sz \<Longrightarrow> sz \<le> k_min_class_size \<Longrightarrow> get_class r0 sz = Inr r0"
  using msb_index_small [of 0 r0] by (simp add: get_class_def drop_bit_eq_div)

lemma class_for_small: "1 \<le> sz \<Longrightarrow> sz \<le> k_min_class_size \<Longrightarrow> class_for sz 0"
  by (simp add: class_for_def class_max_size_def)

lemma get_class_class_for:
  assumes "1 \<le> sz" "sz \<le> k_max_class_size" "r0 = 0"
  obtains c where "get_class r0 sz = Inr c" "class_for sz c" "c < k_num_classes"
proof (cases "sz \<le> k_min_class_size")
  case True
  then show ?thesis
    using that get_class_small [of sz r0] class_for_small [of sz] assms by auto
next
  case False
  then show ?thesis
    using that get_class_large [of sz r0] class_for_less assms by (metis not_le_imp_less)
qed

lemma get_class_of_class_size:
  assumes "c < k_num_classes" "r0 = 0"
  shows "get_class r0 (class_max_size c) = Inr c"
proof -
  have "class_max_size c \<le> k_max_class_size"
    using class_max_size_mono [of c 17] assms by (simp add: class_max_size_17)
  moreover have "1 \<le> class_max_size c" using class_max_size_pos [of c] by linarith
  ultimately obtain d where d: "get_class r0 (class_max_size c) = Inr d" "class_for (class_max_size c) d"
    using get_class_class_for assms by blast
  moreover have "class_for (class_max_size c) c"
    by (cases c) (auto simp: class_for_def class_max_size_Suc)
  ultimately show ?thesis using class_for_unique by blast
qed



subsection \<open>Memory is conserved\<close>

text \<open>
  The footprint of a buffer is the multiset of its byte addresses; equalities between footprints
  say at once that nothing is lost and that no byte is handed out twice.
\<close>

definition foot :: "Buffer \<Rightarrow> nat multiset" where
  "foot b = (case b_buf b of None \<Rightarrow> {#} | Some a \<Rightarrow> mset [a..<a + class_size b])"

definition list_foot :: "Buffer list \<Rightarrow> nat multiset" where
  "list_foot bs = sum_list (map foot bs)"

definition free_foot :: "huge_alloc \<Rightarrow> nat multiset" where
  "free_foot h = sum_list (map list_foot (freelist h))"

definition shm_foot :: "huge_alloc \<Rightarrow> nat multiset" where
  "shm_foot h = sum_list (map (\<lambda>r. mset [sr_buf r..<sr_buf r + sr_size r]) (shm_list h))"

definition ha_inv :: "huge_alloc \<Rightarrow> bool" where
  "ha_inv h \<longleftrightarrow> length (freelist h) = k_num_classes \<and> k_max_class_size \<le> prev_allocation_size h \<and>
    (\<forall>i < k_num_classes. \<forall>b \<in> set (freelist h ! i). b_buf b \<noteq> None \<and> class_size b = class_max_size i)"

lemma ha_inv_length [simp]: "ha_inv h \<Longrightarrow> length (freelist h) = k_num_classes"
  by (simp add: ha_inv_def)

lemma ha_inv_classD:
  "ha_inv h \<Longrightarrow> i < k_num_classes \<Longrightarrow> b \<in> set (freelist h ! i) \<Longrightarrow>
    b_buf b \<noteq> None \<and> class_size b = class_max_size i"
  by (simp add: ha_inv_def)

lemma list_foot_simps [simp]:
  "list_foot [] = {#}" "list_foot (b # bs) = foot b + list_foot bs"
  "list_foot (bs @ cs) = list_foot bs + list_foot cs"
  by (simp_all add: list_foot_def)

lemma list_foot_butlast: "bs \<noteq> [] \<Longrightarrow> list_foot (butlast bs) + foot (last bs) = list_foot bs"
  by (metis append_butlast_last_id list_foot_simps(1,2,3) add.right_neutral)

lemma push_free_simps [simp]:
  "shm_list (push_free c b h) = shm_list h" "user_alloc_tot (push_free c b h) = user_alloc_tot h"
  "prev_allocation_size (push_free c b h) = prev_allocation_size h"
  "os_script (push_free c b h) = os_script h"
  "freelist (push_free c b h) = (freelist h)[c := freelist h ! c @ [b]]"
  by (simp_all add: push_free_def)

lemma pop_free_simps [simp]:
  "shm_list (pop_free c h) = shm_list h" "user_alloc_tot (pop_free c h) = user_alloc_tot h"
  "prev_allocation_size (pop_free c h) = prev_allocation_size h"
  "os_script (pop_free c h) = os_script h"
  "freelist (pop_free c h) = (freelist h)[c := butlast (freelist h ! c)]"
  by (simp_all add: pop_free_def)

lemma free_foot_push:
  assumes "c < length (freelist h)"
  shows "free_foot (push_free c b h) = free_foot h + foot b"
proof -
  have "free_foot (push_free c b h) + list_foot (freelist h ! c)
      = free_foot h + (list_foot (freelist h ! c) + foot b)"
    using sum_list_map_update [OF assms, of list_foot "freelist h ! c @ [b]"]
    by (simp add: free_foot_def)
  then show ?thesis by (simp add: ac_simps)
qed

lemma free_foot_pop:
  assumes "c < length (freelist h)" "freelist h ! c \<noteq> []"
  shows "free_foot (pop_free c h) + foot (last (freelist h ! c)) = free_foot h"
proof -
  have "free_foot (pop_free c h) + list_foot (freelist h ! c)
      = free_foot h + list_foot (butlast (freelist h ! c))"
    using sum_list_map_update [OF assms(1), of list_foot "butlast (freelist h ! c)"]
    by (simp add: free_foot_def)
  then have "free_foot (pop_free c h) + foot (last (freelist h ! c))
      + list_foot (butlast (freelist h ! c)) = free_foot h + list_foot (butlast (freelist h ! c))"
    using list_foot_butlast [OF assms(2)] by (metis add.assoc add.commute)
  then show ?thesis by simp
qed

lemma ha_inv_push:
  "ha_inv h \<Longrightarrow> b_buf b \<noteq> None \<Longrightarrow> class_size b = class_max_size c \<Longrightarrow> ha_inv (push_free c b h)"
  by (auto simp: ha_inv_def nth_list_update_full split: if_splits)

lemma ha_inv_pop: "ha_inv h \<Longrightarrow> ha_inv (pop_free c h)"
  by (auto simp: ha_inv_def nth_list_update_full dest: in_set_butlastD split: if_splits)

lemma ha_inv_cong:
  "freelist h' = freelist h \<Longrightarrow> k_max_class_size \<le> prev_allocation_size h' \<Longrightarrow> ha_inv h \<Longrightarrow> ha_inv h'"
  by (simp add: ha_inv_def)

lemma foot_halves:
  assumes "b_buf b = Some a" "class_size b = 2 * s"
  shows "foot \<lparr>b_buf = Some a, class_size = s, lkey = k\<rparr> +
    foot \<lparr>b_buf = Some (a + s), class_size = s, lkey = k\<rparr> = foot b"
proof -
  have "[a..<a + 2 * s] = [a..<a + s] @ [a + s..<a + s + s]"
    using upt_add_eq_append [of a "a + s" s] by (simp add: mult_2 add.assoc)
  then have "mset [a..<a + 2 * s] = mset [a..<a + s] + mset [a + s..<a + s + s]" by simp
  then show ?thesis using assms by (simp add: foot_def)
qed

subsection \<open>Splitting\<close>

text \<open>What a split keeps: the invariant, the free bytes, the accounting and the smaller classes.\<close>

definition split_ok :: "nat \<Rightarrow> huge_alloc \<Rightarrow> huge_alloc \<Rightarrow> bool" where
  "split_ok c h h' \<longleftrightarrow> ha_inv h' \<and> free_foot h' = free_foot h \<and> shm_list h' = shm_list h \<and>
    user_alloc_tot h' = user_alloc_tot h \<and> prev_allocation_size h' = prev_allocation_size h \<and>
    (\<forall>j < c. freelist h' ! j = freelist h ! j)"

lemma split_buf_ok:
  assumes inv: "ha_inv h" and c: "1 \<le> c" "c < k_num_classes"
    and ne: "freelist h ! c \<noteq> []" and emp: "freelist h ! (c - 1) = []"
  shows "holds (\<lambda>h'. split_ok (c - 1) h h' \<and> freelist h' ! (c - 1) \<noteq> []) (split_buf c h)"
proof -
  let ?b = "last (freelist h ! c)" and ?s = "class_max_size (c - 1)"
  obtain a where a: "b_buf ?b = Some a" and sz: "class_size ?b = class_max_size c"
    using ha_inv_classD [OF inv c(2) last_in_set [OF ne]] by auto
  have two: "class_max_size c = 2 * ?s" using c class_max_size_Suc [of "c - 1"] by simp
  let ?b0 = "\<lparr>b_buf = Some a, class_size = ?s, lkey = lkey ?b\<rparr>"
  let ?b1 = "\<lparr>b_buf = Some (a + ?s), class_size = ?s, lkey = lkey ?b\<rparr>"
  let ?h' = "push_free (c - 1) ?b1 (push_free (c - 1) ?b0 (pop_free c h))"
  have "split_buf c h = Inr ?h'"
    using c ne emp a sz two by (simp add: split_buf_def Let_def)
  moreover have "ha_inv ?h'" using inv by (intro ha_inv_push ha_inv_pop) simp_all
  moreover have "free_foot ?h' = free_foot (pop_free c h) + (foot ?b0 + foot ?b1)"
    using inv c by (simp add: free_foot_push ac_simps)
  then have "free_foot ?h' = free_foot h"
    using foot_halves [OF a, of ?s "lkey ?b"] sz two free_foot_pop [of c h] inv c ne by simp
  ultimately show ?thesis using inv c by (simp add: split_ok_def)
qed

lemma split_down_ok:
  assumes "ha_inv h" "c \<le> n" "n < k_num_classes" "freelist h ! n \<noteq> []"
    "\<forall>j. c \<le> j \<and> j < n \<longrightarrow> freelist h ! j = []"
  shows "holds (\<lambda>h'. split_ok c h h' \<and> freelist h' ! c \<noteq> []) (split_down n c h)"
  using assms
proof (induction "n - c" arbitrary: n h)
  case 0
  then show ?case by (simp add: split_down.simps split_ok_def)
next
  case (Suc d)
  from Suc.hyps(2) Suc.prems have n: "1 \<le> n" "n < k_num_classes" "n \<noteq> c" "c \<le> n - 1" by linarith+
  then have "holds (\<lambda>h'. split_ok (n - 1) h h' \<and> freelist h' ! (n - 1) \<noteq> []) (split_buf n h)"
    using Suc.prems by (intro split_buf_ok) auto
  then obtain h1 where h1: "split_buf n h = Inr h1" "split_ok (n - 1) h h1" "freelist h1 ! (n - 1) \<noteq> []"
    by (auto elim: holdsE)
  have "holds (\<lambda>h'. split_ok c h1 h' \<and> freelist h' ! c \<noteq> []) (split_down (n - 1) c h1)"
    using Suc.hyps(2) Suc.prems n h1 by (intro Suc.hyps(1)) (auto simp: split_ok_def)
  then show ?case using h1 n by (auto simp: split_down.simps [of n] split_ok_def elim!: holdsE)
qed

lemma next_class_spec:
  "j \<le> k_num_classes \<Longrightarrow> j \<le> next_class fl j \<and> next_class fl j \<le> k_num_classes \<and>
    (next_class fl j < k_num_classes \<longrightarrow> fl ! next_class fl j \<noteq> []) \<and>
    (\<forall>i. j \<le> i \<and> i < next_class fl j \<longrightarrow> fl ! i = [])"
proof (induction fl j rule: next_class.induct)
  case (1 fl j)
  show ?case
  proof (cases "j < k_num_classes \<and> fl ! j = []")
    case True
    then show ?thesis
      using "1.IH" by (auto simp: next_class.simps [of fl j] le_eq_less_or_eq [of j] Suc_le_eq)
  next
    case False
    then show ?thesis using "1.prems" by (auto simp: next_class.simps [of fl j])
  qed
qed

subsection \<open>Reserving\<close>

definition os_error :: "error \<Rightarrow> bool" where
  "os_error e \<longleftrightarrow> e = RuntimeError \<or> e = NoReturn"

lemma shmget_loop_error: "shmget_loop as = Inl e \<Longrightarrow> os_error e"
  by (induction as rule: shmget_loop.induct) (auto simp: os_error_def)

text \<open>With a call that only fails through the operating system: no assertion, no stray access.\<close>

definition os_holds :: "('a \<Rightarrow> bool) \<Rightarrow> 'a res \<Rightarrow> bool" where
  "os_holds P m = (case m of Inl e \<Rightarrow> os_error e | Inr x \<Rightarrow> P x)"

lemma os_holds_simps [simp]: "os_holds P (Inr x) = P x" "os_holds P (Inl e) = os_error e"
  by (simp_all add: os_holds_def)

lemma os_holds_bind: "os_holds P m \<Longrightarrow> (\<And>x. P x \<Longrightarrow> os_holds Q (f x)) \<Longrightarrow> os_holds Q (bindE m f)"
  by (cases m) auto

lemma os_holds_weaken: "os_holds P m \<Longrightarrow> (\<And>x. P x \<Longrightarrow> Q x) \<Longrightarrow> os_holds Q m"
  by (cases m) auto

lemma holds_os_holds: "holds P m \<Longrightarrow> os_holds P m"
  by (cases m) auto

lemma huge_round_up:
  assumes "sz \<le> 2 ^ 63"
  shows "sz \<le> unat (round_up (of_nat kHugepageSize) (of_nat sz :: u64))"
    and "unat (round_up (of_nat kHugepageSize) (of_nat sz :: u64)) mod kHugepageSize = 0"
proof -
  have u: "unat (of_nat sz :: u64) = sz" "unat (of_nat kHugepageSize :: u64) = 2 ^ 21"
    using assms by (simp_all add: unat_of_nat take_bit_eq_mod)
  have eq: "unat (round_up (of_nat kHugepageSize) (of_nat sz :: u64)) = ((sz + 2 ^ 21 - 1) div 2 ^ 21) * 2 ^ 21"
    using unat_round_up [OF u(2), of "of_nat sz"] assms unfolding u by simp
  show "sz \<le> unat (round_up (of_nat kHugepageSize) (of_nat sz :: u64))"
    unfolding eq by (rule round_up_nat_bounds) simp
  show "unat (round_up (of_nat kHugepageSize) (of_nat sz :: u64)) mod kHugepageSize = 0"
    unfolding eq by simp
qed

lemma alloc_raw_ok:
  assumes "sz \<le> 2 ^ 63"
  shows "os_holds (\<lambda>(b, h'). freelist h' = freelist h \<and> user_alloc_tot h' = user_alloc_tot h \<and>
      prev_allocation_size h' = prev_allocation_size h \<and>
      (case b_buf b of None \<Rightarrow> shm_list h' = shm_list h
       | Some a \<Rightarrow> \<exists>r. shm_list h' = shm_list h @ [r] \<and> sr_buf r = a \<and> sz \<le> sr_size r))
    (alloc_raw reg sz reg_it h)"
proof (cases "shmget_loop (os_script h)")
  case (Inl e)
  then show ?thesis using shmget_loop_error by (simp add: alloc_raw_def Let_def)
next
  case (Inr x)
  then show ?thesis
    using huge_round_up [OF assms]
    by (cases x) (auto simp: alloc_raw_def Let_def null_Buffer_def rt_assert_def os_error_def
        split: option.splits)
qed

lemma free_foot_cong: "freelist h' = freelist h \<Longrightarrow> free_foot h' = free_foot h"
  by (simp add: free_foot_def)

lemma shm_foot_cong: "shm_list h' = shm_list h \<Longrightarrow> shm_foot h' = shm_foot h"
  by (simp add: shm_foot_def)

lemma fold_push_max:
  fixes base :: nat and k :: u32
  defines "mk \<equiv> \<lambda>i. \<lparr>b_buf = Some (base + i * k_max_class_size), class_size = k_max_class_size, lkey = k\<rparr>"
  defines "step \<equiv> \<lambda>i. push_free 17 (mk i)"
  assumes "ha_inv h"
  shows "ha_inv (fold step [0..<n] h) \<and> shm_list (fold step [0..<n] h) = shm_list h \<and>
    user_alloc_tot (fold step [0..<n] h) = user_alloc_tot h \<and>
    prev_allocation_size (fold step [0..<n] h) = prev_allocation_size h \<and>
    (\<forall>j < 17. freelist (fold step [0..<n] h) ! j = freelist h ! j) \<and>
    (0 < n \<longrightarrow> freelist (fold step [0..<n] h) ! 17 \<noteq> []) \<and>
    free_foot (fold step [0..<n] h) = free_foot h + mset [base..<base + n * k_max_class_size]"
proof (induction n)
  case 0
  then show ?case using assms by simp
next
  case (Suc n)
  let ?g = "fold step [0..<n] h"
  have eq: "fold step [0..<Suc n] h = push_free 17 (mk n) ?g" by (simp add: step_def)
  have inv: "ha_inv ?g" using Suc by simp
  have "[base..<base + Suc n * k_max_class_size]
      = [base..<base + n * k_max_class_size] @ [base + n * k_max_class_size..<base + n * k_max_class_size + k_max_class_size]"
    using upt_add_eq_append [of base "base + n * k_max_class_size" k_max_class_size]
    by (simp add: algebra_simps)
  then have "mset [base..<base + Suc n * k_max_class_size]
      = mset [base..<base + n * k_max_class_size] + foot (mk n)"
    by (simp add: foot_def mk_def)
  moreover have "free_foot (push_free 17 (mk n) ?g) = free_foot ?g + foot (mk n)"
    using inv by (intro free_foot_push) simp
  moreover have "ha_inv (push_free 17 (mk n) ?g)"
    using inv class_max_size_17 by (intro ha_inv_push) (simp_all add: mk_def)
  ultimately show ?case unfolding eq using Suc.IH inv by simp
qed

definition reserve_post :: "huge_alloc \<Rightarrow> bool \<times> huge_alloc \<Rightarrow> bool" where
  "reserve_post h = (\<lambda>(ok, h'). ha_inv h' \<and> user_alloc_tot h' = user_alloc_tot h \<and>
    prev_allocation_size h' = prev_allocation_size h \<and>
    (if ok then freelist h' ! 17 \<noteq> [] \<and> (\<forall>j < 17. freelist h' ! j = freelist h ! j) \<and>
       (\<exists>new. free_foot h' = free_foot h + new \<and> shm_foot h + new \<subseteq># shm_foot h')
     else freelist h' = freelist h \<and> shm_list h' = shm_list h))"

lemma reserve_hugepages_ok:
  assumes inv: "ha_inv h" and sz: "k_max_class_size \<le> sz" "sz \<le> 2 ^ 63"
  shows "os_holds (reserve_post h) (reserve_hugepages reg sz h)"
proof -
  have nb: "1 \<le> sz div k_max_class_size" using sz by (simp add: Suc_le_eq div_greater_zero_iff)
  show ?thesis
    unfolding reserve_hugepages_def assertE_True [OF sz(1)]
  proof (rule os_holds_bind [OF alloc_raw_ok [OF sz(2)]], goal_cases)
    case (1 x)
    obtain b h1 where x: "x = (b, h1)" by fastforce
    have inv1: "ha_inv h1" using 1 x inv by (auto intro: ha_inv_cong simp: ha_inv_def)
    show ?case
    proof (cases "b_buf b")
      case None
      then show ?thesis using 1 x inv1 by (simp add: reserve_post_def)
    next
      case (Some a)
      then obtain r where r: "shm_list h1 = shm_list h @ [r]" "sr_buf r = a" "sz \<le> sr_size r"
        using 1 x by auto
      let ?n = "sz div k_max_class_size"
      have "[a..<a + sr_size r] = [a..<a + ?n * k_max_class_size] @ [a + ?n * k_max_class_size..<a + sr_size r]"
        using r(3) upt_add_eq_append [of a "a + ?n * k_max_class_size" "sr_size r - ?n * k_max_class_size"]
        by (simp add: le_trans [OF div_times_less_eq_dividend])
      then have "mset [a..<a + ?n * k_max_class_size] \<subseteq># mset [a..<a + sr_size r]"
        by (simp only: mset_append) simp
      then have "shm_foot h + mset [a..<a + ?n * k_max_class_size] \<subseteq># shm_foot h1"
        using r by (simp add: shm_foot_def)
      moreover have "free_foot h1 = free_foot h" using 1 x by (auto intro: free_foot_cong)
      ultimately show ?thesis
        using fold_push_max [OF inv1, of a "lkey b" ?n] nb Some 1 x
        by (auto simp: reserve_post_def shm_foot_def)
    qed
  qed
qed

subsection \<open>Allocation and release\<close>

definition alloc_post :: "nat \<Rightarrow> huge_alloc \<Rightarrow> Buffer \<times> huge_alloc \<Rightarrow> bool" where
  "alloc_post sz h = (\<lambda>(b, h'). ha_inv h' \<and>
    (if b_buf b = None
     then free_foot h' = free_foot h \<and> shm_foot h' = shm_foot h \<and> user_alloc_tot h' = user_alloc_tot h
     else (\<exists>c. class_for sz c \<and> class_size b = class_max_size c) \<and>
       user_alloc_tot h' = user_alloc_tot h + class_size b \<and>
       (\<exists>new. free_foot h' + foot b = free_foot h + new \<and> shm_foot h + new \<subseteq># shm_foot h')))"

lemma alloc_from_class_ok:
  assumes inv: "ha_inv h" and c: "c < k_num_classes" and ne: "freelist h ! c \<noteq> []"
  shows "holds (\<lambda>(b, h'). ha_inv h' \<and> b_buf b \<noteq> None \<and> class_size b = class_max_size c \<and>
      user_alloc_tot h' = user_alloc_tot h + class_size b \<and> shm_list h' = shm_list h \<and>
      free_foot h' + foot b = free_foot h) (alloc_from_class c h)"
proof -
  let ?b = "last (freelist h ! c)"
  have b: "b_buf ?b \<noteq> None" "class_size ?b = class_max_size c"
    using ha_inv_classD [OF inv c last_in_set [OF ne]] by auto
  have "?b\<lparr>class_size := class_max_size c\<rparr> = ?b" using b(2) by (cases ?b) simp
  then have eq: "alloc_from_class c h = Inr (?b, (pop_free c h)\<lparr>user_alloc_tot := user_alloc_tot h + class_size ?b\<rparr>)"
    using c ne b by (simp add: alloc_from_class_def Let_def)
  have "free_foot ((pop_free c h)\<lparr>user_alloc_tot := user_alloc_tot h + class_size ?b\<rparr>) = free_foot (pop_free c h)"
    by (rule free_foot_cong) simp
  moreover have "ha_inv ((pop_free c h)\<lparr>user_alloc_tot := user_alloc_tot h + class_size ?b\<rparr>)"
    using ha_inv_pop [OF inv, of c] by (rule ha_inv_cong [rotated 2]) (use inv in \<open>simp_all add: ha_inv_def\<close>)
  ultimately show ?thesis unfolding eq using free_foot_pop [of c h] inv c ne b by simp
qed

lemma alloc_split_ok:
  assumes inv: "ha_inv h" and c: "class_for sz c" "c \<le> n" "n < k_num_classes"
    and ne: "freelist h ! n \<noteq> []" and emp: "\<forall>j. c \<le> j \<and> j < n \<longrightarrow> freelist h ! j = []"
  shows "holds (\<lambda>y. alloc_post sz h y \<and> b_buf (fst y) \<noteq> None) (assertE (n < k_num_classes) (bindE (split_down n c h)
    (\<lambda>h3. assertE (freelist h3 ! c \<noteq> []) (alloc_from_class c h3))))"
proof -
  obtain h3 where h3: "split_down n c h = Inr h3" "split_ok c h h3" "freelist h3 ! c \<noteq> []"
    using split_down_ok [OF inv c(2,3) ne emp] by (auto elim: holdsE)
  have "holds (\<lambda>(b, h'). ha_inv h' \<and> b_buf b \<noteq> None \<and> class_size b = class_max_size c \<and>
      user_alloc_tot h' = user_alloc_tot h3 + class_size b \<and> shm_list h' = shm_list h3 \<and>
      free_foot h' + foot b = free_foot h3) (alloc_from_class c h3)"
    using h3 c by (intro alloc_from_class_ok) (auto simp: split_ok_def)
  then show ?thesis
    using h3 c by (auto simp: alloc_post_def split_ok_def elim!: holdsE intro!: exI [of _ "{#}"] shm_foot_cong)
      (auto simp: shm_foot_def)
qed

lemma alloc_post_after_reserve:
  assumes res: "reserve_post h0 (True, h1)"
    and eq: "free_foot h0 = free_foot h" "shm_foot h0 = shm_foot h" "user_alloc_tot h0 = user_alloc_tot h"
    and post: "alloc_post sz h1 (b, h')" and b: "b_buf b \<noteq> None"
  shows "alloc_post sz h (b, h')"
proof -
  obtain n1 where n1: "free_foot h1 = free_foot h + n1" "shm_foot h + n1 \<subseteq># shm_foot h1"
    using res eq by (auto simp: reserve_post_def)
  obtain n2 where n2: "free_foot h' + foot b = free_foot h1 + n2" "shm_foot h1 + n2 \<subseteq># shm_foot h'"
    using post b by (auto simp: alloc_post_def)
  have "shm_foot h + (n1 + n2) \<subseteq># shm_foot h1 + n2"
    using n1(2) by (simp add: add.assoc [symmetric])
  then have "shm_foot h + (n1 + n2) \<subseteq># shm_foot h'" using n2(2) by (rule subset_mset.order_trans)
  moreover have "free_foot h' + foot b = free_foot h + (n1 + n2)"
    using n1(1) n2(1) by (simp add: ac_simps)
  ultimately show ?thesis using post b res eq by (auto simp: alloc_post_def reserve_post_def)
qed

lemma alloc_ok:
  assumes inv: "ha_inv h" and sz: "1 \<le> sz" "sz \<le> k_max_class_size" and r0: "r0 = 0"
    and room: "prev_allocation_size h \<le> 2 ^ 62"
  shows "os_holds (alloc_post sz h) (alloc r0 reg sz h)"
proof -
  obtain c where c: "get_class r0 sz = Inr c" "class_for sz c" "c < k_num_classes"
    using get_class_class_for sz r0 by blast
  let ?n = "next_class (freelist h) (c + 1)"
  have n: "c + 1 \<le> ?n" "?n \<le> k_num_classes" "?n < k_num_classes \<Longrightarrow> freelist h ! ?n \<noteq> []"
    "\<And>i. c + 1 \<le> i \<Longrightarrow> i < ?n \<Longrightarrow> freelist h ! i = []"
    using next_class_spec [of "c + 1" "freelist h"] c(3) by auto
  consider (hit) "freelist h ! c \<noteq> []" | (larger) "freelist h ! c = []" "?n < k_num_classes"
    | (reserve) "freelist h ! c = []" "?n = k_num_classes" using n(2) by linarith
  then show ?thesis
  proof cases
    case hit
    then have "holds (alloc_post sz h) (alloc_from_class c h)"
      using c by (intro holds_weaken [OF alloc_from_class_ok [OF inv c(3)]])
        (auto simp: alloc_post_def shm_foot_def intro!: exI [of _ "{#}"])
    then show ?thesis using hit c sz by (simp add: alloc_def holds_os_holds)
  next
    case larger
    then have "holds (\<lambda>y. alloc_post sz h y \<and> b_buf (fst y) \<noteq> None) (assertE (?n < k_num_classes) (bindE (split_down ?n c h)
        (\<lambda>h3. assertE (freelist h3 ! c \<noteq> []) (alloc_from_class c h3))))"
      using n by (intro alloc_split_ok [OF inv c(2)]) (auto simp: le_eq_less_or_eq [of c] Suc_le_eq)
    then have "holds (alloc_post sz h) (assertE (?n < k_num_classes) (bindE (split_down ?n c h)
        (\<lambda>h3. assertE (freelist h3 ! c \<noteq> []) (alloc_from_class c h3))))"
      by (rule holds_weaken) simp
    then show ?thesis using larger c sz by (simp add: alloc_def Let_def holds_os_holds)
  next
    case reserve
    let ?h0 = "h\<lparr>prev_allocation_size := prev_allocation_size h * 2\<rparr>"
    have inv0: "ha_inv ?h0" using inv by (auto simp: ha_inv_def)
    have f0: "free_foot ?h0 = free_foot h" "shm_foot ?h0 = shm_foot h"
      by (auto intro: free_foot_cong shm_foot_cong)
    have user0: "user_alloc_tot ?h0 = user_alloc_tot h" by simp
    have "k_max_class_size \<le> prev_allocation_size h * 2" using inv by (simp add: ha_inv_def)
    then have res: "os_holds (reserve_post ?h0) (reserve_hugepages reg (prev_allocation_size h * 2) ?h0)"
      using room by (intro reserve_hugepages_ok [OF inv0]) auto
    show ?thesis
    proof (cases "reserve_hugepages reg (prev_allocation_size h * 2) ?h0")
      case (Inl e)
      then show ?thesis using res reserve c sz by (simp add: alloc_def Let_def)
    next
      case (Inr x)
      obtain ok h1 where x: "x = (ok, h1)" by fastforce
      have post: "reserve_post ?h0 (ok, h1)" using res Inr x by simp
      show ?thesis
      proof (cases ok)
        case False
        then have "alloc_post sz h (null_Buffer, h1\<lparr>prev_allocation_size := prev_allocation_size h1 div 2\<rparr>)"
          using post inv by (auto simp: reserve_post_def alloc_post_def null_Buffer_def ha_inv_def
              free_foot_def shm_foot_def)
        then show ?thesis using Inr x False reserve c sz by (simp add: alloc_def Let_def)
      next
        case True
        from post True have h1: "ha_inv h1" "freelist h1 ! 17 \<noteq> []"
          "\<And>j. j < 17 \<Longrightarrow> freelist h1 ! j = freelist h ! j"
          by (simp_all add: reserve_post_def)
        have emp: "freelist h1 ! j = []" if "c \<le> j" "j < 17" for j
          using that h1(3) [OF that(2)] n(4) [of j] reserve by (cases "j = c") auto
        have "holds (\<lambda>y. alloc_post sz h1 y \<and> b_buf (fst y) \<noteq> None) (assertE (17 < k_num_classes) (bindE (split_down 17 c h1)
            (\<lambda>h3. assertE (freelist h3 ! c \<noteq> []) (alloc_from_class c h3))))"
          using h1 emp c by (intro alloc_split_ok) auto
        then have "holds (alloc_post sz h) (assertE (17 < k_num_classes) (bindE (split_down 17 c h1)
            (\<lambda>h3. assertE (freelist h3 ! c \<noteq> []) (alloc_from_class c h3))))"
          using post True
          by (elim holds_weaken) (auto intro: alloc_post_after_reserve [OF _ f0 user0])
        then show ?thesis
          using Inr x True reserve c sz by (simp add: alloc_def Let_def holds_os_holds)
      qed
    qed
  qed
qed

text \<open>A buffer that a user may give back: it is valid and its size is that of a class.\<close>

definition owned :: "Buffer \<Rightarrow> bool" where
  "owned b \<longleftrightarrow> b_buf b \<noteq> None \<and> (\<exists>c < k_num_classes. class_size b = class_max_size c)"

lemma alloc_post_owned:
  "alloc_post sz h (b, h') \<Longrightarrow> sz \<le> k_max_class_size \<Longrightarrow> b_buf b \<noteq> None \<Longrightarrow> owned b"
  by (auto simp: alloc_post_def owned_def dest: class_for_less)

lemma free_buf_ok:
  assumes inv: "ha_inv h" and b: "owned b" and r0: "r0 = 0"
  shows "holds (\<lambda>h'. ha_inv h' \<and> free_foot h' = free_foot h + foot b \<and> shm_list h' = shm_list h \<and>
    user_alloc_tot h' = sub64 (user_alloc_tot h) (class_size b)) (free_buf r0 b h)"
proof -
  obtain c where c: "c < k_num_classes" "class_size b = class_max_size c" and some: "b_buf b \<noteq> None"
    using b by (auto simp: owned_def)
  let ?h' = "(push_free c b h)\<lparr>user_alloc_tot := sub64 (user_alloc_tot h) (class_size b)\<rparr>"
  have "free_buf r0 b h = Inr ?h'"
    using c some get_class_of_class_size [OF c(1) r0] by (simp add: free_buf_def)
  moreover have "free_foot ?h' = free_foot (push_free c b h)" by (rule free_foot_cong) simp
  moreover have "ha_inv ?h'"
    using ha_inv_push [OF inv some c(2)] by (rule ha_inv_cong [rotated 2]) (use inv in \<open>simp_all add: ha_inv_def\<close>)
  ultimately show ?thesis using free_foot_push [of c h b] inv c by simp
qed

subsection \<open>The allocator as an interface\<close>

text \<open>
  What the layers above (message buffers, the timing wheel's bucket pool) rely on. \<open>u\<close> stands for
  the footprint of everything handed out so far; \<open>pool\<close> for the memory obtained from the system.
\<close>

locale buffer_allocator =
  fixes al :: "nat \<Rightarrow> 'h \<Rightarrow> ('b \<times> 'h) res"
    and fr :: "'b \<Rightarrow> 'h \<Rightarrow> 'h res"
    and ready :: "'h \<Rightarrow> bool"
    and inv :: "'h \<Rightarrow> bool"
    and max_req :: nat
    and is_null :: "'b \<Rightarrow> bool"
    and may_free :: "'b \<Rightarrow> bool"
    and bfoot :: "'b \<Rightarrow> nat multiset"
    and ffoot :: "'h \<Rightarrow> nat multiset"
    and pool :: "'h \<Rightarrow> nat multiset"
  assumes al_inv: "ready h \<Longrightarrow> 1 \<le> n \<Longrightarrow> n \<le> max_req \<Longrightarrow> al n h = Inr (b, h') \<Longrightarrow> inv h'"
    and al_size: "ready h \<Longrightarrow> 1 \<le> n \<Longrightarrow> n \<le> max_req \<Longrightarrow> al n h = Inr (b, h') \<Longrightarrow> \<not> is_null b \<Longrightarrow>
      may_free b \<and> n \<le> size (bfoot b)"
    and al_moves: "ready h \<Longrightarrow> 1 \<le> n \<Longrightarrow> n \<le> max_req \<Longrightarrow> al n h = Inr (b, h') \<Longrightarrow> \<not> is_null b \<Longrightarrow>
      \<exists>new. ffoot h' + bfoot b = ffoot h + new \<and> pool h + new \<subseteq># pool h'"
    and fr_gives: "inv h \<Longrightarrow> may_free b \<Longrightarrow>
      \<exists>h'. fr b h = Inr h' \<and> inv h' \<and> ffoot h' = ffoot h + bfoot b \<and> pool h' = pool h"
begin

lemma alloc_keeps_accounted:
  assumes "ready h" "1 \<le> n" "n \<le> max_req" "al n h = Inr (b, h')" "\<not> is_null b"
    and acc: "ffoot h + u \<subseteq># pool h"
  shows "ffoot h' + (u + bfoot b) \<subseteq># pool h'"
proof -
  obtain new where new: "ffoot h' + bfoot b = ffoot h + new" "pool h + new \<subseteq># pool h'"
    using al_moves assms by blast
  have "ffoot h' + (u + bfoot b) = (ffoot h + u) + new" using new(1) by (simp add: ac_simps)
  also have "\<dots> \<subseteq># pool h + new" using acc by simp
  finally show ?thesis using new(2) by (rule subset_mset.order_trans)
qed

lemma alloc_fresh:
  assumes "ready h" "1 \<le> n" "n \<le> max_req" "al n h = Inr (b, h')" "\<not> is_null b"
    and acc: "ffoot h + u \<subseteq># pool h" and once: "\<forall>x. count (pool h') x \<le> 1"
  shows "set_mset (bfoot b) \<inter> (set_mset u \<union> set_mset (ffoot h')) = {}"
proof (rule ccontr)
  assume "set_mset (bfoot b) \<inter> (set_mset u \<union> set_mset (ffoot h')) \<noteq> {}"
  then obtain x where x: "x \<in># bfoot b" "x \<in># u + ffoot h'" by auto
  have "count (ffoot h' + (u + bfoot b)) x \<le> count (pool h') x"
    using alloc_keeps_accounted [OF assms(1-6)] by (rule mset_subset_eq_count)
  moreover have "1 \<le> count (bfoot b) x" "1 \<le> count (u + ffoot h') x"
    using x by (metis Suc_le_eq One_nat_def count_greater_zero_iff)+
  ultimately show False using once [rule_format, of x] unfolding count_union by linarith
qed

lemma free_keeps_accounted:
  assumes "inv h" "may_free b" "ffoot h + (u + bfoot b) \<subseteq># pool h"
  shows "\<exists>h'. fr b h = Inr h' \<and> inv h' \<and> ffoot h' + u \<subseteq># pool h'"
proof -
  obtain h' where h': "fr b h = Inr h'" "inv h'" "ffoot h' = ffoot h + bfoot b" "pool h' = pool h"
    using fr_gives [OF assms(1,2)] by blast
  then have "ffoot h' + u = ffoot h + (u + bfoot b)" by (simp add: ac_simps)
  then show ?thesis using h' assms(3) by metis
qed

end

definition ha_ready :: "huge_alloc \<Rightarrow> bool" where
  "ha_ready h \<longleftrightarrow> ha_inv h \<and> prev_allocation_size h \<le> 2 ^ 62"

lemma alloc_ready_post:
  "ha_ready h \<Longrightarrow> 1 \<le> sz \<Longrightarrow> sz \<le> k_max_class_size \<Longrightarrow> alloc 0 reg sz h = Inr (b, h') \<Longrightarrow>
    alloc_post sz h (b, h')"
  using alloc_ok [of h sz 0 reg] by (simp add: ha_ready_def)

lemma size_foot_Some: "b_buf b \<noteq> None \<Longrightarrow> size (foot b) = class_size b"
  by (auto simp: foot_def)

interpretation hal: buffer_allocator "alloc 0 reg" "free_buf 0" ha_ready ha_inv k_max_class_size
  "\<lambda>b. b_buf b = None" owned foot free_foot shm_foot
proof (unfold_locales, goal_cases)
  case (1 h n b h')
  then show ?case using alloc_ready_post [of h n reg b h'] by (simp add: alloc_post_def)
next
  case (2 h n b h')
  then have post: "alloc_post n h (b, h')" using alloc_ready_post by blast
  then show ?case
    using 2 alloc_post_owned [OF post] by (auto simp: alloc_post_def class_for_def size_foot_Some)
next
  case (3 h n b h')
  then show ?case using alloc_ready_post [of h n reg b h'] by (simp add: alloc_post_def)
next
  case (4 h b)
  then show ?case using free_buf_ok [of h b 0] by (auto elim!: holdsE intro: shm_foot_cong)
qed

text \<open>
  C7. A successful allocation returns memory that nobody else holds. If the free bytes and the bytes
  in use (\<open>u\<close>) together come from the regions obtained from the system, and those regions do not
  overlap, then the returned buffer overlaps neither a buffer in use nor the remaining free lists,
  it is large enough, and the accounting holds again with the new buffer counted as used.
\<close>

theorem alloc_disjoint:
  assumes "ha_ready h" "1 \<le> sz" "sz \<le> k_max_class_size" "alloc 0 reg sz h = Inr (b, h')"
    "b_buf b \<noteq> None" "free_foot h + u \<subseteq># shm_foot h" "\<forall>x. count (shm_foot h') x \<le> 1"
  shows "set_mset (foot b) \<inter> (set_mset u \<union> set_mset (free_foot h')) = {} \<and> sz \<le> size (foot b) \<and>
    free_foot h' + (u + foot b) \<subseteq># shm_foot h'"
  using hal.alloc_fresh [OF assms] hal.alloc_keeps_accounted [OF assms(1-6)] hal.al_size [OF assms(1-5)]
  by simp


text \<open>
  Giving a buffer back returns exactly its bytes to the free lists and takes its class size off
  the user's total, without a failed assertion.
\<close>

theorem free_buf_returns_memory:
  assumes "ha_inv h" "owned b" "class_size b \<le> user_alloc_tot h"
  shows "\<exists>h'. free_buf 0 b h = Inr h' \<and> ha_inv h' \<and> free_foot h' = free_foot h + foot b \<and>
    user_alloc_tot h' = user_alloc_tot h - class_size b"
  using free_buf_ok [OF assms(1,2)] assms(3) by (auto elim: holdsE)

subsection \<open>Witnesses\<close>

text \<open>An allocator with one free 128-byte buffer, carved from one region.\<close>

definition ha_example_buf :: Buffer where
  "ha_example_buf = \<lparr>b_buf = Some 4096, class_size = 128, lkey = 5\<rparr>"

definition ha_example :: huge_alloc where
  "ha_example = \<lparr>shm_list = [\<lparr>sr_key = 7, sr_buf = 4096, sr_size = 128, sr_registered = True, sr_lkey = 5\<rparr>],
    freelist = (replicate k_num_classes [])[1 := [ha_example_buf]],
    prev_allocation_size = k_max_class_size, shm_reserved = 128, user_alloc_tot = 0, os_script = []\<rparr>"

lemma ha_example_ready: "ha_ready ha_example"
  by (auto simp: ha_ready_def ha_inv_def ha_example_def ha_example_buf_def class_max_size_def
      nth_list_update_full split: if_splits)

lemma ha_example_get_class: "get_class 0 100 = Inr 1"
proof -
  have "get_class 0 (100::nat) = msb_index 0 (of_nat 1)"
    by (simp add: get_class_def drop_bit_eq_div)
  also have "\<dots> = Inr 1" by (subst msb_index_small) (simp_all add: bsr_nat.simps)
  finally show ?thesis .
qed

lemma ha_example_alloc:
  "alloc 0 (\<lambda>_ _. 0) 100 ha_example = Inr (ha_example_buf,
    (pop_free 1 ha_example)\<lparr>user_alloc_tot := 128\<rparr>)"
  using ha_example_get_class
  by (simp add: alloc_def alloc_from_class_def ha_example_def class_max_size_def ha_example_buf_def Let_def)

lemma ha_example_foot: "free_foot ha_example = foot ha_example_buf"
  "shm_foot ha_example = foot ha_example_buf"
proof -
  have zero: "sum_list (replicate n {#}) = ({#} :: nat multiset)" for n by (induction n) simp_all
  show "free_foot ha_example = foot ha_example_buf"
    using sum_list_map_update [of 1 "replicate k_num_classes []" list_foot "[ha_example_buf]"]
    by (simp add: free_foot_def ha_example_def zero)
  show "shm_foot ha_example = foot ha_example_buf"
    by (simp add: shm_foot_def ha_example_def foot_def ha_example_buf_def del: mset_upt)
qed

lemma foot_once: "count (foot b) x \<le> 1"
  by (auto simp: foot_def count_mset_set' split: option.splits)

theorem alloc_disjoint_witness:
  "\<exists>b h'. alloc 0 (\<lambda>_ _. 0) 100 ha_example = Inr (b, h') \<and> b_buf b = Some 4096 \<and>
    set_mset (foot b) \<inter> (set_mset {#} \<union> set_mset (free_foot h')) = {} \<and> 100 \<le> size (foot b)"
proof -
  let ?h' = "(pop_free 1 ha_example)\<lparr>user_alloc_tot := 128\<rparr>"
  have "shm_foot ?h' = foot ha_example_buf"
    using ha_example_foot(2) by (simp add: shm_foot_def)
  then have once: "\<forall>x. count (shm_foot ?h') x \<le> 1" using foot_once by simp
  have b: "b_buf ha_example_buf = Some 4096" by (simp add: ha_example_buf_def)
  show ?thesis
    using alloc_disjoint [OF ha_example_ready _ _ ha_example_alloc _ _ once, of "{#}"] ha_example_alloc
      ha_example_foot b by auto
qed


theorem free_buf_returns_memory_witness:
  "\<exists>h'. free_buf 0 ha_example_buf (ha_example\<lparr>user_alloc_tot := 128\<rparr>) = Inr h' \<and> user_alloc_tot h' = 0"
proof -
  have "ha_inv (ha_example\<lparr>user_alloc_tot := 128\<rparr>)"
    using ha_example_ready by (simp add: ha_ready_def ha_inv_def)
  moreover have "owned ha_example_buf"
    by (auto simp: owned_def ha_example_buf_def class_max_size_def intro!: exI [of _ 1])
  ultimately show ?thesis
    using free_buf_returns_memory [of "ha_example\<lparr>user_alloc_tot := 128\<rparr>" ha_example_buf]
    by (auto simp: ha_example_buf_def)
qed

end
