(* ===== verification/Msg_Buffer.thy ===== *)
theory Msg_Buffer
  imports Huge_Alloc
begin

section \<open>Packet headers and message buffers (\<open>pkthdr.h\<close>, \<open>msg_buffer.h\<close>, buffer functions of \<open>rpc.h\<close>)\<close>

text \<open>
  A message buffer is a hugepage buffer that holds header 0, the application data and the
  remaining packet headers. This theory has the header with its bit-field widths, the buffer
  record with its size fields, packetisation, and the contents of a buffer as functions on packet
  indices and byte offsets; the layout theorem shows that the headers and the data that the
  pointer arithmetic of \<open>get_pkthdr_n\<close> addresses lie inside the allocation and do not overlap,
  which justifies treating them as separate components.

  \<open>transport_cfg\<close> holds the constants of the transport class \<open>TTr\<close> and of the generated
  \<open>config.h\<close>: they are parameters of every definition.
\<close>

subsection \<open>Configuration\<close>

record transport_cfg =
  kMTU :: nat
  kHeadroom :: nat
  kPostlist :: nat
  kUnsigBatch :: nat

definition sizeof_pkthdr :: "transport_cfg \<Rightarrow> nat" where
  "sizeof_pkthdr cfg = kHeadroom cfg + 16"

definition kMaxDataPerPkt :: "transport_cfg \<Rightarrow> nat" where
  "kMaxDataPerPkt cfg = kMTU cfg - sizeof_pkthdr cfg"

definition kMaxMsgSize :: "transport_cfg \<Rightarrow> nat" where
  "kMaxMsgSize cfg =
    k_max_class_size - (k_max_class_size div kMaxDataPerPkt cfg) * sizeof_pkthdr cfg"

text \<open>
  The \<open>static_assert\<close>s on the configuration (\<open>pkthdr.h\<close>, \<open>rpc.h\<close>), with an MTU of at least two
  headers and positive batch sizes, as in every transport of the repository.
\<close>

definition cfg_ok :: "transport_cfg \<Rightarrow> bool" where
  "cfg_ok cfg \<longleftrightarrow> (kHeadroom cfg = 0 \<or> kHeadroom cfg = 40) \<and> 2 * sizeof_pkthdr cfg \<le> kMTU cfg \<and>
    kMaxMsgSize cfg \<le> 2 ^ 24 \<and> 2 * kMaxMsgSize cfg < 2 ^ 14 * kMaxDataPerPkt cfg \<and>
    0 < kPostlist cfg \<and> 0 < kUnsigBatch cfg"

text \<open>The InfiniBand, RoCE/fake, raw Ethernet and DPDK configurations.\<close>

definition ib_cfg :: transport_cfg where
  "ib_cfg = \<lparr>kMTU = 3840, kHeadroom = 0, kPostlist = 16, kUnsigBatch = 64\<rparr>"

definition fake_cfg :: transport_cfg where
  "fake_cfg = \<lparr>kMTU = 1024, kHeadroom = 0, kPostlist = 16, kUnsigBatch = 64\<rparr>"

definition raw_cfg :: transport_cfg where
  "raw_cfg = \<lparr>kMTU = 1024, kHeadroom = 40, kPostlist = 16, kUnsigBatch = 64\<rparr>"

definition dpdk_cfg :: transport_cfg where
  "dpdk_cfg = \<lparr>kMTU = 1024, kHeadroom = 40, kPostlist = 32, kUnsigBatch = 32\<rparr>"

subsection \<open>Packet headers\<close>

datatype PktType = kReq | kRFR | kExplCR | kResp

definition pkt_type_str :: "PktType \<Rightarrow> string" where
  "pkt_type_str t = (case t of kReq \<Rightarrow> ''REQ'' | kRFR \<Rightarrow> ''RFR'' | kExplCR \<Rightarrow> ''CR'' | kResp \<Rightarrow> ''RESP'')"

text \<open>
  \<open>pkthdr_t\<close>: the bit fields keep their widths (8, 24, 16, 2, 14, 44 and 4 bits), so that
  assignments truncate as in the source. The two bits of \<open>pkt_type_\<close> are exactly the four
  packet types.
\<close>

record pkthdr =
  headroom :: "u8 list"
  req_type :: u8
  msg_size :: "24 word"
  dest_session_num :: u16
  pkt_type :: PktType
  pkt_num :: "14 word"
  req_num :: "44 word"
  magic :: "4 word"

abbreviation (input) kPktHdrMagic :: "4 word" where "kPktHdrMagic \<equiv> 11"

definition format :: "nat \<Rightarrow> nat \<Rightarrow> nat \<Rightarrow> PktType \<Rightarrow> nat \<Rightarrow> nat \<Rightarrow> pkthdr \<Rightarrow> pkthdr" where
  "format rt msz dsn pt pn rn h =
    h\<lparr>req_type := of_nat rt, msg_size := of_nat msz, dest_session_num := of_nat dsn,
      pkt_type := pt, pkt_num := of_nat pn, req_num := of_nat rn, magic := kPktHdrMagic\<rparr>"

definition matches :: "pkthdr \<Rightarrow> PktType \<Rightarrow> nat \<Rightarrow> bool" where
  "matches h pt pn \<longleftrightarrow> pkt_type h = pt \<and> unat (pkt_num h) = pn"

definition check_magic :: "pkthdr \<Rightarrow> bool" where
  "check_magic h \<longleftrightarrow> magic h = kPktHdrMagic"

subsection \<open>Message buffers\<close>

text \<open>
  The fields of \<open>MsgBuffer\<close>; \<open>hdrs\<close> and \<open>bytes\<close> are the contents of the memory it points to:
  packet header \<open>n\<close>, and the application byte at an offset from \<open>buf_\<close>.
\<close>

record MsgBuffer =
  mb_buffer :: Buffer
  max_data_size :: nat
  data_size :: nat
  max_num_pkts :: nat
  num_pkts :: nat
  mb_buf :: "nat option"
  hdrs :: "nat \<Rightarrow> pkthdr"
  bytes :: "nat \<Rightarrow> u8"

definition is_dynamic :: "MsgBuffer \<Rightarrow> bool" where
  "is_dynamic m \<longleftrightarrow> b_buf (mb_buffer m) \<noteq> None"

definition is_buried :: "MsgBuffer \<Rightarrow> bool" where
  "is_buried m \<longleftrightarrow> mb_buf m = None \<and> b_buf (mb_buffer m) = None"

definition get_pkthdr_0 :: "transport_cfg \<Rightarrow> nat \<Rightarrow> nat" where
  "get_pkthdr_0 cfg buf = buf - sizeof_pkthdr cfg"

definition get_pkthdr_n :: "transport_cfg \<Rightarrow> nat \<Rightarrow> nat \<Rightarrow> nat \<Rightarrow> nat" where
  "get_pkthdr_n cfg buf mds n =
    (if n = 0 then get_pkthdr_0 cfg buf
     else buf + unat (round_up (8 :: u64) (of_nat mds)) + (n - 1) * sizeof_pkthdr cfg)"

definition get_pkt_size :: "transport_cfg \<Rightarrow> MsgBuffer \<Rightarrow> nat \<Rightarrow> nat" where
  "get_pkt_size cfg m pkt_idx =
    (let offset = pkt_idx * kMaxDataPerPkt cfg
     in sizeof_pkthdr cfg + min (kMaxDataPerPkt cfg) (sub64 (data_size m) offset))"

text \<open>The constructor for a dynamic buffer; the magic of header 0 is set, its UDP checksum cleared.\<close>

definition MsgBuffer_dyn ::
  "transport_cfg \<Rightarrow> Buffer \<Rightarrow> nat \<Rightarrow> nat \<Rightarrow> (nat \<Rightarrow> pkthdr) \<Rightarrow> (nat \<Rightarrow> u8) \<Rightarrow> MsgBuffer res" where
  "MsgBuffer_dyn cfg buffer mds mnp hs bs =
    assertE (b_buf buffer \<noteq> None) (assertE (1 \<le> mnp)
    (assertE (mds + mnp * sizeof_pkthdr cfg \<le> class_size buffer)
      (Inr \<lparr>mb_buffer = buffer, max_data_size = mds, data_size = mds, max_num_pkts = mnp,
            num_pkts = mnp,
            mb_buf = map_option (\<lambda>a. a + sizeof_pkthdr cfg) (b_buf buffer),
            hdrs = hs(0 := (hs 0)\<lparr>magic := kPktHdrMagic,
              headroom := (headroom (hs 0))[kHeadroom cfg := 0, kHeadroom cfg + 1 := 0]\<rparr>),
            bytes = bs\<rparr>)))"

text \<open>The constructor for a ``fake'' single-packet buffer over a received packet.\<close>

definition MsgBuffer_fake :: "transport_cfg \<Rightarrow> nat \<Rightarrow> pkthdr \<Rightarrow> (nat \<Rightarrow> u8) \<Rightarrow> nat \<Rightarrow> MsgBuffer" where
  "MsgBuffer_fake cfg addr h payload mds =
    \<lparr>mb_buffer = null_Buffer, max_data_size = mds, data_size = mds, max_num_pkts = 1, num_pkts = 1,
     mb_buf = Some (addr + sizeof_pkthdr cfg), hdrs = (\<lambda>_. h), bytes = payload\<rparr>"

definition resize :: "nat \<Rightarrow> nat \<Rightarrow> MsgBuffer \<Rightarrow> MsgBuffer res" where
  "resize new_data_size new_num_pkts m =
    assertE (new_data_size \<le> max_data_size m) (assertE (new_num_pkts \<le> max_num_pkts m)
      (Inr (m\<lparr>data_size := new_data_size, num_pkts := new_num_pkts\<rparr>)))"

definition data_size_to_num_pkts :: "transport_cfg \<Rightarrow> nat \<Rightarrow> nat" where
  "data_size_to_num_pkts cfg sz =
    (if sz \<le> kMaxDataPerPkt cfg then 1
     else (sz + kMaxDataPerPkt cfg - 1) div kMaxDataPerPkt cfg)"

text \<open>\<open>Rpc::alloc_msg_buffer\<close>; \<open>hs\<close> and \<open>bs\<close> are the old contents of the allocated memory.\<close>

definition alloc_msg_buffer ::
  "transport_cfg \<Rightarrow> nat \<Rightarrow> (nat \<Rightarrow> nat \<Rightarrow> u32) \<Rightarrow> (nat \<Rightarrow> pkthdr) \<Rightarrow> (nat \<Rightarrow> u8) \<Rightarrow> nat \<Rightarrow>
    huge_alloc \<Rightarrow> (MsgBuffer option \<times> huge_alloc) res" where
  "alloc_msg_buffer cfg r0 reg hs bs mds h = assertE (0 < mds)
    (let mnp = data_size_to_num_pkts cfg mds
     in bindE (alloc r0 reg (mds + mnp * sizeof_pkthdr cfg) h) (\<lambda>(buffer, h1).
        if b_buf buffer = None then Inr (None, h1)
        else bindE (MsgBuffer_dyn cfg buffer mds mnp hs bs) (\<lambda>m. Inr (Some m, h1))))"

definition resize_msg_buffer :: "transport_cfg \<Rightarrow> MsgBuffer \<Rightarrow> nat \<Rightarrow> MsgBuffer res" where
  "resize_msg_buffer cfg m new_data_size = assertE (new_data_size \<le> max_data_size m)
    (resize new_data_size (data_size_to_num_pkts cfg new_data_size) m)"

definition free_msg_buffer :: "nat \<Rightarrow> MsgBuffer \<Rightarrow> huge_alloc \<Rightarrow> huge_alloc res" where
  "free_msg_buffer r0 m h = free_buf r0 (mb_buffer m) h"

subsection \<open>Datapath helpers\<close>

definition resp_ntoi :: "nat \<Rightarrow> nat \<Rightarrow> nat" where
  "resp_ntoi pn num_req_pkts = sub64 pn (sub64 num_req_pkts 1)"

definition wire_pkts :: "MsgBuffer \<Rightarrow> MsgBuffer \<Rightarrow> nat" where
  "wire_pkts req_msgbuf resp_msgbuf = sub64 (num_pkts req_msgbuf + num_pkts resp_msgbuf) 1"

text \<open>A received packet: its header and the bytes that follow it.\<close>

record packet =
  p_hdr :: pkthdr
  p_data :: "nat \<Rightarrow> u8"

definition copy_data_to_msgbuf :: "transport_cfg \<Rightarrow> nat \<Rightarrow> packet \<Rightarrow> MsgBuffer \<Rightarrow> MsgBuffer" where
  "copy_data_to_msgbuf cfg pkt_idx p m =
    (let offset = pkt_idx * kMaxDataPerPkt cfg;
         to_copy = min (kMaxDataPerPkt cfg) (sub64 (unat (msg_size (p_hdr p))) offset)
     in m\<lparr>bytes := (\<lambda>j. if offset \<le> j \<and> j < offset + to_copy then p_data p (j - offset)
                    else bytes m j)\<rparr>)"

text \<open>
  The packet that one burst item puts on the wire (\<open>IBTransport::tx_burst\<close>): header \<open>pkt_idx\<close> of the
  message buffer followed by \<open>get_pkt_size - sizeof(pkthdr_t)\<close> bytes from offset
  \<open>pkt_idx * kMaxDataPerPkt\<close>. \<open>rest\<close> is what the receiver's ring holds after the packet.
\<close>

definition tx_item_packet :: "transport_cfg \<Rightarrow> (nat \<Rightarrow> u8) \<Rightarrow> MsgBuffer \<Rightarrow> nat \<Rightarrow> packet" where
  "tx_item_packet cfg rest m pkt_idx =
    (let offset = pkt_idx * kMaxDataPerPkt cfg;
         len = (if pkt_idx = 0 then get_pkt_size cfg m 0 - sizeof_pkthdr cfg
                else min (kMaxDataPerPkt cfg) (sub64 (data_size m) offset))
     in \<lparr>p_hdr = hdrs m pkt_idx, p_data = (\<lambda>j. if j < len then bytes m (offset + j) else rest j)\<rparr>)"

subsection \<open>Packetisation\<close>

lemma cfg_okD:
  assumes "cfg_ok cfg"
  shows "0 < kMaxDataPerPkt cfg" "8 dvd sizeof_pkthdr cfg" "16 \<le> sizeof_pkthdr cfg"
    "sizeof_pkthdr cfg \<le> 56" "0 < kPostlist cfg" "0 < kUnsigBatch cfg"
    "2 * kMaxMsgSize cfg < 2 ^ 14 * kMaxDataPerPkt cfg" "kMaxMsgSize cfg \<le> 2 ^ 24"
    "sizeof_pkthdr cfg \<le> kMaxDataPerPkt cfg" "sizeof_pkthdr cfg + kMaxDataPerPkt cfg = kMTU cfg"
  using assms by (auto simp: cfg_ok_def sizeof_pkthdr_def kMaxDataPerPkt_def)

lemma configs_ok: "cfg_ok ib_cfg" "cfg_ok fake_cfg" "cfg_ok raw_cfg" "cfg_ok dpdk_cfg"
  by (simp_all add: cfg_ok_def ib_cfg_def fake_cfg_def raw_cfg_def dpdk_cfg_def sizeof_pkthdr_def
      kMaxDataPerPkt_def kMaxMsgSize_def)

lemma num_pkts_bounds:
  assumes "0 < kMaxDataPerPkt cfg"
  shows "1 \<le> data_size_to_num_pkts cfg sz"
    and "sz \<le> data_size_to_num_pkts cfg sz * kMaxDataPerPkt cfg"
    and "0 < sz \<Longrightarrow> (data_size_to_num_pkts cfg sz - 1) * kMaxDataPerPkt cfg < sz"
proof -
  let ?D = "kMaxDataPerPkt cfg"
  have *: "sz \<le> ((sz + ?D - 1) div ?D) * ?D" "((sz + ?D - 1) div ?D) * ?D < sz + ?D"
    using round_up_nat_bounds [OF assms] by blast+
  show le: "sz \<le> data_size_to_num_pkts cfg sz * ?D"
    using * by (simp add: data_size_to_num_pkts_def)
  show ge1: "1 \<le> data_size_to_num_pkts cfg sz"
    using assms le by (cases "sz \<le> ?D") (auto simp: data_size_to_num_pkts_def Suc_le_eq intro!: Nat.gr0I)
  show "(data_size_to_num_pkts cfg sz - 1) * ?D < sz" if "0 < sz"
    using * that assms ge1 by (auto simp: data_size_to_num_pkts_def diff_mult_distrib)
qed

lemma num_pkts_mono:
  assumes "0 < kMaxDataPerPkt cfg" "a \<le> b"
  shows "data_size_to_num_pkts cfg a \<le> data_size_to_num_pkts cfg b"
proof (cases "a \<le> kMaxDataPerPkt cfg")
  case True
  then show ?thesis using num_pkts_bounds(1) [OF assms(1), of b] by (simp add: data_size_to_num_pkts_def)
next
  case False
  then show ?thesis using assms(2) by (simp add: data_size_to_num_pkts_def div_le_mono)
qed

text \<open>
  Packetisation covers the message exactly. The payload sizes of the packets that
  \<open>data_size_to_num_pkts\<close> announces add up to the data size, and no packet exceeds the MTU.
\<close>

theorem packets_cover_message:
  assumes cfg: "cfg_ok cfg" and np: "num_pkts m = data_size_to_num_pkts cfg (data_size m)"
  shows "(\<Sum>i < num_pkts m. get_pkt_size cfg m i - sizeof_pkthdr cfg) = data_size m \<and>
    (\<forall>i < num_pkts m. get_pkt_size cfg m i \<le> kMTU cfg)"
proof -
  let ?D = "kMaxDataPerPkt cfg" and ?n = "num_pkts m" and ?sz = "data_size m"
  have D: "0 < ?D" and mtu: "sizeof_pkthdr cfg + ?D = kMTU cfg"
    using cfg_okD [OF cfg] by simp_all
  have n1: "1 \<le> ?n" and up: "?sz \<le> ?n * ?D" and lo: "0 < ?sz \<Longrightarrow> (?n - 1) * ?D < ?sz"
    using num_pkts_bounds [OF D, of ?sz] np by simp_all
  have off: "(?n - 1) * ?D \<le> ?sz"
    using lo np by (cases "?sz = 0") (auto simp: data_size_to_num_pkts_def)
  have full: "get_pkt_size cfg m i - sizeof_pkthdr cfg = ?D" if "i < ?n - 1" for i
  proof -
    have "(i + 1) * ?D \<le> (?n - 1) * ?D" using that by (intro mult_le_mono1) simp
    then have "i * ?D + ?D \<le> ?sz" using off by simp
    then show ?thesis by (simp add: get_pkt_size_def Let_def)
  qed
  have last: "get_pkt_size cfg m (?n - 1) - sizeof_pkthdr cfg = ?sz - (?n - 1) * ?D"
  proof -
    have "?sz - (?n - 1) * ?D \<le> ?D" using up n1 by (simp add: diff_mult_distrib)
    then show ?thesis using off by (simp add: get_pkt_size_def Let_def)
  qed
  have "(\<Sum>i < ?n. get_pkt_size cfg m i - sizeof_pkthdr cfg)
      = (\<Sum>i < ?n - 1. get_pkt_size cfg m i - sizeof_pkthdr cfg) + (get_pkt_size cfg m (?n - 1) - sizeof_pkthdr cfg)"
    using n1 by (cases ?n) simp_all
  also have "\<dots> = ?sz" using full last off by simp
  finally show ?thesis using mtu by (auto simp: get_pkt_size_def Let_def)
qed

theorem packets_cover_message_witness:
  "(\<Sum>i < 3. get_pkt_size fake_cfg
      \<lparr>mb_buffer = null_Buffer, max_data_size = 3000, data_size = 2500, max_num_pkts = 3, num_pkts = 3,
       mb_buf = None, hdrs = undefined, bytes = undefined\<rparr> i - sizeof_pkthdr fake_cfg) = 2500"
  using packets_cover_message [OF configs_ok(2), of
      "\<lparr>mb_buffer = null_Buffer, max_data_size = 3000, data_size = 2500, max_num_pkts = 3, num_pkts = 3,
       mb_buf = None, hdrs = undefined, bytes = undefined\<rparr>"]
  by (simp add: data_size_to_num_pkts_def kMaxDataPerPkt_def fake_cfg_def sizeof_pkthdr_def)

text \<open>
  Every message up to \<open>kMaxMsgSize\<close> can be allocated, and the packet numbers of its request and
  response packets fit the 14-bit header field. The second part is what the \<open>static_assert\<close> on
  \<open>kPktNumBits\<close> in \<open>rpc.h\<close> is for.
\<close>

theorem max_msg_size_fits:
  assumes cfg: "cfg_ok cfg" and mtu: "kMTU cfg \<le> 4096"
    and sz: "sz \<le> kMaxMsgSize cfg" "sz2 \<le> kMaxMsgSize cfg"
  shows "sz + data_size_to_num_pkts cfg sz * sizeof_pkthdr cfg \<le> k_max_class_size \<and>
    data_size_to_num_pkts cfg sz + data_size_to_num_pkts cfg sz2 - 1 < 2 ^ 14"
proof -
  let ?D = "kMaxDataPerPkt cfg" and ?H = "sizeof_pkthdr cfg" and ?q = "k_max_class_size div kMaxDataPerPkt cfg"
  have D: "0 < ?D" "?D \<le> 4096" "16 \<le> ?H" using cfg mtu cfg_okD [OF cfg] by (auto simp: kMaxDataPerPkt_def)
  have q: "2048 \<le> ?q" using D by (intro order_trans [OF _ div_le_mono2 [of ?D 4096]]) auto
  have kmax: "kMaxMsgSize cfg < 2 ^ 13 * ?D" using cfg_okD(7) [OF cfg] by simp
  have small: "data_size_to_num_pkts cfg s \<le> 2 ^ 13" if "s \<le> kMaxMsgSize cfg" for s
  proof (cases "s = 0")
    case False
    then have "(data_size_to_num_pkts cfg s - 1) * ?D < s" using num_pkts_bounds(3) [OF D(1)] by simp
    then have "(data_size_to_num_pkts cfg s - 1) * ?D < 2 ^ 13 * ?D"
      using that kmax by (meson less_le_trans order.strict_trans)
    then have "data_size_to_num_pkts cfg s - 1 < 2 ^ 13" by (simp only: mult_less_cancel2)
    then show ?thesis by simp
  qed (simp add: data_size_to_num_pkts_def)
  have "data_size_to_num_pkts cfg sz \<le> ?q"
  proof (cases "sz \<le> ?D")
    case True
    then show ?thesis using q by (simp add: data_size_to_num_pkts_def)
  next
    case False
    have "k_max_class_size mod ?D < ?D" using D by simp
    moreover have "?D \<le> ?q * ?H" using D q mult_le_mono [OF q D(3)] by simp
    ultimately have "k_max_class_size \<le> ?q * ?D + ?q * ?H"
      using div_mult_mod_eq [of k_max_class_size ?D] by linarith
    then have "sz \<le> ?q * ?D" using sz by (simp add: kMaxMsgSize_def)
    then have "(sz + ?D - 1) div ?D \<le> (?q * ?D + (?D - 1)) div ?D" using D by (intro div_le_mono) simp
    also have "(?q * ?D + (?D - 1)) div ?D = ?q + (?D - 1) div ?D" using D by (intro div_mult_self3) simp
    also have "\<dots> = ?q" using D by simp
    finally show ?thesis using False by (simp add: data_size_to_num_pkts_def)
  qed
  then have "data_size_to_num_pkts cfg sz * ?H \<le> ?q * ?H" by (rule mult_le_mono1)
  moreover have "?q * ?H \<le> ?q * ?D" using cfg_okD(9) [OF cfg] by (rule mult_le_mono2)
  then have "?q * ?H \<le> k_max_class_size" by (rule order_trans) simp
  ultimately have "sz + data_size_to_num_pkts cfg sz * ?H \<le> k_max_class_size"
    using sz(1) unfolding kMaxMsgSize_def by linarith
  then show ?thesis using small [OF sz(1)] small [OF sz(2)] by simp
qed

theorem max_msg_size_fits_witness:
  "kMaxMsgSize ib_cfg + data_size_to_num_pkts ib_cfg (kMaxMsgSize ib_cfg) * sizeof_pkthdr ib_cfg
      \<le> k_max_class_size \<and>
    data_size_to_num_pkts ib_cfg (kMaxMsgSize ib_cfg) + data_size_to_num_pkts ib_cfg 8 - 1 < 2 ^ 14"
proof -
  have "kMTU ib_cfg \<le> 4096" by (simp add: ib_cfg_def)
  moreover have "8 \<le> kMaxMsgSize ib_cfg"
    by (simp add: ib_cfg_def kMaxMsgSize_def kMaxDataPerPkt_def sizeof_pkthdr_def)
  ultimately show ?thesis by (intro max_msg_size_fits [OF configs_ok(1)]) simp_all
qed

subsection \<open>Layout of a dynamic buffer\<close>

lemma round_up_8:
  assumes "n < 2 ^ 32"
  shows "n \<le> unat (round_up (8 :: u64) (of_nat n))" "8 dvd unat (round_up (8 :: u64) (of_nat n))"
    "unat (round_up (8 :: u64) (of_nat n)) < n + 8"
proof -
  have u: "unat (of_nat n :: u64) = n" "unat (8 :: u64) = 2 ^ 3"
    using assms by (simp_all add: unat_of_nat take_bit_eq_mod)
  have eq: "unat (round_up (8 :: u64) (of_nat n)) = ((n + 8 - 1) div 8) * 8"
    using unat_round_up [OF u(2), of "of_nat n"] assms unfolding u by simp
  show "n \<le> unat (round_up (8 :: u64) (of_nat n))" "8 dvd unat (round_up (8 :: u64) (of_nat n))"
    "unat (round_up (8 :: u64) (of_nat n)) < n + 8"
    unfolding eq using round_up_nat_bounds [of 8 n] by simp_all
qed

lemma class_size_dvd_8: "owned b \<Longrightarrow> 8 dvd class_size b"
  by (auto simp: owned_def class_max_size_def)

text \<open>
  C12. Memory safety of the packet headers. In a buffer whose class size covers
  \<open>max_data_size + max_num_pkts * sizeof(pkthdr_t)\<close> (the constructor's assertion), every header
  \<open>get_pkthdr_n\<close> addresses lies inside the allocation, although the data is rounded up to eight
  bytes before the trailing headers; headers do not overlap each other or the data.
\<close>

theorem headers_inside_buffer:
  assumes cfg: "cfg_ok cfg" and own: "owned b" and a: "b_buf b = Some a"
    and fits: "mds + mnp * sizeof_pkthdr cfg \<le> class_size b" and mds: "mds < 2 ^ 32" and i: "i < mnp"
  shows "a \<le> get_pkthdr_n cfg (a + sizeof_pkthdr cfg) mds i \<and>
    get_pkthdr_n cfg (a + sizeof_pkthdr cfg) mds i + sizeof_pkthdr cfg \<le> a + class_size b \<and>
    (get_pkthdr_n cfg (a + sizeof_pkthdr cfg) mds i + sizeof_pkthdr cfg \<le> a + sizeof_pkthdr cfg \<or>
     a + sizeof_pkthdr cfg + mds \<le> get_pkthdr_n cfg (a + sizeof_pkthdr cfg) mds i) \<and>
    (\<forall>j < i. get_pkthdr_n cfg (a + sizeof_pkthdr cfg) mds j + sizeof_pkthdr cfg
      \<le> get_pkthdr_n cfg (a + sizeof_pkthdr cfg) mds i)"
proof -
  let ?H = "sizeof_pkthdr cfg" and ?R = "unat (round_up (8 :: u64) (of_nat mds))"
  have R: "mds \<le> ?R" "8 dvd ?R" "?R < mds + 8" using round_up_8 [OF mds] by auto
  have room: "?R + mnp * ?H \<le> class_size b"
  proof -
    have "8 dvd class_size b - mnp * ?H"
      using class_size_dvd_8 [OF own] cfg_okD(2) [OF cfg] by (intro dvd_diff_nat) auto
    then obtain k where k: "class_size b - mnp * ?H = 8 * k" by (elim dvdE)
    obtain r where r: "?R = 8 * r" using R(2) by (elim dvdE)
    have "mds \<le> 8 * k" using fits k by linarith
    then have "8 * r < 8 * k + 8" using r R(3) by linarith
    then have "?R \<le> 8 * k" using r by simp
    then show ?thesis using k fits by linarith
  qed
  have step: "(j + 1) * ?H \<le> i * ?H" if "j < i" for j
    using that by (intro mult_le_mono1) simp
  have "(i + 1) * ?H \<le> mnp * ?H" using i by (intro mult_le_mono1) simp
  then have top: "i * ?H + ?H \<le> mnp * ?H" by simp
  have gen: "get_pkthdr_n cfg (a + ?H) mds j = a + ?R + j * ?H" if "0 < j" for j
    using that by (cases j) (simp_all add: get_pkthdr_n_def)
  show ?thesis
  proof (cases "i = 0")
    case True
    have "?H \<le> class_size b" using top room by linarith
    with True show ?thesis by (simp add: get_pkthdr_n_def get_pkthdr_0_def)
  next
    case False
    have "get_pkthdr_n cfg (a + ?H) mds j + ?H \<le> get_pkthdr_n cfg (a + ?H) mds i" if "j < i" for j
      using step [OF that] gen [of i] gen [of j] False R(1)
      by (cases "j = 0") (auto simp: get_pkthdr_n_def get_pkthdr_0_def)
    moreover have "?H \<le> i * ?H" using False by simp
    then have "a + ?H + mds \<le> get_pkthdr_n cfg (a + ?H) mds i"
      using gen [of i] False R(1) by linarith
    moreover have "a \<le> get_pkthdr_n cfg (a + ?H) mds i" using gen [of i] False by linarith
    moreover have "get_pkthdr_n cfg (a + ?H) mds i + ?H \<le> a + class_size b"
      using gen [of i] False top room by linarith
    ultimately show ?thesis by blast
  qed
qed

theorem headers_inside_buffer_witness:
  "get_pkthdr_n fake_cfg (4096 + sizeof_pkthdr fake_cfg) 100 0 + sizeof_pkthdr fake_cfg
    \<le> 4096 + class_size ha_example_buf"
proof -
  have "owned ha_example_buf"
    by (auto simp: owned_def ha_example_buf_def class_max_size_def intro!: exI [of _ 1])
  moreover have "b_buf ha_example_buf = Some 4096" by (simp add: ha_example_buf_def)
  moreover have "100 + 1 * sizeof_pkthdr fake_cfg \<le> class_size ha_example_buf"
    by (simp add: ha_example_buf_def sizeof_pkthdr_def fake_cfg_def)
  ultimately show ?thesis
    using headers_inside_buffer [OF configs_ok(2), of ha_example_buf 4096 100 1 0] by simp
qed

subsection \<open>Segmentation and reassembly\<close>

lemma kMaxMsgSize_le: "kMaxMsgSize cfg \<le> k_max_class_size"
  by (simp add: kMaxMsgSize_def)

lemma pkt_index_offset:
  assumes "0 < kMaxDataPerPkt cfg" "i < data_size_to_num_pkts cfg sz"
  shows "i * kMaxDataPerPkt cfg \<le> sz"
proof (cases "sz = 0")
  case True
  then show ?thesis using assms by (simp add: data_size_to_num_pkts_def)
next
  case False
  have "i * kMaxDataPerPkt cfg \<le> (data_size_to_num_pkts cfg sz - 1) * kMaxDataPerPkt cfg"
    using assms(2) by (intro mult_le_mono1) simp
  then show ?thesis using num_pkts_bounds(3) [OF assms(1), of sz] False by linarith
qed

lemma copy_range:
  assumes "0 < (D :: nat)" "i * D \<le> sz"
  shows "i * D \<le> j \<and> j < i * D + min D (sz - i * D) \<longleftrightarrow> j div D = i \<and> j < sz"
proof -
  have "j div D = i \<longleftrightarrow> i * D \<le> j \<and> j < Suc i * D"
    using div_nat_eqI [of D i j] assms(1) by (auto simp: mult.commute dividend_less_times_div)
  then show ?thesis using assms by auto
qed

lemma bytes_copy_tx_item:
  assumes cfg: "cfg_ok cfg" and i: "i < data_size_to_num_pkts cfg (data_size m)"
    and hdr: "msg_size (hdrs m i) = of_nat (data_size m)" and sz: "data_size m \<le> kMaxMsgSize cfg"
  shows "bytes (copy_data_to_msgbuf cfg i (tx_item_packet cfg rest m i) m0) j =
    (if j < data_size m \<and> j div kMaxDataPerPkt cfg = i then bytes m j else bytes m0 j)"
proof -
  let ?D = "kMaxDataPerPkt cfg"
  have D: "0 < ?D" using cfg_okD [OF cfg] by simp
  have off: "i * ?D \<le> data_size m" by (rule pkt_index_offset [OF D i])
  have "data_size m < 2 ^ 24" using sz kMaxMsgSize_le [of cfg] by simp
  then have u: "unat (msg_size (p_hdr (tx_item_packet cfg rest m i))) = data_size m"
    using hdr by (simp add: tx_item_packet_def Let_def unat_of_nat take_bit_eq_mod)
  have len: "p_data (tx_item_packet cfg rest m i) k = bytes m (i * ?D + k)"
    if "k < min ?D (data_size m - i * ?D)" for k
    using that off by (auto simp: tx_item_packet_def Let_def get_pkt_size_def)
  have "bytes (copy_data_to_msgbuf cfg i (tx_item_packet cfg rest m i) m0) j =
    (if i * ?D \<le> j \<and> j < i * ?D + min ?D (data_size m - i * ?D)
     then p_data (tx_item_packet cfg rest m i) (j - i * ?D) else bytes m0 j)"
    using off by (simp add: copy_data_to_msgbuf_def Let_def u)
  also have "\<dots> = (if i * ?D \<le> j \<and> j < i * ?D + min ?D (data_size m - i * ?D)
     then bytes m j else bytes m0 j)"
  proof (cases "i * ?D \<le> j \<and> j < i * ?D + min ?D (data_size m - i * ?D)")
    case True
    then have "j - i * ?D < min ?D (data_size m - i * ?D)" by linarith
    from len [OF this] True show ?thesis by simp
  next
    case False
    then show ?thesis by (simp only: if_False)
  qed
  finally show ?thesis unfolding copy_range [OF D off] by auto
qed

text \<open>
  C27. Segmentation and reassembly round trip. A receiver that copies the packets of a message, in
  any order and with any repetitions, ends with exactly the sender's bytes, and writes nothing
  beyond them, as long as every packet index of the message occurs.
\<close>

theorem reassembly_roundtrip:
  assumes cfg: "cfg_ok cfg" and np: "num_pkts m = data_size_to_num_pkts cfg (data_size m)"
    and sz: "data_size m \<le> kMaxMsgSize cfg"
    and hdr: "\<And>i. i < num_pkts m \<Longrightarrow> msg_size (hdrs m i) = of_nat (data_size m)"
    and all: "set idxs = {..<num_pkts m}"
  shows "bytes (fold (\<lambda>i. copy_data_to_msgbuf cfg i (tx_item_packet cfg rest m i)) idxs m0) j =
    (if j < data_size m then bytes m j else bytes m0 j)"
proof -
  let ?D = "kMaxDataPerPkt cfg"
  have D: "0 < ?D" using cfg_okD [OF cfg] by simp
  have gen: "bytes (fold (\<lambda>i. copy_data_to_msgbuf cfg i (tx_item_packet cfg rest m i)) is m1) j =
    (if j < data_size m \<and> j div ?D \<in> set is then bytes m j else bytes m1 j)"
    if "set is \<subseteq> {..<num_pkts m}" for "is" m1
    using that
  proof (induction "is" arbitrary: m1)
    case (Cons i "is")
    then have "i < data_size_to_num_pkts cfg (data_size m)" "i < num_pkts m" using np by auto
    note step = bytes_copy_tx_item [OF cfg this(1) hdr [OF this(2)] sz]
    show ?case using Cons by (auto simp: step)
  qed simp
  have "j div ?D < num_pkts m" if "j < data_size m"
    using num_pkts_bounds(2) [OF D, of "data_size m"] that np D
    by (simp add: div_less_iff_less_mult)
  then show ?thesis using gen [of idxs m0] all by auto
qed

theorem reassembly_roundtrip_witness:
  "\<exists>m. num_pkts m = 3 \<and> data_size m = 2500 \<and> bytes m 2499 = 7 \<and>
    (\<forall>m0 rest. bytes (fold (\<lambda>i. copy_data_to_msgbuf fake_cfg i (tx_item_packet fake_cfg rest m i))
      [2, 0, 2, 1] m0) 2499 = 7)"
proof -
  let ?h = "format 1 2500 0 kReq 0 8 undefined"
  let ?m = "\<lparr>mb_buffer = null_Buffer, max_data_size = 2500, data_size = 2500, max_num_pkts = 3,
    num_pkts = 3, mb_buf = None, hdrs = (\<lambda>_. ?h), bytes = (\<lambda>_. 7)\<rparr>"
  have "set [2, 0, 2, 1] = {..<num_pkts ?m}" by (auto simp: eval_nat_numeral)
  moreover have "num_pkts ?m = data_size_to_num_pkts fake_cfg (data_size ?m)"
    by (simp add: data_size_to_num_pkts_def kMaxDataPerPkt_def fake_cfg_def sizeof_pkthdr_def)
  moreover have "data_size ?m \<le> kMaxMsgSize fake_cfg"
    by (simp add: kMaxMsgSize_def kMaxDataPerPkt_def fake_cfg_def sizeof_pkthdr_def)
  moreover have "msg_size (hdrs ?m i) = of_nat (data_size ?m)" for i by (simp add: format_def)
  ultimately have "bytes (fold (\<lambda>i. copy_data_to_msgbuf fake_cfg i (tx_item_packet fake_cfg rest ?m i))
      [2, 0, 2, 1] m0) 2499 = (if 2499 < data_size ?m then bytes ?m 2499 else bytes m0 2499)" for m0 rest
    by (intro reassembly_roundtrip [OF configs_ok(2)])
  then show ?thesis by (intro exI [of _ ?m]) simp
qed

end
