(* ===== verification/Containers.thy ===== *)
theory Containers
  imports Huge_Alloc
begin

section \<open>Containers (\<open>util/fixed_vector.h\<close>, \<open>util/fixed_queue.h\<close>, \<open>util/mt_queue.h\<close>, \<open>util/mempool.h\<close>)\<close>

text \<open>
  The fixed-capacity vector and queue, the queue between foreground and background threads, and
  the hugepage-backed object pool. The contracts their clients use are the locales \<open>lifo\<close> and
  \<open>fifo\<close>, interpreted on the definitions of this theory.
\<close>

subsection \<open>Interfaces\<close>

text \<open>A stack: \<open>contents\<close> lists the elements, the last pushed first.\<close>

locale lifo =
  fixes ok :: "'s \<Rightarrow> bool"
    and room :: "'s \<Rightarrow> bool"
    and contents :: "'s \<Rightarrow> 'a list"
    and push :: "'a \<Rightarrow> 's \<Rightarrow> 's res"
    and pop :: "'s \<Rightarrow> ('a \<times> 's) res"
  assumes push_ok: "ok s \<Longrightarrow> room s \<Longrightarrow> holds (\<lambda>s'. ok s' \<and> contents s' = x # contents s) (push x s)"
    and pop_ok: "ok s \<Longrightarrow> contents s = x # xs \<Longrightarrow> holds (\<lambda>(y, s'). ok s' \<and> y = x \<and> contents s' = xs) (pop s)"
begin

lemma pop_push:
  assumes "ok s" "room s"
  shows "holds (\<lambda>(y, s'). ok s' \<and> y = x \<and> contents s' = contents s) (bindE (push x s) pop)"
  using push_ok [OF assms, of x] pop_ok by (auto elim!: holdsE)

end

text \<open>A first-in first-out queue: \<open>contents\<close> lists the elements, the oldest first.\<close>

locale fifo =
  fixes ok :: "'s \<Rightarrow> bool"
    and room :: "'s \<Rightarrow> nat \<Rightarrow> bool"
    and contents :: "'s \<Rightarrow> 'a list"
    and push :: "'a \<Rightarrow> 's \<Rightarrow> 's res"
    and pop :: "'s \<Rightarrow> ('a \<times> 's) res"
  assumes push_ok: "ok s \<Longrightarrow> room s (Suc n) \<Longrightarrow>
      holds (\<lambda>s'. ok s' \<and> room s' n \<and> contents s' = contents s @ [x]) (push x s)"
    and pop_ok: "ok s \<Longrightarrow> contents s = x # xs \<Longrightarrow> holds (\<lambda>(y, s'). ok s' \<and> y = x \<and> contents s' = xs) (pop s)"
begin

text \<open>\<open>drain n s\<close>: the loop \<open>for (i = 0; i < n; i++) out.push_back(q.pop());\<close>.\<close>

fun drain :: "nat \<Rightarrow> 's \<Rightarrow> ('a list \<times> 's) res" where
  "drain 0 s = Inr ([], s)"
| "drain (Suc n) s = bindE (pop s) (\<lambda>(x, s1). bindE (drain n s1) (\<lambda>(xs, s2). Inr (x # xs, s2)))"

lemma drain_ok:
  assumes "ok s" "n \<le> length (contents s)"
  shows "holds (\<lambda>(xs, s'). ok s' \<and> xs = take n (contents s) \<and> contents s' = drop n (contents s)) (drain n s)"
  using assms
proof (induction n arbitrary: s)
  case (Suc n)
  then obtain x xs where c: "contents s = x # xs" by (cases "contents s") auto
  then obtain s1 where s1: "pop s = Inr (x, s1)" "ok s1" "contents s1 = xs"
    using pop_ok [OF Suc.prems(1) c] by (auto elim!: holdsE)
  then show ?case using Suc.IH [of s1] Suc.prems c by (auto elim!: holdsE)
qed simp

lemma pushes_ok:
  assumes "ok s" "room s (length xs)"
  shows "holds (\<lambda>s'. ok s' \<and> contents s' = contents s @ xs) (foldE push xs s)"
  using assms
proof (induction xs arbitrary: s)
  case (Cons x xs)
  then obtain s1 where s1: "push x s = Inr s1" "ok s1" "room s1 (length xs)" "contents s1 = contents s @ [x]"
    using push_ok [of s "length xs" x] by (auto elim!: holdsE)
  then show ?case using Cons.IH [OF s1(2,3)] by (auto elim!: holdsE)
qed simp

text \<open>Elements leave in the order in which they were pushed.\<close>

lemma push_drain:
  assumes "ok s" "room s (length xs)" "contents s = []"
  shows "holds (\<lambda>(ys, s'). ys = xs \<and> contents s' = []) (bindE (foldE push xs s) (drain (length xs)))"
  using pushes_ok [OF assms(1,2)] assms(3) drain_ok [of _ "length xs"] by (fastforce elim!: holdsE)

end

subsection \<open>\<open>FixedVector\<close>\<close>

record 'a FixedVector =
  arr :: "'a list"
  free_index :: nat

definition fv_push_back :: "nat \<Rightarrow> 'a \<Rightarrow> 'a FixedVector \<Rightarrow> 'a FixedVector res" where
  "fv_push_back N t v = assertE (free_index v < N)
    (Inr (v\<lparr>arr := (arr v)[free_index v := t], free_index := free_index v + 1\<rparr>))"

definition fv_pop_back :: "'a FixedVector \<Rightarrow> ('a \<times> 'a FixedVector) res" where
  "fv_pop_back v = assertE (0 < free_index v)
    (Inr (arr v ! (free_index v - 1), v\<lparr>free_index := free_index v - 1\<rparr>))"

definition fv_size :: "'a FixedVector \<Rightarrow> nat" where
  "fv_size v = free_index v"

definition fv_nth :: "nat \<Rightarrow> 'a FixedVector \<Rightarrow> 'a res" where
  "fv_nth i v = assertE (i < free_index v) (Inr (arr v ! i))"

definition fv_ok :: "nat \<Rightarrow> 'a FixedVector \<Rightarrow> bool" where
  "fv_ok N v \<longleftrightarrow> length (arr v) = N \<and> free_index v \<le> N"

definition fv_contents :: "'a FixedVector \<Rightarrow> 'a list" where
  "fv_contents v = rev (take (free_index v) (arr v))"

lemma take_Suc_update: "i < length xs \<Longrightarrow> take (Suc i) (xs[i := x]) = take i xs @ [x]"
  by (simp add: take_Suc_conv_app_nth)

interpretation fv: lifo "fv_ok N" "\<lambda>v. free_index v < N" fv_contents "fv_push_back N" fv_pop_back for N
proof (unfold_locales, goal_cases)
  case (1 s x)
  then show ?case by (simp add: fv_ok_def fv_push_back_def fv_contents_def take_Suc_update)
next
  case (2 s x xs)
  then have pos: "0 < free_index s" by (auto simp: fv_contents_def intro!: Nat.gr0I)
  then obtain i where i: "free_index s = Suc i" by (cases "free_index s") auto
  then have "take (Suc i) (arr s) = take i (arr s) @ [arr s ! i]"
    using 2 by (simp add: fv_ok_def take_Suc_conv_app_nth)
  then show ?case using 2 i by (auto simp: fv_pop_back_def fv_contents_def fv_ok_def)
qed

subsection \<open>\<open>FixedQueue\<close>\<close>

type_synonym 'a FixedQueue = "'a list"

definition fq_push :: "nat \<Rightarrow> 'a \<Rightarrow> 'a FixedQueue \<Rightarrow> 'a FixedQueue" where
  "fq_push N t q = (if length q = N then tl q else q) @ [t]"

definition fq_pop :: "'a FixedQueue \<Rightarrow> ('a \<times> 'a FixedQueue) res" where
  "fq_pop q = rt_assert (length q \<noteq> 0) (Inr (hd q, tl q))"

definition fq_clear :: "'a FixedQueue \<Rightarrow> 'a FixedQueue" where
  "fq_clear q = []"

interpretation fq: fifo "\<lambda>q. length q \<le> N" "\<lambda>q n. length q + n \<le> N" "\<lambda>q. q" "\<lambda>x q. Inr (fq_push N x q)" fq_pop
  for N
  by unfold_locales (auto simp: fq_push_def fq_pop_def)

text \<open>
  A fixed-size queue keeps the most recent \<open>N\<close> elements: after any sequence of pushes on an
  empty queue it holds the last \<open>N\<close> of them in order, so its size never exceeds its capacity.
\<close>

theorem fixed_queue_keeps_last:
  "fold (fq_push (Suc N)) xs [] = drop (length xs - Suc N) xs"
proof (induction xs rule: rev_induct)
  case (snoc x xs)
  show ?case
  proof (cases "length xs \<le> N")
    case True
    then show ?thesis using snoc by (simp add: fq_push_def)
  next
    case False
    then have "length (drop (length xs - Suc N) xs) = Suc N" by simp
    moreover have "tl (drop (length xs - Suc N) xs) = drop (Suc (length xs) - Suc N) xs"
      using False by (simp add: tl_drop drop_Suc [symmetric] Suc_diff_Suc)
    ultimately show ?thesis using snoc by (simp add: fq_push_def)
  qed
qed simp

subsection \<open>\<open>MtQueue\<close>\<close>

text \<open>
  Both operations hold the mutex for their whole body, so they are atomic steps. Reading the front
  of an empty \<open>std::queue\<close> is undefined behaviour: \<open>OutOfRange\<close>.
\<close>

record 'a MtQueue =
  mtq :: "'a list"
  mt_size :: nat

definition MtQueue_init :: "'a MtQueue" where
  "MtQueue_init = \<lparr>mtq = [], mt_size = 0\<rparr>"

definition unlocked_push :: "'a \<Rightarrow> 'a MtQueue \<Rightarrow> 'a MtQueue" where
  "unlocked_push t q = q\<lparr>mtq := mtq q @ [t], mt_size := mt_size q + 1\<rparr>"

definition unlocked_pop :: "'a MtQueue \<Rightarrow> ('a \<times> 'a MtQueue) res" where
  "unlocked_pop q = rangeE (mtq q \<noteq> [])
    (Inr (hd (mtq q), q\<lparr>mtq := tl (mtq q), mt_size := sub64 (mt_size q) 1\<rparr>))"

definition mtq_ok :: "'a MtQueue \<Rightarrow> bool" where
  "mtq_ok q \<longleftrightarrow> mt_size q = length (mtq q)"

interpretation mt: fifo mtq_ok "\<lambda>_ _. True" mtq "\<lambda>x q. Inr (unlocked_push x q)" unlocked_pop
  by unfold_locales (auto simp: mtq_ok_def unlocked_push_def unlocked_pop_def)

lemma mtq_ok_init [simp]: "mtq_ok MtQueue_init"
  by (simp add: mtq_ok_def MtQueue_init_def)

lemma mtq_ok_push [simp]: "mtq_ok q \<Longrightarrow> mtq_ok (unlocked_push x q)"
  by (simp add: mtq_ok_def unlocked_push_def)

text \<open>
  The loop of the consumers (\<open>process_bg_queues_*\<close>, \<open>handle_sm_rx_st\<close>): read \<open>size\<close> once, then pop
  that many elements.
\<close>

fun mt_drain :: "nat \<Rightarrow> 'a MtQueue \<Rightarrow> ('a list \<times> 'a MtQueue) res" where
  "mt_drain 0 q = Inr ([], q)"
| "mt_drain (Suc n) q =
    bindE (unlocked_pop q) (\<lambda>(x, q1). bindE (mt_drain n q1) (\<lambda>(xs, q2). Inr (x # xs, q2)))"

lemma mt_drain_eq: "mt_drain n q = mt.drain n q"
  by (induction n arbitrary: q) (simp_all add: mt.drain.simps)

text \<open>
  The multi-threaded queue loses and reorders nothing. Elements pushed by any interleaving of
  producers are popped in the order of the pushes, by a consumer that trusts \<open>size\<close>, and popping is
  never attempted on an empty queue.
\<close>

theorem mt_queue_drain:
  assumes "mtq_ok q"
  shows "\<exists>q'. mt_drain (mt_size q) q = Inr (mtq q, q') \<and> mtq q' = [] \<and> mt_size q' = 0"
  using mt.drain_ok [of q "mt_size q"] assms
  by (auto simp: mt_drain_eq mtq_ok_def elim!: holdsE)

theorem mt_queue_drain_witness:
  "\<exists>q'. mt_drain 2 (unlocked_push 4 (unlocked_push 3 MtQueue_init)) = Inr ([3, 4 :: nat], q') \<and> mt_size q' = 0"
  using mt_queue_drain [of "unlocked_push 4 (unlocked_push (3 :: nat) MtQueue_init)"]
  by (simp add: unlocked_push_def MtQueue_init_def mtq_ok_def numeral_2_eq_2 del: mt_drain.simps) blast

subsection \<open>\<open>MemPool\<close>\<close>

text \<open>
  A pool of objects of \<open>szT\<close> bytes, given by their addresses. \<open>num_to_alloc\<close> starts at
  \<open>MB(2) / sizeof(T)\<close> and doubles with every extension.
\<close>

record MemPool =
  num_to_alloc :: nat
  mp_pool :: "nat list"

definition MemPool_init :: "nat \<Rightarrow> MemPool" where
  "MemPool_init szT = \<lparr>num_to_alloc = 2097152 div szT, mp_pool = []\<rparr>"

definition extend_pool ::
  "(nat \<Rightarrow> nat \<Rightarrow> u32) \<Rightarrow> nat \<Rightarrow> MemPool \<times> huge_alloc \<Rightarrow> (MemPool \<times> huge_alloc) res" where
  "extend_pool reg szT = (\<lambda>(mp, h).
    let alloc_sz = szT * num_to_alloc mp
    in bindE (alloc_raw reg alloc_sz RegFalse h) (\<lambda>(b, h1).
      case b_buf b of
        None \<Rightarrow> Inl RuntimeError
      | Some base \<Rightarrow>
          Inr (mp\<lparr>mp_pool := mp_pool mp @ map (\<lambda>i. base + szT * i) [0..<num_to_alloc mp],
                  num_to_alloc := num_to_alloc mp * 2\<rparr>, h1)))"

definition mp_alloc ::
  "(nat \<Rightarrow> nat \<Rightarrow> u32) \<Rightarrow> nat \<Rightarrow> MemPool \<times> huge_alloc \<Rightarrow> (nat \<times> MemPool \<times> huge_alloc) res" where
  "mp_alloc reg szT = (\<lambda>(mp, h).
    bindE (if mp_pool mp = [] then extend_pool reg szT (mp, h) else Inr (mp, h)) (\<lambda>(mp1, h1).
    rangeE (mp_pool mp1 \<noteq> [])
      (Inr (last (mp_pool mp1), mp1\<lparr>mp_pool := butlast (mp_pool mp1)\<rparr>, h1))))"

definition mp_free :: "nat \<Rightarrow> MemPool \<Rightarrow> MemPool" where
  "mp_free t mp = mp\<lparr>mp_pool := mp_pool mp @ [t]\<rparr>"

text \<open>
  Accounting as for the allocator: the bytes of the objects in the pool and of the live objects
  \<open>live\<close> come from the regions obtained from the system.
\<close>

definition objs_foot :: "nat \<Rightarrow> nat list \<Rightarrow> nat multiset" where
  "objs_foot szT xs = sum_list (map (\<lambda>a. mset [a..<a + szT]) xs)"

definition mp_acc :: "nat \<Rightarrow> nat multiset \<Rightarrow> MemPool \<times> huge_alloc \<Rightarrow> bool" where
  "mp_acc szT u = (\<lambda>(mp, h). objs_foot szT (mp_pool mp) + u \<subseteq># shm_foot h \<and>
    1 \<le> num_to_alloc mp \<and> szT * num_to_alloc mp \<le> max 2097152 (2 * size (shm_foot h)))"

text \<open>
  What the system guarantees of the regions it maps: they do not overlap, and addresses have 48
  bits (which \<open>wheel_ent_t\<close> relies on when it stores a pointer in a 48-bit field).
\<close>

definition os_ok :: "huge_alloc \<Rightarrow> bool" where
  "os_ok h \<longleftrightarrow> (\<forall>x. count (shm_foot h) x \<le> 1) \<and> (\<forall>x \<in># shm_foot h. x < 2 ^ 48)"

lemma size_distinct_mset:
  assumes "\<And>x. count M x \<le> 1" "\<And>x. x \<in># M \<Longrightarrow> x < (n :: nat)"
  shows "size M \<le> n"
proof -
  have "size M = (\<Sum>x \<in> set_mset M. count M x)" by (simp add: size_multiset_overloaded_eq)
  also have "\<dots> \<le> (\<Sum>x \<in> set_mset M. 1)" using assms(1) by (intro sum_mono) simp
  also have "\<dots> \<le> card {..<n}" using assms(2) by (simp only: card_eq_sum [symmetric]) (intro card_mono; auto)
  finally show ?thesis by simp
qed

lemma os_ok_size: "os_ok h \<Longrightarrow> size (shm_foot h) \<le> 2 ^ 48"
  by (rule size_distinct_mset) (auto simp: os_ok_def)

lemma objs_foot_simps [simp]:
  "objs_foot szT [] = {#}" "objs_foot szT (x # xs) = mset [x..<x + szT] + objs_foot szT xs"
  "objs_foot szT (xs @ ys) = objs_foot szT xs + objs_foot szT ys"
  by (simp_all add: objs_foot_def del: mset_upt)

lemma objs_foot_array:
  "objs_foot szT (map (\<lambda>i. base + szT * i) [0..<n]) = mset [base..<base + szT * n]"
proof (induction n)
  case (Suc n)
  have "[base..<base + szT * Suc n] = [base..<base + szT * n] @ [base + szT * n..<base + szT * n + szT]"
    using upt_add_eq_append [of base "base + szT * n" szT] by (simp add: ac_simps)
  then show ?case using Suc by (simp del: mset_upt)
qed simp

lemma objs_foot_butlast:
  "xs \<noteq> [] \<Longrightarrow> objs_foot szT (butlast xs) + mset [last xs..<last xs + szT] = objs_foot szT xs"
  by (cases xs rule: rev_cases) (simp_all del: mset_upt)

lemma upt_prefix_mset: "n \<le> m \<Longrightarrow> mset [a..<a + n] \<subseteq># mset [a..<a + m]"
  using upt_add_eq_append [of a "a + n" "m - n"] by (simp del: mset_upt)

lemma shm_foot_snoc:
  "shm_list h' = shm_list h @ [r] \<Longrightarrow> shm_foot h' = shm_foot h + mset [sr_buf r..<sr_buf r + sr_size r]"
  by (simp add: shm_foot_def del: mset_upt)

definition mp_alloc_post ::
  "nat \<Rightarrow> nat multiset \<Rightarrow> huge_alloc \<Rightarrow> nat \<times> MemPool \<times> huge_alloc \<Rightarrow> bool" where
  "mp_alloc_post szT u h = (\<lambda>(a, mp', h').
    mp_acc szT (u + mset [a..<a + szT]) (mp', h') \<and>
    freelist h' = freelist h \<and> shm_foot h \<subseteq># shm_foot h')"

definition extend_post ::
  "nat \<Rightarrow> nat multiset \<Rightarrow> huge_alloc \<Rightarrow> MemPool \<times> huge_alloc \<Rightarrow> bool" where
  "extend_post szT u h = (\<lambda>(mp', h'). mp_acc szT u (mp', h') \<and> mp_pool mp' \<noteq> [] \<and>
      freelist h' = freelist h \<and> shm_foot h \<subseteq># shm_foot h')"

lemma extend_pool_some:
  assumes acc: "mp_acc szT u (mp, h)" and fl: "freelist h1 = freelist h"
    and r: "shm_list h1 = shm_list h @ [r]" "sr_buf r = base" "szT * num_to_alloc mp \<le> sr_size r"
  shows "extend_post szT u h
    (mp\<lparr>mp_pool := mp_pool mp @ map (\<lambda>i. base + szT * i) [0..<num_to_alloc mp],
        num_to_alloc := num_to_alloc mp * 2\<rparr>, h1)"
proof -
  let ?n = "szT * num_to_alloc mp"
  have "objs_foot szT (mp_pool mp) + u + mset [base..<base + ?n]
      \<subseteq># shm_foot h + mset [base..<base + sr_size r]"
    using acc upt_prefix_mset [OF r(3)] by (intro subset_mset.add_mono) (simp_all add: mp_acc_def del: mset_upt)
  then have "objs_foot szT (mp_pool mp @ map (\<lambda>i. base + szT * i) [0..<num_to_alloc mp]) + u
      \<subseteq># shm_foot h1"
    by (simp add: shm_foot_snoc [OF r(1)] r(2) objs_foot_array add.assoc add.commute add.left_commute
        del: mset_upt)
  moreover have "szT * (num_to_alloc mp * 2) \<le> 2 * size (shm_foot h1)"
    using r(3) by (simp add: shm_foot_snoc [OF r(1)] del: mset_upt)
  ultimately show ?thesis using acc fl
    by (simp add: extend_post_def mp_acc_def shm_foot_snoc [OF r(1)] del: mset_upt)
qed

lemma extend_pool_ok:
  assumes acc: "mp_acc szT u (mp, h)" and os: "os_ok h"
  shows "os_holds (extend_post szT u h) (extend_pool reg szT (mp, h))"
proof -
  let ?n = "szT * num_to_alloc mp"
  have "2 * size (shm_foot h) \<le> 2 ^ 49" using os_ok_size [OF os] by simp
  then have n: "?n \<le> 2 ^ 63" using acc by (auto simp: mp_acc_def max_def split: if_splits)
  show ?thesis unfolding extend_pool_def prod.case Let_def
  proof (rule os_holds_bind [OF alloc_raw_ok [OF n]], clarify)
    fix b and h1 :: huge_alloc
    assume fl: "freelist h1 = freelist h" and post: "case b_buf b of None \<Rightarrow> shm_list h1 = shm_list h
       | Some a \<Rightarrow> \<exists>r. shm_list h1 = shm_list h @ [r] \<and> sr_buf r = a \<and> ?n \<le> sr_size r"
    show "os_holds (extend_post szT u h)
      (case b_buf b of None \<Rightarrow> Inl RuntimeError
       | Some base \<Rightarrow> Inr (mp\<lparr>mp_pool := mp_pool mp @ map (\<lambda>i. base + szT * i) [0..<num_to_alloc mp],
                  num_to_alloc := num_to_alloc mp * 2\<rparr>, h1))"
      using post extend_pool_some [OF acc fl] by (cases "b_buf b") (auto simp: os_error_def)
  qed
qed

lemma mp_alloc_ok:
  assumes acc: "mp_acc szT u (mp, h)" and os: "os_ok h"
  shows "os_holds (mp_alloc_post szT u h) (mp_alloc reg szT (mp, h))"
proof -
  have "os_holds (extend_post szT u h)
      (if mp_pool mp = [] then extend_pool reg szT (mp, h) else Inr (mp, h))"
    using extend_pool_ok [OF acc os] acc by (simp add: extend_post_def)
  then show ?thesis unfolding mp_alloc_def prod.case
  proof (rule os_holds_bind, clarify)
    fix mp1 :: MemPool and h1 :: huge_alloc
    assume p: "extend_post szT u h (mp1, h1)"
    then have ne: "mp_pool mp1 \<noteq> []" by (simp add: extend_post_def)
    have "objs_foot szT (butlast (mp_pool mp1)) + (u + mset [last (mp_pool mp1)..<last (mp_pool mp1) + szT])
        = objs_foot szT (mp_pool mp1) + u"
      using objs_foot_butlast [OF ne, of szT] by (metis add.commute add.left_commute)
    moreover have "objs_foot szT (mp_pool mp1) + u \<subseteq># shm_foot h1"
      using p by (simp add: extend_post_def mp_acc_def)
    ultimately have "objs_foot szT (butlast (mp_pool mp1)) +
        (u + mset [last (mp_pool mp1)..<last (mp_pool mp1) + szT]) \<subseteq># shm_foot h1"
      by (simp only:)
    then show "os_holds (mp_alloc_post szT u h) (rangeE (mp_pool mp1 \<noteq> [])
       (Inr (last (mp_pool mp1), mp1\<lparr>mp_pool := butlast (mp_pool mp1)\<rparr>, h1)))"
      using p ne by (simp add: mp_alloc_post_def extend_post_def mp_acc_def del: mset_upt)
  qed
qed

lemma mp_acc_fresh:
  assumes acc: "mp_acc szT (u + mset [a..<a + szT]) (mp, h)" and os: "os_ok h"
  shows "{a..<a + szT} \<inter> (set_mset u \<union> set_mset (objs_foot szT (mp_pool mp))) = {}"
proof -
  have post: "objs_foot szT (mp_pool mp) + (u + mset [a..<a + szT]) \<subseteq># shm_foot h"
    using acc by (simp add: mp_acc_def)
  have "x \<notin># u + objs_foot szT (mp_pool mp)" if "x \<in> {a..<a + szT}" for x
  proof
    assume "x \<in># u + objs_foot szT (mp_pool mp)"
    then have "1 \<le> count (u + objs_foot szT (mp_pool mp)) x"
      by (simp only: Suc_le_eq One_nat_def count_greater_zero_iff)
    moreover have "1 \<le> count (mset [a..<a + szT]) x"
      using that by (simp only: Suc_le_eq One_nat_def count_greater_zero_iff set_mset_mset set_upt)
    moreover have "count (shm_foot h) x \<le> 1" using os by (simp add: os_ok_def)
    moreover note mset_subset_eq_count [OF post, of x]
    ultimately show False unfolding count_union by linarith
  qed
  then show ?thesis by auto
qed

text \<open>
  The object pool hands out memory that no live object occupies: an object returned by
  \<open>MemPool::alloc\<close> overlaps neither a live object nor an object that stays in the pool, whether it
  came from the pool or from a fresh hugepage region.
\<close>

theorem mempool_alloc_fresh:
  assumes acc: "mp_acc szT u (mp, h)" and os: "os_ok h" and al: "mp_alloc reg szT (mp, h) = Inr (a, mp', h')"
    and os': "os_ok h'"
  shows "{a..<a + szT} \<inter> (set_mset u \<union> set_mset (objs_foot szT (mp_pool mp'))) = {} \<and>
    mp_acc szT (u + mset [a..<a + szT]) (mp', h')"
proof -
  have "mp_acc szT (u + mset [a..<a + szT]) (mp', h')"
    using mp_alloc_ok [OF acc os, of reg] al by (simp add: mp_alloc_post_def)
  then show ?thesis using mp_acc_fresh [OF _ os'] by blast
qed

lemma ha_example_os_ok: "os_ok ha_example"
proof -
  have "set_mset (foot ha_example_buf) = {4096..<4096 + 128}"
    unfolding foot_def ha_example_buf_def Buffer.simps option.case set_mset_mset set_upt ..
  then show ?thesis unfolding os_ok_def ha_example_foot using foot_once by auto
qed

theorem mempool_alloc_fresh_witness:
  "\<exists>mp' h'. mp_alloc (\<lambda>_ _. 0) 64 (\<lparr>num_to_alloc = 1, mp_pool = [4096]\<rparr>, ha_example) = Inr (4096, mp', h') \<and>
    {4096..<4096 + 64} \<inter> set_mset (objs_foot 64 (mp_pool mp')) = {}"
proof -
  let ?mp = "\<lparr>num_to_alloc = 1, mp_pool = [4096]\<rparr>"
  have shm: "shm_foot ha_example = mset [4096..<4096 + 128]"
    unfolding ha_example_foot by (simp add: foot_def ha_example_buf_def del: mset_upt)
  have "mp_acc 64 {#} (?mp, ha_example)"
    unfolding mp_acc_def shm objs_foot_simps prod.case MemPool.simps add_0_right
    by (intro conjI upt_prefix_mset order_trans [OF _ max.cobounded1]) simp_all
  moreover have "mp_alloc (\<lambda>_ _. 0) 64 (?mp, ha_example) = Inr (4096, ?mp\<lparr>mp_pool := []\<rparr>, ha_example)"
    by (simp add: mp_alloc_def)
  moreover have "os_ok ha_example" by (rule ha_example_os_ok)
  ultimately show ?thesis using mempool_alloc_fresh by blast
qed

end
