(* ===== verification/Timers.thy ===== *)
theory Timers
  imports Erpc_Prelude Complex_Main
begin

section \<open>Time (\<open>util/timer.h\<close>)\<close>

text \<open>
  Cycle counts are \<open>nat\<close>; \<open>double\<close> values are mathematical reals, so rounding of floating-point
  operations is not modelled, but the truncation of a \<open>double\<close> to \<open>size_t\<close> is. Every call of
  \<open>rdtsc\<close> is an argument: the sampled time stamp.
\<close>

definition size_t_of :: "real \<Rightarrow> nat" where
  "size_t_of x = nat \<lfloor>x\<rfloor>"

definition to_sec :: "nat \<Rightarrow> real \<Rightarrow> real" where
  "to_sec cycles freq_ghz = real cycles / (freq_ghz * 1000000000)"

definition to_msec :: "nat \<Rightarrow> real \<Rightarrow> real" where
  "to_msec cycles freq_ghz = real cycles / (freq_ghz * 1000000)"

definition to_usec :: "nat \<Rightarrow> real \<Rightarrow> real" where
  "to_usec cycles freq_ghz = real cycles / (freq_ghz * 1000)"

definition to_nsec :: "nat \<Rightarrow> real \<Rightarrow> real" where
  "to_nsec cycles freq_ghz = real cycles / freq_ghz"

definition ms_to_cycles :: "real \<Rightarrow> real \<Rightarrow> nat" where
  "ms_to_cycles ms freq_ghz = size_t_of (ms * 1000 * 1000 * freq_ghz)"

definition us_to_cycles :: "real \<Rightarrow> real \<Rightarrow> nat" where
  "us_to_cycles us freq_ghz = size_t_of (us * 1000 * freq_ghz)"

definition ns_to_cycles :: "real \<Rightarrow> real \<Rightarrow> nat" where
  "ns_to_cycles ns freq_ghz = size_t_of (ns * freq_ghz)"

text \<open>
  \<open>measure_rdtsc_freq\<close>: the two samples and the elapsed nanoseconds are inputs. \<open>freq_loop\<close> is the
  calibration loop, on 64-bit words.
\<close>

definition freq_loop :: u64 where
  "freq_loop = fold (\<lambda>i sum. sum + (of_nat i + (sum + of_nat i) * (of_nat i mod sum))) [0..<1000000] 5"

definition measure_rdtsc_freq :: "nat \<Rightarrow> nat \<Rightarrow> nat \<Rightarrow> real res" where
  "measure_rdtsc_freq rdtsc_start rdtsc_end elapsed_ns =
    rt_assert (freq_loop = 13580802877818827968)
    (let freq_ghz = real (sub64 rdtsc_end rdtsc_start) / real elapsed_ns
     in rt_assert (1 / 2 \<le> freq_ghz \<and> freq_ghz \<le> 5) (Inr freq_ghz))"

text \<open>\<open>nano_sleep\<close>: the loop reads the clock until enough cycles have passed; \<open>clk\<close> is its answers.\<close>

fun nano_sleep_loop :: "nat \<Rightarrow> nat \<Rightarrow> nat \<Rightarrow> nat list \<Rightarrow> nat res" where
  "nano_sleep_loop start upp end [] = (if sub64 end start < upp then Inl NoReturn else Inr end)"
| "nano_sleep_loop start upp end (t # clk) =
    (if sub64 end start < upp then nano_sleep_loop start upp t clk else Inr end)"

definition nano_sleep :: "nat \<Rightarrow> real \<Rightarrow> nat \<Rightarrow> nat list \<Rightarrow> nat res" where
  "nano_sleep ns freq_ghz start clk = nano_sleep_loop start (size_t_of (freq_ghz * real ns)) start clk"

record TscTimer =
  start_tsc :: nat
  tsc_sum :: nat
  num_calls :: nat

definition tsc_start :: "nat \<Rightarrow> TscTimer \<Rightarrow> TscTimer" where
  "tsc_start now t = t\<lparr>start_tsc := now\<rparr>"

definition tsc_stop :: "nat \<Rightarrow> TscTimer \<Rightarrow> TscTimer" where
  "tsc_stop now t = t\<lparr>tsc_sum := tsc_sum t + sub64 now (start_tsc t), num_calls := num_calls t + 1\<rparr>"

definition tsc_reset :: "TscTimer \<Rightarrow> TscTimer" where
  "tsc_reset t = t\<lparr>start_tsc := 0, tsc_sum := 0, num_calls := 0\<rparr>"

text \<open>Division by zero traps: \<open>OutOfRange\<close>.\<close>

definition avg_cycles :: "TscTimer \<Rightarrow> nat res" where
  "avg_cycles t = rangeE (num_calls t \<noteq> 0) (Inr (tsc_sum t div num_calls t))"

definition avg_sec :: "real \<Rightarrow> TscTimer \<Rightarrow> real res" where
  "avg_sec freq_ghz t = bindE (avg_cycles t) (\<lambda>c. Inr (to_sec c freq_ghz))"

definition avg_usec :: "real \<Rightarrow> TscTimer \<Rightarrow> real res" where
  "avg_usec freq_ghz t = bindE (avg_cycles t) (\<lambda>c. Inr (to_usec c freq_ghz))"

definition avg_nsec :: "real \<Rightarrow> TscTimer \<Rightarrow> real res" where
  "avg_nsec freq_ghz t = bindE (avg_cycles t) (\<lambda>c. Inr (to_nsec c freq_ghz))"

subsection \<open>Conversions\<close>

lemma size_t_of_bounds:
  assumes "0 \<le> x"
  shows "real (size_t_of x) \<le> x" "x < real (size_t_of x) + 1"
  using assms by (simp_all add: size_t_of_def)

lemma size_t_of_eqI: "real n \<le> x \<Longrightarrow> x < real n + 1 \<Longrightarrow> size_t_of x = n"
  by (simp add: size_t_of_def floor_eq4 nat_eq_iff floor_unique)

lemma size_t_of_of_nat [simp]: "size_t_of (real n) = n"
  by (simp add: size_t_of_def)

lemma size_t_of_mono: "x \<le> y \<Longrightarrow> size_t_of x \<le> size_t_of y"
  unfolding size_t_of_def by (intro nat_mono floor_mono)

text \<open>
  Conversions between microseconds and cycles lose less than one cycle: converting to cycles
  and back gives a time that is not longer and short by less than the duration of one cycle, and
  converting cycles to microseconds and back is the identity.
\<close>

theorem usec_cycles_roundtrip:
  assumes "0 < freq_ghz" "0 \<le> us"
  shows "to_usec (us_to_cycles us freq_ghz) freq_ghz \<le> us \<and>
    us - to_usec (us_to_cycles us freq_ghz) freq_ghz < 1 / (freq_ghz * 1000) \<and>
    us_to_cycles (to_usec cycles freq_ghz) freq_ghz = cycles"
proof (intro conjI)
  let ?c = "us_to_cycles us freq_ghz"
  have b: "real ?c \<le> us * 1000 * freq_ghz" "us * 1000 * freq_ghz < real ?c + 1"
    unfolding us_to_cycles_def using assms by (intro size_t_of_bounds; simp)+
  show "to_usec ?c freq_ghz \<le> us" using b(1) assms by (simp add: to_usec_def field_simps)
  have "us - to_usec ?c freq_ghz = (us * 1000 * freq_ghz - real ?c) / (freq_ghz * 1000)"
    using assms by (simp add: to_usec_def field_simps)
  also have "\<dots> < 1 / (freq_ghz * 1000)" using b(2) assms by (intro divide_strict_right_mono) simp_all
  finally show "us - to_usec ?c freq_ghz < 1 / (freq_ghz * 1000)" .
  show "us_to_cycles (to_usec cycles freq_ghz) freq_ghz = cycles"
    using assms by (simp add: us_to_cycles_def to_usec_def)
qed

theorem usec_cycles_roundtrip_witness:
  "us_to_cycles 7 2 = 14000 \<and> to_usec (us_to_cycles 7 2) 2 \<le> 7"
proof -
  have "us_to_cycles 7 2 = size_t_of (real 14000)" by (simp add: us_to_cycles_def)
  then show ?thesis using usec_cycles_roundtrip [of 2 7] by (simp del: of_nat_numeral)
qed

end
