(* ===== verification/Timing_Wheel.thy ===== *)
theory Timing_Wheel
  imports Msg_Buffer Containers Timers
begin

section \<open>The timing wheel (\<open>cc/timing_wheel.h\<close>)\<close>

text \<open>
  The rate limiter's wheel: \<open>kWheelNumWslots\<close> slots, each the head of a chain of five-entry
  buckets. Buckets live in a store indexed by address; chained buckets come from the hugepage
  object pool, so \<open>insert\<close> threads the allocator. The refinement lemmas relate the pointer
  structure to an abstract wheel: a list of slots, from the current one on, and a queue.

  The type \<open>'p\<close> is the type of the \<open>SSlot*\<close> stored in an entry.
\<close>

abbreviation (input) kSessionCredits :: nat where "kSessionCredits \<equiv> 32"
abbreviation (input) kMinRate :: real where "kMinRate \<equiv> 15000000"
abbreviation (input) kWheelBucketCap :: nat where "kWheelBucketCap \<equiv> 5"
abbreviation (input) sizeof_wheel_bkt :: nat where "sizeof_wheel_bkt \<equiv> 64"

definition kWheelSlotWidthUs :: real where
  "kWheelSlotWidthUs = 1 / 2"

definition kWheelHorizonUs :: "transport_cfg \<Rightarrow> real" where
  "kWheelHorizonUs cfg = real (1000000 * (kSessionCredits * kMTU cfg)) / kMinRate"

text \<open>\<open>erpc::ceil\<close> in \<open>math_utils.h\<close>.\<close>

definition ceil_size_t :: "real \<Rightarrow> nat" where
  "ceil_size_t num = (if real (size_t_of num) = num then size_t_of num
    else size_t_of num + (if num > 0 then 1 else 0))"

definition kWheelNumWslots :: "transport_cfg \<Rightarrow> nat" where
  "kWheelNumWslots cfg = 1 + ceil_size_t (kWheelHorizonUs cfg / kWheelSlotWidthUs)"

subsection \<open>State\<close>

record 'p wheel_ent =
  we_sslot :: 'p
  we_pkt_num :: u16

record 'p wheel_bkt =
  num_entries :: nat
  tx_tsc :: nat
  bk_last :: nat
  bk_next :: "nat option"
  entry :: "'p wheel_ent list"

record 'p timing_wheel =
  wslot_width_tsc :: nat
  horizon_tsc :: nat
  wheel :: nat
  cur_wslot :: nat
  bkts :: "nat \<Rightarrow> 'p wheel_bkt"
  bkt_pool :: MemPool
  ready_queue :: "'p wheel_ent list"

definition wslot_addr :: "'p timing_wheel \<Rightarrow> nat \<Rightarrow> nat" where
  "wslot_addr w i = wheel w + sizeof_wheel_bkt * i"

definition upd_bkt :: "nat \<Rightarrow> ('p wheel_bkt \<Rightarrow> 'p wheel_bkt) \<Rightarrow> 'p timing_wheel \<Rightarrow> 'p timing_wheel" where
  "upd_bkt a f w = w\<lparr>bkts := (bkts w)(a := f (bkts w a))\<rparr>"

subsection \<open>Operations\<close>

definition reset_bkt :: "nat \<Rightarrow> 'p timing_wheel \<Rightarrow> 'p timing_wheel" where
  "reset_bkt a w = upd_bkt a (\<lambda>b. b\<lparr>bk_next := None, num_entries := 0\<rparr>) w"

text \<open>The constructor; \<open>mem\<close> is the content of the memory that \<open>alloc_raw\<close> returns.\<close>

definition init_wslot :: "nat \<Rightarrow> nat \<Rightarrow> 'p timing_wheel \<Rightarrow> 'p timing_wheel" where
  "init_wslot base_tsc ws_i w =
    upd_bkt (wslot_addr w ws_i)
      (\<lambda>b. b\<lparr>tx_tsc := base_tsc + (ws_i + 1) * wslot_width_tsc w, bk_last := wslot_addr w ws_i\<rparr>)
      (reset_bkt (wslot_addr w ws_i) w)"

definition timing_wheel_init ::
  "transport_cfg \<Rightarrow> real \<Rightarrow> (nat \<Rightarrow> nat \<Rightarrow> u32) \<Rightarrow> (nat \<Rightarrow> 'p wheel_bkt) \<Rightarrow> nat \<Rightarrow> huge_alloc \<Rightarrow>
    ('p timing_wheel \<times> huge_alloc) res" where
  "timing_wheel_init cfg freq_ghz reg mem base_tsc h =
    bindE (alloc_raw reg (kWheelNumWslots cfg * sizeof_wheel_bkt) RegFalse h) (\<lambda>(wheel_buffer, h1).
    case b_buf wheel_buffer of
      None \<Rightarrow> Inl RuntimeError
    | Some a \<Rightarrow>
        Inr (fold (init_wslot base_tsc) [0..<kWheelNumWslots cfg]
          \<lparr>wslot_width_tsc = us_to_cycles kWheelSlotWidthUs freq_ghz,
           horizon_tsc = us_to_cycles (kWheelHorizonUs cfg) freq_ghz, wheel = a,
           cur_wslot = 0, bkts = mem, bkt_pool = MemPool_init sizeof_wheel_bkt, ready_queue = []\<rparr>, h1))"

text \<open>
  The loop over a chain. A chain in memory is finite; the first argument bounds the number of
  buckets visited, and \<open>reap_wslot\<close> starts it with \<open>2 ^ 64\<close>, the number of addresses.
\<close>

function reap_chain :: "nat \<Rightarrow> nat \<Rightarrow> nat option \<Rightarrow> 'p timing_wheel \<Rightarrow> 'p timing_wheel res" where
  "reap_chain fuel ws_i bkt w =
    (case bkt of
       None \<Rightarrow> Inr w
     | Some a \<Rightarrow>
         if fuel = 0 then Inl NoReturn
         else
           (let b = bkts w a;
                w1 = w\<lparr>ready_queue := ready_queue w @ take (num_entries b) (entry b)\<rparr>;
                tmp_next = bk_next b;
                w2 = reset_bkt a w1;
                w3 = (if a \<noteq> wslot_addr w ws_i then w2\<lparr>bkt_pool := mp_free a (bkt_pool w2)\<rparr> else w2)
            in reap_chain (fuel - 1) ws_i tmp_next w3))"
  by pat_completeness auto
termination by (relation "measure (\<lambda>(fuel, _, _, _). fuel)") auto

declare reap_chain.simps [simp del]

definition reap_wslot :: "nat \<Rightarrow> 'p timing_wheel \<Rightarrow> 'p timing_wheel res" where
  "reap_wslot ws_i w =
    bindE (reap_chain (2 ^ 64) ws_i (Some (wslot_addr w ws_i)) w) (\<lambda>w1.
      Inr (upd_bkt (wslot_addr w1 ws_i) (\<lambda>b. b\<lparr>bk_last := wslot_addr w1 ws_i\<rparr>) w1))"

text \<open>
  The loop of \<open>reap\<close>, again with a bound; since the time stamp of the current slot grows with every
  iteration, \<open>reap_tsc + 1\<close> iterations are enough (\<open>reap_refines\<close> below).
\<close>

function reap_loop :: "nat \<Rightarrow> transport_cfg \<Rightarrow> nat \<Rightarrow> 'p timing_wheel \<Rightarrow> 'p timing_wheel res" where
  "reap_loop fuel cfg reap_tsc w =
    (if tx_tsc (bkts w (wslot_addr w (cur_wslot w))) \<le> reap_tsc then
       (if fuel = 0 then Inl NoReturn
        else bindE (reap_wslot (cur_wslot w) w) (\<lambda>w1.
          let w2 = upd_bkt (wslot_addr w1 (cur_wslot w1))
                (\<lambda>b. b\<lparr>tx_tsc := tx_tsc b + wslot_width_tsc w1 * kWheelNumWslots cfg\<rparr>) w1;
              c = cur_wslot w2 + 1
          in reap_loop (fuel - 1) cfg reap_tsc
              (w2\<lparr>cur_wslot := (if c = kWheelNumWslots cfg then 0 else c)\<rparr>)))
     else Inr w)"
  by pat_completeness auto
termination by (relation "measure (\<lambda>(fuel, _, _, _). fuel)") auto

declare reap_loop.simps [simp del]

definition reap :: "transport_cfg \<Rightarrow> nat \<Rightarrow> 'p timing_wheel \<Rightarrow> 'p timing_wheel res" where
  "reap cfg reap_tsc w = reap_loop (reap_tsc + 1) cfg reap_tsc w"

text \<open>\<open>catchup\<close>; \<open>clk\<close> is the list of clock samples, two for each iteration.\<close>

fun catchup :: "transport_cfg \<Rightarrow> nat list \<Rightarrow> 'p timing_wheel \<Rightarrow> 'p timing_wheel res" where
  "catchup cfg (t # clk) w =
    (if tx_tsc (bkts w (wslot_addr w (cur_wslot w))) < t then
       (case clk of [] \<Rightarrow> Inl NoReturn
        | t2 # clk2 \<Rightarrow> bindE (reap cfg t2 w) (\<lambda>w1. catchup cfg clk2 w1))
     else Inr w)"
| "catchup cfg [] w = Inl NoReturn"

definition alloc_bkt ::
  "(nat \<Rightarrow> nat \<Rightarrow> u32) \<Rightarrow> 'p timing_wheel \<times> huge_alloc \<Rightarrow> (nat \<times> 'p timing_wheel \<times> huge_alloc) res" where
  "alloc_bkt reg = (\<lambda>(w, h).
    bindE (mp_alloc reg sizeof_wheel_bkt (bkt_pool w, h)) (\<lambda>(bkt, mp, h1).
      Inr (bkt, reset_bkt bkt (w\<lparr>bkt_pool := mp\<rparr>), h1)))"

definition insert_into_wslot ::
  "(nat \<Rightarrow> nat \<Rightarrow> u32) \<Rightarrow> nat \<Rightarrow> 'p wheel_ent \<Rightarrow> 'p timing_wheel \<times> huge_alloc \<Rightarrow>
    ('p timing_wheel \<times> huge_alloc) res" where
  "insert_into_wslot reg ws_i ent = (\<lambda>(w, h).
    let last_bkt = bk_last (bkts w (wslot_addr w ws_i))
    in assertE (bk_next (bkts w last_bkt) = None)
      (assertE (num_entries (bkts w last_bkt) < kWheelBucketCap)
      (let w1 = upd_bkt last_bkt (\<lambda>b. b\<lparr>entry := (entry b)[num_entries b := ent],
                                        num_entries := num_entries b + 1\<rparr>) w
       in if num_entries (bkts w1 last_bkt) = kWheelBucketCap
          then bindE (alloc_bkt reg (w1, h)) (\<lambda>(new_bkt, w2, h1).
            Inr (upd_bkt (wslot_addr w2 ws_i) (\<lambda>b. b\<lparr>bk_last := new_bkt\<rparr>)
                  (upd_bkt last_bkt (\<lambda>b. b\<lparr>bk_next := Some new_bkt\<rparr>) w2), h1))
          else Inr (w1, h))))"

definition tw_insert ::
  "transport_cfg \<Rightarrow> (nat \<Rightarrow> nat \<Rightarrow> u32) \<Rightarrow> 'p wheel_ent \<Rightarrow> nat \<Rightarrow> nat \<Rightarrow>
    'p timing_wheel \<times> huge_alloc \<Rightarrow> ('p timing_wheel \<times> huge_alloc) res" where
  "tw_insert cfg reg ent ref_tsc desired_tx_tsc = (\<lambda>(w, h).
    assertE (ref_tsc \<le> desired_tx_tsc) (assertE (sub64 desired_tx_tsc ref_tsc \<le> horizon_tsc w)
    (bindE (reap cfg ref_tsc w) (\<lambda>w1.
      let cur_tsc = tx_tsc (bkts w1 (wslot_addr w1 (cur_wslot w1)))
      in assertE (ref_tsc < cur_tsc)
        (if desired_tx_tsc \<le> cur_tsc then insert_into_wslot reg (cur_wslot w1) ent (w1, h)
         else
           (let wslot_delta = 1 + (desired_tx_tsc - cur_tsc) div wslot_width_tsc w1
            in assertE (wslot_delta < kWheelNumWslots cfg)
              (let dst_wslot = cur_wslot w1 + wslot_delta
               in insert_into_wslot reg
                    (if kWheelNumWslots cfg \<le> dst_wslot then dst_wslot - kWheelNumWslots cfg
                     else dst_wslot) ent (w1, h))))))))"

subsection \<open>The abstract wheel\<close>

text \<open>
  The contract of the wheel: the transmission time of the current slot, the entries of the slots
  from the current one on (slot \<open>k\<close> is due at \<open>aw_tsc + k * width\<close>), and the ready queue.
\<close>

record 'e awheel =
  aw_tsc :: nat
  aw_slots :: "'e list list"
  aw_ready :: "'e list"

text \<open>\<open>due width t a\<close>: the number of slots whose time has come at \<open>t\<close>.\<close>

definition due :: "nat \<Rightarrow> nat \<Rightarrow> 'e awheel \<Rightarrow> nat" where
  "due width t a = (if aw_tsc a \<le> t then (t - aw_tsc a) div width + 1 else 0)"

definition aw_reap :: "nat \<Rightarrow> nat \<Rightarrow> 'e awheel \<Rightarrow> 'e awheel" where
  "aw_reap width t a =
    (let n = due width t a
     in \<lparr>aw_tsc = aw_tsc a + n * width,
         aw_slots = drop n (aw_slots a) @ replicate (min n (length (aw_slots a))) [],
         aw_ready = aw_ready a @ concat (take n (aw_slots a))\<rparr>)"

definition aw_slot_for :: "nat \<Rightarrow> nat \<Rightarrow> 'e awheel \<Rightarrow> nat" where
  "aw_slot_for width t a = (if t \<le> aw_tsc a then 0 else 1 + (t - aw_tsc a) div width)"

definition aw_insert :: "nat \<Rightarrow> 'e \<Rightarrow> nat \<Rightarrow> nat \<Rightarrow> 'e awheel \<Rightarrow> 'e awheel" where
  "aw_insert width e ref t a =
    (let a1 = aw_reap width ref a; k = aw_slot_for width t a1
     in a1\<lparr>aw_slots := (aw_slots a1)[k := aw_slots a1 ! k @ [e]]\<rparr>)"

definition aw_step :: "nat \<Rightarrow> 'e awheel \<Rightarrow> 'e awheel" where
  "aw_step width a = \<lparr>aw_tsc = aw_tsc a + width, aw_slots = tl (aw_slots a) @ [[]],
    aw_ready = aw_ready a @ hd (aw_slots a)\<rparr>"

lemma due_step:
  assumes "0 < width" "aw_tsc a \<le> t"
  shows "due width t a = Suc (due width t (aw_step width a))"
proof (cases "aw_tsc a + width \<le> t")
  case True
  then have "(t - aw_tsc a) div width = (t - aw_tsc a - width) div width + 1"
    using assms by (simp add: le_div_geq)
  then show ?thesis using True assms by (simp add: due_def aw_step_def)
next
  case False
  then show ?thesis using assms by (simp add: due_def aw_step_def)
qed

lemma aw_reap_step:
  assumes w: "0 < width" and t: "aw_tsc a \<le> t" and ne: "aw_slots a \<noteq> []"
  shows "aw_reap width t a = aw_reap width t (aw_step width a)"
proof -
  obtain s ss where s: "aw_slots a = s # ss" using ne by (cases "aw_slots a") auto
  let ?n = "due width t (aw_step width a)"
  have "drop ?n ss @ replicate (Suc (min ?n (length ss))) [] =
      drop ?n (ss @ [[]]) @ replicate (min ?n (Suc (length ss))) []"
  proof (cases "?n \<le> length ss")
    case True
    then show ?thesis by (simp add: min_def)
  next
    case False
    then have "min ?n (length ss) = length ss" "min ?n (Suc (length ss)) = Suc (length ss)" by auto
    with False show ?thesis by simp
  qed
  moreover have "concat (take ?n (ss @ [[]])) = concat (take ?n ss)"
    by (cases "?n - length ss") auto
  ultimately show ?thesis
    using s due_step [OF w t] by (simp add: aw_reap_def Let_def aw_step_def)
qed

lemma aw_reap_idle: "t < aw_tsc a \<Longrightarrow> aw_reap width t a = a"
  by (simp add: aw_reap_def due_def)

lemma aw_reap_tsc: "0 < width \<Longrightarrow> t < aw_tsc (aw_reap width t a)"
proof (cases "aw_tsc a \<le> t")
  case True
  assume "0 < width"
  then have "t - aw_tsc a < ((t - aw_tsc a) div width + 1) * width"
    using dividend_less_div_times [of width "t - aw_tsc a"] by (simp add: algebra_simps)
  then show ?thesis using True by (simp add: aw_reap_def Let_def due_def)
qed (simp add: aw_reap_idle)

lemma aw_reap_length [simp]: "length (aw_slots (aw_reap width t a)) = length (aw_slots a)"
  by (simp add: aw_reap_def Let_def min_def)

subsection \<open>Chains of buckets\<close>

fun path :: "(nat \<Rightarrow> 'p wheel_bkt) \<Rightarrow> nat option \<Rightarrow> nat list \<Rightarrow> bool" where
  "path m p [] \<longleftrightarrow> p = None"
| "path m p (a # as) \<longleftrightarrow> p = Some a \<and> path m (bk_next (m a)) as"

definition bkt_ents :: "'p wheel_bkt \<Rightarrow> 'p wheel_ent list" where
  "bkt_ents b = take (num_entries b) (entry b)"

definition chain_ents :: "(nat \<Rightarrow> 'p wheel_bkt) \<Rightarrow> nat list \<Rightarrow> 'p wheel_ent list" where
  "chain_ents m as = concat (map (\<lambda>a. bkt_ents (m a)) as)"

definition chain_ok :: "(nat \<Rightarrow> 'p wheel_bkt) \<Rightarrow> nat list \<Rightarrow> bool" where
  "chain_ok m as \<longleftrightarrow> as \<noteq> [] \<and> path m (Some (hd as)) as \<and> num_entries (m (last as)) < kWheelBucketCap"

lemma path_cong: "(\<And>a. a \<in> set as \<Longrightarrow> bk_next (m a) = bk_next (m' a)) \<Longrightarrow> path m p as = path m' p as"
  by (induction as arbitrary: p) auto

lemma chain_ents_cong:
  "(\<And>a. a \<in> set as \<Longrightarrow> bkt_ents (m a) = bkt_ents (m' a)) \<Longrightarrow> chain_ents m as = chain_ents m' as"
  unfolding chain_ents_def by (intro arg_cong [of _ _ concat]) simp

lemma path_last: "path m p as \<Longrightarrow> as \<noteq> [] \<Longrightarrow> bk_next (m (last as)) = None"
  by (induction as arbitrary: p) (auto split: if_splits)

lemma path_snoc:
  "path m p as \<Longrightarrow> as \<noteq> [] \<Longrightarrow> distinct as \<Longrightarrow> a \<notin> set as \<Longrightarrow> m' (last as) = (m (last as))\<lparr>bk_next := Some a\<rparr> \<Longrightarrow>
    bk_next (m' a) = None \<Longrightarrow> (\<And>x. x \<in> set (butlast as) \<Longrightarrow> bk_next (m' x) = bk_next (m x)) \<Longrightarrow>
    path m' p (as @ [a])"
proof (induction as arbitrary: p)
  case (Cons x xs)
  then show ?case by (cases "xs = []") auto
qed simp

text \<open>The traversal of a chain: its entries go to the ready queue, its buckets are reset.\<close>

lemma reap_chain_eq:
  assumes "path (bkts w) p as" "distinct as" "length as \<le> fuel"
  shows "reap_chain fuel ws_i p w = Inr (w
    \<lparr>ready_queue := ready_queue w @ chain_ents (bkts w) as,
     bkts := (\<lambda>a. if a \<in> set as then (bkts w a)\<lparr>bk_next := None, num_entries := 0\<rparr> else bkts w a),
     bkt_pool := (bkt_pool w)\<lparr>mp_pool := mp_pool (bkt_pool w) @ filter (\<lambda>a. a \<noteq> wslot_addr w ws_i) as\<rparr>\<rparr>)"
  using assms
proof (induction as arbitrary: p w fuel)
  case Nil
  then show ?case by (simp add: reap_chain.simps chain_ents_def)
next
  case (Cons a as)
  let ?w1 = "w\<lparr>ready_queue := ready_queue w @ take (num_entries (bkts w a)) (entry (bkts w a))\<rparr>"
  let ?w2 = "reset_bkt a ?w1"
  let ?w3 = "if a \<noteq> wslot_addr w ws_i then ?w2\<lparr>bkt_pool := mp_free a (bkt_pool ?w2)\<rparr> else ?w2"
  have b3: "bkts ?w3 = (bkts w)(a := (bkts w a)\<lparr>bk_next := None, num_entries := 0\<rparr>)"
    by (simp add: reset_bkt_def upd_bkt_def)
  have "path (bkts ?w3) (bk_next (bkts w a)) as"
    using Cons.prems by (subst path_cong [of as _ "bkts w"]) (auto simp: b3)
  then have IH: "reap_chain (fuel - 1) ws_i (bk_next (bkts w a)) ?w3 = Inr (?w3
    \<lparr>ready_queue := ready_queue ?w3 @ chain_ents (bkts ?w3) as,
     bkts := (\<lambda>a. if a \<in> set as then (bkts ?w3 a)\<lparr>bk_next := None, num_entries := 0\<rparr> else bkts ?w3 a),
     bkt_pool := (bkt_pool ?w3)\<lparr>mp_pool := mp_pool (bkt_pool ?w3) @ filter (\<lambda>a. a \<noteq> wslot_addr ?w3 ws_i) as\<rparr>\<rparr>)"
    using Cons.prems by (intro Cons.IH) auto
  have ents: "chain_ents (bkts ?w3) as = chain_ents (bkts w) as"
    using Cons.prems by (intro chain_ents_cong) (auto simp: b3)
  have "reap_chain fuel ws_i p w = reap_chain (fuel - 1) ws_i (bk_next (bkts w a)) ?w3"
    using Cons.prems by (subst reap_chain.simps) (auto simp: Let_def)
  also note IH
  finally show ?case unfolding ents
    using Cons.prems by (auto simp: reset_bkt_def upd_bkt_def mp_free_def wslot_addr_def chain_ents_def bkt_ents_def fun_eq_iff)
qed

subsection \<open>Invariant and abstraction\<close>

text \<open>
  \<open>ch i\<close> is the list of bucket addresses of slot \<open>i\<close>, \<open>u\<close> the footprint of everything else that
  was allocated from hugepages without registration.
\<close>

definition all_bkts :: "transport_cfg \<Rightarrow> (nat \<Rightarrow> nat list) \<Rightarrow> nat list" where
  "all_bkts cfg ch = concat (map ch [0..<kWheelNumWslots cfg])"

definition slots_ok :: "transport_cfg \<Rightarrow> (nat \<Rightarrow> nat list) \<Rightarrow> 'p timing_wheel \<Rightarrow> bool" where
  "slots_ok cfg ch w \<longleftrightarrow> (\<forall>i < kWheelNumWslots cfg. chain_ok (bkts w) (ch i) \<and>
    hd (ch i) = wslot_addr w i \<and> bk_last (bkts w (wslot_addr w i)) = last (ch i))"

definition slot_tsc :: "'p timing_wheel \<Rightarrow> nat \<Rightarrow> nat" where
  "slot_tsc w i = tx_tsc (bkts w (wslot_addr w i))"

definition times_ok :: "transport_cfg \<Rightarrow> 'p timing_wheel \<Rightarrow> bool" where
  "times_ok cfg w \<longleftrightarrow> (\<forall>k < kWheelNumWslots cfg. slot_tsc w ((cur_wslot w + k) mod kWheelNumWslots cfg) =
    slot_tsc w (cur_wslot w) + k * wslot_width_tsc w)"

definition tw_inv ::
  "transport_cfg \<Rightarrow> nat multiset \<Rightarrow> (nat \<Rightarrow> nat list) \<Rightarrow> 'p timing_wheel \<times> huge_alloc \<Rightarrow> bool" where
  "tw_inv cfg u ch = (\<lambda>(w, h). 0 < wslot_width_tsc w \<and> cur_wslot w < kWheelNumWslots cfg \<and>
    (\<forall>a. length (entry (bkts w a)) = kWheelBucketCap) \<and> slots_ok cfg ch w \<and> times_ok cfg w \<and>
    mp_acc sizeof_wheel_bkt (u + objs_foot sizeof_wheel_bkt (all_bkts cfg ch)) (bkt_pool w, h) \<and> os_ok h)"

definition abs_tw :: "transport_cfg \<Rightarrow> (nat \<Rightarrow> nat list) \<Rightarrow> 'p timing_wheel \<Rightarrow> 'p wheel_ent awheel" where
  "abs_tw cfg ch w =
    \<lparr>aw_tsc = slot_tsc w (cur_wslot w),
     aw_slots = map (\<lambda>k. chain_ents (bkts w) (ch ((cur_wslot w + k) mod kWheelNumWslots cfg)))
       [0..<kWheelNumWslots cfg],
     aw_ready = ready_queue w\<rparr>"

lemma tw_invD:
  assumes "tw_inv cfg u ch (w, h)"
  shows "0 < wslot_width_tsc w" "cur_wslot w < kWheelNumWslots cfg" "slots_ok cfg ch w" "times_ok cfg w"
    "length (entry (bkts w a)) = kWheelBucketCap" "os_ok h"
    "mp_acc sizeof_wheel_bkt (u + objs_foot sizeof_wheel_bkt (all_bkts cfg ch)) (bkt_pool w, h)"
  using assms by (auto simp: tw_inv_def)

lemma count_objs_foot: "0 < szT \<Longrightarrow> count_list xs a \<le> count (objs_foot szT xs) a"
proof (induction xs)
  case (Cons x xs)
  have "x = a \<Longrightarrow> 1 \<le> count (mset [x..<x + szT]) a"
    using Cons.prems by (simp only: Suc_le_eq One_nat_def count_greater_zero_iff set_mset_mset) simp
  then have "x = a \<Longrightarrow> count_list xs a + 1 \<le> count (mset [x..<x + szT]) a + count (objs_foot szT xs) a"
    using Cons by force
  moreover have "count_list xs a \<le> count (objs_foot szT xs) a" using Cons by simp
  ultimately show ?case
    unfolding objs_foot_simps count_union count_list.simps by (cases "x = a") simp_all
qed simp

lemma distinct_concat_upt:
  "distinct (concat (map f [0..<n])) \<Longrightarrow> i < n \<Longrightarrow> j < n \<Longrightarrow> i \<noteq> j \<Longrightarrow> set (f i) \<inter> set (f j) = {}"
proof (induction n)
  case (Suc n)
  then have "\<And>k. k < n \<Longrightarrow> set (f k) \<inter> set (f n) = {}" by fastforce
  with Suc show ?case by (auto simp: less_Suc_eq)
qed simp

lemma distinct_count_list: "(\<And>x. count_list xs x \<le> 1) \<Longrightarrow> distinct xs"
proof (induction xs)
  case (Cons x xs)
  have "count_list xs y \<le> 1" for y using Cons.prems [of y] by (simp split: if_splits)
  moreover have "x \<notin> set xs" using Cons.prems [of x] by (simp add: count_list_0_iff)
  ultimately show ?case using Cons.IH by simp
qed simp

lemma tw_inv_distinct:
  assumes "tw_inv cfg u ch (w, h)"
  shows "distinct (mp_pool (bkt_pool w) @ all_bkts cfg ch)" "\<And>a. a \<in> set (all_bkts cfg ch) \<Longrightarrow> a < 2 ^ 48"
proof -
  let ?xs = "mp_pool (bkt_pool w) @ all_bkts cfg ch"
  have sub: "objs_foot sizeof_wheel_bkt ?xs + u \<subseteq># shm_foot h"
    using tw_invD(7) [OF assms] by (simp add: mp_acc_def ac_simps)
  have "count_list ?xs a \<le> count (shm_foot h) a" for a
    using count_objs_foot [of sizeof_wheel_bkt ?xs a] mset_subset_eq_count [OF sub, of a]
    unfolding count_union by linarith
  note le = this
  have "count_list ?xs a \<le> 1" for a
    using le [of a] tw_invD(6) [OF assms] unfolding os_ok_def by (meson order_trans)
  then show "distinct ?xs" by (rule distinct_count_list)
  show "a < 2 ^ 48" if "a \<in> set (all_bkts cfg ch)" for a
  proof -
    have "count_list ?xs a \<noteq> 0" using that by (simp only: count_list_0_iff) simp
    then have "a \<in># shm_foot h" using le [of a] by (simp only: count_greater_zero_iff [symmetric])
    then show ?thesis using tw_invD(6) [OF assms] by (simp add: os_ok_def)
  qed
qed

lemma tw_inv_chain:
  assumes inv: "tw_inv cfg u ch (w, h)" and i: "i < kWheelNumWslots cfg"
  shows "distinct (ch i)" "length (ch i) \<le> 2 ^ 64" "ch i \<noteq> []" "hd (ch i) = wslot_addr w i"
    "path (bkts w) (Some (wslot_addr w i)) (ch i)" "num_entries (bkts w (last (ch i))) < kWheelBucketCap"
    "bk_last (bkts w (wslot_addr w i)) = last (ch i)"
    "\<And>j. j < kWheelNumWslots cfg \<Longrightarrow> j \<noteq> i \<Longrightarrow> set (ch i) \<inter> set (ch j) = {}"
proof -
  note d = tw_inv_distinct [OF inv]
  have sub: "set (ch i) \<subseteq> set (all_bkts cfg ch)" using i by (auto simp: all_bkts_def)
  have "distinct (concat (map ch [0..<kWheelNumWslots cfg]))" using d(1) by (simp add: all_bkts_def)
  note dc = this
  show di: "distinct (ch i)" using dc i by (auto simp: distinct_concat_iff)
  have "length (ch i) = card (set (ch i))" using di by (simp add: distinct_card)
  also have "\<dots> \<le> card {..<2 ^ 48 :: nat}" using sub d(2) by (intro card_mono) auto
  finally show "length (ch i) \<le> 2 ^ 64" by simp
  have so: "chain_ok (bkts w) (ch i) \<and> hd (ch i) = wslot_addr w i \<and>
      bk_last (bkts w (wslot_addr w i)) = last (ch i)"
    using tw_invD(3) [OF inv] i by (simp add: slots_ok_def)
  then show "ch i \<noteq> []" "hd (ch i) = wslot_addr w i" "path (bkts w) (Some (wslot_addr w i)) (ch i)"
    "num_entries (bkts w (last (ch i))) < kWheelBucketCap" "bk_last (bkts w (wslot_addr w i)) = last (ch i)"
    by (auto simp: chain_ok_def)
  show "set (ch i) \<inter> set (ch j) = {}" if "j < kWheelNumWslots cfg" "j \<noteq> i" for j
    using distinct_concat_upt [OF dc i that(1)] that(2) by auto
qed

subsection \<open>Reaping refines the abstract wheel\<close>

lemma objs_foot_concat: "objs_foot szT (concat xss) = sum_list (map (objs_foot szT) xss)"
  by (induction xss) simp_all

lemma objs_foot_all_update:
  assumes "i < kWheelNumWslots cfg"
  shows "objs_foot szT (all_bkts cfg (ch(i := xs))) + objs_foot szT (ch i) =
    objs_foot szT (all_bkts cfg ch) + objs_foot szT xs"
proof -
  have "map (ch(i := xs)) [0..<kWheelNumWslots cfg] = (map ch [0..<kWheelNumWslots cfg])[i := xs]"
    by (intro nth_equalityI) (auto simp: nth_list_update)
  then show ?thesis
    using sum_list_map_update [of i "map ch [0..<kWheelNumWslots cfg]" "objs_foot szT" xs] assms
    by (simp add: all_bkts_def objs_foot_concat)
qed

lemma wslot_addr_in_chain:
  "tw_inv cfg u ch (w, h) \<Longrightarrow> i < kWheelNumWslots cfg \<Longrightarrow> wslot_addr w i \<in> set (ch i)"
  by (metis tw_inv_chain(3,4) hd_in_set)

lemma wslot_addr_inj [simp]: "wslot_addr w i = wslot_addr w j \<longleftrightarrow> i = j"
  by (simp add: wslot_addr_def)

lemma mod_add_cancel:
  assumes "c < (n :: nat)" "k < n"
  shows "(c + k) mod n = c \<longleftrightarrow> k = 0"
  using assms by (cases "c + k < n") (auto simp: le_mod_geq not_less)

text \<open>One iteration of \<open>reap\<close>, written out.\<close>

definition reap_body ::
  "transport_cfg \<Rightarrow> (nat \<Rightarrow> nat list) \<Rightarrow> 'p timing_wheel \<Rightarrow> 'p timing_wheel" where
  "reap_body cfg ch w =
    (let c = cur_wslot w; s = wslot_addr w c
     in w\<lparr>ready_queue := ready_queue w @ chain_ents (bkts w) (ch c),
          bkts := (\<lambda>a. let b = (if a \<in> set (ch c) then (bkts w a)\<lparr>bk_next := None, num_entries := 0\<rparr>
                               else bkts w a)
             in if a = s then b\<lparr>bk_last := s, tx_tsc := tx_tsc b + wslot_width_tsc w * kWheelNumWslots cfg\<rparr>
                else b),
          bkt_pool := (bkt_pool w)\<lparr>mp_pool := mp_pool (bkt_pool w) @ tl (ch c)\<rparr>,
          cur_wslot := Suc c mod kWheelNumWslots cfg\<rparr>)"

lemma filter_tl: "distinct xs \<Longrightarrow> xs \<noteq> [] \<Longrightarrow> filter (\<lambda>a. a \<noteq> hd xs) xs = tl xs"
  by (cases xs) auto

lemma reap_loop_step:
  assumes inv: "tw_inv cfg u ch (w, h)" and t: "slot_tsc w (cur_wslot w) \<le> t"
  shows "reap_loop (Suc fuel) cfg t w = reap_loop fuel cfg t (reap_body cfg ch w)"
proof -
  let ?c = "cur_wslot w"
  have c: "?c < kWheelNumWslots cfg" using tw_invD(2) [OF inv] .
  note C = tw_inv_chain [OF inv c]
  have f: "filter (\<lambda>a. a \<noteq> wslot_addr w ?c) (ch ?c) = tl (ch ?c)"
    using filter_tl [OF C(1,3)] C(4) by simp
  let ?w1 = "w\<lparr>ready_queue := ready_queue w @ chain_ents (bkts w) (ch ?c),
     bkts := (\<lambda>a. if a \<in> set (ch ?c) then (bkts w a)\<lparr>bk_next := None, num_entries := 0\<rparr> else bkts w a),
     bkt_pool := (bkt_pool w)\<lparr>mp_pool := mp_pool (bkt_pool w) @ tl (ch ?c)\<rparr>\<rparr>"
  let ?w2 = "upd_bkt (wslot_addr w ?c) (\<lambda>b. b\<lparr>bk_last := wslot_addr w ?c\<rparr>) ?w1"
  have "reap_wslot ?c w = Inr ?w2"
    unfolding reap_wslot_def reap_chain_eq [OF C(5,1,2), of ?c, unfolded f]
    by (simp add: wslot_addr_def)
  then have "reap_loop (Suc fuel) cfg t w = reap_loop fuel cfg t
      ((upd_bkt (wslot_addr w ?c) (\<lambda>b. b\<lparr>tx_tsc := tx_tsc b + wslot_width_tsc w * kWheelNumWslots cfg\<rparr>) ?w2)
        \<lparr>cur_wslot := (if Suc ?c = kWheelNumWslots cfg then 0 else Suc ?c)\<rparr>)"
    using t unfolding slot_tsc_def
    by (subst reap_loop.simps) (simp add: Let_def upd_bkt_def wslot_addr_def)
  also have "(if Suc ?c = kWheelNumWslots cfg then 0 else Suc ?c) = Suc ?c mod kWheelNumWslots cfg"
    using c by simp
  also have "(upd_bkt (wslot_addr w ?c) (\<lambda>b. b\<lparr>tx_tsc := tx_tsc b + wslot_width_tsc w * kWheelNumWslots cfg\<rparr>) ?w2)
      \<lparr>cur_wslot := Suc ?c mod kWheelNumWslots cfg\<rparr> = reap_body cfg ch w"
    by (intro timing_wheel.equality) (auto simp: reap_body_def Let_def upd_bkt_def fun_eq_iff)
  finally show ?thesis .
qed

lemma reap_body_chain:
  assumes inv: "tw_inv cfg u ch (w, h)" and i: "i < kWheelNumWslots cfg" and ne: "i \<noteq> cur_wslot w"
    and a: "a \<in> set (ch i)"
  shows "bkts (reap_body cfg ch w) a = bkts w a"
proof -
  have c: "cur_wslot w < kWheelNumWslots cfg" using tw_invD(2) [OF inv] .
  have "a \<notin> set (ch (cur_wslot w))" using tw_inv_chain(8) [OF inv i c] ne a by auto
  then show ?thesis using wslot_addr_in_chain [OF inv c] by (auto simp: reap_body_def Let_def)
qed

lemma reap_body_other_chain:
  assumes inv: "tw_inv cfg u ch (w, h)" and i: "i < kWheelNumWslots cfg" and ne: "i \<noteq> cur_wslot w"
  shows "chain_ok (bkts (reap_body cfg ch w)) (ch i)"
    "chain_ents (bkts (reap_body cfg ch w)) (ch i) = chain_ents (bkts w) (ch i)"
proof -
  note same = reap_body_chain [OF inv i ne]
  have "chain_ok (bkts w) (ch i)" using tw_invD(3) [OF inv] i by (simp add: slots_ok_def)
  then show "chain_ok (bkts (reap_body cfg ch w)) (ch i)"
    using path_cong [of "ch i" "bkts (reap_body cfg ch w)" "bkts w"] same last_in_set [of "ch i"]
    by (auto simp: chain_ok_def)
  show "chain_ents (bkts (reap_body cfg ch w)) (ch i) = chain_ents (bkts w) (ch i)"
    by (rule chain_ents_cong) (simp add: same)
qed

lemma wslot_addr_reap_body [simp]: "wslot_addr (reap_body cfg ch w) i = wslot_addr w i"
  by (simp add: wslot_addr_def reap_body_def Let_def)

lemma slot_tsc_reap_body:
  assumes "tw_inv cfg u ch (w, h)" "i < kWheelNumWslots cfg"
  shows "slot_tsc (reap_body cfg ch w) i =
    slot_tsc w i + (if i = cur_wslot w then wslot_width_tsc w * kWheelNumWslots cfg else 0)"
  by (simp add: slot_tsc_def) (simp add: reap_body_def Let_def)

lemma times_ok_reap_body:
  assumes inv: "tw_inv cfg u ch (w, h)"
  shows "times_ok cfg (reap_body cfg ch w)"
    "slot_tsc (reap_body cfg ch w) (Suc (cur_wslot w) mod kWheelNumWslots cfg)
      = slot_tsc w (cur_wslot w) + wslot_width_tsc w"
proof -
  let ?N = "kWheelNumWslots cfg" and ?c = "cur_wslot w" and ?w' = "reap_body cfg ch w"
  have c: "?c < ?N" using tw_invD(2) [OF inv] .
  have t: "\<And>k. k < ?N \<Longrightarrow> slot_tsc w ((?c + k) mod ?N) = slot_tsc w ?c + k * wslot_width_tsc w"
    using tw_invD(4) [OF inv] by (simp add: times_ok_def)
  have key: "slot_tsc ?w' ((?c + Suc k) mod ?N) = slot_tsc w ?c + Suc k * wslot_width_tsc w" if "k < ?N" for k
  proof (cases "Suc k < ?N")
    case True
    then have "(?c + Suc k) mod ?N \<noteq> ?c" using mod_add_cancel [OF c True] by simp
    then show ?thesis using t [OF True] c by (simp add: slot_tsc_reap_body [OF inv])
  next
    case False
    then have "Suc k = ?N" using that by simp
    then have "(?c + Suc k) mod ?N = ?c" using c by simp
    then show ?thesis using c \<open>Suc k = ?N\<close> by (simp add: slot_tsc_reap_body [OF inv] mult.commute)
  qed
  show first: "slot_tsc ?w' (Suc ?c mod ?N) = slot_tsc w ?c + wslot_width_tsc w"
    using key [of 0] c by simp
  show "times_ok cfg ?w'" unfolding times_ok_def
  proof (intro allI impI)
    fix k assume k: "k < ?N"
    have "(cur_wslot ?w' + k) mod ?N = (?c + Suc k) mod ?N"
      by (simp add: reap_body_def Let_def mod_simps)
    then show "slot_tsc ?w' ((cur_wslot ?w' + k) mod ?N) = slot_tsc ?w' (cur_wslot ?w') + k * wslot_width_tsc ?w'"
      using key [OF k] first by (simp add: reap_body_def Let_def)
  qed
qed

lemma reap_body_inv:
  assumes inv: "tw_inv cfg u ch (w, h)"
  shows "tw_inv cfg u (ch(cur_wslot w := [wslot_addr w (cur_wslot w)])) (reap_body cfg ch w, h)"
proof -
  let ?N = "kWheelNumWslots cfg" and ?c = "cur_wslot w" and ?w' = "reap_body cfg ch w"
  let ?ch' = "ch(?c := [wslot_addr w ?c])"
  have c: "?c < ?N" using tw_invD(2) [OF inv] .
  note C = tw_inv_chain [OF inv c]
  have "slots_ok cfg ?ch' ?w'" unfolding slots_ok_def
  proof (intro allI impI)
    fix i assume i: "i < ?N"
    show "chain_ok (bkts ?w') (?ch' i) \<and> hd (?ch' i) = wslot_addr ?w' i \<and>
      bk_last (bkts ?w' (wslot_addr ?w' i)) = last (?ch' i)"
    proof (cases "i = ?c")
      case True
      then show ?thesis using wslot_addr_in_chain [OF inv c]
        by (simp add: chain_ok_def reap_body_def Let_def wslot_addr_def)
    next
      case False
      then show ?thesis
        using reap_body_other_chain [OF inv i False] tw_inv_chain [OF inv i]
          reap_body_chain [OF inv i False] wslot_addr_in_chain [OF inv i] by simp
    qed
  qed
  moreover have "objs_foot 64 (ch ?c) = mset [wslot_addr w ?c..<wslot_addr w ?c + 64] + objs_foot 64 (tl (ch ?c))"
    using C(3,4) by (cases "ch ?c") (simp_all del: mset_upt)
  then have "objs_foot 64 (all_bkts cfg ?ch') + objs_foot 64 (tl (ch ?c)) = objs_foot 64 (all_bkts cfg ch)"
    using objs_foot_all_update [OF c, of 64 ch "[wslot_addr w ?c]"]
    by (simp add: add.assoc add.commute add.left_commute del: mset_upt)
  then have "mp_acc 64 (u + objs_foot 64 (all_bkts cfg ?ch')) (bkt_pool ?w', h)"
    using tw_invD(7) [OF inv] by (simp add: mp_acc_def reap_body_def Let_def ac_simps)
  moreover have "length (entry (bkts ?w' a)) = kWheelBucketCap" for a
    using tw_invD(5) [OF inv] by (simp add: reap_body_def Let_def)
  ultimately show ?thesis using inv times_ok_reap_body [OF inv] c
    by (auto simp: tw_inv_def reap_body_def Let_def)
qed

lemma abs_reap_body:
  assumes inv: "tw_inv cfg u ch (w, h)"
  shows "abs_tw cfg (ch(cur_wslot w := [wslot_addr w (cur_wslot w)])) (reap_body cfg ch w)
    = aw_step (wslot_width_tsc w) (abs_tw cfg ch w)"
proof -
  let ?N = "kWheelNumWslots cfg" and ?c = "cur_wslot w" and ?w' = "reap_body cfg ch w"
  let ?ch' = "ch(?c := [wslot_addr w ?c])"
  let ?e = "\<lambda>k. chain_ents (bkts w) (ch ((?c + k) mod ?N))"
  let ?e' = "\<lambda>k. chain_ents (bkts ?w') (?ch' ((?c + Suc k) mod ?N))"
  have c: "?c < ?N" using tw_invD(2) [OF inv] .
  have same: "?e' k = (if Suc k = ?N then [] else ?e (Suc k))" if k: "k < ?N" for k
  proof (cases "Suc k = ?N")
    case True
    then have "(?c + Suc k) mod ?N = ?c" using c by simp
    moreover have "chain_ents (bkts ?w') [wslot_addr w ?c] = []"
      using wslot_addr_in_chain [OF inv c] by (simp add: chain_ents_def bkt_ents_def reap_body_def Let_def)
    ultimately show ?thesis using True by simp
  next
    case False
    then have ne: "(?c + Suc k) mod ?N \<noteq> ?c" using mod_add_cancel [OF c, of "Suc k"] k by simp
    moreover have "(?c + Suc k) mod ?N < ?N" using c by simp
    ultimately show ?thesis using False reap_body_other_chain(2) [OF inv] by simp
  qed
  have cur': "(cur_wslot ?w' + k) mod ?N = (?c + Suc k) mod ?N" for k
    by (simp add: reap_body_def Let_def mod_simps)
  have "map ?e' [0..<?N] = tl (map ?e [0..<?N]) @ [[]]"
  proof (rule nth_equalityI)
    fix i assume "i < length (map ?e' [0..<?N])"
    then have i: "i < ?N" by simp
    have "map ?e' [0..<?N] ! i = ?e' i" using i by simp
    also have "\<dots> = (if Suc i = ?N then [] else ?e (Suc i))" by (rule same [OF i])
    also have "\<dots> = (tl (map ?e [0..<?N]) @ [[]]) ! i"
      using i by (auto simp: nth_append nth_tl)
    finally show "map ?e' [0..<?N] ! i = (tl (map ?e [0..<?N]) @ [[]]) ! i" .
  qed (use c in simp)
  moreover have "hd (map ?e [0..<?N]) = chain_ents (bkts w) (ch ?c)" using c by (simp add: hd_map)
  moreover have "ready_queue ?w' = ready_queue w @ chain_ents (bkts w) (ch ?c)"
    by (simp add: reap_body_def Let_def)
  moreover have "slot_tsc ?w' (cur_wslot ?w') = slot_tsc w ?c + wslot_width_tsc w"
    using times_ok_reap_body(2) [OF inv] by (simp add: reap_body_def Let_def)
  ultimately show ?thesis unfolding abs_tw_def aw_step_def cur' by simp
qed

definition same_wheel :: "'p timing_wheel \<Rightarrow> 'p timing_wheel \<Rightarrow> bool" where
  "same_wheel w w' \<longleftrightarrow> wslot_width_tsc w' = wslot_width_tsc w \<and> horizon_tsc w' = horizon_tsc w \<and> wheel w' = wheel w"

lemma same_wheel_reap_body [simp]: "same_wheel w (reap_body cfg ch w)"
  by (simp add: same_wheel_def reap_body_def Let_def)

lemma abs_tw_sel [simp]:
  "aw_tsc (abs_tw cfg ch w) = slot_tsc w (cur_wslot w)" "aw_ready (abs_tw cfg ch w) = ready_queue w"
  "length (aw_slots (abs_tw cfg ch w)) = kWheelNumWslots cfg"
  by (simp_all add: abs_tw_def)

lemma kWheelNumWslots_pos [simp]: "0 < kWheelNumWslots cfg"
  by (simp add: kWheelNumWslots_def)

lemma abs_tw_nonempty [simp]: "aw_slots (abs_tw cfg ch w) \<noteq> []"
  by (metis abs_tw_sel(3) kWheelNumWslots_pos length_greater_0_conv)

lemma reap_loop_ok:
  assumes "tw_inv cfg u ch (w, h)" "due (wslot_width_tsc w) t (abs_tw cfg ch w) \<le> fuel"
  shows "\<exists>ch' w'. reap_loop fuel cfg t w = Inr w' \<and> tw_inv cfg u ch' (w', h) \<and> same_wheel w w' \<and>
    abs_tw cfg ch' w' = aw_reap (wslot_width_tsc w) t (abs_tw cfg ch w)"
  using assms
proof (induction fuel arbitrary: ch w)
  case 0
  then have idle: "t < aw_tsc (abs_tw cfg ch w)" by (simp add: due_def split: if_splits)
  then have "reap_loop 0 cfg t w = Inr w" by (subst reap_loop.simps) (simp add: slot_tsc_def)
  then show ?case using aw_reap_idle [OF idle] 0(1) by (auto simp: same_wheel_def)
next
  case (Suc fuel)
  show ?case
  proof (cases "slot_tsc w (cur_wslot w) \<le> t")
    case True
    let ?w1 = "reap_body cfg ch w" and ?ch1 = "ch(cur_wslot w := [wslot_addr w (cur_wslot w)])"
    have wd: "wslot_width_tsc ?w1 = wslot_width_tsc w" by (simp add: reap_body_def Let_def)
    have pos: "0 < wslot_width_tsc w" using tw_invD(1) [OF Suc.prems(1)] .
    have t: "aw_tsc (abs_tw cfg ch w) \<le> t" using True by simp
    have "due (wslot_width_tsc ?w1) t (abs_tw cfg ?ch1 ?w1) \<le> fuel"
      using due_step [OF pos t] Suc.prems by (simp add: wd abs_reap_body)
    from Suc.IH [OF reap_body_inv [OF Suc.prems(1)] this]
    show ?thesis unfolding reap_loop_step [OF Suc.prems(1) True] wd abs_reap_body [OF Suc.prems(1)]
      aw_reap_step [OF pos t abs_tw_nonempty, symmetric]
      by (auto simp: same_wheel_def reap_body_def Let_def)
  next
    case False
    then have "reap_loop (Suc fuel) cfg t w = Inr w" by (subst reap_loop.simps) (simp add: slot_tsc_def)
    moreover have "t < aw_tsc (abs_tw cfg ch w)" using False by simp
    then have "aw_reap (wslot_width_tsc w) t (abs_tw cfg ch w) = abs_tw cfg ch w" by (rule aw_reap_idle)
    ultimately show ?thesis using Suc.prems(1) by (auto simp: same_wheel_def)
  qed
qed

lemma due_le: "due width t a \<le> t + 1"
  by (simp add: due_def) (meson diff_le_self div_le_dividend order_trans)

lemma reap_ok:
  assumes "tw_inv cfg u ch (w, h)"
  shows "\<exists>ch' w'. reap cfg t w = Inr w' \<and> tw_inv cfg u ch' (w', h) \<and> same_wheel w w' \<and>
    abs_tw cfg ch' w' = aw_reap (wslot_width_tsc w) t (abs_tw cfg ch w)"
  unfolding reap_def by (rule reap_loop_ok [OF assms due_le])

subsection \<open>Inserting refines the abstract wheel\<close>

lemma mod_add_inj:
  assumes "j < (n :: nat)" "k < n" "(c + j) mod n = (c + k) mod n"
  shows "j = k"
proof -
  have "b - a = 0" if "a \<le> b" "b < n" "(c + b) mod n = (c + a) mod n" for a b
  proof -
    have "n dvd b - a" using mod_eq_dvd_iff_nat [of "c + a" "c + b" n] that by simp
    then show ?thesis using that(2) by (metis diff_le_self le_less_trans nat_dvd_not_less neq0_conv)
  qed
  then show ?thesis using assms by (metis diff_is_0_eq nat_le_linear order_antisym)
qed

lemma chain_update:
  assumes inv: "tw_inv cfg u ch (w, h)" and i: "i < kWheelNumWslots cfg"
    and k: "k < kWheelNumWslots cfg" "(cur_wslot w + k) mod kWheelNumWslots cfg = i"
    and same: "same_wheel w w'" "cur_wslot w' = cur_wslot w" "ready_queue w' = ready_queue w"
    and len: "\<And>a. length (entry (bkts w' a)) = kWheelBucketCap"
    and frame: "\<And>j a. j < kWheelNumWslots cfg \<Longrightarrow> j \<noteq> i \<Longrightarrow> a \<in> set (ch j) \<Longrightarrow> bkts w' a = bkts w a"
    and tsc: "tx_tsc (bkts w' (wslot_addr w i)) = tx_tsc (bkts w (wslot_addr w i))"
    and xs: "chain_ok (bkts w') xs" "hd xs = wslot_addr w i" "bk_last (bkts w' (wslot_addr w i)) = last xs"
    and ents: "chain_ents (bkts w') xs = chain_ents (bkts w) (ch i) @ [e]"
    and acc: "mp_acc 64 (u + objs_foot 64 (all_bkts cfg (ch(i := xs)))) (bkt_pool w', h')" "os_ok h'"
  shows "tw_inv cfg u (ch(i := xs)) (w', h') \<and>
    abs_tw cfg (ch(i := xs)) w' = (abs_tw cfg ch w)
      \<lparr>aw_slots := (aw_slots (abs_tw cfg ch w))[k := aw_slots (abs_tw cfg ch w) ! k @ [e]]\<rparr>"
proof
  let ?N = "kWheelNumWslots cfg"
  have addr [simp]: "wslot_addr w' j = wslot_addr w j" for j
    using same(1) by (simp add: same_wheel_def wslot_addr_def)
  have slot: "bkts w' (wslot_addr w j) = bkts w (wslot_addr w j)" if "j < ?N" "j \<noteq> i" for j
    using frame [OF that] wslot_addr_in_chain [OF inv that(1)] by simp
  have st: "slot_tsc w' j = slot_tsc w j" if "j < ?N" for j
    using slot [OF that] tsc by (cases "j = i") (simp_all add: slot_tsc_def)
  have "slots_ok cfg (ch(i := xs)) w'" unfolding slots_ok_def
  proof (intro allI impI)
    fix j assume j: "j < ?N"
    show "chain_ok (bkts w') ((ch(i := xs)) j) \<and> hd ((ch(i := xs)) j) = wslot_addr w' j \<and>
      bk_last (bkts w' (wslot_addr w' j)) = last ((ch(i := xs)) j)"
    proof (cases "j = i")
      case False
      note C = tw_inv_chain [OF inv j]
      have "path (bkts w') p (ch j) = path (bkts w) p (ch j)" for p
        using frame [OF j False] by (intro path_cong) simp
      then have "chain_ok (bkts w') (ch j)"
        using C(3,4,5,6) frame [OF j False last_in_set [OF C(3)]] by (simp add: chain_ok_def)
      then show ?thesis using False C slot [OF j False] by simp
    qed (use xs in simp)
  qed
  moreover have cl: "cur_wslot w < ?N" using tw_invD(2) [OF inv] .
  then have "times_ok cfg w'"
    using tw_invD(4) [OF inv] same st by (simp add: times_ok_def same_wheel_def)
  ultimately show "tw_inv cfg u (ch(i := xs)) (w', h')"
    using inv same len acc by (simp add: tw_inv_def same_wheel_def)
  have "chain_ents (bkts w') ((ch(i := xs)) ((cur_wslot w + j) mod ?N)) =
      (if j = k then chain_ents (bkts w) (ch i) @ [e] else chain_ents (bkts w) (ch ((cur_wslot w + j) mod ?N)))"
    if j: "j < ?N" for j
  proof (cases "j = k")
    case False
    then have ne: "(cur_wslot w + j) mod ?N \<noteq> i" using mod_add_inj [OF j k(1), of "cur_wslot w"] k(2) by auto
    have "(cur_wslot w + j) mod ?N < ?N" by simp
    from chain_ents_cong [OF arg_cong [of _ _ bkt_ents, OF frame [OF this ne]]] show ?thesis
      using False ne by simp
  qed (use k ents in simp)
  note ce = this
  have "aw_slots (abs_tw cfg (ch(i := xs)) w') =
      (aw_slots (abs_tw cfg ch w))[k := aw_slots (abs_tw cfg ch w) ! k @ [e]]"
  proof (rule nth_equalityI)
    fix j assume "j < length (aw_slots (abs_tw cfg (ch(i := xs)) w'))"
    then have j: "j < ?N" by simp
    then have "aw_slots (abs_tw cfg (ch(i := xs)) w') ! j =
        chain_ents (bkts w') ((ch(i := xs)) ((cur_wslot w + j) mod ?N))"
      using same(2) by (simp add: abs_tw_def)
    also note ce [OF j]
    finally show "aw_slots (abs_tw cfg (ch(i := xs)) w') ! j =
        (aw_slots (abs_tw cfg ch w))[k := aw_slots (abs_tw cfg ch w) ! k @ [e]] ! j"
      using j k by (simp add: abs_tw_def nth_list_update)
  qed simp
  then show "abs_tw cfg (ch(i := xs)) w' = (abs_tw cfg ch w)
      \<lparr>aw_slots := (aw_slots (abs_tw cfg ch w))[k := aw_slots (abs_tw cfg ch w) ! k @ [e]]\<rparr>"
    using same st cl by (intro awheel.equality) (simp_all add: abs_tw_def)
qed

lemma last_notin_butlast: "as \<noteq> [] \<Longrightarrow> distinct as \<Longrightarrow> last as \<notin> set (butlast as)"
  by (metis append_butlast_last_id distinct_append disjoint_iff list.set_intros(1))

lemma chain_ents_last:
  assumes "as \<noteq> []" "distinct as" "\<And>a. a \<in> set as \<Longrightarrow> a \<noteq> last as \<Longrightarrow> bkt_ents (m' a) = bkt_ents (m a)"
    "bkt_ents (m' (last as)) = bkt_ents (m (last as)) @ [e]"
  shows "chain_ents m' as = chain_ents m as @ [e]"
proof -
  have as: "as = butlast as @ [last as]" using assms(1) by simp
  have "chain_ents m' (butlast as) = chain_ents m (butlast as)"
    using assms(3) last_notin_butlast [OF assms(1,2)] by (intro chain_ents_cong) (metis in_set_butlastD)
  then show ?thesis
    using assms(4) by (subst (1 2) as) (simp add: chain_ents_def)
qed

lemma insert_not_full:
  assumes inv: "tw_inv cfg u ch (w, h)" and i: "i < kWheelNumWslots cfg"
    and L: "L = last (ch i)" and n: "num_entries (bkts w L) + 1 < kWheelBucketCap"
    and w': "w' = upd_bkt L (\<lambda>b. b\<lparr>entry := (entry b)[num_entries b := e], num_entries := num_entries b + 1\<rparr>) w"
    and k: "k < kWheelNumWslots cfg" "(cur_wslot w + k) mod kWheelNumWslots cfg = i"
  shows "tw_inv cfg u ch (w', h) \<and> abs_tw cfg ch w' = (abs_tw cfg ch w)
      \<lparr>aw_slots := (aw_slots (abs_tw cfg ch w))[k := aw_slots (abs_tw cfg ch w) ! k @ [e]]\<rparr>"
proof -
  note C = tw_inv_chain [OF inv i]
  have Lin: "L \<in> set (ch i)" using C(3) L by simp
  have frame: "bkts w' a = bkts w a" if "j < kWheelNumWslots cfg" "j \<noteq> i" "a \<in> set (ch j)" for j a
    using C(8) [OF that(1,2)] that(3) Lin w' by (auto simp: upd_bkt_def)
  have bk: "bk_next (bkts w' a) = bk_next (bkts w a)" "bk_last (bkts w' a) = bk_last (bkts w a)"
    "tx_tsc (bkts w' a) = tx_tsc (bkts w a)" for a
    by (simp_all add: w' upd_bkt_def)
  have len: "length (entry (bkts w' a)) = kWheelBucketCap" for a
    using tw_invD(5) [OF inv] by (simp add: w' upd_bkt_def)
  have "path (bkts w') p (ch i) = path (bkts w) p (ch i)" for p by (intro path_cong) (simp add: bk)
  then have "chain_ok (bkts w') (ch i)" using C n L by (simp add: chain_ok_def w' upd_bkt_def)
  moreover have "chain_ents (bkts w') (ch i) = chain_ents (bkts w) (ch i) @ [e]"
    using C(1,3) tw_invD(5) [OF inv] n L
    by (intro chain_ents_last) (simp_all add: w' upd_bkt_def bkt_ents_def take_Suc_update)
  ultimately have "tw_inv cfg u (ch(i := ch i)) (w', h) \<and>
    abs_tw cfg (ch(i := ch i)) w' = (abs_tw cfg ch w)
      \<lparr>aw_slots := (aw_slots (abs_tw cfg ch w))[k := aw_slots (abs_tw cfg ch w) ! k @ [e]]\<rparr>"
    using frame len C tw_invD [OF inv] w' bk
    by (intro chain_update [OF inv i k]) (simp_all add: same_wheel_def upd_bkt_def)
  then show ?thesis by simp
qed

lemma insert_full:
  assumes inv: "tw_inv cfg u ch (w, h)" and i: "i < kWheelNumWslots cfg"
    and L: "L = last (ch i)" and n: "num_entries (bkts w L) + 1 = kWheelBucketCap"
    and w1: "w1 = upd_bkt L (\<lambda>b. b\<lparr>entry := (entry b)[num_entries b := e], num_entries := num_entries b + 1\<rparr>) w"
    and acc: "mp_acc 64 (u + objs_foot 64 (all_bkts cfg ch) + mset [a..<a + 64]) (mp, h')" and os: "os_ok h'"
    and w': "w' = upd_bkt (wslot_addr w i) (\<lambda>b. b\<lparr>bk_last := a\<rparr>)
      (upd_bkt L (\<lambda>b. b\<lparr>bk_next := Some a\<rparr>) (reset_bkt a (w1\<lparr>bkt_pool := mp\<rparr>)))"
    and k: "k < kWheelNumWslots cfg" "(cur_wslot w + k) mod kWheelNumWslots cfg = i"
  shows "tw_inv cfg u (ch(i := ch i @ [a])) (w', h') \<and> abs_tw cfg (ch(i := ch i @ [a])) w' = (abs_tw cfg ch w)
      \<lparr>aw_slots := (aw_slots (abs_tw cfg ch w))[k := aw_slots (abs_tw cfg ch w) ! k @ [e]]\<rparr>"
proof -
  note C = tw_inv_chain [OF inv i]
  let ?S = "wslot_addr w i"
  have Lin: "L \<in> set (ch i)" and Sin: "?S \<in> set (ch i)" using C(3) wslot_addr_in_chain [OF inv i] L by auto
  have "x \<in># objs_foot 64 xs" if "x \<in> set xs" for x xs
    using count_objs_foot [of 64 xs x] that count_list_0_iff [of xs x]
    by (metis count_eq_zero_iff le_zero_eq zero_less_numeral)
  moreover have "a \<in> {a..<a + 64}" by simp
  then have "a \<notin># objs_foot 64 (all_bkts cfg ch)" using mp_acc_fresh [OF acc os] by (metis Int_iff Un_iff empty_iff union_iff)
  ultimately have "a \<notin> set (all_bkts cfg ch)" by blast
  then have fresh: "a \<notin> set (ch j)" if "j < kWheelNumWslots cfg" for j
    using that by (auto simp: all_bkts_def)
  have ne: "a \<noteq> L" "a \<noteq> ?S" using fresh [OF i] Lin Sin by auto
  have B: "bkts w' x = (if x = a then (bkts w a)\<lparr>bk_next := None, num_entries := 0\<rparr>
      else if x = L then (bkts w L)\<lparr>entry := (entry (bkts w L))[num_entries (bkts w L) := e],
          num_entries := kWheelBucketCap, bk_next := Some a,
          bk_last := (if L = ?S then a else bk_last (bkts w L))\<rparr>
      else if x = ?S then (bkts w x)\<lparr>bk_last := a\<rparr> else bkts w x)" for x
    using ne n by (simp add: w' w1 upd_bkt_def reset_bkt_def)
  have rest: "same_wheel w w'" "cur_wslot w' = cur_wslot w" "ready_queue w' = ready_queue w" "bkt_pool w' = mp"
    by (simp_all add: w' w1 upd_bkt_def reset_bkt_def same_wheel_def)
  have frame: "bkts w' x = bkts w x" if "j < kWheelNumWslots cfg" "j \<noteq> i" "x \<in> set (ch j)" for j x
    using C(8) [OF that(1,2)] that(3) Lin Sin fresh [OF that(1)] by (auto simp: B)
  have len: "length (entry (bkts w' x)) = kWheelBucketCap" for x
    using tw_invD(5) [OF inv] by (simp add: B)
  have "path (bkts w') (Some ?S) (ch i @ [a])"
  proof (rule path_snoc [where m = "\<lambda>x. if x = L then (bkts w' L)\<lparr>bk_next := None\<rparr> else bkts w x"])
    show "path (\<lambda>x. if x = L then (bkts w' L)\<lparr>bk_next := None\<rparr> else bkts w x) (Some ?S) (ch i)"
      using C(5) path_last [OF C(5,3)] L by (subst path_cong [of _ _ "bkts w"]) simp_all
  qed (use C fresh [OF i] L ne last_notin_butlast [OF C(3,1)] in \<open>auto simp: B dest: in_set_butlastD\<close>)
  then have "chain_ok (bkts w') (ch i @ [a])" using C by (simp add: chain_ok_def B)
  moreover have "chain_ents (bkts w') (ch i) = chain_ents (bkts w) (ch i) @ [e]"
  proof (rule chain_ents_last [OF C(3,1)])
    show "bkt_ents (bkts w' x) = bkt_ents (bkts w x)" if "x \<in> set (ch i)" "x \<noteq> last (ch i)" for x
      using that fresh [OF i] L by (auto simp: B bkt_ents_def)
    show "bkt_ents (bkts w' (last (ch i))) = bkt_ents (bkts w (last (ch i))) @ [e]"
      using ne n L tw_invD(5) [OF inv, of L] take_Suc_update [of "num_entries (bkts w L)" "entry (bkts w L)" e]
      by (simp add: B bkt_ents_def)
  qed
  then have "chain_ents (bkts w') (ch i @ [a]) = chain_ents (bkts w) (ch i) @ [e]"
    by (simp add: chain_ents_def bkt_ents_def B)
  moreover have "objs_foot 64 (all_bkts cfg (ch(i := ch i @ [a]))) = objs_foot 64 (all_bkts cfg ch) + mset [a..<a + 64]"
    using objs_foot_all_update [OF i, of 64 ch "ch i @ [a]"]
    by (simp add: add.assoc add.commute add.left_commute del: mset_upt)
  then have "mp_acc 64 (u + objs_foot 64 (all_bkts cfg (ch(i := ch i @ [a])))) (bkt_pool w', h')"
    using acc rest(4) by (simp add: add.assoc del: mset_upt)
  moreover have "tx_tsc (bkts w' ?S) = tx_tsc (bkts w ?S)" "bk_last (bkts w' ?S) = a"
    using ne by (auto simp: B)
  ultimately show ?thesis
    using frame len C rest os by (intro chain_update [OF inv i k]) simp_all
qed

lemma bkt_pool_upd_bkt [simp]: "bkt_pool (upd_bkt a f w) = bkt_pool w"
  by (simp add: upd_bkt_def)

definition insert_post ::
  "transport_cfg \<Rightarrow> nat multiset \<Rightarrow> 'p timing_wheel \<Rightarrow> 'p wheel_ent awheel \<Rightarrow>
    'p timing_wheel \<times> huge_alloc \<Rightarrow> bool" where
  "insert_post cfg u w a = (\<lambda>(w', h'). same_wheel w w' \<and>
    (os_ok h' \<longrightarrow> (\<exists>ch'. tw_inv cfg u ch' (w', h') \<and> abs_tw cfg ch' w' = a)))"

lemma insert_into_wslot_ok:
  assumes inv: "tw_inv cfg u ch (w, h)" and i: "i < kWheelNumWslots cfg"
    and k: "k < kWheelNumWslots cfg" "(cur_wslot w + k) mod kWheelNumWslots cfg = i"
    and a: "a = (abs_tw cfg ch w)
      \<lparr>aw_slots := (aw_slots (abs_tw cfg ch w))[k := aw_slots (abs_tw cfg ch w) ! k @ [e]]\<rparr>"
  shows "os_holds (insert_post cfg u w a) (insert_into_wslot reg i e (w, h))"
proof -
  note C = tw_inv_chain [OF inv i]
  let ?L = "last (ch i)"
  let ?w1 = "upd_bkt ?L (\<lambda>b. b\<lparr>entry := (entry b)[num_entries b := e], num_entries := num_entries b + 1\<rparr>) w"
  have n1: "num_entries (bkts ?w1 ?L) = num_entries (bkts w ?L) + 1" by (simp add: upd_bkt_def)
  have eq: "insert_into_wslot reg i e (w, h) =
    (if num_entries (bkts w ?L) + 1 = kWheelBucketCap
     then bindE (alloc_bkt reg (?w1, h)) (\<lambda>(new_bkt, w2, h1).
        Inr (upd_bkt (wslot_addr w2 i) (\<lambda>b. b\<lparr>bk_last := new_bkt\<rparr>)
              (upd_bkt ?L (\<lambda>b. b\<lparr>bk_next := Some new_bkt\<rparr>) w2), h1))
     else Inr (?w1, h))"
    using C(6,7) path_last [OF C(5,3)]
    by (simp only: insert_into_wslot_def Let_def n1 prod.case assertE_True)
  show ?thesis
  proof (cases "num_entries (bkts w ?L) + 1 = kWheelBucketCap")
    case True
    have al: "os_holds (mp_alloc_post 64 (u + objs_foot 64 (all_bkts cfg ch)) h)
        (mp_alloc reg 64 (bkt_pool ?w1, h))"
      using mp_alloc_ok [OF tw_invD(7) [OF inv] tw_invD(6) [OF inv], of reg] by simp
    have "os_holds (insert_post cfg u w a) (bindE (alloc_bkt reg (?w1, h)) (\<lambda>(new_bkt, w2, h1).
        Inr (upd_bkt (wslot_addr w2 i) (\<lambda>b. b\<lparr>bk_last := new_bkt\<rparr>)
              (upd_bkt ?L (\<lambda>b. b\<lparr>bk_next := Some new_bkt\<rparr>) w2), h1)))"
    proof (cases "mp_alloc reg 64 (bkt_pool ?w1, h)")
      case (Inl err)
      then show ?thesis using al by (simp add: alloc_bkt_def)
    next
      case (Inr r)
      obtain b mp h' where r: "r = (b, mp, h')" by (cases r)
      let ?w2 = "reset_bkt b (?w1\<lparr>bkt_pool := mp\<rparr>)"
      let ?w' = "upd_bkt (wslot_addr w i) (\<lambda>b'. b'\<lparr>bk_last := b\<rparr>) (upd_bkt ?L (\<lambda>b'. b'\<lparr>bk_next := Some b\<rparr>) ?w2)"
      have acc: "mp_acc 64 (u + objs_foot 64 (all_bkts cfg ch) + mset [b..<b + 64]) (mp, h')"
        using al Inr r by (simp add: mp_alloc_post_def del: mset_upt)
      have "wslot_addr ?w2 i = wslot_addr w i"
        by (simp add: wslot_addr_def upd_bkt_def reset_bkt_def)
      moreover have "same_wheel w ?w'" by (simp add: same_wheel_def upd_bkt_def reset_bkt_def)
      moreover have "os_ok h' \<Longrightarrow> tw_inv cfg u (ch(i := ch i @ [b])) (?w', h') \<and> abs_tw cfg (ch(i := ch i @ [b])) ?w' = a"
        unfolding a by (rule insert_full [OF inv i refl True refl acc _ refl k])
      ultimately show ?thesis using Inr r by (auto simp: alloc_bkt_def insert_post_def)
    qed
    then show ?thesis by (simp only: eq if_P [OF True])
  next
    case False
    then have "num_entries (bkts w ?L) + 1 < kWheelBucketCap" using C(6) by simp
    from insert_not_full [OF inv i refl this refl k]
    have "insert_post cfg u w a (?w1, h)"
      unfolding a insert_post_def by (auto simp: same_wheel_def upd_bkt_def)
    then show ?thesis by (simp only: eq if_not_P [OF False] os_holds_simps)
  qed
qed

lemma tw_insert_ok:
  assumes inv: "tw_inv cfg u ch (w, h)"
    and hor: "horizon_tsc w \<le> (kWheelNumWslots cfg - 1) * wslot_width_tsc w"
    and t: "ref \<le> t" "t - ref \<le> horizon_tsc w"
  shows "os_holds (insert_post cfg u w (aw_insert (wslot_width_tsc w) e ref t (abs_tw cfg ch w)))
    (tw_insert cfg reg e ref t (w, h))"
proof -
  let ?N = "kWheelNumWslots cfg" and ?d = "wslot_width_tsc w"
  obtain ch1 w1 where w1: "reap cfg ref w = Inr w1" "tw_inv cfg u ch1 (w1, h)" "same_wheel w w1"
    "abs_tw cfg ch1 w1 = aw_reap ?d ref (abs_tw cfg ch w)"
    using reap_ok [OF inv, of ref] by blast
  let ?a1 = "abs_tw cfg ch1 w1"
  let ?k = "aw_slot_for ?d t ?a1"
  have d: "0 < ?d" using tw_invD(1) [OF inv] .
  have ref: "ref < aw_tsc ?a1" using aw_reap_tsc [OF d] w1(4) by simp
  have c1: "cur_wslot w1 < ?N" using tw_invD(2) [OF w1(2)] .
  have k: "?k < ?N"
  proof (cases "t \<le> aw_tsc ?a1")
    case False
    then have "t - aw_tsc ?a1 < (?N - 1) * ?d" using t hor ref by linarith
    then have "(t - aw_tsc ?a1) div ?d < ?N - 1" using d by (simp add: div_less_iff_less_mult)
    then show ?thesis using False by (simp add: aw_slot_for_def)
  qed (simp add: aw_slot_for_def)
  define i where "i = (cur_wslot w1 + ?k) mod ?N"
  have "os_holds (insert_post cfg u w1 (aw_insert ?d e ref t (abs_tw cfg ch w))) (insert_into_wslot reg i e (w1, h))"
    by (rule insert_into_wslot_ok [OF w1(2) _ k]) (simp_all add: i_def aw_insert_def Let_def w1(4))
  then have "os_holds (insert_post cfg u w (aw_insert ?d e ref t (abs_tw cfg ch w))) (insert_into_wslot reg i e (w1, h))"
    by (rule os_holds_weaken) (use w1(3) in \<open>auto simp: insert_post_def same_wheel_def\<close>)
  moreover have "tw_insert cfg reg e ref t (w, h) = insert_into_wslot reg i e (w1, h)"
  proof (cases "t \<le> aw_tsc ?a1")
    case True
    then have "i = cur_wslot w1" using c1 by (simp add: i_def aw_slot_for_def)
    then show ?thesis using True t w1(1) ref by (simp add: tw_insert_def slot_tsc_def)
  next
    case False
    have i: "i = (if ?N \<le> cur_wslot w1 + ?k then cur_wslot w1 + ?k - ?N else cur_wslot w1 + ?k)"
      using c1 k by (simp add: i_def le_mod_geq)
    have "?k = 1 + (t - aw_tsc ?a1) div ?d" using False by (simp add: aw_slot_for_def)
    then show ?thesis
      unfolding i using False t w1(1,3) ref k by (simp add: tw_insert_def slot_tsc_def Let_def same_wheel_def)
  qed
  ultimately show ?thesis by simp
qed

subsection \<open>The initial wheel\<close>

definition slot_index :: "nat \<Rightarrow> nat \<Rightarrow> nat option" where
  "slot_index base a = (if base \<le> a \<and> (a - base) mod 64 = 0 then Some ((a - base) div 64) else None)"

lemma slot_index_addr [simp]: "slot_index (wheel w) (wslot_addr w i) = Some i"
  by (simp add: slot_index_def wslot_addr_def)

lemma slot_index_Some: "slot_index (wheel w) a = Some i \<Longrightarrow> a = wslot_addr w i"
proof -
  assume "slot_index (wheel w) a = Some i"
  then have "wheel w \<le> a" "(a - wheel w) mod 64 = 0" "i = (a - wheel w) div 64"
    by (auto simp: slot_index_def split: if_splits)
  then show ?thesis using mult_div_mod_eq [of 64 "a - wheel w"] by (simp add: wslot_addr_def)
qed

definition init_mem :: "nat \<Rightarrow> nat \<Rightarrow> 'p timing_wheel \<Rightarrow> nat \<Rightarrow> 'p wheel_bkt" where
  "init_mem base_tsc n w = (\<lambda>a. case slot_index (wheel w) a of
      None \<Rightarrow> bkts w a
    | Some i \<Rightarrow> if i < n then (bkts w a)\<lparr>bk_next := None, num_entries := 0,
         tx_tsc := base_tsc + (i + 1) * wslot_width_tsc w, bk_last := a\<rparr> else bkts w a)"

lemma init_mem_Suc:
  "init_mem base_tsc (Suc n) w = (init_mem base_tsc n w)(wslot_addr w n := (bkts w (wslot_addr w n))
    \<lparr>bk_next := None, num_entries := 0, tx_tsc := base_tsc + (n + 1) * wslot_width_tsc w,
     bk_last := wslot_addr w n\<rparr>)"
proof
  fix a
  show "init_mem base_tsc (Suc n) w a = ((init_mem base_tsc n w)(wslot_addr w n := (bkts w (wslot_addr w n))
    \<lparr>bk_next := None, num_entries := 0, tx_tsc := base_tsc + (n + 1) * wslot_width_tsc w,
     bk_last := wslot_addr w n\<rparr>)) a"
    using slot_index_Some [of w a] by (cases "slot_index (wheel w) a") (auto simp: init_mem_def less_Suc_eq)
qed

lemma init_fold: "fold (init_wslot base_tsc) [0..<n] w = w\<lparr>bkts := init_mem base_tsc n w\<rparr>"
proof (induction n)
  case 0
  have "init_mem base_tsc 0 w = bkts w" by (auto simp: init_mem_def fun_eq_iff split: option.splits)
  then show ?case by simp
next
  case (Suc n)
  have "init_mem base_tsc n w (wslot_addr w n) = bkts w (wslot_addr w n)" by (simp add: init_mem_def)
  then have "init_wslot base_tsc n (w\<lparr>bkts := init_mem base_tsc n w\<rparr>) = w\<lparr>bkts := init_mem base_tsc (Suc n) w\<rparr>"
    by (simp add: init_mem_Suc init_wslot_def upd_bkt_def reset_bkt_def wslot_addr_def)
  then show ?case using Suc by simp
qed

lemma kWheelNumWslots_le: "kWheelNumWslots cfg \<le> 2 + 5 * kMTU cfg"
proof -
  let ?x = "kWheelHorizonUs cfg / kWheelSlotWidthUs"
  have x: "?x = 64 * real (kMTU cfg) / 15" by (simp add: kWheelHorizonUs_def kWheelSlotWidthUs_def)
  have "real (size_t_of ?x) \<le> 64 * real (kMTU cfg) / 15" unfolding x by (rule size_t_of_bounds) simp
  also have "\<dots> \<le> real (5 * kMTU cfg)" by simp
  finally have "size_t_of ?x \<le> 5 * kMTU cfg" by (simp only: of_nat_le_iff)
  then show ?thesis by (simp add: kWheelNumWslots_def ceil_size_t_def)
qed

lemma timing_wheel_init_ok:
  assumes mem: "\<And>a. length (entry (mem a)) = kWheelBucketCap" and mtu: "kMTU cfg \<le> 2 ^ 32"
    and freq: "0 < us_to_cycles kWheelSlotWidthUs freq" and u: "u \<subseteq># shm_foot h"
    and init: "timing_wheel_init cfg freq reg mem base h = Inr (w, h')" and os: "os_ok h'"
  shows "tw_inv cfg u (\<lambda>i. [wslot_addr w i]) (w, h')"
    "abs_tw cfg (\<lambda>i. [wslot_addr w i]) w =
      \<lparr>aw_tsc = base + wslot_width_tsc w, aw_slots = replicate (kWheelNumWslots cfg) [], aw_ready = []\<rparr>"
    "wslot_width_tsc w = us_to_cycles kWheelSlotWidthUs freq" "horizon_tsc w = us_to_cycles (kWheelHorizonUs cfg) freq"
proof -
  let ?N = "kWheelNumWslots cfg"
  have n: "?N * 64 \<le> 2 ^ 63" using kWheelNumWslots_le [of cfg] mtu by simp
  obtain b where b: "alloc_raw reg (?N * 64) RegFalse h = Inr (b, h')" and some: "b_buf b \<noteq> None"
    using init by (auto simp: timing_wheel_init_def bindE_eq_Inr split: option.splits)
  then obtain a where a: "b_buf b = Some a" by blast
  let ?w0 = "\<lparr>wslot_width_tsc = us_to_cycles kWheelSlotWidthUs freq,
           horizon_tsc = us_to_cycles (kWheelHorizonUs cfg) freq, wheel = a,
           cur_wslot = 0, bkts = mem, bkt_pool = MemPool_init sizeof_wheel_bkt, ready_queue = []\<rparr>"
  have w: "w = fold (init_wslot base) [0..<?N] ?w0"
    using init b a by (simp add: timing_wheel_init_def)
  obtain r where r: "shm_list h' = shm_list h @ [r]" "sr_buf r = a" "?N * 64 \<le> sr_size r"
    using alloc_raw_ok [OF n, of h reg RegFalse] b a by auto
  have addr: "wslot_addr w i = wslot_addr ?w0 i" for i
    by (simp add: w init_fold wslot_addr_def)
  have B: "bkts w (wslot_addr w i) = (mem (wslot_addr w i))\<lparr>bk_next := None, num_entries := 0,
      tx_tsc := base + (i + 1) * wslot_width_tsc w, bk_last := wslot_addr w i\<rparr>" if "i < ?N" for i
    unfolding addr using that slot_index_addr [of ?w0 i] by (simp add: w init_fold init_mem_def)
  have sel: "wheel w = a" "cur_wslot w = 0" "ready_queue w = []" "bkt_pool w = MemPool_init 64"
    by (simp_all add: w init_fold)
  show wd: "wslot_width_tsc w = us_to_cycles kWheelSlotWidthUs freq"
    "horizon_tsc w = us_to_cycles (kWheelHorizonUs cfg) freq" by (simp_all add: w init_fold)
  have "all_bkts cfg (\<lambda>i. [wslot_addr w i]) = map (\<lambda>i. a + 64 * i) [0..<?N]"
    unfolding all_bkts_def by (induction ?N) (simp_all add: wslot_addr_def sel)
  then have foot: "objs_foot 64 (all_bkts cfg (\<lambda>i. [wslot_addr w i])) = mset [a..<a + 64 * ?N]"
    by (simp only: objs_foot_array)
  have "u + mset [a..<a + 64 * ?N] \<subseteq># shm_foot h + mset [a..<a + sr_size r]"
    using u r(3) by (intro subset_mset.add_mono upt_prefix_mset) (simp_all add: mult.commute)
  then have "mp_acc 64 (u + objs_foot 64 (all_bkts cfg (\<lambda>i. [wslot_addr w i]))) (bkt_pool w, h')"
    by (simp add: mp_acc_def foot sel MemPool_init_def shm_foot_snoc [OF r(1)] r(2) del: mset_upt)
  moreover have "slots_ok cfg (\<lambda>i. [wslot_addr w i]) w"
    by (simp add: slots_ok_def chain_ok_def B)
  moreover have "times_ok cfg w" by (simp add: times_ok_def sel slot_tsc_def B algebra_simps)
  moreover have "length (entry (bkts w x)) = kWheelBucketCap" for x
    using mem by (simp add: w init_fold init_mem_def split: option.splits)
  ultimately show "tw_inv cfg u (\<lambda>i. [wslot_addr w i]) (w, h')"
    using os freq sel wd by (simp add: tw_inv_def)
  have "chain_ents (bkts w) [wslot_addr w i] = []" if "i < ?N" for i
    by (simp add: chain_ents_def bkt_ents_def B that)
  then have "map (\<lambda>k. chain_ents (bkts w) [wslot_addr w ((cur_wslot w + k) mod ?N)]) [0..<?N] = replicate ?N []"
    by (intro replicate_eqI) auto
  then show "abs_tw cfg (\<lambda>i. [wslot_addr w i]) w =
      \<lparr>aw_tsc = base + wslot_width_tsc w, aw_slots = replicate ?N [], aw_ready = []\<rparr>"
    by (simp add: abs_tw_def sel slot_tsc_def B)
qed

subsection \<open>Pacing\<close>

lemma aw_slot_time:
  assumes "0 < width"
  shows "t \<le> aw_tsc a + aw_slot_for width t a * width"
    "aw_tsc a \<le> t + width \<Longrightarrow> aw_tsc a + aw_slot_for width t a * width \<le> t + width"
proof -
  have *: "(t - aw_tsc a) div width * width \<le> t - aw_tsc a"
    "t - aw_tsc a < width + (t - aw_tsc a) div width * width"
    using assms dividend_less_div_times [of width "t - aw_tsc a"] by simp_all
  have k: "aw_slot_for width t a * width =
      (if t \<le> aw_tsc a then 0 else width + (t - aw_tsc a) div width * width)"
    by (simp add: aw_slot_for_def)
  show "t \<le> aw_tsc a + aw_slot_for width t a * width" using * unfolding k by auto
  show "aw_tsc a + aw_slot_for width t a * width \<le> t + width" if "aw_tsc a \<le> t + width"
  proof (cases "t \<le> aw_tsc a")
    case False
    then show ?thesis unfolding k if_not_P [OF False] using *(1) by linarith
  qed (use that in \<open>simp add: aw_slot_for_def\<close>)
qed

lemma less_due:
  assumes "0 < width"
  shows "k < due width t a \<longleftrightarrow> aw_tsc a + k * width \<le> t"
proof (cases "aw_tsc a \<le> t")
  case True
  then have "k < due width t a \<longleftrightarrow> k \<le> (t - aw_tsc a) div width" by (auto simp: due_def)
  also have "\<dots> \<longleftrightarrow> k * width \<le> t - aw_tsc a" using assms by (simp add: less_eq_div_iff_mult_less_eq)
  finally show ?thesis using True by auto
next
  case False
  then show ?thesis by (simp add: due_def)
qed

text \<open>The entries an abstract wheel holds anywhere.\<close>

definition aw_ents :: "'e awheel \<Rightarrow> 'e list" where
  "aw_ents a = aw_ready a @ concat (aw_slots a)"

lemma aw_ents_reap [simp]: "set (aw_ents (aw_reap width t a)) = set (aw_ents a)"
proof -
  let ?n = "due width t a"
  have "aw_ents (aw_reap width t a) = aw_ready a @ concat (take ?n (aw_slots a)) @ concat (drop ?n (aw_slots a))"
    by (simp add: aw_ents_def aw_reap_def Let_def)
  also have "\<dots> = aw_ready a @ concat (aw_slots a)"
    by (simp only: concat_append [symmetric] append_take_drop_id)
  finally show ?thesis by (simp add: aw_ents_def)
qed

lemma aw_reap_late:
  "aw_tsc a \<le> ref + width \<Longrightarrow> 0 < width \<Longrightarrow> aw_tsc (aw_reap width ref a) \<le> ref + width"
proof (cases "aw_tsc a \<le> ref")
  case True
  have "(ref - aw_tsc a) div width * width \<le> ref - aw_tsc a" by simp
  then have "aw_tsc a + ((ref - aw_tsc a) div width * width + width) \<le> ref + width" using True by linarith
  moreover have "due width ref a * width = (ref - aw_tsc a) div width * width + width"
    using True by (simp add: due_def)
  ultimately show ?thesis unfolding aw_reap_def Let_def awheel.simps by simp
qed (simp add: aw_reap_idle)

text \<open>Abstract pacing: what a later reap does with an inserted entry.\<close>

lemma aw_insert_paces:
  assumes d: "0 < width" and k: "aw_slot_for width t (aw_reap width ref a) < length (aw_slots a)"
  shows "aw_tsc a \<le> ref + width \<Longrightarrow> ref \<le> t \<Longrightarrow> t + width \<le> s \<Longrightarrow>
      e \<in> set (aw_ready (aw_reap width s (aw_insert width e ref t a)))"
    and "e \<notin> set (aw_ents a) \<Longrightarrow> s < t \<Longrightarrow> e \<notin> set (aw_ready (aw_reap width s (aw_insert width e ref t a)))"
proof -
  let ?a1 = "aw_reap width ref a" and ?a2 = "aw_insert width e ref t a"
  let ?k = "aw_slot_for width t ?a1" and ?n = "due width s ?a2"
  have a2: "aw_tsc ?a2 = aw_tsc ?a1" "aw_ready ?a2 = aw_ready ?a1"
    "aw_slots ?a2 = (aw_slots ?a1)[?k := aw_slots ?a1 ! ?k @ [e]]"
    by (simp_all add: aw_insert_def Let_def)
  have kl: "?k < length (aw_slots ?a1)" using k by simp
  have n: "?k < ?n \<longleftrightarrow> aw_tsc ?a1 + ?k * width \<le> s" using less_due [OF d, of ?k s ?a2] a2 by simp
  have ready: "set (aw_ready (aw_reap width s ?a2)) = set (aw_ready ?a1) \<union> (\<Union>xs \<in> set (take ?n (aw_slots ?a2)). set xs)"
    by (simp add: aw_reap_def [of width s] Let_def a2)
  show "e \<in> set (aw_ready (aw_reap width s ?a2))" if "aw_tsc a \<le> ref + width" "ref \<le> t" "t + width \<le> s"
  proof -
    have "aw_tsc ?a1 \<le> t + width" using aw_reap_late [OF that(1) d] that(2) by simp
    then have "?k < ?n" using aw_slot_time(2) [OF d] that(3) n by (meson order_trans)
    then have "aw_slots ?a2 ! ?k \<in> set (take ?n (aw_slots ?a2))"
      using kl by (auto simp: in_set_conv_nth a2 intro!: exI [of _ ?k])
    moreover have "e \<in> set (aw_slots ?a2 ! ?k)" using kl by (simp add: a2)
    ultimately show ?thesis unfolding ready by blast
  qed
  show "e \<notin> set (aw_ready (aw_reap width s ?a2))" if e: "e \<notin> set (aw_ents a)" "s < t"
  proof -
    have "\<not> ?k < ?n" using aw_slot_time(1) [OF d, of t ?a1] that(2) n by linarith
    then have "take ?n (aw_slots ?a2) = take ?n (aw_slots ?a1)" by (simp add: a2)
    moreover have "e \<notin> set (aw_ents ?a1)" using e(1) by simp
    ultimately show ?thesis unfolding ready by (auto simp: aw_ents_def dest: in_set_takeD)
  qed
qed

lemma tw_insert_slot:
  assumes inv: "tw_inv cfg u ch (w, h)"
    and hor: "horizon_tsc w \<le> (kWheelNumWslots cfg - 1) * wslot_width_tsc w"
    and t: "ref \<le> t" "t - ref \<le> horizon_tsc w"
  shows "aw_slot_for (wslot_width_tsc w) t (aw_reap (wslot_width_tsc w) ref (abs_tw cfg ch w)) < kWheelNumWslots cfg"
proof -
  let ?d = "wslot_width_tsc w" and ?a1 = "aw_reap (wslot_width_tsc w) ref (abs_tw cfg ch w)"
  have d: "0 < ?d" using tw_invD(1) [OF inv] .
  show ?thesis
  proof (cases "t \<le> aw_tsc ?a1")
    case False
    then have "t - aw_tsc ?a1 < (kWheelNumWslots cfg - 1) * ?d"
      using t hor aw_reap_tsc [OF d, of ref "abs_tw cfg ch w"] by linarith
    then have "(t - aw_tsc ?a1) div ?d < kWheelNumWslots cfg - 1" using d by (simp add: div_less_iff_less_mult)
    then show ?thesis using False by (simp add: aw_slot_for_def)
  qed (simp add: aw_slot_for_def)
qed

text \<open>
  C26. The bucket chains implement the abstract wheel: reaping terminates, fails no assertion, and
  moves exactly the entries of the slots whose time has come to the ready queue, slot by slot in
  order of time and within a slot in order of insertion.
\<close>

theorem reap_refines:
  assumes "tw_inv cfg u ch (w, h)"
  shows "\<exists>ch' w'. reap cfg t w = Inr w' \<and> tw_inv cfg u ch' (w', h) \<and>
    abs_tw cfg ch' w' = aw_reap (wslot_width_tsc w) t (abs_tw cfg ch w)"
  using reap_ok [OF assms, of t] by blast

text \<open>
  C25. Inserting implements the abstract wheel: for a transmission time within the horizon no
  assertion fails, the only failure is the hugepage allocator's, and the entry is appended to the
  slot the specification names while every other entry keeps its place.
\<close>

theorem tw_insert_refines:
  assumes "tw_inv cfg u ch (w, h)" "horizon_tsc w \<le> (kWheelNumWslots cfg - 1) * wslot_width_tsc w"
    "ref \<le> t" "t - ref \<le> horizon_tsc w"
  shows "case tw_insert cfg reg e ref t (w, h) of
      Inl err \<Rightarrow> err = RuntimeError \<or> err = NoReturn
    | Inr (w', h') \<Rightarrow> os_ok h' \<longrightarrow> (\<exists>ch'. tw_inv cfg u ch' (w', h') \<and>
        abs_tw cfg ch' w' = aw_insert (wslot_width_tsc w) e ref t (abs_tw cfg ch w))"
  using tw_insert_ok [OF assms, of e reg]
  by (cases "tw_insert cfg reg e ref t (w, h)") (auto simp: insert_post_def os_error_def)

text \<open>
  C20. The rate limiter paces: a packet inserted for time \<open>t\<close> is not in the ready queue after any
  reap before \<open>t\<close>, and is in it after a reap at \<open>t\<close> plus one slot width or later.
\<close>

theorem wheel_paces:
  assumes inv: "tw_inv cfg u ch (w, h)" and hor: "horizon_tsc w \<le> (kWheelNumWslots cfg - 1) * wslot_width_tsc w"
    and t: "ref \<le> t" "t - ref \<le> horizon_tsc w" and late: "slot_tsc w (cur_wslot w) \<le> ref + wslot_width_tsc w"
    and new: "e \<notin> set (aw_ents (abs_tw cfg ch w))"
    and ins: "tw_insert cfg reg e ref t (w, h) = Inr (w', h')" and os: "os_ok h'"
  shows "\<exists>w''. reap cfg s w' = Inr w'' \<and> (s < t \<longrightarrow> e \<notin> set (ready_queue w'')) \<and>
    (t + wslot_width_tsc w \<le> s \<longrightarrow> e \<in> set (ready_queue w''))"
proof -
  let ?d = "wslot_width_tsc w" and ?a = "abs_tw cfg ch w"
  have d: "0 < ?d" using tw_invD(1) [OF inv] .
  obtain ch' where ch': "tw_inv cfg u ch' (w', h')" "abs_tw cfg ch' w' = aw_insert ?d e ref t ?a" "same_wheel w w'"
    using tw_insert_ok [OF inv hor t, of e reg] ins os by (auto simp: insert_post_def)
  then obtain ch'' w'' where w'': "reap cfg s w' = Inr w''"
    "abs_tw cfg ch'' w'' = aw_reap ?d s (aw_insert ?d e ref t ?a)"
    using reap_ok [OF ch'(1), of s] by (auto simp: same_wheel_def)
  then have "ready_queue w'' = aw_ready (aw_reap ?d s (aw_insert ?d e ref t ?a))" by (metis abs_tw_sel(2))
  moreover have "aw_slot_for ?d t (aw_reap ?d ref ?a) < length (aw_slots ?a)"
    using tw_insert_slot [OF inv hor t] by simp
  note P = aw_insert_paces [OF d this]
  ultimately show ?thesis using P(1) [of s e] P(2) [of e s] late new t(1) w''(1) by auto
qed


subsection \<open>Witnesses\<close>

definition ex_mem :: "nat \<Rightarrow> unit wheel_bkt" where
  "ex_mem = (\<lambda>_. \<lparr>num_entries = 0, tx_tsc = 0, bk_last = 0, bk_next = None,
    entry = replicate kWheelBucketCap \<lparr>we_sslot = (), we_pkt_num = 0\<rparr>\<rparr>)"

definition ex_alloc :: huge_alloc where
  "ex_alloc = huge_alloc_init 0 [ShmOk 1 4096 True]"

lemma ex_alloc_raw:
  assumes "n \<le> 2 ^ 40"
  shows "\<exists>b h'. alloc_raw (\<lambda>_ _. 0) n RegFalse ex_alloc = Inr (b, h') \<and> b_buf b = Some 4096 \<and> os_ok h'"
proof -
  let ?sz = "unat (round_up (of_nat kHugepageSize) (of_nat n :: u64))"
  have u: "unat (of_nat n :: u64) = n" "unat (of_nat kHugepageSize :: u64) = 2 ^ 21"
    using assms by (simp_all add: unat_of_nat take_bit_eq_mod)
  have "?sz = ((n + 2 ^ 21 - 1) div 2 ^ 21) * 2 ^ 21"
    using unat_round_up [OF u(2), of "of_nat n"] assms unfolding u by simp
  then have sz: "?sz < n + 2 ^ 21" using round_up_nat_bounds(2) [of "2 ^ 21" n] by simp
  have al: "?sz mod kHugepageSize = 0" using huge_round_up(2) [of n] assms by simp
  obtain b h' where raw: "alloc_raw (\<lambda>_ _. 0) n RegFalse ex_alloc = Inr (b, h')" and b: "b_buf b = Some 4096"
    and shm: "shm_list h' = [\<lparr>sr_key = 1, sr_buf = 4096, sr_size = ?sz, sr_registered = False, sr_lkey = 0xffffffff\<rparr>]"
    using al by (simp add: alloc_raw_def ex_alloc_def huge_alloc_init_def Let_def)
  have foot: "shm_foot h' = mset [4096..<4096 + ?sz]" using shm by (simp add: shm_foot_def del: mset_upt)
  have "os_ok h'" unfolding os_ok_def foot using sz assms by (auto simp: count_mset_set')
  with raw b show ?thesis by blast
qed

lemma fake_wheel_size: "kWheelNumWslots fake_cfg = 4371"
proof -
  have x: "kWheelHorizonUs fake_cfg / kWheelSlotWidthUs = 65536 / 15"
    by (simp add: kWheelHorizonUs_def kWheelSlotWidthUs_def fake_cfg_def)
  have "size_t_of (65536 / 15) = 4369" by (rule size_t_of_eqI) simp_all
  then show ?thesis unfolding kWheelNumWslots_def x by (simp add: ceil_size_t_def)
qed

lemma ex_wheel:
  assumes freq: "0 < us_to_cycles kWheelSlotWidthUs freq"
  obtains w :: "unit timing_wheel" and h where
    "timing_wheel_init fake_cfg freq (\<lambda>_ _. 0) ex_mem 5000 ex_alloc = Inr (w, h)"
    "tw_inv fake_cfg {#} (\<lambda>i. [wslot_addr w i]) (w, h)" "slot_tsc w (cur_wslot w) = 5000 + wslot_width_tsc w"
    "wslot_width_tsc w = us_to_cycles kWheelSlotWidthUs freq" "os_ok h"
    "horizon_tsc w = us_to_cycles (kWheelHorizonUs fake_cfg) freq" "aw_ents (abs_tw fake_cfg (\<lambda>i. [wslot_addr w i]) w) = []"
proof -
  obtain b h where r: "alloc_raw (\<lambda>_ _. 0) (kWheelNumWslots fake_cfg * 64) RegFalse ex_alloc = Inr (b, h)"
    "b_buf b = Some 4096" "os_ok h"
    using ex_alloc_raw [of "kWheelNumWslots fake_cfg * 64"] by (auto simp: fake_wheel_size)
  then obtain w :: "unit timing_wheel" where
    init: "timing_wheel_init fake_cfg freq (\<lambda>_ _. 0) ex_mem 5000 ex_alloc = Inr (w, h)"
    by (simp add: timing_wheel_init_def)
  have "length (entry (ex_mem a)) = kWheelBucketCap" for a by (simp add: ex_mem_def)
  moreover have "kMTU fake_cfg \<le> 2 ^ 32" by (simp add: fake_cfg_def)
  ultimately have ok: "tw_inv fake_cfg {#} (\<lambda>i. [wslot_addr w i]) (w, h)"
    "abs_tw fake_cfg (\<lambda>i. [wslot_addr w i]) w = \<lparr>aw_tsc = 5000 + wslot_width_tsc w,
       aw_slots = replicate (kWheelNumWslots fake_cfg) [], aw_ready = []\<rparr>"
    "wslot_width_tsc w = us_to_cycles kWheelSlotWidthUs freq" "horizon_tsc w = us_to_cycles (kWheelHorizonUs fake_cfg) freq"
    using timing_wheel_init_ok [of ex_mem fake_cfg freq "{#}" ex_alloc, OF _ _ freq _ init r(3)] by auto
  have "slot_tsc w (cur_wslot w) = 5000 + wslot_width_tsc w"
    using ok(2) abs_tw_sel(1) [of fake_cfg "\<lambda>i. [wslot_addr w i]" w] by simp
  moreover have "concat (replicate n []) = []" for n by (induction n) simp_all
  ultimately show ?thesis using that [OF init ok(1) _ ok(3) r(3) ok(4)] ok(2) by (simp add: aw_ents_def)
qed

lemma us_to_cycles_eq: "real n \<le> us * 1000 * f \<Longrightarrow> us * 1000 * f < real n + 1 \<Longrightarrow> us_to_cycles us f = n"
  unfolding us_to_cycles_def by (rule size_t_of_eqI)

lemma ex_freq:
  "us_to_cycles kWheelSlotWidthUs 2 = 1000" "us_to_cycles (kWheelHorizonUs fake_cfg) 2 = 4369066"
  "us_to_cycles kWheelSlotWidthUs (23999 / 10000) = 1199"
  "us_to_cycles (kWheelHorizonUs fake_cfg) (23999 / 10000) = 5242661"
  by (rule us_to_cycles_eq; simp add: kWheelSlotWidthUs_def kWheelHorizonUs_def fake_cfg_def)+

theorem reap_refines_witness:
  "\<exists>(w :: unit timing_wheel) ch' w'. reap fake_cfg 5500 w = Inr w' \<and> wslot_width_tsc w = 1000 \<and>
    slot_tsc w (cur_wslot w) = 6000 \<and> ready_queue w' = []"
proof -
  have f: "0 < us_to_cycles kWheelSlotWidthUs 2" by (simp add: ex_freq)
  obtain w :: "unit timing_wheel" and h where w: "tw_inv fake_cfg {#} (\<lambda>i. [wslot_addr w i]) (w, h)"
    "slot_tsc w (cur_wslot w) = 5000 + wslot_width_tsc w" "wslot_width_tsc w = us_to_cycles kWheelSlotWidthUs 2"
    "aw_ents (abs_tw fake_cfg (\<lambda>i. [wslot_addr w i]) w) = []"
    by (rule ex_wheel [OF f])
  obtain ch' w' where w': "reap fake_cfg 5500 w = Inr w'"
    "abs_tw fake_cfg ch' w' = aw_reap (wslot_width_tsc w) 5500 (abs_tw fake_cfg (\<lambda>i. [wslot_addr w i]) w)"
    using reap_refines [OF w(1), of 5500] by blast
  then have "abs_tw fake_cfg ch' w' = abs_tw fake_cfg (\<lambda>i. [wslot_addr w i]) w"
    using aw_reap_idle [of 5500 "abs_tw fake_cfg (\<lambda>i. [wslot_addr w i]) w"] w by (simp add: ex_freq)
  then have "ready_queue w' = []" using w(4) by (metis abs_tw_sel(2) aw_ents_def append_is_Nil_conv)
  then show ?thesis using w w' by (auto simp: ex_freq)
qed

theorem tw_insert_refines_witness:
  "\<exists>(w :: unit timing_wheel) h. wslot_width_tsc w = 1000 \<and>
    (case tw_insert fake_cfg (\<lambda>_ _. 0) \<lparr>we_sslot = (), we_pkt_num = 3\<rparr> 5500 9000 (w, h) of
      Inl err \<Rightarrow> err = RuntimeError \<or> err = NoReturn
    | Inr (w', h') \<Rightarrow> os_ok h' \<longrightarrow> (\<exists>ch'. tw_inv fake_cfg {#} ch' (w', h')))"
proof -
  have f: "0 < us_to_cycles kWheelSlotWidthUs 2" by (simp add: ex_freq)
  obtain w :: "unit timing_wheel" and h where w: "tw_inv fake_cfg {#} (\<lambda>i. [wslot_addr w i]) (w, h)"
    "wslot_width_tsc w = us_to_cycles kWheelSlotWidthUs 2" "horizon_tsc w = us_to_cycles (kWheelHorizonUs fake_cfg) 2"
    by (rule ex_wheel [OF f])
  have "horizon_tsc w \<le> (kWheelNumWslots fake_cfg - 1) * wslot_width_tsc w"
    using w by (simp add: ex_freq fake_wheel_size)
  from tw_insert_refines [OF w(1) this, of 5500 9000 "\<lparr>we_sslot = (), we_pkt_num = 3\<rparr>" "\<lambda>_ _. 0"] w
  show ?thesis by (intro exI [of _ w] exI [of _ h]) (auto simp: ex_freq split: sum.splits)
qed

lemma ex_insert:
  assumes inv: "tw_inv cfg u (\<lambda>i. [wslot_addr w i]) (w, h)" and i: "i < kWheelNumWslots cfg"
    and empty: "aw_ents (abs_tw cfg (\<lambda>i. [wslot_addr w i]) w) = []" and cur: "cur_wslot w = 0"
  shows "\<exists>w'. insert_into_wslot reg i e (w, h) = Inr (w', h)"
proof -
  have "chain_ents (bkts w) [wslot_addr w i] \<in> set (aw_slots (abs_tw cfg (\<lambda>i. [wslot_addr w i]) w))"
    using i cur by (auto simp: abs_tw_def intro!: image_eqI [of _ _ i])
  then have "bkt_ents (bkts w (wslot_addr w i)) = []"
    using empty by (simp add: aw_ents_def chain_ents_def)
  then have "num_entries (bkts w (wslot_addr w i)) = 0"
    using tw_invD(5) [OF inv, of "wslot_addr w i"] by (auto simp: bkt_ents_def)
  then show ?thesis
    using tw_inv_chain(5,7) [OF inv i] by (simp add: insert_into_wslot_def Let_def upd_bkt_def)
qed

theorem wheel_paces_witness:
  "\<exists>(w :: unit timing_wheel) h w' w''. wslot_width_tsc w = 1000 \<and>
    tw_insert fake_cfg (\<lambda>_ _. 0) \<lparr>we_sslot = (), we_pkt_num = 3\<rparr> 5500 9000 (w, h) = Inr (w', h) \<and>
    reap fake_cfg 10000 w' = Inr w'' \<and> \<lparr>we_sslot = (), we_pkt_num = 3\<rparr> \<in> set (ready_queue w'')"
proof -
  let ?e = "\<lparr>we_sslot = (), we_pkt_num = 3\<rparr>"
  have f: "0 < us_to_cycles kWheelSlotWidthUs 2" by (simp add: ex_freq)
  obtain w :: "unit timing_wheel" and h where init: "timing_wheel_init fake_cfg 2 (\<lambda>_ _. 0) ex_mem 5000 ex_alloc = Inr (w, h)"
    and w: "tw_inv fake_cfg {#} (\<lambda>i. [wslot_addr w i]) (w, h)"
    "slot_tsc w (cur_wslot w) = 5000 + wslot_width_tsc w" "wslot_width_tsc w = us_to_cycles kWheelSlotWidthUs 2"
    "os_ok h" "horizon_tsc w = us_to_cycles (kWheelHorizonUs fake_cfg) 2"
    "aw_ents (abs_tw fake_cfg (\<lambda>i. [wslot_addr w i]) w) = []"
    by (rule ex_wheel [OF f])
  have cur: "cur_wslot w = 0"
    using init by (auto simp: timing_wheel_init_def bindE_eq_Inr init_fold split: option.splits)
  have "reap fake_cfg 5500 w = Inr w"
    unfolding reap_def using w by (subst reap_loop.simps) (simp add: slot_tsc_def ex_freq)
  then have "tw_insert fake_cfg (\<lambda>_ _. 0) ?e 5500 9000 (w, h) = insert_into_wslot (\<lambda>_ _. 0) 4 ?e (w, h)"
    using w cur by (simp add: tw_insert_def slot_tsc_def ex_freq fake_wheel_size)
  moreover obtain w' where "insert_into_wslot (\<lambda>_ _. 0) 4 ?e (w, h) = Inr (w', h)"
    using ex_insert [OF w(1) _ w(6) cur, of 4 "\<lambda>_ _. 0" ?e] by (auto simp: fake_wheel_size)
  ultimately have ins: "tw_insert fake_cfg (\<lambda>_ _. 0) ?e 5500 9000 (w, h) = Inr (w', h)" by simp
  have "horizon_tsc w \<le> (kWheelNumWslots fake_cfg - 1) * wslot_width_tsc w"
    using w by (simp add: ex_freq fake_wheel_size)
  from wheel_paces [OF w(1) this _ _ _ _ ins w(4), of 10000] ins w
  show ?thesis by (fastforce simp: ex_freq)
qed


end
