(* ===== verification/Timely_CC.thy ===== *)
theory Timely_CC
  imports Timers
begin

section \<open>Congestion control (\<open>cc/timely.h\<close>, \<open>cc/timely_sweep_params.h\<close>)\<close>

text \<open>
  The Timely rate computation of one session, with \<open>double\<close> as real. The compile-time switches are
  constants with the values of the source; the members and branches that only exist for
  \<open>kRecord\<close> and \<open>kLatencyStats\<close> (both false) are left out.
\<close>

abbreviation (input) kPatched :: bool where "kPatched \<equiv> False"
abbreviation (input) kCcOptTimelyBypass :: bool where "kCcOptTimelyBypass \<equiv> True"
abbreviation (input) kEwmaAlpha :: real where "kEwmaAlpha \<equiv> 46 / 100"
abbreviation (input) kBeta :: real where "kBeta \<equiv> 26 / 100"
abbreviation (input) kTimelyMinRate :: real where "kTimelyMinRate \<equiv> 15000000"
abbreviation (input) kAddRate :: real where "kAddRate \<equiv> 5000000"
abbreviation (input) kMinRTT :: real where "kMinRTT \<equiv> 2"
abbreviation (input) kTLow :: real where "kTLow \<equiv> 50"
abbreviation (input) kTHigh :: real where "kTHigh \<equiv> 1000"
abbreviation (input) kHaiThresh :: nat where "kHaiThresh \<equiv> 5"

record timely =
  rate :: real
  neg_gradient_count :: nat
  prev_rtt :: real
  avg_rtt_diff :: real
  last_update_tsc :: nat
  min_rtt_tsc :: real
  t_low_tsc :: real
  tm_freq_ghz :: real
  link_bandwidth :: real

definition timely_init :: "real \<Rightarrow> real \<Rightarrow> nat \<Rightarrow> timely" where
  "timely_init freq_ghz bandwidth now =
    \<lparr>rate = bandwidth, neg_gradient_count = 0, prev_rtt = kMinRTT, avg_rtt_diff = 0,
     last_update_tsc = now, min_rtt_tsc = kMinRTT * freq_ghz * 1000,
     t_low_tsc = kTLow * freq_ghz * 1000, tm_freq_ghz = freq_ghz, link_bandwidth = bandwidth\<rparr>"

definition timely_default :: timely where
  "timely_default =
    \<lparr>rate = 0, neg_gradient_count = 0, prev_rtt = kMinRTT, avg_rtt_diff = 0, last_update_tsc = 0,
     min_rtt_tsc = 0, t_low_tsc = 0, tm_freq_ghz = 0, link_bandwidth = 0\<rparr>"

definition w_func :: "real \<Rightarrow> real res" where
  "w_func g = assertE kPatched
    (Inr (if g \<le> - (1 / 4) then 0 else if 1 / 4 \<le> g then 1 else 2 * g + 1 / 2))"

definition new_rate :: "timely \<Rightarrow> real \<Rightarrow> real \<Rightarrow> real \<Rightarrow> nat \<Rightarrow> real res" where
  "new_rate tm sample_rtt delta_factor avg neg =
    (let ai_factor = kAddRate * delta_factor
     in if sample_rtt < kTLow then Inr (rate tm + ai_factor)
        else
          (let md_factor = delta_factor * kBeta; norm_grad = avg / kMinRTT
           in if sample_rtt \<le> kTHigh then
                (if kPatched then
                   bindE (w_func norm_grad) (\<lambda>wght.
                     let err = (sample_rtt - kTLow) / kTLow
                     in Inr (rate tm * (1 - md_factor * wght * err) + ai_factor * (1 - wght)))
                 else if norm_grad \<le> 0 then
                   Inr (rate tm + (if kHaiThresh \<le> neg then 5 else 1) * ai_factor)
                 else Inr (rate tm * (1 - md_factor * norm_grad)))
              else Inr (rate tm * (1 - md_factor * (1 - kTHigh / sample_rtt)))))"

definition update_rate :: "nat \<Rightarrow> nat \<Rightarrow> timely \<Rightarrow> timely res" where
  "update_rate now sample_rtt_tsc tm =
    assertE (1000000000 \<le> now \<and> last_update_tsc tm \<le> now)
    (if kCcOptTimelyBypass \<and> rate tm = link_bandwidth tm \<and> real sample_rtt_tsc \<le> t_low_tsc tm then Inr tm
     else if real sample_rtt_tsc < min_rtt_tsc tm then Inr tm
     else
       (let sample_rtt = to_usec sample_rtt_tsc (tm_freq_ghz tm);
            rtt_diff = sample_rtt - prev_rtt tm;
            neg = (if rtt_diff < 0 then neg_gradient_count tm + 1 else 0);
            avg = (1 - kEwmaAlpha) * avg_rtt_diff tm + kEwmaAlpha * rtt_diff;
            delta_factor = min (real (sub64 now (last_update_tsc tm)) / min_rtt_tsc tm) 1
        in bindE (new_rate tm sample_rtt delta_factor avg neg) (\<lambda>nr.
             let r1 = max nr (rate tm * (1 / 2));
                 r2 = min r1 (link_bandwidth tm);
                 r3 = max r2 kTimelyMinRate
             in Inr (tm\<lparr>rate := r3, neg_gradient_count := neg, avg_rtt_diff := avg,
                       prev_rtt := sample_rtt, last_update_tsc := now\<rparr>))))"

definition rate_to_gbps :: "real \<Rightarrow> real" where
  "rate_to_gbps r = (r / (1000 * 1000 * 1000)) * 8"

definition gbps_to_rate :: "real \<Rightarrow> real" where
  "gbps_to_rate r = (r / 8) * (1000 * 1000 * 1000)"

definition get_rate_gbps :: "timely \<Rightarrow> real" where
  "get_rate_gbps tm = rate_to_gbps (rate tm)"

subsection \<open>Invariant\<close>

definition timely_ok :: "timely \<Rightarrow> bool" where
  "timely_ok tm \<longleftrightarrow> kTimelyMinRate \<le> rate tm \<and> rate tm \<le> link_bandwidth tm \<and> 0 < tm_freq_ghz tm \<and>
    min_rtt_tsc tm = kMinRTT * tm_freq_ghz tm * 1000 \<and> t_low_tsc tm = kTLow * tm_freq_ghz tm * 1000"

lemma timely_init_ok:
  "0 < f \<Longrightarrow> kTimelyMinRate \<le> bw \<Longrightarrow> timely_ok (timely_init f bw now)"
  by (simp add: timely_ok_def timely_init_def)

lemma new_rate_total: "\<exists>r. new_rate tm s d a n = Inr r"
  by (simp add: new_rate_def Let_def)

lemma new_rate_upper:
  assumes "new_rate tm s d a n = Inr r" "0 \<le> d" "d \<le> 1" "0 \<le> rate tm"
  shows "r \<le> rate tm + 5 * kAddRate" "s < kTLow \<Longrightarrow> rate tm \<le> r"
proof -
  have decr: "rate tm * (1 - c) \<le> rate tm" if "0 \<le> c" for c
    using that assms(4) by (simp add: mult_left_le algebra_simps)
  have "0 \<le> d * kBeta * (1 - kTHigh / s)" if "\<not> s \<le> kTHigh"
    using that assms by (intro mult_nonneg_nonneg) (simp_all add: field_simps)
  moreover have "0 \<le> d * kBeta * (a / kMinRTT)" if "\<not> a / kMinRTT \<le> 0" using that assms by simp
  ultimately show "r \<le> rate tm + 5 * kAddRate"
    using assms(1-3) decr [of "d * kBeta * (1 - kTHigh / s)"] decr [of "d * kBeta * (a / kMinRTT)"]
    by (auto simp: new_rate_def Let_def split: if_splits)
  show "s < kTLow \<Longrightarrow> rate tm \<le> r" using assms(1,2) by (simp add: new_rate_def Let_def)
qed

text \<open>
  C22. Rate bounds. Under the sanity condition on the clock no assertion fails, and an update keeps
  the sending rate between \<open>kMinRate\<close> and the link bandwidth, at most halves it, raises it by at most
  five times \<open>kAddRate\<close>, and never lowers it when the sample is below \<open>kTLow\<close>.
\<close>

theorem update_rate_bounds:
  assumes ok: "timely_ok tm" and clk: "1000000000 \<le> now" "last_update_tsc tm \<le> now"
  shows "\<exists>tm'. update_rate now rtt tm = Inr tm' \<and> timely_ok tm' \<and> rate tm / 2 \<le> rate tm' \<and>
    rate tm' \<le> rate tm + 5 * kAddRate \<and>
    (to_usec rtt (tm_freq_ghz tm) < kTLow \<longrightarrow> rate tm \<le> rate tm') \<and> last_update_tsc tm' \<le> now"
proof (cases "(rate tm = link_bandwidth tm \<and> real rtt \<le> t_low_tsc tm) \<or> real rtt < min_rtt_tsc tm")
  case True
  then have "update_rate now rtt tm = Inr tm" using clk by (auto simp: update_rate_def)
  then show ?thesis using ok clk by (auto simp: timely_ok_def)
next
  case False
  define s where "s = to_usec rtt (tm_freq_ghz tm)"
  define neg where "neg = (if s - prev_rtt tm < 0 then neg_gradient_count tm + 1 else 0)"
  define avg where "avg = (1 - kEwmaAlpha) * avg_rtt_diff tm + kEwmaAlpha * (s - prev_rtt tm)"
  define d where "d = min (real (sub64 now (last_update_tsc tm)) / min_rtt_tsc tm) 1"
  obtain nr where nr: "new_rate tm s d avg neg = Inr nr" using new_rate_total by blast
  let ?r = "max (min (max nr (rate tm * (1 / 2))) (link_bandwidth tm)) kTimelyMinRate"
  have d: "0 \<le> d" "d \<le> 1" using ok by (auto simp: d_def timely_ok_def)
  have pos: "0 \<le> rate tm" using ok by (simp add: timely_ok_def)
  note up = new_rate_upper [OF nr d pos]
  have "update_rate now rtt tm = Inr (tm\<lparr>rate := ?r, neg_gradient_count := neg, avg_rtt_diff := avg,
      prev_rtt := s, last_update_tsc := now\<rparr>)"
    using False clk nr by (auto simp: update_rate_def Let_def s_def neg_def avg_def d_def)
  moreover have "rate tm / 2 \<le> ?r" "?r \<le> rate tm + 5 * kAddRate" "s < kTLow \<longrightarrow> rate tm \<le> ?r"
    using up ok by (auto simp: timely_ok_def)
  ultimately show ?thesis using ok by (auto simp: timely_ok_def s_def)
qed

theorem update_rate_bounds_witness:
  "\<exists>tm'. update_rate 2000000000 4000000 (timely_init 2 1000000000 1000000000) = Inr tm' \<and> timely_ok tm' \<and>
    500000000 \<le> rate tm'"
proof -
  have ok: "timely_ok (timely_init 2 1000000000 1000000000)" by (rule timely_init_ok) simp_all
  have "rate (timely_init 2 1000000000 1000000000) = 1000000000"
    "last_update_tsc (timely_init 2 1000000000 1000000000) = 1000000000" by (simp_all add: timely_init_def)
  then show ?thesis using update_rate_bounds [OF ok, of 2000000000 4000000] by auto
qed

text \<open>
  The two unit conversions of the sending rate are inverse to each other, so a rate reported in
  Gbit/s and converted back is the same rate.
\<close>

theorem gbps_roundtrip: "gbps_to_rate (rate_to_gbps r) = r \<and> rate_to_gbps (gbps_to_rate g) = g"
  by (simp add: gbps_to_rate_def rate_to_gbps_def)

end
