(* ===== verification/Sm_Types.thy ===== *)
theory Sm_Types
  imports Erpc_Prelude
begin

section \<open>Session management packets (\<open>sm_types.h\<close>, \<open>rpc_constants.h\<close>)\<close>

text \<open>
  The data of the control plane: session states, packet and error types, session endpoints, the
  session management packet and the work items that the management thread hands to an Rpc thread.
  Routing information is the opaque byte array of the transport.
\<close>

abbreviation (input) kSessionReqWindow :: nat where "kSessionReqWindow \<equiv> 8"
abbreviation (input) kInvalidSessionNum :: u16 where "kInvalidSessionNum \<equiv> 65535"
abbreviation (input) kInvalidRpcId :: u8 where "kInvalidRpcId \<equiv> 255"
abbreviation (input) kMaxRpcId :: nat where "kMaxRpcId \<equiv> 254"
abbreviation (input) kMaxNumERpcProcesses :: nat where "kMaxNumERpcProcesses \<equiv> 32"
abbreviation (input) kBaseSmUdpPort :: nat where "kBaseSmUdpPort \<equiv> 31850"

type_synonym routing_info = "u8 list"

datatype SessionState = kConnectInProgress | kConnected | kDisconnectInProgress | kResetInProgress

datatype SmPktType = kUnblock | kPingReq | kPingResp | kConnectReq | kConnectResp | kDisconnectReq
  | kDisconnectResp

datatype SmErrType = kNoError | kSrvDisconnected | kRingExhausted | kOutOfMemory
  | kRoutingResolutionFailure | kInvalidRemoteRpcId | kInvalidTransport

datatype SmEventType = kEvConnected | kEvConnectFailed | kEvDisconnected | kEvDisconnectFailed

datatype TransportType = kInfiniBand | kRaw | kDPDK | kFake | kInvalidTransportType

text \<open>\<open>Transport::get_name\<close>: all enumerators are covered, so the trailing throw is unreachable.\<close>

definition transport_name :: "TransportType \<Rightarrow> string" where
  "transport_name t = (case t of kInfiniBand \<Rightarrow> ''[InfiniBand]'' | kRaw \<Rightarrow> ''[Raw Ethernet]''
    | kDPDK \<Rightarrow> ''[DPDK]'' | kFake \<Rightarrow> ''[Fake, for compilation only]''
    | kInvalidTransportType \<Rightarrow> ''[Invalid]'')"

definition session_state_str :: "SessionState \<Rightarrow> string" where
  "session_state_str st = (case st of kConnectInProgress \<Rightarrow> ''[Connect in progress]''
    | kConnected \<Rightarrow> ''[Connected]'' | kDisconnectInProgress \<Rightarrow> ''[Disconnect in progress]''
    | kResetInProgress \<Rightarrow> ''[Reset in progress]'')"

definition sm_pkt_type_str :: "SmPktType \<Rightarrow> string" where
  "sm_pkt_type_str t = (case t of kUnblock \<Rightarrow> ''[Unblock SM thread request]''
    | kPingReq \<Rightarrow> ''[Heartbeat ping request]'' | kPingResp \<Rightarrow> ''[Heartbeat ping response]''
    | kConnectReq \<Rightarrow> ''[Connect request]'' | kConnectResp \<Rightarrow> ''[Connect response]''
    | kDisconnectReq \<Rightarrow> ''[Disconnect request]'' | kDisconnectResp \<Rightarrow> ''[Disconnect response]'')"

fun sm_pkt_type_is_req :: "SmPktType \<Rightarrow> bool" where
  "sm_pkt_type_is_req kPingReq = True"
| "sm_pkt_type_is_req kConnectReq = True"
| "sm_pkt_type_is_req kDisconnectReq = True"
| "sm_pkt_type_is_req kPingResp = False"
| "sm_pkt_type_is_req kUnblock = False"
| "sm_pkt_type_is_req kConnectResp = False"
| "sm_pkt_type_is_req kDisconnectResp = False"

definition sm_pkt_type_req_to_resp :: "SmPktType \<Rightarrow> SmPktType res" where
  "sm_pkt_type_req_to_resp t = assertE (sm_pkt_type_is_req t)
    (case t of kPingReq \<Rightarrow> Inr kPingResp | kConnectReq \<Rightarrow> Inr kConnectResp
     | kDisconnectReq \<Rightarrow> Inr kDisconnectResp | _ \<Rightarrow> Inl RuntimeError)"

definition sm_err_type_str :: "SmErrType \<Rightarrow> string" where
  "sm_err_type_str e = (case e of kNoError \<Rightarrow> ''[No error]'' | kSrvDisconnected \<Rightarrow> ''[Server disconnected]''
    | kRingExhausted \<Rightarrow> ''[Ring buffers exhausted]'' | kOutOfMemory \<Rightarrow> ''[Out of memory]''
    | kRoutingResolutionFailure \<Rightarrow> ''[Routing resolution failure]''
    | kInvalidRemoteRpcId \<Rightarrow> ''[Invalid remote Rpc ID]'' | kInvalidTransport \<Rightarrow> ''[Invalid transport]'')"

definition sm_event_type_str :: "SmEventType \<Rightarrow> string" where
  "sm_event_type_str e = (case e of kEvConnected \<Rightarrow> ''[Connected]'' | kEvConnectFailed \<Rightarrow> ''[Connect failed]''
    | kEvDisconnected \<Rightarrow> ''[Disconnected]'' | kEvDisconnectFailed \<Rightarrow> ''[kDisconnect failed]'')"

subsection \<open>Endpoints and packets\<close>

text \<open>\<open>std::to_string\<close> on unsigned values.\<close>

fun dec_str :: "nat \<Rightarrow> string" where
  "dec_str n = (if n < 10 then [char_of (n + 48)] else dec_str (n div 10) @ [char_of (n mod 10 + 48)])"

declare dec_str.simps [simp del]

definition contains_str :: "string \<Rightarrow> string \<Rightarrow> bool" where
  "contains_str p s \<longleftrightarrow> (\<exists>i \<le> length s. take (length p) (drop i s) = p)"

text \<open>\<open>trim_hostname\<close> in \<open>common.h\<close>.\<close>

definition trim_hostname :: "string \<Rightarrow> string" where
  "trim_hostname h = (if contains_str ''akalia'' h then takeWhile (\<lambda>c. c \<noteq> CHR ''.'') h else h)"

record SessionEndpoint =
  transport_type :: TransportType
  hostname :: string
  sm_udp_port :: u16
  ep_rpc_id :: u8
  ep_session_num :: u16
  ep_routing_info :: routing_info

text \<open>
  The constructor leaves \<open>transport_type_\<close> alone; what the memory held before is the argument \<open>old\<close>.
  \<open>strcpy\<close> into the 128 bytes of \<open>hostname_\<close> stays in bounds when the name leaves room for its
  terminating zero.
\<close>

abbreviation (input) kMaxHostnameLen :: nat where "kMaxHostnameLen \<equiv> 128"

definition strcpy_hostname :: "string \<Rightarrow> string res" where
  "strcpy_hostname h = rangeE (length h < kMaxHostnameLen) (Inr h)"

definition SessionEndpoint_init :: "TransportType \<Rightarrow> SessionEndpoint" where
  "SessionEndpoint_init old = \<lparr>transport_type = old, hostname = [], sm_udp_port = 0,
    ep_rpc_id = kInvalidRpcId, ep_session_num = kInvalidSessionNum, ep_routing_info = replicate 48 0\<rparr>"

definition uri :: "SessionEndpoint \<Rightarrow> string" where
  "uri e = hostname e @ '':'' @ dec_str (unat (sm_udp_port e))"

definition ep_name :: "SessionEndpoint \<Rightarrow> string" where
  "ep_name e = ''[H: '' @ trim_hostname (hostname e) @ '':'' @ dec_str (unat (sm_udp_port e)) @ '', R: '' @
    dec_str (unat (ep_rpc_id e)) @ '', S: '' @
    (if ep_session_num e = kInvalidSessionNum then ''XX'' else dec_str (unat (ep_session_num e))) @ '']''"

definition rpc_name :: "SessionEndpoint \<Rightarrow> string" where
  "rpc_name e = ''[H: '' @ trim_hostname (hostname e) @ '':'' @ dec_str (unat (sm_udp_port e)) @ '', R: '' @
    dec_str (unat (ep_rpc_id e)) @ '']''"

definition ep_eq :: "SessionEndpoint \<Rightarrow> SessionEndpoint \<Rightarrow> bool" where
  "ep_eq a b \<longleftrightarrow> transport_type a = transport_type b \<and> hostname a = hostname b \<and>
    sm_udp_port a = sm_udp_port b \<and> ep_rpc_id a = ep_rpc_id b \<and> ep_session_num a = ep_session_num b"

record SmPkt =
  sp_pkt_type :: SmPktType
  sp_err_type :: SmErrType
  sp_uniq_token :: nat
  sp_client :: SessionEndpoint
  sp_server :: SessionEndpoint

definition sm_pkt_str :: "SmPkt \<Rightarrow> string" where
  "sm_pkt_str p = (if sp_pkt_type p \<noteq> kUnblock
    then sm_pkt_type_str (sp_pkt_type p) @ '', '' @ sm_err_type_str (sp_err_type p) @ '', client: '' @
      ep_name (sp_client p) @ '', server: '' @ ep_name (sp_server p)
    else sm_pkt_type_str (sp_pkt_type p))"

definition make_ping_resp :: "SmPkt \<Rightarrow> SmPkt" where
  "make_ping_resp ping_req = ping_req\<lparr>sp_pkt_type := kPingResp\<rparr>"

definition sp_is_req :: "SmPkt \<Rightarrow> bool" where
  "sp_is_req p = sm_pkt_type_is_req (sp_pkt_type p)"

definition sp_is_resp :: "SmPkt \<Rightarrow> bool" where
  "sp_is_resp p \<longleftrightarrow> \<not> sp_is_req p"

definition sm_construct_resp :: "SmPkt \<Rightarrow> SmErrType \<Rightarrow> SmPkt res" where
  "sm_construct_resp req_sm_pkt err_type =
    bindE (sm_pkt_type_req_to_resp (sp_pkt_type req_sm_pkt)) (\<lambda>t.
      Inr (req_sm_pkt\<lparr>sp_pkt_type := t, sp_err_type := err_type\<rparr>))"

datatype SmWorkItem = SmWork (wi_rpc_id: u8) (wi_sm_pkt: SmPkt) | SmReset (wi_reset_hostname: string)

definition is_reset :: "SmWorkItem \<Rightarrow> bool" where
  "is_reset wi = (case wi of SmWork _ _ \<Rightarrow> False | SmReset _ \<Rightarrow> True)"

text \<open>\<open>get_dpath_udp_port\<close>: arithmetic on \<open>size_t\<close>, truncated to 16 bits on return.\<close>

definition get_dpath_udp_port :: "u16 \<Rightarrow> u8 \<Rightarrow> u16" where
  "get_dpath_udp_port mgmt_udp_port rpc_id =
    of_nat (kBaseSmUdpPort + kMaxNumERpcProcesses +
      unat (mgmt_udp_port - of_nat kBaseSmUdpPort) * kMaxRpcId + unat rpc_id)"

subsection \<open>Properties\<close>

text \<open>
  A response packet is the request with only type and error changed: it is a response, it keeps
  the token and both endpoints, and no assertion fails for any of the three request types.
\<close>

theorem sm_construct_resp_correct:
  assumes "sp_is_req p"
  shows "\<exists>r. sm_construct_resp p err = Inr r \<and> sp_is_resp r \<and> sp_err_type r = err \<and>
    sp_uniq_token r = sp_uniq_token p \<and> sp_client r = sp_client p \<and> sp_server r = sp_server p"
  using assms
  by (cases "sp_pkt_type p")
    (auto simp: sp_is_req_def sp_is_resp_def sm_construct_resp_def sm_pkt_type_req_to_resp_def)

theorem sm_construct_resp_correct_witness:
  "\<exists>p r. sp_pkt_type p = kConnectReq \<and> sm_construct_resp p kRingExhausted = Inr r \<and> sp_is_resp r"
proof -
  let ?p = "\<lparr>sp_pkt_type = kConnectReq, sp_err_type = kNoError, sp_uniq_token = 5,
    sp_client = SessionEndpoint_init kRaw, sp_server = SessionEndpoint_init kRaw\<rparr>"
  have "sp_is_req ?p" by (simp add: sp_is_req_def)
  then obtain r where "sm_construct_resp ?p kRingExhausted = Inr r" "sp_is_resp r"
    using sm_construct_resp_correct [of ?p kRingExhausted] by blast
  moreover have "sp_pkt_type ?p = kConnectReq" by simp
  ultimately show ?thesis by blast
qed

lemma unat_of_nat_u16: "n < 2 ^ 16 \<Longrightarrow> unat (of_nat n :: u16) = n"
  by (simp add: unat_of_nat take_bit_eq_mod)

lemma get_dpath_udp_port_unat:
  assumes "p < kMaxNumERpcProcesses" "r \<le> kMaxRpcId"
  shows "unat (get_dpath_udp_port (of_nat (kBaseSmUdpPort + p)) (of_nat r)) = 31882 + p * 254 + r"
proof -
  have "of_nat (kBaseSmUdpPort + p) - of_nat kBaseSmUdpPort = (of_nat p :: u16)" by simp
  moreover have "unat (of_nat p :: u16) = p" "unat (of_nat r :: u8) = r"
    using assms by (simp_all add: unat_of_nat take_bit_eq_mod)
  ultimately have eq: "get_dpath_udp_port (of_nat (kBaseSmUdpPort + p)) (of_nat r)
      = (of_nat (31882 + p * 254 + r) :: u16)"
    unfolding get_dpath_udp_port_def by simp
  have "31882 + p * 254 + r < 2 ^ 16" using assms by simp
  then show ?thesis unfolding eq by (rule unat_of_nat_u16)
qed

text \<open>
  Datapath UDP ports. Two Rpc objects get different ports as long as the Rpc identifiers stay
  below \<open>kMaxRpcId\<close>; at the identifier \<open>kMaxRpcId\<close> itself, which is allowed, the port is the one of
  Rpc 0 of the next process.
\<close>

theorem dpath_udp_ports_distinct:
  assumes "p < kMaxNumERpcProcesses" "q < kMaxNumERpcProcesses" "r < kMaxRpcId" "s < kMaxRpcId"
  shows "(get_dpath_udp_port (of_nat (kBaseSmUdpPort + p)) (of_nat r) =
      get_dpath_udp_port (of_nat (kBaseSmUdpPort + q)) (of_nat s) \<longleftrightarrow> p = q \<and> r = s) \<and>
    get_dpath_udp_port (of_nat (kBaseSmUdpPort + 0)) (of_nat kMaxRpcId) =
      get_dpath_udp_port (of_nat (kBaseSmUdpPort + 1)) (of_nat 0)"
proof
  let ?f = "\<lambda>p r. get_dpath_udp_port (of_nat (kBaseSmUdpPort + p)) (of_nat r)"
  have "?f p r = ?f q s \<longleftrightarrow> 31882 + p * 254 + r = 31882 + q * 254 + s"
    using get_dpath_udp_port_unat [of p r] get_dpath_udp_port_unat [of q s] assms
    by (simp add: word_unat_eq_iff)
  also have "\<dots> \<longleftrightarrow> p * 254 + r = q * 254 + s" by simp
  also have "\<dots> \<longleftrightarrow> p = q \<and> r = s"
    using assms(3,4) by (metis div_mult_self3 div_less add_0_right mod_mult_self3 mod_less zero_neq_numeral)
  finally show "?f p r = ?f q s \<longleftrightarrow> p = q \<and> r = s" .
  show "?f 0 kMaxRpcId = ?f 1 0"
    using get_dpath_udp_port_unat [of 0 kMaxRpcId] get_dpath_udp_port_unat [of 1 0]
    by (simp add: word_unat_eq_iff)
qed

theorem dpath_udp_ports_distinct_witness:
  "get_dpath_udp_port (of_nat (kBaseSmUdpPort + 1)) (of_nat 2) \<noteq>
    get_dpath_udp_port (of_nat (kBaseSmUdpPort + 1)) (of_nat 3)"
  using dpath_udp_ports_distinct [of 1 1 2 3] by simp

end
