(* ===== verification/Rpc_State.thy ===== *)
theory Rpc_State
  imports Timing_Wheel Timely_CC Sm_Types
begin

section \<open>The state of an Rpc endpoint (\<open>sslot.h\<close>, \<open>session.h\<close>, members of \<open>rpc.h\<close>)\<close>

text \<open>
  Session slots, sessions and the Rpc object. Pointers become references: a session slot is the
  pair of its session number and its index, a message buffer is named by \<open>mbref\<close>, and the buffers
  themselves live in the store \<open>mbufs\<close>, so that aliasing between a slot's \<open>tx_msgbuf_\<close> and its own
  response buffers is the equality of references. The links of the intrusive list of active RPCs
  (\<open>prev_\<close>, \<open>next_\<close> in \<open>client_info_\<close>) are two maps on the nodes.

  What the code calls but does not define is in the environment \<open>env\<close>: the application's request
  handlers and continuations as functions on the state, the clock as a stream of time stamps, the
  registration function of the transport. The packets an endpoint sends are appended to \<open>wire\<close>.
\<close>

subsection \<open>References\<close>

type_synonym sref = "nat \<times> nat"

text \<open>
  \<open>UserBuf n\<close>: a buffer of the application; \<open>PreResp s\<close>, \<open>DynResp s\<close>, \<open>ReqBuf s\<close>: the members
  \<open>pre_resp_msgbuf_\<close>, \<open>dyn_resp_msgbuf_\<close> and \<open>server_info_.req_msgbuf_\<close> of slot \<open>s\<close>; \<open>CtrlBuf i\<close>:
  element \<open>i\<close> of \<open>ctrl_msgbufs_\<close>.
\<close>

datatype mbref = UserBuf nat | PreResp sref | DynResp sref | ReqBuf sref | CtrlBuf nat

datatype anode = RootSentinel | TailSentinel | ANode sref

datatype ReqFuncType = kForeground | kBackground

abbreviation (input) kInvalidReqType :: nat where "kInvalidReqType \<equiv> 255"
abbreviation (input) kInvalidBgETid :: nat where "kInvalidBgETid \<equiv> 8"

subsection \<open>Session slots\<close>

record SSlot =
  is_client_slot :: bool
  sl_index :: nat
  tx_msgbuf :: "mbref option"
  cur_req_num :: nat
  resp_msgbuf :: mbref
  cont_func :: nat
  cont_tag :: nat
  num_tx :: nat
  num_rx :: nat
  progress_tsc :: nat
  cont_etid :: nat
  in_wheel :: "bool list"
  wheel_count :: nat
  tx_ts :: "nat list"
  si_req_type :: nat
  si_req_func_type :: ReqFuncType
  si_num_rx :: nat
  sav_num_req_pkts :: nat

text \<open>A slot as the constructor of \<open>Session\<close> leaves it.\<close>

definition sslot_init :: "bool \<Rightarrow> nat \<Rightarrow> SSlot" where
  "sslot_init client i =
    \<lparr>is_client_slot = client, sl_index = i, tx_msgbuf = None, cur_req_num = i, resp_msgbuf = UserBuf 0,
     cont_func = 0, cont_tag = 0, num_tx = 0, num_rx = 0, progress_tsc = 0, cont_etid = 0,
     in_wheel = replicate kSessionCredits False, wheel_count = 0, tx_ts = replicate kSessionCredits 0,
     si_req_type = (if client then 0 else kInvalidReqType), si_req_func_type = kForeground,
     si_num_rx = 0, sav_num_req_pkts = 0\<rparr>"

subsection \<open>Sessions\<close>

record enq_req_args =
  er_session_num :: nat
  er_req_type :: nat
  er_req_msgbuf :: mbref
  er_resp_msgbuf :: mbref
  er_cont_func :: nat
  er_tag :: nat
  er_cont_etid :: nat

record Session =
  is_client :: bool
  se_state :: SessionState
  se_uniq_token :: nat
  se_client :: SessionEndpoint
  se_server :: SessionEndpoint
  sslot_arr :: "SSlot list"
  local_session_num :: nat
  remote_session_num :: nat
  credits :: nat
  sslot_free_vec :: "nat FixedVector"
  enq_req_backlog :: "enq_req_args list"
  se_num_re_tx :: nat
  se_timely :: timely
  prev_desired_tx_tsc :: nat
  sm_req_ts :: nat

definition is_connected :: "Session \<Rightarrow> bool" where
  "is_connected se \<longleftrightarrow> se_state se = kConnected"

definition is_uncongested :: "Session \<Rightarrow> bool" where
  "is_uncongested se \<longleftrightarrow> rate (se_timely se) = link_bandwidth (se_timely se)"

definition remote_routing_info :: "Session \<Rightarrow> routing_info" where
  "remote_routing_info se =
    (if is_client se then ep_routing_info (se_server se) else ep_routing_info (se_client se))"

definition get_remote_hostname :: "Session \<Rightarrow> string" where
  "get_remote_hostname se =
    trim_hostname (if is_client se then hostname (se_server se) else hostname (se_client se))"

text \<open>
  The constructor fills the free-slot vector with 7, 6, \<dots>, 0, so that slot 0 is popped first. It
  initialises neither \<open>prev_desired_tx_tsc_\<close> nor \<open>sm_req_ts_\<close>: the value the allocation happens to
  hold is the argument \<open>junk\<close>, and \<open>old\<close> for the transport types of the endpoints. The state and the session numbers are set by the callers, right after
  the construction.
\<close>

definition session_init :: "bool \<Rightarrow> nat \<Rightarrow> real \<Rightarrow> real \<Rightarrow> nat \<Rightarrow> nat \<Rightarrow> TransportType \<Rightarrow> Session res" where
  "session_init client token freq_ghz bandwidth now junk old =
    bindE (foldE (fv_push_back kSessionReqWindow) (rev [0..<kSessionReqWindow])
        \<lparr>arr = replicate kSessionReqWindow 0, free_index = 0\<rparr>) (\<lambda>fv.
      Inr \<lparr>is_client = client, se_state = kConnectInProgress, se_uniq_token = token,
           se_client = SessionEndpoint_init old, se_server = SessionEndpoint_init old,
           sslot_arr = map (sslot_init client) [0..<kSessionReqWindow],
           local_session_num = 0, remote_session_num = 0, credits = kSessionCredits,
           sslot_free_vec = fv, enq_req_backlog = [], se_num_re_tx = 0,
           se_timely = (if client then timely_init freq_ghz bandwidth now else timely_default),
           prev_desired_tx_tsc = junk, sm_req_ts = junk\<rparr>)"

definition cc_getupdate_tx_tsc :: "real \<Rightarrow> nat \<Rightarrow> nat \<Rightarrow> Session \<Rightarrow> nat \<times> Session" where
  "cc_getupdate_tx_tsc freq_ghz ref_tsc pkt_size se =
    (let ns_delta = 1000000000 * (real pkt_size / rate (se_timely se));
         cycle_delta = ns_to_cycles ns_delta freq_ghz;
         desired = max (prev_desired_tx_tsc se + cycle_delta) ref_tsc
     in (desired, se\<lparr>prev_desired_tx_tsc := desired\<rparr>))"

subsection \<open>The Rpc object\<close>

record tx_burst_item =
  ti_routing_info :: routing_info
  ti_msg_buffer :: mbref
  ti_pkt_idx :: nat
  ti_tx_ts :: "(sref \<times> nat) option"

record wire_pkt =
  wp_dest :: routing_info
  wp_packet :: packet

datatype bg_work_item = BgReq sref | BgResp nat nat

record rpc =
  session_vec :: "Session option list"
  mbufs :: "mbref \<Rightarrow> MsgBuffer"
  anext :: "anode \<Rightarrow> anode"
  aprev :: "anode \<Rightarrow> anode"
  stallq :: "sref list"
  tx_burst_arr :: "tx_burst_item list"
  ctrl_msgbuf_head :: nat
  rx_ring_head :: nat
  ev_loop_tsc :: nat
  pkt_loss_scan_tsc :: nat
  huge_al :: huge_alloc
  tw :: "sref timing_wheel"
  bgq_request :: "enq_req_args MtQueue"
  bgq_response :: "(sref \<times> mbref) MtQueue"
  bg_req_queue_arr :: "bg_work_item MtQueue list"
  fast_rand :: u64
  cur_etid :: nat
  tsc_i :: nat
  wire :: "wire_pkt list"
  tx_flush_count :: nat
  recvs_posted :: nat
  st_num_re_tx :: nat
  st_still_in_wheel :: nat
  ring_entries_available :: nat
  conn_req_token_map :: "nat \<Rightarrow> nat option"
  sm_pending_reqs :: "nat list"
  sm_rx_queue :: "SmWorkItem MtQueue"
  udp_sent :: "(string \<times> u16 \<times> SmPkt) list"
  app_events :: "(nat \<times> SmEventType \<times> SmErrType) list"
  pre_resp_msgbuf_size :: nat
  retry_connect_on_invalid_rpc_id :: bool
  rand_i :: nat
  fail_resolve_rinfo :: bool
  pkt_drop_prob :: real
  pkt_drop_thresh_billion :: nat

text \<open>
  \<open>handler t s\<close> runs the request handler registered for type \<open>t\<close> on the request handle \<open>s\<close>,
  \<open>continue c tag\<close> the continuation \<open>c\<close>; both may call back into the Rpc object, so they map states
  to states. \<open>mem_hdrs\<close> and \<open>mem_bytes\<close> are the arbitrary old contents of allocated memory and \<open>rest\<close>
  what follows a received packet in the ring. \<open>local_rinfo\<close> is what the transport fills in as local
  routing information, \<open>resolve_rinfo\<close> its resolution of remote routing information, \<open>slow_rand\<close> the
  stream of random numbers and \<open>heap_junk\<close> and \<open>heap_old_tt\<close> the old contents of a new session's memory.
\<close>

record env =
  cfg :: transport_cfg
  reg_mr :: "nat \<Rightarrow> nat \<Rightarrow> u32"
  bsrl_r0 :: nat
  tsc :: "nat \<Rightarrow> nat"
  creator_etid :: nat
  num_bg_threads :: nat
  freq_ghz :: real
  bandwidth :: real
  rpc_rto_cycles :: nat
  rpc_pkt_loss_scan_cycles :: nat
  req_func_type :: "nat \<Rightarrow> ReqFuncType option"
  handler :: "nat \<Rightarrow> sref \<Rightarrow> rpc \<Rightarrow> rpc res"
  continue :: "nat \<Rightarrow> nat \<Rightarrow> rpc \<Rightarrow> rpc res"
  mem_hdrs :: "nat \<Rightarrow> pkthdr"
  mem_bytes :: "nat \<Rightarrow> u8"
  ring_rest :: "nat \<Rightarrow> u8"
  rx_ring_addr :: "nat \<Rightarrow> nat"
  nexus_hostname :: string
  nexus_sm_udp_port :: u16
  my_rpc_id :: u8
  my_transport_type :: TransportType
  local_rinfo :: routing_info
  resolve_rinfo :: "routing_info \<Rightarrow> routing_info option"
  sm_handler :: "nat \<Rightarrow> SmEventType \<Rightarrow> SmErrType \<Rightarrow> rpc \<Rightarrow> rpc res"
  slow_rand :: "nat \<Rightarrow> nat"
  heap_junk :: nat
  heap_old_tt :: TransportType

abbreviation (input) kNumRxRingEntries :: nat where "kNumRxRingEntries \<equiv> 4096"

subsection \<open>Access to sessions and slots\<close>

text \<open>Dereferencing a buried session or an index outside an array is \<open>OutOfRange\<close>.\<close>

definition get_sess :: "nat \<Rightarrow> rpc \<Rightarrow> Session res" where
  "get_sess sn s = (if sn < length (session_vec s)
    then (case session_vec s ! sn of None \<Rightarrow> Inl OutOfRange | Some se \<Rightarrow> Inr se) else Inl OutOfRange)"

definition get_slot :: "sref \<Rightarrow> rpc \<Rightarrow> SSlot res" where
  "get_slot r s = bindE (get_sess (fst r) s) (\<lambda>se.
    if snd r < length (sslot_arr se) then Inr (sslot_arr se ! snd r) else Inl OutOfRange)"

definition upd_sess :: "nat \<Rightarrow> (Session \<Rightarrow> Session) \<Rightarrow> rpc \<Rightarrow> rpc" where
  "upd_sess sn f s = s\<lparr>session_vec := (session_vec s)[sn := map_option f (session_vec s ! sn)]\<rparr>"

definition upd_slot :: "sref \<Rightarrow> (SSlot \<Rightarrow> SSlot) \<Rightarrow> rpc \<Rightarrow> rpc" where
  "upd_slot r f = upd_sess (fst r)
    (\<lambda>se. se\<lparr>sslot_arr := (sslot_arr se)[snd r := f (sslot_arr se ! snd r)]\<rparr>)"

definition upd_mbuf :: "mbref \<Rightarrow> (MsgBuffer \<Rightarrow> MsgBuffer) \<Rightarrow> rpc \<Rightarrow> rpc" where
  "upd_mbuf m f s = s\<lparr>mbufs := (mbufs s)(m := f (mbufs s m))\<rparr>"

definition rdtsc :: "env \<Rightarrow> rpc \<Rightarrow> nat \<times> rpc" where
  "rdtsc e s = (tsc e (tsc_i s), s\<lparr>tsc_i := tsc_i s + 1\<rparr>)"

definition in_dispatch :: "env \<Rightarrow> rpc \<Rightarrow> bool" where
  "in_dispatch e s \<longleftrightarrow> cur_etid s = creator_etid e"

definition tx_buf :: "SSlot \<Rightarrow> rpc \<Rightarrow> MsgBuffer res" where
  "tx_buf sl s = (case tx_msgbuf sl of None \<Rightarrow> Inl OutOfRange | Some m \<Rightarrow> Inr (mbufs s m))"

end
