(* ===== verification/Rpc_Datapath.thy ===== *)
theory Rpc_Datapath
  imports Rpc_State
begin

section \<open>The datapath (\<open>rpc.h\<close>, \<open>rpc_cr.cc\<close>, \<open>rpc_kick.cc\<close>, \<open>rpc_req.cc\<close>, \<open>rpc_resp.cc\<close>, \<open>rpc_rfr.cc\<close>, \<open>rpc_rx.cc\<close>)\<close>

text \<open>
  One definition per function of the datapath, with every assertion, early return and call. The
  configuration is that of \<open>tweakme.h\<close>: congestion control on, batched time stamps, wheel bypass,
  zero-copy receive; \<open>kTesting\<close> and \<open>kDatapathStats\<close> are false, and log output is left out.
\<close>

subsection \<open>The list of active RPCs\<close>

definition add_to_active_rpc_list :: "sref \<Rightarrow> rpc \<Rightarrow> rpc" where
  "add_to_active_rpc_list r s =
    (let prev_tail = aprev s TailSentinel;
         s1 = s\<lparr>anext := (anext s)(prev_tail := ANode r)\<rparr>;
         s2 = s1\<lparr>aprev := (aprev s1)(ANode r := prev_tail)\<rparr>;
         s3 = s2\<lparr>anext := (anext s2)(ANode r := TailSentinel)\<rparr>
     in s3\<lparr>aprev := (aprev s3)(TailSentinel := ANode r)\<rparr>)"

definition delete_from_active_rpc_list :: "sref \<Rightarrow> rpc \<Rightarrow> rpc" where
  "delete_from_active_rpc_list r s =
    (let s1 = s\<lparr>anext := (anext s)(aprev s (ANode r) := anext s (ANode r))\<rparr>
     in s1\<lparr>aprev := (aprev s1)(anext s1 (ANode r) := aprev s1 (ANode r))\<rparr>)"

subsection \<open>Transmission\<close>

definition stamp_tx :: "nat \<Rightarrow> tx_burst_item \<Rightarrow> rpc \<Rightarrow> rpc" where
  "stamp_tx batch_tsc it s = (case ti_tx_ts it of
      None \<Rightarrow> s
    | Some (r, i) \<Rightarrow> upd_slot r (\<lambda>sl. sl\<lparr>tx_ts := (tx_ts sl)[i := batch_tsc]\<rparr>) s)"

definition wire_of :: "env \<Rightarrow> rpc \<Rightarrow> tx_burst_item \<Rightarrow> wire_pkt" where
  "wire_of e s it = \<lparr>wp_dest = ti_routing_info it,
    wp_packet = tx_item_packet (cfg e) (ring_rest e) (mbufs s (ti_msg_buffer it)) (ti_pkt_idx it)\<rparr>"

definition do_tx_burst_st :: "env \<Rightarrow> rpc \<Rightarrow> rpc res" where
  "do_tx_burst_st e s = assertE (in_dispatch e s) (assertE (0 < length (tx_burst_arr s))
    (let (batch_tsc, s1) = rdtsc e s;
         s2 = fold (stamp_tx batch_tsc) (tx_burst_arr s1) s1
     in Inr (s2\<lparr>wire := wire s2 @ map (wire_of e s2) (tx_burst_arr s2), tx_burst_arr := []\<rparr>)))"

definition drain_tx_batch_and_dma_queue :: "env \<Rightarrow> rpc \<Rightarrow> rpc res" where
  "drain_tx_batch_and_dma_queue e s =
    bindE (if 0 < length (tx_burst_arr s) then do_tx_burst_st e s else Inr s) (\<lambda>s1.
      Inr (s1\<lparr>tx_flush_count := tx_flush_count s1 + 1\<rparr>))"

definition push_tx_item :: "env \<Rightarrow> tx_burst_item \<Rightarrow> rpc \<Rightarrow> rpc res" where
  "push_tx_item e it s =
    (let s1 = s\<lparr>tx_burst_arr := tx_burst_arr s @ [it]\<rparr>
     in if length (tx_burst_arr s1) = kPostlist (cfg e) then do_tx_burst_st e s1 else Inr s1)"

definition enqueue_pkt_tx_burst_st :: "env \<Rightarrow> sref \<Rightarrow> nat \<Rightarrow> (sref \<times> nat) option \<Rightarrow> rpc \<Rightarrow> rpc res" where
  "enqueue_pkt_tx_burst_st e r pkt_idx ts s = assertE (in_dispatch e s)
    (bindE (get_sess (fst r) s) (\<lambda>se. bindE (get_slot r s) (\<lambda>sl.
      case tx_msgbuf sl of
        None \<Rightarrow> Inl OutOfRange
      | Some m \<Rightarrow> push_tx_item e \<lparr>ti_routing_info = remote_routing_info se, ti_msg_buffer = m,
          ti_pkt_idx = pkt_idx, ti_tx_ts = ts\<rparr> s)))"

definition enqueue_hdr_tx_burst_st :: "env \<Rightarrow> sref \<Rightarrow> mbref \<Rightarrow> (sref \<times> nat) option \<Rightarrow> rpc \<Rightarrow> rpc res" where
  "enqueue_hdr_tx_burst_st e r ctrl_msgbuf ts s = assertE (in_dispatch e s)
    (bindE (get_sess (fst r) s) (\<lambda>se.
      push_tx_item e \<lparr>ti_routing_info = remote_routing_info se, ti_msg_buffer = ctrl_msgbuf,
        ti_pkt_idx = 0, ti_tx_ts = ts\<rparr> s))"

definition set_hdr :: "nat \<Rightarrow> (pkthdr \<Rightarrow> pkthdr) \<Rightarrow> MsgBuffer \<Rightarrow> MsgBuffer" where
  "set_hdr n f m = m\<lparr>hdrs := (hdrs m)(n := f (hdrs m n))\<rparr>"

definition next_ctrl_msgbuf :: "env \<Rightarrow> rpc \<Rightarrow> mbref \<times> rpc" where
  "next_ctrl_msgbuf e s =
    (let h = ctrl_msgbuf_head s + 1
     in (CtrlBuf (ctrl_msgbuf_head s),
         s\<lparr>ctrl_msgbuf_head := (if h = 2 * kUnsigBatch (cfg e) then 0 else h)\<rparr>))"

definition enqueue_cr_st :: "env \<Rightarrow> sref \<Rightarrow> pkthdr \<Rightarrow> rpc \<Rightarrow> rpc res" where
  "enqueue_cr_st e r req_pkthdr s = assertE (in_dispatch e s)
    (bindE (get_sess (fst r) s) (\<lambda>se.
      let (m, s1) = next_ctrl_msgbuf e s;
          s2 = upd_mbuf m (set_hdr 0 (\<lambda>h. h\<lparr>req_type := req_type req_pkthdr, msg_size := 0,
                 dest_session_num := of_nat (remote_session_num se), pkt_type := kExplCR,
                 pkt_num := pkt_num req_pkthdr, req_num := req_num req_pkthdr, magic := kPktHdrMagic\<rparr>)) s1
      in enqueue_hdr_tx_burst_st e r m None s2))"

definition enqueue_rfr_st :: "env \<Rightarrow> sref \<Rightarrow> pkthdr \<Rightarrow> rpc \<Rightarrow> rpc res" where
  "enqueue_rfr_st e r resp_pkthdr s = assertE (in_dispatch e s)
    (bindE (get_sess (fst r) s) (\<lambda>se. bindE (get_slot r s) (\<lambda>sl.
      let (m, s1) = next_ctrl_msgbuf e s;
          pn = (of_nat (num_tx sl) :: 14 word);
          s2 = upd_mbuf m (set_hdr 0 (\<lambda>h. h\<lparr>req_type := req_type resp_pkthdr, msg_size := 0,
                 dest_session_num := of_nat (remote_session_num se), pkt_type := kRFR,
                 pkt_num := pn, req_num := req_num resp_pkthdr, magic := kPktHdrMagic\<rparr>)) s1
      in enqueue_hdr_tx_burst_st e r m (Some (r, unat pn mod kSessionCredits)) s2)))"

definition enqueue_wheel_st :: "env \<Rightarrow> sref \<Rightarrow> nat \<Rightarrow> nat \<Rightarrow> rpc \<Rightarrow> rpc res" where
  "enqueue_wheel_st e r pn pktsz s =
    (let (ref_tsc, s1) = rdtsc e s
     in bindE (get_sess (fst r) s1) (\<lambda>se.
       let (desired, se1) = cc_getupdate_tx_tsc (freq_ghz e) ref_tsc pktsz se;
           s2 = upd_sess (fst r) (\<lambda>_. se1) s1
       in bindE (tw_insert (cfg e) (reg_mr e) \<lparr>we_sslot = r, we_pkt_num = of_nat pn\<rparr> ref_tsc desired
                 (tw s2, huge_al s2)) (\<lambda>(w, h).
            Inr (upd_slot r (\<lambda>sl. sl\<lparr>in_wheel := (in_wheel sl)[pn mod kSessionCredits := True],
                                     wheel_count := wheel_count sl + 1\<rparr>)
                  (s2\<lparr>tw := w, huge_al := h\<rparr>)))))"

definition enqueue_wheel_req_st :: "env \<Rightarrow> sref \<Rightarrow> nat \<Rightarrow> rpc \<Rightarrow> rpc res" where
  "enqueue_wheel_req_st e r pn s =
    bindE (get_slot r s) (\<lambda>sl. bindE (tx_buf sl s) (\<lambda>m.
      enqueue_wheel_st e r pn (get_pkt_size (cfg e) m pn) s))"

definition enqueue_wheel_rfr_st :: "env \<Rightarrow> sref \<Rightarrow> nat \<Rightarrow> rpc \<Rightarrow> rpc res" where
  "enqueue_wheel_rfr_st e r pn s =
    bindE (get_slot r s) (\<lambda>sl. bindE (tx_buf sl s) (\<lambda>m.
      let pkt_idx = resp_ntoi pn (num_pkts m)
      in enqueue_wheel_st e r pn (get_pkt_size (cfg e) (mbufs s (resp_msgbuf sl)) pkt_idx) s))"

subsection \<open>Credits and kicks\<close>

definition bump_credits :: "nat \<Rightarrow> rpc \<Rightarrow> rpc res" where
  "bump_credits sn s = bindE (get_sess sn s) (\<lambda>se.
    assertE (is_client se) (assertE (credits se < kSessionCredits)
      (Inr (upd_sess sn (\<lambda>se. se\<lparr>credits := credits se + 1\<rparr>) s))))"

definition req_pkts_pending :: "SSlot \<Rightarrow> rpc \<Rightarrow> bool res" where
  "req_pkts_pending sl s = bindE (tx_buf sl s) (\<lambda>m. Inr (num_tx sl < num_pkts m))"

definition can_bypass_wheel :: "SSlot \<Rightarrow> Session \<Rightarrow> bool" where
  "can_bypass_wheel sl se \<longleftrightarrow> wheel_count sl = 0 \<and> is_uncongested se"

definition use_credit :: "sref \<Rightarrow> rpc \<Rightarrow> rpc" where
  "use_credit r s = upd_sess (fst r) (\<lambda>se. se\<lparr>credits := sub64 (credits se) 1\<rparr>)
    (upd_slot r (\<lambda>sl. sl\<lparr>num_tx := num_tx sl + 1\<rparr>) s)"

definition kick_req_one :: "env \<Rightarrow> sref \<Rightarrow> bool \<Rightarrow> rpc \<Rightarrow> rpc res" where
  "kick_req_one e r bypass s = bindE (get_slot r s) (\<lambda>sl.
    bindE (if bypass
           then enqueue_pkt_tx_burst_st e r (num_tx sl) (Some (r, num_tx sl mod kSessionCredits)) s
           else enqueue_wheel_req_st e r (num_tx sl) s) (\<lambda>s1. Inr (use_credit r s1)))"

definition kick_req_st :: "env \<Rightarrow> sref \<Rightarrow> rpc \<Rightarrow> rpc res" where
  "kick_req_st e r s = assertE (in_dispatch e s)
    (bindE (get_sess (fst r) s) (\<lambda>se. assertE (0 < credits se)
    (bindE (get_slot r s) (\<lambda>sl. bindE (tx_buf sl s) (\<lambda>m.
      let sending = min (credits se) (sub64 (num_pkts m) (num_tx sl));
          bypass = can_bypass_wheel sl se
      in forE sending (\<lambda>_. kick_req_one e r bypass) s)))))"

definition kick_rfr_one :: "env \<Rightarrow> sref \<Rightarrow> rpc \<Rightarrow> rpc res" where
  "kick_rfr_one e r s = bindE (get_slot r s) (\<lambda>sl.
    bindE (enqueue_rfr_st e r (hdrs (mbufs s (resp_msgbuf sl)) 0) s) (\<lambda>s1. Inr (use_credit r s1)))"

definition kick_rfr_st :: "env \<Rightarrow> sref \<Rightarrow> rpc \<Rightarrow> rpc res" where
  "kick_rfr_st e r s = assertE (in_dispatch e s)
    (bindE (get_sess (fst r) s) (\<lambda>se. bindE (get_slot r s) (\<lambda>sl. bindE (tx_buf sl s) (\<lambda>m.
      let wp = wire_pkts m (mbufs s (resp_msgbuf sl))
      in assertE (0 < credits se) (assertE (num_pkts m \<le> num_rx sl) (assertE (num_rx sl < wp)
        (let rfr_pndng = sub64 wp (num_tx sl); sending = min (credits se) rfr_pndng
         in forE sending (\<lambda>_. kick_rfr_one e r) s)))))))"

subsection \<open>Receiving at the client\<close>

definition in_order_client :: "sref \<Rightarrow> pkthdr \<Rightarrow> rpc \<Rightarrow> (bool \<times> rpc) res" where
  "in_order_client r h s = bindE (get_slot r s) (\<lambda>sl.
    if unat (req_num h) \<noteq> cur_req_num sl then Inr (False, s)
    else if unat (pkt_num h) \<noteq> num_rx sl then Inr (False, s)
    else if num_tx sl \<le> unat (pkt_num h) then Inr (False, s)
    else if in_wheel sl ! (unat (pkt_num h) mod kSessionCredits)
    then Inr (False, s\<lparr>st_still_in_wheel := st_still_in_wheel s + 1\<rparr>)
    else Inr (True, s))"

definition update_timely_rate :: "sref \<Rightarrow> nat \<Rightarrow> nat \<Rightarrow> rpc \<Rightarrow> rpc res" where
  "update_timely_rate r pn rx_tsc s = bindE (get_slot r s) (\<lambda>sl. bindE (get_sess (fst r) s) (\<lambda>se.
    bindE (update_rate rx_tsc (sub64 rx_tsc (tx_ts sl ! (pn mod kSessionCredits))) (se_timely se)) (\<lambda>tm.
      Inr (upd_sess (fst r) (\<lambda>se. se\<lparr>se_timely := tm\<rparr>) s))))"

text \<open>The tracking update shared by credit returns and responses.\<close>

definition client_track :: "sref \<Rightarrow> pkthdr \<Rightarrow> nat \<Rightarrow> rpc \<Rightarrow> rpc res" where
  "client_track r h rx_tsc s =
    bindE (update_timely_rate r (unat (pkt_num h)) rx_tsc s) (\<lambda>s1.
    bindE (bump_credits (fst r) s1) (\<lambda>s2.
      Inr (upd_slot r (\<lambda>sl. sl\<lparr>num_rx := num_rx sl + 1, progress_tsc := ev_loop_tsc s2\<rparr>) s2)))"

definition process_expl_cr_st :: "env \<Rightarrow> sref \<Rightarrow> pkthdr \<Rightarrow> nat \<Rightarrow> rpc \<Rightarrow> rpc res" where
  "process_expl_cr_st e r h rx_tsc s = assertE (in_dispatch e s)
    (bindE (get_slot r s) (\<lambda>sl. assertE (unat (req_num h) \<le> cur_req_num sl)
    (bindE (in_order_client r h s) (\<lambda>(ok, s1).
      if \<not> ok then Inr s1
      else bindE (client_track r h rx_tsc s1) (\<lambda>s2.
        bindE (get_slot r s2) (\<lambda>sl2. bindE (req_pkts_pending sl2 s2) (\<lambda>pending.
          if pending then kick_req_st e r s2 else Inr s2)))))))"

subsection \<open>Requests of the application\<close>

definition fill_req_hdrs :: "nat \<Rightarrow> nat \<Rightarrow> nat \<Rightarrow> MsgBuffer \<Rightarrow> MsgBuffer" where
  "fill_req_hdrs rt remote rn m =
    (let m1 = set_hdr 0 (\<lambda>h. h\<lparr>req_type := of_nat rt, msg_size := of_nat (data_size m),
               dest_session_num := of_nat remote, pkt_type := kReq, pkt_num := 0, req_num := of_nat rn\<rparr>) m
     in fold (\<lambda>i m. set_hdr i (\<lambda>_. (hdrs m 0)\<lparr>pkt_num := of_nat i\<rparr>) m) [1..<num_pkts m] m1)"

text \<open>Filling in the slot and the packet headers of a new request.\<close>

definition fill_sslot ::
  "nat \<Rightarrow> mbref \<Rightarrow> mbref \<Rightarrow> nat \<Rightarrow> nat \<Rightarrow> nat \<Rightarrow> sref \<Rightarrow> Session \<Rightarrow> SSlot \<Rightarrow> rpc \<Rightarrow> rpc" where
  "fill_sslot rt req resp cf tag etid r se sl s1 =
    (let rn = cur_req_num sl + kSessionReqWindow;
         s2 = upd_slot r (\<lambda>sl. sl\<lparr>tx_msgbuf := Some req, cur_req_num := rn, resp_msgbuf := resp,
                cont_func := cf, cont_tag := tag, progress_tsc := ev_loop_tsc s1\<rparr>) s1;
         s3 = add_to_active_rpc_list r s2;
         s4 = upd_slot r (\<lambda>sl. sl\<lparr>num_rx := 0, num_tx := 0, cont_etid := etid\<rparr>) s3
     in upd_mbuf req (fill_req_hdrs rt (remote_session_num se) rn) s4)"

definition enqueue_request ::
  "env \<Rightarrow> nat \<Rightarrow> nat \<Rightarrow> mbref \<Rightarrow> mbref \<Rightarrow> nat \<Rightarrow> nat \<Rightarrow> nat \<Rightarrow> rpc \<Rightarrow> rpc res" where
  "enqueue_request e sn rt req resp cf tag etid s =
    (if \<not> in_dispatch e s
     then Inr (s\<lparr>bgq_request := unlocked_push \<lparr>er_session_num = sn, er_req_type = rt, er_req_msgbuf = req,
            er_resp_msgbuf = resp, er_cont_func = cf, er_tag = tag, er_cont_etid = cur_etid s\<rparr> (bgq_request s)\<rparr>)
     else bindE (get_sess sn s) (\<lambda>se. assertE (is_connected se)
       (if fv_size (sslot_free_vec se) = 0
        then Inr (upd_sess sn (\<lambda>se. se\<lparr>enq_req_backlog := enq_req_backlog se @
            [\<lparr>er_session_num = sn, er_req_type = rt, er_req_msgbuf = req, er_resp_msgbuf = resp,
              er_cont_func = cf, er_tag = tag, er_cont_etid = etid\<rparr>]\<rparr>) s)
        else bindE (fv_pop_back (sslot_free_vec se)) (\<lambda>(i, fv).
          let r = (sn, i); s1 = upd_sess sn (\<lambda>se. se\<lparr>sslot_free_vec := fv\<rparr>) s
          in bindE (get_slot r s1) (\<lambda>sl. assertE (tx_msgbuf sl = None)
            (let s5 = fill_sslot rt req resp cf tag etid r se sl s1
             in if 0 < credits se then kick_req_st e r s5
                else Inr (s5\<lparr>stallq := stallq s5 @ [r]\<rparr>)))))))"

subsection \<open>Background work items\<close>

definition submit_bg_req_st :: "env \<Rightarrow> sref \<Rightarrow> rpc \<Rightarrow> rpc res" where
  "submit_bg_req_st e r s = assertE (in_dispatch e s) (assertE (0 < num_bg_threads e)
    (let (seed, x) = next_u32 (fast_rand s); i = unat x mod num_bg_threads e
     in rangeE (i < length (bg_req_queue_arr s))
       (Inr (s\<lparr>fast_rand := seed,
               bg_req_queue_arr := (bg_req_queue_arr s)[i := unlocked_push (BgReq r) (bg_req_queue_arr s ! i)]\<rparr>))))"

definition submit_bg_resp_st :: "env \<Rightarrow> nat \<Rightarrow> nat \<Rightarrow> nat \<Rightarrow> rpc \<Rightarrow> rpc res" where
  "submit_bg_resp_st e cf tag bg_etid s = assertE (in_dispatch e s) (assertE (0 < num_bg_threads e)
    (assertE (bg_etid < num_bg_threads e) (rangeE (bg_etid < length (bg_req_queue_arr s))
      (Inr (s\<lparr>bg_req_queue_arr := (bg_req_queue_arr s)[bg_etid :=
            unlocked_push (BgResp cf tag) (bg_req_queue_arr s ! bg_etid)]\<rparr>)))))"

subsection \<open>Responses at the client\<close>

text \<open>Copying the eRPC header of a packet (without the transport's headroom) over header 0.\<close>

definition copy_ehdr :: "env \<Rightarrow> pkthdr \<Rightarrow> MsgBuffer \<Rightarrow> MsgBuffer" where
  "copy_ehdr e h = set_hdr 0 (\<lambda>h0. h\<lparr>headroom :=
    take (kHeadroom (cfg e)) (headroom h0) @ drop (kHeadroom (cfg e)) (headroom h)\<rparr>)"

definition copy_single :: "packet \<Rightarrow> MsgBuffer \<Rightarrow> MsgBuffer" where
  "copy_single p m = m\<lparr>bytes := (\<lambda>j. if j < unat (msg_size (p_hdr p)) then p_data p j else bytes m j)\<rparr>"

text \<open>The part after the complete response has been received.\<close>

definition complete_request :: "env \<Rightarrow> sref \<Rightarrow> rpc \<Rightarrow> rpc res" where
  "complete_request e r s = bindE (get_slot r s) (\<lambda>sl. assertE (wheel_count sl = 0)
    (let s1 = upd_slot r (\<lambda>sl. sl\<lparr>tx_msgbuf := None\<rparr>) s;
         s2 = delete_from_active_rpc_list r s1
     in bindE (get_sess (fst r) s2) (\<lambda>se. bindE (fv_push_back kSessionReqWindow (sl_index sl) (sslot_free_vec se)) (\<lambda>fv.
       let s3 = upd_sess (fst r) (\<lambda>se. se\<lparr>sslot_free_vec := fv\<rparr>) s2
       in bindE
         (case enq_req_backlog se of
            [] \<Rightarrow> Inr s3
          | args # rest \<Rightarrow> assertE (fv_size fv = 1)
              (bindE (enqueue_request e (er_session_num args) (er_req_type args) (er_req_msgbuf args)
                 (er_resp_msgbuf args) (er_cont_func args) (er_tag args) (er_cont_etid args) s3) (\<lambda>s4.
               Inr (upd_sess (fst r) (\<lambda>se. se\<lparr>enq_req_backlog := tl (enq_req_backlog se)\<rparr>) s4))))
         (\<lambda>s5. if cont_etid sl = kInvalidBgETid then continue e (cont_func sl) (cont_tag sl) s5
               else submit_bg_resp_st e (cont_func sl) (cont_tag sl) (cont_etid sl) s5)))))"

definition process_resp_one_st :: "env \<Rightarrow> sref \<Rightarrow> packet \<Rightarrow> nat \<Rightarrow> rpc \<Rightarrow> rpc res" where
  "process_resp_one_st e r p rx_tsc s = assertE (in_dispatch e s)
    (bindE (get_slot r s) (\<lambda>sl0. assertE (unat (req_num (p_hdr p)) \<le> cur_req_num sl0)
    (bindE (in_order_client r (p_hdr p) s) (\<lambda>(ok, s0).
      if \<not> ok then Inr s0
      else bindE (client_track r (p_hdr p) rx_tsc s0) (\<lambda>s1.
        bindE (get_slot r s1) (\<lambda>sl.
        let resp = resp_msgbuf sl; msz = unat (msg_size (p_hdr p))
        in if msz \<le> kMaxDataPerPkt (cfg e)
           then bindE (resize_msg_buffer (cfg e) (mbufs s1 resp) msz) (\<lambda>m.
             complete_request e r (upd_mbuf resp (\<lambda>_. copy_single p (copy_ehdr e (p_hdr p) m)) s1))
           else (case tx_msgbuf sl of
               None \<Rightarrow> Inl OutOfRange
             | Some req \<Rightarrow>
                 bindE (if unat (pkt_num (p_hdr p)) = sub64 (num_pkts (mbufs s1 req)) 1
                        then bindE (resize_msg_buffer (cfg e) (mbufs s1 resp) msz) (\<lambda>m.
                          Inr (upd_mbuf resp (\<lambda>_. copy_ehdr e (p_hdr p) m) s1))
                        else Inr s1) (\<lambda>s2.
                 bindE (if num_tx sl \<noteq> wire_pkts (mbufs s2 req) (mbufs s2 resp) then kick_rfr_st e r s2
                        else Inr s2) (\<lambda>s3.
                   let pkt_idx = resp_ntoi (unat (pkt_num (p_hdr p))) (num_pkts (mbufs s3 req));
                       s4 = upd_mbuf resp (copy_data_to_msgbuf (cfg e) pkt_idx p) s3
                   in bindE (get_slot r s4) (\<lambda>sl4.
                     if num_rx sl4 \<noteq> wire_pkts (mbufs s4 req) (mbufs s4 resp) then Inr s4
                     else complete_request e r s4))))))))))"

subsection \<open>Requests at the server\<close>

definition bury_resp_msgbuf_server_st :: "env \<Rightarrow> sref \<Rightarrow> rpc \<Rightarrow> rpc res" where
  "bury_resp_msgbuf_server_st e r s = assertE (in_dispatch e s)
    (bindE (get_slot r s) (\<lambda>sl.
      bindE (if tx_msgbuf sl = Some (DynResp r)
             then bindE (free_msg_buffer (bsrl_r0 e) (mbufs s (DynResp r)) (huge_al s)) (\<lambda>h.
               Inr (s\<lparr>huge_al := h\<rparr>))
             else Inr s) (\<lambda>s1. Inr (upd_slot r (\<lambda>sl. sl\<lparr>tx_msgbuf := None\<rparr>) s1))))"

definition bury_req_msgbuf_server_st :: "env \<Rightarrow> sref \<Rightarrow> rpc \<Rightarrow> rpc res" where
  "bury_req_msgbuf_server_st e r s =
    bindE (if is_dynamic (mbufs s (ReqBuf r))
           then bindE (free_msg_buffer (bsrl_r0 e) (mbufs s (ReqBuf r)) (huge_al s)) (\<lambda>h.
             Inr (upd_mbuf (ReqBuf r) (\<lambda>m. m\<lparr>mb_buffer := (mb_buffer m)\<lparr>b_buf := None\<rparr>\<rparr>) (s\<lparr>huge_al := h\<rparr>)))
           else Inr s) (\<lambda>s1. Inr (upd_mbuf (ReqBuf r) (\<lambda>m. m\<lparr>mb_buf := None\<rparr>) s1))"

definition call_handler :: "env \<Rightarrow> nat \<Rightarrow> sref \<Rightarrow> rpc \<Rightarrow> rpc res" where
  "call_handler e rt r s = (case req_func_type e rt of
      None \<Rightarrow> Inl OutOfRange
    | Some kForeground \<Rightarrow> handler e rt r s
    | Some kBackground \<Rightarrow> submit_bg_req_st e r s)"

text \<open>
  An entry of \<open>req_func_arr_\<close> that was never registered has a null handler and an indeterminate
  type; calling it is \<open>OutOfRange\<close>.
\<close>

definition func_type :: "env \<Rightarrow> nat \<Rightarrow> ReqFuncType" where
  "func_type e rt = (case req_func_type e rt of None \<Rightarrow> kForeground | Some t \<Rightarrow> t)"

text \<open>A request copy that does not depend on the receive ring.\<close>

definition alloc_req_msgbuf :: "env \<Rightarrow> sref \<Rightarrow> nat \<Rightarrow> rpc \<Rightarrow> (bool \<times> rpc) res" where
  "alloc_req_msgbuf e r msz s =
    bindE (alloc_msg_buffer (cfg e) (bsrl_r0 e) (reg_mr e) (mem_hdrs e) (mem_bytes e) msz (huge_al s)) (\<lambda>(mo, h).
      case mo of
        None \<Rightarrow> Inr (False, s\<lparr>huge_al := h\<rparr>)
      | Some m \<Rightarrow> Inr (True, upd_mbuf (ReqBuf r) (\<lambda>_. m) (s\<lparr>huge_al := h\<rparr>)))"

definition process_small_req_st :: "env \<Rightarrow> sref \<Rightarrow> nat \<Rightarrow> packet \<Rightarrow> rpc \<Rightarrow> rpc res" where
  "process_small_req_st e r ring_addr p s = assertE (in_dispatch e s)
    (bindE (get_slot r s) (\<lambda>sl.
      let h = p_hdr p; rn = unat (req_num h); rt = unat (req_type h)
      in if rn \<le> cur_req_num sl
         then (if rn < cur_req_num sl then Inr s
               else if tx_msgbuf sl \<noteq> None
               then bindE (enqueue_pkt_tx_burst_st e r 0 None s) (drain_tx_batch_and_dma_queue e)
               else Inr s)
         else assertE (rn = cur_req_num sl + kSessionReqWindow)
           (assertE (is_buried (mbufs s (ReqBuf r)))
           (bindE (bury_resp_msgbuf_server_st e r s) (\<lambda>s1.
             let s2 = upd_slot r (\<lambda>sl. sl\<lparr>cur_req_num := rn, si_num_rx := 1\<rparr>) s1
             in assertE (si_req_type sl = kInvalidReqType)
               (let s3 = upd_slot r (\<lambda>sl. sl\<lparr>si_req_type := rt, si_req_func_type := func_type e rt\<rparr>) s2
                in if func_type e rt = kForeground
                   then call_handler e rt r (upd_mbuf (ReqBuf r)
                     (\<lambda>_. MsgBuffer_fake (cfg e) ring_addr h (p_data p) (unat (msg_size h))) s3)
                   else bindE (alloc_req_msgbuf e r (unat (msg_size h)) s3) (\<lambda>(ok, s4).
                     rangeE ok (call_handler e rt r (upd_mbuf (ReqBuf r) (copy_single p) s4)))))))))"

definition process_large_req_one_st :: "env \<Rightarrow> sref \<Rightarrow> packet \<Rightarrow> rpc \<Rightarrow> rpc res" where
  "process_large_req_one_st e r p s = assertE (in_dispatch e s)
    (bindE (get_slot r s) (\<lambda>sl.
      let h = p_hdr p; rn = unat (req_num h); pn = unat (pkt_num h); rt = unat (req_type h);
          is_next_pkt_same_req = (rn = cur_req_num sl \<and> pn = si_num_rx sl);
          is_first_pkt_next_req = (rn = cur_req_num sl + kSessionReqWindow \<and> pn = 0)
      in if \<not> (is_next_pkt_same_req \<or> is_first_pkt_next_req)
         then (if rn \<noteq> cur_req_num sl \<or> si_num_rx sl < pn then Inr s
               else if pn \<noteq> data_size_to_num_pkts (cfg e) (unat (msg_size h)) - 1 then enqueue_cr_st e r h s
               else if tx_msgbuf sl \<noteq> None
               then bindE (enqueue_pkt_tx_burst_st e r 0 None s) (drain_tx_batch_and_dma_queue e)
               else Inr s)
         else
           bindE (if pn = 0
                  then assertE (is_buried (mbufs s (ReqBuf r)))
                    (bindE (bury_resp_msgbuf_server_st e r s) (\<lambda>s1.
                     bindE (alloc_req_msgbuf e r (unat (msg_size h)) s1) (\<lambda>(ok, s2).
                       assertE ok (Inr (upd_slot r (\<lambda>sl. sl\<lparr>cur_req_num := rn, si_num_rx := 1\<rparr>) s2)))))
                  else Inr (upd_slot r (\<lambda>sl. sl\<lparr>si_num_rx := si_num_rx sl + 1\<rparr>) s)) (\<lambda>s3.
           bindE (if pn \<noteq> sub64 (num_pkts (mbufs s3 (ReqBuf r))) 1 then enqueue_cr_st e r h s3 else Inr s3) (\<lambda>s4.
             let s5 = upd_mbuf (ReqBuf r) (copy_data_to_msgbuf (cfg e) pn p) s4
             in bindE (get_slot r s5) (\<lambda>sl5.
               if si_num_rx sl5 \<noteq> num_pkts (mbufs s5 (ReqBuf r)) then Inr s5
               else assertE (si_req_type sl5 = kInvalidReqType)
                 (call_handler e rt r
                   (upd_slot r (\<lambda>sl. sl\<lparr>si_req_type := rt, si_req_func_type := func_type e rt\<rparr>) s5)))))))"

definition fill_resp_hdrs :: "nat \<Rightarrow> nat \<Rightarrow> nat \<Rightarrow> nat \<Rightarrow> MsgBuffer \<Rightarrow> MsgBuffer" where
  "fill_resp_hdrs rt remote first_pn rn m =
    (let m1 = set_hdr 0 (\<lambda>h. h\<lparr>req_type := of_nat rt, msg_size := of_nat (data_size m),
               dest_session_num := of_nat remote, pkt_type := kResp, pkt_num := of_nat first_pn,
               req_num := of_nat rn\<rparr>) m
     in fold (\<lambda>i m. set_hdr i (\<lambda>_. (hdrs m 0)\<lparr>pkt_num := pkt_num (hdrs m 0) + of_nat i\<rparr>) m)
          [1..<num_pkts m] m1)"

definition enqueue_response :: "env \<Rightarrow> sref \<Rightarrow> mbref \<Rightarrow> rpc \<Rightarrow> rpc res" where
  "enqueue_response e r resp s =
    (if \<not> in_dispatch e s then Inr (s\<lparr>bgq_response := unlocked_push (r, resp) (bgq_response s)\<rparr>)
     else
       (let nreq = num_pkts (mbufs s (ReqBuf r));
            s1 = upd_slot r (\<lambda>sl. sl\<lparr>sav_num_req_pkts := nreq\<rparr>) s
        in bindE (get_slot r s) (\<lambda>_. bindE (bury_req_msgbuf_server_st e r s1) (\<lambda>s2.
           bindE (get_sess (fst r) s2) (\<lambda>se. bindE (get_slot r s2) (\<lambda>sl.
           if \<not> is_connected se
           then assertE (se_state se = kResetInProgress) (assertE (si_req_type sl \<noteq> kInvalidReqType)
             (Inr (upd_slot r (\<lambda>sl. sl\<lparr>si_req_type := kInvalidReqType\<rparr>) s2)))
           else
             (let s3 = upd_mbuf resp (fill_resp_hdrs (si_req_type sl) (remote_session_num se)
                        (sub64 (sav_num_req_pkts sl) 1) (cur_req_num sl)) s2
              in assertE (tx_msgbuf sl = None)
                (let s4 = upd_slot r (\<lambda>sl. sl\<lparr>tx_msgbuf := Some resp\<rparr>) s3
                 in assertE (si_req_type sl \<noteq> kInvalidReqType)
                   (enqueue_pkt_tx_burst_st e r 0 None
                     (upd_slot r (\<lambda>sl. sl\<lparr>si_req_type := kInvalidReqType\<rparr>) s4))))))))))"

definition process_rfr_st :: "env \<Rightarrow> sref \<Rightarrow> pkthdr \<Rightarrow> rpc \<Rightarrow> rpc res" where
  "process_rfr_st e r h s = assertE (in_dispatch e s)
    (bindE (get_slot r s) (\<lambda>sl. assertE (\<not> is_client_slot sl)
      (let rn = unat (req_num h); pn = unat (pkt_num h)
       in assertE (rn \<le> cur_req_num sl)
         (if \<not> (rn = cur_req_num sl \<and> pn = si_num_rx sl)
          then (if rn < cur_req_num sl \<or> si_num_rx sl < pn then Inr s
                else bindE (enqueue_pkt_tx_burst_st e r (resp_ntoi pn (sav_num_req_pkts sl)) None s)
                       (drain_tx_batch_and_dma_queue e))
          else enqueue_pkt_tx_burst_st e r (resp_ntoi pn (sav_num_req_pkts sl)) None
                 (upd_slot r (\<lambda>sl. sl\<lparr>si_num_rx := si_num_rx sl + 1\<rparr>) s)))))"

subsection \<open>Packet reception\<close>

definition process_pkt :: "env \<Rightarrow> packet \<Rightarrow> rpc \<Rightarrow> rpc res" where
  "process_pkt e p s =
    (let ring_addr = rx_ring_addr e (rx_ring_head s); h = p_hdr p;
         s1 = s\<lparr>rx_ring_head := (rx_ring_head s + 1) mod kNumRxRingEntries\<rparr>
     in if \<not> check_magic h then Inr s1
        else assertE (unat (msg_size h) \<le> kMaxMsgSize (cfg e))
          (if length (session_vec s1) \<le> unat (dest_session_num h) then Inr s1
           else (case session_vec s1 ! unat (dest_session_num h) of
               None \<Rightarrow> Inr s1
             | Some se \<Rightarrow>
                 if \<not> is_connected se then Inr s1
                 else
                   (let r = (unat (dest_session_num h), unat (req_num h) mod kSessionReqWindow);
                        rx_tsc = ev_loop_tsc s1
                    in (case pkt_type h of
                          kReq \<Rightarrow> if unat (msg_size h) \<le> kMaxDataPerPkt (cfg e)
                                  then process_small_req_st e r ring_addr p s1
                                  else process_large_req_one_st e r p s1
                        | kResp \<Rightarrow> process_resp_one_st e r p rx_tsc s1
                        | kRFR \<Rightarrow> process_rfr_st e r h s1
                        | kExplCR \<Rightarrow> process_expl_cr_st e r h rx_tsc s1)))))"

definition process_comps_st :: "env \<Rightarrow> packet list \<Rightarrow> rpc \<Rightarrow> rpc res" where
  "process_comps_st e pkts s = assertE (in_dispatch e s)
    (if pkts = [] then Inr s
     else bindE (foldE (process_pkt e) pkts s) (\<lambda>s1.
       Inr (s1\<lparr>recvs_posted := recvs_posted s1 + length pkts\<rparr>)))"

end
