(* ===== verification/Rpc_Queues.thy ===== *)
theory Rpc_Queues
  imports Rpc_Datapath
begin

section \<open>Queues and packet loss (\<open>rpc_queues.cc\<close>, datapath part of \<open>rpc_pkt_loss.cc\<close>)\<close>

text \<open>
  The stall queue, the ready queue of the wheel, the queues filled by background threads, and
  retransmission. The scan of active RPCs follows the links of the intrusive list.
\<close>

subsection \<open>Queue handlers\<close>

definition kick_pending :: "env \<Rightarrow> sref \<Rightarrow> rpc \<Rightarrow> rpc res" where
  "kick_pending e r s = bindE (get_slot r s) (\<lambda>sl. bindE (req_pkts_pending sl s) (\<lambda>pending.
    if pending then kick_req_st e r s else kick_rfr_st e r s))"

definition process_stalled_one :: "env \<Rightarrow> sref \<Rightarrow> rpc \<times> sref list \<Rightarrow> (rpc \<times> sref list) res" where
  "process_stalled_one e r = (\<lambda>(s, kept). bindE (get_sess (fst r) s) (\<lambda>se.
    if 0 < credits se then bindE (kick_pending e r s) (\<lambda>s1. Inr (s1, kept))
    else Inr (s, kept @ [r])))"

definition process_credit_stall_queue_st :: "env \<Rightarrow> rpc \<Rightarrow> rpc res" where
  "process_credit_stall_queue_st e s = assertE (in_dispatch e s)
    (bindE (foldE (process_stalled_one e) (stallq s) (s, [])) (\<lambda>(s1, kept).
      Inr (s1\<lparr>stallq := kept\<rparr>)))"

definition process_ready_one :: "env \<Rightarrow> rpc \<Rightarrow> rpc res" where
  "process_ready_one e s = (case ready_queue (tw s) of
      [] \<Rightarrow> Inl OutOfRange
    | ent # rest \<Rightarrow>
        (let r = we_sslot ent; pn = unat (we_pkt_num ent); crd_i = pn mod kSessionCredits
         in bindE (get_slot r s) (\<lambda>sl. bindE (tx_buf sl s) (\<lambda>m.
           bindE (if pn < num_pkts m then enqueue_pkt_tx_burst_st e r pn (Some (r, crd_i)) s
                  else enqueue_rfr_st e r (hdrs (mbufs s (resp_msgbuf sl)) 0) s) (\<lambda>s1.
             Inr ((upd_slot r (\<lambda>sl. sl\<lparr>wheel_count := sub64 (wheel_count sl) 1,
                                       in_wheel := (in_wheel sl)[crd_i := False]\<rparr>) s1)
                  \<lparr>tw := (tw s1)\<lparr>ready_queue := tl (ready_queue (tw s1))\<rparr>\<rparr>))))))"

definition process_wheel_st :: "env \<Rightarrow> rpc \<Rightarrow> rpc res" where
  "process_wheel_st e s = assertE (in_dispatch e s)
    (let (cur_tsc, s1) = rdtsc e s
     in bindE (reap (cfg e) cur_tsc (tw s1)) (\<lambda>w.
       let s2 = s1\<lparr>tw := w\<rparr>
       in forE (length (ready_queue w)) (\<lambda>_. process_ready_one e) s2))"

definition process_bg_request_one :: "env \<Rightarrow> rpc \<Rightarrow> rpc res" where
  "process_bg_request_one e s = bindE (unlocked_pop (bgq_request s)) (\<lambda>(args, q).
    enqueue_request e (er_session_num args) (er_req_type args) (er_req_msgbuf args) (er_resp_msgbuf args)
      (er_cont_func args) (er_tag args) (er_cont_etid args) (s\<lparr>bgq_request := q\<rparr>))"

definition process_bg_queues_enqueue_request_st :: "env \<Rightarrow> rpc \<Rightarrow> rpc res" where
  "process_bg_queues_enqueue_request_st e s = assertE (in_dispatch e s)
    (forE (mt_size (bgq_request s)) (\<lambda>_. process_bg_request_one e) s)"

definition process_bg_response_one :: "env \<Rightarrow> rpc \<Rightarrow> rpc res" where
  "process_bg_response_one e s = bindE (unlocked_pop (bgq_response s)) (\<lambda>((r, resp), q).
    enqueue_response e r resp (s\<lparr>bgq_response := q\<rparr>))"

definition process_bg_queues_enqueue_response_st :: "env \<Rightarrow> rpc \<Rightarrow> rpc res" where
  "process_bg_queues_enqueue_response_st e s = assertE (in_dispatch e s)
    (forE (mt_size (bgq_response s)) (\<lambda>_. process_bg_response_one e) s)"

subsection \<open>Packet loss\<close>

definition pkt_loss_retransmit_st :: "env \<Rightarrow> sref \<Rightarrow> rpc \<Rightarrow> rpc res" where
  "pkt_loss_retransmit_st e r s = assertE (in_dispatch e s)
    (bindE (get_slot r s) (\<lambda>sl. assertE (tx_msgbuf sl \<noteq> None)
    (bindE (get_sess (fst r) s) (\<lambda>se.
      let delta = sub64 (num_tx sl) (num_rx sl)
      in assertE (credits se + delta \<le> kSessionCredits)
        (if delta = 0 then Inr s
         else assertE (r \<notin> set (stallq s))
           (if 0 < wheel_count sl then Inr (s\<lparr>st_still_in_wheel := st_still_in_wheel s + 1\<rparr>)
            else
              (let s1 = s\<lparr>st_num_re_tx := st_num_re_tx s + 1\<rparr>;
                   s2 = upd_sess (fst r) (\<lambda>se. se\<lparr>se_num_re_tx := se_num_re_tx se + 1,
                                                  credits := credits se + delta\<rparr>) s1;
                   s3 = upd_slot r (\<lambda>sl. sl\<lparr>num_tx := num_rx sl, progress_tsc := ev_loop_tsc s2\<rparr>) s2
               in kick_pending e r s3)))))))"

text \<open>
  One step of the scan. The branch for a failed server is disabled in the source (\<open>if (false)\<close>).
\<close>

definition scan_one :: "env \<Rightarrow> sref \<Rightarrow> rpc \<Rightarrow> rpc res" where
  "scan_one e r s = bindE (get_slot r s) (\<lambda>sl.
    if num_tx sl = num_rx sl then Inr s
    else if rpc_rto_cycles e < sub64 (ev_loop_tsc s) (progress_tsc sl)
    then bindE (pkt_loss_retransmit_st e r s) (drain_tx_batch_and_dma_queue e)
    else Inr s)"

text \<open>
  The loop over the linked list. The list has at most one node for each session slot, so the bound
  given to \<open>scan_loop\<close> by \<open>scan_active_rpcs\<close> is enough for every well-formed list.
\<close>

fun scan_loop :: "nat \<Rightarrow> env \<Rightarrow> anode \<Rightarrow> rpc \<Rightarrow> rpc res" where
  "scan_loop fuel e TailSentinel s = Inr s"
| "scan_loop fuel e RootSentinel s = Inl OutOfRange"
| "scan_loop 0 e (ANode r) s = Inl NoReturn"
| "scan_loop (Suc fuel) e (ANode r) s =
    bindE (scan_one e r s) (\<lambda>s1. scan_loop fuel e (anext s1 (ANode r)) s1)"

definition scan_active_rpcs :: "env \<Rightarrow> rpc \<Rightarrow> rpc res" where
  "scan_active_rpcs e s = assertE (in_dispatch e s)
    (scan_loop (kSessionReqWindow * length (session_vec s)) e (anext s RootSentinel) s)"

end
