(* ===== verification/Uri_Helpers.thy ===== *)
theory Uri_Helpers
  imports Sm_Types
begin

section \<open>URIs and the process file (\<open>util/autorun_helpers.h\<close>)\<close>

text \<open>
  Tokenising, parsing of \<open>hostname:port\<close>, and reading a line of the process file. Input streams are
  the rest of their characters and the end-of-file flag; \<open>std::stoi\<close> is written out, with both of its
  exceptions as \<open>RuntimeError\<close>.
\<close>

subsection \<open>Standard library functions used\<close>

definition is_digit :: "char \<Rightarrow> bool" where
  "is_digit c \<longleftrightarrow> 48 \<le> (of_char c :: nat) \<and> (of_char c :: nat) \<le> 57"

definition is_space :: "char \<Rightarrow> bool" where
  "is_space c \<longleftrightarrow> c = CHR '' '' \<or> (9 \<le> (of_char c :: nat) \<and> (of_char c :: nat) \<le> 13)"

definition dec_val :: "string \<Rightarrow> nat" where
  "dec_val ds = foldl (\<lambda>v c. 10 * v + (of_char c - 48)) 0 ds"

definition stoi :: "string \<Rightarrow> int res" where
  "stoi str =
    (let s1 = dropWhile is_space str;
         neg = (s1 \<noteq> [] \<and> hd s1 = CHR ''-'');
         s2 = (if s1 \<noteq> [] \<and> (hd s1 = CHR ''-'' \<or> hd s1 = CHR ''+'') then tl s1 else s1);
         ds = takeWhile is_digit s2;
         v = (if neg then - int (dec_val ds) else int (dec_val ds))
     in rt_assert (ds \<noteq> []) (rt_assert (- (2 ^ 31) \<le> v \<and> v < 2 ^ 31) (Inr v)))"

lemma drop_token_shorter: "s \<noteq> [] \<Longrightarrow> length (tl (dropWhile P s)) < length s"
  using length_dropWhile_le [of P s] by (cases s) auto

text \<open>\<open>getline(ss, token, d)\<close> until it fails: no token follows a delimiter at the end.\<close>

function split_str :: "char \<Rightarrow> string \<Rightarrow> string list" where
  "split_str d s = (if s = [] then []
    else takeWhile (\<lambda>c. c \<noteq> d) s # split_str d (tl (dropWhile (\<lambda>c. c \<noteq> d) s)))"
  by pat_completeness auto

termination by (relation "measure (length \<circ> snd)") (auto simp: drop_token_shorter simp del: length_tl)

declare split_str.simps [simp del]

subsection \<open>URIs\<close>

definition is_valid_process_line :: "string \<Rightarrow> bool res" where
  "is_valid_process_line line = rt_assert (line \<noteq> [])
    (if hd line = CHR '' '' \<or> last line = CHR '' '' then Inr False
     else let splits = split_str (CHR '' '') line
          in Inr (length splits = 3 \<and> splits ! 0 \<noteq> [] \<and> splits ! 1 \<noteq> [] \<and> splits ! 2 \<noteq> []))"

definition is_valid_uri :: "string \<Rightarrow> bool" where
  "is_valid_uri u = (let splits = split_str (CHR '':'') u
    in length splits = 2 \<and> splits ! 0 \<noteq> [] \<and> splits ! 1 \<noteq> [])"

definition extract_hostname_from_uri :: "string \<Rightarrow> string res" where
  "extract_hostname_from_uri u = assertE (is_valid_uri u) (Inr (takeWhile (\<lambda>c. c \<noteq> CHR '':'') u))"

definition extract_udp_port_from_uri :: "string \<Rightarrow> u16 res" where
  "extract_udp_port_from_uri u = assertE (is_valid_uri u)
    (bindE (stoi (tl (dropWhile (\<lambda>c. c \<noteq> CHR '':'') u))) (\<lambda>v. Inr (of_int v)))"

definition split_uri :: "string \<Rightarrow> (string \<times> u16) res" where
  "split_uri u = assertE (is_valid_uri u)
    (bindE (stoi (tl (dropWhile (\<lambda>c. c \<noteq> CHR '':'') u))) (\<lambda>v.
      Inr (takeWhile (\<lambda>c. c \<noteq> CHR '':'') u, of_int v)))"

subsection \<open>The process file\<close>

text \<open>
  \<open>std::getline\<close> on a file: a stream whose end-of-file flag is set is not read and the string keeps
  its old value; otherwise the string is replaced by the characters up to the next newline, and the
  flag is set when the end is reached before one.
\<close>

definition getline_file :: "string \<times> bool \<times> string \<Rightarrow> string \<times> bool \<times> string" where
  "getline_file = (\<lambda>(rest, eof, s).
    if eof then (rest, eof, s)
    else (tl (dropWhile (\<lambda>c. c \<noteq> CHR ''\<newline>'') rest), CHR ''\<newline>'' \<notin> set rest,
          takeWhile (\<lambda>c. c \<noteq> CHR ''\<newline>'') rest))"

definition get_line_n :: "string option \<Rightarrow> nat \<Rightarrow> string res" where
  "get_line_n file n = (case file of
      None \<Rightarrow> Inl RuntimeError
    | Some contents \<Rightarrow>
        bindE (forE n (\<lambda>_ st. let st' = getline_file st in rt_assert (snd (snd st') \<noteq> []) (Inr st'))
          (contents, False, [])) (\<lambda>st.
        let st' = getline_file st in rt_assert (snd (snd st') \<noteq> []) (Inr (snd (snd st')))))"

definition get_hostname_for_process :: "string option \<Rightarrow> nat \<Rightarrow> string res" where
  "get_hostname_for_process file i = bindE (get_line_n file i) (\<lambda>line.
    bindE (is_valid_process_line line) (\<lambda>ok. rt_assert ok (Inr (split_str (CHR '' '') line ! 0))))"

definition get_udp_port_for_process :: "string option \<Rightarrow> nat \<Rightarrow> string res" where
  "get_udp_port_for_process file i = bindE (get_line_n file i) (\<lambda>line.
    let splits = split_str (CHR '' '') line in rangeE (1 < length splits) (Inr (splits ! 1)))"

definition get_uri_for_process :: "string option \<Rightarrow> nat \<Rightarrow> string res" where
  "get_uri_for_process file i = bindE (get_hostname_for_process file i) (\<lambda>h.
    bindE (get_udp_port_for_process file i) (\<lambda>p. Inr (h @ '':'' @ p)))"

subsection \<open>Decimal numbers\<close>

lemma dec_val_snoc: "dec_val (ds @ [c]) = 10 * dec_val ds + (of_char c - 48)"
  by (simp add: dec_val_def)

lemma digit_char: "n < 10 \<Longrightarrow> (of_char (char_of (n + 48) :: char) :: nat) = n + 48"
  by (simp add: of_char_of)

lemma dec_str_digits: "\<forall>c \<in> set (dec_str n). is_digit c"
proof (induction n rule: dec_str.induct)
  case (1 n)
  then show ?case
    by (subst dec_str.simps) (auto simp: is_digit_def digit_char)
qed

lemma dec_str_nonempty: "dec_str n \<noteq> []"
  by (subst dec_str.simps) simp

lemma dec_val_dec_str: "dec_val (dec_str n) = n"
proof (induction n rule: dec_str.induct)
  case (1 n)
  show ?case
  proof (cases "n < 10")
    case True
    then show ?thesis by (subst dec_str.simps) (simp add: dec_val_def digit_char)
  next
    case False
    then show ?thesis using 1 by (subst dec_str.simps) (simp add: dec_val_snoc digit_char)
  qed
qed

lemma digit_no_space: "is_digit c \<Longrightarrow> \<not> is_space c \<and> c \<noteq> CHR ''-'' \<and> c \<noteq> CHR ''+'' \<and> c \<noteq> CHR '':''"
  by (auto simp: is_digit_def is_space_def)

lemma stoi_dec_str:
  assumes "n < 2 ^ 31"
  shows "stoi (dec_str n) = Inr (int n)"
proof -
  obtain c cs where d: "dec_str n = c # cs" using dec_str_nonempty by (cases "dec_str n") auto
  have c: "\<not> is_space c" "c \<noteq> CHR ''-''" "c \<noteq> CHR ''+''"
    using digit_no_space [of c] dec_str_digits [of n] d by auto
  have "takeWhile is_digit (c # cs) = c # cs" using dec_str_digits [of n] d by (simp add: takeWhile_eq_all_conv)
  then show ?thesis using c d dec_val_dec_str [of n] assms by (simp add: stoi_def Let_def rt_assert_def)
qed

subsection \<open>Properties\<close>

lemma split_uri_tokens:
  assumes "CHR '':'' \<notin> set h" "h \<noteq> []" "CHR '':'' \<notin> set p" "p \<noteq> []"
  shows "split_str (CHR '':'') (h @ CHR '':'' # p) = [h, p]"
proof -
  have "takeWhile (\<lambda>c. c \<noteq> CHR '':'') (h @ CHR '':'' # p) = h"
    "dropWhile (\<lambda>c. c \<noteq> CHR '':'') (h @ CHR '':'' # p) = CHR '':'' # p"
    using assms(1) by (auto simp: takeWhile_append dropWhile_append)
  moreover have "takeWhile (\<lambda>c. c \<noteq> CHR '':'') p = p" "dropWhile (\<lambda>c. c \<noteq> CHR '':'') p = []"
    using assms(3) by (auto simp: takeWhile_eq_all_conv dropWhile_eq_Nil_conv)
  ultimately have "split_str (CHR '':'') (h @ CHR '':'' # p) = h # split_str (CHR '':'') p"
    "split_str (CHR '':'') p = p # split_str (CHR '':'') (tl [])"
    using assms(4) split_str.simps [of "CHR '':''" "h @ CHR '':'' # p"] split_str.simps [of "CHR '':''" p]
    by (metis append_is_Nil_conv list.distinct(1) list.sel(3))+
  then show ?thesis by (simp add: split_str.simps [of _ "[]"])
qed

text \<open>
  C?. Printing and parsing of an endpoint's URI are inverse: for every non-empty host name without a
  colon, the host name and the 16-bit port that \<open>extract_hostname_from_uri\<close> and
  \<open>extract_udp_port_from_uri\<close> (and \<open>split_uri\<close>) read from \<open>uri()\<close> are those of the endpoint, and no
  assertion or exception is raised.
\<close>

theorem uri_roundtrip:
  assumes "hostname e \<noteq> []" "CHR '':'' \<notin> set (hostname e)"
  shows "extract_hostname_from_uri (uri e) = Inr (hostname e) \<and>
    extract_udp_port_from_uri (uri e) = Inr (sm_udp_port e) \<and>
    split_uri (uri e) = Inr (hostname e, sm_udp_port e)"
proof -
  let ?p = "dec_str (unat (sm_udp_port e))"
  have p: "CHR '':'' \<notin> set ?p" using dec_str_digits digit_no_space by blast
  have u: "uri e = hostname e @ CHR '':'' # ?p" by (simp add: uri_def)
  have valid: "is_valid_uri (uri e)"
    unfolding u is_valid_uri_def using assms p dec_str_nonempty by (simp add: split_uri_tokens)
  have h: "takeWhile (\<lambda>c. c \<noteq> CHR '':'') (uri e) = hostname e"
    and d: "dropWhile (\<lambda>c. c \<noteq> CHR '':'') (uri e) = CHR '':'' # ?p"
    unfolding u using assms(2) by (auto simp: takeWhile_append dropWhile_append)
  have "unat (sm_udp_port e) < 2 ^ 31" using unsigned_less [of "sm_udp_port e", where 'a = nat] by simp
  then have "stoi ?p = Inr (int (unat (sm_udp_port e)))" by (rule stoi_dec_str)
  then show ?thesis
    using valid h d by (simp add: extract_hostname_from_uri_def extract_udp_port_from_uri_def split_uri_def)
qed

lemma demo_uri: "split_uri ''b:31850'' = Inr (''b'', 31850)"
  using split_uri_tokens [of "''b''" "''31850''"]
  by (simp add: split_uri_def is_valid_uri_def stoi_def is_digit_def is_space_def dec_val_def rt_assert_def)

theorem uri_roundtrip_witness:
  "split_uri (uri ((SessionEndpoint_init kRaw)\<lparr>hostname := ''node1'', sm_udp_port := 31850\<rparr>)) = Inr (''node1'', 31850)"
  using uri_roundtrip [of "(SessionEndpoint_init kRaw)\<lparr>hostname := ''node1'', sm_udp_port := 31850\<rparr>"] by simp

text \<open>
  Reading past the end of the process file: when the file does not end in a newline, asking for
  the line after the last one returns the last line again instead of failing, because \<open>std::getline\<close>
  does not touch its argument once the end has been reached.
\<close>

theorem get_line_past_end:
  assumes "l \<noteq> []" "CHR ''\<newline>'' \<notin> set l"
  shows "get_line_n (Some l) 1 = Inr l \<and> get_line_n (Some (l @ [CHR ''\<newline>''])) 1 = Inl RuntimeError"
proof -
  have "takeWhile (\<lambda>c. c \<noteq> CHR ''\<newline>'') l = l" "dropWhile (\<lambda>c. c \<noteq> CHR ''\<newline>'') l = []"
    using assms(2) by (auto simp: takeWhile_eq_all_conv dropWhile_eq_Nil_conv)
  then show ?thesis
    using assms by (simp add: get_line_n_def getline_file_def forE_def rt_assert_def Let_def
        takeWhile_append dropWhile_append takeWhile_eq_Nil_iff hd_in_set)
qed

theorem get_line_past_end_witness: "get_line_n (Some ''node1 31850 0'') 1 = Inr ''node1 31850 0''"
  using get_line_past_end [of "''node1 31850 0''"] by simp

end
