(* ===== verification/Rpc_Sm.thy ===== *)
theory Rpc_Sm
  imports Rpc_Queues Uri_Helpers
begin

section \<open>Session management (\<open>rpc_sm_api.cc\<close>, \<open>rpc_sm_helpers.cc\<close> and the handlers)\<close>

text \<open>
  Creating and destroying sessions, the handlers of connect and disconnect packets, resets, and fault
  injection. A \<open>Session *\<close> is the position of the session in \<open>session_vec_\<close>; the 16-bit session number
  stored in the session is its own value, so that the truncation of \<open>session_vec_.size()\<close> shows.
  Packets handed to the UDP client are appended to \<open>udp_sent\<close> with their destination; calls of the
  session-management callback are recorded in \<open>app_events\<close>. Results of the user functions are the
  return values of the code, error numbers included.
\<close>

abbreviation (input) EPERM :: int where "EPERM \<equiv> 1"
abbreviation (input) ENOMEM :: int where "ENOMEM \<equiv> 12"
abbreviation (input) EBUSY :: int where "EBUSY \<equiv> 16"
abbreviation (input) EINVAL :: int where "EINVAL \<equiv> 22"
abbreviation (input) EALREADY :: int where "EALREADY \<equiv> 114"
abbreviation (input) kTesting :: bool where "kTesting \<equiv> False"

definition u16_of :: "nat \<Rightarrow> nat" where
  "u16_of n = n mod 65536"

subsection \<open>Ring entries\<close>

definition have_ring_entries :: "rpc \<Rightarrow> bool" where
  "have_ring_entries s \<longleftrightarrow> kSessionCredits \<le> ring_entries_available s"

definition alloc_ring_entries :: "rpc \<Rightarrow> rpc res" where
  "alloc_ring_entries s = assertE (have_ring_entries s)
    (Inr (s\<lparr>ring_entries_available := sub64 (ring_entries_available s) kSessionCredits\<rparr>))"

definition free_ring_entries :: "rpc \<Rightarrow> rpc res" where
  "free_ring_entries s =
    (let s1 = s\<lparr>ring_entries_available := ring_entries_available s + kSessionCredits\<rparr>
     in assertE (ring_entries_available s1 \<le> kNumRxRingEntries) (Inr s1))"

subsection \<open>Helpers\<close>

definition sm_pkt_udp_tx_st :: "SmPkt \<Rightarrow> rpc \<Rightarrow> rpc" where
  "sm_pkt_udp_tx_st p s =
    (let dst = (if sp_is_req p then sp_server p else sp_client p)
     in s\<lparr>udp_sent := udp_sent s @ [(hostname dst, sm_udp_port dst, p)]\<rparr>)"

definition sm_req_of :: "Session \<Rightarrow> SmPkt" where
  "sm_req_of se = \<lparr>sp_pkt_type = (if se_state se = kConnectInProgress then kConnectReq else kDisconnectReq),
    sp_err_type = kNoError, sp_uniq_token = se_uniq_token se, sp_client = se_client se, sp_server = se_server se\<rparr>"

definition send_sm_req_st :: "env \<Rightarrow> nat \<Rightarrow> rpc \<Rightarrow> rpc res" where
  "send_sm_req_st e sn s = assertE (in_dispatch e s)
    (bindE (get_sess sn s) (\<lambda>se.
      let s1 = s\<lparr>sm_pending_reqs := insort_insert (local_session_num se) (sm_pending_reqs s)\<rparr>;
          (now, s2) = rdtsc e s1;
          s3 = upd_sess sn (\<lambda>se. se\<lparr>sm_req_ts := now\<rparr>) s2
      in Inr (sm_pkt_udp_tx_st (sm_req_of se) s3)))"

text \<open>The application's callback.\<close>

definition sm_event :: "env \<Rightarrow> nat \<Rightarrow> SmEventType \<Rightarrow> SmErrType \<Rightarrow> rpc \<Rightarrow> rpc res" where
  "sm_event e n ev err s = sm_handler e n ev err (s\<lparr>app_events := app_events s @ [(n, ev, err)]\<rparr>)"

definition free_pre_resp :: "env \<Rightarrow> nat \<Rightarrow> nat \<Rightarrow> rpc \<Rightarrow> rpc res" where
  "free_pre_resp e sn i s =
    bindE (free_msg_buffer (bsrl_r0 e) (mbufs s (PreResp (sn, i))) (huge_al s)) (\<lambda>h. Inr (s\<lparr>huge_al := h\<rparr>))"

text \<open>
  \<open>bury_session_st\<close>: the entry that the session's own number names becomes null (\<open>at\<close> throws when it
  is out of range), and the deleted session can no longer be reached from its own position.
\<close>

definition bury_session_st :: "env \<Rightarrow> nat \<Rightarrow> rpc \<Rightarrow> rpc res" where
  "bury_session_st e sn s = assertE (in_dispatch e s)
    (bindE (get_sess sn s) (\<lambda>se.
     bindE (if is_client se then Inr s
            else foldE (free_pre_resp e sn) [0..<length (sslot_arr se)] s) (\<lambda>s1.
       rt_assert (local_session_num se < length (session_vec s1))
         (Inr (s1\<lparr>session_vec := (session_vec s1)[local_session_num se := None, sn := None]\<rparr>)))))"

subsection \<open>Functions of the user\<close>

definition new_client_session :: "env \<Rightarrow> string \<Rightarrow> u16 \<Rightarrow> u8 \<Rightarrow> rpc \<Rightarrow> (Session \<times> rpc) res" where
  "new_client_session e rem_hostname rem_port rem_rpc_id s =
    (let token = slow_rand e (rand_i s); s1 = s\<lparr>rand_i := rand_i s + 1\<rparr>;
         (now, s2) = rdtsc e s1; s3 = snd (rdtsc e s2); num = u16_of (length (session_vec s))
     in bindE (session_init True token (freq_ghz e) (bandwidth e) now (heap_junk e) (heap_old_tt e)) (\<lambda>se.
       bindE (strcpy_hostname (nexus_hostname e)) (\<lambda>lh. bindE (strcpy_hostname rem_hostname) (\<lambda>rh.
       Inr (se\<lparr>se_state := kConnectInProgress, local_session_num := num,
           se_client := (se_client se)\<lparr>transport_type := my_transport_type e, hostname := lh,
             sm_udp_port := nexus_sm_udp_port e, ep_rpc_id := my_rpc_id e, ep_session_num := of_nat num,
             ep_routing_info := local_rinfo e\<rparr>,
           se_server := (se_server se)\<lparr>transport_type := my_transport_type e, hostname := rh,
             sm_udp_port := rem_port, ep_rpc_id := rem_rpc_id\<rparr>\<rparr>, s3)))))"

definition create_session_st :: "env \<Rightarrow> string \<Rightarrow> u8 \<Rightarrow> rpc \<Rightarrow> (int \<times> rpc) res" where
  "create_session_st e remote_uri rem_rpc_id s =
    (if \<not> in_dispatch e s then Inr (- EPERM, s)
     else bindE (extract_hostname_from_uri remote_uri) (\<lambda>rem_hostname.
       bindE (extract_udp_port_from_uri remote_uri) (\<lambda>rem_port.
       if length rem_hostname = 0 \<or> kMaxHostnameLen < length rem_hostname then Inr (- EINVAL, s)
       else if rem_hostname = nexus_hostname e \<and> rem_rpc_id = my_rpc_id e \<and> rem_port = nexus_sm_udp_port e
       then Inr (- EINVAL, s)
       else if \<not> have_ring_entries s then Inr (- ENOMEM, s)
       else bindE (new_client_session e rem_hostname rem_port rem_rpc_id s) (\<lambda>(se, s1).
         bindE (alloc_ring_entries s1) (\<lambda>s2.
         bindE (send_sm_req_st e (length (session_vec s2)) (s2\<lparr>session_vec := session_vec s2 @ [Some se]\<rparr>)) (\<lambda>s3.
           Inr (int (local_session_num se), s3)))))))"

definition slot_idle_ok :: "rpc \<Rightarrow> nat \<Rightarrow> nat \<Rightarrow> SSlot \<Rightarrow> bool" where
  "slot_idle_ok s sn i sl \<longleftrightarrow> tx_msgbuf sl = None \<and>
    (\<not> is_client_slot sl \<longrightarrow> mb_buf (mbufs s (ReqBuf (sn, i))) = None)"

definition destroy_session_st :: "env \<Rightarrow> int \<Rightarrow> rpc \<Rightarrow> (int \<times> rpc) res" where
  "destroy_session_st e session_num s =
    (if \<not> in_dispatch e s then Inr (- EPERM, s)
     else if \<not> (0 \<le> session_num \<and> nat session_num < length (session_vec s)) then Inr (- EINVAL, s)
     else let sn = nat session_num in (case session_vec s ! sn of
         None \<Rightarrow> Inr (- EPERM, s)
       | Some se \<Rightarrow>
           if \<not> is_client se then Inr (- EINVAL, s)
           else if fv_size (sslot_free_vec se) \<noteq> kSessionReqWindow then Inr (- EBUSY, s)
           else assertE (\<forall>i < length (sslot_arr se). slot_idle_ok s sn i (sslot_arr se ! i))
             (case se_state se of
                kConnectInProgress \<Rightarrow> Inr (- EPERM, s)
              | kConnected \<Rightarrow> bindE (send_sm_req_st e sn
                  (upd_sess sn (\<lambda>se. se\<lparr>se_state := kDisconnectInProgress\<rparr>) s)) (\<lambda>s1. Inr (0, s1))
              | kDisconnectInProgress \<Rightarrow> Inr (- EALREADY, s)
              | kResetInProgress \<Rightarrow> Inr (0, s))))"

definition num_active_sessions_st :: "env \<Rightarrow> rpc \<Rightarrow> nat res" where
  "num_active_sessions_st e s = assertE (in_dispatch e s)
    (Inr (foldl (\<lambda>ret x. if x \<noteq> None then ret + 1 else ret) 0 (session_vec s)))"

subsection \<open>Connect handlers\<close>

definition sm_reply :: "SmPkt \<Rightarrow> SmErrType \<Rightarrow> rpc \<Rightarrow> rpc res" where
  "sm_reply p err s = bindE (sm_construct_resp p err) (\<lambda>resp. Inr (sm_pkt_udp_tx_st resp s))"

definition resolve :: "env \<Rightarrow> routing_info \<Rightarrow> rpc \<Rightarrow> routing_info option" where
  "resolve e ri s = (if kTesting \<and> fail_resolve_rinfo s then None else resolve_rinfo e ri)"

text \<open>
  The preallocated responses of a new server session. On failure those already allocated are freed and
  the result is \<open>False\<close>.
\<close>

fun alloc_pre_resps :: "env \<Rightarrow> nat \<Rightarrow> nat list \<Rightarrow> rpc \<Rightarrow> (bool \<times> rpc) res" where
  "alloc_pre_resps e sn [] s = Inr (True, s)"
| "alloc_pre_resps e sn (i # is) s =
    bindE (alloc_msg_buffer (cfg e) (bsrl_r0 e) (reg_mr e) (mem_hdrs e) (mem_bytes e) (pre_resp_msgbuf_size s)
        (huge_al s)) (\<lambda>(mo, h).
      case mo of
        Some m \<Rightarrow> alloc_pre_resps e sn is (upd_mbuf (PreResp (sn, i)) (\<lambda>_. m) (s\<lparr>huge_al := h\<rparr>))
      | None \<Rightarrow> bindE (foldE (\<lambda>j s. assertE (mb_buf (mbufs s (PreResp (sn, j))) \<noteq> None) (free_pre_resp e sn j s))
                  [0..<i] (s\<lparr>huge_al := h\<rparr>)) (\<lambda>s1. Inr (False, s1)))"

definition new_server_session :: "env \<Rightarrow> SmPkt \<Rightarrow> routing_info \<Rightarrow> nat \<Rightarrow> Session \<Rightarrow> Session" where
  "new_server_session e p client_rinfo num se =
    se\<lparr>se_state := kConnected,
       se_server := (sp_server p)\<lparr>ep_session_num := of_nat num, ep_routing_info := local_rinfo e\<rparr>,
       se_client := (sp_client p)\<lparr>ep_routing_info := client_rinfo\<rparr>,
       local_session_num := num, remote_session_num := unat (ep_session_num (sp_client p))\<rparr>"

definition accept_connect :: "env \<Rightarrow> SmPkt \<Rightarrow> routing_info \<Rightarrow> rpc \<Rightarrow> rpc res" where
  "accept_connect e p client_rinfo s =
    bindE (session_init False (sp_uniq_token p) (freq_ghz e) (bandwidth e) 0 (heap_junk e) (heap_old_tt e)) (\<lambda>se0.
      let sn = length (session_vec s)
      in bindE (alloc_pre_resps e sn [0..<kSessionReqWindow] s) (\<lambda>(ok, s1).
        if \<not> ok then sm_reply p kOutOfMemory s1
        else
          (let num = u16_of sn; se = new_server_session e p client_rinfo num se0;
               s2 = s1\<lparr>conn_req_token_map := (conn_req_token_map s1)(se_uniq_token se \<mapsto> num)\<rparr>
           in bindE (alloc_ring_entries s2) (\<lambda>s3.
             let s4 = s3\<lparr>session_vec := session_vec s3 @ [Some se]\<rparr>
             in bindE (sm_construct_resp p kNoError) (\<lambda>resp.
               Inr (sm_pkt_udp_tx_st (resp\<lparr>sp_server := se_server se\<rparr>) s4))))))"

definition handle_connect_req_st :: "env \<Rightarrow> SmPkt \<Rightarrow> rpc \<Rightarrow> rpc res" where
  "handle_connect_req_st e p s = assertE (in_dispatch e s)
    (assertE (sp_pkt_type p = kConnectReq \<and> ep_rpc_id (sp_server p) = my_rpc_id e)
    (case conn_req_token_map s (sp_uniq_token p) of
       Some srv_session_num \<Rightarrow> assertE (srv_session_num < length (session_vec s))
         (case session_vec s ! srv_session_num of
            None \<Rightarrow> Inr s
          | Some se \<Rightarrow>
              if se_state se \<noteq> kConnected then Inr s
              else bindE (sm_construct_resp p kNoError) (\<lambda>resp.
                Inr (sm_pkt_udp_tx_st (resp\<lparr>sp_server := se_server se\<rparr>) s)))
     | None \<Rightarrow>
         if transport_type (sp_server p) \<noteq> my_transport_type e then sm_reply p kInvalidTransport s
         else if \<not> have_ring_entries s then sm_reply p kRingExhausted s
         else (case resolve e (ep_routing_info (sp_client p)) s of
             None \<Rightarrow> sm_reply p kRoutingResolutionFailure s
           | Some client_rinfo \<Rightarrow> accept_connect e p client_rinfo s)))"

definition connect_succeeded :: "env \<Rightarrow> nat \<Rightarrow> SmPkt \<Rightarrow> routing_info \<Rightarrow> rpc \<Rightarrow> rpc res" where
  "connect_succeeded e sn p srv_rinfo s =
    (let (now, s1) = rdtsc e s;
         s2 = upd_sess sn (\<lambda>se. se\<lparr>se_server := (sp_server p)\<lparr>ep_routing_info := srv_rinfo\<rparr>,
                remote_session_num := unat (ep_session_num (sp_server p)), se_state := kConnected,
                prev_desired_tx_tsc := now\<rparr>) s1
     in bindE (get_sess sn s2) (\<lambda>se. sm_event e (local_session_num se) kEvConnected kNoError s2))"

definition handle_connect_resp_st :: "env \<Rightarrow> SmPkt \<Rightarrow> rpc \<Rightarrow> rpc res" where
  "handle_connect_resp_st e p s = assertE (in_dispatch e s)
    (assertE (sp_pkt_type p = kConnectResp \<and> ep_rpc_id (sp_client p) = my_rpc_id e)
    (let sn = unat (ep_session_num (sp_client p))
     in assertE (sn < length (session_vec s))
       (case session_vec s ! sn of
          None \<Rightarrow> Inr s
        | Some se \<Rightarrow>
            if se_state se \<noteq> kConnectInProgress then Inr s
            else assertE (is_client se \<and> ep_eq (se_client se) (sp_client p))
              (assertE (hostname (se_server se) = hostname (sp_server p))
              (assertE (ep_rpc_id (se_server se) = ep_rpc_id (sp_server p))
              (assertE (ep_session_num (se_server se) = kInvalidSessionNum)
              (if sp_err_type p = kInvalidRemoteRpcId \<and> retry_connect_on_invalid_rpc_id s
               then Inr (s\<lparr>sm_pending_reqs := insort_insert (local_session_num se) (sm_pending_reqs s)\<rparr>)
               else if sp_err_type p \<noteq> kNoError
               then bindE (free_ring_entries s) (\<lambda>s1.
                 bindE (sm_event e (local_session_num se) kEvConnectFailed (sp_err_type p) s1)
                   (bury_session_st e sn))
               else (case resolve e (ep_routing_info (sp_server p)) s of
                   None \<Rightarrow> send_sm_req_st e sn
                     (upd_sess sn (\<lambda>se. se\<lparr>se_server := sp_server p, se_state := kDisconnectInProgress\<rparr>) s)
                 | Some srv_rinfo \<Rightarrow> connect_succeeded e sn p srv_rinfo s))))))))"

subsection \<open>Disconnect handlers\<close>

definition slot_resp_sent :: "rpc \<Rightarrow> nat \<Rightarrow> nat \<Rightarrow> SSlot \<Rightarrow> bool" where
  "slot_resp_sent s sn i sl \<longleftrightarrow> is_buried (mbufs s (ReqBuf (sn, i))) \<and> si_req_type sl = kInvalidReqType \<and>
    (case tx_msgbuf sl of None \<Rightarrow> True
     | Some m \<Rightarrow> si_num_rx sl = sub64 (sav_num_req_pkts sl + num_pkts (mbufs s m)) 1)"

definition handle_disconnect_req_st :: "env \<Rightarrow> SmPkt \<Rightarrow> rpc \<Rightarrow> rpc res" where
  "handle_disconnect_req_st e p s = assertE (in_dispatch e s)
    (assertE (sp_pkt_type p = kDisconnectReq \<and> ep_rpc_id (sp_server p) = my_rpc_id e)
    (let sn = unat (ep_session_num (sp_server p))
     in assertE (sn < length (session_vec s))
       (case session_vec s ! sn of
          None \<Rightarrow> sm_reply p kNoError s
        | Some se \<Rightarrow> assertE (\<not> is_client se \<and> is_connected se)
            (assertE (ep_eq (se_server se) (sp_server p)) (assertE (ep_eq (se_client se) (sp_client p))
            (assertE (\<forall>i < length (sslot_arr se). slot_resp_sent s sn i (sslot_arr se ! i))
              (bindE (free_ring_entries s) (\<lambda>s1. bindE (sm_reply p kNoError s1) (bury_session_st e sn)))))))))"

definition handle_disconnect_resp_st :: "env \<Rightarrow> SmPkt \<Rightarrow> rpc \<Rightarrow> rpc res" where
  "handle_disconnect_resp_st e p s = assertE (in_dispatch e s)
    (assertE (sp_pkt_type p = kDisconnectResp \<and> ep_rpc_id (sp_client p) = my_rpc_id e)
    (assertE (sp_err_type p = kNoError)
    (let sn = unat (ep_session_num (sp_client p))
     in assertE (sn < length (session_vec s))
       (case session_vec s ! sn of
          None \<Rightarrow> Inr s
        | Some se \<Rightarrow> assertE (is_client se) (assertE (se_state se = kDisconnectInProgress)
            (assertE (ep_eq (se_client se) (sp_client p)) (assertE (ep_eq (se_server se) (sp_server p))
              (bindE (free_ring_entries s) (\<lambda>s1.
               bindE (sm_event e (local_session_num se) kEvDisconnected kNoError s1) (bury_session_st e sn))))))))))"

subsection \<open>Reset handlers\<close>

definition reset_client_slot :: "env \<Rightarrow> nat \<Rightarrow> nat \<Rightarrow> rpc \<Rightarrow> rpc res" where
  "reset_client_slot e sn i s = bindE (get_slot (sn, i) s) (\<lambda>sl.
    if tx_msgbuf sl = None
    then (let s1 = delete_from_active_rpc_list (sn, i) (upd_slot (sn, i) (\<lambda>sl. sl\<lparr>tx_msgbuf := None\<rparr>) s)
          in bindE (get_sess sn s1) (\<lambda>se.
             bindE (fv_push_back kSessionReqWindow (sl_index sl) (sslot_free_vec se)) (\<lambda>fv.
             bindE (resize_msg_buffer (cfg e) (mbufs s1 (resp_msgbuf sl)) 0) (\<lambda>m.
               continue e (cont_func sl) (cont_tag sl)
                 (upd_mbuf (resp_msgbuf sl) (\<lambda>_. m) (upd_sess sn (\<lambda>se. se\<lparr>sslot_free_vec := fv\<rparr>) s1))))))
    else Inr s)"

definition handle_reset_client_st :: "env \<Rightarrow> nat \<Rightarrow> rpc \<Rightarrow> (bool \<times> rpc) res" where
  "handle_reset_client_st e sn s = assertE (in_dispatch e s)
    (bindE (get_sess sn s) (\<lambda>se.
      let s1 = s\<lparr>stallq := filter (\<lambda>r. \<not> (fst r = sn \<and> snd r < length (sslot_arr se))) (stallq s)\<rparr>
      in bindE (foldE (reset_client_slot e sn) [0..<length (sslot_arr se)] s1) (\<lambda>s2.
         bindE (get_sess sn s2) (\<lambda>se2. assertE (fv_size (sslot_free_vec se2) = kSessionReqWindow)
           (bindE (free_ring_entries (upd_sess sn (\<lambda>se. se\<lparr>se_state := kDisconnectInProgress\<rparr>) s2)) (\<lambda>s3.
            bindE (sm_event e (local_session_num se2) kEvDisconnected kSrvDisconnected s3) (\<lambda>s4.
            bindE (bury_session_st e sn s4) (\<lambda>s5. Inr (True, s5)))))))))"

definition handle_reset_server_st :: "env \<Rightarrow> nat \<Rightarrow> rpc \<Rightarrow> (bool \<times> rpc) res" where
  "handle_reset_server_st e sn s = assertE (in_dispatch e s)
    (bindE (get_sess sn s) (\<lambda>se. assertE (\<not> is_client se)
      (let s1 = upd_sess sn (\<lambda>se. se\<lparr>se_state := kResetInProgress\<rparr>) s;
           pending_enqueue_resps = length (filter (\<lambda>sl. si_req_type sl \<noteq> kInvalidReqType) (sslot_arr se))
       in if pending_enqueue_resps = 0
          then bindE (free_ring_entries s1) (\<lambda>s2. bindE (bury_session_st e sn s2) (\<lambda>s3. Inr (True, s3)))
          else Inr (False, s1))))"

subsection \<open>Received management packets\<close>

definition erase_pending :: "SmPkt \<Rightarrow> rpc \<Rightarrow> rpc" where
  "erase_pending p s =
    (let n = unat (ep_session_num (sp_client p))
     in if sp_is_resp p \<and> n \<in> set (sm_pending_reqs s)
        then s\<lparr>sm_pending_reqs := remove1 n (sm_pending_reqs s)\<rparr> else s)"

definition handle_sm_item :: "env \<Rightarrow> SmWorkItem \<Rightarrow> rpc \<Rightarrow> rpc res" where
  "handle_sm_item e wi s = (case wi of
      SmReset _ \<Rightarrow> Inl AssertFail
    | SmWork _ p \<Rightarrow>
        (let s1 = erase_pending p s
         in (case sp_pkt_type p of
               kConnectReq \<Rightarrow> handle_connect_req_st e p s1
             | kDisconnectReq \<Rightarrow> handle_disconnect_req_st e p s1
             | kConnectResp \<Rightarrow> handle_connect_resp_st e p s1
             | kDisconnectResp \<Rightarrow> handle_disconnect_resp_st e p s1
             | _ \<Rightarrow> Inl RuntimeError)))"

text \<open>
  The loop over the queue of the hook. No handler pushes to this queue, so the number of queued items
  bounds the iterations.
\<close>

fun sm_rx_loop :: "nat \<Rightarrow> env \<Rightarrow> rpc \<Rightarrow> rpc res" where
  "sm_rx_loop n e s =
    (if mt_size (sm_rx_queue s) = 0 then Inr s
     else (case n of
         0 \<Rightarrow> Inl NoReturn
       | Suc k \<Rightarrow> bindE (unlocked_pop (sm_rx_queue s)) (\<lambda>(wi, q).
           bindE (handle_sm_item e wi (s\<lparr>sm_rx_queue := q\<rparr>)) (sm_rx_loop k e))))"

declare sm_rx_loop.simps [simp del]

definition handle_sm_rx_st :: "env \<Rightarrow> rpc \<Rightarrow> rpc res" where
  "handle_sm_rx_st e s = assertE (in_dispatch e s) (sm_rx_loop (mt_size (sm_rx_queue s)) e s)"

subsection \<open>Lost management packets\<close>

abbreviation (input) kSMTimeoutMs :: nat where "kSMTimeoutMs \<equiv> 100"

definition sm_retry_one :: "env \<Rightarrow> nat \<Rightarrow> rpc \<Rightarrow> rpc res" where
  "sm_retry_one e sn s = rangeE (sn < length (session_vec s))
    (case session_vec s ! sn of
       None \<Rightarrow> Inr s
     | Some se \<Rightarrow>
         if se_state se = kConnectInProgress \<or> se_state se = kDisconnectInProgress
         then (let (now, s1) = rdtsc e s;
                   ms_elapsed = size_t_of (to_msec (sub64 now (sm_req_ts se)) (freq_ghz e))
               in if kSMTimeoutMs < ms_elapsed then send_sm_req_st e sn s1 else Inr s1)
         else Inr s)"

definition pkt_loss_scan_st :: "env \<Rightarrow> rpc \<Rightarrow> rpc res" where
  "pkt_loss_scan_st e s = bindE (scan_active_rpcs e s) (\<lambda>s1. foldE (sm_retry_one e) (sm_pending_reqs s1) s1)"

subsection \<open>Fault injection\<close>

definition fault_inject_check_ok :: "env \<Rightarrow> rpc \<Rightarrow> unit res" where
  "fault_inject_check_ok e s = rt_assert kTesting (rt_assert (in_dispatch e s) (Inr ()))"

definition fault_inject_fail_resolve_rinfo_st :: "env \<Rightarrow> rpc \<Rightarrow> rpc res" where
  "fault_inject_fail_resolve_rinfo_st e s = bindE (fault_inject_check_ok e s) (\<lambda>_.
    Inr (s\<lparr>fail_resolve_rinfo := True\<rparr>))"

definition fault_inject_set_pkt_drop_prob_st :: "env \<Rightarrow> real \<Rightarrow> rpc \<Rightarrow> rpc res" where
  "fault_inject_set_pkt_drop_prob_st e p s = bindE (fault_inject_check_ok e s) (\<lambda>_.
    assertE (p = 0 \<or> (1 / 1000000000 \<le> p \<and> p < 95 / 100))
      (Inr (s\<lparr>pkt_drop_prob := p, pkt_drop_thresh_billion := size_t_of (p * 1000000000)\<rparr>)))"

definition roll_pkt_drop :: "rpc \<Rightarrow> bool \<times> rpc" where
  "roll_pkt_drop s = (let (seed, r) = next_u32 (fast_rand s)
    in (unat r mod 1000000000 < pkt_drop_thresh_billion s, s\<lparr>fast_rand := seed\<rparr>))"

end
