(* ===== verification/Rpc_Frame.thy ===== *)
theory Rpc_Frame
  imports Rpc_Queues
begin

section \<open>What the datapath leaves alone\<close>

text \<open>
  Session management owns the identity of a session (role, state, token, endpoints, numbers) and some
  members of the Rpc object (ring entries, pending requests, the management queue), the event loop owns
  the time stamp of the iteration; the datapath only
  reads them, and it only reads the clock forwards. The locale \<open>dp_rel\<close> is the interface: any preorder on
  states that allows the primitive updates of the datapath contains every operation of the datapath, whatever the callbacks do inside
  that preorder.
\<close>

definition sess_id :: "Session \<Rightarrow> bool \<times> SessionState \<times> nat \<times> SessionEndpoint \<times> SessionEndpoint \<times> nat \<times> nat \<times> nat" where
  "sess_id se = (is_client se, se_state se, se_uniq_token se, se_client se, se_server se, local_session_num se,
    remote_session_num se, sm_req_ts se)"

definition mgmt :: "rpc \<Rightarrow> nat \<times> nat \<times> nat \<times> (nat \<Rightarrow> nat option) \<times> nat list \<times> SmWorkItem MtQueue \<times>
    (string \<times> u16 \<times> SmPkt) list \<times> (nat \<times> SmEventType \<times> SmErrType) list" where
  "mgmt s = (cur_etid s, ev_loop_tsc s, ring_entries_available s, conn_req_token_map s, sm_pending_reqs s, sm_rx_queue s,
    udp_sent s, app_events s)"

lemma sess_id_upd [simp]:
  "sess_id (se\<lparr>credits := a\<rparr>) = sess_id se" "sess_id (se\<lparr>sslot_arr := b\<rparr>) = sess_id se"
  "sess_id (se\<lparr>sslot_free_vec := c\<rparr>) = sess_id se" "sess_id (se\<lparr>enq_req_backlog := d\<rparr>) = sess_id se"
  "sess_id (se\<lparr>se_num_re_tx := g\<rparr>) = sess_id se" "sess_id (se\<lparr>se_timely := h\<rparr>) = sess_id se"
  "sess_id (se\<lparr>prev_desired_tx_tsc := i\<rparr>) = sess_id se"
  by (simp_all add: sess_id_def)

lemma mgmt_upd [simp]:
  "mgmt (s\<lparr>mbufs := a1\<rparr>) = mgmt s" "mgmt (s\<lparr>anext := a2\<rparr>) = mgmt s" "mgmt (s\<lparr>aprev := a3\<rparr>) = mgmt s"
  "mgmt (s\<lparr>stallq := a4\<rparr>) = mgmt s" "mgmt (s\<lparr>tx_burst_arr := a5\<rparr>) = mgmt s"
  "mgmt (s\<lparr>ctrl_msgbuf_head := a6\<rparr>) = mgmt s" "mgmt (s\<lparr>rx_ring_head := a7\<rparr>) = mgmt s"
  "mgmt (s\<lparr>pkt_loss_scan_tsc := a9\<rparr>) = mgmt s"
  "mgmt (s\<lparr>huge_al := b1\<rparr>) = mgmt s" "mgmt (s\<lparr>tw := b2\<rparr>) = mgmt s" "mgmt (s\<lparr>bgq_request := b3\<rparr>) = mgmt s"
  "mgmt (s\<lparr>bgq_response := b4\<rparr>) = mgmt s" "mgmt (s\<lparr>bg_req_queue_arr := b5\<rparr>) = mgmt s"
  "mgmt (s\<lparr>fast_rand := b6\<rparr>) = mgmt s" "mgmt (s\<lparr>tsc_i := b7\<rparr>) = mgmt s" "mgmt (s\<lparr>wire := b8\<rparr>) = mgmt s"
  "mgmt (s\<lparr>tx_flush_count := b9\<rparr>) = mgmt s" "mgmt (s\<lparr>recvs_posted := c1\<rparr>) = mgmt s"
  "mgmt (s\<lparr>st_num_re_tx := c2\<rparr>) = mgmt s" "mgmt (s\<lparr>st_still_in_wheel := c3\<rparr>) = mgmt s"
  by (simp_all add: mgmt_def)

locale dp_rel =
  fixes R :: "rpc \<Rightarrow> rpc \<Rightarrow> bool"
  assumes R_refl: "R s s"
    and R_trans: "R s t \<Longrightarrow> R t u \<Longrightarrow> R s u"
    and R_sess: "(\<And>se. sess_id (f se) = sess_id se) \<Longrightarrow> R s (upd_sess sn f s)"
    and R_local: "session_vec t = session_vec s \<Longrightarrow> mgmt t = mgmt s \<Longrightarrow> tsc_i s \<le> tsc_i t \<Longrightarrow> R s t"
begin

definition ok :: "rpc \<Rightarrow> rpc res \<Rightarrow> bool" where
  "ok s m \<longleftrightarrow> (\<forall>t. m = Inr t \<longrightarrow> R s t)"

definition okp :: "rpc \<Rightarrow> ('a \<times> rpc) res \<Rightarrow> bool" where
  "okp s m \<longleftrightarrow> (\<forall>x t. m = Inr (x, t) \<longrightarrow> R s t)"

definition cb :: "env \<Rightarrow> bool" where
  "cb e \<longleftrightarrow> (\<forall>rt r s. ok s (handler e rt r s)) \<and> (\<forall>cf tag s. ok s (continue e cf tag s))"

lemma okD: "ok s m \<Longrightarrow> m = Inr t \<Longrightarrow> R s t"
  by (simp add: ok_def)

lemma ok_app: "R s u \<Longrightarrow> ok u m \<Longrightarrow> ok s m"
  unfolding ok_def using R_trans by blast

lemma okp_app: "R s u \<Longrightarrow> okp u m \<Longrightarrow> okp s m"
  unfolding okp_def using R_trans by blast

lemma R_upd_sess: "R s u \<Longrightarrow> (\<And>se. sess_id (f se) = sess_id se) \<Longrightarrow> R s (upd_sess sn f u)"
  using R_trans R_sess by blast

lemma R_upd_slot: "R s u \<Longrightarrow> R s (upd_slot r f u)"
  unfolding upd_slot_def by (rule R_upd_sess) simp_all

lemma R_same: "R s u \<Longrightarrow> session_vec t = session_vec u \<Longrightarrow> mgmt t = mgmt u \<Longrightarrow> tsc_i u \<le> tsc_i t \<Longrightarrow> R s t"
  using R_trans R_local by blast

lemma R_upd_mbuf: "R s u \<Longrightarrow> R s (upd_mbuf m f u)"
  by (erule R_same) (simp_all add: upd_mbuf_def)

lemma R_field:
  assumes "R s u"
  shows "R s (u\<lparr>anext := a2\<rparr>)" "R s (u\<lparr>aprev := a3\<rparr>)"
    "R s (u\<lparr>stallq := a4\<rparr>)" "R s (u\<lparr>tx_burst_arr := a5\<rparr>)" "R s (u\<lparr>ctrl_msgbuf_head := a6\<rparr>)"
    "R s (u\<lparr>rx_ring_head := a7\<rparr>)" "R s (u\<lparr>huge_al := b1\<rparr>)" "R s (u\<lparr>tw := b2\<rparr>)" "R s (u\<lparr>bgq_request := b3\<rparr>)"
    "R s (u\<lparr>bgq_response := b4\<rparr>)" "R s (u\<lparr>bg_req_queue_arr := b5\<rparr>)" "R s (u\<lparr>fast_rand := b6\<rparr>)"
    "R s (u\<lparr>tsc_i := tsc_i u + b7\<rparr>)" "R s (u\<lparr>wire := b8\<rparr>)" "R s (u\<lparr>tx_flush_count := b9\<rparr>)"
    "R s (u\<lparr>recvs_posted := c1\<rparr>)" "R s (u\<lparr>st_num_re_tx := c2\<rparr>)" "R s (u\<lparr>st_still_in_wheel := c3\<rparr>)"
    "R s (u\<lparr>pkt_loss_scan_tsc := a9\<rparr>)"
  by (rule R_same [OF assms]; simp)+

text \<open>Rules that follow the structure of a computation.\<close>

lemma ok_Inr: "R s t \<Longrightarrow> ok s (Inr t)"
  by (simp add: ok_def)

lemma ok_Inl: "ok s (Inl x)"
  by (simp add: ok_def)

lemma okp_Inr: "R s t \<Longrightarrow> okp s (Inr (x, t))"
  by (simp add: okp_def)

lemma ok_bindS: "ok s m \<Longrightarrow> (\<And>u. R s u \<Longrightarrow> ok s (k u)) \<Longrightarrow> ok s (bindE m k)"
  by (auto simp: ok_def bindE_eq_Inr)

lemma okp_bindS: "ok s m \<Longrightarrow> (\<And>u. R s u \<Longrightarrow> okp s (k u)) \<Longrightarrow> okp s (bindE m k)"
  by (auto simp: ok_def okp_def bindE_eq_Inr)

lemma ok_bindP: "okp s m \<Longrightarrow> (\<And>x u. R s u \<Longrightarrow> ok s (k x u)) \<Longrightarrow> ok s (bindE m (\<lambda>(x, u). k x u))"
  by (auto simp: ok_def okp_def bindE_eq_Inr)

lemma ok_bindV: "(\<And>x. ok s (k x)) \<Longrightarrow> ok s (bindE m k)"
  by (auto simp: ok_def bindE_eq_Inr)

lemma okp_bindV: "(\<And>x. okp s (k x)) \<Longrightarrow> okp s (bindE m k)"
  by (auto simp: okp_def bindE_eq_Inr)

lemma ok_guard: "ok s m \<Longrightarrow> ok s (assertE c m)" "ok s m \<Longrightarrow> ok s (rangeE c m)" "ok s m \<Longrightarrow> ok s (rt_assert c m)"
  "okp s p \<Longrightarrow> okp s (assertE c p)" "okp s p \<Longrightarrow> okp s (rangeE c p)"
  by (auto simp: ok_def okp_def res_Inr)

lemma ok_cases: "ok s m \<Longrightarrow> ok s n \<Longrightarrow> ok s (if c then m else n)" "okp s p \<Longrightarrow> okp s q \<Longrightarrow> okp s (if c then p else q)"
  "ok s m \<Longrightarrow> (\<And>x. ok s (f x)) \<Longrightarrow> ok s (case y of None \<Rightarrow> m | Some x \<Rightarrow> f x)"
  "okp s p \<Longrightarrow> (\<And>x. okp s (g x)) \<Longrightarrow> okp s (case y of None \<Rightarrow> p | Some x \<Rightarrow> g x)"
  "ok s m \<Longrightarrow> (\<And>x xs. ok s (h x xs)) \<Longrightarrow> ok s (case ys of [] \<Rightarrow> m | x # xs \<Rightarrow> h x xs)"
  "(\<And>a b. ok s (k a b)) \<Longrightarrow> ok s (case z of (a, b) \<Rightarrow> k a b)"
  "(\<And>a b. okp s (kp a b)) \<Longrightarrow> okp s (case z of (a, b) \<Rightarrow> kp a b)"
  by (simp_all split: option.split list.split prod.split)

lemma ok_foldE: "(\<And>x u. R s u \<Longrightarrow> ok s (f x u)) \<Longrightarrow> R s u \<Longrightarrow> ok s (foldE f xs u)"
proof (induction xs arbitrary: u)
  case (Cons x xs)
  then show ?case by (simp add: ok_bindS)
qed (simp add: ok_Inr)

lemma ok_forE: "(\<And>i u. R s u \<Longrightarrow> ok s (f i u)) \<Longrightarrow> R s u \<Longrightarrow> ok s (forE n f u)"
  by (simp add: forE_def ok_foldE)

lemmas bindV_types =
  ok_bindV [where 'a = SSlot] ok_bindV [where 'a = Session] ok_bindV [where 'a = MsgBuffer] ok_bindV [where 'a = bool]
  ok_bindV [where 'a = "nat FixedVector"] ok_bindV [where 'a = "nat \<times> nat FixedVector"] ok_bindV [where 'a = huge_alloc]
  ok_bindV [where 'a = "MsgBuffer option \<times> huge_alloc"] ok_bindV [where 'a = "sref timing_wheel \<times> huge_alloc"]
  ok_bindV [where 'a = timely] ok_bindV [where 'a = "sref timing_wheel"]
  ok_bindV [where 'a = "enq_req_args \<times> enq_req_args MtQueue"]
  okp_bindV [where 'a = SSlot] okp_bindV [where 'a = "MsgBuffer option \<times> huge_alloc"]

lemmas R_intros = R_refl R_upd_slot R_upd_mbuf R_field R_upd_sess sess_id_upd
lemmas ok_intros = ok_Inr ok_Inl okp_Inr bindV_types ok_guard ok_bindP ok_cases ok_bindS okp_bindS R_intros

text \<open>Transmission.\<close>

lemma R_stamps: "R s u \<Longrightarrow> R s (fold (stamp_tx t) its u)"
  by (induction its arbitrary: u) (auto simp: stamp_tx_def R_upd_slot split: option.split)

lemma ok_do_tx_burst: "R s u \<Longrightarrow> ok s (do_tx_burst_st e u)"
  unfolding do_tx_burst_st_def rdtsc_def Let_def prod.case by (intro ok_intros R_stamps)

lemma ok_drain: "R s u \<Longrightarrow> ok s (drain_tx_batch_and_dma_queue e u)"
  unfolding drain_tx_batch_and_dma_queue_def by (intro ok_intros ok_do_tx_burst)

lemma ok_push_tx: "R s u \<Longrightarrow> ok s (push_tx_item e it u)"
  unfolding push_tx_item_def Let_def by (intro ok_intros ok_do_tx_burst)

lemma ok_enqueue_pkt: "R s u \<Longrightarrow> ok s (enqueue_pkt_tx_burst_st e r i ts u)"
  unfolding enqueue_pkt_tx_burst_st_def by (intro ok_intros ok_push_tx)

lemma ok_enqueue_hdr: "R s u \<Longrightarrow> ok s (enqueue_hdr_tx_burst_st e r m ts u)"
  unfolding enqueue_hdr_tx_burst_st_def by (intro ok_intros ok_push_tx)

lemma ok_enqueue_cr: "R s u \<Longrightarrow> ok s (enqueue_cr_st e r h u)"
  unfolding enqueue_cr_st_def next_ctrl_msgbuf_def Let_def prod.case by (intro ok_intros ok_enqueue_hdr)

lemma ok_enqueue_rfr: "R s u \<Longrightarrow> ok s (enqueue_rfr_st e r h u)"
  unfolding enqueue_rfr_st_def next_ctrl_msgbuf_def Let_def prod.case by (intro ok_intros ok_enqueue_hdr)

lemma cc_tx_id: "cc_getupdate_tx_tsc f t n se = (d, se') \<Longrightarrow> sess_id se' = sess_id se"
  by (auto simp: cc_getupdate_tx_tsc_def Let_def)

lemma ok_bindI: "(\<And>x. m = Inr x \<Longrightarrow> ok s (k x)) \<Longrightarrow> ok s (bindE m k)"
  by (auto simp: ok_def bindE_eq_Inr)

lemma R_put_sess:
  assumes "R s u" "get_sess sn u = Inr se" "sess_id se' = sess_id se"
  shows "R s (upd_sess sn (\<lambda>_. se') u)"
proof -
  have "upd_sess sn (\<lambda>_. se') u = upd_sess sn (\<lambda>x. if x = se then se' else x) u"
    using assms(2) by (auto simp: upd_sess_def get_sess_def split: if_splits option.splits)
  moreover have "R s (upd_sess sn (\<lambda>x. if x = se then se' else x) u)" by (rule R_upd_sess) (simp_all add: assms)
  ultimately show ?thesis by simp
qed

lemma ok_enqueue_wheel: "R s u \<Longrightarrow> ok s (enqueue_wheel_st e r pn n u)"
  unfolding enqueue_wheel_st_def rdtsc_def Let_def prod.case
  by (rule ok_bindI, simp add: split_def del: One_nat_def, intro ok_intros R_put_sess, assumption,
      simp add: get_sess_def, rule cc_tx_id, rule surjective_pairing)

lemma ok_wheel_req: "R s u \<Longrightarrow> ok s (enqueue_wheel_req_st e r pn u)"
  unfolding enqueue_wheel_req_st_def by (intro ok_intros ok_enqueue_wheel)

lemma R_use_credit: "R s u \<Longrightarrow> R s (use_credit r u)"
  unfolding use_credit_def by (intro R_intros)

lemma ok_kick_req: "R s u \<Longrightarrow> ok s (kick_req_st e r u)"
  unfolding kick_req_st_def kick_req_one_def Let_def
  by (intro ok_intros ok_forE R_use_credit ok_enqueue_pkt ok_wheel_req)

lemma ok_kick_rfr: "R s u \<Longrightarrow> ok s (kick_rfr_st e r u)"
  unfolding kick_rfr_st_def kick_rfr_one_def Let_def
  by (intro ok_intros ok_forE R_use_credit ok_enqueue_rfr)

lemma ok_kick_pending: "R s u \<Longrightarrow> ok s (kick_pending e r u)"
  unfolding kick_pending_def by (intro ok_intros ok_kick_req ok_kick_rfr)

text \<open>The client.\<close>

lemma okp_in_order: "R s u \<Longrightarrow> okp s (in_order_client r h u)"
  unfolding in_order_client_def by (intro ok_intros)

lemma ok_client_track: "R s u \<Longrightarrow> ok s (client_track r h t u)"
  unfolding client_track_def update_timely_rate_def bump_credits_def by (intro ok_intros)

lemma ok_expl_cr: "R s u \<Longrightarrow> ok s (process_expl_cr_st e r h t u)"
  unfolding process_expl_cr_st_def by (intro ok_intros okp_in_order ok_client_track ok_kick_req)


lemma R_add_list: "R s u \<Longrightarrow> R s (add_to_active_rpc_list r u)"
  unfolding add_to_active_rpc_list_def Let_def by (intro R_intros)

lemma R_del_list: "R s u \<Longrightarrow> R s (delete_from_active_rpc_list r u)"
  unfolding delete_from_active_rpc_list_def Let_def by (intro R_intros)

lemma R_fill_sslot: "R s u \<Longrightarrow> R s (fill_sslot rt req resp cf tag etid r se sl u)"
  unfolding fill_sslot_def Let_def by (intro R_intros R_add_list)

lemma ok_enqueue_request: "R s u \<Longrightarrow> ok s (enqueue_request e sn rt req resp cf tag etid u)"
  unfolding enqueue_request_def Let_def by (intro ok_intros ok_kick_req R_fill_sslot)

lemma ok_bg_req: "R s u \<Longrightarrow> ok s (submit_bg_req_st e r u)"
  unfolding submit_bg_req_st_def Let_def by (intro ok_intros)

lemma ok_bg_resp: "R s u \<Longrightarrow> ok s (submit_bg_resp_st e cf tag i u)"
  unfolding submit_bg_resp_st_def by (intro ok_intros)

lemma ok_continue: "cb e \<Longrightarrow> R s u \<Longrightarrow> ok s (continue e cf tag u)"
  unfolding cb_def using ok_app by blast

lemma ok_handler: "cb e \<Longrightarrow> R s u \<Longrightarrow> ok s (handler e rt r u)"
  unfolding cb_def using ok_app by blast

lemma ok_complete: "cb e \<Longrightarrow> R s u \<Longrightarrow> ok s (complete_request e r u)"
  unfolding complete_request_def Let_def
  by (intro ok_intros ok_enqueue_request ok_continue ok_bg_resp R_del_list)

lemma ok_resp: "cb e \<Longrightarrow> R s u \<Longrightarrow> ok s (process_resp_one_st e r p t u)"
  unfolding process_resp_one_st_def Let_def
  by (intro ok_intros okp_in_order ok_client_track ok_kick_rfr ok_complete)

text \<open>The server.\<close>

lemma ok_bury_resp: "R s u \<Longrightarrow> ok s (bury_resp_msgbuf_server_st e r u)"
  unfolding bury_resp_msgbuf_server_st_def by (intro ok_intros)

lemma ok_bury_req: "R s u \<Longrightarrow> ok s (bury_req_msgbuf_server_st e r u)"
  unfolding bury_req_msgbuf_server_st_def by (intro ok_intros)

lemma ok_call_handler: "cb e \<Longrightarrow> R s u \<Longrightarrow> ok s (call_handler e rt r u)"
  unfolding call_handler_def by (auto split: option.split ReqFuncType.split intro: ok_Inl ok_handler ok_bg_req)

lemma okp_alloc_req: "R s u \<Longrightarrow> okp s (alloc_req_msgbuf e r n u)"
  unfolding alloc_req_msgbuf_def by (intro ok_intros)

lemma ok_small_req: "cb e \<Longrightarrow> R s u \<Longrightarrow> ok s (process_small_req_st e r a p u)"
  unfolding process_small_req_st_def Let_def
  by (intro ok_intros ok_enqueue_pkt ok_drain ok_bury_resp ok_call_handler okp_alloc_req)

lemma ok_large_req: "cb e \<Longrightarrow> R s u \<Longrightarrow> ok s (process_large_req_one_st e r p u)"
  unfolding process_large_req_one_st_def Let_def
  by (intro ok_intros ok_enqueue_pkt ok_drain ok_bury_resp ok_call_handler okp_alloc_req ok_enqueue_cr)

lemma ok_enqueue_response: "R s u \<Longrightarrow> ok s (enqueue_response e r resp u)"
  unfolding enqueue_response_def Let_def by (intro ok_intros ok_enqueue_pkt ok_bury_req)

lemma ok_rfr: "R s u \<Longrightarrow> ok s (process_rfr_st e r h u)"
  unfolding process_rfr_st_def Let_def by (intro ok_intros ok_enqueue_pkt ok_drain)

text \<open>Reception, queues and packet loss.\<close>

lemma ok_pkt: "cb e \<Longrightarrow> R s u \<Longrightarrow> ok s (process_pkt e p u)"
  unfolding process_pkt_def Let_def
  by (cases "pkt_type (p_hdr p)") (simp_all only: PktType.case,
      (intro ok_intros ok_small_req ok_large_req ok_resp ok_rfr ok_expl_cr; assumption)+)

lemma ok_comps: "cb e \<Longrightarrow> R s u \<Longrightarrow> ok s (process_comps_st e ps u)"
  unfolding process_comps_st_def by (intro ok_intros ok_foldE ok_pkt)

lemma okp_stalled:
  assumes "R s u"
  shows "foldE (process_stalled_one e) rs (u, kept) = Inr (t, k) \<Longrightarrow> R s t"
  using assms
proof (induction rs arbitrary: u kept)
  case (Cons r rs)
  then obtain v l where v: "process_stalled_one e r (u, kept) = Inr (v, l)" "foldE (process_stalled_one e) rs (v, l) = Inr (t, k)"
    by (auto simp: bindE_eq_Inr)
  then have "v = u \<or> kick_pending e r u = Inr v"
    by (auto simp: process_stalled_one_def bindE_eq_Inr split: if_splits)
  then have "R s v" using okD [OF ok_kick_pending [OF Cons.prems(2)]] Cons.prems(2) by blast
  then show ?case using Cons.IH v(2) by blast
qed simp

lemma ok_stall: "R s u \<Longrightarrow> ok s (process_credit_stall_queue_st e u)"
  unfolding process_credit_stall_queue_st_def ok_def by (auto simp: res_Inr intro: R_field dest: okp_stalled)

lemma ok_ready: "R s u \<Longrightarrow> ok s (process_ready_one e u)"
  unfolding process_ready_one_def Let_def by (intro ok_intros ok_enqueue_pkt ok_enqueue_rfr)

lemma ok_wheel: "R s u \<Longrightarrow> ok s (process_wheel_st e u)"
  unfolding process_wheel_st_def rdtsc_def Let_def prod.case by (intro ok_intros ok_forE ok_ready)

lemma ok_bg_requests: "R s u \<Longrightarrow> ok s (process_bg_queues_enqueue_request_st e u)"
  unfolding process_bg_queues_enqueue_request_st_def process_bg_request_one_def
  by (intro ok_intros ok_forE ok_enqueue_request)

lemma ok_bg_responses: "R s u \<Longrightarrow> ok s (process_bg_queues_enqueue_response_st e u)"
  unfolding process_bg_queues_enqueue_response_st_def process_bg_response_one_def
  by (intro ok_intros ok_forE ok_bindV [where 'a = "(sref \<times> mbref) \<times> (sref \<times> mbref) MtQueue"])
    (auto intro: ok_enqueue_response R_field)

lemma ok_retransmit: "R s u \<Longrightarrow> ok s (pkt_loss_retransmit_st e r u)"
  unfolding pkt_loss_retransmit_st_def Let_def by (intro ok_intros ok_kick_pending) (simp_all add: sess_id_def)

lemma ok_scan_one: "R s u \<Longrightarrow> ok s (scan_one e r u)"
  unfolding scan_one_def by (intro ok_intros ok_retransmit ok_drain)

lemma ok_scan_loop: "R s u \<Longrightarrow> ok s (scan_loop n e a u)"
proof (induction n e a u rule: scan_loop.induct)
  case (4 n e r u)
  have "ok s (scan_loop n e (anext v (ANode r)) v)" if "scan_one e r u = Inr v" for v
    using 4 okD [OF ok_scan_one that] that by blast
  then show ?case by (simp add: ok_bindI)
qed (simp_all add: ok_Inr ok_Inl)

lemma ok_scan: "R s u \<Longrightarrow> ok s (scan_active_rpcs e u)"
  unfolding scan_active_rpcs_def by (intro ok_intros ok_scan_loop)

end

end
