(* ===== verification/Rpc_Credits.thy ===== *)
theory Rpc_Credits
  imports Rpc_Sm
begin

section \<open>Session credits\<close>

text \<open>
  The flow-control contract of a client session as an abstract machine, and the simulation of the
  datapath by it. An abstract session has the credits and, for every slot, whether a request is
  active, the numbers of packets sent and received, and the request number.
\<close>

subsection \<open>The abstract client session\<close>

record aslot =
  a_active :: bool
  a_tx :: nat
  a_rx :: nat
  a_req :: nat

record asess =
  a_credits :: nat
  a_slots :: "aslot list"

definition aupd :: "nat \<Rightarrow> (aslot \<Rightarrow> aslot) \<Rightarrow> asess \<Rightarrow> asess" where
  "aupd i f a = a\<lparr>a_slots := (a_slots a)[i := f (a_slots a ! i)]\<rparr>"

text \<open>
  \<open>start\<close>: a request takes a free slot; \<open>tx\<close>: a packet is sent for one credit; \<open>rx\<close>: the packet that
  answers the oldest unanswered one returns a credit; \<open>rollback\<close>: packets suspected lost are taken
  back with their credits; \<open>finish\<close>: the response is complete.
\<close>

inductive cstep :: "asess \<Rightarrow> asess \<Rightarrow> bool" where
  start: "i < length (a_slots a) \<Longrightarrow> \<not> a_active (a_slots a ! i) \<Longrightarrow>
    cstep a (aupd i (\<lambda>x. x\<lparr>a_active := True, a_tx := 0, a_rx := 0, a_req := a_req x + kSessionReqWindow\<rparr>) a)"
| tx: "i < length (a_slots a) \<Longrightarrow> a_active (a_slots a ! i) \<Longrightarrow> 0 < a_credits a \<Longrightarrow>
    cstep a ((aupd i (\<lambda>x. x\<lparr>a_tx := a_tx x + 1\<rparr>) a)\<lparr>a_credits := a_credits a - 1\<rparr>)"
| rx: "i < length (a_slots a) \<Longrightarrow> a_rx (a_slots a ! i) < a_tx (a_slots a ! i) \<Longrightarrow>
    cstep a ((aupd i (\<lambda>x. x\<lparr>a_rx := a_rx x + 1\<rparr>) a)\<lparr>a_credits := a_credits a + 1\<rparr>)"
| rollback: "i < length (a_slots a) \<Longrightarrow> a_active (a_slots a ! i) \<Longrightarrow>
    cstep a ((aupd i (\<lambda>x. x\<lparr>a_tx := a_rx x\<rparr>) a)
      \<lparr>a_credits := a_credits a + (a_tx (a_slots a ! i) - a_rx (a_slots a ! i))\<rparr>)"
| finish: "i < length (a_slots a) \<Longrightarrow> a_rx (a_slots a ! i) = a_tx (a_slots a ! i) \<Longrightarrow>
    cstep a (aupd i (\<lambda>x. x\<lparr>a_active := False\<rparr>) a)"

inductive_cases cstepE: "cstep a b"

definition out_of :: "aslot \<Rightarrow> nat" where
  "out_of x = a_tx x - a_rx x"

definition ainv :: "asess \<Rightarrow> bool" where
  "ainv a \<longleftrightarrow> a_credits a + sum_list (map out_of (a_slots a)) = kSessionCredits \<and>
    (\<forall>x \<in> set (a_slots a). a_rx x \<le> a_tx x \<and> (\<not> a_active x \<longrightarrow> a_tx x = a_rx x)) \<and>
    length (a_slots a) = kSessionReqWindow \<and>
    (\<forall>i < length (a_slots a). a_req (a_slots a ! i) mod kSessionReqWindow = i)"

lemma aupd_simps [simp]:
  "a_credits (aupd i f a) = a_credits a" "length (a_slots (aupd i f a)) = length (a_slots a)"
  by (simp_all add: aupd_def)

lemma aupd_sum:
  "i < length (a_slots a) \<Longrightarrow> sum_list (map out_of (a_slots (aupd i f a))) + out_of (a_slots a ! i) =
    sum_list (map out_of (a_slots a)) + out_of (f (a_slots a ! i))"
  using sum_list_map_update [of i "a_slots a" out_of] by (simp add: aupd_def)

lemma aupd_all:
  assumes "\<forall>x \<in> set (a_slots a). P x" "i < length (a_slots a)" "P (f (a_slots a ! i))"
  shows "\<forall>x \<in> set (a_slots (aupd i f a)). P x"
  using assms set_update_subset_insert [of "a_slots a" i "f (a_slots a ! i)"] by (auto simp: aupd_def)

lemma aupd_req:
  assumes "\<forall>i < length (a_slots a). a_req (a_slots a ! i) mod kSessionReqWindow = i" "i < length (a_slots a)"
    "a_req (f (a_slots a ! i)) mod kSessionReqWindow = i"
  shows "\<forall>j < length (a_slots (aupd i f a)). a_req (a_slots (aupd i f a) ! j) mod kSessionReqWindow = j"
  using assms by (auto simp: aupd_def nth_list_update)

lemma ainv_upd:
  assumes "ainv a" "i < length (a_slots a)"
    and "a_rx (f (a_slots a ! i)) \<le> a_tx (f (a_slots a ! i))"
    and "\<not> a_active (f (a_slots a ! i)) \<Longrightarrow> a_tx (f (a_slots a ! i)) = a_rx (f (a_slots a ! i))"
    and "a_req (f (a_slots a ! i)) mod kSessionReqWindow = a_req (a_slots a ! i) mod kSessionReqWindow"
    and "c + out_of (f (a_slots a ! i)) = a_credits a + out_of (a_slots a ! i)"
  shows "ainv ((aupd i f a)\<lparr>a_credits := c\<rparr>)"
proof -
  have "\<forall>x \<in> set (a_slots (aupd i f a)). a_rx x \<le> a_tx x \<and> (\<not> a_active x \<longrightarrow> a_tx x = a_rx x)"
    using assms by (intro aupd_all) (auto simp: ainv_def)
  moreover have "\<forall>j < length (a_slots (aupd i f a)). a_req (a_slots (aupd i f a) ! j) mod kSessionReqWindow = j"
    using assms by (intro aupd_req) (auto simp: ainv_def)
  moreover have "c + sum_list (map out_of (a_slots (aupd i f a))) = kSessionCredits"
    using aupd_sum [OF assms(2), of f] assms(1,6) unfolding ainv_def by linarith
  ultimately show ?thesis using assms(1) by (simp add: ainv_def)
qed

lemma ainv_slot:
  assumes "ainv a" "i < length (a_slots a)"
  shows "a_rx (a_slots a ! i) \<le> a_tx (a_slots a ! i)"
    "\<not> a_active (a_slots a ! i) \<Longrightarrow> a_tx (a_slots a ! i) = a_rx (a_slots a ! i)"
    "a_credits a + out_of (a_slots a ! i) \<le> kSessionCredits"
  using assms nth_mem [OF assms(2)] nth_le_sum_list_map [OF assms(2), of out_of]
  by (auto simp: ainv_def)

lemma aupd_credits_id: "aupd i f a = (aupd i f a)\<lparr>a_credits := a_credits a\<rparr>"
  by (simp add: aupd_def)

lemma cstep_ainv [inv_intros]: "cstep a b \<Longrightarrow> ainv a \<Longrightarrow> ainv b"
proof (induction rule: cstep.induct)
  case (start i a)
  then show ?case
    by (subst aupd_credits_id) (intro ainv_upd; use ainv_slot(2) [of a i] in \<open>auto simp: out_of_def\<close>)
next
  case (finish i a)
  then show ?case
    by (subst aupd_credits_id) (intro ainv_upd; auto simp: out_of_def)
next
  case (tx i a)
  then show ?case using ainv_slot [of a i] by (intro ainv_upd) (auto simp: out_of_def)
next
  case (rx i a)
  then show ?case using ainv_slot [of a i]
    by (intro ainv_upd) (auto simp: out_of_def dest: leD)
next
  case (rollback i a)
  then show ?case using ainv_slot [of a i] by (intro ainv_upd) (auto simp: out_of_def)
qed

lemma csteps_ainv: "cstep\<^sup>*\<^sup>* a b \<Longrightarrow> ainv a \<Longrightarrow> ainv b"
  by (induction rule: rtranclp_induct) (auto intro: cstep_ainv)

subsection \<open>Abstraction\<close>

definition abs_slot :: "SSlot \<Rightarrow> aslot" where
  "abs_slot sl = \<lparr>a_active = (tx_msgbuf sl \<noteq> None), a_tx = num_tx sl, a_rx = num_rx sl, a_req = cur_req_num sl\<rparr>"

definition abs_sess :: "Session \<Rightarrow> asess" where
  "abs_sess se = \<lparr>a_credits = credits se, a_slots = map abs_slot (sslot_arr se)\<rparr>"

definition abs_entry :: "Session option \<Rightarrow> asess option" where
  "abs_entry x = (case x of None \<Rightarrow> None | Some se \<Rightarrow> if is_client se then Some (abs_sess se) else None)"

definition clients :: "rpc \<Rightarrow> asess option list" where
  "clients s = map abs_entry (session_vec s)"

text \<open>A step of one client session, or a new session.\<close>

inductive sstep :: "asess option list \<Rightarrow> asess option list \<Rightarrow> bool" where
  session: "i < length L \<Longrightarrow> L ! i = Some a \<Longrightarrow> cstep a b \<Longrightarrow> sstep L (L[i := Some b])"
| create: "(\<And>a. x = Some a \<Longrightarrow> ainv a) \<Longrightarrow> sstep L (L @ [x])"

definition sinv :: "asess option list \<Rightarrow> bool" where
  "sinv L \<longleftrightarrow> (\<forall>a. Some a \<in> set L \<longrightarrow> ainv a)"

lemma sstep_sinv: "sstep L L' \<Longrightarrow> sinv L \<Longrightarrow> sinv L'"
proof (induction rule: sstep.induct)
  case (session i L a b)
  then have "ainv a" by (metis nth_mem sinv_def)
  then have "ainv b" using session cstep_ainv by blast
  then show ?case using session set_update_subset_insert [of L i "Some b"] by (auto simp: sinv_def)
qed (auto simp: sinv_def)

lemma ssteps_sinv: "sstep\<^sup>*\<^sup>* L L' \<Longrightarrow> sinv L \<Longrightarrow> sinv L'"
  by (induction rule: rtranclp_induct) (auto intro: sstep_sinv)

lemma clients_cong: "session_vec s' = session_vec s \<Longrightarrow> clients s' = clients s"
  by (simp add: clients_def)

lemma abs_slot_sel [simp]:
  "a_active (abs_slot sl) = (tx_msgbuf sl \<noteq> None)" "a_tx (abs_slot sl) = num_tx sl"
  "a_rx (abs_slot sl) = num_rx sl" "a_req (abs_slot sl) = cur_req_num sl"
  by (simp_all add: abs_slot_def)

lemma abs_sess_sel [simp]:
  "a_credits (abs_sess se) = credits se" "a_slots (abs_sess se) = map abs_slot (sslot_arr se)"
  by (simp_all add: abs_sess_def)

subsection \<open>Reading and updating sessions\<close>

lemma get_sess_Inr:
  "get_sess sn s = Inr se \<longleftrightarrow> sn < length (session_vec s) \<and> session_vec s ! sn = Some se"
  by (auto simp: get_sess_def split: option.splits)

lemma get_slot_Inr:
  "get_slot r s = Inr sl \<longleftrightarrow> (\<exists>se. get_sess (fst r) s = Inr se \<and> snd r < length (sslot_arr se) \<and>
    sl = sslot_arr se ! snd r)"
  by (auto simp: get_slot_def bindE_eq_Inr split: if_splits)

lemma session_vec_upd_sess [simp]:
  "session_vec (upd_sess sn f s) = (session_vec s)[sn := map_option f (session_vec s ! sn)]"
  by (simp add: upd_sess_def)

lemma upd_sess_sel [simp]:
  "mbufs (upd_sess sn f s) = mbufs s" "stallq (upd_sess sn f s) = stallq s" "tw (upd_sess sn f s) = tw s"
  "cur_etid (upd_sess sn f s) = cur_etid s" "ev_loop_tsc (upd_sess sn f s) = ev_loop_tsc s"
  "anext (upd_sess sn f s) = anext s" "aprev (upd_sess sn f s) = aprev s"
  "tx_burst_arr (upd_sess sn f s) = tx_burst_arr s" "wire (upd_sess sn f s) = wire s"
  "huge_al (upd_sess sn f s) = huge_al s" "tsc_i (upd_sess sn f s) = tsc_i s"
  by (simp_all add: upd_sess_def)

lemma get_sess_upd_sess:
  "get_sess sn' (upd_sess sn f s) =
    (if sn' = sn then bindE (get_sess sn s) (\<lambda>se. Inr (f se)) else get_sess sn' s)"
  by (auto simp: get_sess_def nth_list_update_full split: option.splits)

lemma get_slot_upd_sess:
  "(\<And>se. sslot_arr (f se) = sslot_arr se) \<Longrightarrow> get_slot r (upd_sess sn f s) = get_slot r s"
  by (cases "get_sess (fst r) s") (auto simp: get_slot_def get_sess_upd_sess)

lemma get_sess_cong: "session_vec s' = session_vec s \<Longrightarrow> get_sess sn s' = get_sess sn s"
  by (simp add: get_sess_def)

lemma get_slot_cong: "session_vec s' = session_vec s \<Longrightarrow> get_slot r s' = get_slot r s"
  by (simp add: get_slot_def get_sess_def)

lemma upd_slot_sel [simp]:
  "mbufs (upd_slot r f s) = mbufs s" "stallq (upd_slot r f s) = stallq s" "tw (upd_slot r f s) = tw s"
  "cur_etid (upd_slot r f s) = cur_etid s" "ev_loop_tsc (upd_slot r f s) = ev_loop_tsc s"
  "anext (upd_slot r f s) = anext s" "aprev (upd_slot r f s) = aprev s"
  "tx_burst_arr (upd_slot r f s) = tx_burst_arr s" "wire (upd_slot r f s) = wire s"
  "huge_al (upd_slot r f s) = huge_al s" "tsc_i (upd_slot r f s) = tsc_i s"
  by (simp_all add: upd_slot_def)

lemma upd_mbuf_sel [simp]:
  "session_vec (upd_mbuf m f s) = session_vec s" "stallq (upd_mbuf m f s) = stallq s"
  "cur_etid (upd_mbuf m f s) = cur_etid s" "anext (upd_mbuf m f s) = anext s" "aprev (upd_mbuf m f s) = aprev s"
  "tx_burst_arr (upd_mbuf m f s) = tx_burst_arr s" "mbufs (upd_mbuf m f s) = (mbufs s)(m := f (mbufs s m))"
  "tw (upd_mbuf m f s) = tw s" "huge_al (upd_mbuf m f s) = huge_al s" "ev_loop_tsc (upd_mbuf m f s) = ev_loop_tsc s"
  by (simp_all add: upd_mbuf_def)

lemma get_slot_upd_slot:
  assumes "get_slot r s = Inr sl"
  shows "get_slot r' (upd_slot r f s) = (if r' = r then Inr (f sl) else get_slot r' s)"
proof -
  obtain se where se: "get_sess (fst r) s = Inr se" "snd r < length (sslot_arr se)" "sl = sslot_arr se ! snd r"
    using assms by (auto simp: get_slot_Inr)
  show ?thesis
  proof (cases "fst r' = fst r")
    case True
    then show ?thesis using se
      by (auto simp: get_slot_def upd_slot_def get_sess_upd_sess nth_list_update_full prod_eq_iff)
  next
    case False
    then show ?thesis by (auto simp: get_slot_def upd_slot_def get_sess_upd_sess)
  qed
qed

lemma clients_upd_sess:
  assumes "get_sess sn s = Inr se"
  shows "clients (upd_sess sn f s) = (clients s)[sn := abs_entry (Some (f se))]"
  using assms by (simp add: clients_def get_sess_Inr map_update)

lemma clients_upd_sess_id:
  assumes "get_sess sn s = Inr se" "is_client (f se) = is_client se" "abs_sess (f se) = abs_sess se"
  shows "clients (upd_sess sn f s) = clients s"
proof -
  have "sn < length (clients s)" "clients s ! sn = abs_entry (Some se)"
    using assms(1) by (auto simp: clients_def get_sess_Inr)
  moreover have "abs_entry (Some (f se)) = abs_entry (Some se)" using assms by (simp add: abs_entry_def)
  ultimately show ?thesis using clients_upd_sess [OF assms(1), of f] list_update_id [of "clients s" sn] by simp
qed

lemma clients_upd_slot_id:
  assumes "get_slot r s = Inr sl" "abs_slot (f sl) = abs_slot sl"
  shows "clients (upd_slot r f s) = clients s"
proof -
  obtain se where se: "get_sess (fst r) s = Inr se" "snd r < length (sslot_arr se)" "sl = sslot_arr se ! snd r"
    using assms by (auto simp: get_slot_Inr)
  then have "map abs_slot ((sslot_arr se)[snd r := f (sslot_arr se ! snd r)]) = map abs_slot (sslot_arr se)"
    using assms(2) by (simp add: map_update_id)
  then show ?thesis unfolding upd_slot_def
    by (intro clients_upd_sess_id [OF se(1)]) (simp_all add: abs_sess_def)
qed

subsection \<open>What transmission leaves unchanged\<close>

text \<open>
  Sessions without the fields that transmission and rate updates change: time stamps, wheel
  bookkeeping and congestion control.
\<close>

definition norm_slot :: "SSlot \<Rightarrow> SSlot" where
  "norm_slot sl = sl\<lparr>in_wheel := [], wheel_count := 0, tx_ts := []\<rparr>"

definition norm_sess :: "Session \<Rightarrow> Session" where
  "norm_sess se = se\<lparr>sslot_arr := map norm_slot (sslot_arr se), se_timely := timely_init 0 0 0,
    prev_desired_tx_tsc := 0\<rparr>"

definition core :: "rpc \<Rightarrow> Session option list" where
  "core s = map (map_option norm_sess) (session_vec s)"

definition is_ctrl :: "mbref \<Rightarrow> bool" where
  "is_ctrl m \<longleftrightarrow> (\<exists>i. m = CtrlBuf i)"

definition frame :: "rpc \<Rightarrow> rpc \<Rightarrow> bool" where
  "frame s s' \<longleftrightarrow> core s' = core s \<and> cur_etid s' = cur_etid s \<and> stallq s' = stallq s \<and>
    anext s' = anext s \<and> aprev s' = aprev s \<and> ev_loop_tsc s' = ev_loop_tsc s \<and>
    (\<forall>m. \<not> is_ctrl m \<longrightarrow> mbufs s' m = mbufs s m)"

lemma frame_refl [simp]: "frame s s"
  by (simp add: frame_def)

lemma frame_trans [trans]: "frame s t \<Longrightarrow> frame t u \<Longrightarrow> frame s u"
  by (simp add: frame_def)

lemma core_cong: "session_vec s' = session_vec s \<Longrightarrow> core s' = core s"
  by (simp add: core_def)

lemma core_upd_sess_at:
  "get_sess sn s = Inr se \<Longrightarrow> norm_sess (f se) = norm_sess se \<Longrightarrow> core (upd_sess sn f s) = core s"
  by (simp add: core_def get_sess_Inr map_update_id)

lemma core_upd_sess:
  assumes "\<And>se. norm_sess (f se) = norm_sess se"
  shows "core (upd_sess sn f s) = core s"
proof -
  have "map_option norm_sess (map_option f x) = map_option norm_sess x" for x
    using assms by (cases x) simp_all
  then show ?thesis by (simp add: core_def map_update_id)
qed

lemma core_upd_slot:
  assumes "\<And>sl. norm_slot (f sl) = norm_slot sl"
  shows "core (upd_slot r f s) = core s"
  unfolding upd_slot_def using assms by (intro core_upd_sess) (simp add: norm_sess_def map_update_id)

lemma abs_norm_slot [simp]: "abs_slot (norm_slot sl) = abs_slot sl"
  by (simp add: abs_slot_def norm_slot_def)

lemma abs_norm_sess [simp]: "abs_sess (norm_sess se) = abs_sess se" "is_client (norm_sess se) = is_client se"
  by (simp_all add: abs_sess_def norm_sess_def)

lemma clients_core: "clients s = map abs_entry (core s)"
proof -
  have "abs_entry (map_option norm_sess x) = abs_entry x" for x
    by (cases x) (simp_all add: abs_entry_def)
  then show ?thesis by (simp add: clients_def core_def)
qed

lemma frame_clients: "frame s s' \<Longrightarrow> clients s' = clients s"
  by (simp add: clients_core frame_def)

lemma core_nth:
  "sn < length (session_vec s) \<Longrightarrow> core s ! sn = map_option norm_sess (session_vec s ! sn)"
  by (simp add: core_def)

lemma frame_get_sess:
  assumes "frame s s'" "get_sess sn s = Inr se"
  shows "\<exists>se'. get_sess sn s' = Inr se' \<and> norm_sess se' = norm_sess se"
proof -
  have c: "core s' = core s" using assms(1) by (simp add: frame_def)
  have l: "sn < length (session_vec s)" "session_vec s ! sn = Some se" using assms(2) by (auto simp: get_sess_Inr)
  have "length (session_vec s') = length (session_vec s)" using c by (metis core_def length_map)
  moreover have "map_option norm_sess (session_vec s' ! sn) = Some (norm_sess se)"
    using core_nth [of sn s'] core_nth [of sn s] c l calculation by simp
  ultimately show ?thesis using l by (auto simp: get_sess_Inr)
qed

lemma norm_sessD:
  assumes "norm_sess se' = norm_sess se"
  shows "is_client se' = is_client se" "credits se' = credits se" "se_state se' = se_state se"
    "map norm_slot (sslot_arr se') = map norm_slot (sslot_arr se)" "length (sslot_arr se') = length (sslot_arr se)"
    "sslot_free_vec se' = sslot_free_vec se" "enq_req_backlog se' = enq_req_backlog se"
    "remote_session_num se' = remote_session_num se" "abs_sess se' = abs_sess se"
proof -
  show "is_client se' = is_client se" "credits se' = credits se" "se_state se' = se_state se"
    "map norm_slot (sslot_arr se') = map norm_slot (sslot_arr se)" "sslot_free_vec se' = sslot_free_vec se"
    "enq_req_backlog se' = enq_req_backlog se" "remote_session_num se' = remote_session_num se"
    using arg_cong [OF assms, of is_client] arg_cong [OF assms, of credits] arg_cong [OF assms, of se_state]
      arg_cong [OF assms, of sslot_arr] arg_cong [OF assms, of sslot_free_vec]
      arg_cong [OF assms, of enq_req_backlog] arg_cong [OF assms, of remote_session_num]
    by (simp_all add: norm_sess_def)
  show "abs_sess se' = abs_sess se" using assms by (metis abs_norm_sess(1))
  then show "length (sslot_arr se') = length (sslot_arr se)"
    using assms by (metis abs_sess_sel(2) length_map)
qed

lemma norm_slotD:
  assumes "norm_slot a = norm_slot b"
  shows "tx_msgbuf a = tx_msgbuf b" "num_tx a = num_tx b" "num_rx a = num_rx b" "cur_req_num a = cur_req_num b"
    "resp_msgbuf a = resp_msgbuf b" "sl_index a = sl_index b"
proof -
  show "tx_msgbuf a = tx_msgbuf b" "num_tx a = num_tx b" "num_rx a = num_rx b" "cur_req_num a = cur_req_num b"
    "resp_msgbuf a = resp_msgbuf b" "sl_index a = sl_index b"
    using arg_cong [OF assms, of tx_msgbuf] arg_cong [OF assms, of num_tx] arg_cong [OF assms, of num_rx]
      arg_cong [OF assms, of cur_req_num] arg_cong [OF assms, of resp_msgbuf] arg_cong [OF assms, of sl_index]
    by (simp_all add: norm_slot_def)
qed

lemma frame_get_slot:
  assumes "frame s s'" "get_slot r s = Inr sl"
  shows "\<exists>sl'. get_slot r s' = Inr sl' \<and> norm_slot sl' = norm_slot sl"
proof -
  obtain se where se: "get_sess (fst r) s = Inr se" "snd r < length (sslot_arr se)" "sl = sslot_arr se ! snd r"
    using assms(2) by (auto simp: get_slot_Inr)
  obtain se' where se': "get_sess (fst r) s' = Inr se'" "norm_sess se' = norm_sess se"
    using frame_get_sess [OF assms(1) se(1)] by blast
  note N = norm_sessD [OF se'(2)]
  have "norm_slot (sslot_arr se' ! snd r) = norm_slot sl" using N(4,5) se(2,3) by (metis nth_map)
  then show ?thesis using se' se N(5) by (auto simp: get_slot_Inr)
qed

subsection \<open>Transmission is a frame\<close>

lemma frame_same_sessions:
  "session_vec s' = session_vec s \<Longrightarrow> cur_etid s' = cur_etid s \<Longrightarrow> stallq s' = stallq s \<Longrightarrow>
    anext s' = anext s \<Longrightarrow> aprev s' = aprev s \<Longrightarrow> ev_loop_tsc s' = ev_loop_tsc s \<Longrightarrow>
    (\<And>m. \<not> is_ctrl m \<Longrightarrow> mbufs s' m = mbufs s m) \<Longrightarrow> frame s s'"
  by (simp add: frame_def core_def)

lemma frame_upd_slot: "(\<And>sl. norm_slot (f sl) = norm_slot sl) \<Longrightarrow> frame s (upd_slot r f s)"
  by (simp add: frame_def core_upd_slot)

lemma frame_upd_sess: "(\<And>se. norm_sess (f se) = norm_sess se) \<Longrightarrow> frame s (upd_sess sn f s)"
  by (simp add: frame_def core_upd_sess)

lemma frame_stamp: "frame s (stamp_tx t it s)"
  by (auto simp: stamp_tx_def norm_slot_def intro!: frame_upd_slot split: option.splits)

lemma frame_stamps: "frame s (fold (stamp_tx t) its s)"
proof (induction its arbitrary: s)
  case (Cons it its)
  show ?case using frame_trans [OF frame_stamp Cons.IH] by simp
qed simp

lemma frame_do_tx_burst:
  assumes "do_tx_burst_st e s = Inr s'"
  shows "frame s s'"
proof -
  let ?s1 = "snd (rdtsc e s)" and ?t = "fst (rdtsc e s)"
  let ?s2 = "fold (stamp_tx ?t) (tx_burst_arr ?s1) ?s1"
  have "s' = ?s2\<lparr>wire := wire ?s2 @ map (wire_of e ?s2) (tx_burst_arr ?s2), tx_burst_arr := []\<rparr>"
    using assms by (simp add: do_tx_burst_st_def res_Inr rdtsc_def Let_def)
  moreover have "frame s ?s1" by (intro frame_same_sessions) (simp_all add: rdtsc_def)
  then have "frame s ?s2" using frame_trans frame_stamps by blast
  moreover have "frame ?s2 s'" using calculation(1) by (intro frame_same_sessions) simp_all
  ultimately show ?thesis using frame_trans by blast
qed

lemma frame_drain:
  assumes "drain_tx_batch_and_dma_queue e s = Inr s'"
  shows "frame s s'"
proof -
  obtain s1 where s1: "(if 0 < length (tx_burst_arr s) then do_tx_burst_st e s else Inr s) = Inr s1"
    "s' = s1\<lparr>tx_flush_count := tx_flush_count s1 + 1\<rparr>"
    using assms by (auto simp: drain_tx_batch_and_dma_queue_def bindE_eq_Inr)
  then have "frame s s1" using frame_do_tx_burst by (auto split: if_splits)
  moreover have "frame s1 s'" using s1 by (intro frame_same_sessions) simp_all
  ultimately show ?thesis by (rule frame_trans)
qed

lemma frame_push_tx_item:
  assumes "push_tx_item e it s = Inr s'"
  shows "frame s s'"
proof -
  let ?s1 = "s\<lparr>tx_burst_arr := tx_burst_arr s @ [it]\<rparr>"
  have "frame s ?s1" by (intro frame_same_sessions) simp_all
  moreover have "frame ?s1 s'"
    using assms frame_do_tx_burst by (auto simp: push_tx_item_def Let_def split: if_splits)
  ultimately show ?thesis by (rule frame_trans)
qed

lemma frame_enqueue_pkt: "enqueue_pkt_tx_burst_st e r i ts s = Inr s' \<Longrightarrow> frame s s'"
  by (auto simp: enqueue_pkt_tx_burst_st_def res_Inr split: option.splits dest: frame_push_tx_item)

lemma enqueue_pkt_active:
  "enqueue_pkt_tx_burst_st e r i ts s = Inr s' \<Longrightarrow> get_slot r s = Inr sl \<Longrightarrow> tx_msgbuf sl \<noteq> None"
  by (auto simp: enqueue_pkt_tx_burst_st_def res_Inr split: option.splits)

lemma frame_enqueue_hdr: "enqueue_hdr_tx_burst_st e r m ts s = Inr s' \<Longrightarrow> frame s s'"
  by (auto simp: enqueue_hdr_tx_burst_st_def res_Inr dest: frame_push_tx_item)

lemma frame_ctrl: "frame s (upd_mbuf (fst (next_ctrl_msgbuf e s)) f (snd (next_ctrl_msgbuf e s)))"
  by (intro frame_same_sessions) (auto simp: next_ctrl_msgbuf_def Let_def is_ctrl_def upd_mbuf_def)

lemma frame_enqueue_cr: "enqueue_cr_st e r h s = Inr s' \<Longrightarrow> frame s s'"
  by (auto simp: enqueue_cr_st_def res_Inr case_prod_unfold Let_def
      dest!: frame_enqueue_hdr intro: frame_trans [OF frame_ctrl])

lemma frame_enqueue_rfr: "enqueue_rfr_st e r h s = Inr s' \<Longrightarrow> frame s s'"
  by (auto simp: enqueue_rfr_st_def res_Inr case_prod_unfold Let_def
      dest!: frame_enqueue_hdr intro: frame_trans [OF frame_ctrl])

lemma norm_sess_cc: "norm_sess (snd (cc_getupdate_tx_tsc f t n se)) = norm_sess se"
  by (simp add: cc_getupdate_tx_tsc_def Let_def norm_sess_def)

lemma frame_enqueue_wheel:
  assumes "enqueue_wheel_st e r pn sz s = Inr s'"
  shows "frame s s'"
proof -
  let ?s1 = "snd (rdtsc e s)" and ?t = "fst (rdtsc e s)"
  obtain se w h where se: "get_sess (fst r) ?s1 = Inr se"
    and s': "s' = upd_slot r (\<lambda>sl. sl\<lparr>in_wheel := (in_wheel sl)[pn mod kSessionCredits := True],
        wheel_count := wheel_count sl + 1\<rparr>)
      ((upd_sess (fst r) (\<lambda>_. snd (cc_getupdate_tx_tsc (freq_ghz e) ?t sz se)) ?s1)\<lparr>tw := w, huge_al := h\<rparr>)"
    using assms by (auto simp: enqueue_wheel_st_def case_prod_unfold Let_def bindE_eq_Inr)
  let ?s2 = "upd_sess (fst r) (\<lambda>_. snd (cc_getupdate_tx_tsc (freq_ghz e) ?t sz se)) ?s1"
  have "core ?s2 = core ?s1" by (rule core_upd_sess_at [OF se]) (simp add: norm_sess_cc)
  then have "frame ?s1 ?s2" by (simp add: frame_def)
  moreover have "frame s ?s1" by (intro frame_same_sessions) (simp_all add: rdtsc_def)
  moreover have "frame ?s2 (?s2\<lparr>tw := w, huge_al := h\<rparr>)" by (intro frame_same_sessions) simp_all
  moreover have "frame (?s2\<lparr>tw := w, huge_al := h\<rparr>) s'"
    unfolding s' by (intro frame_upd_slot) (simp add: norm_slot_def)
  ultimately show ?thesis using frame_trans by blast
qed

lemma frame_enqueue_wheel_req:
  assumes "enqueue_wheel_req_st e r pn s = Inr s'"
  shows "frame s s'" "get_slot r s = Inr sl \<Longrightarrow> tx_msgbuf sl \<noteq> None"
  using assms
  by (auto simp: enqueue_wheel_req_st_def res_Inr tx_buf_def dest: frame_enqueue_wheel split: option.splits)

lemma frame_update_timely:
  assumes "update_timely_rate r pn t s = Inr s'"
  shows "frame s s'"
  using assms by (auto simp: update_timely_rate_def res_Inr norm_sess_def intro!: frame_upd_sess)

lemma frame_in_order:
  assumes "in_order_client r h s = Inr (ok, s')"
  shows "frame s s'"
  using assms by (auto simp: in_order_client_def res_Inr split: if_splits intro!: frame_same_sessions)

subsection \<open>Simulation of the client's operations\<close>

lemma upd_sess_comp: "upd_sess sn f (upd_sess sn g s) = upd_sess sn (\<lambda>se. f (g se)) s"
proof (cases "sn < length (session_vec s)")
  case True
  then show ?thesis by (simp add: upd_sess_def option.map_comp comp_def)
qed (simp add: upd_sess_def list_update_beyond)

lemma sstep_sess:
  assumes "get_sess sn s = Inr se" "is_client se" "is_client (f se)" "cstep (abs_sess se) (abs_sess (f se))"
  shows "sstep (clients s) (clients (upd_sess sn f s))"
proof -
  have "sn < length (clients s)" "clients s ! sn = Some (abs_sess se)"
    using assms by (auto simp: clients_def get_sess_Inr abs_entry_def)
  then show ?thesis
    unfolding clients_upd_sess [OF assms(1)] using assms by (simp add: abs_entry_def sstep.session)
qed

lemma abs_sess_slot:
  assumes "i < length (sslot_arr se)" "abs_slot (f (sslot_arr se ! i)) = g (abs_slot (sslot_arr se ! i))"
  shows "abs_sess (se\<lparr>sslot_arr := (sslot_arr se)[i := f (sslot_arr se ! i)]\<rparr>) = aupd i g (abs_sess se)"
  using assms by (simp add: abs_sess_def aupd_def map_update)

lemma abs_sess_credits: "abs_sess (se\<lparr>credits := c\<rparr>) = (abs_sess se)\<lparr>a_credits := c\<rparr>"
  by (simp add: abs_sess_def)

text \<open>The part of the state that sending with credits does not touch.\<close>

definition rest_same :: "rpc \<Rightarrow> rpc \<Rightarrow> bool" where
  "rest_same s t \<longleftrightarrow> cur_etid t = cur_etid s \<and> stallq t = stallq s \<and> anext t = anext s \<and> aprev t = aprev s \<and>
    ev_loop_tsc t = ev_loop_tsc s \<and> (\<forall>m. \<not> is_ctrl m \<longrightarrow> mbufs t m = mbufs s m)"

lemma frame_rest: "frame s t \<Longrightarrow> rest_same s t"
  by (simp add: frame_def rest_same_def)

lemma rest_same_refl [simp]: "rest_same s s"
  by (simp add: rest_same_def)

lemma rest_same_trans: "rest_same s t \<Longrightarrow> rest_same t u \<Longrightarrow> rest_same s u"
  by (simp add: rest_same_def)

lemma rest_same_use_credit: "rest_same s (use_credit r s)"
  by (simp add: rest_same_def use_credit_def)

text \<open>\<open>kicked r n s t\<close>: \<open>n\<close> packets of slot \<open>r\<close> were sent, each for one credit.\<close>

definition kicked :: "sref \<Rightarrow> nat \<Rightarrow> rpc \<Rightarrow> rpc \<Rightarrow> bool" where
  "kicked r n s t \<longleftrightarrow> sstep\<^sup>*\<^sup>* (clients s) (clients t) \<and> rest_same s t \<and>
    (\<exists>se sl se' sl'. get_sess (fst r) s = Inr se \<and> get_slot r s = Inr sl \<and> get_sess (fst r) t = Inr se' \<and>
      get_slot r t = Inr sl' \<and> is_client se' \<and> credits se' + n = credits se \<and> num_tx sl' = num_tx sl + n \<and>
      num_rx sl' = num_rx sl \<and> tx_msgbuf sl' = tx_msgbuf sl \<and> cur_req_num sl' = cur_req_num sl \<and>
      resp_msgbuf sl' = resp_msgbuf sl \<and> sl_index sl' = sl_index sl)"

lemma use_credit_kicked:
  assumes se: "get_sess (fst r) s = Inr se" "is_client se" "0 < credits se"
    and sl: "get_slot r s = Inr sl" "tx_msgbuf sl \<noteq> None"
  shows "kicked r 1 s (use_credit r s)"
proof -
  have i: "snd r < length (sslot_arr se)" "sl = sslot_arr se ! snd r"
    using sl(1) se(1) by (auto simp: get_slot_Inr)
  let ?f = "\<lambda>se. (se\<lparr>sslot_arr := (sslot_arr se)[snd r := (sslot_arr se ! snd r)\<lparr>num_tx := num_tx (sslot_arr se ! snd r) + 1\<rparr>]\<rparr>)
      \<lparr>credits := sub64 (credits se) 1\<rparr>"
  have uc: "use_credit r s = upd_sess (fst r) ?f s"
    by (simp add: use_credit_def upd_slot_def upd_sess_comp)
  have "abs_sess (?f se) = (aupd (snd r) (\<lambda>x. x\<lparr>a_tx := a_tx x + 1\<rparr>) (abs_sess se))
      \<lparr>a_credits := a_credits (abs_sess se) - 1\<rparr>"
    unfolding abs_sess_credits using i se(3)
    by (subst abs_sess_slot [where g = "\<lambda>x. x\<lparr>a_tx := a_tx x + 1\<rparr>"]) (simp_all add: abs_slot_def)
  moreover have "cstep (abs_sess se) \<dots>" using i sl(2) se(3) by (intro cstep.tx) simp_all
  ultimately have "sstep (clients s) (clients (use_credit r s))"
    unfolding uc using se by (intro sstep_sess [OF se(1)]) simp_all
  moreover have "get_sess (fst r) (use_credit r s) = Inr (?f se)"
    unfolding uc using se by (simp add: get_sess_upd_sess)
  moreover from this have "get_slot r (use_credit r s) = Inr (sl\<lparr>num_tx := num_tx sl + 1\<rparr>)"
    using i by (simp add: get_slot_def)
  ultimately show ?thesis using se sl rest_same_use_credit [of s r] by (auto simp: kicked_def)
qed

lemma frame_kicked:
  assumes "frame s t" "kicked r n t u" shows "kicked r n s u"
proof -
  obtain se sl se' sl' where *: "get_sess (fst r) t = Inr se" "get_slot r t = Inr sl" "get_sess (fst r) u = Inr se'"
      "get_slot r u = Inr sl'" "is_client se'" "credits se' + n = credits se" "num_tx sl' = num_tx sl + n"
      "num_rx sl' = num_rx sl" "tx_msgbuf sl' = tx_msgbuf sl" "cur_req_num sl' = cur_req_num sl"
      "resp_msgbuf sl' = resp_msgbuf sl" "sl_index sl' = sl_index sl"
    using assms(2) unfolding kicked_def by blast
  have "frame t s" using assms(1) by (simp add: frame_def)
  then obtain se0 sl0 where "get_sess (fst r) s = Inr se0" "norm_sess se0 = norm_sess se"
    "get_slot r s = Inr sl0" "norm_slot sl0 = norm_slot sl"
    using frame_get_sess [OF _ *(1)] frame_get_slot [OF _ *(2)] by blast
  moreover note norm_sessD(2) [OF this(2)] norm_slotD [OF this(4)]
  moreover have "rest_same s u" using assms rest_same_trans frame_rest by (metis kicked_def)
  moreover have "sstep\<^sup>*\<^sup>* (clients s) (clients u)"
    using assms frame_clients by (metis kicked_def)
  ultimately show ?thesis using * unfolding kicked_def by metis
qed

lemma kicked_trans:
  assumes "kicked r m s t" "kicked r n t u" shows "kicked r (m + n) s u"
  using assms unfolding kicked_def
  by (force intro: rtranclp_trans rest_same_trans)

lemma kicked_0:
  "get_sess (fst r) s = Inr se \<Longrightarrow> is_client se \<Longrightarrow> get_slot r s = Inr sl \<Longrightarrow> kicked r 0 s s"
  by (auto simp: kicked_def)

lemma kick_loop:
  assumes body: "\<And>t u sl. body t = Inr u \<Longrightarrow> get_slot r t = Inr sl \<Longrightarrow> tx_msgbuf sl \<noteq> None \<Longrightarrow>
      \<exists>v. frame t v \<and> u = use_credit r v"
    and loop: "forE n (\<lambda>_. body) s = Inr s'"
    and se: "get_sess (fst r) s = Inr se" "is_client se" "n \<le> credits se"
    and sl: "get_slot r s = Inr sl" "tx_msgbuf sl \<noteq> None"
  shows "kicked r n s s'"
proof (rule forE_inv [OF loop, where P = "\<lambda>i t. kicked r i s t"])
  show "kicked r 0 s s" by (rule kicked_0 [OF se(1,2) sl(1)])
next
  fix i t u assume i: "i < n" and t: "kicked r i s t" and u: "body t = Inr u"
  obtain se' sl' where *: "get_sess (fst r) t = Inr se'" "get_slot r t = Inr sl'" "is_client se'"
    "credits se' + i = credits se" "tx_msgbuf sl' = tx_msgbuf sl"
    using t se(1) sl(1) unfolding kicked_def by auto
  obtain v where v: "frame t v" "u = use_credit r v" using body [OF u *(2)] *(5) sl(2) by auto
  obtain sev slv where sv: "get_sess (fst r) v = Inr sev" "norm_sess sev = norm_sess se'"
    "get_slot r v = Inr slv" "norm_slot slv = norm_slot sl'"
    using frame_get_sess [OF v(1) *(1)] frame_get_slot [OF v(1) *(2)] by blast
  have "kicked r 1 v u" unfolding v(2)
    using norm_sessD(1,2) [OF sv(2)] norm_slotD(1) [OF sv(4)] * i se(3) sl(2)
    by (intro use_credit_kicked [OF sv(1) _ _ sv(3)]) simp_all
  then have "kicked r 1 t u" by (rule frame_kicked [OF v(1)])
  with t show "kicked r (Suc i) s u" using kicked_trans [of r i s t 1 u] by simp
qed

lemma kick_req_one_frame:
  assumes "kick_req_one e r b t = Inr u" "get_slot r t = Inr sl" "tx_msgbuf sl \<noteq> None"
  shows "\<exists>v. frame t v \<and> u = use_credit r v"
proof -
  obtain v where v: "(if b then enqueue_pkt_tx_burst_st e r (num_tx sl) (Some (r, num_tx sl mod kSessionCredits)) t
      else enqueue_wheel_req_st e r (num_tx sl) t) = Inr v" "u = use_credit r v"
    using assms by (auto simp: kick_req_one_def bindE_eq_Inr)
  then have "frame t v" by (cases b) (simp_all add: frame_enqueue_pkt frame_enqueue_wheel_req(1))
  with v(2) show ?thesis by blast
qed

lemma kick_rfr_one_frame:
  assumes "kick_rfr_one e r t = Inr u"
  shows "\<exists>v. frame t v \<and> u = use_credit r v"
  using assms by (simp add: kick_rfr_one_def bindE_eq_Inr) (blast intro: frame_enqueue_rfr)

lemma kick_req_st_kicked:
  assumes k: "kick_req_st e r s = Inr s'" and se: "get_sess (fst r) s = Inr se" "is_client se"
    and sl: "get_slot r s = Inr sl" "tx_msgbuf sl = Some m"
  shows "kicked r (min (credits se) (sub64 (num_pkts (mbufs s m)) (num_tx sl))) s s'"
proof -
  have "forE (min (credits se) (sub64 (num_pkts (mbufs s m)) (num_tx sl)))
      (\<lambda>_. kick_req_one e r (can_bypass_wheel sl se)) s = Inr s'"
    using k se sl by (simp add: kick_req_st_def res_Inr tx_buf_def Let_def)
  then show ?thesis using se sl kick_req_one_frame by (intro kick_loop) (auto simp: min_def)
qed

lemma kick_rfr_st_kicked:
  assumes k: "kick_rfr_st e r s = Inr s'" and se: "get_sess (fst r) s = Inr se" "is_client se"
    and sl: "get_slot r s = Inr sl" "tx_msgbuf sl = Some m"
  shows "kicked r (min (credits se) (sub64 (wire_pkts (mbufs s m) (mbufs s (resp_msgbuf sl))) (num_tx sl))) s s'"
proof -
  have "forE (min (credits se) (sub64 (wire_pkts (mbufs s m) (mbufs s (resp_msgbuf sl))) (num_tx sl)))
      (\<lambda>_. kick_rfr_one e r) s = Inr s'"
    using k se sl by (simp add: kick_rfr_st_def res_Inr tx_buf_def Let_def)
  then show ?thesis using se sl kick_rfr_one_frame by (intro kick_loop) (auto simp: min_def)
qed

subsection \<open>Every datapath operation simulates abstract steps\<close>

definition sim :: "rpc \<Rightarrow> rpc \<Rightarrow> bool" where
  "sim s t \<longleftrightarrow> sstep\<^sup>*\<^sup>* (clients s) (clients t)"

lemma sim_refl [simp]: "sim s s"
  by (simp add: sim_def)

lemma sim_trans [trans]: "sim s t \<Longrightarrow> sim t u \<Longrightarrow> sim s u"
  by (auto simp: sim_def)

lemma sim_eq: "clients t = clients s \<Longrightarrow> sim s t"
  by (simp add: sim_def)

lemma frame_sim: "frame s t \<Longrightarrow> sim s t"
  by (simp add: sim_eq frame_clients)

lemma kicked_sim: "kicked r n s t \<Longrightarrow> sim s t"
  by (simp add: kicked_def sim_def)

lemma sstep_sim: "sstep (clients s) (clients t) \<Longrightarrow> sim s t"
  by (auto simp: sim_def)

lemma clients_nonclient:
  assumes "get_sess sn s = Inr se" "\<not> is_client se" "\<not> is_client (f se)"
  shows "clients (upd_sess sn f s) = clients s"
proof -
  have "abs_entry (Some (f se)) = abs_entry (Some se)" using assms by (simp add: abs_entry_def)
  then show ?thesis using assms(1) by (simp add: clients_def get_sess_Inr map_update_id)
qed

lemma clients_nonclient_slot:
  assumes "get_sess (fst r) s = Inr se" "\<not> is_client se"
  shows "clients (upd_slot r f s) = clients s"
  unfolding upd_slot_def using assms by (intro clients_nonclient [OF assms(1)]) simp_all

text \<open>A session with this number is not a client session.\<close>

definition srv :: "rpc \<Rightarrow> nat \<Rightarrow> bool" where
  "srv s sn \<longleftrightarrow> (\<forall>se. get_sess sn s = Inr se \<longrightarrow> \<not> is_client se)"

lemma srv_clients: "srv s sn \<longleftrightarrow> \<not> (sn < length (clients s) \<and> clients s ! sn \<noteq> None)"
proof (cases "sn < length (session_vec s)")
  case True
  then show ?thesis
    by (cases "session_vec s ! sn") (auto simp: srv_def clients_def abs_entry_def get_sess_Inr)
qed (simp add: srv_def clients_def get_sess_Inr)

lemma sstep_none: "sstep L L' \<Longrightarrow> length L \<le> length L' \<and> (\<forall>i < length L. L' ! i = None \<longleftrightarrow> L ! i = None)"
  by (induction rule: sstep.induct) (auto simp: nth_list_update_full nth_append)

lemma ssteps_none: "sstep\<^sup>*\<^sup>* L L' \<Longrightarrow> length L \<le> length L' \<and> (\<forall>i < length L. L' ! i = None \<longleftrightarrow> L ! i = None)"
  by (induction rule: rtranclp_induct) (auto dest: sstep_none)

lemma sim_srv: "sim s t \<Longrightarrow> sn < length (session_vec s) \<Longrightarrow> srv t sn \<longleftrightarrow> srv s sn"
  using ssteps_none [of "clients s" "clients t"] by (auto simp: sim_def srv_clients clients_def)

lemma use_credit_nonclient:
  assumes "srv s (fst r)" "get_sess (fst r) s = Inr se"
  shows "clients (use_credit r s) = clients s"
  unfolding use_credit_def upd_slot_def upd_sess_comp
  using assms by (intro clients_nonclient [OF assms(2)]) (auto simp: srv_def)

lemma kick_loop_nonclient:
  assumes body: "\<And>t u. body t = Inr u \<Longrightarrow> \<exists>v. frame t v \<and> u = use_credit r v"
    and loop: "forE n (\<lambda>_. body) s = Inr s'" and se: "get_sess (fst r) s = Inr se" "\<not> is_client se"
  shows "clients s' = clients s"
proof -
  have "clients s' = clients s \<and> (\<exists>se. get_sess (fst r) s' = Inr se)"
  proof (rule forE_inv [OF loop, where P = "\<lambda>i t. clients t = clients s \<and> (\<exists>se. get_sess (fst r) t = Inr se)"])
    fix i t u assume t: "clients t = clients s \<and> (\<exists>se. get_sess (fst r) t = Inr se)" and u: "body t = Inr u"
    obtain v where v: "frame t v" "u = use_credit r v" using body [OF u] by blast
    obtain sev where sev: "get_sess (fst r) v = Inr sev" using frame_get_sess [OF v(1)] t by blast
    have "srv s (fst r)" using se by (auto simp: srv_def)
    then have "srv v (fst r)" using frame_clients [OF v(1)] t by (simp add: srv_clients)
    then have "clients u = clients v" unfolding v(2) by (rule use_credit_nonclient [OF _ sev])
    moreover have "\<exists>se. get_sess (fst r) u = Inr se"
      unfolding v(2) using sev by (simp add: use_credit_def upd_slot_def upd_sess_comp get_sess_upd_sess)
    ultimately show "clients u = clients s \<and> (\<exists>se. get_sess (fst r) u = Inr se)"
      using t frame_clients [OF v(1)] by simp
  qed (use se in simp)
  then show ?thesis by simp
qed

lemma kick_req_one_frame':
  assumes "kick_req_one e r b t = Inr u"
  shows "\<exists>v. frame t v \<and> u = use_credit r v"
  using assms kick_req_one_frame [OF assms]
  by (auto simp: kick_req_one_def bindE_eq_Inr dest: enqueue_pkt_active frame_enqueue_wheel_req(2) split: if_splits)

lemma kick_req_sim:
  assumes k: "kick_req_st e r s = Inr s'"
  shows "sim s s'"
proof -
  obtain se sl m where *: "get_sess (fst r) s = Inr se" "get_slot r s = Inr sl" "tx_msgbuf sl = Some m"
    and loop: "forE (min (credits se) (sub64 (num_pkts (mbufs s m)) (num_tx sl)))
      (\<lambda>_. kick_req_one e r (can_bypass_wheel sl se)) s = Inr s'"
    using k by (auto simp: kick_req_st_def res_Inr tx_buf_def Let_def split: option.splits)
  show ?thesis
  proof (cases "is_client se")
    case True
    then show ?thesis using kicked_sim [OF kick_req_st_kicked [OF k *(1) True *(2,3)]] by simp
  next
    case False
    then show ?thesis using kick_loop_nonclient [OF kick_req_one_frame' loop *(1)] by (simp add: sim_eq)
  qed
qed

lemma kick_rfr_sim:
  assumes k: "kick_rfr_st e r s = Inr s'"
  shows "sim s s'"
proof -
  obtain se sl m n where *: "get_sess (fst r) s = Inr se" "get_slot r s = Inr sl" "tx_msgbuf sl = Some m"
    and loop: "forE n (\<lambda>_. kick_rfr_one e r) s = Inr s'"
    using k by (auto simp: kick_rfr_st_def res_Inr tx_buf_def Let_def split: option.splits)
  show ?thesis
  proof (cases "is_client se")
    case True
    then show ?thesis using kicked_sim [OF kick_rfr_st_kicked [OF k *(1) True *(2,3)]] by simp
  next
    case False
    then show ?thesis using kick_loop_nonclient [OF kick_rfr_one_frame loop *(1)] by (simp add: sim_eq)
  qed
qed

lemma kick_pending_sim: "kick_pending e r s = Inr s' \<Longrightarrow> sim s s'"
  by (auto simp: kick_pending_def bindE_eq_Inr split: if_splits dest: kick_req_sim kick_rfr_sim)

lemma upd_slot_comp:
  assumes "get_slot r s = Inr sl"
  shows "upd_slot r f (upd_slot r g s) = upd_slot r (\<lambda>sl. f (g sl)) s"
proof -
  obtain se where "fst r < length (session_vec s)" "session_vec s ! fst r = Some se" "snd r < length (sslot_arr se)"
    using assms by (auto simp: get_slot_Inr get_sess_Inr)
  then show ?thesis by (simp add: upd_slot_def upd_sess_def)
qed

lemma session_vec_upd_slot_cong:
  "session_vec t = session_vec s \<Longrightarrow> session_vec (upd_slot r f t) = session_vec (upd_slot r f s)"
  by (simp add: upd_slot_def)

lemma session_vec_add_list [simp]: "session_vec (add_to_active_rpc_list r s) = session_vec s"
  by (simp add: add_to_active_rpc_list_def Let_def)

lemma session_vec_del_list [simp]: "session_vec (delete_from_active_rpc_list r s) = session_vec s"
  by (simp add: delete_from_active_rpc_list_def Let_def)

lemma slot_step_sim:
  assumes se: "get_sess (fst r) s = Inr se" and sl: "get_slot r s = Inr sl"
    and g: "abs_slot (f sl) = g (abs_slot sl)"
    and st: "is_client se \<Longrightarrow> cstep (abs_sess se) (aupd (snd r) g (abs_sess se))"
  shows "sim s (upd_slot r f s)"
proof (cases "is_client se")
  case True
  have i: "snd r < length (sslot_arr se)" "sl = sslot_arr se ! snd r" using se sl by (auto simp: get_slot_Inr)
  then show ?thesis unfolding upd_slot_def
    using st [OF True] True abs_sess_slot [OF i(1), of f g] g
    by (intro sstep_sim sstep_sess [OF se]) simp_all
next
  case False
  then show ?thesis using clients_nonclient_slot [OF se] by (simp add: sim_eq)
qed

definition fill_slot :: "mbref \<Rightarrow> mbref \<Rightarrow> nat \<Rightarrow> nat \<Rightarrow> nat \<Rightarrow> nat \<Rightarrow> nat \<Rightarrow> SSlot \<Rightarrow> SSlot" where
  "fill_slot req resp cf tag etid rn t sl = sl\<lparr>tx_msgbuf := Some req, cur_req_num := rn, resp_msgbuf := resp,
     cont_func := cf, cont_tag := tag, progress_tsc := t, num_rx := 0, num_tx := 0, cont_etid := etid\<rparr>"

lemma session_vec_fill_sslot:
  assumes "get_slot r s = Inr sl"
  shows "session_vec (fill_sslot rt req resp cf tag etid r se sl s) =
    session_vec (upd_slot r (fill_slot req resp cf tag etid (cur_req_num sl + kSessionReqWindow) (ev_loop_tsc s)) s)"
proof -
  let ?g = "\<lambda>x. x\<lparr>tx_msgbuf := Some req, cur_req_num := cur_req_num sl + kSessionReqWindow, resp_msgbuf := resp,
    cont_func := cf, cont_tag := tag, progress_tsc := ev_loop_tsc s\<rparr>"
  let ?f = "\<lambda>sl. sl\<lparr>num_rx := 0, num_tx := 0, cont_etid := etid\<rparr>"
  have "session_vec (fill_sslot rt req resp cf tag etid r se sl s) =
      session_vec (upd_slot r ?f (add_to_active_rpc_list r (upd_slot r ?g s)))"
    by (simp add: fill_sslot_def Let_def)
  also have "\<dots> = session_vec (upd_slot r ?f (upd_slot r ?g s))"
    by (rule session_vec_upd_slot_cong) simp
  also have "\<dots> = session_vec (upd_slot r (fill_slot req resp cf tag etid (cur_req_num sl + kSessionReqWindow)
      (ev_loop_tsc s)) s)"
    unfolding upd_slot_comp [OF assms] fill_slot_def by simp
  finally show ?thesis .
qed

lemma enqueue_request_sim:
  assumes "enqueue_request e sn rt req resp cf tag etid s = Inr s'"
  shows "sim s s'"
proof (cases "in_dispatch e s")
  case False
  then have "session_vec s' = session_vec s" using assms by (auto simp: enqueue_request_def)
  then show ?thesis by (intro sim_eq clients_cong)
next
  case True
  then obtain se where se: "get_sess sn s = Inr se" "is_connected se"
    using assms by (auto simp: enqueue_request_def res_Inr)
  show ?thesis
  proof (cases "fv_size (sslot_free_vec se) = 0")
    case True
    then show ?thesis using assms se \<open>in_dispatch e s\<close>
      by (auto simp: enqueue_request_def res_Inr abs_sess_def intro!: sim_eq clients_upd_sess_id [OF se(1)])
  next
    case False
    let ?b = "\<lambda>fv. upd_sess sn (\<lambda>se. se\<lparr>sslot_free_vec := fv\<rparr>) s"
    obtain i fv where fv: "fv_pop_back (sslot_free_vec se) = Inr (i, fv)"
      using assms se \<open>in_dispatch e s\<close> False
      by (cases "fv_pop_back (sslot_free_vec se)") (auto simp: enqueue_request_def)
    obtain sl where sl: "get_slot (sn, i) (?b fv) = Inr sl" "tx_msgbuf sl = None"
      using assms se \<open>in_dispatch e s\<close> False fv
      by (cases "get_slot (sn, i) (?b fv)") (simp_all add: enqueue_request_def Let_def assertE_def split: if_splits)
    define s5 where "s5 = fill_sslot rt req resp cf tag etid (sn, i) se sl (?b fv)"
    have s': "(if 0 < credits se then kick_req_st e (sn, i) s5 else Inr (s5\<lparr>stallq := stallq s5 @ [(sn, i)]\<rparr>)) = Inr s'"
      using assms se \<open>in_dispatch e s\<close> False fv sl
      by (simp add: enqueue_request_def s5_def Let_def split: if_splits)
    have seb: "get_sess sn (?b fv) = Inr (se\<lparr>sslot_free_vec := fv\<rparr>)" using se by (simp add: get_sess_upd_sess)
    have "sim s (?b fv)" by (intro sim_eq clients_upd_sess_id [OF se(1)]) (simp_all add: abs_sess_def)
    also have "sim (?b fv) s5"
    proof -
      let ?h = "fill_slot req resp cf tag etid (cur_req_num sl + kSessionReqWindow) (ev_loop_tsc (?b fv))"
      have "session_vec s5 = session_vec (upd_slot (sn, i) ?h (?b fv))"
        unfolding s5_def by (rule session_vec_fill_sslot [OF sl(1)])
      moreover have "sim (?b fv) (upd_slot (sn, i) ?h (?b fv))"
      proof (rule slot_step_sim [OF _ sl(1)])
        show "get_sess (fst (sn, i)) (?b fv) = Inr (se\<lparr>sslot_free_vec := fv\<rparr>)" using seb by simp
        show "abs_slot (?h sl) = (abs_slot sl)\<lparr>a_active := True, a_tx := 0, a_rx := 0,
            a_req := a_req (abs_slot sl) + kSessionReqWindow\<rparr>" by (simp add: abs_slot_def fill_slot_def)
        have "i < length (sslot_arr se)" "sslot_arr se ! i = sl" using sl(1) seb by (auto simp: get_slot_Inr)
        then show "cstep (abs_sess (se\<lparr>sslot_free_vec := fv\<rparr>)) (aupd (snd (sn, i)) (\<lambda>x. x\<lparr>a_active := True, a_tx := 0,
            a_rx := 0, a_req := a_req x + kSessionReqWindow\<rparr>) (abs_sess (se\<lparr>sslot_free_vec := fv\<rparr>)))"
          using sl(2) by (intro cstep.start) (simp_all add: abs_sess_def)
      qed
      ultimately show ?thesis by (simp add: sim_def clients_def)
    qed
    also have "sim s5 s'"
      using s' kick_req_sim by (auto split: if_splits intro!: sim_eq clients_cong)
    finally show ?thesis .
  qed
qed

lemma in_order_okD:
  assumes "in_order_client r h s = Inr (True, s1)" "get_slot r s = Inr sl"
  shows "s1 = s" "num_rx sl = unat (pkt_num h)" "num_rx sl < num_tx sl" "cur_req_num sl = unat (req_num h)"
    "\<not> in_wheel sl ! (num_rx sl mod kSessionCredits)"
  using assms by (auto simp: in_order_client_def split: if_splits)

text \<open>Receiving the awaited packet: one credit is returned.\<close>

lemma client_track_step:
  assumes tr: "client_track r h t s = Inr s'" and sl: "get_slot r s = Inr sl" and lt: "num_rx sl < num_tx sl"
  shows "sim s s'" "mbufs s' = mbufs s"
    "\<exists>se' sl'. get_sess (fst r) s' = Inr se' \<and> is_client se' \<and> get_slot r s' = Inr sl' \<and> 0 < credits se' \<and>
      num_rx sl' = num_rx sl + 1 \<and> num_tx sl' = num_tx sl \<and> tx_msgbuf sl' = tx_msgbuf sl \<and>
      resp_msgbuf sl' = resp_msgbuf sl \<and> cur_req_num sl' = cur_req_num sl \<and> sl_index sl' = sl_index sl"
proof -
  obtain s1 s2 where s1: "update_timely_rate r (unat (pkt_num h)) t s = Inr s1" and s2: "bump_credits (fst r) s1 = Inr s2"
    and s': "s' = upd_slot r (\<lambda>sl. sl\<lparr>num_rx := num_rx sl + 1, progress_tsc := ev_loop_tsc s2\<rparr>) s2"
    using tr by (auto simp: client_track_def bindE_eq_Inr)
  have f1: "frame s s1" using frame_update_timely [OF s1] .
  obtain sl1 where sl1: "get_slot r s1 = Inr sl1" "norm_slot sl1 = norm_slot sl" using frame_get_slot [OF f1 sl] by blast
  note N = norm_slotD [OF sl1(2)]
  obtain se where se: "get_sess (fst r) s1 = Inr se" "is_client se"
    and s2': "s2 = upd_sess (fst r) (\<lambda>se. se\<lparr>credits := credits se + 1\<rparr>) s1"
    using s2 by (auto simp: bump_credits_def res_Inr)
  have i: "snd r < length (sslot_arr se)" "sl1 = sslot_arr se ! snd r" using sl1 se by (auto simp: get_slot_Inr)
  let ?g = "\<lambda>sl. sl\<lparr>num_rx := num_rx sl + 1, progress_tsc := ev_loop_tsc s2\<rparr>"
  let ?f = "\<lambda>se. (se\<lparr>credits := credits se + 1\<rparr>)\<lparr>sslot_arr := (sslot_arr se)[snd r := ?g (sslot_arr se ! snd r)]\<rparr>"
  have eq: "s' = upd_sess (fst r) ?f s1"
    unfolding s' s2' upd_slot_def upd_sess_comp by simp
  have se': "get_sess (fst r) s' = Inr (?f se)" unfolding eq using se by (simp add: get_sess_upd_sess)
  then have sl': "get_slot r s' = Inr (?g sl1)" using i by (simp add: get_slot_def)
  have af: "abs_sess (?f se) = (aupd (snd r) (\<lambda>x. x\<lparr>a_rx := a_rx x + 1\<rparr>) (abs_sess se))\<lparr>a_credits := a_credits (abs_sess se) + 1\<rparr>"
    using i by (simp add: abs_sess_def aupd_def map_update abs_slot_def)
  have "cstep (abs_sess se) (abs_sess (?f se))" unfolding af using i lt N by (intro cstep.rx) simp_all
  then have "sstep (clients s1) (clients s')" unfolding eq using se by (intro sstep_sess [OF se(1)]) simp_all
  then show "sim s s'" using frame_sim [OF f1] sstep_sim sim_trans by blast
  show "mbufs s' = mbufs s" using s1 by (auto simp: eq update_timely_rate_def res_Inr)
  show "\<exists>se' sl'. get_sess (fst r) s' = Inr se' \<and> is_client se' \<and> get_slot r s' = Inr sl' \<and> 0 < credits se' \<and>
      num_rx sl' = num_rx sl + 1 \<and> num_tx sl' = num_tx sl \<and> tx_msgbuf sl' = tx_msgbuf sl \<and>
      resp_msgbuf sl' = resp_msgbuf sl \<and> cur_req_num sl' = cur_req_num sl \<and> sl_index sl' = sl_index sl"
    using se' sl' se(2) N by auto
qed

lemma process_expl_cr_sim:
  assumes "process_expl_cr_st e r h t s = Inr s'"
  shows "sim s s'"
proof -
  obtain sl ok s1 where sl: "get_slot r s = Inr sl" and io: "in_order_client r h s = Inr (ok, s1)"
    using assms by (auto simp: process_expl_cr_st_def res_Inr)
  show ?thesis
  proof (cases ok)
    case False
    then have "s' = s1" using assms sl io by (auto simp: process_expl_cr_st_def res_Inr)
    then show ?thesis using frame_sim [OF frame_in_order [OF io]] by simp
  next
    case True
    have "in_order_client r h s = Inr (True, s1)" using io True by simp
    note I = in_order_okD [OF this sl]
    obtain s2 sl2 b where s2: "client_track r h t s = Inr s2" and b: "(if b then kick_req_st e r s2 else Inr s2) = Inr s'"
      using assms sl io True I(1) by (auto simp: process_expl_cr_st_def res_Inr)
    have "sim s s2" by (rule client_track_step(1) [OF s2 sl I(3)])
    also have "sim s2 s'" using b kick_req_sim by (auto split: if_splits)
    finally show ?thesis .
  qed
qed

subsection \<open>Callbacks of the application\<close>

lemma clients_upd_mbuf [simp]: "clients (upd_mbuf m f s) = clients s"
  by (rule clients_cong) simp

lemma srv_upd_sess:
  assumes "srv s sn" "\<And>se. is_client (f se) = is_client se"
  shows "clients (upd_sess sn f s) = clients s"
proof -
  have "sn < length (session_vec s) \<Longrightarrow> abs_entry (map_option f (session_vec s ! sn)) = abs_entry (session_vec s ! sn)"
    using assms by (auto simp: srv_def get_sess_Inr abs_entry_def split: option.splits)
  then show ?thesis
    by (cases "sn < length (session_vec s)") (simp_all add: clients_def map_update_id list_update_beyond)
qed

lemma srv_upd_slot: "srv s (fst r) \<Longrightarrow> clients (upd_slot r f s) = clients s"
  unfolding upd_slot_def by (rule srv_upd_sess) simp_all

lemma srv_cong: "clients t = clients s \<Longrightarrow> srv t sn \<longleftrightarrow> srv s sn"
  by (simp add: srv_clients)

lemma srv_upd_slot_srv: "srv s (fst r) \<Longrightarrow> srv (upd_slot r f s) sn \<longleftrightarrow> srv s sn"
  by (rule srv_cong [OF srv_upd_slot])

lemma srv_upd_mbuf [simp]: "srv (upd_mbuf m f s) sn \<longleftrightarrow> srv s sn"
  by (rule srv_cong, rule clients_cong) simp

lemma clients_bury_req: "bury_req_msgbuf_server_st e r s = Inr s' \<Longrightarrow> clients s' = clients s"
  by (auto simp: bury_req_msgbuf_server_st_def res_Inr split: if_splits intro!: clients_cong)

lemma clients_enqueue_pkt: "enqueue_pkt_tx_burst_st e r i ts s = Inr s' \<Longrightarrow> clients s' = clients s"
  by (rule frame_clients [OF frame_enqueue_pkt])

lemma clients_drain: "drain_tx_batch_and_dma_queue e s = Inr s' \<Longrightarrow> clients s' = clients s"
  by (rule frame_clients [OF frame_drain])

lemma enqueue_response_clients:
  assumes eq: "enqueue_response e r resp s = Inr s'" and srv: "srv s (fst r)"
  shows "clients s' = clients s"
proof (cases "in_dispatch e s")
  case False
  then show ?thesis using eq by (auto simp: enqueue_response_def intro!: clients_cong)
next
  case True
  let ?s1 = "upd_slot r (\<lambda>sl. sl\<lparr>sav_num_req_pkts := num_pkts (mbufs s (ReqBuf r))\<rparr>) s"
  obtain s2 where s2: "bury_req_msgbuf_server_st e r ?s1 = Inr s2"
    using eq True by (auto simp: enqueue_response_def Let_def bindE_eq_Inr)
  have c2: "clients s2 = clients s" using clients_bury_req [OF s2] srv_upd_slot [OF srv] by simp
  then have v2: "srv s2 (fst r)" using srv srv_cong by blast
  obtain se sl where "get_sess (fst r) s2 = Inr se" "get_slot r s2 = Inr sl"
    and fin: "(if \<not> is_connected se
           then assertE (se_state se = kResetInProgress) (assertE (si_req_type sl \<noteq> kInvalidReqType)
             (Inr (upd_slot r (\<lambda>sl. sl\<lparr>si_req_type := kInvalidReqType\<rparr>) s2)))
           else assertE (tx_msgbuf sl = None) (assertE (si_req_type sl \<noteq> kInvalidReqType)
             (enqueue_pkt_tx_burst_st e r 0 None (upd_slot r (\<lambda>sl. sl\<lparr>si_req_type := kInvalidReqType\<rparr>)
               (upd_slot r (\<lambda>sl. sl\<lparr>tx_msgbuf := Some resp\<rparr>) (upd_mbuf resp (fill_resp_hdrs (si_req_type sl)
                 (remote_session_num se) (sub64 (sav_num_req_pkts sl) 1) (cur_req_num sl)) s2)))))) = Inr s'"
    using eq True s2 unfolding enqueue_response_def Let_def by (auto simp: bindE_eq_Inr)
  then show ?thesis using c2 v2
    by (auto simp: res_Inr srv_upd_slot srv_upd_slot_srv dest!: clients_enqueue_pkt split: if_splits)
qed

text \<open>
  The interface a callback of the application may use: new requests, the response to a request it was
  given, creating and destroying sessions, and changes of buffers and of application state, which leave
  the sessions alone.
\<close>

lemma ainv_fresh:
  assumes "credits se = kSessionCredits" "sslot_arr se = map (sslot_init c) [0..<kSessionReqWindow]"
  shows "ainv (abs_sess se)"
proof -
  have "map (\<lambda>sl. out_of (abs_slot sl)) (sslot_arr se) = replicate kSessionReqWindow 0"
    using assms(2) by (intro nth_equalityI) (simp_all add: sslot_init_def out_of_def)
  then show ?thesis using assms by (auto simp: ainv_def sum_list_replicate comp_def) (simp_all add: sslot_init_def)
qed

lemma session_init_ainv: "session_init c tok f bw now junk old = Inr se \<Longrightarrow> ainv (abs_sess se) \<and> is_client se = c"
  by (auto simp: session_init_def bindE_eq_Inr intro!: ainv_fresh)

lemma clients_upd_sess_same:
  assumes "\<And>se. credits (f se) = credits se \<and> sslot_arr (f se) = sslot_arr se \<and> is_client (f se) = is_client se"
  shows "clients (upd_sess sn f s) = clients s"
proof -
  have "abs_entry (map_option f x) = abs_entry x" for x
    using assms by (cases x) (simp_all add: abs_entry_def abs_sess_def)
  then have "map abs_entry ((session_vec s)[sn := map_option f (session_vec s ! sn)]) = map abs_entry (session_vec s)"
    by (intro nth_equalityI) (auto simp: nth_list_update_full)
  then show ?thesis by (simp add: clients_def upd_sess_def)
qed

lemma send_sm_req_clients:
  assumes "send_sm_req_st e sn s = Inr t"
  shows "clients t = clients s"
proof -
  obtain se now s2 where t: "t = sm_pkt_udp_tx_st (sm_req_of se) (upd_sess sn (\<lambda>se. se\<lparr>sm_req_ts := now\<rparr>) s2)"
    and s2: "session_vec s2 = session_vec s"
    using assms by (auto simp: send_sm_req_st_def res_Inr Let_def rdtsc_def)
  have "clients t = clients (upd_sess sn (\<lambda>se. se\<lparr>sm_req_ts := now\<rparr>) s2)"
    by (rule clients_cong) (simp add: t sm_pkt_udp_tx_st_def Let_def)
  also have "\<dots> = clients s2" by (rule clients_upd_sess_same) simp
  finally show ?thesis using clients_cong [OF s2] by simp
qed

lemma new_client_session_spec:
  assumes "new_client_session e h p i s = Inr (se, t)"
  shows "session_vec t = session_vec s" "ring_entries_available t = ring_entries_available s"
    "local_session_num se = u16_of (length (session_vec s))" "is_client se" "ainv (abs_sess se)" "se_state se = kConnectInProgress"
proof -
  obtain se0 now where i: "session_init True (slow_rand e (rand_i s)) (freq_ghz e) (bandwidth e) now (heap_junk e) (heap_old_tt e) = Inr se0"
    and c: "abs_sess se = abs_sess se0" "is_client se = is_client se0"
    and r: "session_vec t = session_vec s" "ring_entries_available t = ring_entries_available s"
     "local_session_num se = u16_of (length (session_vec s))" "se_state se = kConnectInProgress"
    using assms by (auto simp: new_client_session_def res_Inr Let_def rdtsc_def abs_sess_def)
  show "session_vec t = session_vec s" "ring_entries_available t = ring_entries_available s"
    "local_session_num se = u16_of (length (session_vec s))" "is_client se" "ainv (abs_sess se)" "se_state se = kConnectInProgress"
    using r c session_init_ainv [OF i] by auto
qed

lemma alloc_ring: "alloc_ring_entries s = Inr t \<Longrightarrow>
    session_vec t = session_vec s \<and> ring_entries_available t + kSessionCredits = ring_entries_available s"
  by (auto simp: alloc_ring_entries_def have_ring_entries_def res_Inr sub64_def)

lemma create_sessionE:
  assumes "create_session_st e u i s = Inr (n, t)"
  obtains "t = s"
  | h p se s1 s2 where "new_client_session e h p i s = Inr (se, s1)" "alloc_ring_entries s1 = Inr s2"
      "send_sm_req_st e (length (session_vec s2)) (s2\<lparr>session_vec := session_vec s2 @ [Some se]\<rparr>) = Inr t"
  using assms by (auto simp: create_session_st_def res_Inr split: if_splits)

lemma create_session_sim:
  assumes "create_session_st e u i s = Inr (n, t)"
  shows "sim s t"
  using assms
proof (cases rule: create_sessionE)
  case (2 h p se s1 s2)
  note n = new_client_session_spec [OF 2(1)] and a = alloc_ring [OF 2(2)]
  have "clients t = clients s @ [Some (abs_sess se)]"
    using send_sm_req_clients [OF 2(3)] n a by (simp add: clients_def abs_entry_def)
  then show ?thesis using n(5) sstep.create [of "Some (abs_sess se)" "clients s"] by (auto simp: sim_def)
qed simp

lemma destroy_sessionE:
  assumes "destroy_session_st e n s = Inr (r, t)"
  obtains "t = s" | sn where "send_sm_req_st e sn (upd_sess sn (\<lambda>se. se\<lparr>se_state := kDisconnectInProgress\<rparr>) s) = Inr t"
  using assms by (auto simp: destroy_session_st_def res_Inr Let_def split: if_splits option.splits SessionState.splits)

lemma destroy_session_clients:
  assumes "destroy_session_st e n s = Inr (r, t)"
  shows "clients t = clients s"
  using assms
proof (cases rule: destroy_sessionE)
  case (2 sn)
  then show ?thesis using send_sm_req_clients [OF 2] clients_upd_sess_same [of "\<lambda>se. se\<lparr>se_state := kDisconnectInProgress\<rparr>"] by simp
qed simp

inductive api :: "env \<Rightarrow> rpc \<Rightarrow> rpc \<Rightarrow> bool" for e where
  api_request: "enqueue_request e sn rt req resp cf tag etid s = Inr s' \<Longrightarrow> api e s s'"
| api_response: "srv s (fst r) \<Longrightarrow> enqueue_response e r resp s = Inr s' \<Longrightarrow> api e s s'"
| api_create: "create_session_st e u i s = Inr (n, s') \<Longrightarrow> api e s s'"
| api_destroy: "destroy_session_st e k s = Inr (n, s') \<Longrightarrow> api e s s'"
| api_local: "session_vec s' = session_vec s \<Longrightarrow> ring_entries_available s' = ring_entries_available s \<Longrightarrow> api e s s'"

text \<open>
  A call of the interface by code that may answer any request handle; the calls above are those in which a response is given to a
  handle of a server session.
\<close>

inductive api_call :: "env \<Rightarrow> rpc \<Rightarrow> rpc \<Rightarrow> bool" for e where
  call_api: "api e s s' \<Longrightarrow> api_call e s s'"
| call_response: "enqueue_response e r resp s = Inr s' \<Longrightarrow> api_call e s s'"

text \<open>
  What the application's code must satisfy: request handlers and continuations only call the interface, and a handler that was given a handle of a
  server session answers only such handles.
\<close>

definition cb_ok :: "env \<Rightarrow> bool" where
  "cb_ok e \<longleftrightarrow> (\<forall>rt r s s'. handler e rt r s = Inr s' \<longrightarrow> (api_call e)\<^sup>*\<^sup>* s s' \<and> (srv s (fst r) \<longrightarrow> (api e)\<^sup>*\<^sup>* s s')) \<and>
    (\<forall>cf tag s s'. continue e cf tag s = Inr s' \<longrightarrow> (api e)\<^sup>*\<^sup>* s s')"

lemma api_sim: "api e s s' \<Longrightarrow> sim s s'"
  by (induction rule: api.induct)
    (auto intro: enqueue_request_sim sim_eq enqueue_response_clients clients_cong create_session_sim destroy_session_clients)

lemma apis_sim: "(api e)\<^sup>*\<^sup>* s s' \<Longrightarrow> sim s s'"
  by (induction rule: rtranclp_induct) (auto intro: sim_trans api_sim)

lemma handler_sim: "cb_ok e \<Longrightarrow> handler e rt r s = Inr s' \<Longrightarrow> srv s (fst r) \<Longrightarrow> sim s s'"
  and continue_sim: "cb_ok e \<Longrightarrow> continue e cf tag s = Inr s' \<Longrightarrow> sim s s'"
  unfolding cb_ok_def by (meson apis_sim)+

lemma submit_bg_sim:
  "submit_bg_req_st e r s = Inr s' \<Longrightarrow> sim s s'" "submit_bg_resp_st e cf tag i s = Inr s' \<Longrightarrow> sim s s'"
  by (auto simp: submit_bg_req_st_def submit_bg_resp_st_def res_Inr Let_def case_prod_unfold
      intro!: sim_eq clients_cong)

lemma complete_request_sim:
  assumes c: "complete_request e r s = Inr s'" and cb: "cb_ok e"
    and sl: "get_slot r s = Inr sl" "num_rx sl = num_tx sl"
  shows "sim s s'"
proof -
  obtain se where se: "get_sess (fst r) s = Inr se" using sl by (auto simp: get_slot_Inr)
  let ?s1 = "upd_slot r (\<lambda>sl. sl\<lparr>tx_msgbuf := None\<rparr>) s"
  let ?s2 = "delete_from_active_rpc_list r ?s1"
  obtain se2 fv s5 where se2: "get_sess (fst r) ?s2 = Inr se2"
    and fv: "fv_push_back kSessionReqWindow (sl_index sl) (sslot_free_vec se2) = Inr fv"
    and s5: "(case enq_req_backlog se2 of
            [] \<Rightarrow> Inr (upd_sess (fst r) (\<lambda>se. se\<lparr>sslot_free_vec := fv\<rparr>) ?s2)
          | args # rest \<Rightarrow> assertE (fv_size fv = 1)
              (bindE (enqueue_request e (er_session_num args) (er_req_type args) (er_req_msgbuf args)
                 (er_resp_msgbuf args) (er_cont_func args) (er_tag args) (er_cont_etid args)
                 (upd_sess (fst r) (\<lambda>se. se\<lparr>sslot_free_vec := fv\<rparr>) ?s2)) (\<lambda>s4.
               Inr (upd_sess (fst r) (\<lambda>se. se\<lparr>enq_req_backlog := tl (enq_req_backlog se)\<rparr>) s4)))) = Inr s5"
    and fin: "(if cont_etid sl = kInvalidBgETid then continue e (cont_func sl) (cont_tag sl) s5
               else submit_bg_resp_st e (cont_func sl) (cont_tag sl) (cont_etid sl) s5) = Inr s'"
    using c sl by (auto simp: complete_request_def res_Inr Let_def)
  let ?s3 = "upd_sess (fst r) (\<lambda>se. se\<lparr>sslot_free_vec := fv\<rparr>) ?s2"
  have "sim s ?s1"
    using sl se by (intro slot_step_sim [OF se sl(1), where g = "\<lambda>x. x\<lparr>a_active := False\<rparr>"])
      (auto simp: abs_slot_def get_slot_Inr intro!: cstep.finish)
  also have "sim ?s1 ?s2" by (intro sim_eq clients_cong) simp
  also have "sim ?s2 ?s3" by (intro sim_eq clients_upd_sess_id [OF se2]) (simp_all add: abs_sess_def)
  also have "sim ?s3 s5"
  proof (cases "enq_req_backlog se2")
    case (Cons args rest)
    then obtain s4 where s4: "enqueue_request e (er_session_num args) (er_req_type args) (er_req_msgbuf args)
                 (er_resp_msgbuf args) (er_cont_func args) (er_tag args) (er_cont_etid args) ?s3 = Inr s4"
      and s5': "s5 = upd_sess (fst r) (\<lambda>se. se\<lparr>enq_req_backlog := tl (enq_req_backlog se)\<rparr>) s4"
      using s5 by (auto simp: res_Inr)
    have "clients s5 = clients s4"
    proof (cases "get_sess (fst r) s4")
      case (Inr x)
      then show ?thesis unfolding s5' by (intro clients_upd_sess_id) (simp_all add: abs_sess_def)
    next
      case (Inl err)
      then show ?thesis unfolding s5' clients_def
        by (cases "fst r < length (session_vec s4)")
          (auto simp: get_sess_def list_update_beyond map_update_id split: option.splits)
    qed
    then show ?thesis using enqueue_request_sim [OF s4] sim_eq sim_trans by metis
  qed (use s5 in simp)
  also have "sim s5 s'" using fin continue_sim [OF cb] submit_bg_sim(2) by (auto split: if_splits)
  finally show ?thesis .
qed

text \<open>
  A response conforms when the client has sent no more packets than the exchange needs (the number
  of \<open>wire_pkts\<close>, or the requests up to the answered one for a single-packet response), and the two
  buffers of the request are distinct buffers of the application.
\<close>

definition resp_limit :: "env \<Rightarrow> rpc \<Rightarrow> SSlot \<Rightarrow> mbref \<Rightarrow> packet \<Rightarrow> nat" where
  "resp_limit e s sl m p =
    (let pn = unat (pkt_num (p_hdr p)); msz = unat (msg_size (p_hdr p)); nreq = num_pkts (mbufs s m)
     in if msz \<le> kMaxDataPerPkt (cfg e) then pn + 1
        else sub64 (nreq + (if pn = sub64 nreq 1 then data_size_to_num_pkts (cfg e) msz
                            else num_pkts (mbufs s (resp_msgbuf sl)))) 1)"

definition resp_conforms :: "env \<Rightarrow> rpc \<Rightarrow> sref \<Rightarrow> packet \<Rightarrow> bool" where
  "resp_conforms e s r p \<longleftrightarrow> (\<forall>sl m. get_slot r s = Inr sl \<longrightarrow> tx_msgbuf sl = Some m \<longrightarrow>
    num_tx sl \<le> resp_limit e s sl m p \<and> m \<noteq> resp_msgbuf sl \<and> \<not> is_ctrl m \<and> \<not> is_ctrl (resp_msgbuf sl))"

lemma resize_num_pkts:
  "resize_msg_buffer c m n = Inr m' \<Longrightarrow> num_pkts m' = data_size_to_num_pkts c n"
  by (auto simp: resize_msg_buffer_def resize_def res_Inr)

lemma num_pkts_copy [simp]:
  "num_pkts (copy_ehdr e h m) = num_pkts m" "num_pkts (copy_single p m) = num_pkts m"
  "num_pkts (copy_data_to_msgbuf c i p m) = num_pkts m"
  by (simp_all add: copy_ehdr_def copy_single_def copy_data_to_msgbuf_def set_hdr_def Let_def)

lemma get_slot_upd_mbuf [simp]: "get_slot r (upd_mbuf m f s) = get_slot r s"
  "get_sess sn (upd_mbuf m f s) = get_sess sn s"
  by (rule get_slot_cong get_sess_cong; simp)+

text \<open>The part of \<open>process_resp_one_st\<close> for a packet of a multi-packet response.\<close>

lemma large_resp_sim:
  assumes cb: "cb_ok e" and sl: "get_slot r s1 = Inr sl" "tx_msgbuf sl = Some req" and se: "get_sess (fst r) s1 = Inr se" "is_client se"
    and nc: "req \<noteq> resp_msgbuf sl" "\<not> is_ctrl req" "\<not> is_ctrl (resp_msgbuf sl)"
    and s2: "s2 = s1 \<or> (\<exists>m. s2 = upd_mbuf (resp_msgbuf sl) (\<lambda>_. m) s1)"
    and lim: "num_tx sl \<le> wire_pkts (mbufs s2 req) (mbufs s2 (resp_msgbuf sl))" and rx: "num_rx sl \<le> num_tx sl"
    and s3: "(if num_tx sl \<noteq> wire_pkts (mbufs s2 req) (mbufs s2 (resp_msgbuf sl)) then kick_rfr_st e r s2 else Inr s2) = Inr s3"
    and s4: "s4 = upd_mbuf (resp_msgbuf sl) (copy_data_to_msgbuf (cfg e) i p) s3"
    and fin: "bindE (get_slot r s4) (\<lambda>sl4. if num_rx sl4 \<noteq> wire_pkts (mbufs s4 req) (mbufs s4 (resp_msgbuf sl)) then Inr s4
       else complete_request e r s4) = Inr s'"
  shows "sim s1 s'"
proof -
  let ?wp = "wire_pkts (mbufs s2 req) (mbufs s2 (resp_msgbuf sl))"
  have sl2: "get_slot r s2 = Inr sl" "get_sess (fst r) s2 = Inr se" using s2 sl se by auto
  have c2: "sim s1 s2" using s2 by (auto intro: sim_eq)
  obtain sl3 where sl3: "get_slot r s3 = Inr sl3" "num_rx sl3 = num_rx sl" "num_tx sl3 \<le> ?wp" "num_rx sl3 \<le> num_tx sl3"
    and m3: "mbufs s3 req = mbufs s2 req" "mbufs s3 (resp_msgbuf sl) = mbufs s2 (resp_msgbuf sl)" and c3: "sim s2 s3"
  proof (cases "num_tx sl = ?wp")
    case True
    then show thesis using that [of sl] s3 sl2 rx lim by auto
  next
    case False
    then have k: "kick_rfr_st e r s2 = Inr s3" using s3 by simp
    note K = kick_rfr_st_kicked [OF k sl2(2) se(2) sl2(1) sl(2)]
    then have rs: "rest_same s2 s3" by (simp add: kicked_def)
    obtain sl' where "get_slot r s3 = Inr sl'" "num_rx sl' = num_rx sl"
      "num_tx sl' = num_tx sl + min (credits se) (sub64 ?wp (num_tx sl))"
      using K sl2 unfolding kicked_def by auto
    moreover have "min (credits se) (sub64 ?wp (num_tx sl)) \<le> ?wp - num_tx sl" using lim by simp
    ultimately show thesis using that [of sl'] lim rx rs nc kick_rfr_sim [OF k] by (auto simp: rest_same_def)
  qed
  have sl4: "get_slot r s4 = Inr sl3" using sl3(1) s4 by simp
  have wp4: "wire_pkts (mbufs s4 req) (mbufs s4 (resp_msgbuf sl)) = ?wp"
    using m3 nc s4 by (simp add: wire_pkts_def)
  have "sim s4 s'"
  proof (cases "num_rx sl3 = ?wp")
    case True
    then have "complete_request e r s4 = Inr s'" using fin sl4 wp4 by simp
    moreover have "num_rx sl3 = num_tx sl3" using sl3 True by simp
    ultimately show ?thesis using complete_request_sim [OF _ cb sl4] by blast
  next
    case False
    then show ?thesis using fin sl4 wp4 by simp
  qed
  moreover have "sim s3 s4" by (simp add: s4 sim_eq)
  ultimately show ?thesis using c2 c3 sim_trans by blast
qed

lemma sinv_active:
  assumes "sinv (clients s)" "get_sess (fst r) s = Inr se" "is_client se" "get_slot r s = Inr sl" "num_rx sl < num_tx sl"
  shows "\<exists>m. tx_msgbuf sl = Some m"
proof -
  have "Some (abs_sess se) \<in> set (clients s)"
    using assms(2,3) by (auto simp: clients_def get_sess_Inr abs_entry_def intro!: image_eqI [of _ _ "Some se"] nth_mem)
      (metis nth_mem)
  then have "ainv (abs_sess se)" using assms(1) by (simp add: sinv_def)
  moreover have "snd r < length (sslot_arr se)" "sl = sslot_arr se ! snd r" using assms(2,4) by (auto simp: get_slot_Inr)
  ultimately have "a_active (abs_slot sl)" using ainv_slot(2) [of "abs_sess se" "snd r"] assms(5) by auto
  then show ?thesis by simp
qed

lemma process_resp_sim:
  assumes proc: "process_resp_one_st e r p t s = Inr s'" and cb: "cb_ok e" and inv: "sinv (clients s)"
    and conf: "resp_conforms e s r p"
  shows "sim s s'"
proof -
  obtain sl ok s0 where sl: "get_slot r s = Inr sl" and io: "in_order_client r (p_hdr p) s = Inr (ok, s0)"
    using proc by (auto simp: process_resp_one_st_def res_Inr)
  show ?thesis
  proof (cases ok)
    case False
    then have "s' = s0" using proc sl io by (auto simp: process_resp_one_st_def res_Inr)
    then show ?thesis using frame_sim [OF frame_in_order [OF io]] by simp
  next
    case True
    have "in_order_client r (p_hdr p) s = Inr (True, s0)" using io True by simp
    note I = in_order_okD [OF this sl]
    obtain s1 where s1: "client_track r (p_hdr p) t s = Inr s1"
      using proc sl io True I(1) by (auto simp: process_resp_one_st_def res_Inr)
    note T = client_track_step [OF s1 sl I(3)]
    obtain se1 sl1 where S1: "get_sess (fst r) s1 = Inr se1" "is_client se1" "get_slot r s1 = Inr sl1"
      "num_rx sl1 = num_rx sl + 1" "num_tx sl1 = num_tx sl" "tx_msgbuf sl1 = tx_msgbuf sl" "resp_msgbuf sl1 = resp_msgbuf sl"
      using T(3) by blast
    have g: "\<exists>se. get_sess (fst r) s = Inr se" using sl by (auto simp: get_slot_Inr)
    then have "fst r < length (session_vec s)" by (auto simp: get_sess_Inr)
    note g
    moreover have "\<not> srv s (fst r)" using sim_srv [OF T(1) \<open>fst r < length (session_vec s)\<close>] S1(1,2) by (auto simp: srv_def)
    ultimately obtain se where "get_sess (fst r) s = Inr se" "is_client se" by (auto simp: srv_def)
    then obtain m where m: "tx_msgbuf sl = Some m" using sinv_active [OF inv _ _ sl I(3)] by blast
    let ?resp = "resp_msgbuf sl" and ?msz = "unat (msg_size (p_hdr p))" and ?pn = "unat (pkt_num (p_hdr p))"
    have L: "num_tx sl \<le> resp_limit e s sl m p" "m \<noteq> ?resp" "\<not> is_ctrl m" "\<not> is_ctrl ?resp"
      using conf sl m by (auto simp: resp_conforms_def)
    show ?thesis
    proof (cases "?msz \<le> kMaxDataPerPkt (cfg e)")
      case small: True
      obtain b where b: "complete_request e r (upd_mbuf ?resp (\<lambda>_. b) s1) = Inr s'"
        using proc sl io True I(1) s1 S1 small by (auto simp: process_resp_one_st_def res_Inr Let_def)
      have "num_rx sl1 = num_tx sl1" using L(1) small I S1 by (simp add: resp_limit_def Let_def)
      then have "sim (upd_mbuf ?resp (\<lambda>_. b) s1) s'"
        using complete_request_sim [OF b cb] S1 by simp
      moreover have "sim s1 (upd_mbuf ?resp (\<lambda>_. b) s1)" by (simp add: sim_eq)
      ultimately show ?thesis using T(1) sim_trans by blast
    next
      case large: False
      obtain s2 s3 where s2: "(if ?pn = sub64 (num_pkts (mbufs s1 m)) 1
            then bindE (resize_msg_buffer (cfg e) (mbufs s1 ?resp) ?msz) (\<lambda>b. Inr (upd_mbuf ?resp (\<lambda>_. copy_ehdr e (p_hdr p) b) s1))
            else Inr s1) = Inr s2"
        and s3: "(if num_tx sl1 \<noteq> wire_pkts (mbufs s2 m) (mbufs s2 ?resp) then kick_rfr_st e r s2 else Inr s2) = Inr s3"
        and fin: "bindE (get_slot r (upd_mbuf ?resp (copy_data_to_msgbuf (cfg e) (resp_ntoi ?pn (num_pkts (mbufs s3 m))) p) s3))
           (\<lambda>sl4. if num_rx sl4 \<noteq> wire_pkts (mbufs (upd_mbuf ?resp (copy_data_to_msgbuf (cfg e) (resp_ntoi ?pn (num_pkts (mbufs s3 m))) p) s3) m)
               (mbufs (upd_mbuf ?resp (copy_data_to_msgbuf (cfg e) (resp_ntoi ?pn (num_pkts (mbufs s3 m))) p) s3) ?resp)
             then Inr (upd_mbuf ?resp (copy_data_to_msgbuf (cfg e) (resp_ntoi ?pn (num_pkts (mbufs s3 m))) p) s3)
             else complete_request e r (upd_mbuf ?resp (copy_data_to_msgbuf (cfg e) (resp_ntoi ?pn (num_pkts (mbufs s3 m))) p) s3)) = Inr s'"
        using proc sl io True I(1) s1 S1 large m
        by (simp only: process_resp_one_st_def res_Inr Let_def bindE_simps prod.case if_False not_True_eq_False option.case) blast
      have "s2 = s1 \<or> (\<exists>b. s2 = upd_mbuf ?resp (\<lambda>_. b) s1)"
        using s2 by (auto simp: res_Inr split: if_splits)
      moreover have "wire_pkts (mbufs s2 m) (mbufs s2 ?resp) = resp_limit e s sl m p"
        using s2 large L(2) T(2)
        by (auto simp: resp_limit_def Let_def wire_pkts_def res_Inr dest: resize_num_pkts split: if_splits)
      ultimately have "sim s1 s'"
        using large_resp_sim [OF cb S1(3) _ S1(1,2), of m s2 s3 _ "resp_ntoi ?pn (num_pkts (mbufs s3 m))" p s'] S1 L m s3 fin I
        by simp
      then show ?thesis using T(1) sim_trans by blast
    qed
  qed
qed

end
