(* ===== verification/Rpc_Example.thy ===== *)
theory Rpc_Example
  imports Rpc_Queues
begin

section \<open>A concrete endpoint\<close>

text \<open>
  An endpoint with one connected client session (number 0) and one connected server session
  (number 1), both as the constructor of \<open>Session\<close> leaves them, on which the witnesses of the datapath
  theorems evaluate the operations.
\<close>

definition demo_hdr :: pkthdr where
  "demo_hdr = \<lparr>headroom = [], req_type = 0, msg_size = 0, dest_session_num = 0, pkt_type = kReq,
    pkt_num = 0, req_num = 0, magic = kPktHdrMagic\<rparr>"

definition no_buffer :: Buffer where
  "no_buffer = \<lparr>b_buf = None, class_size = 0, lkey = 0\<rparr>"

text \<open>A buffer of \<open>n\<close> packets; buffers of the slots of the server start out buried.\<close>

definition demo_buf :: "nat \<Rightarrow> MsgBuffer" where
  "demo_buf n = \<lparr>mb_buffer = no_buffer, max_data_size = n * 1000, data_size = n * 1000, max_num_pkts = n,
    num_pkts = n, mb_buf = Some 4096, hdrs = \<lambda>_. demo_hdr, bytes = \<lambda>_. 0\<rparr>"

definition demo_bufs :: "mbref \<Rightarrow> MsgBuffer" where
  "demo_bufs m = (case m of
      UserBuf n \<Rightarrow> demo_buf n
    | PreResp r \<Rightarrow> demo_buf 1
    | DynResp r \<Rightarrow> (demo_buf 0)\<lparr>mb_buf := None\<rparr>
    | ReqBuf r \<Rightarrow> (demo_buf 0)\<lparr>mb_buf := None\<rparr>
    | CtrlBuf i \<Rightarrow> demo_buf 1)"

definition demo_sess :: "bool \<Rightarrow> Session" where
  "demo_sess c = \<lparr>is_client = c, se_state = kConnected, se_uniq_token = 0,
     se_client = SessionEndpoint_init kRaw, se_server = SessionEndpoint_init kRaw,
     sslot_arr = map (sslot_init c) [0..<kSessionReqWindow],
     local_session_num = (if c then 0 else 1), remote_session_num = 1, credits = kSessionCredits,
     sslot_free_vec = \<lparr>arr = [7, 6, 5, 4, 3, 2, 1, 0], free_index = 8\<rparr>, enq_req_backlog = [],
     se_num_re_tx = 0, se_timely = (if c then timely_init 2 5000000000 0 else timely_default), prev_desired_tx_tsc = 0, sm_req_ts = 0\<rparr>"

lemma demo_sess_init:
  "session_init c 0 2 5000000000 0 0 kRaw =
    Inr ((demo_sess c)\<lparr>se_state := kConnectInProgress, local_session_num := 0, remote_session_num := 0\<rparr>)"
  by (simp add: session_init_def demo_sess_def fv_push_back_def upt_rec res_simps numeral_eq_Suc)

definition demo_wheel :: "sref timing_wheel" where
  "demo_wheel = \<lparr>wslot_width_tsc = 1000, horizon_tsc = 0, wheel = 0, cur_wslot = 0,
    bkts = \<lambda>_. \<lparr>num_entries = 0, tx_tsc = 0, bk_last = 0, bk_next = None, entry = []\<rparr>,
    bkt_pool = MemPool_init 1, ready_queue = []\<rparr>"

definition demo_rpc :: rpc where
  "demo_rpc = \<lparr>session_vec = [Some (demo_sess True), Some (demo_sess False)], mbufs = demo_bufs,
     anext = (\<lambda>_. TailSentinel), aprev = (\<lambda>_. RootSentinel), stallq = [], tx_burst_arr = [],
     ctrl_msgbuf_head = 0, rx_ring_head = 0, ev_loop_tsc = 100, pkt_loss_scan_tsc = 0, huge_al = ha_example,
     tw = demo_wheel, bgq_request = MtQueue_init, bgq_response = MtQueue_init, bg_req_queue_arr = [],
     fast_rand = 0, cur_etid = 0, tsc_i = 0, wire = [], tx_flush_count = 0, recvs_posted = 0,
     st_num_re_tx = 0, st_still_in_wheel = 0, ring_entries_available = 4032, conn_req_token_map = (\<lambda>_. None),
     sm_pending_reqs = [], sm_rx_queue = MtQueue_init, udp_sent = [], app_events = [],
     pre_resp_msgbuf_size = 1000, retry_connect_on_invalid_rpc_id = False, rand_i = 0,
     fail_resolve_rinfo = False, pkt_drop_prob = 0, pkt_drop_thresh_billion = 0\<rparr>"

definition demo_env :: env where
  "demo_env = \<lparr>cfg = fake_cfg, reg_mr = \<lambda>_ _. 0, bsrl_r0 = 0, tsc = \<lambda>i. 1000 * i, creator_etid = 0,
     num_bg_threads = 0, freq_ghz = 2, bandwidth = 5000000000, rpc_rto_cycles = 10000,
     rpc_pkt_loss_scan_cycles = 1000, req_func_type = \<lambda>t. if t = 1 then Some kForeground else None,
     handler = \<lambda>_ _ s. Inr s, continue = \<lambda>_ _ s. Inr s, mem_hdrs = \<lambda>_. demo_hdr, mem_bytes = \<lambda>_. 0,
     ring_rest = \<lambda>_. 0, rx_ring_addr = \<lambda>i. 8192 + 1024 * i,
     nexus_hostname = ''a'', nexus_sm_udp_port = 31850, my_rpc_id = 0, my_transport_type = kFake,
     local_rinfo = replicate 48 1, resolve_rinfo = Some, sm_handler = \<lambda>_ _ _ s. Inr s,
     slow_rand = \<lambda>i. i + 77, heap_junk = 0, heap_old_tt = kRaw\<rparr>"

lemma demo_env_sel [simp]:
  "cfg demo_env = fake_cfg" "creator_etid demo_env = 0" "handler demo_env = (\<lambda>_ _ s. Inr s)"
  "continue demo_env = (\<lambda>_ _ s. Inr s)"
  by (simp_all add: demo_env_def)

lemma demo_rpc_sel [simp]:
  "session_vec demo_rpc = [Some (demo_sess True), Some (demo_sess False)]" "mbufs demo_rpc = demo_bufs"
  "cur_etid demo_rpc = 0" "stallq demo_rpc = []" "tx_burst_arr demo_rpc = []" "ev_loop_tsc demo_rpc = 100"
  by (simp_all add: demo_rpc_def)

end
