(* ===== verification/Rpc_Invariant.thy ===== *)
theory Rpc_Invariant
  imports Rpc_Credits Rpc_Example
begin

section \<open>Runs of an endpoint\<close>

text \<open>
  The remaining operations of the datapath simulate the abstract client sessions too: the server's
  operations do not change them, the queues and the loss scan repeat kicks. A run of an endpoint is
  a sequence of these operations in any order; the flow-control invariant holds along every run.
\<close>

subsection \<open>Operations of the server\<close>

lemma bury_resp_clients:
  assumes "bury_resp_msgbuf_server_st e r s = Inr s'" "srv s (fst r)"
  shows "clients s' = clients s"
proof -
  have "\<exists>h. s' = upd_slot r (\<lambda>sl. sl\<lparr>tx_msgbuf := None\<rparr>) (s\<lparr>huge_al := h\<rparr>)"
  proof (cases "\<exists>sl. get_slot r s = Inr sl \<and> tx_msgbuf sl = Some (DynResp r)")
    case True
    then show ?thesis using assms(1) by (auto simp: bury_resp_msgbuf_server_st_def res_Inr)
  next
    case False
    then have "s' = upd_slot r (\<lambda>sl. sl\<lparr>tx_msgbuf := None\<rparr>) (s\<lparr>huge_al := huge_al s\<rparr>)"
      using assms(1) by (auto simp: bury_resp_msgbuf_server_st_def res_Inr split: if_splits)
    then show ?thesis ..
  qed
  then obtain h where h: "s' = upd_slot r (\<lambda>sl. sl\<lparr>tx_msgbuf := None\<rparr>) (s\<lparr>huge_al := h\<rparr>)" ..
  have c: "clients (s\<lparr>huge_al := h\<rparr>) = clients s" by (rule clients_cong) simp
  then have "srv (s\<lparr>huge_al := h\<rparr>) (fst r)" using assms(2) srv_cong by blast
  then show ?thesis using h c by (simp add: srv_upd_slot)
qed

lemma alloc_req_clients: "alloc_req_msgbuf e r n s = Inr (ok, s') \<Longrightarrow> clients s' = clients s"
  by (auto simp: alloc_req_msgbuf_def bindE_eq_Inr split: option.splits intro!: clients_cong)

lemma call_handler_sim: "call_handler e rt r s = Inr s' \<Longrightarrow> cb_ok e \<Longrightarrow> srv s (fst r) \<Longrightarrow> sim s s'"
  by (auto simp: call_handler_def dest: handler_sim submit_bg_sim(1) split: option.splits ReqFuncType.splits)

lemma enqueue_cr_clients: "enqueue_cr_st e r h s = Inr s' \<Longrightarrow> clients s' = clients s"
  by (rule frame_clients [OF frame_enqueue_cr])

lemma resend_clients:
  "bindE (enqueue_pkt_tx_burst_st e r i ts s) (drain_tx_batch_and_dma_queue e) = Inr s' \<Longrightarrow> clients s' = clients s"
  by (auto simp: bindE_eq_Inr dest!: clients_drain clients_enqueue_pkt)

lemma process_rfr_clients:
  assumes "process_rfr_st e r h s = Inr s'" "srv s (fst r)"
  shows "clients s' = clients s"
  using assms
  by (auto simp: process_rfr_st_def assertE_eq_Inr Let_def bindE_eq_Inr srv_upd_slot
      dest!: clients_enqueue_pkt clients_drain split: if_splits)

lemma process_small_req_sim:
  assumes p: "process_small_req_st e r a p s = Inr s'" and srv: "srv s (fst r)" and cb: "cb_ok e"
  shows "sim s s'"
proof -
  obtain sl where sl: "get_slot r s = Inr sl" using p by (auto simp: process_small_req_st_def res_Inr)
  let ?rn = "unat (req_num (p_hdr p))" and ?rt = "unat (req_type (p_hdr p))" and ?n = "unat (msg_size (p_hdr p))"
  show ?thesis
  proof (cases "?rn \<le> cur_req_num sl")
    case True
    then show ?thesis using p sl
      by (auto simp: process_small_req_st_def assertE_eq_Inr Let_def intro!: sim_eq dest: resend_clients split: if_splits)
  next
    case False
    let ?f2 = "\<lambda>sl. sl\<lparr>cur_req_num := ?rn, si_num_rx := 1\<rparr>"
    let ?f3 = "\<lambda>sl. sl\<lparr>si_req_type := ?rt, si_req_func_type := func_type e ?rt\<rparr>"
    obtain s1 where s1: "bury_resp_msgbuf_server_st e r s = Inr s1"
      and fin: "(if func_type e ?rt = kForeground
                   then call_handler e ?rt r (upd_mbuf (ReqBuf r)
                     (\<lambda>_. MsgBuffer_fake (cfg e) a (p_hdr p) (p_data p) ?n) (upd_slot r ?f3 (upd_slot r ?f2 s1)))
                   else bindE (alloc_req_msgbuf e r ?n (upd_slot r ?f3 (upd_slot r ?f2 s1))) (\<lambda>(ok, s4).
                     rangeE ok (call_handler e ?rt r (upd_mbuf (ReqBuf r) (copy_single p) s4)))) = Inr s'"
      using p sl False unfolding process_small_req_st_def Let_def by (auto simp: assertE_eq_Inr bindE_eq_Inr)
    let ?s3 = "upd_slot r ?f3 (upd_slot r ?f2 s1)"
    have c1: "clients s1 = clients s" by (rule bury_resp_clients [OF s1 srv])
    then have v1: "srv s1 (fst r)" using srv srv_cong by blast
    then have c3: "clients ?s3 = clients s" using c1 by (simp add: srv_upd_slot srv_upd_slot_srv)
    have "\<exists>s4. clients s4 = clients ?s3 \<and> call_handler e ?rt r s4 = Inr s'"
      using fin by (auto simp: res_Inr dest: alloc_req_clients split: if_splits) (metis alloc_req_clients clients_upd_mbuf)+
    then obtain s4 where s4: "clients s4 = clients s" "call_handler e ?rt r s4 = Inr s'" using c3 by auto
    moreover have "srv s4 (fst r)" using s4(1) srv srv_cong by blast
    ultimately show ?thesis using call_handler_sim [OF _ cb] by (metis sim_eq sim_trans)
  qed
qed

lemma process_large_req_sim:
  assumes p: "process_large_req_one_st e r p s = Inr s'" and srv: "srv s (fst r)" and cb: "cb_ok e"
  shows "sim s s'"
proof -
  obtain sl where sl: "get_slot r s = Inr sl" using p by (auto simp: process_large_req_one_st_def res_Inr)
  let ?h = "p_hdr p"
  let ?rn = "unat (req_num ?h)" and ?pn = "unat (pkt_num ?h)" and ?rt = "unat (req_type ?h)" and ?n = "unat (msg_size ?h)"
  let ?next = "?rn = cur_req_num sl \<and> ?pn = si_num_rx sl \<or> ?rn = cur_req_num sl + kSessionReqWindow \<and> ?pn = 0"
  show ?thesis
  proof (cases ?next)
    case False
    then have "(if ?rn \<noteq> cur_req_num sl \<or> si_num_rx sl < ?pn then Inr s
               else if ?pn \<noteq> data_size_to_num_pkts (cfg e) ?n - 1 then enqueue_cr_st e r ?h s
               else if tx_msgbuf sl \<noteq> None
               then bindE (enqueue_pkt_tx_burst_st e r 0 None s) (drain_tx_batch_and_dma_queue e)
               else Inr s) = Inr s'"
      using p sl unfolding process_large_req_one_st_def Let_def by (simp add: assertE_eq_Inr)
    then show ?thesis
      by (auto intro!: sim_eq dest: resend_clients enqueue_cr_clients split: if_splits)
  next
    case True
    let ?f3 = "\<lambda>sl. sl\<lparr>si_req_type := ?rt, si_req_func_type := func_type e ?rt\<rparr>"
    obtain s3 s4 where s3: "(if ?pn = 0
                  then assertE (is_buried (mbufs s (ReqBuf r)))
                    (bindE (bury_resp_msgbuf_server_st e r s) (\<lambda>s1.
                     bindE (alloc_req_msgbuf e r ?n s1) (\<lambda>(ok, s2).
                       assertE ok (Inr (upd_slot r (\<lambda>sl. sl\<lparr>cur_req_num := ?rn, si_num_rx := 1\<rparr>) s2)))))
                  else Inr (upd_slot r (\<lambda>sl. sl\<lparr>si_num_rx := si_num_rx sl + 1\<rparr>) s)) = Inr s3"
      and s4: "(if ?pn \<noteq> sub64 (num_pkts (mbufs s3 (ReqBuf r))) 1 then enqueue_cr_st e r ?h s3 else Inr s3) = Inr s4"
      and fin: "bindE (get_slot r (upd_mbuf (ReqBuf r) (copy_data_to_msgbuf (cfg e) ?pn p) s4)) (\<lambda>sl5.
          if si_num_rx sl5 \<noteq> num_pkts (mbufs (upd_mbuf (ReqBuf r) (copy_data_to_msgbuf (cfg e) ?pn p) s4) (ReqBuf r))
          then Inr (upd_mbuf (ReqBuf r) (copy_data_to_msgbuf (cfg e) ?pn p) s4)
          else assertE (si_req_type sl5 = kInvalidReqType) (call_handler e ?rt r
             (upd_slot r ?f3 (upd_mbuf (ReqBuf r) (copy_data_to_msgbuf (cfg e) ?pn p) s4)))) = Inr s'"
      using p sl True unfolding process_large_req_one_st_def Let_def
      by (simp only: assertE_eq_Inr bindE_eq_Inr[where m = "get_slot r s"] bindE_simps not_True_eq_False if_False) (auto simp only: bindE_eq_Inr)
    have c3: "clients s3 = clients s"
    proof (cases "?pn = 0")
      case True
      then obtain s1 s2 where "bury_resp_msgbuf_server_st e r s = Inr s1" "alloc_req_msgbuf e r ?n s1 = Inr (True, s2)"
        and e3: "s3 = upd_slot r (\<lambda>sl. sl\<lparr>cur_req_num := ?rn, si_num_rx := 1\<rparr>) s2"
        using s3 by (auto simp: res_Inr)
      then have c2: "clients s2 = clients s" using bury_resp_clients srv alloc_req_clients by metis
      then have "srv s2 (fst r)" using srv srv_cong by blast
      then show ?thesis using e3 c2 by (simp add: srv_upd_slot)
    next
      case False
      then show ?thesis using s3 srv by (auto simp: srv_upd_slot)
    qed
    then have c4: "clients s4 = clients s" using s4 by (auto dest: enqueue_cr_clients split: if_splits)
    then have v4: "srv s4 (fst r)" using srv srv_cong by blast
    have "s' = upd_mbuf (ReqBuf r) (copy_data_to_msgbuf (cfg e) ?pn p) s4 \<or> call_handler e ?rt r
             (upd_slot r ?f3 (upd_mbuf (ReqBuf r) (copy_data_to_msgbuf (cfg e) ?pn p) s4)) = Inr s'"
      using fin by (auto simp: res_Inr split: if_splits)
    then show ?thesis
    proof
      assume "s' = upd_mbuf (ReqBuf r) (copy_data_to_msgbuf (cfg e) ?pn p) s4"
      then show ?thesis using c4 by (simp add: sim_eq)
    next
      assume c: "call_handler e ?rt r (upd_slot r ?f3 (upd_mbuf (ReqBuf r) (copy_data_to_msgbuf (cfg e) ?pn p) s4)) = Inr s'"
      have "sim s (upd_slot r ?f3 (upd_mbuf (ReqBuf r) (copy_data_to_msgbuf (cfg e) ?pn p) s4))"
        using c4 v4 by (simp add: sim_eq srv_upd_slot)
      moreover have "srv (upd_slot r ?f3 (upd_mbuf (ReqBuf r) (copy_data_to_msgbuf (cfg e) ?pn p) s4)) (fst r)"
        using v4 by (simp add: srv_upd_slot_srv)
      ultimately show ?thesis using call_handler_sim [OF c cb] sim_trans by blast
    qed
  qed
qed

subsection \<open>Queues and loss recovery\<close>

lemma process_stall_sim:
  assumes "process_credit_stall_queue_st e s = Inr s'"
  shows "sim s s'"
proof -
  obtain s1 kept where s1: "foldE (process_stalled_one e) (stallq s) (s, []) = Inr (s1, kept)" "s' = s1\<lparr>stallq := kept\<rparr>"
    using assms by (auto simp: process_credit_stall_queue_st_def res_Inr)
  have "sim s (fst (s1, kept))"
    by (rule foldE_inv [OF s1(1), where P = "\<lambda>x. sim s (fst x)"])
      (auto simp: process_stalled_one_def res_Inr split: if_splits intro: sim_trans dest!: kick_pending_sim)
  moreover have "sim s1 s'" using s1(2) by (intro sim_eq clients_cong) simp
  ultimately show ?thesis using sim_trans by force
qed

lemma frame_process_ready_one:
  assumes "process_ready_one e s = Inr s'"
  shows "frame s s'"
proof (cases "ready_queue (tw s)")
  case (Cons ent rest)
  let ?r = "we_sslot ent" and ?pn = "unat (we_pkt_num ent)"
  obtain sl :: SSlot and m :: MsgBuffer and s1 where s1: "(if ?pn < num_pkts m then enqueue_pkt_tx_burst_st e ?r ?pn (Some (?r, ?pn mod kSessionCredits)) s
                  else enqueue_rfr_st e ?r (hdrs (mbufs s (resp_msgbuf sl)) 0) s) = Inr s1"
    and s': "s' = (upd_slot ?r (\<lambda>sl. sl\<lparr>wheel_count := sub64 (wheel_count sl) 1,
                in_wheel := (in_wheel sl)[?pn mod kSessionCredits := False]\<rparr>) s1)
                  \<lparr>tw := (tw s1)\<lparr>ready_queue := tl (ready_queue (tw s1))\<rparr>\<rparr>"
    using assms Cons unfolding process_ready_one_def Let_def
    by (auto simp only: bindE_eq_Inr list.case sum.inject)
  let ?t = "upd_slot ?r (\<lambda>sl. sl\<lparr>wheel_count := sub64 (wheel_count sl) 1,
                in_wheel := (in_wheel sl)[?pn mod kSessionCredits := False]\<rparr>) s1"
  have "frame s s1" using s1 by (auto dest: frame_enqueue_pkt frame_enqueue_rfr split: if_splits)
  moreover have "frame s1 ?t" by (intro frame_upd_slot) (simp add: norm_slot_def)
  moreover have "frame ?t s'" unfolding s' by (intro frame_same_sessions) simp_all
  ultimately show ?thesis using frame_trans by blast
qed (use assms in \<open>simp add: process_ready_one_def\<close>)

lemma process_wheel_sim:
  assumes "process_wheel_st e s = Inr s'"
  shows "sim s s'"
proof -
  let ?s1 = "snd (rdtsc e s)"
  obtain w where w: "forE (length (ready_queue w)) (\<lambda>_. process_ready_one e) (?s1\<lparr>tw := w\<rparr>) = Inr s'"
    using assms by (auto simp: process_wheel_st_def res_Inr case_prod_unfold Let_def)
  have "frame (?s1\<lparr>tw := w\<rparr>) s'"
    by (rule forE_inv [OF w, where P = "\<lambda>_ t. frame (?s1\<lparr>tw := w\<rparr>) t"])
      (auto dest: frame_process_ready_one intro: frame_trans)
  moreover have "sim s (?s1\<lparr>tw := w\<rparr>)" by (intro sim_eq clients_cong) (simp add: rdtsc_def)
  ultimately show ?thesis using frame_sim sim_trans by blast
qed

lemma process_bg_requests_sim:
  assumes "process_bg_queues_enqueue_request_st e s = Inr s'"
  shows "sim s s'"
proof -
  have l: "forE (mt_size (bgq_request s)) (\<lambda>_. process_bg_request_one e) s = Inr s'"
    using assms by (simp add: process_bg_queues_enqueue_request_st_def res_Inr)
  have one: "sim t u" if tu: "process_bg_request_one e t = Inr u" for t u
  proof -
    obtain args :: enq_req_args and q where "enqueue_request e (er_session_num args) (er_req_type args) (er_req_msgbuf args)
      (er_resp_msgbuf args) (er_cont_func args) (er_tag args) (er_cont_etid args) (t\<lparr>bgq_request := q\<rparr>) = Inr u"
      using tu by (auto simp: process_bg_request_one_def bindE_eq_Inr)
    moreover have "sim t (t\<lparr>bgq_request := q\<rparr>)" by (intro sim_eq clients_cong) simp
    ultimately show ?thesis using enqueue_request_sim sim_trans by blast
  qed
  show ?thesis by (rule forE_inv [OF l, where P = "\<lambda>_ t. sim s t"]) (auto intro: sim_trans one)
qed

text \<open>Sending does not touch the queue of responses of background threads.\<close>

lemma bgq_upd [simp]:
  "bgq_response (upd_sess sn g s) = bgq_response s" "bgq_response (upd_slot r f s) = bgq_response s"
  "bgq_response (upd_mbuf m h s) = bgq_response s"
  "cur_etid (upd_mbuf m h s) = cur_etid s"
  by (simp_all add: upd_slot_def upd_sess_def upd_mbuf_def)

lemma bgq_stamps: "bgq_response (fold (stamp_tx t) its s) = bgq_response s"
  by (induction its arbitrary: s) (simp_all add: stamp_tx_def split: option.splits)

lemma bgq_do_tx_burst: "do_tx_burst_st e s = Inr s' \<Longrightarrow> bgq_response s' = bgq_response s"
  by (auto simp: do_tx_burst_st_def res_Inr Let_def rdtsc_def bgq_stamps)

lemma bgq_push_tx_item: "push_tx_item e it s = Inr s' \<Longrightarrow> bgq_response s' = bgq_response s"
  by (auto simp: push_tx_item_def Let_def dest: bgq_do_tx_burst split: if_splits)

lemma bgq_enqueue_pkt: "enqueue_pkt_tx_burst_st e r i ts s = Inr s' \<Longrightarrow> bgq_response s' = bgq_response s"
  by (auto simp: enqueue_pkt_tx_burst_st_def res_Inr dest: bgq_push_tx_item split: option.splits)

lemma bgq_bury_req:
  "bury_req_msgbuf_server_st e r s = Inr s' \<Longrightarrow> bgq_response s' = bgq_response s \<and> cur_etid s' = cur_etid s"
  by (auto simp: bury_req_msgbuf_server_st_def res_Inr split: if_splits)

lemma enqueue_response_bgq:
  assumes eq: "enqueue_response e r resp s = Inr s'" and d: "in_dispatch e s"
  shows "bgq_response s' = bgq_response s \<and> in_dispatch e s'"
proof -
  obtain s2 sl f where s2: "bgq_response s2 = bgq_response s \<and> cur_etid s2 = cur_etid s"
    and fin: "s' = upd_slot r (\<lambda>sl. sl\<lparr>si_req_type := kInvalidReqType\<rparr>) s2 \<or>
       enqueue_pkt_tx_burst_st e r 0 None (upd_slot r (\<lambda>sl. sl\<lparr>si_req_type := kInvalidReqType\<rparr>)
               (upd_slot r (\<lambda>sl. sl\<lparr>tx_msgbuf := Some resp\<rparr>) (upd_mbuf resp f s2))) = Inr s'"
    using eq d unfolding enqueue_response_def Let_def
    by (auto simp: bindE_eq_Inr assertE_eq_Inr dest!: bgq_bury_req split: if_splits) blast+
  from fin show ?thesis
  proof
    assume p: "enqueue_pkt_tx_burst_st e r 0 None (upd_slot r (\<lambda>sl. sl\<lparr>si_req_type := kInvalidReqType\<rparr>)
               (upd_slot r (\<lambda>sl. sl\<lparr>tx_msgbuf := Some resp\<rparr>) (upd_mbuf resp f s2))) = Inr s'"
    show ?thesis using bgq_enqueue_pkt [OF p] frame_enqueue_pkt [OF p] s2 d by (simp add: frame_def in_dispatch_def)
  qed (use s2 d in \<open>simp add: in_dispatch_def\<close>)
qed

lemma process_bg_responses_sim:
  assumes p: "process_bg_queues_enqueue_response_st e s = Inr s'"
    and q: "\<forall>x \<in> set (mtq (bgq_response s)). srv s (fst (fst x))"
  shows "sim s s'"
proof -
  let ?P = "\<lambda>t. clients t = clients s \<and> in_dispatch e t \<and> set (mtq (bgq_response t)) \<subseteq> set (mtq (bgq_response s))"
  have l: "forE (mt_size (bgq_response s)) (\<lambda>_. process_bg_response_one e) s = Inr s'" "in_dispatch e s"
    using p by (simp_all add: process_bg_queues_enqueue_response_st_def res_Inr)
  have one: "?P u" if t: "?P t" and u: "process_bg_response_one e t = Inr u" for t u
  proof -
    obtain r resp qs where e: "enqueue_response e r resp (t\<lparr>bgq_response := qs\<rparr>) = Inr u"
      and x: "mtq (bgq_response t) = (r, resp) # mtq qs"
      using u by (cases "mtq (bgq_response t)") (auto simp: process_bg_response_one_def unlocked_pop_def res_Inr)
    have c: "clients (t\<lparr>bgq_response := qs\<rparr>) = clients t" by (rule clients_cong) simp
    have "srv s (fst r)" using q t x by auto
    then have "srv (t\<lparr>bgq_response := qs\<rparr>) (fst r)" using t srv_cong [of "t\<lparr>bgq_response := qs\<rparr>" s] c by simp
    then have "clients u = clients t" using enqueue_response_clients [OF e] c by simp
    moreover have "in_dispatch e (t\<lparr>bgq_response := qs\<rparr>)" using t by (simp add: in_dispatch_def)
    note enqueue_response_bgq [OF e this]
    ultimately show ?thesis using t x by auto
  qed
  have "?P s'" by (rule forE_inv [OF l(1), where P = "\<lambda>_ t. ?P t"]) (use l(2) in simp, rule one)
  then show ?thesis by (simp add: sim_eq)
qed

lemma sess_in_clients:
  "get_sess sn s = Inr se \<Longrightarrow> is_client se \<Longrightarrow> Some (abs_sess se) \<in> set (clients s)"
  by (auto simp: clients_def get_sess_Inr abs_entry_def intro!: image_eqI [of _ _ "Some se"]) (metis nth_mem)

lemma retransmit_sim:
  assumes p: "pkt_loss_retransmit_st e r s = Inr s'" and inv: "sinv (clients s)"
  shows "sim s s'"
proof -
  obtain sl se where sl: "get_slot r s = Inr sl" "tx_msgbuf sl \<noteq> None" and se: "get_sess (fst r) s = Inr se"
    using p by (auto simp: pkt_loss_retransmit_st_def res_Inr)
  define d where "d = sub64 (num_tx sl) (num_rx sl)"
  let ?s1 = "s\<lparr>st_num_re_tx := st_num_re_tx s + 1\<rparr>"
  let ?g = "\<lambda>se. se\<lparr>se_num_re_tx := se_num_re_tx se + 1, credits := credits se + d\<rparr>"
  let ?f = "\<lambda>sl. sl\<lparr>num_tx := num_rx sl, progress_tsc := ev_loop_tsc (upd_sess (fst r) ?g ?s1)\<rparr>"
  let ?s3 = "upd_slot r ?f (upd_sess (fst r) ?g ?s1)"
  have alt: "s' = s \<or> s' = s\<lparr>st_still_in_wheel := st_still_in_wheel s + 1\<rparr> \<or> kick_pending e r ?s3 = Inr s'"
    using p sl se unfolding pkt_loss_retransmit_st_def Let_def d_def
    by (auto simp: assertE_eq_Inr split: if_splits)
  have "sim s ?s3"
  proof (cases "is_client se")
    case False
    have "srv s (fst r)" using se False by (auto simp: srv_def)
    then have "srv ?s1 (fst r)" using srv_cong [OF clients_cong [of ?s1 s]] by simp
    then have "clients (upd_sess (fst r) ?g ?s1) = clients s"
      using srv_upd_sess [of ?s1 "fst r" ?g] clients_cong [of ?s1 s] by simp
    moreover from this have "srv (upd_sess (fst r) ?g ?s1) (fst r)" using \<open>srv s (fst r)\<close> srv_cong by blast
    ultimately show ?thesis by (simp add: sim_eq srv_upd_slot)
  next
    case True
    let ?h = "\<lambda>se. (?g se)\<lparr>sslot_arr := (sslot_arr se)[snd r := ?f (sslot_arr se ! snd r)]\<rparr>"
    have eq: "?s3 = upd_sess (fst r) ?h ?s1" by (simp add: upd_slot_def upd_sess_comp)
    have se1: "get_sess (fst r) ?s1 = Inr se" using se by (simp add: get_sess_Inr)
    have i: "snd r < length (sslot_arr se)" "sl = sslot_arr se ! snd r" using sl se by (auto simp: get_slot_Inr)
    have "Some (abs_sess se) \<in> set (clients s)" using se True by (rule sess_in_clients)
    then have "ainv (abs_sess se)" using inv by (simp add: sinv_def)
    then have "num_rx sl \<le> num_tx sl" using ainv_slot(1) [of "abs_sess se" "snd r"] i by simp
    then have d: "d = num_tx sl - num_rx sl" by (simp add: d_def)
    have "abs_sess (?h se) = (aupd (snd r) (\<lambda>x. x\<lparr>a_tx := a_rx x\<rparr>) (abs_sess se))
        \<lparr>a_credits := a_credits (abs_sess se) + (a_tx (a_slots (abs_sess se) ! snd r) - a_rx (a_slots (abs_sess se) ! snd r))\<rparr>"
      using i d by (simp add: abs_sess_def aupd_def map_update abs_slot_def)
    moreover have "cstep (abs_sess se) \<dots>" using i sl(2) by (intro cstep.rollback) simp_all
    ultimately have "sstep (clients ?s1) (clients ?s3)"
      unfolding eq using se1 True by (intro sstep_sess [OF se1]) simp_all
    moreover have "clients ?s1 = clients s" by (rule clients_cong) simp
    ultimately show ?thesis using sstep_sim [of ?s1 ?s3] by (simp add: sim_def)
  qed
  moreover have "sim s (s\<lparr>st_still_in_wheel := st_still_in_wheel s + 1\<rparr>)" by (intro sim_eq clients_cong) simp
  ultimately show ?thesis using alt kick_pending_sim sim_trans sim_refl by blast
qed

lemma sim_sinv: "sim s t \<Longrightarrow> sinv (clients s) \<Longrightarrow> sinv (clients t)"
  using ssteps_sinv by (auto simp: sim_def)

lemma scan_one_sim: "scan_one e r s = Inr s' \<Longrightarrow> sinv (clients s) \<Longrightarrow> sim s s'"
  by (auto simp: scan_one_def bindE_eq_Inr split: if_splits
      dest!: retransmit_sim frame_drain [THEN frame_sim] intro: sim_trans)

lemma scan_loop_sim: "scan_loop n e x s = Inr s' \<Longrightarrow> sinv (clients s) \<Longrightarrow> sim s s'"
proof (induction n e x s rule: scan_loop.induct)
  case (4 n e r s)
  then obtain s1 where s1: "scan_one e r s = Inr s1" "scan_loop n e (anext s1 (ANode r)) s1 = Inr s'"
    by (auto simp: bindE_eq_Inr)
  then have "sim s s1" using scan_one_sim 4 by blast
  then show ?case using 4 s1 sim_sinv sim_trans by blast
qed simp_all

lemma scan_sim: "scan_active_rpcs e s = Inr s' \<Longrightarrow> sinv (clients s) \<Longrightarrow> sim s s'"
  by (auto simp: scan_active_rpcs_def res_Inr dest: scan_loop_sim)

subsection \<open>Reception\<close>

text \<open>
  What the code relies on from the other endpoint: requests and requests for response go to server
  sessions, and a response conforms to the exchange it answers.
\<close>

definition pkt_conforms :: "env \<Rightarrow> rpc \<Rightarrow> packet \<Rightarrow> bool" where
  "pkt_conforms e s p \<longleftrightarrow>
    (let h = p_hdr p; r = (unat (dest_session_num h), unat (req_num h) mod kSessionReqWindow)
     in (case pkt_type h of
           kReq \<Rightarrow> srv s (fst r)
         | kResp \<Rightarrow> resp_conforms e s r p
         | kRFR \<Rightarrow> srv s (fst r)
         | kExplCR \<Rightarrow> True))"

lemma pkt_conforms_cong:
  "session_vec t = session_vec s \<Longrightarrow> mbufs t = mbufs s \<Longrightarrow> pkt_conforms e t p = pkt_conforms e s p"
  using get_slot_cong [of t s] get_sess_cong [of t s]
  by (simp add: pkt_conforms_def Let_def srv_def resp_conforms_def resp_limit_def split: PktType.split)

lemma process_pkt_sim:
  assumes p: "process_pkt e p s = Inr s'" and cb: "cb_ok e" and inv: "sinv (clients s)" and ok: "pkt_conforms e s p"
  shows "sim s s'"
proof -
  define s1 where "s1 = s\<lparr>rx_ring_head := (rx_ring_head s + 1) mod kNumRxRingEntries\<rparr>"
  let ?h = "p_hdr p"
  let ?r = "(unat (dest_session_num ?h), unat (req_num ?h) mod kSessionReqWindow)"
  have c1: "clients s1 = clients s" by (rule clients_cong) (simp add: s1_def)
  then have s1: "sim s s1" "sinv (clients s1)" using inv by (simp_all add: sim_eq)
  have ok1: "pkt_conforms e s1 p" using ok pkt_conforms_cong [of s1 s] by (simp add: s1_def)
  have "s' = s1 \<or> process_small_req_st e ?r (rx_ring_addr e (rx_ring_head s)) p s1 = Inr s' \<and> pkt_type ?h = kReq \<or>
      process_large_req_one_st e ?r p s1 = Inr s' \<and> pkt_type ?h = kReq \<or>
      process_resp_one_st e ?r p (ev_loop_tsc s1) s1 = Inr s' \<and> pkt_type ?h = kResp \<or>
      process_rfr_st e ?r ?h s1 = Inr s' \<and> pkt_type ?h = kRFR \<or>
      process_expl_cr_st e ?r ?h (ev_loop_tsc s1) s1 = Inr s'"
    using p unfolding process_pkt_def Let_def s1_def [symmetric]
    by (auto simp: assertE_eq_Inr split: if_splits option.splits PktType.splits)
  then have "sim s1 s'"
    using ok1 process_small_req_sim [OF _ _ cb, of ?r] process_large_req_sim [OF _ _ cb, of ?r]
      process_resp_sim [OF _ cb s1(2), of ?r] process_rfr_clients [of e ?r] process_expl_cr_sim
    by (elim disjE) (auto simp: pkt_conforms_def Let_def intro: sim_eq)
  then show ?thesis using s1(1) sim_trans by blast
qed

fun comps_conform :: "env \<Rightarrow> packet list \<Rightarrow> rpc \<Rightarrow> bool" where
  "comps_conform e [] s = True"
| "comps_conform e (p # ps) s \<longleftrightarrow> pkt_conforms e s p \<and>
    (case process_pkt e p s of Inl _ \<Rightarrow> True | Inr s' \<Rightarrow> comps_conform e ps s')"

lemma process_pkts_sim:
  assumes "foldE (process_pkt e) ps s = Inr s'" "cb_ok e" "sinv (clients s)" "comps_conform e ps s"
  shows "sim s s'"
  using assms
proof (induction ps arbitrary: s)
  case (Cons p ps)
  then obtain t where t: "process_pkt e p s = Inr t" "foldE (process_pkt e) ps t = Inr s'" by (auto simp: bindE_eq_Inr)
  then have "sim s t" using process_pkt_sim Cons.prems by auto
  moreover from this have "sim t s'" using Cons t sim_sinv by auto
  ultimately show ?case by (rule sim_trans)
qed simp

lemma process_comps_sim:
  assumes p: "process_comps_st e ps s = Inr s'" and h: "cb_ok e" "sinv (clients s)" "comps_conform e ps s"
  shows "sim s s'"
proof (cases "ps = []")
  case False
  then obtain t where t: "foldE (process_pkt e) ps s = Inr t" "s' = t\<lparr>recvs_posted := recvs_posted t + length ps\<rparr>"
    using p by (auto simp: process_comps_st_def res_Inr)
  have "sim t s'" unfolding t(2) by (intro sim_eq clients_cong) simp
  then show ?thesis using process_pkts_sim [OF t(1) h] sim_trans by blast
qed (use p in \<open>simp add: process_comps_st_def res_Inr\<close>)

subsection \<open>Runs\<close>

inductive dstep :: "env \<Rightarrow> rpc \<Rightarrow> rpc \<Rightarrow> bool" for e where
  d_app: "api e s s' \<Longrightarrow> dstep e s s'"
| d_comps: "process_comps_st e ps s = Inr s' \<Longrightarrow> comps_conform e ps s \<Longrightarrow> dstep e s s'"
| d_stall: "process_credit_stall_queue_st e s = Inr s' \<Longrightarrow> dstep e s s'"
| d_wheel: "process_wheel_st e s = Inr s' \<Longrightarrow> dstep e s s'"
| d_bg_req: "process_bg_queues_enqueue_request_st e s = Inr s' \<Longrightarrow> dstep e s s'"
| d_bg_resp: "process_bg_queues_enqueue_response_st e s = Inr s' \<Longrightarrow>
    \<forall>x \<in> set (mtq (bgq_response s)). srv s (fst (fst x)) \<Longrightarrow> dstep e s s'"
| d_scan: "scan_active_rpcs e s = Inr s' \<Longrightarrow> dstep e s s'"

lemma dstep_sim: "dstep e s s' \<Longrightarrow> cb_ok e \<Longrightarrow> sinv (clients s) \<Longrightarrow> sim s s'"
  by (induction rule: dstep.induct)
    (auto intro: api_sim process_comps_sim process_stall_sim process_wheel_sim process_bg_requests_sim
      process_bg_responses_sim scan_sim)

lemma dsteps_sinv: "(dstep e)\<^sup>*\<^sup>* s s' \<Longrightarrow> cb_ok e \<Longrightarrow> sinv (clients s) \<Longrightarrow> sinv (clients s') \<and> sim s s'"
  by (induction rule: rtranclp_induct) (auto dest: dstep_sim intro: sim_sinv sim_trans)

text \<open>
  The flow-control invariant of a client session: credits and unanswered packets add up to the
  session's credits, a slot without a request has none, and a slot only ever uses the request
  numbers of its own residue class, so that a packet's request number names its slot.
\<close>

definition flow_ok :: "Session \<Rightarrow> bool" where
  "flow_ok se \<longleftrightarrow>
    credits se + (\<Sum>sl\<leftarrow>sslot_arr se. num_tx sl - num_rx sl) = kSessionCredits \<and>
    length (sslot_arr se) = kSessionReqWindow \<and>
    (\<forall>sl \<in> set (sslot_arr se). num_rx sl \<le> num_tx sl \<and> (tx_msgbuf sl = None \<longrightarrow> num_tx sl = num_rx sl)) \<and>
    (\<forall>i < kSessionReqWindow. cur_req_num (sslot_arr se ! i) mod kSessionReqWindow = i)"

lemma flow_ok_ainv: "flow_ok se \<longleftrightarrow> ainv (abs_sess se)"
proof -
  have "out_of \<circ> abs_slot = (\<lambda>sl. num_tx sl - num_rx sl)" by (rule ext) (simp add: out_of_def)
  then show ?thesis by (auto simp: flow_ok_def ainv_def)
qed

lemma sinv_flow: "sinv (clients s) \<longleftrightarrow> (\<forall>sn se. get_sess sn s = Inr se \<longrightarrow> is_client se \<longrightarrow> flow_ok se)"
proof
  assume "sinv (clients s)"
  then show "\<forall>sn se. get_sess sn s = Inr se \<longrightarrow> is_client se \<longrightarrow> flow_ok se"
    using sess_in_clients by (auto simp: sinv_def flow_ok_ainv)
next
  assume *: "\<forall>sn se. get_sess sn s = Inr se \<longrightarrow> is_client se \<longrightarrow> flow_ok se"
  show "sinv (clients s)" unfolding sinv_def
  proof (intro allI impI)
    fix a assume "Some a \<in> set (clients s)"
    then obtain se where "Some se \<in> set (session_vec s)" "is_client se" "a = abs_sess se"
      by (auto simp: clients_def abs_entry_def split: option.splits if_splits)
    moreover from this obtain sn where "get_sess sn s = Inr se" by (metis get_sess_Inr in_set_conv_nth)
    ultimately show "ainv a" using * flow_ok_ainv by blast
  qed
qed

lemma fresh_flow:
  "credits se = kSessionCredits \<Longrightarrow> sslot_arr se = map (sslot_init c) [0..<kSessionReqWindow] \<Longrightarrow> flow_ok se"
  using ainv_fresh flow_ok_ainv by blast

lemma session_init_flow: "session_init c tok f bw now junk old = Inr se \<Longrightarrow> flow_ok se \<and> is_client se = c"
  using session_init_ainv flow_ok_ainv by blast

subsection \<open>Progress of sending\<close>

text \<open>
  The packets handed to the transport: those already on the wire and those in the current batch, which
  is sent before any buffer it refers to may be reused.
\<close>

definition sent :: "env \<Rightarrow> rpc \<Rightarrow> wire_pkt list" where
  "sent e s = wire s @ map (wire_of e s) (tx_burst_arr s)"

lemma wire_of_cong: "mbufs t = mbufs s \<Longrightarrow> wire_of e t = wire_of e s"
  by (rule ext) (simp add: wire_of_def)

lemma stamps_same: "mbufs (fold (stamp_tx t) its s) = mbufs s \<and> wire (fold (stamp_tx t) its s) = wire s \<and>
    tx_burst_arr (fold (stamp_tx t) its s) = tx_burst_arr s \<and> cur_etid (fold (stamp_tx t) its s) = cur_etid s"
  by (induction its arbitrary: s) (simp_all add: stamp_tx_def split: option.splits)

lemma do_tx_burst_sent:
  assumes "in_dispatch e s" "tx_burst_arr s \<noteq> []"
  shows "\<exists>s'. do_tx_burst_st e s = Inr s' \<and> sent e s' = sent e s \<and> mbufs s' = mbufs s \<and> cur_etid s' = cur_etid s \<and> tx_burst_arr s' = []"
proof -
  let ?s1 = "snd (rdtsc e s)"
  let ?s2 = "fold (stamp_tx (fst (rdtsc e s))) (tx_burst_arr ?s1) ?s1"
  let ?s' = "?s2\<lparr>wire := wire ?s2 @ map (wire_of e ?s2) (tx_burst_arr ?s2), tx_burst_arr := []\<rparr>"
  have 1: "mbufs ?s2 = mbufs s" "wire ?s2 = wire s" "tx_burst_arr ?s2 = tx_burst_arr s" "cur_etid ?s2 = cur_etid s"
    by (simp_all add: stamps_same) (simp_all add: rdtsc_def)
  have "do_tx_burst_st e s = Inr ?s'" using assms by (simp add: do_tx_burst_st_def case_prod_unfold Let_def)
  moreover have "wire_of e ?s2 = wire_of e s" by (rule wire_of_cong [OF 1(1)])
  ultimately show ?thesis using 1 by (simp add: sent_def)
qed

lemma push_tx_item_sent:
  assumes "in_dispatch e s"
  shows "\<exists>s'. push_tx_item e it s = Inr s' \<and> sent e s' = sent e s @ [wire_of e s it] \<and> mbufs s' = mbufs s \<and> in_dispatch e s'"
proof -
  let ?s1 = "s\<lparr>tx_burst_arr := tx_burst_arr s @ [it]\<rparr>"
  have d: "in_dispatch e ?s1" using assms by (simp add: in_dispatch_def)
  have w: "wire_of e ?s1 = wire_of e s" by (rule wire_of_cong) simp
  obtain s2 where "do_tx_burst_st e ?s1 = Inr s2" "sent e s2 = sent e ?s1" "mbufs s2 = mbufs s" "cur_etid s2 = cur_etid s"
    using do_tx_burst_sent [OF d] by auto
  then show ?thesis using d w assms by (auto simp: push_tx_item_def Let_def sent_def in_dispatch_def)
qed

definition pkt_on_wire :: "env \<Rightarrow> Session \<Rightarrow> MsgBuffer \<Rightarrow> nat \<Rightarrow> wire_pkt" where
  "pkt_on_wire e se b i = \<lparr>wp_dest = remote_routing_info se,
    wp_packet = tx_item_packet (cfg e) (ring_rest e) b i\<rparr>"

lemma norm_sess_routing: "norm_sess a = norm_sess b \<Longrightarrow> remote_routing_info a = remote_routing_info b"
  by (drule arg_cong [where f = "\<lambda>se. (is_client se, se_server se, se_client se)"])
    (simp add: norm_sess_def remote_routing_info_def)

lemma use_credit_get:
  assumes "get_sess (fst r) s = Inr se" "get_slot r s = Inr sl"
  shows "\<exists>se'. get_sess (fst r) (use_credit r s) = Inr se' \<and> get_slot r (use_credit r s) = Inr (sl\<lparr>num_tx := num_tx sl + 1\<rparr>) \<and>
    remote_routing_info se' = remote_routing_info se"
proof -
  have "snd r < length (sslot_arr se)" "sl = sslot_arr se ! snd r" using assms by (auto simp: get_slot_Inr)
  then show ?thesis using assms
    by (simp add: use_credit_def upd_slot_def upd_sess_comp get_sess_upd_sess get_slot_def remote_routing_info_def)
qed

lemma use_credit_same:
  "mbufs (use_credit r s) = mbufs s" "sent e (use_credit r s) = sent e s"
  "in_dispatch e (use_credit r s) = in_dispatch e s"
  using wire_of_cong [of "use_credit r s" s e]
  by (simp_all add: use_credit_def sent_def in_dispatch_def)

lemma kick_req_one_sends:
  assumes d: "in_dispatch e s" and se: "get_sess (fst r) s = Inr se" and sl: "get_slot r s = Inr sl" "tx_msgbuf sl = Some m"
  shows "\<exists>s' se' sl'. kick_req_one e r True s = Inr s' \<and> sent e s' = sent e s @ [pkt_on_wire e se (mbufs s m) (num_tx sl)] \<and>
    mbufs s' = mbufs s \<and> in_dispatch e s' \<and> get_sess (fst r) s' = Inr se' \<and> get_slot r s' = Inr sl' \<and>
    num_tx sl' = num_tx sl + 1 \<and> tx_msgbuf sl' = tx_msgbuf sl \<and> remote_routing_info se' = remote_routing_info se"
proof -
  let ?it = "\<lparr>ti_routing_info = remote_routing_info se, ti_msg_buffer = m, ti_pkt_idx = num_tx sl,
    ti_tx_ts = Some (r, num_tx sl mod kSessionCredits)\<rparr>"
  obtain s1 where s1: "push_tx_item e ?it s = Inr s1" "sent e s1 = sent e s @ [wire_of e s ?it]"
    "mbufs s1 = mbufs s" "in_dispatch e s1"
    using push_tx_item_sent [OF d] by blast
  have f: "frame s s1" by (rule frame_push_tx_item [OF s1(1)])
  obtain se1 sl1 where n1: "get_sess (fst r) s1 = Inr se1" "norm_sess se1 = norm_sess se"
    "get_slot r s1 = Inr sl1" "norm_slot sl1 = norm_slot sl"
    using frame_get_sess [OF f se] frame_get_slot [OF f sl(1)] by blast
  have "kick_req_one e r True s = Inr (use_credit r s1)"
    using d se sl s1 by (simp add: kick_req_one_def enqueue_pkt_tx_burst_st_def)
  then show ?thesis
    using use_credit_get [OF n1(1,3)] use_credit_same(1) [of r s1] use_credit_same(2,3) [of _ r s1] s1 norm_sess_routing [OF n1(2)] norm_slotD [OF n1(4)]
    by (auto simp: pkt_on_wire_def wire_of_def)
qed

lemma kick_req_loop_sends:
  assumes d: "in_dispatch e s" and se: "get_sess (fst r) s = Inr se" and sl: "get_slot r s = Inr sl" "tx_msgbuf sl = Some m"
  shows "\<exists>s'. forE n (\<lambda>_. kick_req_one e r True) s = Inr s' \<and>
    sent e s' = sent e s @ map (pkt_on_wire e se (mbufs s m)) [num_tx sl..<num_tx sl + n]"
proof -
  let ?P = "\<lambda>i t. in_dispatch e t \<and> mbufs t = mbufs s \<and>
    sent e t = sent e s @ map (pkt_on_wire e se (mbufs s m)) [num_tx sl..<num_tx sl + i] \<and>
    (\<exists>se' sl'. get_sess (fst r) t = Inr se' \<and> get_slot r t = Inr sl' \<and> num_tx sl' = num_tx sl + i \<and>
      tx_msgbuf sl' = Some m \<and> remote_routing_info se' = remote_routing_info se)"
  have "holds (?P n) (forE n (\<lambda>_. kick_req_one e r True) s)"
  proof (rule holds_forE)
    show "?P 0 s" using assms by simp
  next
    fix i t assume P: "?P i t"
    then obtain se' sl' where t: "get_sess (fst r) t = Inr se'" "get_slot r t = Inr sl'" "num_tx sl' = num_tx sl + i"
      "tx_msgbuf sl' = Some m" "remote_routing_info se' = remote_routing_info se" by blast
    have "pkt_on_wire e se' = pkt_on_wire e se" using t(5) by (intro ext) (simp add: pkt_on_wire_def)
    then show "holds (?P (Suc i)) (kick_req_one e r True t)"
      using kick_req_one_sends [of e t r, OF _ t(1,2,4)] P t by (auto simp: holds_def)
  qed
  then show ?thesis by (auto simp: holds_def split: sum.splits)
qed

lemma kick_req_bypass:
  assumes d: "in_dispatch e s" and se: "get_sess (fst r) s = Inr se" "is_client se" "is_uncongested se" "0 < credits se"
    and sl: "get_slot r s = Inr sl" "tx_msgbuf sl = Some m" "wheel_count sl = 0"
    and n: "n = min (credits se) (sub64 (num_pkts (mbufs s m)) (num_tx sl))"
  shows "\<exists>s' se' sl'. kick_req_st e r s = Inr s' \<and>
    sent e s' = sent e s @ map (pkt_on_wire e se (mbufs s m)) [num_tx sl..<num_tx sl + n] \<and>
    get_sess (fst r) s' = Inr se' \<and> is_client se' \<and> credits se' = credits se - n \<and>
    get_slot r s' = Inr sl' \<and> num_tx sl' = num_tx sl + n \<and> num_rx sl' = num_rx sl"
proof -
  obtain s' where s': "forE n (\<lambda>_. kick_req_one e r True) s = Inr s'"
    "sent e s' = sent e s @ map (pkt_on_wire e se (mbufs s m)) [num_tx sl..<num_tx sl + n]"
    using kick_req_loop_sends [OF d se(1) sl(1,2)] by blast
  then have k: "kick_req_st e r s = Inr s'"
    using d se sl n by (simp add: kick_req_st_def tx_buf_def can_bypass_wheel_def Let_def)
  obtain se' sl' where "get_sess (fst r) s' = Inr se'" "get_slot r s' = Inr sl'" "credits se' + n = credits se"
    "num_tx sl' = num_tx sl + n" "num_rx sl' = num_rx sl" "is_client se'"
    using kick_req_st_kicked [OF k se(1,2) sl(1,2)] se(1) sl(1) n unfolding kicked_def by auto
  with s' k show ?thesis by (intro exI [of _ s'] exI [of _ se'] exI [of _ sl']) simp
qed

subsection \<open>The flow-control invariant\<close>

lemma demo_cb_ok: "cb_ok demo_env"
  by (simp add: cb_ok_def)


text \<open>
  C2. \<open>kick_req_st\<close> on an uncongested client session with an idle wheel never fails: it hands exactly
  the next \<open>min credits (packets not yet sent)\<close> packets of the request to the transport, in order and
  addressed to the session's peer, and pays one credit for each.
\<close>

theorem kick_req_sends_exactly:
  assumes d: "in_dispatch e s" and se: "get_sess (fst r) s = Inr se" "is_client se" "is_uncongested se" "0 < credits se"
    and sl: "get_slot r s = Inr sl" "tx_msgbuf sl = Some m" "wheel_count sl = 0"
  shows "\<exists>s' se' sl'. let n = min (credits se) (sub64 (num_pkts (mbufs s m)) (num_tx sl)) in
    kick_req_st e r s = Inr s' \<and>
    sent e s' = sent e s @ map (pkt_on_wire e se (mbufs s m)) [num_tx sl..<num_tx sl + n] \<and>
    get_sess (fst r) s' = Inr se' \<and> credits se' = credits se - n \<and>
    get_slot r s' = Inr sl' \<and> num_tx sl' = num_tx sl + n \<and> num_rx sl' = num_rx sl"
  using kick_req_bypass [OF d se sl refl] unfolding Let_def by blast

subsection \<open>Witnesses\<close>

lemma demo_get: "get_sess 0 demo_rpc = Inr (demo_sess True)" "get_slot (0, 0) demo_rpc = Inr (sslot_init True 0)"
  "in_dispatch demo_env demo_rpc"
  by (simp_all add: get_slot_def get_sess_def demo_sess_def in_dispatch_def)

lemma demo_sess_sel:
  "is_client (demo_sess c) = c" "credits (demo_sess c) = kSessionCredits" "is_uncongested (demo_sess c)"
  "is_connected (demo_sess c)" "fv_size (sslot_free_vec (demo_sess c)) = 8"
  "sslot_free_vec (demo_sess c) = \<lparr>arr = [7, 6, 5, 4, 3, 2, 1, 0], free_index = 8\<rparr>"
  by (simp_all add: demo_sess_def is_uncongested_def timely_init_def timely_default_def is_connected_def fv_size_def)

lemma demo_flow: "\<forall>sn se. get_sess sn demo_rpc = Inr se \<longrightarrow> is_client se \<longrightarrow> flow_ok se"
proof (intro allI impI)
  fix sn se assume "get_sess sn demo_rpc = Inr se" "is_client se"
  then have "se = demo_sess True" by (cases sn) (auto simp: get_sess_Inr demo_sess_def less_Suc_eq)
  then show "flow_ok se" using fresh_flow [of "demo_sess True" True] by (simp add: demo_sess_def)
qed

lemma demo_request:
  "\<exists>s' se'. enqueue_request demo_env 0 1 (UserBuf 2) (UserBuf 3) 0 0 8 demo_rpc = Inr s' \<and>
    get_sess 0 s' = Inr se' \<and> is_client se' \<and> credits se' = 30"
proof -
  obtain fv :: "nat FixedVector" where fv: "fv_pop_back (sslot_free_vec (demo_sess True)) = Inr (0, fv)"
    by (simp add: demo_sess_sel fv_pop_back_def res_simps)
  define s1 where "s1 = upd_sess 0 (\<lambda>se. se\<lparr>sslot_free_vec := fv\<rparr>) demo_rpc"
  let ?sl = "sslot_init True 0"
  let ?h = "fill_slot (UserBuf 2) (UserBuf 3) 0 0 8 8 100"
  define s5 where "s5 = fill_sslot 1 (UserBuf 2) (UserBuf 3) 0 0 8 (0, 0) (demo_sess True) ?sl s1"
  have sl1: "get_slot (0, 0) s1 = Inr ?sl" using demo_get(2) unfolding s1_def by (subst get_slot_upd_sess) simp_all
  have "session_vec s5 = session_vec (upd_slot (0, 0) ?h s1)"
    unfolding s5_def session_vec_fill_sslot [OF sl1] by (simp add: sslot_init_def s1_def)
  then have g5: "get_slot (0, 0) s5 = Inr (?h ?sl)" "get_sess 0 s5 = get_sess 0 (upd_slot (0, 0) ?h s1)"
    using get_slot_cong [of s5 "upd_slot (0, 0) ?h s1"] get_sess_cong [of s5 "upd_slot (0, 0) ?h s1"]
    by (simp_all add: get_slot_upd_slot [OF sl1])
  moreover obtain se where "get_sess 0 (upd_slot (0, 0) ?h s1) = Inr se" "is_client se" "credits se = 32" "is_uncongested se"
    using demo_get(1) demo_sess_sel
    by (simp add: s1_def upd_slot_def get_sess_upd_sess is_uncongested_def)
  ultimately have se5: "get_sess 0 s5 = Inr se" "is_client se" "credits se = 32" "is_uncongested se" by simp_all
  have m: "num_pkts (mbufs s5 (UserBuf 2)) = 2"
    by (simp add: s5_def s1_def fill_sslot_def Let_def fill_req_hdrs_def set_hdr_def demo_bufs_def demo_buf_def add_to_active_rpc_list_def
        upt_rec)
  have d5: "in_dispatch demo_env s5"
    using demo_get(3) by (simp add: s5_def s1_def in_dispatch_def fill_sslot_def Let_def add_to_active_rpc_list_def)
  obtain s' se' where k: "kick_req_st demo_env (0, 0) s5 = Inr s'" "get_sess 0 s' = Inr se'" "is_client se'" "credits se' = 30"
    using kick_req_bypass [of demo_env s5 "(0, 0)" se "?h ?sl" "UserBuf 2" 2] d5 se5 g5(1) m
    by (auto simp: fill_slot_def sslot_init_def)
  have "enqueue_request demo_env 0 1 (UserBuf 2) (UserBuf 3) 0 0 8 demo_rpc = kick_req_st demo_env (0, 0) s5"
    using demo_get demo_sess_sel(2,4,5) sl1 fv unfolding s5_def s1_def
    by (simp add: enqueue_request_def Let_def) (simp add: sslot_init_def)
  then show ?thesis using k by auto
qed


theorem kick_req_sends_exactly_witness:
  "\<exists>s' se' sl'. kick_req_st demo_env (0, 0)
      (upd_slot (0, 0) (\<lambda>sl. sl\<lparr>tx_msgbuf := Some (UserBuf 2)\<rparr>) demo_rpc) = Inr s' \<and>
    get_sess 0 s' = Inr se' \<and> credits se' = 30 \<and> get_slot (0, 0) s' = Inr sl' \<and> num_tx sl' = 2"
proof -
  let ?s = "upd_slot (0, 0) (\<lambda>sl. sl\<lparr>tx_msgbuf := Some (UserBuf 2)\<rparr>) demo_rpc"
  let ?sl = "(sslot_init True 0)\<lparr>tx_msgbuf := Some (UserBuf 2)\<rparr>"
  have sl: "get_slot (0, 0) ?s = Inr ?sl" using demo_get(2) by (simp add: get_slot_upd_slot)
  obtain se where se: "get_sess 0 ?s = Inr se" "is_client se" "credits se = 32" "is_uncongested se"
    using demo_get(1) demo_sess_sel by (simp add: upd_slot_def get_sess_upd_sess is_uncongested_def)
  have d: "in_dispatch demo_env ?s" using demo_get(3) by (simp add: in_dispatch_def)
  show ?thesis
    using kick_req_sends_exactly [of demo_env ?s "(0, 0)" se ?sl "UserBuf 2"] d se sl
    by (auto simp: sslot_init_def demo_bufs_def demo_buf_def Let_def)
qed

end
