(* ===== verification/Rpc_Sm_Inv.thy ===== *)
theory Rpc_Sm_Inv
  imports Rpc_Sm Rpc_Frame Rpc_Invariant
begin

section \<open>Ring entries and session numbers\<close>

text \<open>
  Every session owns \<open>kSessionCredits\<close> entries of the receive ring. The relation \<open>grow\<close> describes what
  may happen to the sessions while one of them is being torn down and a callback of the application
  runs: sessions are created, sessions keep their role and number, and no session disappears. It is a
  preorder of the locale \<open>dp_rel\<close>, so it holds across the datapath.
\<close>

definition active :: "Session option list \<Rightarrow> nat" where
  "active L = length (filter (\<lambda>x. x \<noteq> None) L)"

definition numbered :: "Session option list \<Rightarrow> bool" where
  "numbered L \<longleftrightarrow> (\<forall>i < length L. \<forall>se. L ! i = Some se \<longrightarrow> local_session_num se = u16_of i)"

definition same_role :: "Session \<Rightarrow> Session \<Rightarrow> bool" where
  "same_role a b \<longleftrightarrow> is_client a = is_client b \<and> local_session_num a = local_session_num b"

definition grow :: "rpc \<Rightarrow> rpc \<Rightarrow> bool" where
  "grow s t \<longleftrightarrow> length (session_vec s) \<le> length (session_vec t) \<and>
    (\<forall>i < length (session_vec s). rel_option same_role (session_vec s ! i) (session_vec t ! i)) \<and>
    ring_entries_available t + kSessionCredits * active (session_vec t) =
      ring_entries_available s + kSessionCredits * active (session_vec s) \<and>
    (numbered (session_vec s) \<longrightarrow> numbered (session_vec t))"

definition sm_inv :: "rpc \<Rightarrow> bool" where
  "sm_inv s \<longleftrightarrow> ring_entries_available s + kSessionCredits * active (session_vec s) = kNumRxRingEntries \<and>
    numbered (session_vec s)"

lemma same_role_refl [simp]: "same_role a a"
  by (simp add: same_role_def)

lemma same_role_trans: "same_role a b \<Longrightarrow> same_role b c \<Longrightarrow> same_role a c"
  by (simp add: same_role_def)

lemma active_snoc [simp]: "active (L @ [x]) = active L + (if x = None then 0 else 1)"
  by (simp add: active_def)

lemma active_update:
  assumes "i < length L"
  shows "active (L[i := x]) + (if L ! i = None then 0 else 1) = active L + (if x = None then 0 else 1)"
proof -
  have "active L = active (take i L @ L ! i # drop (Suc i) L)" using assms by (simp add: id_take_nth_drop [symmetric])
  then show ?thesis using assms by (simp add: upd_conv_take_nth_drop active_def)
qed

lemma active_kill: "i < length L \<Longrightarrow> L ! i = Some se \<Longrightarrow> active (L[i := None]) + 1 = active L"
  using active_update [of i L None] by simp

lemma active_map: "active (L[i := map_option f (L ! i)]) = active L"
proof (cases "i < length L")
  case True
  then show ?thesis using active_update [of i L "map_option f (L ! i)"] by (cases "L ! i") simp_all
qed (simp add: list_update_beyond)

lemma grow_refl: "grow s s"
  by (simp add: grow_def option.rel_refl)

lemma grow_trans:
  assumes "grow s t" "grow t u"
  shows "grow s u"
proof -
  have "rel_option same_role (session_vec s ! i) (session_vec u ! i)" if "i < length (session_vec s)" for i
  proof -
    have "rel_option same_role (session_vec s ! i) (session_vec t ! i)" "rel_option same_role (session_vec t ! i) (session_vec u ! i)"
      using assms that by (auto simp: grow_def)
    then show ?thesis using same_role_trans by (auto simp: option_rel_Some1 elim!: option.rel_cases)
  qed
  then show ?thesis using assms by (simp add: grow_def)
qed

lemma grow_cong: "session_vec t = session_vec s \<Longrightarrow> ring_entries_available t = ring_entries_available s \<Longrightarrow> grow s t"
  by (simp add: grow_def option.rel_refl)

lemma grow_upd_sess:
  assumes "\<And>se. same_role se (f se)"
  shows "grow s (upd_sess sn f s)"
proof -
  let ?L = "session_vec s"
  have "rel_option same_role x (map_option f x)" for x using assms by (cases x) auto
  then have "rel_option same_role (?L ! i) (?L[sn := map_option f (?L ! sn)] ! i)" if "i < length ?L" for i
    using that by (cases "i = sn") (auto simp: option.rel_refl)
  moreover have "numbered (?L[sn := map_option f (?L ! sn)])" if "numbered ?L"
    unfolding numbered_def
  proof (intro allI impI)
    fix i se assume i: "i < length (?L[sn := map_option f (?L ! sn)])" "?L[sn := map_option f (?L ! sn)] ! i = Some se"
    then obtain se0 where "?L ! i = Some se0" "se = se0 \<or> se = f se0" by (cases "i = sn") auto
    then show "local_session_num se = u16_of i" using that assms [of se0] i(1) by (auto simp: numbered_def same_role_def)
  qed
  ultimately show ?thesis by (simp add: grow_def upd_sess_def active_map)
qed

interpretation grow: dp_rel grow
proof
  show "grow s s" for s by (rule grow_refl)
  show "grow s t \<Longrightarrow> grow t u \<Longrightarrow> grow s u" for s t u by (rule grow_trans)
  show "grow s (upd_sess sn f s)" if "\<And>se. sess_id (f se) = sess_id se" for s sn f
  proof (rule grow_upd_sess)
    show "same_role se (f se)" for se using that [of se] by (simp add: sess_id_def same_role_def)
  qed
  show "session_vec t = session_vec s \<Longrightarrow> mgmt t = mgmt s \<Longrightarrow> grow s t" for s t
    by (simp add: grow_cong mgmt_def)
qed

subsection \<open>Functions of the user\<close>

lemma grow_local: "grow s u \<Longrightarrow> session_vec t = session_vec u \<Longrightarrow> ring_entries_available t = ring_entries_available u \<Longrightarrow> grow s t"
  using grow_trans grow_cong by blast

lemma send_sm_req_grow:
  assumes "send_sm_req_st e sn s = Inr t"
  shows "grow s t" "length (session_vec t) = length (session_vec s)"
proof -
  obtain se now s2 where t: "t = sm_pkt_udp_tx_st (sm_req_of se) (upd_sess sn (\<lambda>se. se\<lparr>sm_req_ts := now\<rparr>) s2)"
    and s2: "session_vec s2 = session_vec s" "ring_entries_available s2 = ring_entries_available s"
    using assms by (auto simp: send_sm_req_st_def res_Inr Let_def rdtsc_def)
  have "grow s (upd_sess sn (\<lambda>se. se\<lparr>sm_req_ts := now\<rparr>) s2)"
    using grow_trans [OF grow_cong [OF s2] grow_upd_sess] by (simp add: same_role_def)
  then show "grow s t" by (rule grow_local) (simp_all add: t sm_pkt_udp_tx_st_def Let_def)
  show "length (session_vec t) = length (session_vec s)"
    using s2 by (simp add: t sm_pkt_udp_tx_st_def Let_def upd_sess_def)
qed

text \<open>Entering a session at the end of the table.\<close>

lemma grow_push:
  assumes "local_session_num se = u16_of (length (session_vec s))" "session_vec t = session_vec s @ [Some se]"
    "ring_entries_available t + kSessionCredits = ring_entries_available s"
  shows "grow s t"
proof -
  have "numbered (session_vec s @ [Some se])" if "numbered (session_vec s)"
    using that assms(1) by (auto simp: numbered_def nth_append less_Suc_eq)
  then show ?thesis using assms by (simp add: grow_def nth_append option.rel_refl algebra_simps)
qed

lemma create_session_grow:
  assumes "create_session_st e u i s = Inr (n, t)"
  shows "grow s t"
  using assms
proof (cases rule: create_sessionE)
  case (2 h p se s1 s2)
  have "grow s (s2\<lparr>session_vec := session_vec s2 @ [Some se]\<rparr>)"
    using new_client_session_spec [OF 2(1)] alloc_ring [OF 2(2)] by (intro grow_push [of se]) auto
  then show ?thesis using send_sm_req_grow(1) [OF 2(3)] grow_trans by blast
qed (simp add: grow_refl)

lemma destroy_session_grow:
  assumes "destroy_session_st e n s = Inr (r, t)"
  shows "grow s t"
  using assms
proof (cases rule: destroy_sessionE)
  case (2 sn)
  have "grow s (upd_sess sn (\<lambda>se. se\<lparr>se_state := kDisconnectInProgress\<rparr>) s)"
    by (rule grow_upd_sess) (simp add: same_role_def)
  then show ?thesis using grow_trans send_sm_req_grow(1) [OF 2] by blast
qed (simp add: grow_refl)

subsection \<open>Growth under flow control\<close>

definition grows :: "rpc \<Rightarrow> rpc \<Rightarrow> bool" where
  "grows s t \<longleftrightarrow> grow s t \<and> sim s t"

definition same_flow :: "Session \<Rightarrow> Session \<Rightarrow> bool" where
  "same_flow a b \<longleftrightarrow> is_client a = is_client b \<and> local_session_num a = local_session_num b \<and>
    credits a = credits b \<and> sslot_arr a = sslot_arr b"

lemma grows_refl: "grows s s"
  by (simp add: grows_def grow_refl)

lemma grows_trans: "grows s t \<Longrightarrow> grows t u \<Longrightarrow> grows s u"
  unfolding grows_def using grow_trans sim_trans by blast

lemma grows_cong: "session_vec t = session_vec s \<Longrightarrow> ring_entries_available t = ring_entries_available s \<Longrightarrow> grows s t"
  unfolding grows_def using grow_cong sim_eq clients_cong by blast

lemma grows_local: "grows s u \<Longrightarrow> session_vec t = session_vec u \<Longrightarrow> ring_entries_available t = ring_entries_available u \<Longrightarrow> grows s t"
  using grows_trans grows_cong by blast

lemma grows_upd_sess: "(\<And>se. same_flow se (f se)) \<Longrightarrow> grows s (upd_sess sn f s)"
  unfolding grows_def same_flow_def by (intro conjI grow_upd_sess sim_eq clients_upd_sess_same) (simp_all add: same_role_def)

lemma grows_push:
  assumes "local_session_num se = u16_of (length (session_vec s))" "session_vec t = session_vec s @ [Some se]"
    "ring_entries_available t + kSessionCredits = ring_entries_available s" "\<not> is_client se"
  shows "grows s t"
proof -
  have "clients t = clients s @ [None]" using assms(2,4) by (simp add: clients_def abs_entry_def)
  then show ?thesis
    using grow_push [OF assms(1-3)] sstep.create [of None "clients s"] by (auto simp: grows_def sim_def)
qed

lemma send_sm_req_grows: "send_sm_req_st e sn s = Inr t \<Longrightarrow> grows s t"
  by (simp add: grows_def send_sm_req_grow(1) sim_eq send_sm_req_clients)

subsection \<open>Callbacks\<close>

definition sm_cb_ok :: "env \<Rightarrow> bool" where
  "sm_cb_ok e \<longleftrightarrow> (\<forall>n ev err s s'. sm_handler e n ev err s = Inr s' \<longrightarrow> (api e)\<^sup>*\<^sup>* s s')"

lemma api_grow: "api e s s' \<Longrightarrow> grow s s'"
  by (induction rule: api.induct)
    (auto intro: grow.okD [OF grow.ok_enqueue_request [OF grow_refl]] grow.okD [OF grow.ok_enqueue_response [OF grow_refl]]
      create_session_grow destroy_session_grow grow_cong)

lemma apis_grow: "(api e)\<^sup>*\<^sup>* s s' \<Longrightarrow> grow s s'"
  by (induction rule: rtranclp_induct) (auto intro: grow_refl grow_trans api_grow)

lemma apis_grows: "(api e)\<^sup>*\<^sup>* s s' \<Longrightarrow> grows s s'"
  by (simp add: grows_def apis_grow apis_sim)

lemma api_calls_grow: "(api_call e)\<^sup>*\<^sup>* s s' \<Longrightarrow> grow s s'"
proof (induction rule: rtranclp_induct)
  case (step t u)
  have "grow t u" using step.hyps(2)
    by (cases rule: api_call.cases) (auto intro: api_grow grow.okD [OF grow.ok_enqueue_response [OF grow_refl]])
  then show ?case using step.IH grow_trans by blast
qed (rule grow_refl)

lemma cb_grow: "cb_ok e \<Longrightarrow> grow.cb e"
  unfolding cb_ok_def grow.cb_def grow.ok_def using apis_grow api_calls_grow by blast

lemma sm_event_grows:
  assumes "sm_cb_ok e" "sm_event e n ev err s = Inr t"
  shows "grows s t"
proof -
  have "(api e)\<^sup>*\<^sup>* (s\<lparr>app_events := app_events s @ [(n, ev, err)]\<rparr>) t"
    using assms unfolding sm_event_def sm_cb_ok_def by blast
  then show ?thesis by (rule grows_trans [OF grows_cong apis_grows, rotated 2]) simp_all
qed

subsection \<open>Tearing a session down\<close>

lemma grow_get_sess:
  assumes "grow s t" "get_sess sn s = Inr se"
  shows "\<exists>se'. get_sess sn t = Inr se' \<and> same_role se se'"
proof -
  have "sn < length (session_vec s)" "session_vec s ! sn = Some se"
    using assms(2) by (auto simp: get_sess_def split: if_splits option.splits)
  then have "rel_option same_role (Some se) (session_vec t ! sn)" "sn < length (session_vec t)"
    using assms(1) by (auto simp: grow_def)
  then show ?thesis by (auto simp: option_rel_Some1 get_sess_def)
qed

lemma free_pre_resp_same: "free_pre_resp e sn i s = Inr t \<Longrightarrow>
    session_vec t = session_vec s \<and> ring_entries_available t = ring_entries_available s"
  by (auto simp: free_pre_resp_def bindE_eq_Inr)

lemma free_pre_resps_same: "foldE (free_pre_resp e sn) is s = Inr t \<Longrightarrow>
    session_vec t = session_vec s \<and> ring_entries_available t = ring_entries_available s"
  by (induction "is" arbitrary: s) (auto simp: bindE_eq_Inr dest!: free_pre_resp_same)

lemma bury_session:
  assumes "bury_session_st e sn s = Inr t" "numbered (session_vec s)" "length (session_vec s) \<le> 65536"
  shows "session_vec t = (session_vec s)[sn := None] \<and> ring_entries_available t = ring_entries_available s \<and>
    sn < length (session_vec s) \<and> session_vec s ! sn \<noteq> None"
proof -
  obtain se where se: "sn < length (session_vec s)" "session_vec s ! sn = Some se"
    and t: "session_vec t = (session_vec s)[local_session_num se := None, sn := None]"
     "ring_entries_available t = ring_entries_available s"
    using assms(1) by (auto simp: bury_session_st_def get_sess_def res_Inr split: if_splits option.splits dest!: free_pre_resps_same)
  have "local_session_num se = sn" using assms(2,3) se by (simp add: numbered_def u16_of_def)
  then show ?thesis using t se by simp
qed

lemma numbered_kill: "numbered L \<Longrightarrow> numbered (L[i := None])"
  unfolding numbered_def by (metis length_list_update nth_list_update_eq nth_list_update_neq option.distinct(1))

lemma bury_inv:
  assumes "bury_session_st e sn s = Inr t" "length (session_vec t) \<le> 65536" "numbered (session_vec s)"
    "ring_entries_available s + kSessionCredits * active (session_vec s) = kNumRxRingEntries + kSessionCredits"
  shows "sm_inv t \<and> length (session_vec t) = length (session_vec s)"
proof -
  have l: "length (session_vec t) = length (session_vec s)"
    using assms(1) by (auto simp: bury_session_st_def res_Inr split: if_splits dest!: free_pre_resps_same)
  then have b: "session_vec t = (session_vec s)[sn := None]" "ring_entries_available t = ring_entries_available s"
    "sn < length (session_vec s)" "session_vec s ! sn \<noteq> None" using bury_session [OF assms(1,3)] assms(2) by auto
  then have "active (session_vec t) + 1 = active (session_vec s)" using active_kill by auto
  then show ?thesis using b assms(3,4) numbered_kill l by (auto simp: sm_inv_def)
qed

lemma free_ring: "free_ring_entries s = Inr t \<Longrightarrow>
    session_vec t = session_vec s \<and> ring_entries_available t = ring_entries_available s + kSessionCredits"
  by (auto simp: free_ring_entries_def res_Inr Let_def)

lemma release_inv:
  assumes "sm_inv s" "free_ring_entries s = Inr s1" "grow s1 s2" "bury_session_st e sn s2 = Inr t"
    "length (session_vec t) \<le> 65536"
  shows "sm_inv t \<and> length (session_vec s) \<le> length (session_vec t)"
proof -
  have "numbered (session_vec s2)" "length (session_vec s) \<le> length (session_vec s2)"
    "ring_entries_available s2 + kSessionCredits * active (session_vec s2) = kNumRxRingEntries + kSessionCredits"
    using assms(1,3) free_ring [OF assms(2)] by (auto simp: sm_inv_def grow_def)
  then show ?thesis using bury_inv [OF assms(4,5)] by simp
qed

lemma grow_inv: "grow s t \<Longrightarrow> sm_inv s \<Longrightarrow> sm_inv t \<and> length (session_vec s) \<le> length (session_vec t)"
  by (simp add: grow_def sm_inv_def)

subsection \<open>The handlers of management packets\<close>

text \<open>
  \<open>tidy s t\<close>: a step that keeps flow control, and keeps the accounting of ring entries as long as the
  table of sessions is not too long.
\<close>

definition tidy :: "rpc \<Rightarrow> rpc \<Rightarrow> bool" where
  "tidy s t \<longleftrightarrow> (sinv (clients s) \<longrightarrow> sinv (clients t)) \<and> (sm_inv s \<longrightarrow> length (session_vec t) \<le> 65536 \<longrightarrow> sm_inv t) \<and>
    length (session_vec s) \<le> length (session_vec t)"

lemma grows_tidy: "grows s t \<Longrightarrow> tidy s t"
  unfolding tidy_def grows_def sim_def using grow_inv ssteps_sinv by (auto simp: grow_def)

lemma tidy_trans: "tidy s t \<Longrightarrow> tidy t u \<Longrightarrow> tidy s u"
  by (auto simp: tidy_def)

lemma bury_length: "bury_session_st e sn s = Inr t \<Longrightarrow> length (session_vec t) = length (session_vec s)"
  by (auto simp: bury_session_st_def res_Inr split: if_splits dest!: free_pre_resps_same)

lemma sinv_kill: "sinv L \<Longrightarrow> sinv (L[i := None])"
  unfolding sinv_def using set_update_subset_insert [of L i None] by blast

lemma bury_sinv: "bury_session_st e sn s = Inr t \<Longrightarrow> sinv (clients s) \<Longrightarrow> sinv (clients t)"
  by (auto simp: bury_session_st_def res_Inr clients_def map_update abs_entry_def split: if_splits
      dest!: free_pre_resps_same intro!: sinv_kill)

lemma release_tidy:
  assumes "free_ring_entries s = Inr s1" "grows s1 s2" "bury_session_st e sn s2 = Inr t"
  shows "tidy s t"
proof -
  have g: "grow s1 s2" "sim s1 s2" using assms(2) by (simp_all add: grows_def)
  have "sinv (clients s) \<longrightarrow> sinv (clients t)"
    using free_ring [OF assms(1)] clients_cong [of s1 s] g(2) ssteps_sinv bury_sinv [OF assms(3)] by (auto simp: sim_def)
  then show ?thesis
    unfolding tidy_def using release_inv [OF _ assms(1) g(1) assms(3)] free_ring [OF assms(1)] g(1) bury_length [OF assms(3)]
    by (auto simp: grow_def)
qed

lemma sm_reply_grows: "sm_reply p err s = Inr t \<Longrightarrow> grows s t"
  by (auto simp: sm_reply_def res_Inr sm_pkt_udp_tx_st_def Let_def intro!: grows_cong)

lemma udp_tx_grows: "grows s u \<Longrightarrow> grows s (sm_pkt_udp_tx_st p u)"
  by (erule grows_local) (simp_all add: sm_pkt_udp_tx_st_def Let_def)

lemma checked_free_same: "foldE (\<lambda>j s. assertE (c j s) (free_pre_resp e sn j s)) is s = Inr t \<Longrightarrow>
    session_vec t = session_vec s \<and> ring_entries_available t = ring_entries_available s"
  by (induction "is" arbitrary: s) (auto simp: res_Inr dest!: free_pre_resp_same)

lemma alloc_pre_resps_same: "alloc_pre_resps e sn is s = Inr (ok, t) \<Longrightarrow>
    session_vec t = session_vec s \<and> ring_entries_available t = ring_entries_available s"
proof (induction "is" arbitrary: s)
  case (Cons i "is")
  from Cons.prems show ?case
    by (auto simp: bindE_eq_Inr upd_mbuf_def split: option.splits dest!: Cons.IH checked_free_same)
qed simp

lemma accept_connect_grows:
  assumes "accept_connect e p ri s = Inr t"
  shows "grows s t"
proof -
  obtain se0 ok s1 where i: "\<not> is_client se0"
    and a: "alloc_pre_resps e (length (session_vec s)) [0..<kSessionReqWindow] s = Inr (ok, s1)"
    and k: "if \<not> ok then sm_reply p kOutOfMemory s1 = Inr t
      else (\<exists>s3 resp. alloc_ring_entries (s1\<lparr>conn_req_token_map := (conn_req_token_map s1)
            (se_uniq_token (new_server_session e p ri (u16_of (length (session_vec s))) se0) \<mapsto> u16_of (length (session_vec s)))\<rparr>) = Inr s3 \<and>
          t = sm_pkt_udp_tx_st resp (s3\<lparr>session_vec := session_vec s3 @
            [Some (new_server_session e p ri (u16_of (length (session_vec s))) se0)]\<rparr>))"
    using assms session_init_ainv by (fastforce simp: accept_connect_def res_Inr Let_def split: if_splits)
  have same: "session_vec s1 = session_vec s" "ring_entries_available s1 = ring_entries_available s"
    using alloc_pre_resps_same [OF a] by auto
  show ?thesis
  proof (cases ok)
    case True
    let ?se = "new_server_session e p ri (u16_of (length (session_vec s))) se0"
    obtain s3 resp where s3: "session_vec s3 = session_vec s"
      "ring_entries_available s3 + kSessionCredits = ring_entries_available s"
      "t = sm_pkt_udp_tx_st resp (s3\<lparr>session_vec := session_vec s3 @ [Some ?se]\<rparr>)"
      using True k same by (auto dest!: alloc_ring)
    have "grows s (s3\<lparr>session_vec := session_vec s3 @ [Some ?se]\<rparr>)"
      using s3 i by (intro grows_push [of ?se]) (simp_all add: new_server_session_def)
    then show ?thesis using s3 udp_tx_grows by simp
  next
    case False
    then show ?thesis using k sm_reply_grows grows_trans [OF grows_cong [OF same]] by auto
  qed
qed

lemma connect_req_grows: "handle_connect_req_st e p s = Inr t \<Longrightarrow> grows s t"
  by (auto simp: handle_connect_req_st_def res_Inr split: option.splits if_splits
      intro: grows_refl udp_tx_grows sm_reply_grows accept_connect_grows)

lemma connect_succeeded_grows:
  assumes "connect_succeeded e sn p ri s = Inr t" "sm_cb_ok e"
  shows "grows s t"
proof -
  define s1 where "s1 = snd (rdtsc e s)"
  define s2 where "s2 = upd_sess sn (\<lambda>se. se\<lparr>se_server := (sp_server p)\<lparr>ep_routing_info := ri\<rparr>,
    remote_session_num := unat (ep_session_num (sp_server p)), se_state := kConnected,
    prev_desired_tx_tsc := fst (rdtsc e s)\<rparr>) s1"
  obtain n where ev: "sm_event e n kEvConnected kNoError s2 = Inr t"
    using assms(1) by (auto simp: connect_succeeded_def split_def Let_def bindE_eq_Inr s2_def s1_def)
  have s1: "session_vec s1 = session_vec s" "ring_entries_available s1 = ring_entries_available s"
    by (simp_all add: s1_def rdtsc_def)
  have "grows s1 s2" unfolding s2_def by (rule grows_upd_sess) (simp add: same_flow_def)
  then show ?thesis using grows_trans grows_cong [OF s1] sm_event_grows [OF assms(2) ev] by blast
qed

lemma connect_resp_tidy:
  assumes "handle_connect_resp_st e p s = Inr t" "sm_cb_ok e"
  shows "tidy s t"
proof -
  let ?sn = "unat (ep_session_num (sp_client p))"
  let ?give_up = "\<lambda>se. se\<lparr>se_server := sp_server p, se_state := kDisconnectInProgress\<rparr>"
  consider "session_vec t = session_vec s" "ring_entries_available t = ring_entries_available s"
    | n s1 s2 where "free_ring_entries s = Inr s1" "sm_event e n kEvConnectFailed (sp_err_type p) s1 = Inr s2"
        "bury_session_st e ?sn s2 = Inr t"
    | "send_sm_req_st e ?sn (upd_sess ?sn ?give_up s) = Inr t"
    | ri where "connect_succeeded e ?sn p ri s = Inr t"
    using assms(1) by (auto simp: handle_connect_resp_st_def res_Inr Let_def split: option.splits if_splits)
  then show ?thesis
  proof cases
    case 1
    then show ?thesis by (intro grows_tidy grows_cong)
  next
    case 2
    then show ?thesis using release_tidy sm_event_grows [OF assms(2)] by blast
  next
    case 3
    moreover have "grows s (upd_sess ?sn ?give_up s)" by (rule grows_upd_sess) (simp add: same_flow_def)
    ultimately show ?thesis using grows_trans send_sm_req_grows grows_tidy by blast
  next
    case 4
    then show ?thesis using connect_succeeded_grows assms(2) grows_tidy by blast
  qed
qed

lemma disconnect_req_tidy:
  assumes "handle_disconnect_req_st e p s = Inr t"
  shows "tidy s t"
proof -
  consider "sm_reply p kNoError s = Inr t"
    | s1 s2 where "free_ring_entries s = Inr s1" "sm_reply p kNoError s1 = Inr s2"
        "bury_session_st e (unat (ep_session_num (sp_server p))) s2 = Inr t"
    using assms by (auto simp: handle_disconnect_req_st_def res_Inr Let_def split: option.splits)
  then show ?thesis using release_tidy sm_reply_grows grows_tidy by cases blast+
qed

lemma disconnect_resp_tidy:
  assumes "handle_disconnect_resp_st e p s = Inr t" "sm_cb_ok e"
  shows "tidy s t"
proof -
  consider "t = s"
    | n s1 s2 where "free_ring_entries s = Inr s1" "sm_event e n kEvDisconnected kNoError s1 = Inr s2"
        "bury_session_st e (unat (ep_session_num (sp_client p))) s2 = Inr t"
    using assms by (auto simp: handle_disconnect_resp_st_def res_Inr Let_def split: option.splits)
  then show ?thesis using release_tidy sm_event_grows [OF assms(2)] grows_tidy grows_refl by cases blast+
qed

subsection \<open>Resets, the management queue and retries\<close>

lemma upd_slot_same:
  assumes "get_slot r s = Inr sl" "f sl = sl"
  shows "upd_slot r f s = s"
proof -
  obtain se where se: "fst r < length (session_vec s)" "session_vec s ! fst r = Some se" "snd r < length (sslot_arr se)"
    "sl = sslot_arr se ! snd r" using assms(1) by (auto simp: get_slot_def get_sess_def bindE_eq_Inr split: if_splits option.splits)
  then have "se\<lparr>sslot_arr := (sslot_arr se)[snd r := f (sslot_arr se ! snd r)]\<rparr> = se" using assms(2) by simp
  then have "(session_vec s)[fst r := Some (se\<lparr>sslot_arr := (sslot_arr se)[snd r := f (sslot_arr se ! snd r)]\<rparr>)] = session_vec s"
    using se(2) by (metis list_update_id)
  then show ?thesis using se(2) by (simp add: upd_slot_def upd_sess_def)
qed

lemma reset_client_slot_grows:
  assumes "reset_client_slot e sn i s = Inr t" "cb_ok e"
  shows "grows s t"
proof -
  have g: "grow.ok s (reset_client_slot e sn i s)"
    unfolding reset_client_slot_def Let_def
    by (intro grow.ok_intros grow.R_del_list grow.ok_continue cb_grow assms(2))
  obtain sl where sl: "get_slot (sn, i) s = Inr sl" using assms(1) by (auto simp: reset_client_slot_def bindE_eq_Inr)
  have "sim s t"
  proof (cases "tx_msgbuf sl = None")
    case True
    let ?s1 = "delete_from_active_rpc_list (sn, i) (upd_slot (sn, i) (\<lambda>sl. sl\<lparr>tx_msgbuf := None\<rparr>) s)"
    obtain m fv where c: "continue e (cont_func sl) (cont_tag sl) (upd_mbuf (resp_msgbuf sl) (\<lambda>_. m)
        (upd_sess sn (\<lambda>se. se\<lparr>sslot_free_vec := fv\<rparr>) ?s1)) = Inr t"
      using assms(1) sl True by (auto simp: reset_client_slot_def Let_def bindE_eq_Inr)
    have "upd_slot (sn, i) (\<lambda>sl. sl\<lparr>tx_msgbuf := None\<rparr>) s = s" using sl by (rule upd_slot_same) (use True in simp)
    then have "clients ?s1 = clients s" by (intro clients_cong) (simp add: session_vec_del_list)
    moreover have "clients (upd_mbuf (resp_msgbuf sl) (\<lambda>_. m) (upd_sess sn (\<lambda>se. se\<lparr>sslot_free_vec := fv\<rparr>) ?s1)) = clients ?s1"
      using clients_upd_sess_same [of "\<lambda>se. se\<lparr>sslot_free_vec := fv\<rparr>" sn ?s1] by simp
    ultimately have "sim s (upd_mbuf (resp_msgbuf sl) (\<lambda>_. m) (upd_sess sn (\<lambda>se. se\<lparr>sslot_free_vec := fv\<rparr>) ?s1))"
      by (intro sim_eq) simp
    then show ?thesis using continue_sim [OF assms(2) c] sim_trans by blast
  qed (use assms(1) sl in \<open>auto simp: reset_client_slot_def\<close>)
  then show ?thesis using grow.okD [OF g assms(1)] by (simp add: grows_def)
qed

lemma reset_client_slots_grows:
  "foldE (reset_client_slot e sn) is s = Inr t \<Longrightarrow> cb_ok e \<Longrightarrow> grows s t"
  by (induction "is" arbitrary: s) (auto simp: bindE_eq_Inr intro: grows_refl grows_trans reset_client_slot_grows)

lemma reset_client_tidy:
  assumes "handle_reset_client_st e sn s = Inr (b, t)" "sm_cb_ok e" "cb_ok e"
  shows "tidy s t"
proof -
  obtain q "is" s2 n s3 s4 where r: "foldE (reset_client_slot e sn) is (s\<lparr>stallq := q\<rparr>) = Inr s2"
    and f: "free_ring_entries (upd_sess sn (\<lambda>se. se\<lparr>se_state := kDisconnectInProgress\<rparr>) s2) = Inr s3"
    and ev: "sm_event e n kEvDisconnected kSrvDisconnected s3 = Inr s4" and b: "bury_session_st e sn s4 = Inr t"
    using assms(1) by (auto simp: handle_reset_client_st_def res_Inr Let_def)
  have "grows s (s\<lparr>stallq := q\<rparr>)" by (rule grows_cong) simp_all
  then have "grows s s2" using reset_client_slots_grows [OF r assms(3)] grows_trans by blast
  moreover have "grows s2 (upd_sess sn (\<lambda>se. se\<lparr>se_state := kDisconnectInProgress\<rparr>) s2)"
    by (rule grows_upd_sess) (simp add: same_flow_def)
  ultimately have "tidy s (upd_sess sn (\<lambda>se. se\<lparr>se_state := kDisconnectInProgress\<rparr>) s2)"
    using grows_tidy grows_trans by blast
  then show ?thesis using release_tidy [OF f sm_event_grows [OF assms(2) ev] b] tidy_trans by blast
qed

lemma reset_server_tidy:
  assumes "handle_reset_server_st e sn s = Inr (b, t)"
  shows "tidy s t"
proof -
  let ?s1 = "upd_sess sn (\<lambda>se. se\<lparr>se_state := kResetInProgress\<rparr>) s"
  have g: "tidy s ?s1" by (intro grows_tidy grows_upd_sess) (simp add: same_flow_def)
  consider "t = ?s1" | s2 where "free_ring_entries ?s1 = Inr s2" "bury_session_st e sn s2 = Inr t"
    using assms by (auto simp: handle_reset_server_st_def res_Inr Let_def split: if_splits)
  then show ?thesis using g tidy_trans release_tidy grows_refl by cases blast+
qed

lemma sm_item_tidy:
  assumes "handle_sm_item e wi s = Inr t" "sm_cb_ok e"
  shows "tidy s t"
proof -
  obtain p where "handle_connect_req_st e p (erase_pending p s) = Inr t \<or> handle_disconnect_req_st e p (erase_pending p s) = Inr t \<or>
      handle_connect_resp_st e p (erase_pending p s) = Inr t \<or> handle_disconnect_resp_st e p (erase_pending p s) = Inr t"
    using assms(1) by (auto simp: handle_sm_item_def Let_def split: SmWorkItem.splits SmPktType.splits)
  then have "tidy (erase_pending p s) t"
    using connect_req_grows grows_tidy disconnect_req_tidy connect_resp_tidy [OF _ assms(2)] disconnect_resp_tidy [OF _ assms(2)]
    by blast
  moreover have "tidy s (erase_pending p s)"
    by (intro grows_tidy grows_cong) (simp_all add: erase_pending_def Let_def)
  ultimately show ?thesis by (rule tidy_trans [rotated])
qed

lemma sm_rx_loop_tidy:
  assumes "sm_rx_loop n e s = Inr t" "sm_cb_ok e"
  shows "tidy s t"
  using assms(1)
proof (induction n arbitrary: s)
  case 0
  then show ?case by (simp add: sm_rx_loop.simps grows_refl grows_tidy split: if_splits)
next
  case (Suc n)
  then consider "t = s" | wi q u where "handle_sm_item e wi (s\<lparr>sm_rx_queue := q\<rparr>) = Inr u" "sm_rx_loop n e u = Inr t"
    by (auto simp: sm_rx_loop.simps [of "Suc n"] bindE_eq_Inr split: if_splits)
  then show ?case
  proof cases
    case 2
    have "tidy s (s\<lparr>sm_rx_queue := q\<rparr>)" by (intro grows_tidy grows_cong) simp_all
    then show ?thesis using 2 Suc.IH sm_item_tidy [OF _ assms(2)] tidy_trans by blast
  qed (simp add: grows_refl grows_tidy)
qed

lemma sm_retry_grows:
  assumes "sm_retry_one e sn s = Inr t"
  shows "grows s t"
proof -
  have now: "grows s (snd (rdtsc e s))" by (rule grows_cong) (simp_all add: rdtsc_def)
  obtain c d where "t = s \<or> (if c then (if d then send_sm_req_st e sn (snd (rdtsc e s)) else Inr (snd (rdtsc e s))) else Inr s) = Inr t"
    using assms unfolding sm_retry_one_def Let_def split_def
    by (cases "session_vec s ! sn") (auto simp: res_Inr simp del: if_split)
  then show ?thesis
    using now grows_refl grows_trans [OF now send_sm_req_grows] by (auto split: if_splits)
qed

lemma sm_retries_grows: "foldE (sm_retry_one e) is s = Inr t \<Longrightarrow> grows s t"
  by (induction "is" arbitrary: s) (auto simp: bindE_eq_Inr intro: grows_refl grows_trans sm_retry_grows)

lemma loss_scan_tidy:
  assumes "pkt_loss_scan_st e s = Inr t"
  shows "tidy s t"
proof -
  obtain u where u: "scan_active_rpcs e s = Inr u" and g: "grows u t"
    using assms by (auto simp: pkt_loss_scan_st_def bindE_eq_Inr dest: sm_retries_grows)
  have "grow s u" using grow.okD [OF grow.ok_scan [OF grow_refl] u] .
  then have "tidy s u" unfolding tidy_def using grow_inv scan_sim [OF u] sim_sinv by (auto simp: grow_def)
  then show ?thesis using grows_tidy [OF g] tidy_trans by blast
qed

end
