(* ===== verification/Rpc_Event_Loop.thy ===== *)
theory Rpc_Event_Loop
  imports Rpc_Sm_Inv
begin

section \<open>The event loop (\<open>rpc_ev_loop.cc\<close>)\<close>

text \<open>
  One iteration of the loop with the packets the transport delivers to it, and the loop with a
  timeout. What other threads do before an iteration (the management thread and the background
  threads fill queues, the NIC delivers packets) is the argument \<open>arrive\<close>.
\<close>

definition ev_loop_rx :: "env \<Rightarrow> packet list \<Rightarrow> rpc \<Rightarrow> rpc res" where
  "ev_loop_rx e pkts s = bindE (if 0 < mt_size (sm_rx_queue s) then handle_sm_rx_st e s else Inr s) (\<lambda>s1.
    let (now, s2) = rdtsc e s1 in process_comps_st e pkts (s2\<lparr>ev_loop_tsc := now\<rparr>))"

definition ev_loop_tx :: "env \<Rightarrow> rpc \<Rightarrow> rpc res" where
  "ev_loop_tx e s = bindE (process_credit_stall_queue_st e s) (\<lambda>s1.
    bindE (process_wheel_st e s1) (\<lambda>s2.
      if 0 < length (tx_burst_arr s2) then do_tx_burst_st e s2 else Inr s2))"

definition ev_loop_bg :: "env \<Rightarrow> rpc \<Rightarrow> rpc res" where
  "ev_loop_bg e s = (if 0 < num_bg_threads e
    then bindE (process_bg_queues_enqueue_request_st e s) (process_bg_queues_enqueue_response_st e)
    else Inr s)"

definition ev_loop_scan :: "env \<Rightarrow> rpc \<Rightarrow> rpc res" where
  "ev_loop_scan e s =
    (if rpc_pkt_loss_scan_cycles e < sub64 (ev_loop_tsc s) (pkt_loss_scan_tsc s)
     then pkt_loss_scan_st e (s\<lparr>pkt_loss_scan_tsc := ev_loop_tsc s\<rparr>) else Inr s)"

definition run_event_loop_do_one_st :: "env \<Rightarrow> packet list \<Rightarrow> rpc \<Rightarrow> rpc res" where
  "run_event_loop_do_one_st e pkts s = assertE (in_dispatch e s)
    (bindE (ev_loop_rx e pkts s) (\<lambda>s1. bindE (ev_loop_tx e s1) (\<lambda>s2.
     bindE (ev_loop_bg e s2) (ev_loop_scan e))))"

text \<open>The loop of \<open>run_event_loop_timeout_st\<close>; the first argument bounds the iterations.\<close>

fun timeout_loop :: "nat \<Rightarrow> env \<Rightarrow> (nat \<Rightarrow> rpc \<Rightarrow> packet list \<times> rpc) \<Rightarrow> nat \<Rightarrow> nat \<Rightarrow> nat \<Rightarrow> rpc \<Rightarrow> rpc res" where
  "timeout_loop 0 e arrive i timeout_tsc start s = Inl NoReturn"
| "timeout_loop (Suc n) e arrive i timeout_tsc start s =
    (let (pkts, s0) = arrive i s
     in bindE (run_event_loop_do_one_st e pkts s0) (\<lambda>s1.
       if timeout_tsc < sub64 (ev_loop_tsc s1) start then Inr s1
       else timeout_loop n e arrive (i + 1) timeout_tsc start s1))"

definition run_event_loop_timeout_st :: "nat \<Rightarrow> env \<Rightarrow> (nat \<Rightarrow> rpc \<Rightarrow> packet list \<times> rpc) \<Rightarrow> nat \<Rightarrow> rpc \<Rightarrow> rpc res" where
  "run_event_loop_timeout_st fuel e arrive timeout_ms s = assertE (in_dispatch e s)
    (let timeout_tsc = ms_to_cycles (real timeout_ms) (freq_ghz e); (start, s1) = rdtsc e s
     in timeout_loop fuel e arrive 0 timeout_tsc start s1)"

subsection \<open>An iteration keeps the invariants\<close>

text \<open>
  What an iteration takes from outside: the packets conform to the protocol, and background threads
  answer requests of server sessions.
\<close>

definition loop_conforms :: "env \<Rightarrow> packet list \<Rightarrow> rpc \<Rightarrow> bool" where
  "loop_conforms e pkts s \<longleftrightarrow>
    (\<forall>s1 t. (if 0 < mt_size (sm_rx_queue s) then handle_sm_rx_st e s else Inr s) = Inr s1 \<longrightarrow>
      comps_conform e pkts ((snd (rdtsc e s1))\<lparr>ev_loop_tsc := t\<rparr>)) \<and>
    (\<forall>s1 s2 s3. ev_loop_rx e pkts s = Inr s1 \<longrightarrow> ev_loop_tx e s1 = Inr s2 \<longrightarrow>
      process_bg_queues_enqueue_request_st e s2 = Inr s3 \<longrightarrow> (\<forall>x \<in> set (mtq (bgq_response s3)). srv s3 (fst (fst x))))"

lemma tidy_cong: "session_vec t = session_vec s \<Longrightarrow> ring_entries_available t = ring_entries_available s \<Longrightarrow> tidy s t"
  by (intro grows_tidy grows_cong)

lemma tidyI: "grow s t \<Longrightarrow> (sinv (clients s) \<Longrightarrow> sim s t) \<Longrightarrow> tidy s t"
  unfolding tidy_def using grow_inv sim_sinv by (auto simp: grow_def)

lemma handle_sm_rx_tidy: "handle_sm_rx_st e s = Inr t \<Longrightarrow> sm_cb_ok e \<Longrightarrow> tidy s t"
  by (auto simp: handle_sm_rx_st_def res_Inr intro: sm_rx_loop_tidy)

lemma ev_loop_rx_tidy:
  assumes "ev_loop_rx e pkts s = Inr t" "cb_ok e" "sm_cb_ok e" "loop_conforms e pkts s"
  shows "tidy s t"
proof -
  obtain s1 where s1: "(if 0 < mt_size (sm_rx_queue s) then handle_sm_rx_st e s else Inr s) = Inr s1"
    and c: "process_comps_st e pkts ((snd (rdtsc e s1))\<lparr>ev_loop_tsc := fst (rdtsc e s1)\<rparr>) = Inr t"
    using assms(1) by (auto simp: ev_loop_rx_def bindE_eq_Inr Let_def split_def)
  let ?s2 = "(snd (rdtsc e s1))\<lparr>ev_loop_tsc := fst (rdtsc e s1)\<rparr>"
  have "tidy s s1" using s1 handle_sm_rx_tidy [OF _ assms(3)] by (auto simp: tidy_cong split: if_splits)
  moreover have "tidy s1 ?s2" by (intro tidy_cong) (simp_all add: rdtsc_def)
  moreover have "comps_conform e pkts ?s2" using assms(4) s1 by (simp add: loop_conforms_def)
  then have "tidy ?s2 t"
    using grow.okD [OF grow.ok_comps [OF cb_grow [OF assms(2)] grow_refl] c] process_comps_sim [OF c assms(2)] by (intro tidyI)
  ultimately show ?thesis using tidy_trans by blast
qed

lemma ev_loop_tx_tidy:
  assumes "ev_loop_tx e s = Inr t"
  shows "tidy s t"
proof -
  obtain s1 s2 where s1: "process_credit_stall_queue_st e s = Inr s1" and s2: "process_wheel_st e s1 = Inr s2"
    and t: "(if 0 < length (tx_burst_arr s2) then do_tx_burst_st e s2 else Inr s2) = Inr t"
    using assms by (auto simp: ev_loop_tx_def bindE_eq_Inr)
  have "tidy s s1" using grow.okD [OF grow.ok_stall [OF grow_refl] s1] process_stall_sim [OF s1] by (intro tidyI)
  moreover have "tidy s1 s2" using grow.okD [OF grow.ok_wheel [OF grow_refl] s2] process_wheel_sim [OF s2] by (intro tidyI)
  moreover have "tidy s2 t"
  proof (cases "0 < length (tx_burst_arr s2)")
    case True
    then have d: "do_tx_burst_st e s2 = Inr t" using t by simp
    show ?thesis using grow.okD [OF grow.ok_do_tx_burst [OF grow_refl] d] frame_sim [OF frame_do_tx_burst [OF d]] by (intro tidyI)
  qed (use t in \<open>simp add: tidy_cong\<close>)
  ultimately show ?thesis using tidy_trans by blast
qed

lemma ev_loop_bg_tidy:
  assumes "ev_loop_bg e s = Inr t"
    "\<And>u. process_bg_queues_enqueue_request_st e s = Inr u \<Longrightarrow> \<forall>x \<in> set (mtq (bgq_response u)). srv u (fst (fst x))"
  shows "tidy s t"
proof (cases "0 < num_bg_threads e")
  case True
  then obtain u where u: "process_bg_queues_enqueue_request_st e s = Inr u"
    and t: "process_bg_queues_enqueue_response_st e u = Inr t" using assms(1) by (auto simp: ev_loop_bg_def bindE_eq_Inr)
  have "tidy s u"
    using grow.okD [OF grow.ok_bg_requests [OF grow_refl] u] process_bg_requests_sim [OF u] by (intro tidyI)
  moreover have "tidy u t"
    using grow.okD [OF grow.ok_bg_responses [OF grow_refl] t] process_bg_responses_sim [OF t assms(2) [OF u]] by (intro tidyI)
  ultimately show ?thesis by (rule tidy_trans)
qed (use assms(1) in \<open>simp add: ev_loop_bg_def tidy_cong\<close>)

lemma ev_loop_scan_tidy:
  assumes "ev_loop_scan e s = Inr t"
  shows "tidy s t"
proof -
  have "tidy s (s\<lparr>pkt_loss_scan_tsc := ev_loop_tsc s\<rparr>)" by (rule tidy_cong) simp_all
  moreover have "t = s \<or> pkt_loss_scan_st e (s\<lparr>pkt_loss_scan_tsc := ev_loop_tsc s\<rparr>) = Inr t"
    using assms by (auto simp: ev_loop_scan_def split: if_splits)
  ultimately show ?thesis using loss_scan_tidy tidy_trans tidy_cong by blast
qed

lemma do_one_tidy:
  assumes "run_event_loop_do_one_st e pkts s = Inr t" "cb_ok e" "sm_cb_ok e" "loop_conforms e pkts s"
  shows "tidy s t"
proof -
  obtain s1 s2 s3 where s: "ev_loop_rx e pkts s = Inr s1" "ev_loop_tx e s1 = Inr s2" "ev_loop_bg e s2 = Inr s3" "ev_loop_scan e s3 = Inr t"
    using assms(1) by (auto simp: run_event_loop_do_one_st_def res_Inr)
  have "tidy s2 s3" using ev_loop_bg_tidy [OF s(3)] assms(4) s(1,2) unfolding loop_conforms_def by blast
  then show ?thesis
    using ev_loop_rx_tidy [OF s(1) assms(2-4)] ev_loop_tx_tidy [OF s(2)] ev_loop_scan_tidy [OF s(4)] tidy_trans by blast
qed

subsection \<open>The endpoint\<close>

text \<open>
  The steps of an endpoint: an iteration of its event loop, a call of the application, a reset of a
  session.
\<close>

inductive estep :: "env \<Rightarrow> rpc \<Rightarrow> rpc \<Rightarrow> bool" for e where
  e_loop: "run_event_loop_do_one_st e pkts s = Inr s' \<Longrightarrow> loop_conforms e pkts s \<Longrightarrow> estep e s s'"
| e_app: "api e s s' \<Longrightarrow> estep e s s'"
| e_reset_client: "handle_reset_client_st e sn s = Inr (b, s') \<Longrightarrow> estep e s s'"
| e_reset_server: "handle_reset_server_st e sn s = Inr (b, s') \<Longrightarrow> estep e s s'"

lemma api_tidy: "api e s s' \<Longrightarrow> tidy s s'"
  by (intro grows_tidy) (simp add: grows_def api_grow api_sim)

lemma estep_tidy: "estep e s s' \<Longrightarrow> cb_ok e \<Longrightarrow> sm_cb_ok e \<Longrightarrow> tidy s s'"
  by (induction rule: estep.induct) (auto intro: do_one_tidy api_tidy reset_client_tidy reset_server_tidy)

lemma esteps_tidy: "(estep e)\<^sup>*\<^sup>* s s' \<Longrightarrow> cb_ok e \<Longrightarrow> sm_cb_ok e \<Longrightarrow> tidy s s'"
proof (induction rule: rtranclp_induct)
  case (step t u)
  then show ?case using estep_tidy tidy_trans by blast
qed (simp add: tidy_cong)

lemma num_active_eq: "in_dispatch e s \<Longrightarrow> num_active_sessions_st e s = Inr (active (session_vec s))"
proof -
  have "foldl (\<lambda>ret x. if x \<noteq> None then ret + 1 else ret) n L = n + active L" for n and L :: "Session option list"
    by (induction L arbitrary: n) (simp_all add: active_def)
  then show "in_dispatch e s \<Longrightarrow> ?thesis" by (simp add: num_active_sessions_st_def)
qed

text \<open>
  C?. Accounting of sessions along every run of an endpoint (iterations of the event loop on
  conforming packets, calls of the application, resets, with callbacks that may create and destroy
  sessions): each live session owns 32 entries of the receive ring and the rest is available, so at
  most 128 sessions are live; releasing the entries of a live session passes the assertion of
  \<open>free_ring_entries\<close>; a session stands in the table under its own number; and flow control holds for
  every client session. The table must not have grown past 65536 entries.
\<close>

theorem endpoint_invariant:
  assumes run: "(estep e)\<^sup>*\<^sup>* s s'" and cb: "cb_ok e" "sm_cb_ok e"
    and init: "ring_entries_available s + kSessionCredits * active (session_vec s) = kNumRxRingEntries"
      "numbered (session_vec s)" "\<forall>sn se. get_sess sn s = Inr se \<longrightarrow> is_client se \<longrightarrow> flow_ok se"
    and len: "length (session_vec s') \<le> 65536"
  shows "ring_entries_available s' + kSessionCredits * active (session_vec s') = kNumRxRingEntries \<and>
    active (session_vec s') \<le> 128 \<and>
    (0 < active (session_vec s') \<longrightarrow> (\<exists>t. free_ring_entries s' = Inr t)) \<and>
    (\<forall>sn se. get_sess sn s' = Inr se \<longrightarrow> local_session_num se = sn \<and> (is_client se \<longrightarrow> flow_ok se))"
proof -
  have i: "sm_inv s'" "sinv (clients s')"
    using esteps_tidy [OF run cb] init len by (auto simp: tidy_def sm_inv_def sinv_flow)
  then have r: "ring_entries_available s' + kSessionCredits * active (session_vec s') = kNumRxRingEntries"
    and n: "numbered (session_vec s')" by (simp_all add: sm_inv_def)
  have "local_session_num se = sn" if "get_sess sn s' = Inr se" for sn se
    using n that len by (auto simp: numbered_def get_sess_Inr u16_of_def)
  moreover have "is_client se \<longrightarrow> flow_ok se" if "get_sess sn s' = Inr se" for sn se
    using i(2) that by (auto simp: sinv_flow)
  ultimately show ?thesis using r by (auto simp: free_ring_entries_def Let_def)
qed

subsection \<open>A new session of the example endpoint\<close>

lemma demo_session_init:
  "\<exists>se. session_init True 77 2 5000000000 now 0 kRaw = Inr se \<and> ep_session_num (se_server se) = kInvalidSessionNum"
  by (simp add: session_init_def fv_push_back_def upt_rec res_simps numeral_eq_Suc SessionEndpoint_init_def)

lemma demo_create:
  "\<exists>s'. create_session_st demo_env ''b:31850'' 1 demo_rpc = Inr (2, s') \<and> length (session_vec s') = 3 \<and> active (session_vec s') = 3"
proof -
  have u: "extract_hostname_from_uri ''b:31850'' = Inr ''b''" "extract_udp_port_from_uri ''b:31850'' = Inr 31850"
    using demo_uri by (auto simp: split_uri_def extract_hostname_from_uri_def extract_udp_port_from_uri_def res_Inr)
  obtain se where "session_init True 77 2 5000000000 0 0 kRaw = Inr se" using demo_session_init by blast
  then show ?thesis
    by (simp add: create_session_st_def in_dispatch_def u have_ring_entries_def new_client_session_def Let_def rdtsc_def
        demo_rpc_def demo_env_def strcpy_hostname_def alloc_ring_entries_def send_sm_req_st_def get_sess_def upd_sess_def
        sm_pkt_udp_tx_st_def u16_of_def sub64_def active_def)
qed

theorem endpoint_invariant_witness:
  "\<exists>s'. length (session_vec s') = 3 \<and> (estep demo_env)\<^sup>*\<^sup>* demo_rpc s' \<and>
    ring_entries_available s' + 32 * active (session_vec s') = 4096 \<and> (\<exists>t. free_ring_entries s' = Inr t)"
proof -
  obtain s' where s': "create_session_st demo_env ''b:31850'' 1 demo_rpc = Inr (2, s')" "length (session_vec s') = 3" "active (session_vec s') = 3"
    using demo_create by blast
  then have run: "(estep demo_env)\<^sup>*\<^sup>* demo_rpc s'" using e_app [OF api_create] by blast
  have cb: "cb_ok demo_env" "sm_cb_ok demo_env" using demo_cb_ok by (simp_all add: sm_cb_ok_def demo_env_def)
  have i: "ring_entries_available demo_rpc + kSessionCredits * active (session_vec demo_rpc) = kNumRxRingEntries"
    "numbered (session_vec demo_rpc)"
    by (auto simp: demo_rpc_def active_def numbered_def u16_of_def demo_sess_def less_Suc_eq numeral_2_eq_2)
  show ?thesis using endpoint_invariant [OF run cb i demo_flow] s'(2,3) run by auto
qed

end
