(* ===== verification/Rpc_Handshake.thy ===== *)
theory Rpc_Handshake
  imports Rpc_Event_Loop
begin

section \<open>Connecting two endpoints\<close>

text \<open>
  The connect handshake between a client endpoint and a server endpoint, each with its own
  environment: the packets one side hands to the UDP client are the packets the other side handles.
  Lost packets are sent again, so the handler of connect requests must tolerate duplicates.
\<close>

subsection \<open>Duplicates\<close>

lemma alloc_pre_resps_mgmt: "alloc_pre_resps e sn is s = Inr (ok, t) \<Longrightarrow> mgmt t = mgmt s"
proof (induction "is" arbitrary: s)
  case (Cons i "is")
  have free: "foldE (\<lambda>j s. assertE (c j s) (free_pre_resp e sn j s)) js u = Inr v \<Longrightarrow> mgmt v = mgmt u" for c js u v
    by (induction js arbitrary: u) (auto simp: res_Inr free_pre_resp_def)
  from Cons.prems show ?case
    by (auto simp: bindE_eq_Inr upd_mbuf_def split: option.splits dest!: Cons.IH free)
qed simp

lemma session_init_fields:
  "session_init c tok f bw now junk old = Inr se \<Longrightarrow> is_client se = c \<and> se_uniq_token se = tok"
  by (auto simp: session_init_def bindE_eq_Inr)

lemma accept_connect_result:
  assumes "accept_connect e p ri s = Inr t" "length (session_vec t) \<noteq> length (session_vec s)"
  shows "\<exists>va se0 resp. alloc_pre_resps e (length (session_vec s)) [0..<kSessionReqWindow] s = Inr (True, va) \<and>
    sm_construct_resp p kNoError = Inr resp \<and> se_uniq_token se0 = sp_uniq_token p \<and> \<not> is_client se0 \<and>
    (let num = u16_of (length (session_vec s)); se = new_server_session e p ri num se0
     in t = sm_pkt_udp_tx_st (resp\<lparr>sp_server := se_server se\<rparr>)
       (va\<lparr>conn_req_token_map := (conn_req_token_map va)(sp_uniq_token p \<mapsto> num),
           ring_entries_available := ring_entries_available va - kSessionCredits,
           session_vec := session_vec va @ [Some se]\<rparr>))"
proof -
  obtain se0 ok va where i: "session_init False (sp_uniq_token p) (freq_ghz e) (bandwidth e) 0 (heap_junk e) (heap_old_tt e) = Inr se0"
    and a: "alloc_pre_resps e (length (session_vec s)) [0..<kSessionReqWindow] s = Inr (ok, va)"
    and k: "(if \<not> ok then sm_reply p kOutOfMemory va
        else
          (let num = u16_of (length (session_vec s)); se = new_server_session e p ri num se0;
               s2 = va\<lparr>conn_req_token_map := (conn_req_token_map va)(se_uniq_token se \<mapsto> num)\<rparr>
           in bindE (alloc_ring_entries s2) (\<lambda>s3.
             let s4 = s3\<lparr>session_vec := session_vec s3 @ [Some se]\<rparr>
             in bindE (sm_construct_resp p kNoError) (\<lambda>resp.
               Inr (sm_pkt_udp_tx_st (resp\<lparr>sp_server := se_server se\<rparr>) s4))))) = Inr t"
    using assms(1) by (auto simp: accept_connect_def bindE_eq_Inr Let_def)
  have f: "se_uniq_token se0 = sp_uniq_token p" "\<not> is_client se0" using session_init_fields [OF i] by auto
  have ok
  proof (rule ccontr)
    assume "\<not> ok"
    then have "session_vec t = session_vec va" using k by (auto simp: sm_reply_def res_Inr sm_pkt_udp_tx_st_def Let_def)
    then show False using assms(2) alloc_pre_resps_same [OF a] by simp
  qed
  moreover have "se_uniq_token (new_server_session e p ri num se0) = sp_uniq_token p" for num
    using f by (simp add: new_server_session_def)
  ultimately show ?thesis
    using k a f by (auto simp: Let_def res_Inr alloc_ring_entries_def have_ring_entries_def fun_upd_def)
qed

lemma udp_tx_session_vec [simp]: "session_vec (sm_pkt_udp_tx_st p s) = session_vec s"
  by (simp add: sm_pkt_udp_tx_st_def Let_def)

lemma sm_reply_session_vec: "sm_reply p err s = Inr t \<Longrightarrow> session_vec t = session_vec s"
  by (auto simp: sm_reply_def res_Inr)

lemma connect_req_new:
  assumes "handle_connect_req_st e p s = Inr t" "length (session_vec t) \<noteq> length (session_vec s)"
  shows "\<exists>ri. accept_connect e p ri s = Inr t \<and> in_dispatch e s \<and>
    sp_pkt_type p = kConnectReq \<and> ep_rpc_id (sp_server p) = my_rpc_id e"
proof -
  have same: "sm_reply p err s \<noteq> Inr t" for err using sm_reply_session_vec [of p err s t] assms(2) by auto
  have "conn_req_token_map s (sp_uniq_token p) = None"
    using assms by (cases "conn_req_token_map s (sp_uniq_token p)")
      (auto simp: handle_connect_req_st_def res_Inr split: option.splits if_splits)
  then show ?thesis
    using assms(1) same by (auto simp: handle_connect_req_st_def res_Inr split: option.splits if_splits)
qed

text \<open>
  C7. Duplicate connect requests are harmless: when a connect request has created a session, handling
  the same packet again creates no session, takes no ring entries and only sends the same response
  again, any number of times.
\<close>

theorem connect_request_idempotent:
  assumes "handle_connect_req_st e p s = Inr s1" "length (session_vec s1) \<noteq> length (session_vec s)"
    "length (session_vec s) < 65536"
  shows "\<exists>r. udp_sent s1 = udp_sent s @ [r] \<and>
    foldE (\<lambda>_. handle_connect_req_st e p) (replicate k ()) s1 = Inr (s1\<lparr>udp_sent := udp_sent s1 @ replicate k r\<rparr>)"
proof -
  obtain ri where acc: "accept_connect e p ri s = Inr s1" and d: "in_dispatch e s"
    "sp_pkt_type p = kConnectReq \<and> ep_rpc_id (sp_server p) = my_rpc_id e"
    using connect_req_new [OF assms(1,2)] by blast
  obtain va se0 resp where va: "alloc_pre_resps e (length (session_vec s)) [0..<kSessionReqWindow] s = Inr (True, va)"
    and r: "sm_construct_resp p kNoError = Inr resp"
    and s1: "s1 = sm_pkt_udp_tx_st (resp\<lparr>sp_server := se_server (new_server_session e p ri (length (session_vec s)) se0)\<rparr>)
       (va\<lparr>conn_req_token_map := (conn_req_token_map va)(sp_uniq_token p \<mapsto> length (session_vec s)),
           ring_entries_available := ring_entries_available va - kSessionCredits,
           session_vec := session_vec va @ [Some (new_server_session e p ri (length (session_vec s)) se0)]\<rparr>)"
    using accept_connect_result [OF acc assms(2)] assms(3) by (auto simp: Let_def u16_of_def)
  let ?se = "new_server_session e p ri (length (session_vec s)) se0"
  let ?rp = "resp\<lparr>sp_server := se_server ?se\<rparr>"
  let ?r = "(hostname (sp_client p), sm_udp_port (sp_client p), ?rp)"
  have v: "session_vec va = session_vec s" "mgmt va = mgmt s"
    using alloc_pre_resps_same [OF va] alloc_pre_resps_mgmt [OF va] by auto
  have resp: "\<not> sp_is_req ?rp" "sp_client ?rp = sp_client p"
    using r by (auto simp: sm_construct_resp_def sm_pkt_type_req_to_resp_def sp_is_req_def res_Inr split: SmPktType.splits)
  have tx: "sm_pkt_udp_tx_st ?rp u = u\<lparr>udp_sent := udp_sent u @ [?r]\<rparr>" for u
    using resp by (simp add: sm_pkt_udp_tx_st_def Let_def)
  have f: "conn_req_token_map s1 (sp_uniq_token p) = Some (length (session_vec s))" "in_dispatch e s1"
    "session_vec s1 = session_vec s @ [Some ?se]" "udp_sent s1 = udp_sent s @ [?r]"
    using v d(1) by (simp_all add: s1 tx mgmt_def in_dispatch_def)
  have again: "handle_connect_req_st e p u = Inr (u\<lparr>udp_sent := udp_sent u @ [?r]\<rparr>)" if "u = s1\<lparr>udp_sent := x\<rparr>" for u x
    using f d(2) r tx by (simp add: that handle_connect_req_st_def in_dispatch_def new_server_session_def)
  have "foldE (\<lambda>_. handle_connect_req_st e p) (replicate k ()) (s1\<lparr>udp_sent := x\<rparr>) =
      Inr (s1\<lparr>udp_sent := x @ replicate k ?r\<rparr>)" for x
  proof (induction k arbitrary: x)
    case (Suc k)
    then show ?case using again [OF refl, of x] by simp
  qed simp
  from this [of "udp_sent s1"]
  have "foldE (\<lambda>_. handle_connect_req_st e p) (replicate k ()) s1 = Inr (s1\<lparr>udp_sent := udp_sent s1 @ replicate k ?r\<rparr>)"
    by simp
  then show ?thesis using f(4) by blast
qed

subsection \<open>The handlers on the normal path\<close>

lemma session_init_ok:
  "\<exists>se. session_init c tok f bw now junk old = Inr se \<and> is_client se = c \<and> se_uniq_token se = tok \<and>
    se_client se = SessionEndpoint_init old \<and> se_server se = SessionEndpoint_init old"
  by (simp add: session_init_def fv_push_back_def upt_rec res_simps numeral_eq_Suc)

lemma connect_req_ok:
  assumes "in_dispatch e s" "sp_pkt_type p = kConnectReq" "ep_rpc_id (sp_server p) = my_rpc_id e"
    "conn_req_token_map s (sp_uniq_token p) = None" "transport_type (sp_server p) = my_transport_type e"
    "have_ring_entries s" "resolve_rinfo e (ep_routing_info (sp_client p)) = Some ri"
    "alloc_pre_resps e (length (session_vec s)) [0..<kSessionReqWindow] s = Inr (True, va)"
  shows "\<exists>se0. \<not> is_client se0 \<and> se_uniq_token se0 = sp_uniq_token p \<and>
    (let num = u16_of (length (session_vec s)); se = new_server_session e p ri num se0
     in handle_connect_req_st e p s = Inr (sm_pkt_udp_tx_st
       (p\<lparr>sp_pkt_type := kConnectResp, sp_err_type := kNoError, sp_server := se_server se\<rparr>)
       (va\<lparr>conn_req_token_map := (conn_req_token_map va)(sp_uniq_token p \<mapsto> num),
           ring_entries_available := ring_entries_available va - kSessionCredits,
           session_vec := session_vec va @ [Some se]\<rparr>)))"
proof -
  obtain se0 where i: "session_init False (sp_uniq_token p) (freq_ghz e) (bandwidth e) 0 (heap_junk e) (heap_old_tt e) = Inr se0"
    and f: "\<not> is_client se0" "se_uniq_token se0 = sp_uniq_token p"
    using session_init_ok [of False] by blast
  have "sm_construct_resp p kNoError = Inr (p\<lparr>sp_pkt_type := kConnectResp, sp_err_type := kNoError\<rparr>)"
    using assms(2) by (simp add: sm_construct_resp_def sm_pkt_type_req_to_resp_def)
  moreover have "kSessionCredits \<le> ring_entries_available va"
    using alloc_pre_resps_same [OF assms(8)] assms(6) by (simp add: have_ring_entries_def)
  ultimately show ?thesis
    using assms i f
    by (intro exI [of _ se0]) (simp add: handle_connect_req_st_def accept_connect_def resolve_def alloc_ring_entries_def
        have_ring_entries_def new_server_session_def Let_def)
qed

lemma connect_req_session:
  assumes "in_dispatch e s" "sp_pkt_type p = kConnectReq" "ep_rpc_id (sp_server p) = my_rpc_id e"
    "conn_req_token_map s (sp_uniq_token p) = None" "transport_type (sp_server p) = my_transport_type e"
    "have_ring_entries s" "resolve_rinfo e (ep_routing_info (sp_client p)) = Some ri"
    "alloc_pre_resps e (length (session_vec s)) [0..<kSessionReqWindow] s = Inr (True, va)" "length (session_vec s) < 65536"
  shows "\<exists>t ss. handle_connect_req_st e p s = Inr t \<and> get_sess (length (session_vec s)) t = Inr ss \<and>
    udp_sent t = udp_sent s @ [(hostname (sp_client p), sm_udp_port (sp_client p),
      p\<lparr>sp_pkt_type := kConnectResp, sp_err_type := kNoError, sp_server := se_server ss\<rparr>)] \<and>
    \<not> is_client ss \<and> se_state ss = kConnected \<and> se_uniq_token ss = sp_uniq_token p \<and>
    se_client ss = (sp_client p)\<lparr>ep_routing_info := ri\<rparr> \<and>
    se_server ss = (sp_server p)\<lparr>ep_session_num := of_nat (length (session_vec s)), ep_routing_info := local_rinfo e\<rparr> \<and>
    remote_session_num ss = unat (ep_session_num (sp_client p))"
proof -
  have m: "u16_of (length (session_vec s)) = length (session_vec s)" using assms(9) by (simp add: u16_of_def)
  obtain se0 where se0: "\<not> is_client se0" "se_uniq_token se0 = sp_uniq_token p"
    and v1: "handle_connect_req_st e p s = Inr (sm_pkt_udp_tx_st
       (p\<lparr>sp_pkt_type := kConnectResp, sp_err_type := kNoError,
          sp_server := se_server (new_server_session e p ri (length (session_vec s)) se0)\<rparr>)
       (va\<lparr>conn_req_token_map := (conn_req_token_map va)(sp_uniq_token p \<mapsto> length (session_vec s)),
           ring_entries_available := ring_entries_available va - kSessionCredits,
           session_vec := session_vec va @ [Some (new_server_session e p ri (length (session_vec s)) se0)]\<rparr>))"
    using connect_req_ok [OF assms(1-8)] m by (auto simp: Let_def)
  have va: "session_vec va = session_vec s" "udp_sent va = udp_sent s"
    using alloc_pre_resps_same [OF assms(8)] alloc_pre_resps_mgmt [OF assms(8)] by (auto simp: mgmt_def)
  show ?thesis
    using v1 va se0
    by (auto simp: get_sess_def sm_pkt_udp_tx_st_def sp_is_req_def Let_def new_server_session_def)
qed

subsection \<open>The handshake\<close>

text \<open>The endpoints that a client fills in for the session with number \<open>n\<close>.\<close>

definition client_endpoint :: "env \<Rightarrow> nat \<Rightarrow> SessionEndpoint" where
  "client_endpoint e n = \<lparr>transport_type = my_transport_type e, hostname = nexus_hostname e,
    sm_udp_port = nexus_sm_udp_port e, ep_rpc_id = my_rpc_id e, ep_session_num = of_nat n, ep_routing_info = local_rinfo e\<rparr>"

definition server_endpoint :: "env \<Rightarrow> string \<Rightarrow> u16 \<Rightarrow> u8 \<Rightarrow> SessionEndpoint" where
  "server_endpoint e h p i = \<lparr>transport_type = my_transport_type e, hostname = h, sm_udp_port = p, ep_rpc_id = i,
    ep_session_num = kInvalidSessionNum, ep_routing_info = replicate 48 0\<rparr>"

lemma u16_roundtrip: "n < 65536 \<Longrightarrow> unat (of_nat n :: u16) = n"
  by (simp add: unsigned_of_nat take_bit_eq_mod)

lemma create_session_ok:
  assumes "in_dispatch e s" "extract_hostname_from_uri u = Inr h" "extract_udp_port_from_uri u = Inr p"
    "0 < length h" "length h < kMaxHostnameLen" "length (nexus_hostname e) < kMaxHostnameLen"
    "\<not> (h = nexus_hostname e \<and> i = my_rpc_id e \<and> p = nexus_sm_udp_port e)" "have_ring_entries s"
    "length (session_vec s) < 65536"
  shows "\<exists>se t. create_session_st e u i s = Inr (int (length (session_vec s)), t) \<and> in_dispatch e t \<and>
    session_vec t = session_vec s @ [Some se] \<and> is_client se \<and> se_state se = kConnectInProgress \<and>
    local_session_num se = length (session_vec s) \<and> se_uniq_token se = slow_rand e (rand_i s) \<and>
    se_client se = client_endpoint e (length (session_vec s)) \<and> se_server se = server_endpoint e h p i \<and>
    udp_sent t = udp_sent s @ [(h, p, \<lparr>sp_pkt_type = kConnectReq, sp_err_type = kNoError, sp_uniq_token = se_uniq_token se,
      sp_client = se_client se, sp_server = se_server se\<rparr>)]"
proof -
  obtain se0 where i: "session_init True (slow_rand e (rand_i s)) (freq_ghz e) (bandwidth e) (tsc e (tsc_i s)) (heap_junk e)
      (heap_old_tt e) = Inr se0"
    and f: "is_client se0" "se_uniq_token se0 = slow_rand e (rand_i s)" "se_client se0 = SessionEndpoint_init (heap_old_tt e)"
      "se_server se0 = SessionEndpoint_init (heap_old_tt e)"
    using session_init_ok [of True] by blast
  show ?thesis
    using assms i f
    by (auto simp: create_session_st_def new_client_session_def Let_def rdtsc_def strcpy_hostname_def alloc_ring_entries_def
        have_ring_entries_def send_sm_req_st_def in_dispatch_def get_sess_def upd_sess_def u16_of_def sm_pkt_udp_tx_st_def
        sm_req_of_def sp_is_req_def client_endpoint_def server_endpoint_def SessionEndpoint_init_def sm_pkt_type_is_req.simps)
qed

lemma connect_resp_ok:
  assumes "in_dispatch e s" "sp_pkt_type p = kConnectResp" "sp_err_type p = kNoError"
    "sp_client p = client_endpoint e n" "n < 65536" "get_sess n s = Inr se" "is_client se" "se_state se = kConnectInProgress"
    "se_client se = client_endpoint e n" "local_session_num se = n"
    "hostname (sp_server p) = hostname (se_server se)" "ep_rpc_id (sp_server p) = ep_rpc_id (se_server se)"
    "ep_session_num (se_server se) = kInvalidSessionNum" "resolve_rinfo e (ep_routing_info (sp_server p)) = Some ri"
  shows "\<exists>s1 se1. handle_connect_resp_st e p s = sm_handler e n kEvConnected kNoError s1 \<and>
    app_events s1 = app_events s @ [(n, kEvConnected, kNoError)] \<and> get_sess n s1 = Inr se1 \<and> is_client se1 \<and>
    se_state se1 = kConnected \<and> se_client se1 = se_client se \<and> se_server se1 = (sp_server p)\<lparr>ep_routing_info := ri\<rparr> \<and>
    remote_session_num se1 = unat (ep_session_num (sp_server p)) \<and> se_uniq_token se1 = se_uniq_token se"
proof -
  have n: "unat (ep_session_num (sp_client p)) = n"
    using u16_roundtrip [OF assms(5)] assms(4) by (simp add: client_endpoint_def)
  have l: "n < length (session_vec s)" "session_vec s ! n = Some se" using assms(6) by (simp_all add: get_sess_Inr)
  have rpc: "ep_rpc_id (sp_client p) = my_rpc_id e" "ep_eq (se_client se) (sp_client p)"
    using assms(4,9) by (simp_all add: client_endpoint_def ep_eq_def)
  let ?f = "\<lambda>se. se\<lparr>se_server := (sp_server p)\<lparr>ep_routing_info := ri\<rparr>,
    remote_session_num := unat (ep_session_num (sp_server p)), se_state := kConnected, prev_desired_tx_tsc := tsc e (tsc_i s)\<rparr>"
  let ?s1 = "(upd_sess n ?f (s\<lparr>tsc_i := tsc_i s + 1\<rparr>))\<lparr>app_events := app_events s @ [(n, kEvConnected, kNoError)]\<rparr>"
  have "handle_connect_resp_st e p s = connect_succeeded e n p ri s"
    using assms(1-3,7,8,11-14) l rpc by (simp add: handle_connect_resp_st_def n resolve_def Let_def)
  also have "\<dots> = sm_handler e n kEvConnected kNoError ?s1"
    using l assms(10) by (simp add: connect_succeeded_def rdtsc_def get_sess_def upd_sess_def sm_event_def)
  finally show ?thesis
    using l assms(7) by (intro exI [of _ ?s1] exI [of _ "?f se"]) (simp add: get_sess_def upd_sess_def)
qed

text \<open>
  C?. The connect handshake: \<open>create_session_st\<close> at the client sends a connect request; the server,
  given the packet, creates a session and answers; the client, given the answer, reports
  \<open>kConnected\<close> to the application. Then both sessions are connected, agree on the token and on both
  endpoints, and each knows the number of the other. No step fails, provided both endpoints have ring
  entries, the transports match, the routing information resolves, the server has memory for the
  preallocated responses and has not seen the token before.
\<close>

theorem connect_handshake:
  assumes client: "in_dispatch ec c0" "extract_hostname_from_uri u = Inr h" "extract_udp_port_from_uri u = Inr p"
      "0 < length h" "length h < kMaxHostnameLen" "length (nexus_hostname ec) < kMaxHostnameLen"
      "\<not> (h = nexus_hostname ec \<and> my_rpc_id es = my_rpc_id ec \<and> p = nexus_sm_udp_port ec)" "have_ring_entries c0"
      "length (session_vec c0) < 65536" "resolve_rinfo ec (local_rinfo es) = Some sri"
    and server: "in_dispatch es v0" "my_transport_type es = my_transport_type ec" "have_ring_entries v0"
      "conn_req_token_map v0 (slow_rand ec (rand_i c0)) = None" "resolve_rinfo es (local_rinfo ec) = Some cri"
      "alloc_pre_resps es (length (session_vec v0)) [0..<kSessionReqWindow] v0 = Inr (True, va)"
      "length (session_vec v0) < 65536"
  shows "\<exists>c1 v1 c2 req resp cs ss.
    create_session_st ec u (my_rpc_id es) c0 = Inr (int (length (session_vec c0)), c1) \<and>
    udp_sent c1 = udp_sent c0 @ [(h, p, req)] \<and> handle_connect_req_st es req v0 = Inr v1 \<and>
    udp_sent v1 = udp_sent v0 @ [(nexus_hostname ec, nexus_sm_udp_port ec, resp)] \<and>
    handle_connect_resp_st ec resp c1 = sm_handler ec (length (session_vec c0)) kEvConnected kNoError c2 \<and>
    get_sess (length (session_vec c0)) c2 = Inr cs \<and> get_sess (length (session_vec v0)) v1 = Inr ss \<and>
    is_client cs \<and> \<not> is_client ss \<and> se_state cs = kConnected \<and> se_state ss = kConnected \<and>
    se_uniq_token cs = se_uniq_token ss \<and> ep_eq (se_client cs) (se_client ss) \<and> ep_eq (se_server cs) (se_server ss) \<and>
    remote_session_num cs = length (session_vec v0) \<and> remote_session_num ss = length (session_vec c0)"
proof -
  let ?n = "length (session_vec c0)" and ?m = "length (session_vec v0)"
  obtain se c1 where c1: "create_session_st ec u (my_rpc_id es) c0 = Inr (int ?n, c1)" "in_dispatch ec c1"
    "session_vec c1 = session_vec c0 @ [Some se]" "is_client se" "se_state se = kConnectInProgress" "local_session_num se = ?n"
    "se_uniq_token se = slow_rand ec (rand_i c0)" "se_client se = client_endpoint ec ?n"
    "se_server se = server_endpoint ec h p (my_rpc_id es)"
    and req: "udp_sent c1 = udp_sent c0 @ [(h, p, \<lparr>sp_pkt_type = kConnectReq, sp_err_type = kNoError,
      sp_uniq_token = se_uniq_token se, sp_client = se_client se, sp_server = se_server se\<rparr>)]"
    using create_session_ok [OF client(1-9)] by blast
  define q where "q = \<lparr>sp_pkt_type = kConnectReq, sp_err_type = kNoError,
      sp_uniq_token = se_uniq_token se, sp_client = se_client se, sp_server = se_server se\<rparr>"
  have q: "sp_pkt_type q = kConnectReq" "ep_rpc_id (sp_server q) = my_rpc_id es" "conn_req_token_map v0 (sp_uniq_token q) = None"
    "transport_type (sp_server q) = my_transport_type es" "resolve_rinfo es (ep_routing_info (sp_client q)) = Some cri"
    using c1 server by (simp_all add: q_def client_endpoint_def server_endpoint_def)
  have m: "unat (of_nat ?m :: u16) = ?m" "unat (of_nat ?n :: u16) = ?n"
    using server(7) client(9) u16_roundtrip by simp_all
  obtain v ss where v: "handle_connect_req_st es q v0 = Inr v" "get_sess ?m v = Inr ss"
    and sent: "udp_sent v = udp_sent v0 @ [(hostname (sp_client q), sm_udp_port (sp_client q),
      q\<lparr>sp_pkt_type := kConnectResp, sp_err_type := kNoError, sp_server := se_server ss\<rparr>)]"
    and ss: "\<not> is_client ss" "se_state ss = kConnected" "se_uniq_token ss = sp_uniq_token q"
    "se_client ss = (sp_client q)\<lparr>ep_routing_info := cri\<rparr>"
    "se_server ss = (sp_server q)\<lparr>ep_session_num := of_nat ?m, ep_routing_info := local_rinfo es\<rparr>"
    "remote_session_num ss = unat (ep_session_num (sp_client q))"
    using connect_req_session [OF server(1) q(1-4) server(3) q(5) server(6,7)] by blast
  define r where "r = q\<lparr>sp_pkt_type := kConnectResp, sp_err_type := kNoError, sp_server := se_server ss\<rparr>"
  have sent: "udp_sent v = udp_sent v0 @ [(nexus_hostname ec, nexus_sm_udp_port ec, r)]"
    using sent c1(8) by (simp add: r_def q_def client_endpoint_def)
  have "get_sess ?n c1 = Inr se" using c1(3) by (simp add: get_sess_def)
  moreover have "sp_pkt_type r = kConnectResp" "sp_err_type r = kNoError" "sp_client r = client_endpoint ec ?n"
    "hostname (sp_server r) = hostname (se_server se)" "ep_rpc_id (sp_server r) = ep_rpc_id (se_server se)"
    "ep_session_num (se_server se) = kInvalidSessionNum" "resolve_rinfo ec (ep_routing_info (sp_server r)) = Some sri"
    using c1 client(10) ss(5) by (simp_all add: r_def q_def server_endpoint_def)
  ultimately obtain c2 cs where c2: "handle_connect_resp_st ec r c1 = sm_handler ec ?n kEvConnected kNoError c2"
    "get_sess ?n c2 = Inr cs" "is_client cs" "se_state cs = kConnected" "se_client cs = se_client se"
    "se_server cs = (sp_server r)\<lparr>ep_routing_info := sri\<rparr>" "remote_session_num cs = unat (ep_session_num (sp_server r))"
    "se_uniq_token cs = se_uniq_token se"
    using connect_resp_ok [OF c1(2) _ _ _ client(9) _ c1(4,5,8,6)] by metis
  have "ep_eq (se_client cs) (se_client ss)" "ep_eq (se_server cs) (se_server ss)"
    "se_uniq_token cs = se_uniq_token ss" "remote_session_num cs = ?m" "remote_session_num ss = ?n"
    using c2(5-8) ss m c1(8) by (simp_all add: ep_eq_def r_def q_def client_endpoint_def)
  then show ?thesis using c1(1) req v sent ss(1,2) c2(1-4) unfolding q_def [symmetric] by blast
qed

subsection \<open>An example server\<close>

lemma alloc_pre_resps_succeeds:
  assumes "cfg e = fake_cfg" "bsrl_r0 e = 0" "pre_resp_msgbuf_size s = 84"
    "length (freelist (huge_al s)) = k_num_classes" "length is \<le> length (freelist (huge_al s) ! 1)"
    "\<forall>b \<in> set (freelist (huge_al s) ! 1). b_buf b \<noteq> None"
  shows "\<exists>t. alloc_pre_resps e sn is s = Inr (True, t)"
  using assms(3-)
proof (induction "is" arbitrary: s)
  case (Cons i "is")
  let ?h = "huge_al s" and ?L = "freelist (huge_al s) ! 1"
  let ?b = "(last ?L)\<lparr>class_size := class_max_size 1\<rparr>"
  let ?h' = "(pop_free 1 ?h)\<lparr>user_alloc_tot := user_alloc_tot ?h + 128\<rparr>"
  have L: "?L \<noteq> []" using Cons.prems(3) by auto
  then have b: "b_buf ?b \<noteq> None" using Cons.prems(4) by (auto simp: last_in_set)
  have al: "alloc 0 (reg_mr e) 100 ?h = Inr (?b, ?h')"
    using ha_example_get_class L by (simp add: alloc_def alloc_from_class_def class_max_size_def Let_def)
  have n: "data_size_to_num_pkts fake_cfg 84 = 1" "sizeof_pkthdr fake_cfg = 16"
    by (simp_all add: data_size_to_num_pkts_def fake_cfg_def kMaxDataPerPkt_def sizeof_pkthdr_def)
  obtain m where m: "alloc_msg_buffer (cfg e) (bsrl_r0 e) (reg_mr e) (mem_hdrs e) (mem_bytes e) 84 ?h = Inr (Some m, ?h')"
    using al b n assms(1,2) by (auto simp: alloc_msg_buffer_def MsgBuffer_dyn_def class_max_size_def)
  let ?s = "upd_mbuf (PreResp (sn, i)) (\<lambda>_. m) (s\<lparr>huge_al := ?h'\<rparr>)"
  have "freelist (huge_al ?s) ! 1 = butlast ?L" "length (freelist (huge_al ?s)) = k_num_classes"
    using Cons.prems(2) by (simp_all add: upd_mbuf_def pop_free_def)
  then have "\<exists>t. alloc_pre_resps e sn is ?s = Inr (True, t)"
    using Cons.prems by (intro Cons.IH) (auto simp: upd_mbuf_def dest: in_set_butlastD)
  then show ?case using m Cons.prems(1) by simp
qed simp

definition demo_pool :: huge_alloc where
  "demo_pool = ha_example\<lparr>freelist := (replicate k_num_classes [])[1 :=
    map (\<lambda>i. \<lparr>b_buf = Some (4096 + 128 * i), class_size = 128, lkey = 5\<rparr>) [0..<8]]\<rparr>"

definition demo_srv :: rpc where
  "demo_srv = demo_rpc\<lparr>session_vec := [], ring_entries_available := kNumRxRingEntries, huge_al := demo_pool,
    pre_resp_msgbuf_size := 84\<rparr>"

definition demo_connect :: SmPkt where
  "demo_connect = \<lparr>sp_pkt_type = kConnectReq, sp_err_type = kNoError, sp_uniq_token = 77,
     sp_client = (SessionEndpoint_init kFake)\<lparr>hostname := ''b'', sm_udp_port := 31850, ep_rpc_id := 3, ep_session_num := 0\<rparr>,
     sp_server = (SessionEndpoint_init kFake)\<lparr>hostname := ''a'', sm_udp_port := 31850, ep_rpc_id := 0\<rparr>\<rparr>"

lemma demo_accept: "\<exists>s1. handle_connect_req_st demo_env demo_connect demo_srv = Inr s1 \<and> length (session_vec s1) = 1"
proof -
  obtain va where va: "alloc_pre_resps demo_env (length (session_vec demo_srv)) [0..<kSessionReqWindow] demo_srv = Inr (True, va)"
    using alloc_pre_resps_succeeds [of demo_env demo_srv "[0..<kSessionReqWindow]" "length (session_vec demo_srv)"]
    by (auto simp: demo_srv_def demo_pool_def demo_env_def)
  have "session_vec va = []" using alloc_pre_resps_same [OF va] by (simp add: demo_srv_def)
  moreover have "in_dispatch demo_env demo_srv" "sp_pkt_type demo_connect = kConnectReq"
    "ep_rpc_id (sp_server demo_connect) = my_rpc_id demo_env" "conn_req_token_map demo_srv (sp_uniq_token demo_connect) = None"
    "transport_type (sp_server demo_connect) = my_transport_type demo_env" "have_ring_entries demo_srv"
    "resolve_rinfo demo_env (ep_routing_info (sp_client demo_connect)) = Some (ep_routing_info (sp_client demo_connect))"
    by (simp_all add: demo_connect_def demo_srv_def demo_rpc_def demo_env_def in_dispatch_def have_ring_entries_def
        SessionEndpoint_init_def)
  note connect_req_ok [OF this va]
  ultimately show ?thesis by (auto simp: Let_def)
qed

theorem connect_request_idempotent_witness:
  "\<exists>s1 r. handle_connect_req_st demo_env demo_connect demo_srv = Inr s1 \<and>
    foldE (\<lambda>_. handle_connect_req_st demo_env demo_connect) [(), ()] s1 = Inr (s1\<lparr>udp_sent := udp_sent s1 @ [r, r]\<rparr>)"
proof -
  obtain s1 where s1: "handle_connect_req_st demo_env demo_connect demo_srv = Inr s1" "length (session_vec s1) = 1"
    using demo_accept by blast
  have "length (session_vec s1) \<noteq> length (session_vec demo_srv)" "length (session_vec demo_srv) < 65536"
    using s1(2) by (simp_all add: demo_srv_def)
  from connect_request_idempotent [OF s1(1) this, of 2] show ?thesis using s1(1) by (auto simp: numeral_2_eq_2)
qed

theorem connect_handshake_witness:
  "\<exists>ec es c1 v1 req resp.
    create_session_st ec ''b:31850'' (my_rpc_id es) demo_rpc = Inr (2, c1) \<and> udp_sent c1 = [(''b'', 31850, req)] \<and>
    handle_connect_req_st es req demo_srv = Inr v1 \<and> udp_sent v1 = [(''c'', 31850, resp)] \<and>
    (\<exists>c2 cs. handle_connect_resp_st ec resp c1 = Inr c2 \<and> get_sess 2 c2 = Inr cs \<and> se_state cs = kConnected)"
proof -
  define ec where "ec = demo_env\<lparr>nexus_hostname := ''c'', my_rpc_id := 3\<rparr>"
  define es where "es = demo_env\<lparr>nexus_hostname := ''b''\<rparr>"
  obtain va where va: "alloc_pre_resps es (length (session_vec demo_srv)) [0..<kSessionReqWindow] demo_srv = Inr (True, va)"
    using alloc_pre_resps_succeeds [of es demo_srv "[0..<kSessionReqWindow]" "length (session_vec demo_srv)"]
    by (auto simp: demo_srv_def demo_pool_def demo_env_def es_def)
  have u: "extract_hostname_from_uri ''b:31850'' = Inr ''b''" "extract_udp_port_from_uri ''b:31850'' = Inr 31850"
    using demo_uri by (auto simp: split_uri_def extract_hostname_from_uri_def extract_udp_port_from_uri_def res_Inr)
  have c: "in_dispatch ec demo_rpc" "have_ring_entries demo_rpc" "length (session_vec demo_rpc) = 2" "udp_sent demo_rpc = []"
    "resolve_rinfo ec (local_rinfo es) = Some (local_rinfo es)" "nexus_hostname ec = ''c''" "nexus_sm_udp_port ec = 31850"
    "\<not> (''b'' = nexus_hostname ec \<and> my_rpc_id es = my_rpc_id ec \<and> 31850 = nexus_sm_udp_port ec)"
    by (simp_all add: in_dispatch_def demo_rpc_def demo_env_def have_ring_entries_def ec_def es_def)
  have s: "in_dispatch es demo_srv" "my_transport_type es = my_transport_type ec" "have_ring_entries demo_srv"
    "conn_req_token_map demo_srv (slow_rand ec (rand_i demo_rpc)) = None" "resolve_rinfo es (local_rinfo ec) = Some (local_rinfo ec)"
    "length (session_vec demo_srv) = 0" "udp_sent demo_srv = []"
    by (simp_all add: in_dispatch_def demo_srv_def demo_rpc_def demo_env_def have_ring_entries_def ec_def es_def)
  have l: "0 < length ''b''" "length ''b'' < kMaxHostnameLen" "length (nexus_hostname ec) < kMaxHostnameLen"
    "length (session_vec demo_rpc) < 65536" "length (session_vec demo_srv) < 65536" using c s by simp_all
  obtain c1 v1 c2 req resp cs where r: "create_session_st ec ''b:31850'' (my_rpc_id es) demo_rpc = Inr (int (length (session_vec demo_rpc)), c1)"
    "udp_sent c1 = udp_sent demo_rpc @ [(''b'', 31850, req)]" "handle_connect_req_st es req demo_srv = Inr v1"
    "udp_sent v1 = udp_sent demo_srv @ [(nexus_hostname ec, nexus_sm_udp_port ec, resp)]"
    "handle_connect_resp_st ec resp c1 = sm_handler ec (length (session_vec demo_rpc)) kEvConnected kNoError c2"
    "get_sess (length (session_vec demo_rpc)) c2 = Inr cs" "se_state cs = kConnected"
    using connect_handshake [OF c(1) u l(1-3) c(8,2) l(4) c(5) s(1-5) va l(5)] by blast
  have "handle_connect_resp_st ec resp c1 = Inr c2" using r(5) by (simp add: ec_def demo_env_def)
  then show ?thesis using r c s by (metis append_Nil int_ops(3))
qed

subsection \<open>Failing calls\<close>

lemma create_session_result:
  assumes "create_session_st e u i s = Inr (n, t)"
  shows "t = s \<and> n \<in> {- EPERM, - EINVAL, - ENOMEM} \<or> 0 \<le> n \<and> in_dispatch e s \<and> have_ring_entries s"
  using assms by (auto simp: create_session_st_def res_Inr split: if_splits)

lemma destroy_session_result:
  assumes "destroy_session_st e k s = Inr (n, t)"
  shows "t = s \<and> n \<in> {- EPERM, - EINVAL, - EBUSY, - EALREADY} \<or>
    n = 0 \<and> (\<exists>se. get_sess (nat k) s = Inr se \<and> is_client se \<and> fv_size (sslot_free_vec se) = kSessionReqWindow)"
  using assms
  by (auto simp: destroy_session_st_def res_Inr Let_def get_sess_Inr split: if_splits option.splits SessionState.splits)

text \<open>
  C?. A call of \<open>create_session_st\<close> or \<open>destroy_session_st\<close> that returns an error number changes
  nothing: no session, ring entry, pending request or packet remains of it. Creation succeeds only in
  the creator's thread with ring entries left, destruction only for a client session without pending
  requests.
\<close>

theorem failed_calls_leave_no_trace:
  "(create_session_st e u i s = Inr (n, t) \<longrightarrow>
      (if n < 0 then t = s \<and> n \<in> {- EPERM, - EINVAL, - ENOMEM} else in_dispatch e s \<and> have_ring_entries s)) \<and>
    (destroy_session_st e k s = Inr (m, t') \<longrightarrow>
      (if m < 0 then t' = s \<and> m \<in> {- EPERM, - EINVAL, - EBUSY, - EALREADY}
       else m = 0 \<and> (\<exists>se. get_sess (nat k) s = Inr se \<and> is_client se \<and> fv_size (sslot_free_vec se) = kSessionReqWindow)))"
  by (auto dest: create_session_result destroy_session_result)

theorem failed_calls_leave_no_trace_witness:
  "(\<exists>t. create_session_st demo_env ''b:31850'' 1 demo_rpc = Inr (2, t)) \<and> have_ring_entries demo_rpc \<and>
    destroy_session_st demo_env 1 demo_rpc = Inr (- EINVAL, demo_rpc) \<and> - EINVAL \<in> {- EPERM, - EINVAL, - EBUSY, - EALREADY}"
proof -
  have d: "destroy_session_st demo_env 1 demo_rpc = Inr (- EINVAL, demo_rpc)"
    by (simp add: destroy_session_st_def in_dispatch_def demo_rpc_def demo_env_def demo_sess_def)
  obtain t where c: "create_session_st demo_env ''b:31850'' 1 demo_rpc = Inr (2, t)" using demo_create by blast
  show ?thesis
    using c d failed_calls_leave_no_trace [of demo_env "''b:31850''" 1 demo_rpc 2 t 1 "- EINVAL" demo_rpc] by auto
qed

text \<open>
  Two limits the checks of \<open>create_session_st\<close> miss. A host name of exactly \<open>kMaxHostnameLen\<close>
  characters passes them, and its terminating zero is written behind the array; and the number of
  the session is \<open>session_vec_.size()\<close> cut to 16 bits, so the session created after 65536 others gets
  the number 0, that of another session.
\<close>

lemma longest_hostname_overflows:
  assumes "in_dispatch e s" "extract_hostname_from_uri u = Inr h" "extract_udp_port_from_uri u = Inr p"
    "length h = kMaxHostnameLen" "length (nexus_hostname e) < kMaxHostnameLen" "have_ring_entries s"
  shows "create_session_st e u i s = Inl OutOfRange"
proof -
  obtain se0 where "session_init True (slow_rand e (rand_i s)) (freq_ghz e) (bandwidth e) (tsc e (tsc_i s)) (heap_junk e)
      (heap_old_tt e) = Inr se0"
    using session_init_ok [of True] by blast
  then show ?thesis
    using assms by (auto simp: create_session_st_def new_client_session_def Let_def rdtsc_def strcpy_hostname_def res_simps)
qed

lemma session_number_wraps:
  assumes "create_session_st e u i s = Inr (n, t)" "0 \<le> n" "length (session_vec s) = 65536"
  shows "n = 0"
proof -
  have "t \<noteq> s \<Longrightarrow> \<exists>se s1 h p. new_client_session e h p i s = Inr (se, s1) \<and> n = int (local_session_num se)"
    using assms(1) by (auto simp: create_session_st_def res_Inr split: if_splits)
  moreover have "t \<noteq> s" using assms(1,2)
    by (auto simp: create_session_st_def res_Inr split: if_splits dest!: send_sm_req_grow(2) new_client_session_spec(1) alloc_ring)
  ultimately show ?thesis using new_client_session_spec(3) assms(3) by (fastforce simp: u16_of_def)
qed

end
