(* ===== verification/Rpc_Loop_Timeout.thy ===== *)
theory Rpc_Loop_Timeout
  imports Rpc_Event_Loop
begin

section \<open>The event loop ends\<close>

text \<open>
  Time only goes forwards: \<open>later\<close> is a preorder of the locale \<open>dp_rel\<close> that says that the clock has
  not been turned back, that the thread and the time stamp of the iteration are unchanged. All
  operations of the datapath and of session management are in it, and an iteration of the event loop
  reads the clock at least once, so the loop with a timeout ends.
\<close>

definition later :: "rpc \<Rightarrow> rpc \<Rightarrow> bool" where
  "later s t \<longleftrightarrow> tsc_i s \<le> tsc_i t \<and> cur_etid t = cur_etid s \<and> ev_loop_tsc t = ev_loop_tsc s"

definition steady :: "env \<Rightarrow> bool" where
  "steady e \<longleftrightarrow> (\<forall>rt r s t. handler e rt r s = Inr t \<longrightarrow> later s t) \<and>
    (\<forall>cf tag s t. continue e cf tag s = Inr t \<longrightarrow> later s t) \<and>
    (\<forall>n ev err s t. sm_handler e n ev err s = Inr t \<longrightarrow> later s t)"

interpretation later: dp_rel later
  by unfold_locales (auto simp: later_def upd_sess_def mgmt_def)

lemma steady_cb: "steady e \<Longrightarrow> later.cb e"
  by (auto simp: steady_def later.cb_def later.ok_def)

subsection \<open>Session management\<close>

lemma later_mgmt:
  assumes "later s u"
  shows "later s (u\<lparr>ring_entries_available := a\<rparr>)" "later s (u\<lparr>conn_req_token_map := b\<rparr>)"
    "later s (u\<lparr>sm_pending_reqs := c\<rparr>)" "later s (u\<lparr>sm_rx_queue := d\<rparr>)" "later s (u\<lparr>udp_sent := g\<rparr>)"
    "later s (u\<lparr>app_events := h\<rparr>)" "later s (u\<lparr>rand_i := i\<rparr>)" "later s (u\<lparr>session_vec := j\<rparr>)" "later s (upd_sess sn f u)"
  using assms by (simp_all add: later_def upd_sess_def)

lemma ok_ring: "later s u \<Longrightarrow> later.ok s (alloc_ring_entries u)" "later s u \<Longrightarrow> later.ok s (free_ring_entries u)"
  unfolding alloc_ring_entries_def free_ring_entries_def Let_def by (intro later.ok_intros later_mgmt; assumption)+

lemma later_udp_tx: "later s u \<Longrightarrow> later s (sm_pkt_udp_tx_st p u)"
  unfolding sm_pkt_udp_tx_st_def Let_def by (intro later_mgmt)

lemma ok_send_sm: "later s u \<Longrightarrow> later.ok s (send_sm_req_st e sn u)"
  unfolding send_sm_req_st_def rdtsc_def Let_def prod.case
  by (intro later.ok_guard later.bindV_types later.ok_Inr later_udp_tx) (simp add: later_def upd_sess_def)

lemma ok_sm_event: "steady e \<Longrightarrow> later s u \<Longrightarrow> later.ok s (sm_event e n ev err u)"
  unfolding sm_event_def later.ok_def steady_def using later.R_trans [OF later_mgmt(6)] by blast

lemma ok_free_pre_resp: "later s u \<Longrightarrow> later.ok s (free_pre_resp e sn i u)"
  unfolding free_pre_resp_def by (intro later.ok_intros)

lemma ok_bury: "later s u \<Longrightarrow> later.ok s (bury_session_st e sn u)"
  unfolding bury_session_st_def
  by (intro later.ok_intros later.ok_foldE ok_free_pre_resp later_mgmt)

lemma ok_sm_reply: "later s u \<Longrightarrow> later.ok s (sm_reply p err u)"
  unfolding sm_reply_def by (intro later.ok_bindV later.ok_Inr later_udp_tx)

lemma ok_pre_resps: "later s u \<Longrightarrow> later.okp s (alloc_pre_resps e sn is u)"
proof (induction "is" arbitrary: u)
  case (Cons i "is")
  have "later.ok s (foldE (\<lambda>j s. assertE (mb_buf (mbufs s (PreResp (sn, j))) \<noteq> None) (free_pre_resp e sn j s)) [0..<i] (u\<lparr>huge_al := h\<rparr>))"
    for h by (intro later.ok_foldE later.ok_guard ok_free_pre_resp later.R_field Cons.prems)
  moreover have "later.okp s (alloc_pre_resps e sn is (upd_mbuf (PreResp (sn, i)) (\<lambda>_. m) (u\<lparr>huge_al := h\<rparr>)))" for m h
    by (intro Cons.IH later.R_intros Cons.prems)
  ultimately show ?case
    by (auto simp: later.ok_def later.okp_def bindE_eq_Inr split: option.splits)
qed (simp add: later.okp_Inr)

lemma ok_connect_req: "later s u \<Longrightarrow> later.ok s (handle_connect_req_st e p u)"
  unfolding handle_connect_req_st_def accept_connect_def Let_def
  by (intro later.ok_guard later.ok_cases later.ok_Inr ok_sm_reply later.ok_bindP ok_pre_resps ok_ring later_udp_tx
      later_mgmt later.ok_bindV [where 'a = SmPkt] later.ok_bindV [where 'a = Session] later.ok_bindS)

lemma ok_connect_resp: "steady e \<Longrightarrow> later s u \<Longrightarrow> later.ok s (handle_connect_resp_st e p u)"
  unfolding handle_connect_resp_st_def connect_succeeded_def rdtsc_def Let_def prod.case
  by (intro later.ok_guard later.ok_cases later.ok_Inr ok_ring ok_sm_event ok_bury ok_send_sm
      later_mgmt later.R_field later.ok_bindV [where 'a = Session] later.ok_bindS)

lemma ok_disconnect_req: "later s u \<Longrightarrow> later.ok s (handle_disconnect_req_st e p u)"
  unfolding handle_disconnect_req_st_def Let_def
  by (intro later.ok_guard later.ok_cases ok_sm_reply ok_ring ok_bury later.ok_bindS)

lemma ok_disconnect_resp: "steady e \<Longrightarrow> later s u \<Longrightarrow> later.ok s (handle_disconnect_resp_st e p u)"
  unfolding handle_disconnect_resp_st_def Let_def
  by (intro later.ok_guard later.ok_cases later.ok_Inr ok_sm_event ok_ring ok_bury later.ok_bindS)

lemma ok_sm_item: "steady e \<Longrightarrow> later s u \<Longrightarrow> later.ok s (handle_sm_item e wi u)"
proof -
  assume a: "steady e" "later s u"
  then have "later s (erase_pending p u)" for p by (simp add: erase_pending_def Let_def later_mgmt)
  then show ?thesis using a
    by (auto simp: handle_sm_item_def Let_def later.ok_Inl ok_connect_req ok_connect_resp ok_disconnect_req ok_disconnect_resp
        split: SmWorkItem.splits SmPktType.splits)
qed

lemma ok_sm_rx_loop: "steady e \<Longrightarrow> later s u \<Longrightarrow> later.ok s (sm_rx_loop n e u)"
proof (induction n arbitrary: u)
  case (Suc n)
  have "later.ok s (bindE (handle_sm_item e wi (u\<lparr>sm_rx_queue := q\<rparr>)) (sm_rx_loop n e))" for wi q
    by (intro later.ok_bindS ok_sm_item later_mgmt Suc)
  then show ?case using Suc.prems
    by (auto simp: sm_rx_loop.simps [of "Suc n"] later.ok_Inr split_def intro: later.ok_bindV)
qed (simp add: sm_rx_loop.simps [of 0] later.ok_Inr later.ok_Inl)

lemma ok_sm_rx: "steady e \<Longrightarrow> later s u \<Longrightarrow> later.ok s (handle_sm_rx_st e u)"
  unfolding handle_sm_rx_st_def by (intro later.ok_guard ok_sm_rx_loop)

lemma ok_sm_retry: "later s u \<Longrightarrow> later.ok s (sm_retry_one e sn u)"
  unfolding sm_retry_one_def rdtsc_def Let_def prod.case
  by (intro later.ok_guard later.ok_cases later.ok_Inr ok_send_sm later.R_field)

lemma ok_loss_scan: "later s u \<Longrightarrow> later.ok s (pkt_loss_scan_st e u)"
  unfolding pkt_loss_scan_st_def by (intro later.ok_bindS later.ok_scan later.ok_foldE ok_sm_retry)

subsection \<open>One iteration\<close>

lemma do_one_later:
  assumes "run_event_loop_do_one_st e pkts s = Inr t" "steady e"
  shows "tsc_i s < tsc_i t \<and> (\<exists>j \<ge> tsc_i s. j < tsc_i t \<and> ev_loop_tsc t = tsc e j) \<and> cur_etid t = cur_etid s"
proof -
  obtain s1 s2 s3 s4 where s1: "(if 0 < mt_size (sm_rx_queue s) then handle_sm_rx_st e s else Inr s) = Inr s1"
    and s2: "process_comps_st e pkts (s1\<lparr>tsc_i := tsc_i s1 + 1, ev_loop_tsc := tsc e (tsc_i s1)\<rparr>) = Inr s2"
    and r: "ev_loop_tx e s2 = Inr s3" "ev_loop_bg e s3 = Inr s4" "ev_loop_scan e s4 = Inr t"
    using assms(1) by (auto simp: run_event_loop_do_one_st_def ev_loop_rx_def res_Inr rdtsc_def Let_def)
  have "later.ok s (if 0 < mt_size (sm_rx_queue s) then handle_sm_rx_st e s else Inr s)"
    by (intro later.ok_cases ok_sm_rx later.ok_Inr later.R_refl assms(2))
  then have a: "later s s1" using s1 later.okD by blast
  have b: "later (s1\<lparr>tsc_i := tsc_i s1 + 1, ev_loop_tsc := tsc e (tsc_i s1)\<rparr>) s2"
    using later.okD [OF later.ok_comps [OF steady_cb [OF assms(2)] later.R_refl] s2] .
  have "later.ok s2 (bindE (ev_loop_tx e s2) (\<lambda>s3. bindE (ev_loop_bg e s3) (ev_loop_scan e)))"
    unfolding ev_loop_tx_def ev_loop_bg_def ev_loop_scan_def
    by (intro later.ok_bindS later.ok_cases later.ok_Inr later.ok_stall later.ok_wheel later.ok_do_tx_burst
        later.ok_bg_requests later.ok_bg_responses ok_loss_scan later.R_field later.R_refl)
  then have c: "later s2 t" using r later.okD by (auto simp: bindE_eq_Inr)
  show ?thesis using a b c by (auto simp: later_def intro!: exI [of _ "tsc_i s1"])
qed

text \<open>
  More fuel does not change the result once the clock must have passed the deadline: \<open>n + 1\<close>
  iterations are enough when the clock stands \<open>n\<close> or fewer ticks before it.
\<close>

lemma timeout_loop_stable:
  assumes "steady e" "strict_mono (tsc e)" "\<And>i s. later s (snd (arrive i s))"
    and "start + timeout < tsc e (tsc_i s) + n" "start \<le> tsc e (tsc_i s)"
  shows "timeout_loop (Suc n + k) e arrive i timeout start s = timeout_loop (Suc n) e arrive i timeout start s"
  using assms(4,5)
proof (induction n arbitrary: i s)
  case (Suc n)
  obtain pkts s0 where ar: "arrive i s = (pkts, s0)" by force
  then have s0: "tsc_i s \<le> tsc_i s0" using assms(3) [of s i] by (simp add: later_def)
  have "timeout_loop (Suc n + k) e arrive (i + 1) timeout start s1 = timeout_loop (Suc n) e arrive (i + 1) timeout start s1"
    if "run_event_loop_do_one_st e pkts s0 = Inr s1" for s1
  proof (rule Suc.IH)
    have "tsc_i s < tsc_i s1" using do_one_later [OF that assms(1)] s0 by simp
    then have "tsc e (tsc_i s) < tsc e (tsc_i s1)" using assms(2) by (rule strict_monoD [rotated])
    then show "start + timeout < tsc e (tsc_i s1) + n" "start \<le> tsc e (tsc_i s1)" using Suc.prems by simp_all
  qed
  then show ?case using ar by (auto simp: Let_def intro!: bindE_cong)
next
  case 0
  obtain pkts s0 where ar: "arrive i s = (pkts, s0)" by force
  then have s0: "tsc_i s \<le> tsc_i s0" using assms(3) [of s i] by (simp add: later_def)
  have "timeout < sub64 (ev_loop_tsc s1) start" if r: "run_event_loop_do_one_st e pkts s0 = Inr s1" for s1
  proof -
    obtain j where "tsc_i s0 \<le> j" "ev_loop_tsc s1 = tsc e j" using do_one_later [OF r assms(1)] by blast
    then have "tsc e (tsc_i s) \<le> ev_loop_tsc s1" using s0 assms(2) by (simp add: strict_mono_less_eq)
    then show ?thesis using 0 by simp
  qed
  then show ?case using ar by (auto simp: Let_def intro!: bindE_cong)
qed

text \<open>
  C?. The event loop with a timeout ends: if the clock advances with every reading and neither the
  callbacks nor other threads turn it back, at most \<open>timeout_tsc + 1\<close> iterations are executed, so any
  larger bound on the iterations gives the same result (a return, or an exception of an iteration).
\<close>

theorem event_loop_ends:
  assumes "steady e" "strict_mono (tsc e)" "\<And>i s. later s (snd (arrive i s))"
    and fuel: "ms_to_cycles (real timeout_ms) (freq_ghz e) < fuel"
  shows "run_event_loop_timeout_st (fuel + k) e arrive timeout_ms s = run_event_loop_timeout_st fuel e arrive timeout_ms s"
proof -
  obtain n where n: "fuel = Suc n" "ms_to_cycles (real timeout_ms) (freq_ghz e) \<le> n" using fuel by (cases fuel) auto
  let ?s1 = "s\<lparr>tsc_i := tsc_i s + 1\<rparr>"
  have "tsc e (tsc_i s) < tsc e (tsc_i ?s1)" using assms(2) by (simp add: strict_monoD)
  then have "timeout_loop (Suc n + k) e arrive 0 (ms_to_cycles (real timeout_ms) (freq_ghz e)) (tsc e (tsc_i s)) ?s1 =
      timeout_loop (Suc n) e arrive 0 (ms_to_cycles (real timeout_ms) (freq_ghz e)) (tsc e (tsc_i s)) ?s1"
    using n(2) by (intro timeout_loop_stable [OF assms(1-3)]) auto
  then show ?thesis by (simp add: run_event_loop_timeout_st_def rdtsc_def Let_def n(1))
qed

theorem event_loop_ends_witness:
  "run_event_loop_timeout_st (1 + 41) demo_env (\<lambda>i s. ([], s)) 0 demo_rpc =
    run_event_loop_timeout_st 1 demo_env (\<lambda>i s. ([], s)) 0 demo_rpc"
proof (rule event_loop_ends)
  show "steady demo_env" by (simp add: steady_def demo_env_def later_def)
  show "strict_mono (tsc demo_env)" by (simp add: demo_env_def strict_mono_def)
  show "ms_to_cycles (real 0) (freq_ghz demo_env) < 1" by (simp add: ms_to_cycles_def size_t_of_def)
qed (simp add: later_def)

end
