(* ===== verification/Heartbeat.thy ===== *)
theory Heartbeat
  imports Uri_Helpers Timers
begin

section \<open>The heartbeat manager (\<open>heartbeat_mgr.h\<close>)\<close>

text \<open>
  The manager of one process: the tracked remote URIs with the time of their last heartbeat, and the
  priority queue of send and check events. Every operation runs under the manager's mutex or in the
  one management thread. \<open>clk\<close> is the time stamp counter as a stream; each read, those for the log
  output (\<open>kVerbose\<close> is true) included, advances \<open>hb_clk_i\<close>. Which of several earliest events
  \<open>std::priority_queue\<close> puts on top is not specified, so the choice is a parameter \<open>pick\<close>, an index
  into the list of queued events.
\<close>

datatype EventType = kSend | kCheck

record hb_event =
  ev_type :: EventType
  rem_uri :: string
  ev_tsc :: nat

record hb_mgr =
  hb_hostname :: string
  hb_sm_udp_port :: u16
  failure_timeout_tsc :: nat
  hb_send_delta_tsc :: nat
  hb_check_delta_tsc :: nat
  hb_event_pqueue :: "hb_event list"
  map_last_hb_rx :: "string \<Rightarrow> nat option"
  hb_udp_sent :: "(string \<times> u16 \<times> SmPkt) list"
  hb_clk_i :: nat
  hb_old_tt :: TransportType

definition hb_mgr_init :: "string \<Rightarrow> u16 \<Rightarrow> real \<Rightarrow> nat \<Rightarrow> TransportType \<Rightarrow> hb_mgr" where
  "hb_mgr_init host port freq timeout_ms old =
    (let timeout = ms_to_cycles (real timeout_ms) freq
     in \<lparr>hb_hostname = host, hb_sm_udp_port = port, failure_timeout_tsc = timeout,
         hb_send_delta_tsc = timeout div 10, hb_check_delta_tsc = timeout div 2,
         hb_event_pqueue = [], map_last_hb_rx = (\<lambda>_. None), hb_udp_sent = [], hb_clk_i = 1, hb_old_tt = old\<rparr>)"

subsection \<open>Operations\<close>

definition hb_rdtsc :: "(nat \<Rightarrow> nat) \<Rightarrow> hb_mgr \<Rightarrow> nat \<times> hb_mgr" where
  "hb_rdtsc clk m = (clk (hb_clk_i m), m\<lparr>hb_clk_i := hb_clk_i m + 1\<rparr>)"

definition hb_log :: "hb_mgr \<Rightarrow> hb_mgr" where
  "hb_log m = m\<lparr>hb_clk_i := hb_clk_i m + 1\<rparr>"

definition schedule :: "(nat \<Rightarrow> nat) \<Rightarrow> EventType \<Rightarrow> nat \<Rightarrow> string \<Rightarrow> hb_mgr \<Rightarrow> hb_mgr" where
  "schedule clk t delta u m =
    (let (now, m1) = hb_rdtsc clk m; m2 = hb_log m1
     in m2\<lparr>hb_event_pqueue := hb_event_pqueue m2 @ [\<lparr>ev_type = t, rem_uri = u, ev_tsc = now + delta\<rparr>]\<rparr>)"

definition schedule_hb_send :: "(nat \<Rightarrow> nat) \<Rightarrow> string \<Rightarrow> hb_mgr \<Rightarrow> hb_mgr" where
  "schedule_hb_send clk u m = schedule clk kSend (hb_send_delta_tsc m) u m"

definition schedule_hb_check :: "(nat \<Rightarrow> nat) \<Rightarrow> string \<Rightarrow> hb_mgr \<Rightarrow> hb_mgr" where
  "schedule_hb_check clk u m = schedule clk kCheck (hb_check_delta_tsc m) u m"

text \<open>\<open>emplace\<close> of an unordered map does nothing when the key is present.\<close>

definition emplace :: "'k \<Rightarrow> 'v \<Rightarrow> ('k \<Rightarrow> 'v option) \<Rightarrow> 'k \<Rightarrow> 'v option" where
  "emplace k v mp = (if mp k = None then mp(k \<mapsto> v) else mp)"

definition unlocked_add_remote :: "(nat \<Rightarrow> nat) \<Rightarrow> string \<Rightarrow> hb_mgr \<Rightarrow> hb_mgr" where
  "unlocked_add_remote clk u m =
    (let (cur_tsc, m1) = hb_rdtsc clk (hb_log m);
         m2 = m1\<lparr>map_last_hb_rx := emplace u cur_tsc (map_last_hb_rx m1)\<rparr>
     in schedule_hb_check clk u (schedule_hb_send clk u m2))"

definition unlocked_receive_hb :: "(nat \<Rightarrow> nat) \<Rightarrow> SmPkt \<Rightarrow> hb_mgr \<Rightarrow> hb_mgr" where
  "unlocked_receive_hb clk p m =
    (let u = uri (sp_client p)
     in if map_last_hb_rx m u = None then hb_log m
        else (let (now, m1) = hb_rdtsc clk (hb_log m)
              in m1\<lparr>map_last_hb_rx := emplace u now (map_last_hb_rx m1)\<rparr>))"

definition make_heartbeat :: "TransportType \<Rightarrow> string \<Rightarrow> u16 \<Rightarrow> string \<Rightarrow> SmPkt res" where
  "make_heartbeat old local_hostname local_port remote_uri =
    bindE (split_uri remote_uri) (\<lambda>(h, p).
    bindE (strcpy_hostname local_hostname) (\<lambda>lh. bindE (strcpy_hostname h) (\<lambda>rh.
      Inr \<lparr>sp_pkt_type = kPingReq, sp_err_type = kNoError, sp_uniq_token = 0,
           sp_client = (SessionEndpoint_init old)\<lparr>hostname := lh, sm_udp_port := local_port\<rparr>,
           sp_server = (SessionEndpoint_init old)\<lparr>hostname := rh, sm_udp_port := p\<rparr>\<rparr>)))"

text \<open>The handling of one consumed event.\<close>

definition handle_event :: "(nat \<Rightarrow> nat) \<Rightarrow> hb_event \<Rightarrow> string list \<times> hb_mgr \<Rightarrow> (string list \<times> hb_mgr) res" where
  "handle_event clk ev = (\<lambda>(failed, m). case ev_type ev of
      kSend \<Rightarrow> bindE (make_heartbeat (hb_old_tt m) (hb_hostname m) (hb_sm_udp_port m) (rem_uri ev)) (\<lambda>hb.
        let m1 = m\<lparr>hb_udp_sent := hb_udp_sent m @ [(hostname (sp_server hb), sm_udp_port (sp_server hb), hb)]\<rparr>
        in Inr (failed, schedule_hb_send clk (rem_uri ev) m1))
    | kCheck \<Rightarrow>
        (let last_ping_rx = the (map_last_hb_rx m (rem_uri ev)); (now, m1) = hb_rdtsc clk m
         in if failure_timeout_tsc m < sub64 now last_ping_rx
            then (let m2 = hb_log m1
                  in Inr (failed @ [rem_uri ev], m2\<lparr>map_last_hb_rx := (map_last_hb_rx m2)(rem_uri ev := None)\<rparr>))
            else Inr (failed, schedule_hb_check clk (rem_uri ev) m1)))"

definition pop_event :: "nat \<Rightarrow> hb_mgr \<Rightarrow> hb_mgr" where
  "pop_event i m = m\<lparr>hb_event_pqueue := take i (hb_event_pqueue m) @ drop (Suc i) (hb_event_pqueue m)\<rparr>"

text \<open>The loop of \<open>do_one\<close>; the first argument bounds the number of iterations.\<close>

fun do_one :: "nat \<Rightarrow> (nat \<Rightarrow> nat) \<Rightarrow> (hb_event list \<Rightarrow> nat) \<Rightarrow> string list \<times> hb_mgr \<Rightarrow> (string list \<times> hb_mgr) res" where
  "do_one 0 clk pick st = Inl NoReturn"
| "do_one (Suc n) clk pick (failed, m) =
    (if hb_event_pqueue m = [] then Inr (failed, m)
     else
       (let i = pick (hb_event_pqueue m); ev = hb_event_pqueue m ! i; (now, m1) = hb_rdtsc clk m
        in if now < ev_tsc ev then Inr (failed, hb_log m1)
           else if map_last_hb_rx m1 (rem_uri ev) = None then Inr (failed, hb_log m1)
           else bindE (handle_event clk ev (failed, pop_event i (hb_log m1))) (do_one n clk pick)))"

subsection \<open>Shape of the state\<close>

text \<open>What the code relies on from \<open>std::priority_queue\<close>: the top is one of the earliest events.\<close>

definition pick_ok :: "(hb_event list \<Rightarrow> nat) \<Rightarrow> bool" where
  "pick_ok pick \<longleftrightarrow> (\<forall>q. q \<noteq> [] \<longrightarrow> pick q < length q \<and> (\<forall>e \<in> set q. ev_tsc (q ! pick q) \<le> ev_tsc e))"

text \<open>
  Well-formed managers: a heartbeat can be built for every queued event (its URI parses and its host
  name fits the 128-byte field of an endpoint), and every tracked remote has
  a send event and a check event queued.
\<close>

definition pending :: "hb_mgr \<Rightarrow> (EventType \<times> string) set" where
  "pending m = (\<lambda>e. (ev_type e, rem_uri e)) ` set (hb_event_pqueue m)"

definition uri_ok :: "string \<Rightarrow> bool" where
  "uri_ok u \<longleftrightarrow> (case split_uri u of Inl _ \<Rightarrow> False | Inr (h, p) \<Rightarrow> length h < kMaxHostnameLen)"

lemma uri_okE:
  assumes "uri_ok u"
  obtains h p where "split_uri u = Inr (h, p)" "length h < kMaxHostnameLen"
  using assms unfolding uri_ok_def by (auto split: sum.splits prod.splits)

definition hb_inv :: "hb_mgr \<Rightarrow> bool" where
  "hb_inv m \<longleftrightarrow> length (hb_hostname m) < kMaxHostnameLen \<and> (\<forall>t u. (t, u) \<in> pending m \<longrightarrow> uri_ok u) \<and>
    (\<forall>u. map_last_hb_rx m u \<noteq> None \<longrightarrow> (kSend, u) \<in> pending m \<and> (kCheck, u) \<in> pending m)"

lemma hb_log_sel [simp]:
  "hb_event_pqueue (hb_log m) = hb_event_pqueue m" "map_last_hb_rx (hb_log m) = map_last_hb_rx m"
  "hb_send_delta_tsc (hb_log m) = hb_send_delta_tsc m" "hb_check_delta_tsc (hb_log m) = hb_check_delta_tsc m"
  "failure_timeout_tsc (hb_log m) = failure_timeout_tsc m" "hb_clk_i (hb_log m) = hb_clk_i m + 1"
  "hb_udp_sent (hb_log m) = hb_udp_sent m" "hb_hostname (hb_log m) = hb_hostname m"
  by (simp_all add: hb_log_def)

lemma schedule_sel [simp]:
  "hb_event_pqueue (schedule clk t d u m) =
    hb_event_pqueue m @ [\<lparr>ev_type = t, rem_uri = u, ev_tsc = clk (hb_clk_i m) + d\<rparr>]"
  "map_last_hb_rx (schedule clk t d u m) = map_last_hb_rx m"
  "hb_send_delta_tsc (schedule clk t d u m) = hb_send_delta_tsc m"
  "hb_check_delta_tsc (schedule clk t d u m) = hb_check_delta_tsc m"
  "failure_timeout_tsc (schedule clk t d u m) = failure_timeout_tsc m"
  "hb_clk_i (schedule clk t d u m) = hb_clk_i m + 2"
  "hb_udp_sent (schedule clk t d u m) = hb_udp_sent m" "hb_hostname (schedule clk t d u m) = hb_hostname m"
  by (simp_all add: schedule_def hb_rdtsc_def Let_def)

lemma pending_log [simp]: "pending (hb_log m) = pending m"
  by (simp add: pending_def)

lemma pending_schedule [simp]: "pending (schedule clk t d u m) = insert (t, u) (pending m)"
  by (auto simp: pending_def)

lemma pending_cong: "hb_event_pqueue m' = hb_event_pqueue m \<Longrightarrow> pending m' = pending m"
  by (simp add: pending_def)

lemma pop_event_sel [simp]:
  "map_last_hb_rx (pop_event i m) = map_last_hb_rx m" "hb_clk_i (pop_event i m) = hb_clk_i m"
  "hb_send_delta_tsc (pop_event i m) = hb_send_delta_tsc m" "hb_check_delta_tsc (pop_event i m) = hb_check_delta_tsc m"
  "failure_timeout_tsc (pop_event i m) = failure_timeout_tsc m" "hb_hostname (pop_event i m) = hb_hostname m"
  by (simp_all add: pop_event_def)

lemma pending_pop:
  assumes "i < length (hb_event_pqueue m)"
  shows "insert (ev_type (hb_event_pqueue m ! i), rem_uri (hb_event_pqueue m ! i)) (pending (pop_event i m)) = pending m"
proof -
  have "hb_event_pqueue m = take i (hb_event_pqueue m) @ hb_event_pqueue m ! i # drop (Suc i) (hb_event_pqueue m)"
    using assms by (simp add: id_take_nth_drop)
  then have "set (hb_event_pqueue m) = insert (hb_event_pqueue m ! i) (set (hb_event_pqueue (pop_event i m)))"
    by (metis (no_types, lifting) Un_insert_right hb_mgr.select_convs(6) hb_mgr.surjective hb_mgr.update_convs(6)
        list.simps(15) pop_event_def set_append)
  then show ?thesis by (simp add: pending_def)
qed

subsection \<open>Every tracked remote stays scheduled\<close>

lemma add_remote_inv:
  assumes "hb_inv m" "uri_ok u"
  shows "hb_inv (unlocked_add_remote clk u m)"
proof -
  let ?m1 = "snd (hb_rdtsc clk (hb_log m))"
  have "pending (unlocked_add_remote clk u m) = {(kSend, u), (kCheck, u)} \<union> pending m"
    by (auto simp: unlocked_add_remote_def Let_def schedule_hb_check_def schedule_hb_send_def hb_rdtsc_def pending_def)
  moreover have "map_last_hb_rx (unlocked_add_remote clk u m) x \<noteq> None \<Longrightarrow> x = u \<or> map_last_hb_rx m x \<noteq> None" for x
    by (auto simp: unlocked_add_remote_def Let_def schedule_hb_check_def schedule_hb_send_def hb_rdtsc_def emplace_def
        split: if_splits)
  moreover have "hb_hostname (unlocked_add_remote clk u m) = hb_hostname m"
    by (simp add: unlocked_add_remote_def Let_def schedule_hb_check_def schedule_hb_send_def hb_rdtsc_def)
  ultimately show ?thesis using assms unfolding hb_inv_def by (metis Un_iff insert_iff prod.inject singletonD)
qed

lemma receive_hb_same:
  "map_last_hb_rx (unlocked_receive_hb clk p m) = map_last_hb_rx m"
  "hb_event_pqueue (unlocked_receive_hb clk p m) = hb_event_pqueue m"
  "failure_timeout_tsc (unlocked_receive_hb clk p m) = failure_timeout_tsc m"
  "hb_hostname (unlocked_receive_hb clk p m) = hb_hostname m"
  by (auto simp: unlocked_receive_hb_def Let_def hb_rdtsc_def emplace_def)

lemma receive_hb_inv: "hb_inv m \<Longrightarrow> hb_inv (unlocked_receive_hb clk p m)"
  by (simp add: hb_inv_def receive_hb_same pending_cong [OF receive_hb_same(2)])

text \<open>Handling a tracked event re-schedules it, or reports the remote as failed and forgets it.\<close>

lemma handle_event_ok:
  assumes t: "map_last_hb_rx m (rem_uri ev) \<noteq> None" and u: "uri_ok (rem_uri ev)"
    and l: "length (hb_hostname m) < kMaxHostnameLen"
  shows "\<exists>failed' m'. handle_event clk ev (failed, m) = Inr (failed', m') \<and> hb_hostname m' = hb_hostname m \<and>
    (failed' = failed \<and> pending m' = insert (ev_type ev, rem_uri ev) (pending m) \<and> map_last_hb_rx m' = map_last_hb_rx m \<or>
     failed' = failed @ [rem_uri ev] \<and> pending m' = pending m \<and> map_last_hb_rx m' = (map_last_hb_rx m)(rem_uri ev := None))"
proof (cases "ev_type ev")
  case kSend
  from u obtain h p where "split_uri (rem_uri ev) = Inr (h, p)" "length h < kMaxHostnameLen" by (rule uri_okE)
  then show ?thesis using l kSend
    by (simp add: handle_event_def make_heartbeat_def strcpy_hostname_def rangeE_def Let_def schedule_hb_send_def pending_cong [of "m\<lparr>hb_udp_sent := x\<rparr>" m for x])
next
  case kCheck
  then show ?thesis
    by (auto simp: handle_event_def Let_def hb_rdtsc_def schedule_hb_check_def pending_def)
qed

lemma handle_event_inv:
  assumes inv: "hb_inv m" and i: "i < length (hb_event_pqueue m)" and ev: "ev = hb_event_pqueue m ! i"
    and t: "map_last_hb_rx m (rem_uri ev) \<noteq> None"
  shows "\<exists>failed' m'. handle_event clk ev (failed, pop_event i m) = Inr (failed', m') \<and> hb_inv m'"
proof -
  have p: "pending m = insert (ev_type ev, rem_uri ev) (pending (pop_event i m))" using pending_pop [OF i] ev by simp
  then have u: "uri_ok (rem_uri ev)" using inv unfolding hb_inv_def by (metis insertI1)
  obtain failed' m' where r: "handle_event clk ev (failed, pop_event i m) = Inr (failed', m')" "hb_hostname m' = hb_hostname m"
    and c: "pending m' = pending m \<and> map_last_hb_rx m' = map_last_hb_rx m \<or>
       pending m' = pending (pop_event i m) \<and> map_last_hb_rx m' = (map_last_hb_rx m)(rem_uri ev := None)"
    using handle_event_ok [OF _ u, of "pop_event i m" clk failed] t p inv by (auto simp: hb_inv_def)
  have "hb_inv m'" using c
  proof
    assume "pending m' = pending m \<and> map_last_hb_rx m' = map_last_hb_rx m"
    then show ?thesis using inv r(2) by (simp add: hb_inv_def)
  next
    assume "pending m' = pending (pop_event i m) \<and> map_last_hb_rx m' = (map_last_hb_rx m)(rem_uri ev := None)"
    then show ?thesis using inv p r(2) unfolding hb_inv_def by auto
  qed
  then show ?thesis using r(1) by blast
qed

lemma do_one_step_inv:
  assumes "hb_inv m" "pick_ok pick" "hb_event_pqueue m \<noteq> []"
    and "map_last_hb_rx m (rem_uri (hb_event_pqueue m ! pick (hb_event_pqueue m))) \<noteq> None"
  shows "\<exists>failed' m'. handle_event clk (hb_event_pqueue m ! pick (hb_event_pqueue m))
      (failed, pop_event (pick (hb_event_pqueue m)) (hb_log (snd (hb_rdtsc clk m)))) = Inr (failed', m') \<and> hb_inv m'"
proof -
  let ?m = "hb_log (snd (hb_rdtsc clk m))"
  have q: "hb_event_pqueue ?m = hb_event_pqueue m" "map_last_hb_rx ?m = map_last_hb_rx m" "hb_hostname ?m = hb_hostname m"
    by (simp_all add: hb_rdtsc_def)
  then have "hb_inv ?m" using assms(1) by (simp add: hb_inv_def pending_def)
  moreover have "pick (hb_event_pqueue m) < length (hb_event_pqueue m)" using assms(2,3) by (simp add: pick_ok_def)
  ultimately show ?thesis using handle_event_inv [of ?m "pick (hb_event_pqueue m)" _ clk failed] q assms(4) by simp
qed

lemma do_one_inv:
  assumes "hb_inv m" "pick_ok pick"
  shows "case do_one n clk pick (failed, m) of Inl err \<Rightarrow> err = NoReturn | Inr (_, m') \<Rightarrow> hb_inv m'"
  using assms(1)
proof (induction n arbitrary: failed m)
  case (Suc n)
  let ?i = "pick (hb_event_pqueue m)" and ?now = "clk (hb_clk_i m)"
  let ?m1 = "snd (hb_rdtsc clk m)" and ?ev = "hb_event_pqueue m ! pick (hb_event_pqueue m)"
  have quiet: "hb_inv (hb_log ?m1)" using Suc.prems by (simp add: hb_inv_def pending_def hb_rdtsc_def)
  show ?case
  proof (cases "hb_event_pqueue m = [] \<or> ?now < ev_tsc ?ev \<or> map_last_hb_rx m (rem_uri ?ev) = None")
    case True
    then show ?thesis using Suc.prems quiet by (auto simp: Let_def hb_rdtsc_def)
  next
    case False
    then obtain failed' m' where h: "handle_event clk ?ev (failed, pop_event ?i (hb_log ?m1)) = Inr (failed', m')" "hb_inv m'"
      using do_one_step_inv [OF Suc.prems assms(2)] by blast
    have "do_one (Suc n) clk pick (failed, m) = do_one n clk pick (failed', m')"
      using False h(1) by (auto simp: Let_def hb_rdtsc_def)
    then show ?thesis using Suc.IH [OF h(2)] by simp
  qed
qed simp

text \<open>
  C36. The manager loses no remote: adding a well-formed URI, receiving heartbeats and working off the
  event queue keep the invariant that every tracked remote has both a send and a check event queued,
  and no operation raises an assertion or an exception (working off the queue can only run on, when
  events become due faster than they are handled).
\<close>

theorem heartbeat_invariant:
  assumes "hb_inv m" "uri_ok u" "pick_ok pick"
  shows "hb_inv (unlocked_add_remote clk u m) \<and> hb_inv (unlocked_receive_hb clk pkt m) \<and>
    (case do_one n clk pick (failed, m) of Inl err \<Rightarrow> err = NoReturn | Inr (_, m') \<Rightarrow> hb_inv m')"
  using add_remote_inv [OF assms(1,2)] receive_hb_inv [OF assms(1)] do_one_inv [OF assms(1,3)] by blast

subsection \<open>Working off the queue ends\<close>

lemma handle_event_pq:
  assumes "handle_event clk ev (failed, m) = Inr (failed', m')" "\<forall>j \<ge> hb_clk_i m. t0 \<le> clk j"
    "D \<le> hb_send_delta_tsc m" "D \<le> hb_check_delta_tsc m"
  shows "filter (\<lambda>e. ev_tsc e < t0 + D) (hb_event_pqueue m') = filter (\<lambda>e. ev_tsc e < t0 + D) (hb_event_pqueue m)"
    "hb_clk_i m \<le> hb_clk_i m'" "hb_send_delta_tsc m' = hb_send_delta_tsc m" "hb_check_delta_tsc m' = hb_check_delta_tsc m"
proof -
  have late: "\<not> clk j + d < t0 + D" if "hb_clk_i m \<le> j" "D \<le> d" for j d
    using assms(2) that by (meson add_mono not_less)
  show "filter (\<lambda>e. ev_tsc e < t0 + D) (hb_event_pqueue m') = filter (\<lambda>e. ev_tsc e < t0 + D) (hb_event_pqueue m)"
    "hb_clk_i m \<le> hb_clk_i m'" "hb_send_delta_tsc m' = hb_send_delta_tsc m" "hb_check_delta_tsc m' = hb_check_delta_tsc m"
    using assms(1,3,4) late
    by (cases "ev_type ev"; auto simp: handle_event_def bindE_eq_Inr Let_def hb_rdtsc_def schedule_hb_send_def
        schedule_hb_check_def split: if_splits)+
qed

lemma pop_due:
  assumes "i < length (hb_event_pqueue m)" "P (hb_event_pqueue m ! i)"
  shows "length (filter P (hb_event_pqueue (pop_event i m))) + 1 = length (filter P (hb_event_pqueue m))"
proof -
  have "hb_event_pqueue m = take i (hb_event_pqueue m) @ hb_event_pqueue m ! i # drop (Suc i) (hb_event_pqueue m)"
    using assms by (simp add: id_take_nth_drop)
  then have "length (filter P (hb_event_pqueue m)) =
      length (filter P (take i (hb_event_pqueue m) @ hb_event_pqueue m ! i # drop (Suc i) (hb_event_pqueue m)))" by simp
  also have "\<dots> = length (filter P (hb_event_pqueue (pop_event i m))) + 1" using assms(2) by (simp add: pop_event_def)
  finally show ?thesis by simp
qed

lemma do_one_returns:
  assumes "hb_inv m" "pick_ok pick" "\<forall>j \<ge> hb_clk_i m. t0 \<le> clk j \<and> clk j < t0 + D"
    "D \<le> hb_send_delta_tsc m" "D \<le> hb_check_delta_tsc m"
    "length (filter (\<lambda>e. ev_tsc e < t0 + D) (hb_event_pqueue m)) < n"
  shows "\<exists>r. do_one n clk pick (failed, m) = Inr r"
  using assms(1,3-)
proof (induction n arbitrary: failed m)
  case (Suc n)
  let ?i = "pick (hb_event_pqueue m)" and ?P = "\<lambda>e. ev_tsc e < t0 + D"
  let ?m1 = "snd (hb_rdtsc clk m)" and ?ev = "hb_event_pqueue m ! pick (hb_event_pqueue m)"
  show ?case
  proof (cases "hb_event_pqueue m = [] \<or> clk (hb_clk_i m) < ev_tsc ?ev \<or> map_last_hb_rx m (rem_uri ?ev) = None")
    case True
    then show ?thesis by (auto simp: Let_def hb_rdtsc_def)
  next
    case False
    let ?m2 = "pop_event ?i (hb_log ?m1)"
    obtain failed' m' where h: "handle_event clk ?ev (failed, ?m2) = Inr (failed', m')" "hb_inv m'"
      using do_one_step_inv [OF Suc.prems(1) assms(2)] False by blast
    have d: "do_one (Suc n) clk pick (failed, m) = do_one n clk pick (failed', m')"
      using False h(1) by (auto simp: Let_def hb_rdtsc_def)
    have i: "?i < length (hb_event_pqueue m)" using assms(2) False by (simp add: pick_ok_def)
    have "?P ?ev" using False Suc.prems(2) by (auto intro: le_less_trans)
    moreover have "hb_event_pqueue (hb_log ?m1) = hb_event_pqueue m" by (simp add: hb_rdtsc_def)
    ultimately have "length (filter ?P (hb_event_pqueue ?m2)) + 1 = length (filter ?P (hb_event_pqueue m))"
      using pop_due [of ?i "hb_log ?m1" ?P] i by simp
    moreover have m2: "\<forall>j \<ge> hb_clk_i ?m2. t0 \<le> clk j" "D \<le> hb_send_delta_tsc ?m2" "D \<le> hb_check_delta_tsc ?m2"
      using Suc.prems by (simp_all add: hb_rdtsc_def)
    note pq = handle_event_pq [OF h(1) m2]
    ultimately have "length (filter ?P (hb_event_pqueue m')) < n" using Suc.prems by simp
    moreover have "\<forall>j \<ge> hb_clk_i m'. t0 \<le> clk j \<and> clk j < t0 + D" using Suc.prems(2) pq(2) by (simp add: hb_rdtsc_def)
    ultimately have "\<exists>r. do_one n clk pick (failed', m') = Inr r" using Suc.IH [OF h(2)] Suc.prems pq by (simp add: hb_rdtsc_def)
    then show ?thesis using d by simp
  qed
qed simp


subsection \<open>Two defects\<close>

lemma receive_hbs_same:
  "map_last_hb_rx (fold (unlocked_receive_hb clk) ps m) = map_last_hb_rx m \<and>
   hb_event_pqueue (fold (unlocked_receive_hb clk) ps m) = hb_event_pqueue m \<and>
   failure_timeout_tsc (fold (unlocked_receive_hb clk) ps m) = failure_timeout_tsc m"
  by (induction ps arbitrary: m) (simp_all add: receive_hb_same)

text \<open>
  Heartbeats do not keep a remote alive. \<open>unlocked_receive_hb\<close> stores the new time with
  \<open>emplace\<close>, which keeps the value of a present key, so the recorded time stays the time the remote
  was added: whatever heartbeats arrive, the first check later than the timeout after that reports the
  remote as failed.
\<close>

theorem heartbeats_ignored:
  assumes "map_last_hb_rx m u = Some t0" "hb_event_pqueue m = [\<lparr>ev_type = kCheck, rem_uri = u, ev_tsc = t\<rparr>]"
    "pick_ok pick" "\<forall>j. t \<le> clk j \<and> t0 + failure_timeout_tsc m < clk j"
  shows "\<exists>m'. do_one 2 clk pick (failed, fold (unlocked_receive_hb clk) pkts m) = Inr (failed @ [u], m') \<and>
    map_last_hb_rx m' u = None"
proof -
  define r where "r = fold (unlocked_receive_hb clk) pkts m"
  have r: "map_last_hb_rx r = map_last_hb_rx m" "hb_event_pqueue r = [\<lparr>ev_type = kCheck, rem_uri = u, ev_tsc = t\<rparr>]"
    "failure_timeout_tsc r = failure_timeout_tsc m"
    using receive_hbs_same [of clk pkts m] assms(2) by (simp_all add: r_def)
  have p: "pick [\<lparr>ev_type = kCheck, rem_uri = u, ev_tsc = t\<rparr>] = 0"
    using assms(3) unfolding pick_ok_def by (metis length_Cons less_one list.size(3) not_Cons_self2 One_nat_def)
  have c: "\<not> clk j < t" "t0 \<le> clk j" "failure_timeout_tsc m < clk j - t0" for j
  proof -
    have "t \<le> clk j" "t0 + failure_timeout_tsc m < clk j" using assms(4) by auto
    then show "\<not> clk j < t" "t0 \<le> clk j" "failure_timeout_tsc m < clk j - t0" by simp_all
  qed
  have "do_one 2 clk pick (failed, r) = Inr (failed @ [u], (hb_log (snd (hb_rdtsc clk (pop_event 0 (hb_log (snd (hb_rdtsc clk r)))))))
      \<lparr>map_last_hb_rx := (map_last_hb_rx m)(u := None)\<rparr>)"
    using r p c assms(1) by (simp add: numeral_2_eq_2 handle_event_def hb_rdtsc_def Let_def pop_event_def)
  then show ?thesis by (simp add: r_def)
qed

text \<open>
  A failed remote blocks the manager. The comment on \<open>map_last_hb_rx_\<close> says that events of remotes
  outside the map are ignored when they are dequeued; the code leaves such an event in the queue and
  stops. Once it is due and on top, no number of calls sends a heartbeat or checks a remote again.
\<close>

theorem untracked_event_blocks:
  assumes "hb_event_pqueue m \<noteq> []" "map_last_hb_rx m (rem_uri (hb_event_pqueue m ! pick (hb_event_pqueue m))) = None"
    "\<forall>j. ev_tsc (hb_event_pqueue m ! pick (hb_event_pqueue m)) \<le> clk j"
  shows "\<exists>m'. foldE (\<lambda>_. do_one (Suc n) clk pick) calls (failed, m) = Inr (failed, m') \<and>
    hb_event_pqueue m' = hb_event_pqueue m \<and> hb_udp_sent m' = hb_udp_sent m \<and> map_last_hb_rx m' = map_last_hb_rx m"
  using assms
proof (induction calls arbitrary: m)
  case (Cons x calls)
  let ?m = "hb_log (snd (hb_rdtsc clk m))"
  have s: "hb_event_pqueue ?m = hb_event_pqueue m" "map_last_hb_rx ?m = map_last_hb_rx m" "hb_udp_sent ?m = hb_udp_sent m"
    by (simp_all add: hb_rdtsc_def)
  have "do_one (Suc n) clk pick (failed, m) = Inr (failed, ?m)"
    using Cons.prems by (auto simp: Let_def hb_rdtsc_def not_less)
  then show ?case using Cons.IH [of ?m] Cons.prems s by simp
qed simp

subsection \<open>Witnesses\<close>

definition first_min :: "hb_event list \<Rightarrow> nat" where
  "first_min q = length (takeWhile (\<lambda>e. \<exists>x \<in> set q. ev_tsc x < ev_tsc e) q)"

lemma first_min_ok: "pick_ok first_min"
  unfolding pick_ok_def
proof (intro allI impI)
  fix q :: "hb_event list" assume "q \<noteq> []"
  let ?P = "\<lambda>e. \<exists>x \<in> set q. ev_tsc x < ev_tsc e"
  obtain e where e: "e \<in> set q" "\<forall>x \<in> set q. ev_tsc e \<le> ev_tsc x"
    using \<open>q \<noteq> []\<close> ex_min_if_finite [of "ev_tsc ` set q"] by (auto simp: not_less)
  then have "\<not> ?P e" by (auto simp: not_less)
  then have "\<not> (\<forall>x \<in> set q. ?P x)" using e(1) by blast
  then have "takeWhile ?P q \<noteq> q" by (simp add: takeWhile_eq_all_conv del: bex_simps)
  then have "length (takeWhile ?P q) \<noteq> length q" by (metis (no_types, lifting) takeWhile_eq_take take_all order_refl)
  then have l: "first_min q < length q"
    unfolding first_min_def using length_takeWhile_le [of ?P q] by simp
  then have "\<not> ?P (q ! first_min q)" unfolding first_min_def by (rule nth_length_takeWhile)
  then show "first_min q < length q \<and> (\<forall>e \<in> set q. ev_tsc (q ! first_min q) \<le> ev_tsc e)"
    using l by (auto simp: not_less)
qed

definition demo_hb :: hb_mgr where
  "demo_hb = \<lparr>hb_hostname = ''a'', hb_sm_udp_port = 31850, failure_timeout_tsc = 1000, hb_send_delta_tsc = 100,
    hb_check_delta_tsc = 500,
    hb_event_pqueue = [\<lparr>ev_type = kCheck, rem_uri = ''b:31850'', ev_tsc = 600\<rparr>],
    map_last_hb_rx = (\<lambda>u. if u = ''b:31850'' then Some 100 else None), hb_udp_sent = [], hb_clk_i = 7, hb_old_tt = kRaw\<rparr>"

definition demo_hb2 :: hb_mgr where
  "demo_hb2 = demo_hb\<lparr>hb_event_pqueue := hb_event_pqueue demo_hb @
    [\<lparr>ev_type = kSend, rem_uri = ''b:31850'', ev_tsc = 650\<rparr>]\<rparr>"

definition demo_ping :: SmPkt where
  "demo_ping = \<lparr>sp_pkt_type = kPingReq, sp_err_type = kNoError, sp_uniq_token = 0,
     sp_client = (SessionEndpoint_init kRaw)\<lparr>hostname := ''b'', sm_udp_port := 31850\<rparr>,
     sp_server = (SessionEndpoint_init kRaw)\<lparr>hostname := ''a'', sm_udp_port := 31850\<rparr>\<rparr>"

lemma demo_uri_ok: "uri_ok ''b:31850''"
  using demo_uri by (simp add: uri_ok_def)

lemma demo_hb2_inv: "hb_inv demo_hb2"
  using demo_uri by (auto simp: hb_inv_def uri_ok_def demo_hb2_def demo_hb_def pending_def)

theorem heartbeat_invariant_witness:
  "hb_inv (unlocked_add_remote (\<lambda>_. 700) ''b:31850'' demo_hb2) \<and>
   (case do_one 9 (\<lambda>_. 700) first_min ([], demo_hb2) of Inl err \<Rightarrow> err = NoReturn | Inr (_, m') \<Rightarrow> hb_inv m')"
  using heartbeat_invariant [OF demo_hb2_inv demo_uri_ok first_min_ok] by blast


theorem heartbeats_ignored_witness:
  "\<exists>m'. do_one 2 (\<lambda>_. 1200) first_min ([], fold (unlocked_receive_hb (\<lambda>_. 1200)) [demo_ping, demo_ping] demo_hb) = Inr ([''b:31850''], m')"
  using heartbeats_ignored [of demo_hb "''b:31850''" 100 600 first_min "\<lambda>_. 1200" "[]" "[demo_ping, demo_ping]"] first_min_ok
  by (auto simp: demo_hb_def)

theorem untracked_event_blocks_witness:
  "\<exists>m'. foldE (\<lambda>_. do_one 5 (\<lambda>_. 700) (\<lambda>_. 0)) [(), ()] ([], demo_hb2\<lparr>map_last_hb_rx := (\<lambda>_. None)\<rparr>) = Inr ([], m') \<and>
    hb_udp_sent m' = []"
proof -
  let ?m = "demo_hb2\<lparr>map_last_hb_rx := (\<lambda>_. None)\<rparr>"
  have "hb_event_pqueue ?m ! 0 = \<lparr>ev_type = kCheck, rem_uri = ''b:31850'', ev_tsc = 600\<rparr>" "hb_event_pqueue ?m \<noteq> []"
    "hb_udp_sent ?m = []" by (simp_all add: demo_hb2_def demo_hb_def)
  then show ?thesis
    using untracked_event_blocks [of ?m "\<lambda>_. 0" "\<lambda>_. 700" 4 "[(), ()]" "[]"] by auto
qed

end
