(* ===== verification/Nexus_Process.thy ===== *)
theory Nexus_Process
  imports Rpc_Datapath Heartbeat
begin

section \<open>The process-wide Nexus (\<open>nexus.h\<close>, \<open>nexus_impl\<close>, \<open>tls_registry\<close>, \<open>numautils\<close>)\<close>

text \<open>
  The Nexus owns what the Rpc objects of a process share: the registered request handlers, the array of
  hooks through which the session management thread reaches the Rpc objects, the queues of the background
  threads, and the thread registry. Hooks are members of Rpc objects; the array holds pointers to them, so
  hooks live in a store of addresses. Every operation under \<open>reg_hooks_lock_\<close> is one step; datagrams and
  the values of the kill switch that the management thread reads are arguments, as are libnuma's answers.
\<close>

abbreviation (input) kMaxBgThreads :: nat where "kMaxBgThreads \<equiv> 8"
abbreviation (input) kMaxNumaNodes :: nat where "kMaxNumaNodes \<equiv> 8"
abbreviation (input) kReqTypeArraySize :: nat where "kReqTypeArraySize \<equiv> 256"
abbreviation (input) kMachineFailureTimeoutMs :: nat where "kMachineFailureTimeoutMs \<equiv> 500"

subsection \<open>The thread registry\<close>

text \<open>Thread-local variables are functions of the thread; a thread that never called \<open>init\<close> has \<open>SIZE_MAX\<close>.\<close>

record tls_registry =
  tls_initialized :: "nat \<Rightarrow> bool"
  tls_etid :: "nat \<Rightarrow> nat"
  tls_cur_etid :: nat

definition TlsRegistry :: tls_registry where
  "TlsRegistry = \<lparr>tls_initialized = (\<lambda>_. False), tls_etid = (\<lambda>_. 2 ^ 64 - 1), tls_cur_etid = 0\<rparr>"

definition tls_init :: "nat \<Rightarrow> tls_registry \<Rightarrow> tls_registry res" where
  "tls_init t r = assertE (\<not> tls_initialized r t)
    (Inr (r\<lparr>tls_initialized := (tls_initialized r)(t := True), tls_etid := (tls_etid r)(t := tls_cur_etid r),
            tls_cur_etid := tls_cur_etid r + 1\<rparr>))"

definition tls_reset :: "nat \<Rightarrow> tls_registry \<Rightarrow> tls_registry" where
  "tls_reset t r = r\<lparr>tls_initialized := (tls_initialized r)(t := False), tls_etid := (tls_etid r)(t := 2 ^ 64 - 1), tls_cur_etid := 0\<rparr>"

definition get_etid :: "nat \<Rightarrow> tls_registry \<Rightarrow> nat res" where
  "get_etid t r = assertE (tls_initialized r t) (Inr (tls_etid r t))"

subsection \<open>NUMA helpers\<close>

record numa_env =
  numa_num_configured_cpus :: nat
  numa_num_configured_nodes :: nat
  numa_max_node :: nat
  numa_node_of_cpu :: "nat \<Rightarrow> nat"
  setaffinity_ok :: "nat \<Rightarrow> bool"

definition num_lcores_per_numa_node :: "numa_env \<Rightarrow> nat" where
  "num_lcores_per_numa_node v = numa_num_configured_cpus v div numa_num_configured_nodes v"

definition get_lcores_for_numa_node :: "numa_env \<Rightarrow> nat \<Rightarrow> nat list res" where
  "get_lcores_for_numa_node v numa_node = rt_assert (numa_node \<le> numa_max_node v)
    (Inr (filter (\<lambda>i. numa_node = numa_node_of_cpu v i) [0..<numa_num_configured_cpus v]))"

definition bind_to_core :: "numa_env \<Rightarrow> nat \<Rightarrow> nat \<Rightarrow> unit res" where
  "bind_to_core v numa_node numa_local_index = rt_assert (numa_node \<le> kMaxNumaNodes)
    (bindE (get_lcores_for_numa_node v numa_node) (\<lambda>lcore_vec.
      if length lcore_vec \<le> numa_local_index then Inr ()
      else rt_assert (setaffinity_ok v (lcore_vec ! numa_local_index)) (Inr ())))"

subsection \<open>Request functions, hooks, the Nexus\<close>

record ReqFunc =
  rf_func :: "nat option"
  rf_type :: ReqFuncType

definition is_registered :: "ReqFunc \<Rightarrow> bool" where
  "is_registered f \<longleftrightarrow> rf_func f \<noteq> None"

definition ReqFunc_make :: "nat option \<Rightarrow> ReqFuncType \<Rightarrow> ReqFunc res" where
  "ReqFunc_make f t = rt_assert (f \<noteq> None) (Inr \<lparr>rf_func = f, rf_type = t\<rparr>)"

record hook =
  hk_rpc_id :: u8
  hk_bg_req_queue_arr :: "nat option list"
  hk_sm_rx_queue :: "SmWorkItem MtQueue"

definition Hook_init :: "u8 \<Rightarrow> hook" where
  "Hook_init rpc_id = \<lparr>hk_rpc_id = rpc_id, hk_bg_req_queue_arr = replicate kMaxBgThreads None, hk_sm_rx_queue = MtQueue_init\<rparr>"

record nexus =
  nx_freq_ghz :: real
  nx_hostname :: string
  nx_sm_udp_port :: u16
  nx_numa_node :: nat
  nx_num_bg_threads :: nat
  nx_tls :: tls_registry
  nx_req_func_arr :: "ReqFunc list"
  nx_registration_allowed :: bool
  nx_reg_hooks_arr :: "nat option list"
  nx_hooks :: "nat \<Rightarrow> hook"
  nx_heartbeat_mgr :: hb_mgr
  nx_kill_switch :: bool
  nx_udp_sent :: "(string \<times> u16 \<times> SmPkt) list"

text \<open>
  The constructor. \<open>freq\<close> is the result of \<open>measure_rdtsc_freq\<close>, \<open>junk_type\<close> the indeterminate type of an
  empty \<open>ReqFunc\<close>, \<open>old_tt\<close> indeterminate memory of the heartbeat manager's packets. Thread 0 runs the
  constructor, background thread \<open>i\<close> is thread \<open>i + 1\<close>: it registers itself while the constructor waits. The
  argument of the second log line indexes the cores with \<open>at\<close>, which throws (log level \<open>ERPC_LOG_LEVEL_CC\<close>).
\<close>

definition bg_thread_launch :: "nat \<Rightarrow> tls_registry \<Rightarrow> tls_registry res" where
  "bg_thread_launch i r = assertE (tls_cur_etid r = i) (bindE (tls_init (i + 1) r) (\<lambda>r1.
    bindE (get_etid (i + 1) r1) (\<lambda>etid. assertE (i = etid) (Inr r1))))"

definition Nexus_init :: "numa_env \<Rightarrow> real res \<Rightarrow> ReqFuncType \<Rightarrow> TransportType \<Rightarrow> (nat \<Rightarrow> hook) \<Rightarrow> string \<Rightarrow> nat \<Rightarrow> nat \<Rightarrow> nexus res" where
  "Nexus_init v freq junk_type old_tt hooks local_uri numa_node n_bg =
    bindE freq (\<lambda>f. bindE (extract_hostname_from_uri local_uri) (\<lambda>host. bindE (extract_udp_port_from_uri local_uri) (\<lambda>port.
    rt_assert (kBaseSmUdpPort \<le> unat port \<and> unat port < kBaseSmUdpPort + kMaxNumERpcProcesses)
    (rt_assert (n_bg \<le> kMaxBgThreads) (rt_assert (numa_node < kMaxNumaNodes)
    (bindE (forE n_bg bg_thread_launch TlsRegistry) (\<lambda>tls.
     let sm_thread_lcore_index = sub64 (num_lcores_per_numa_node v) 1
     in bindE (get_lcores_for_numa_node v numa_node) (\<lambda>lcores. rt_assert (sm_thread_lcore_index < length lcores)
        (bindE (bind_to_core v numa_node sm_thread_lcore_index) (\<lambda>_.
          Inr \<lparr>nx_freq_ghz = f, nx_hostname = host, nx_sm_udp_port = port, nx_numa_node = numa_node, nx_num_bg_threads = n_bg,
               nx_tls = tls, nx_req_func_arr = replicate kReqTypeArraySize \<lparr>rf_func = None, rf_type = junk_type\<rparr>,
               nx_registration_allowed = True, nx_reg_hooks_arr = replicate (kMaxRpcId + 1) None, nx_hooks = hooks,
               nx_heartbeat_mgr = hb_mgr_init host port f kMachineFailureTimeoutMs old_tt, nx_kill_switch = False,
               nx_udp_sent = []\<rparr>))))))))))"

definition make_unblock_req :: "SmPkt \<Rightarrow> SmPkt" where
  "make_unblock_req junk = junk\<lparr>sp_pkt_type := kUnblock\<rparr>"

definition Nexus_destroy :: "SmPkt \<Rightarrow> nexus \<Rightarrow> nexus res" where
  "Nexus_destroy junk n =
    (let n1 = n\<lparr>nx_kill_switch := True, nx_udp_sent := nx_udp_sent n @ [(nx_hostname n, nx_sm_udp_port n, make_unblock_req junk)]\<rparr>
     in assertE (\<forall>h \<in> set (nx_reg_hooks_arr n1). h = None) (Inr (n1\<lparr>nx_tls := tls_reset 0 (nx_tls n1)\<rparr>)))"

definition rpc_id_exists :: "u8 \<Rightarrow> nexus \<Rightarrow> bool res" where
  "rpc_id_exists rpc_id n = rangeE (unat rpc_id < length (nx_reg_hooks_arr n)) (Inr (nx_reg_hooks_arr n ! unat rpc_id \<noteq> None))"

definition register_hook :: "nat \<Rightarrow> nexus \<Rightarrow> nexus res" where
  "register_hook h n =
    (let rpc_id = unat (hk_rpc_id (nx_hooks n h))
     in assertE (rpc_id \<le> kMaxRpcId) (rangeE (rpc_id < length (nx_reg_hooks_arr n)) (assertE (nx_reg_hooks_arr n ! rpc_id = None)
        (let n1 = n\<lparr>nx_registration_allowed := False, nx_reg_hooks_arr := (nx_reg_hooks_arr n)[rpc_id := Some h]\<rparr>
         in forE (nx_num_bg_threads n1) (\<lambda>i n2. rangeE (i < length (hk_bg_req_queue_arr (nx_hooks n2 h)))
              (Inr (n2\<lparr>nx_hooks := (nx_hooks n2)(h := (nx_hooks n2 h)\<lparr>hk_bg_req_queue_arr := (hk_bg_req_queue_arr (nx_hooks n2 h))[i := Some i]\<rparr>)\<rparr>))) n1))))"

definition unregister_hook :: "nat \<Rightarrow> nexus \<Rightarrow> nexus res" where
  "unregister_hook h n =
    (let rpc_id = unat (hk_rpc_id (nx_hooks n h))
     in assertE (rpc_id \<le> kMaxRpcId) (rangeE (rpc_id < length (nx_reg_hooks_arr n)) (assertE (nx_reg_hooks_arr n ! rpc_id = Some h)
        (Inr (n\<lparr>nx_reg_hooks_arr := (nx_reg_hooks_arr n)[rpc_id := None]\<rparr>)))))"

abbreviation (input) EPERM :: int where "EPERM \<equiv> 1"
abbreviation (input) EEXIST :: int where "EEXIST \<equiv> 17"
abbreviation (input) EINVAL :: int where "EINVAL \<equiv> 22"

definition register_req_func :: "u8 \<Rightarrow> nat option \<Rightarrow> ReqFuncType \<Rightarrow> nexus \<Rightarrow> (int \<times> nexus) res" where
  "register_req_func rt f ftype n =
    (if \<not> nx_registration_allowed n then Inr (- EPERM, n)
     else if is_registered (nx_req_func_arr n ! unat rt) then Inr (- EEXIST, n)
     else if f = None then Inr (- EINVAL, n)
     else if ftype = kBackground \<and> nx_num_bg_threads n = 0 then Inr (- EPERM, n)
     else bindE (ReqFunc_make f ftype) (\<lambda>rf.
       Inr (0, n\<lparr>nx_req_func_arr := (nx_req_func_arr n)[unat rt := rf]\<rparr>)))"

subsection \<open>The session management thread\<close>

text \<open>
  One round of the loop with the datagram \<open>(ret, sm_pkt)\<close> that \<open>recv_blocking\<close> returned; \<open>sz\<close> is
  \<open>sizeof(SmPkt)\<close>. The hooks array has 255 entries, so that a packet for Rpc 255 is read outside of it.
\<close>

definition sm_thread_one :: "nat \<Rightarrow> nat \<times> SmPkt \<Rightarrow> nexus \<Rightarrow> nexus res" where
  "sm_thread_one sz d n =
    (let ret = fst d; sm_pkt = snd d
     in if ret = 0 then Inr n
        else rt_assert (ret = sz)
          (if sp_pkt_type sm_pkt = kUnblock then Inr n
           else let target_rpc_id = (if sp_is_req sm_pkt then ep_rpc_id (sp_server sm_pkt) else ep_rpc_id (sp_client sm_pkt))
                in rangeE (unat target_rpc_id < length (nx_reg_hooks_arr n))
                   (case nx_reg_hooks_arr n ! unat target_rpc_id of
                      Some h \<Rightarrow> Inr (n\<lparr>nx_hooks := (nx_hooks n)(h := (nx_hooks n h)\<lparr>hk_sm_rx_queue :=
                                  unlocked_push (SmWork target_rpc_id sm_pkt) (hk_sm_rx_queue (nx_hooks n h))\<rparr>)\<rparr>)
                    | None \<Rightarrow>
                        if sp_is_req sm_pkt then bindE (sm_construct_resp sm_pkt kInvalidRemoteRpcId) (\<lambda>resp_sm_pkt.
                          Inr (n\<lparr>nx_udp_sent := nx_udp_sent n @
                            [(hostname (sp_client resp_sm_pkt), sm_udp_port (sp_client resp_sm_pkt), resp_sm_pkt)]\<rparr>))
                        else Inr n)))"

text \<open>The loop: each round reads the kill switch, then blocks for a datagram.\<close>

fun sm_thread_func :: "nat \<Rightarrow> (bool \<times> nat \<times> SmPkt) list \<Rightarrow> nexus \<Rightarrow> nexus res" where
  "sm_thread_func sz [] n = Inl NoReturn"
| "sm_thread_func sz ((kill, d) # ds) n = (if kill then Inr n else bindE (sm_thread_one sz d n) (sm_thread_func sz ds))"

subsection \<open>Background threads\<close>

text \<open>
  A background thread works off its queue, here the queue as an Rpc object with the environment \<open>e\<close> sees
  it. It runs the handler of the Nexus's own array; an entry that was never registered is a null pointer.
\<close>

definition bg_thread_item :: "env \<Rightarrow> nexus \<Rightarrow> bg_work_item \<Rightarrow> rpc \<Rightarrow> rpc res" where
  "bg_thread_item e n wi s = (case wi of
      BgReq r \<Rightarrow> bindE (get_slot r s) (\<lambda>sl.
        rt_assert (si_req_type sl < length (nx_req_func_arr n))
          (case rf_func (nx_req_func_arr n ! si_req_type sl) of None \<Rightarrow> Inl OutOfRange | Some f \<Rightarrow> handler e (si_req_type sl) r s))
    | BgResp cf tag \<Rightarrow> continue e cf tag s)"

fun bg_thread_pass :: "nat \<Rightarrow> env \<Rightarrow> nexus \<Rightarrow> nat \<Rightarrow> rpc \<Rightarrow> rpc res" where
  "bg_thread_pass fuel e n i s = rangeE (i < length (bg_req_queue_arr s))
    (if mt_size (bg_req_queue_arr s ! i) = 0 then Inr s
     else (case fuel of
         0 \<Rightarrow> Inl NoReturn
       | Suc k \<Rightarrow> bindE (unlocked_pop (bg_req_queue_arr s ! i)) (\<lambda>(wi, q).
           bindE (bg_thread_item e n wi (s\<lparr>bg_req_queue_arr := (bg_req_queue_arr s)[i := q], cur_etid := i\<rparr>)) (bg_thread_pass k e n i))))"

declare bg_thread_pass.simps [simp del]


subsection \<open>The invariant of the Nexus\<close>

text \<open>
  Thread identifiers are unique and background thread \<open>i\<close> has the identifier \<open>i\<close>; a registered hook stands
  under its own Rpc identifier and has the queues of all background threads; background handlers exist
  only when there are background threads; and while any hook is registered no handler can be.
\<close>

definition threads :: "tls_registry \<Rightarrow> nat set" where
  "threads r = Collect (tls_initialized r)"

definition tls_ok :: "nat \<Rightarrow> tls_registry \<Rightarrow> bool" where
  "tls_ok n_bg r \<longleftrightarrow> (\<forall>i < n_bg. i + 1 \<in> threads r \<and> tls_etid r (i + 1) = i) \<and>
     tls_etid r ` threads r \<subseteq> {..<tls_cur_etid r} \<and> inj_on (tls_etid r) (threads r)"

definition hook_ok :: "nexus \<Rightarrow> nat \<Rightarrow> nat \<Rightarrow> bool" where
  "hook_ok n i h \<longleftrightarrow> unat (hk_rpc_id (nx_hooks n h)) = i \<and> mtq_ok (hk_sm_rx_queue (nx_hooks n h)) \<and>
     length (hk_bg_req_queue_arr (nx_hooks n h)) = kMaxBgThreads \<and>
     (\<forall>k < nx_num_bg_threads n. hk_bg_req_queue_arr (nx_hooks n h) ! k = Some k)"

definition nexus_inv :: "nexus \<Rightarrow> bool" where
  "nexus_inv n \<longleftrightarrow> length (nx_reg_hooks_arr n) = kMaxRpcId + 1 \<and> length (nx_req_func_arr n) = kReqTypeArraySize \<and>
     nx_num_bg_threads n \<le> kMaxBgThreads \<and> tls_ok (nx_num_bg_threads n) (nx_tls n) \<and>
     (\<forall>i h. i < kMaxRpcId + 1 \<longrightarrow> nx_reg_hooks_arr n ! i = Some h \<longrightarrow> hook_ok n i h) \<and>
     (\<forall>f \<in> set (nx_req_func_arr n). is_registered f \<and> rf_type f = kBackground \<longrightarrow> 0 < nx_num_bg_threads n) \<and>
     (nx_registration_allowed n \<longrightarrow> set (nx_reg_hooks_arr n) \<subseteq> {None})"

text \<open>
  The steps: a new thread registers itself, an Rpc object is created with a new hook or destroyed, the
  application registers a handler, the management thread receives a datagram, an Rpc object takes a
  work item from its hook.
\<close>

inductive nstep :: "nexus \<Rightarrow> nexus \<Rightarrow> bool" where
  thread: "tls_init t (nx_tls n) = Inr r \<Longrightarrow> nstep n (n\<lparr>nx_tls := r\<rparr>)"
| hook: "Some h \<notin> set (nx_reg_hooks_arr n) \<Longrightarrow> register_hook h (n\<lparr>nx_hooks := (nx_hooks n)(h := Hook_init rpc_id)\<rparr>) = Inr n' \<Longrightarrow> nstep n n'"
| unhook: "unregister_hook h n = Inr n' \<Longrightarrow> nstep n n'"
| func: "register_req_func rt f ftype n = Inr (r, n') \<Longrightarrow> nstep n n'"
| datagram: "sm_thread_one sz d n = Inr n' \<Longrightarrow> nstep n n'"
| take: "Some h \<in> set (nx_reg_hooks_arr n) \<Longrightarrow> unlocked_pop (hk_sm_rx_queue (nx_hooks n h)) = Inr (wi, q) \<Longrightarrow>
    nstep n (n\<lparr>nx_hooks := (nx_hooks n)(h := (nx_hooks n h)\<lparr>hk_sm_rx_queue := q\<rparr>)\<rparr>)"

lemma tls_init_eq: "tls_init t r = Inr r' \<Longrightarrow> t \<notin> threads r \<and> threads r' = insert t (threads r) \<and>
   tls_etid r' = (tls_etid r)(t := tls_cur_etid r) \<and> tls_cur_etid r' = Suc (tls_cur_etid r)"
  by (auto simp: tls_init_def assertE_eq_Inr threads_def)

lemma tls_ok_init:
  assumes "tls_ok n_bg r" "tls_init t r = Inr r'"
  shows "tls_ok n_bg r'"
proof -
  note eq = tls_init_eq [OF assms(2)]
  have im: "tls_etid r' ` threads r = tls_etid r ` threads r" "inj_on (tls_etid r') (threads r) = inj_on (tls_etid r) (threads r)"
    using eq by (auto intro!: image_cong inj_on_cong)
  have "tls_etid r' ` threads r' \<subseteq> {..<tls_cur_etid r'}" "inj_on (tls_etid r') (threads r')"
    using assms(1) eq im by (force simp: tls_ok_def)+
  moreover have "\<forall>i < n_bg. i + 1 \<in> threads r' \<and> tls_etid r' (i + 1) = i"
    using assms(1) eq by (auto simp: tls_ok_def)
  ultimately show ?thesis by (simp add: tls_ok_def)
qed

lemma launch_tls:
  assumes "tls_ok i r" "tls_cur_etid r = i" "threads r \<subseteq> {..i}"
  shows "holds (\<lambda>r'. tls_ok (Suc i) r' \<and> tls_cur_etid r' = Suc i \<and> threads r' \<subseteq> {..Suc i}) (bg_thread_launch i r)"
proof -
  have "i + 1 \<notin> threads r" using assms(3) by auto
  then obtain r' where r': "tls_init (i + 1) r = Inr r'" by (simp add: tls_init_def threads_def)
  note eq = tls_init_eq [OF this]
  have "tls_ok (Suc i) r'" using tls_ok_init [OF assms(1) r'] eq assms(2) by (auto simp: tls_ok_def less_Suc_eq)
  moreover have "tls_initialized r' (i + 1)" using eq by (auto simp: threads_def)
  ultimately show ?thesis using r' eq assms(2,3) by (auto simp: bg_thread_launch_def get_etid_def)
qed

lemma launch_all: "holds (\<lambda>r. tls_ok n r \<and> tls_cur_etid r = n \<and> threads r \<subseteq> {..n}) (forE n bg_thread_launch TlsRegistry)"
proof (rule holds_forE)
  show "tls_ok 0 TlsRegistry \<and> tls_cur_etid TlsRegistry = 0 \<and> threads TlsRegistry \<subseteq> {..0}"
    by (simp add: tls_ok_def TlsRegistry_def threads_def)
qed (use launch_tls in blast)

lemma Nexus_init_inv:
  assumes "Nexus_init v freq junk_type old_tt hooks local_uri numa_node n_bg = Inr n"
  shows "nexus_inv n"
proof -
  obtain tls where "forE n_bg bg_thread_launch TlsRegistry = Inr tls" "nx_tls n = tls" "nx_num_bg_threads n = n_bg" "n_bg \<le> kMaxBgThreads"
      and n: "nx_reg_hooks_arr n = replicate 255 None" "nx_req_func_arr n = replicate 256 \<lparr>rf_func = None, rf_type = junk_type\<rparr>"
    using assms by (auto simp: Nexus_init_def res_Inr Let_def)
  moreover have "tls_ok n_bg tls" using launch_all [of n_bg] calculation(1) by simp
  ultimately show ?thesis by (auto simp: nexus_inv_def is_registered_def)
qed

text \<open>What \<open>register_hook\<close> does to a new hook.\<close>

lemma register_hook_new:
  assumes "register_hook h (n\<lparr>nx_hooks := (nx_hooks n)(h := Hook_init rpc_id)\<rparr>) = Inr n'" "nx_num_bg_threads n \<le> kMaxBgThreads"
  shows "unat rpc_id < length (nx_reg_hooks_arr n)" "nx_reg_hooks_arr n ! unat rpc_id = None"
    "\<exists>bs. n' = n\<lparr>nx_registration_allowed := False, nx_reg_hooks_arr := (nx_reg_hooks_arr n)[unat rpc_id := Some h],
        nx_hooks := (nx_hooks n)(h := (Hook_init rpc_id)\<lparr>hk_bg_req_queue_arr := bs\<rparr>)\<rparr> \<and>
      length bs = kMaxBgThreads \<and> (\<forall>k < nx_num_bg_threads n. bs ! k = Some k)"
proof -
  let ?n1 = "n\<lparr>nx_registration_allowed := False, nx_reg_hooks_arr := (nx_reg_hooks_arr n)[unat rpc_id := Some h]\<rparr>"
  let ?P = "\<lambda>i m. \<exists>bs. m = ?n1\<lparr>nx_hooks := (nx_hooks n)(h := (Hook_init rpc_id)\<lparr>hk_bg_req_queue_arr := bs\<rparr>)\<rparr> \<and>
      length bs = kMaxBgThreads \<and> (\<forall>k < i. bs ! k = Some k)"
  have id: "hk_rpc_id (Hook_init rpc_id) = rpc_id" by (simp add: Hook_init_def)
  show "unat rpc_id < length (nx_reg_hooks_arr n)" "nx_reg_hooks_arr n ! unat rpc_id = None"
    using assms(1) by (auto simp: register_hook_def res_Inr id Let_def)
  have eq: "n\<lparr>nx_hooks := x, nx_registration_allowed := False, nx_reg_hooks_arr := y\<rparr> =
      n\<lparr>nx_registration_allowed := False, nx_reg_hooks_arr := y, nx_hooks := x\<rparr>" for x y by simp
  have "?P (nx_num_bg_threads n) n'"
  proof (rule forE_inv [where P = ?P])
    show "forE (nx_num_bg_threads n) (\<lambda>i n2. rangeE (i < length (hk_bg_req_queue_arr (nx_hooks n2 h)))
              (Inr (n2\<lparr>nx_hooks := (nx_hooks n2)(h := (nx_hooks n2 h)\<lparr>hk_bg_req_queue_arr := (hk_bg_req_queue_arr (nx_hooks n2 h))[i := Some i]\<rparr>)\<rparr>)))
            (?n1\<lparr>nx_hooks := (nx_hooks n)(h := Hook_init rpc_id)\<rparr>) = Inr n'"
      using assms(1) by (simp add: register_hook_def res_Inr id Let_def eq)
    show "?P 0 (?n1\<lparr>nx_hooks := (nx_hooks n)(h := Hook_init rpc_id)\<rparr>)"
      by (rule exI [of _ "replicate 8 None"]) (simp add: Hook_init_def)
  next
    fix i m m'
    assume i: "i < nx_num_bg_threads n" and P: "?P i m"
      and m': "rangeE (i < length (hk_bg_req_queue_arr (nx_hooks m h)))
              (Inr (m\<lparr>nx_hooks := (nx_hooks m)(h := (nx_hooks m h)\<lparr>hk_bg_req_queue_arr := (hk_bg_req_queue_arr (nx_hooks m h))[i := Some i]\<rparr>)\<rparr>)) = Inr m'"
    from P obtain bs where bs: "m = ?n1\<lparr>nx_hooks := (nx_hooks n)(h := (Hook_init rpc_id)\<lparr>hk_bg_req_queue_arr := bs\<rparr>)\<rparr>"
        "length bs = kMaxBgThreads" "\<forall>k < i. bs ! k = Some k" by blast
    show "?P (Suc i) m'"
      using m' bs i assms(2) by (intro exI [of _ "bs[i := Some i]"]) (auto simp: rangeE_eq_Inr nth_list_update less_Suc_eq)
  qed
  then show "\<exists>bs. n' = n\<lparr>nx_registration_allowed := False, nx_reg_hooks_arr := (nx_reg_hooks_arr n)[unat rpc_id := Some h],
        nx_hooks := (nx_hooks n)(h := (Hook_init rpc_id)\<lparr>hk_bg_req_queue_arr := bs\<rparr>)\<rparr> \<and>
      length bs = kMaxBgThreads \<and> (\<forall>k < nx_num_bg_threads n. bs ! k = Some k)" by simp
qed

text \<open>A hook changed only in its queue, as the management thread and its owner do.\<close>

lemma nexus_inv_queue:
  assumes "nexus_inv n" "mtq_ok q"
  shows "nexus_inv (n\<lparr>nx_hooks := (nx_hooks n)(h := (nx_hooks n h)\<lparr>hk_sm_rx_queue := q\<rparr>)\<rparr>)"
  using assms by (auto simp: nexus_inv_def hook_ok_def)

lemma hook_of: "nexus_inv n \<Longrightarrow> Some h \<in> set (nx_reg_hooks_arr n) \<Longrightarrow> hook_ok n (unat (hk_rpc_id (nx_hooks n h))) h"
  by (auto simp: nexus_inv_def in_set_conv_nth hook_ok_def)

lemma nexus_inv_sent: "nexus_inv (n\<lparr>nx_udp_sent := u\<rparr>) = nexus_inv n"
  by (simp add: nexus_inv_def hook_ok_def)

lemma nexus_inv_push:
  assumes "nexus_inv n" "k < length (nx_reg_hooks_arr n)" "nx_reg_hooks_arr n ! k = Some h"
  shows "nexus_inv (n\<lparr>nx_hooks := (nx_hooks n)(h := (nx_hooks n h)\<lparr>hk_sm_rx_queue := unlocked_push x (hk_sm_rx_queue (nx_hooks n h))\<rparr>)\<rparr>)"
  using assms by (intro nexus_inv_queue mtq_ok_push) (auto simp: nexus_inv_def hook_ok_def)

lemma nstep_inv: "nstep n n' \<Longrightarrow> nexus_inv n \<Longrightarrow> nexus_inv n'"
proof (induction rule: nstep.induct)
  case (thread t n r)
  then show ?case by (auto simp: nexus_inv_def hook_ok_def intro: tls_ok_init)
next
  case (hook h n rpc_id n')
  have "nx_num_bg_threads n \<le> kMaxBgThreads" using hook(3) by (simp add: nexus_inv_def)
  note reg = register_hook_new [OF hook(2) this]
  from reg(3) obtain bs where n': "n' = n\<lparr>nx_registration_allowed := False, nx_reg_hooks_arr := (nx_reg_hooks_arr n)[unat rpc_id := Some h],
        nx_hooks := (nx_hooks n)(h := (Hook_init rpc_id)\<lparr>hk_bg_req_queue_arr := bs\<rparr>)\<rparr>"
      "length bs = kMaxBgThreads" "\<forall>k < nx_num_bg_threads n. bs ! k = Some k" by blast
  have "hook_ok n' i g" if i: "i < 255" "nx_reg_hooks_arr n' ! i = Some g" for i g
  proof (cases "g = h")
    case True
    have "i = unat rpc_id"
      using i hook(1,3) reg(1) True by (auto simp: n'(1) nth_list_update nexus_inv_def set_conv_nth split: if_splits)
    with True show ?thesis using n'(2,3) by (simp add: hook_ok_def n'(1) Hook_init_def)
  next
    case False
    then have "nx_reg_hooks_arr n ! i = Some g" using i reg(1) by (auto simp: n'(1) nth_list_update split: if_splits)
    then have "hook_ok n i g" using hook(3) i(1) by (simp add: nexus_inv_def)
    with False show ?thesis by (simp add: hook_ok_def n'(1))
  qed
  then show ?case using hook(3) by (simp add: nexus_inv_def n'(1))
next
  case (unhook h n n')
  then obtain k where n': "n' = n\<lparr>nx_reg_hooks_arr := (nx_reg_hooks_arr n)[k := None]\<rparr>" by (auto simp: unregister_hook_def res_Inr Let_def)
  have "(nx_reg_hooks_arr n)[k := None] ! i = Some h \<Longrightarrow> nx_reg_hooks_arr n ! i = Some h" for i h
    by (cases "i = k"; cases "k < length (nx_reg_hooks_arr n)") (auto simp: list_update_beyond)
  then show ?case using unhook(2) set_update_subset_insert [of "nx_reg_hooks_arr n" k None]
    by (auto simp: nexus_inv_def hook_ok_def n')
next
  case (func rt f ftype n r n')
  have "n' = n \<or> f \<noteq> None \<and> \<not> (ftype = kBackground \<and> nx_num_bg_threads n = 0) \<and>
      n' = n\<lparr>nx_req_func_arr := (nx_req_func_arr n)[unat rt := \<lparr>rf_func = f, rf_type = ftype\<rparr>]\<rparr>"
    using func(1) unfolding register_req_func_def ReqFunc_make_def by (simp add: res_Inr split: if_splits)
  then show ?case
  proof (elim disjE conjE)
    assume 2: "f \<noteq> None" "\<not> (ftype = kBackground \<and> nx_num_bg_threads n = 0)"
      "n' = n\<lparr>nx_req_func_arr := (nx_req_func_arr n)[unat rt := \<lparr>rf_func = f, rf_type = ftype\<rparr>]\<rparr>"
    have "0 < nx_num_bg_threads n" if "g \<in> set (nx_req_func_arr n')" "is_registered g \<and> rf_type g = kBackground" for g
      using that 2(2) func(2) set_update_subset_insert [of "nx_req_func_arr n" "unat rt" "\<lparr>rf_func = f, rf_type = ftype\<rparr>"]
      unfolding 2(3) nexus_inv_def by auto
    then show ?thesis using func(2) unfolding nexus_inv_def by (auto simp: 2(3) hook_ok_def)
  qed (use func(2) in simp)
next
  case (datagram sz d n n')
  then show ?case
    by (auto simp: sm_thread_one_def res_Inr Let_def nexus_inv_push nexus_inv_sent split: if_splits option.splits)
next
  case (take h n wi q)
  have "mtq_ok q" using hook_of [OF take(3,1)] take(2) by (auto simp: hook_ok_def mtq_ok_def unlocked_pop_def rangeE_eq_Inr Suc_le_eq)
  then show ?case by (rule nexus_inv_queue [OF take(3)])
qed


lemma nsteps_inv: "nstep\<^sup>*\<^sup>* n n' \<Longrightarrow> nexus_inv n \<Longrightarrow> nexus_inv n'"
  by (induction rule: rtranclp_induct) (auto intro: nstep_inv)

subsection \<open>Request functions are frozen\<close>

lemma nstep_funcs:
  assumes "nstep n n'" "nexus_inv n"
  shows "(is_registered (nx_req_func_arr n ! t) \<longrightarrow> nx_req_func_arr n' ! t = nx_req_func_arr n ! t) \<and>
    (\<not> nx_registration_allowed n \<longrightarrow> \<not> nx_registration_allowed n' \<and> nx_req_func_arr n' = nx_req_func_arr n)"
  using assms
proof (induction rule: nstep.induct)
  case (hook h n rpc_id n')
  have "nx_num_bg_threads n \<le> kMaxBgThreads" using hook(3) by (simp add: nexus_inv_def)
  from register_hook_new(3) [OF hook(2) this] show ?case by auto
next
  case (func rt f ftype n r n')
  then show ?case
    by (cases "t = unat rt") (auto simp: register_req_func_def res_Inr ReqFunc_make_def split: if_splits)
qed (auto simp: unregister_hook_def sm_thread_one_def res_Inr Let_def split: if_splits option.splits)


lemma nsteps_funcs:
  assumes "nstep\<^sup>*\<^sup>* n n'" "nexus_inv n"
  shows "(is_registered (nx_req_func_arr n ! t) \<longrightarrow> nx_req_func_arr n' ! t = nx_req_func_arr n ! t) \<and>
    (\<not> nx_registration_allowed n \<longrightarrow> \<not> nx_registration_allowed n' \<and> nx_req_func_arr n' = nx_req_func_arr n)"
  using assms
proof (induction rule: rtranclp_induct)
  case (step n' n'')
  have "nexus_inv n'" using nsteps_inv [OF step(1,4)] .
  from nstep_funcs [OF step(2) this, of t] step(3) [OF step(4)] show ?case by auto
qed simp

subsection \<open>Routing of management packets\<close>

text \<open>
  \<open>sm_target p\<close> is the Rpc that a packet is for, \<open>delivered ds\<close> the packets of the datagrams that are not
  empty and do not only unblock the thread.
\<close>

definition sm_target :: "SmPkt \<Rightarrow> u8" where
  "sm_target p = (if sp_is_req p then ep_rpc_id (sp_server p) else ep_rpc_id (sp_client p))"

definition delivered :: "(nat \<times> SmPkt) list \<Rightarrow> SmPkt list" where
  "delivered ds = filter (\<lambda>p. sp_pkt_type p \<noteq> kUnblock) (map snd (filter (\<lambda>d. fst d \<noteq> 0) ds))"

definition rejected :: "nexus \<Rightarrow> SmPkt \<Rightarrow> bool" where
  "rejected n p \<longleftrightarrow> sp_is_req p \<and> nx_reg_hooks_arr n ! unat (sm_target p) = None"

text \<open>The answer to a request for an Rpc that does not exist.\<close>

definition reject :: "SmPkt \<Rightarrow> string \<times> u16 \<times> SmPkt" where
  "reject p = (hostname (sp_client p), sm_udp_port (sp_client p),
     p\<lparr>sp_pkt_type := (case sp_pkt_type p of kPingReq \<Rightarrow> kPingResp | kConnectReq \<Rightarrow> kConnectResp | _ \<Rightarrow> kDisconnectResp),
       sp_err_type := kInvalidRemoteRpcId\<rparr>)"

abbreviation (input) queue_of :: "nexus \<Rightarrow> nat \<Rightarrow> SmWorkItem list" where
  "queue_of n h \<equiv> mtq (hk_sm_rx_queue (nx_hooks n h))"

definition routed :: "(nat \<times> SmPkt) list \<Rightarrow> nexus \<Rightarrow> nexus \<Rightarrow> bool" where
  "routed ds n n' \<longleftrightarrow> nexus_inv n' \<and> nx_reg_hooks_arr n' = nx_reg_hooks_arr n \<and>
     (\<forall>i h. i < kMaxRpcId + 1 \<longrightarrow> nx_reg_hooks_arr n ! i = Some h \<longrightarrow>
        queue_of n' h = queue_of n h @ map (SmWork (of_nat i)) (filter (\<lambda>p. unat (sm_target p) = i) (delivered ds))) \<and>
     nx_udp_sent n' = nx_udp_sent n @ map reject (filter (rejected n) (delivered ds))"

definition datagram_ok :: "nat \<Rightarrow> nat \<times> SmPkt \<Rightarrow> bool" where
  "datagram_ok sz d \<longleftrightarrow> fst d = 0 \<or> fst d = sz \<and> (sp_pkt_type (snd d) = kUnblock \<or> sm_target (snd d) \<noteq> kInvalidRpcId)"

lemma construct_reject: "sp_is_req p \<Longrightarrow> sm_construct_resp p kInvalidRemoteRpcId = Inr (snd (snd (reject p)))"
  by (cases "sp_pkt_type p") (simp_all add: sm_construct_resp_def sm_pkt_type_req_to_resp_def sp_is_req_def reject_def)

lemma delivered_Cons: "delivered (d # ds) = delivered [d] @ delivered ds"
  by (simp add: delivered_def)

lemma hook_inj: "nexus_inv n \<Longrightarrow> i < kMaxRpcId + 1 \<Longrightarrow> j < kMaxRpcId + 1 \<Longrightarrow>
   nx_reg_hooks_arr n ! i = Some h \<Longrightarrow> nx_reg_hooks_arr n ! j = Some h \<Longrightarrow> i = j"
  unfolding nexus_inv_def hook_ok_def by metis

lemma sm_thread_one_routed:
  assumes inv: "nexus_inv n" and d: "datagram_ok sz d"
  shows "holds (routed [d] n) (sm_thread_one sz d n)"
proof (cases "fst d = 0 \<or> sp_pkt_type (snd d) = kUnblock")
  case True
  then show ?thesis using assms by (auto simp: sm_thread_one_def datagram_ok_def routed_def delivered_def Let_def)
next
  case False
  let ?p = "snd d" and ?t = "sm_target (snd d)"
  have sz: "fst d = sz" "fst d \<noteq> 0" and t: "?t \<noteq> 255" using False d by (auto simp: datagram_ok_def)
  have lt: "unat ?t < 255"
    using t unsigned_less [of ?t, where 'a = nat] by (auto simp: word_unat_eq_iff)
  have len: "length (nx_reg_hooks_arr n) = 255" using inv by (simp add: nexus_inv_def)
  have dl: "delivered [d] = [?p]" using False by (simp add: delivered_def)
  show ?thesis
  proof (cases "nx_reg_hooks_arr n ! unat ?t")
    case None
    then show ?thesis
      using False inv sz lt len
      by (auto simp: sm_thread_one_def sm_target_def [symmetric] Let_def routed_def dl rejected_def construct_reject nexus_inv_sent reject_def)
  next
    case (Some h)
    let ?n' = "n\<lparr>nx_hooks := (nx_hooks n)(h := (nx_hooks n h)\<lparr>hk_sm_rx_queue := unlocked_push (SmWork ?t ?p) (hk_sm_rx_queue (nx_hooks n h))\<rparr>)\<rparr>"
    have run: "sm_thread_one sz d n = Inr ?n'"
      using False sz lt len Some by (simp add: sm_thread_one_def sm_target_def [symmetric] Let_def)
    have "nexus_inv ?n'" using nexus_inv_push [OF inv _ Some] lt len by simp
    moreover have "queue_of ?n' g = queue_of n g @ map (SmWork (of_nat i)) (filter (\<lambda>p. unat (sm_target p) = i) [?p])"
      if "i < 255" "nx_reg_hooks_arr n ! i = Some g" for i g
    proof (cases "i = unat ?t")
      case True
      with that Some show ?thesis by (simp add: unlocked_push_def)
    next
      case False
      with hook_inj [OF inv, of i "unat ?t" h] that Some lt have "g \<noteq> h" by auto
      with False show ?thesis by simp
    qed
    moreover have "\<not> rejected n ?p" using Some by (simp add: rejected_def)
    ultimately show ?thesis unfolding run holds_Inr routed_def dl by simp
  qed
qed

lemma routed_Nil: "nexus_inv n \<Longrightarrow> routed [] n n"
  by (simp add: routed_def delivered_def)

lemma routed_trans: "routed [d] n n1 \<Longrightarrow> routed ds n1 n2 \<Longrightarrow> routed (d # ds) n n2"
  unfolding delivered_Cons [of d ds] routed_def rejected_def by simp

lemma sm_thread_routed:
  assumes "nexus_inv n" "\<forall>d \<in> set ds. datagram_ok sz d"
  shows "holds (routed ds n) (sm_thread_func sz (map (Pair False) ds @ [(True, d')]) n)"
  using assms
proof (induction ds arbitrary: n)
  case Nil
  then show ?case by (simp add: routed_Nil)
next
  case (Cons d ds)
  obtain n1 where n1: "sm_thread_one sz d n = Inr n1" "routed [d] n n1"
    using sm_thread_one_routed [of n sz d] Cons.prems by (auto simp: holds_iff)
  then have "nexus_inv n1" by (simp add: routed_def)
  with Cons.IH [of n1] Cons.prems have "holds (routed ds n1) (sm_thread_func sz (map (Pair False) ds @ [(True, d')]) n1)"
    by simp
  then show ?case using n1 by (auto elim!: holds_weaken intro: routed_trans)
qed

lemma Nexus_init_ok:
  assumes "split_uri local_uri = Inr (host, port)" "kBaseSmUdpPort \<le> unat port" "unat port < kBaseSmUdpPort + kMaxNumERpcProcesses"
    "n_bg \<le> kMaxBgThreads" "numa_node < kMaxNumaNodes" "get_lcores_for_numa_node v numa_node = Inr lcores"
    "sub64 (num_lcores_per_numa_node v) 1 < length lcores" "setaffinity_ok v (lcores ! sub64 (num_lcores_per_numa_node v) 1)"
  shows "\<exists>n. Nexus_init v (Inr f) junk_type old_tt hooks local_uri numa_node n_bg = Inr n \<and> nx_num_bg_threads n = n_bg \<and> nx_hostname n = host"
proof -
  have "extract_hostname_from_uri local_uri = Inr host" "extract_udp_port_from_uri local_uri = Inr port"
    using assms(1) by (auto simp: split_uri_def extract_hostname_from_uri_def extract_udp_port_from_uri_def res_Inr)
  moreover obtain tls where "forE n_bg bg_thread_launch TlsRegistry = Inr tls" using launch_all [of n_bg] by (auto simp: holds_iff)
  ultimately show ?thesis using assms by (simp add: Nexus_init_def bind_to_core_def Let_def)
qed

definition demo_numa :: numa_env where
  "demo_numa = \<lparr>numa_num_configured_cpus = 4, numa_num_configured_nodes = 1, numa_max_node = 0, numa_node_of_cpu = (\<lambda>_. 0), setaffinity_ok = (\<lambda>_. True)\<rparr>"

lemma upt_4: "[0..<4] = [0, 1, 2, 3 :: nat]"
  by (simp add: numeral_eq_Suc)

lemma demo_nexus: "\<exists>n. Nexus_init demo_numa (Inr 2) kForeground kRaw (\<lambda>_. Hook_init 0) ''b:31850'' 0 2 = Inr n \<and> nx_num_bg_threads n = 2 \<and> nx_hostname n = ''b''"
  by (rule Nexus_init_ok [OF demo_uri, where lcores = "[0, 1, 2, 3]"])
    (simp_all add: get_lcores_for_numa_node_def num_lcores_per_numa_node_def demo_numa_def upt_4)

text \<open>
  C?. The Nexus of a process is consistent in every state it can reach from its construction, while threads
  register themselves, Rpc objects are created and destroyed, handlers are registered, the management thread
  receives datagrams and Rpc objects take work items. Thread identifiers are unique, and background thread
  \<open>i\<close> has identifier \<open>i\<close>; every registered hook stands under its own Rpc identifier and has
  the queues of all background threads; a background handler is registered only if there are background
  threads; and handlers cannot be registered while an Rpc object exists.\<close>

theorem nexus_invariant:
  assumes "Nexus_init v freq junk_type old_tt hooks local_uri numa_node n_bg = Inr n0" "nstep\<^sup>*\<^sup>* n0 n"
  shows "nexus_inv n"
  using nsteps_inv [OF assms(2) Nexus_init_inv [OF assms(1)]] .

theorem nexus_invariant_witness:
  "\<exists>n0 n. Nexus_init demo_numa (Inr 2) kForeground kRaw (\<lambda>_. Hook_init 0) ''b:31850'' 0 2 = Inr n0 \<and> nstep n0 n \<and>
     nx_num_bg_threads n0 = 2 \<and> nexus_inv n"
proof -
  obtain n0 where n0: "Nexus_init demo_numa (Inr 2) kForeground kRaw (\<lambda>_. Hook_init 0) ''b:31850'' 0 2 = Inr n0" "nx_num_bg_threads n0 = 2"
    using demo_nexus by blast
  have "sm_thread_one 512 (0, demo_ping) n0 = Inr n0" by (simp add: sm_thread_one_def)
  then have "nstep n0 n0" by (rule datagram)
  moreover have "nexus_inv n0" using nexus_invariant [OF n0(1)] by blast
  ultimately show ?thesis using n0 by blast
qed

text \<open>
  C?. Session management packets reach the Rpc object they are for. The management thread processes any
  sequence of datagrams, each empty or of the size of a packet, none for the invalid Rpc identifier, until
  it reads the kill switch; it fails nothing, each registered Rpc object finds exactly the packets for its
  identifier at the end of its queue, in the order of arrival, and each request for an Rpc that does not
  exist is answered, in order, to the client's host and port with the error \<open>kInvalidRemoteRpcId\<close>.\<close>

theorem sm_thread_routes:
  assumes "nexus_inv n" "\<forall>d \<in> set ds. datagram_ok sz d"
  shows "\<exists>n'. sm_thread_func sz (map (Pair False) ds @ [(True, d')]) n = Inr n' \<and> nexus_inv n' \<and>
    (\<forall>i h. i < kMaxRpcId + 1 \<longrightarrow> nx_reg_hooks_arr n ! i = Some h \<longrightarrow>
       mtq (hk_sm_rx_queue (nx_hooks n' h)) = mtq (hk_sm_rx_queue (nx_hooks n h)) @
         map (SmWork (of_nat i)) (filter (\<lambda>p. unat (sm_target p) = i) (delivered ds))) \<and>
    nx_udp_sent n' = nx_udp_sent n @ map reject (filter (rejected n) (delivered ds))"
  using sm_thread_routed [OF assms, of d'] by (auto simp: routed_def holds_iff)

text \<open>
  Request handlers are never replaced, and frozen once an Rpc object exists. Along every run a
  registered handler keeps its entry; and from the moment registration is disabled, which creating an Rpc
  object does, the whole array stays as it is, so that it agrees with the copies in the Rpc objects.\<close>

theorem req_funcs_frozen:
  assumes "nexus_inv n" "nstep\<^sup>*\<^sup>* n n'"
  shows "(\<forall>t. is_registered (nx_req_func_arr n ! t) \<longrightarrow> nx_req_func_arr n' ! t = nx_req_func_arr n ! t) \<and>
    (\<not> nx_registration_allowed n \<longrightarrow> nx_req_func_arr n' = nx_req_func_arr n)"
  using nsteps_funcs [OF assms(2,1)] by blast

text \<open>A small Nexus for the witnesses: one Rpc object with identifier 3, one registered handler.\<close>

definition demo_nx :: nexus where
  "demo_nx = \<lparr>nx_freq_ghz = 2, nx_hostname = ''b'', nx_sm_udp_port = 31850, nx_numa_node = 0, nx_num_bg_threads = 0, nx_tls = TlsRegistry,
     nx_req_func_arr = (replicate 256 \<lparr>rf_func = None, rf_type = kForeground\<rparr>)[2 := \<lparr>rf_func = Some 9, rf_type = kForeground\<rparr>],
     nx_registration_allowed = False, nx_reg_hooks_arr = (replicate 255 None)[3 := Some 100], nx_hooks = (\<lambda>_. Hook_init 3),
     nx_heartbeat_mgr = hb_mgr_init ''b'' 31850 2 500 kRaw, nx_kill_switch = False, nx_udp_sent = []\<rparr>"

lemma demo_nx_inv: "nexus_inv demo_nx"
proof -
  have "(replicate 255 None)[3 := Some (100 :: nat)] ! i = Some h \<Longrightarrow> i < 255 \<Longrightarrow> i = 3 \<and> h = 100" for i h
    by (cases "i = 3") auto
  moreover have "f \<in> set ((replicate 256 \<lparr>rf_func = None, rf_type = kForeground\<rparr>)[2 := \<lparr>rf_func = Some 9, rf_type = kForeground\<rparr>]) \<Longrightarrow> rf_type f = kForeground" for f
    by (auto dest!: set_update_subset_insert [THEN subsetD])
  ultimately show ?thesis
    by (auto simp: nexus_inv_def demo_nx_def tls_ok_def TlsRegistry_def threads_def hook_ok_def Hook_init_def mtq_ok_def MtQueue_init_def)
qed

definition demo_pkt :: "u8 \<Rightarrow> SmPkt" where
  "demo_pkt i = \<lparr>sp_pkt_type = kConnectReq, sp_err_type = kNoError, sp_uniq_token = 1, sp_client = SessionEndpoint_init kRaw,
     sp_server = (SessionEndpoint_init kRaw)\<lparr>ep_rpc_id := i\<rparr>\<rparr>"

theorem sm_thread_routes_witness:
  "\<exists>n'. sm_thread_func 512 (map (Pair False) [(512, demo_pkt 3), (512, demo_pkt 4)] @ [(True, (0, demo_pkt 0))]) demo_nx = Inr n' \<and>
     mtq (hk_sm_rx_queue (nx_hooks n' 100)) = [SmWork 3 (demo_pkt 3)] \<and> nx_udp_sent n' = [reject (demo_pkt 4)]"
proof -
  have p: "sp_is_req (demo_pkt i)" "sm_target (demo_pkt i) = i" "sp_pkt_type (demo_pkt i) \<noteq> kUnblock" for i
    by (simp_all add: demo_pkt_def sp_is_req_def sm_target_def)
  let ?ds = "[(512, demo_pkt 3), (512, demo_pkt 4)]"
  have dl: "delivered ?ds = [demo_pkt 3, demo_pkt 4]" by (simp add: delivered_def p)
  have arr: "nx_reg_hooks_arr demo_nx ! 3 = Some 100" "nx_reg_hooks_arr demo_nx ! 4 = None" by (simp_all add: demo_nx_def)
  obtain n' where "sm_thread_func 512 (map (Pair False) ?ds @ [(True, (0, demo_pkt 0))]) demo_nx = Inr n'"
      and q: "\<forall>i h. i < 254 + 1 \<longrightarrow> nx_reg_hooks_arr demo_nx ! i = Some h \<longrightarrow>
       mtq (hk_sm_rx_queue (nx_hooks n' h)) = mtq (hk_sm_rx_queue (nx_hooks demo_nx h)) @
         map (SmWork (of_nat i)) (filter (\<lambda>p. unat (sm_target p) = i) (delivered ?ds))"
      and u: "nx_udp_sent n' = nx_udp_sent demo_nx @ map reject (filter (rejected demo_nx) (delivered ?ds))"
    using sm_thread_routes [OF demo_nx_inv, of ?ds 512 "(0, demo_pkt 0)"] by (auto simp: datagram_ok_def p)
  moreover have "mtq (hk_sm_rx_queue (nx_hooks n' 100)) = [SmWork 3 (demo_pkt 3)]"
    using q [rule_format, of 3 100] arr by (simp add: dl p demo_nx_def Hook_init_def MtQueue_init_def)
  moreover have "nx_udp_sent n' = [reject (demo_pkt 4)]"
    using u arr by (simp add: dl rejected_def p) (simp add: demo_nx_def)
  ultimately show ?thesis by blast
qed

theorem req_funcs_frozen_witness:
  "\<exists>n'. register_req_func 7 (Some 5) kForeground demo_nx = Inr (- 1, n') \<and> nx_req_func_arr n' = nx_req_func_arr demo_nx"
proof -
  have run: "register_req_func 7 (Some 5) kForeground demo_nx = Inr (- 1, demo_nx)" by (simp add: register_req_func_def demo_nx_def)
  have "nstep\<^sup>*\<^sup>* demo_nx demo_nx" using func [OF run] by blast
  then show ?thesis using req_funcs_frozen [OF demo_nx_inv, of demo_nx] run by (auto simp: demo_nx_def)
qed

text \<open>
  Three facts of the code as it is: a packet for the invalid identifier 255, such as a heartbeat, makes the
  management thread read behind the array of hooks; a handler can be registered for the type that means
  \<open>kInvalidReqType\<close>; and on a node with fewer cores than the average the log line of the constructor throws
  although \<open>bind_to_core\<close> is written to tolerate it.
\<close>

lemma invalid_rpc_id_overruns: "sm_thread_one 512 (512, demo_pkt 255) demo_nx = Inl OutOfRange"
  by (simp add: sm_thread_one_def demo_pkt_def sp_is_req_def demo_nx_def rangeE_def)

lemma invalid_req_type_registered:
  "nx_registration_allowed n \<Longrightarrow> \<not> is_registered (nx_req_func_arr n ! 255) \<Longrightarrow>
   register_req_func 255 (Some f) kForeground n = Inr (0, n\<lparr>nx_req_func_arr := (nx_req_func_arr n)[255 := \<lparr>rf_func = Some f, rf_type = kForeground\<rparr>]\<rparr>)"
  by (simp add: register_req_func_def ReqFunc_make_def)

lemma uneven_cores_throw:
  "Nexus_init \<lparr>numa_num_configured_cpus = 4, numa_num_configured_nodes = 2, numa_max_node = 1, numa_node_of_cpu = (\<lambda>i. if i = 0 then 0 else 1), setaffinity_ok = (\<lambda>_. True)\<rparr>
     (Inr 2) kForeground kRaw (\<lambda>_. Hook_init 0) ''b:31850'' 0 0 = Inl RuntimeError \<and>
   bind_to_core \<lparr>numa_num_configured_cpus = 4, numa_num_configured_nodes = 2, numa_max_node = 1, numa_node_of_cpu = (\<lambda>i. if i = 0 then 0 else 1), setaffinity_ok = (\<lambda>_. True)\<rparr> 0 1 = Inr ()"
proof -
  have "extract_hostname_from_uri ''b:31850'' = Inr ''b''" "extract_udp_port_from_uri ''b:31850'' = Inr 31850"
    using demo_uri by (auto simp: split_uri_def extract_hostname_from_uri_def extract_udp_port_from_uri_def res_Inr)
  then show ?thesis
    by (simp add: upt_4 Nexus_init_def bind_to_core_def get_lcores_for_numa_node_def num_lcores_per_numa_node_def forE_def Let_def rt_assert_def)
qed

end
