(* ===== verification/Coro_Scheduler.thy ===== *)
theory Coro_Scheduler
  imports Erpc_Prelude
begin

section \<open>The coroutine scheduler (\<open>core/scheduler\<close>)\<close>

text \<open>
  The scheduler of the coroutines of a transaction thread. Coroutines live in an array and are linked
  by pointers into a ring of yield-able coroutines; a coroutine that waits for completions of its
  RDMA operations leaves the ring and comes back when its last completion has been polled. Pointers
  into the array are integers, so that \<open>coro_array + i - 1\<close> exists for \<open>i = 0\<close>; a dereference outside
  the array is \<open>OutOfRange\<close>.

  The queue pairs and their operations belong to the RDMA library: what \<open>post_send\<close>, \<open>post_batch\<close>,
  \<open>post_cas\<close> and \<open>poll_till_completion\<close> return is an argument, and so is the sequence of answers of
  \<open>poll_send_completion\<close>. Control transfers (\<open>yield(coro->func)\<close>) are recorded in \<open>run_log\<close>.
\<close>

record coroutine =
  is_wait_poll :: bool
  prev_coro :: int
  next_coro :: int

datatype rdma_post =
    PostBatch "nat list"
  | PostWrite nat nat nat nat
  | PostWriteMr nat nat nat nat nat nat
  | PostRead nat nat nat nat
  | PostCas nat nat u64 u64 nat

record coro_sched =
  coro_array :: "coroutine list"
  coro_head :: int
  coro_tail :: int
  pending_qps :: "nat list"
  pending_counts :: "int list"
  posted :: "(nat \<times> rdma_post) list"
  run_log :: "int list"

datatype wc_status = WcSuccess | WcRetryExcErr | WcOtherErr

datatype poll_answer = PollNothing | PollWc wc_status nat

text \<open>The constructor; the links of a new coroutine are indeterminate (the argument \<open>junk\<close>).\<close>

definition coro_sched_init :: "int \<Rightarrow> nat \<Rightarrow> coro_sched" where
  "coro_sched_init junk coro_num =
    \<lparr>coro_array = replicate coro_num \<lparr>is_wait_poll = False, prev_coro = junk, next_coro = junk\<rparr>,
     coro_head = junk, coro_tail = junk, pending_qps = [], pending_counts = replicate coro_num 0, posted = [], run_log = []\<rparr>"

definition get_coro :: "int \<Rightarrow> coro_sched \<Rightarrow> coroutine res" where
  "get_coro p s = rangeE (0 \<le> p \<and> nat p < length (coro_array s)) (Inr (coro_array s ! nat p))"

definition set_coro :: "int \<Rightarrow> (coroutine \<Rightarrow> coroutine) \<Rightarrow> coro_sched \<Rightarrow> coro_sched res" where
  "set_coro p f s = rangeE (0 \<le> p \<and> nat p < length (coro_array s))
    (Inr (s\<lparr>coro_array := (coro_array s)[nat p := f (coro_array s ! nat p)]\<rparr>))"

subsection \<open>Posting\<close>

definition AddPendingQP :: "nat \<Rightarrow> nat \<Rightarrow> coro_sched \<Rightarrow> coro_sched res" where
  "AddPendingQP coro_id qp s = rangeE (coro_id < length (pending_counts s))
    (Inr (s\<lparr>pending_qps := pending_qps s @ [qp],
            pending_counts := (pending_counts s)[coro_id := pending_counts s ! coro_id + 1]\<rparr>))"

text \<open>
  The asynchronous operations. \<open>post qp op\<close> says whether posting the operation returned \<open>SUCC\<close>; the last
  component of an operation is the identifier the completion will carry (a batch carries it in the work
  request at the index of the doorbell).
\<close>

definition post_async :: "(nat \<Rightarrow> rdma_post \<Rightarrow> bool) \<Rightarrow> nat \<Rightarrow> nat \<Rightarrow> rdma_post \<Rightarrow> coro_sched \<Rightarrow> (bool \<times> coro_sched) res" where
  "post_async post coro_id qp op s =
    (if \<not> post qp op then Inr (False, s)
     else bindE (AddPendingQP coro_id qp (s\<lparr>posted := posted s @ [(qp, op)]\<rparr>)) (\<lambda>s1. Inr (True, s1)))"

definition RDMABatch :: "(nat \<Rightarrow> rdma_post \<Rightarrow> bool) \<Rightarrow> nat \<Rightarrow> nat \<Rightarrow> nat list \<Rightarrow> nat \<Rightarrow> coro_sched \<Rightarrow> (bool \<times> coro_sched) res" where
  "RDMABatch post coro_id qp send_sr doorbell_num s = rangeE (doorbell_num < length send_sr)
    (post_async post coro_id qp (PostBatch (send_sr[doorbell_num := coro_id])) s)"

definition RDMAWrite :: "(nat \<Rightarrow> rdma_post \<Rightarrow> bool) \<Rightarrow> nat \<Rightarrow> nat \<Rightarrow> nat \<Rightarrow> nat \<Rightarrow> nat \<Rightarrow> coro_sched \<Rightarrow> (bool \<times> coro_sched) res" where
  "RDMAWrite post coro_id qp wt_data remote_offset sz s = post_async post coro_id qp (PostWrite wt_data sz remote_offset coro_id) s"

definition RDMAWrite_mr :: "(nat \<Rightarrow> rdma_post \<Rightarrow> bool) \<Rightarrow> nat \<Rightarrow> nat \<Rightarrow> nat \<Rightarrow> nat \<Rightarrow> nat \<Rightarrow> nat \<Rightarrow> nat \<Rightarrow> coro_sched \<Rightarrow> (bool \<times> coro_sched) res" where
  "RDMAWrite_mr post coro_id qp wt_data remote_offset sz local_mr remote_mr s = post_async post coro_id qp (PostWriteMr local_mr remote_mr wt_data sz remote_offset coro_id) s"

definition RDMARead :: "(nat \<Rightarrow> rdma_post \<Rightarrow> bool) \<Rightarrow> nat \<Rightarrow> nat \<Rightarrow> nat \<Rightarrow> nat \<Rightarrow> nat \<Rightarrow> coro_sched \<Rightarrow> (bool \<times> coro_sched) res" where
  "RDMARead post coro_id qp rd_data remote_offset sz s = post_async post coro_id qp (PostRead rd_data sz remote_offset coro_id) s"

definition RDMACAS :: "(nat \<Rightarrow> rdma_post \<Rightarrow> bool) \<Rightarrow> nat \<Rightarrow> nat \<Rightarrow> nat \<Rightarrow> nat \<Rightarrow> u64 \<Rightarrow> u64 \<Rightarrow> coro_sched \<Rightarrow> (bool \<times> coro_sched) res" where
  "RDMACAS post coro_id qp local_buf remote_offset compare swap s = post_async post coro_id qp (PostCas local_buf remote_offset compare swap coro_id) s"

text \<open>
  The synchronous operations wait for a completion of the queue pair (\<open>poll_till qp\<close> says whether that
  returned \<open>SUCC\<close>) and add nothing to the pending counts.
\<close>

definition RDMABatchSync :: "(nat \<Rightarrow> rdma_post \<Rightarrow> bool) \<Rightarrow> (nat \<Rightarrow> bool) \<Rightarrow> nat \<Rightarrow> nat \<Rightarrow> nat list \<Rightarrow> nat \<Rightarrow> coro_sched \<Rightarrow> (bool \<times> coro_sched) res" where
  "RDMABatchSync post poll_till coro_id qp send_sr doorbell_num s = rangeE (doorbell_num < length send_sr)
    (if \<not> post qp (PostBatch (send_sr[doorbell_num := coro_id])) then Inr (False, s)
     else (let s1 = s\<lparr>posted := posted s @ [(qp, PostBatch (send_sr[doorbell_num := coro_id]))]\<rparr>
           in if \<not> poll_till qp then Inr (False, s1) else Inr (True, s1)))"

definition RDMAReadSync :: "(nat \<Rightarrow> rdma_post \<Rightarrow> bool) \<Rightarrow> (nat \<Rightarrow> bool) \<Rightarrow> nat \<Rightarrow> nat \<Rightarrow> nat \<Rightarrow> nat \<Rightarrow> nat \<Rightarrow> coro_sched \<Rightarrow> bool \<times> coro_sched" where
  "RDMAReadSync post poll_till coro_id qp rd_data remote_offset sz s =
    (if \<not> post qp (PostRead rd_data sz remote_offset coro_id) then (False, s)
     else (let s1 = s\<lparr>posted := posted s @ [(qp, PostRead rd_data sz remote_offset coro_id)]\<rparr>
           in if \<not> poll_till qp then (False, s1) else (True, s1)))"

subsection \<open>The ring\<close>

definition LoopLinkCoroutine :: "nat \<Rightarrow> coro_sched \<Rightarrow> coro_sched res" where
  "LoopLinkCoroutine coro_num s =
    bindE (forE coro_num (\<lambda>i. set_coro (int i) (\<lambda>c. c\<lparr>prev_coro := int i - 1, next_coro := int i + 1\<rparr>)) s) (\<lambda>s1.
      let s2 = s1\<lparr>coro_head := 0, coro_tail := int coro_num - 1\<rparr>
      in bindE (set_coro 0 (\<lambda>c. c\<lparr>prev_coro := coro_tail s2\<rparr>) s2)
           (set_coro (int coro_num - 1) (\<lambda>c. c\<lparr>next_coro := coro_head s2\<rparr>)))"

definition RunCoroutine :: "int \<Rightarrow> coro_sched \<Rightarrow> coro_sched res" where
  "RunCoroutine coro s = bindE (set_coro coro (\<lambda>c. c\<lparr>is_wait_poll := False\<rparr>) s) (\<lambda>s1.
    Inr (s1\<lparr>run_log := run_log s1 @ [coro]\<rparr>))"

definition Yield :: "nat \<Rightarrow> coro_sched \<Rightarrow> coro_sched res" where
  "Yield cid s = rangeE (cid < length (pending_counts s))
    (if pending_counts s ! cid = 0 then Inr s
     else bindE (get_coro (int cid) s) (\<lambda>coro. assertE (\<not> is_wait_poll coro)
       (let nxt = next_coro coro
        in bindE (set_coro (prev_coro coro) (\<lambda>c. c\<lparr>next_coro := nxt\<rparr>) s) (\<lambda>s1.
           bindE (get_coro (int cid) s1) (\<lambda>coro1.
           bindE (set_coro nxt (\<lambda>c. c\<lparr>prev_coro := prev_coro coro1\<rparr>) s1) (\<lambda>s2.
           bindE (get_coro (int cid) s2) (\<lambda>coro2.
             let s3 = (if coro_tail s2 = int cid then s2\<lparr>coro_tail := prev_coro coro2\<rparr> else s2)
             in bindE (set_coro (int cid) (\<lambda>c. c\<lparr>is_wait_poll := True\<rparr>) s3) (RunCoroutine nxt))))))))"

definition AppendCoroutine :: "nat \<Rightarrow> coro_sched \<Rightarrow> coro_sched res" where
  "AppendCoroutine coro s = bindE (get_coro (int coro) s) (\<lambda>c.
    if \<not> is_wait_poll c then Inr s
    else (let prev = coro_tail s
          in bindE (set_coro prev (\<lambda>c. c\<lparr>next_coro := int coro\<rparr>) s) (\<lambda>s1.
             let s2 = s1\<lparr>coro_tail := int coro\<rparr>
             in bindE (set_coro (coro_tail s2) (\<lambda>c. c\<lparr>next_coro := coro_head s2\<rparr>) s2) (\<lambda>s3.
                set_coro (coro_tail s3) (\<lambda>c. c\<lparr>prev_coro := prev\<rparr>) s3))))"

subsection \<open>Polling\<close>

text \<open>A completion of coroutine \<open>id\<close> has been polled.\<close>

definition complete_one :: "nat \<Rightarrow> coro_sched \<Rightarrow> coro_sched res" where
  "complete_one coro_id s = rangeE (coro_id < length (pending_counts s))
    (assertE (0 < pending_counts s ! coro_id)
      (let s1 = s\<lparr>pending_counts := (pending_counts s)[coro_id := pending_counts s ! coro_id - 1]\<rparr>
       in if pending_counts s1 ! coro_id = 0 then AppendCoroutine coro_id s1 else Inr s1))"

text \<open>
  The loop over the list of pending queue pairs: \<open>before\<close> are the entries the iterator has passed. Each
  iteration takes one answer of \<open>poll_send_completion\<close>; when the answers run out, the loop is still
  running. After a completion of coroutine 0 the iterator stays where it is.
\<close>

fun poll_loop :: "poll_answer list \<Rightarrow> nat list \<Rightarrow> nat list \<Rightarrow> coro_sched \<Rightarrow> coro_sched res" where
  "poll_loop answers before [] s = Inr (s\<lparr>pending_qps := before\<rparr>)"
| "poll_loop [] before (qp # qps) s = Inl NoReturn"
| "poll_loop (PollNothing # answers) before (qp # qps) s = poll_loop answers (before @ [qp]) qps s"
| "poll_loop (PollWc WcOtherErr coro_id # answers) before (qp # qps) s = Inl ExitProcess"
| "poll_loop (PollWc WcRetryExcErr coro_id # answers) before (qp # qps) s = poll_loop answers (before @ [qp]) qps s"
| "poll_loop (PollWc WcSuccess coro_id # answers) before (qp # qps) s =
    (if coro_id = 0 then poll_loop answers before (qp # qps) s
     else bindE (complete_one coro_id s) (poll_loop answers before qps))"

definition PollCompletion :: "poll_answer list \<Rightarrow> coro_sched \<Rightarrow> coro_sched res" where
  "PollCompletion answers s = poll_loop answers [] (pending_qps s) s"

subsection \<open>The ring of yield-able coroutines\<close>

text \<open>
  The abstract view of the pointers is the list \<open>xs\<close> of the yield-able coroutines in scheduling order,
  coroutine 0 (the poller) first. \<open>chain nx pv xs\<close>: neighbours of \<open>xs\<close> are linked in both directions.
  The \<open>prev_coro\<close> pointer of the head is not part of the abstraction: \<open>AppendCoroutine\<close> does not
  maintain it, and no operation reads it as long as coroutine 0 does not yield.
\<close>

fun chain :: "(nat \<Rightarrow> int) \<Rightarrow> (nat \<Rightarrow> int) \<Rightarrow> nat list \<Rightarrow> bool" where
  "chain nx pv [] = True"
| "chain nx pv [a] = True"
| "chain nx pv (a # b # xs) = (nx a = int b \<and> pv b = int a \<and> chain nx pv (b # xs))"

lemma chain_append:
  "chain nx pv (xs @ y # ys) \<longleftrightarrow> chain nx pv (xs @ [y]) \<and> chain nx pv (y # ys)"
  by (induction nx pv xs rule: chain.induct) auto

lemma chain_cong:
  "(\<And>c. c \<in> set (butlast xs) \<Longrightarrow> nx c = nx' c) \<Longrightarrow> (\<And>c. c \<in> set (tl xs) \<Longrightarrow> pv c = pv' c) \<Longrightarrow>
   chain nx pv xs = chain nx' pv' xs"
  by (induction nx pv xs rule: chain.induct) auto

abbreviation (input) nx :: "coro_sched \<Rightarrow> nat \<Rightarrow> int" where
  "nx s c \<equiv> next_coro (coro_array s ! c)"

abbreviation (input) pv :: "coro_sched \<Rightarrow> nat \<Rightarrow> int" where
  "pv s c \<equiv> prev_coro (coro_array s ! c)"

abbreviation (input) waits :: "coro_sched \<Rightarrow> nat \<Rightarrow> bool" where
  "waits s c \<equiv> is_wait_poll (coro_array s ! c)"

definition ring :: "coro_sched \<Rightarrow> nat list \<Rightarrow> bool" where
  "ring s xs \<longleftrightarrow> xs \<noteq> [] \<and> distinct xs \<and> set xs \<subseteq> {..<length (coro_array s)} \<and> hd xs = 0 \<and>
     coro_head s = 0 \<and> coro_tail s = int (last xs) \<and> chain (nx s) (pv s) xs \<and> nx s (last xs) = 0"

definition counts_ok :: "coro_sched \<Rightarrow> nat list \<Rightarrow> bool" where
  "counts_ok s xs \<longleftrightarrow> length (pending_counts s) = length (coro_array s) \<and> (\<forall>n \<in> set (pending_counts s). 0 \<le> n) \<and>
     (\<forall>c < length (coro_array s). c \<notin> set xs \<longrightarrow> waits s c \<and> 0 < pending_counts s ! c) \<and>
     (\<forall>c < length (coro_array s). c \<in> set xs \<and> waits s c \<longrightarrow> pending_counts s ! c = 0)"

definition sched_inv :: "coro_sched \<Rightarrow> nat list \<Rightarrow> bool" where
  "sched_inv s xs \<longleftrightarrow> ring s xs \<and> counts_ok s xs \<and> int (length (pending_qps s)) = sum_list (pending_counts s)"

lemma set_coro_ok: "c < length (coro_array s) \<Longrightarrow>
   set_coro (int c) f s = Inr (s\<lparr>coro_array := (coro_array s)[c := f (coro_array s ! c)]\<rparr>)"
  by (simp add: set_coro_def)

lemma get_coro_ok: "c < length (coro_array s) \<Longrightarrow> get_coro (int c) s = Inr (coro_array s ! c)"
  by (simp add: get_coro_def)

lemma set_coro_cong_ring:
  assumes "ring s xs" and "\<And>c. next_coro (f c) = next_coro c" "\<And>c. prev_coro (f c) = prev_coro c"
  shows "ring (s\<lparr>coro_array := (coro_array s)[k := f (coro_array s ! k)]\<rparr>) xs"
proof -
  have eq: "next_coro ((coro_array s)[k := f (coro_array s ! k)] ! c) = nx s c \<and>
    prev_coro ((coro_array s)[k := f (coro_array s ! k)] ! c) = pv s c" for c
    by (cases "k < length (coro_array s)"; cases "k = c"; simp add: assms(2,3) list_update_beyond)
  show ?thesis using assms(1) by (simp add: ring_def eq)
qed

lemma counts_okD:
  assumes "counts_ok s xs" "c < length (coro_array s)"
  shows "c \<notin> set xs \<Longrightarrow> waits s c" "c \<notin> set xs \<Longrightarrow> 0 < pending_counts s ! c"
    "c \<in> set xs \<Longrightarrow> waits s c \<Longrightarrow> pending_counts s ! c = 0"
  using assms unfolding counts_ok_def by blast+

lemma pending_nonneg: "counts_ok s xs \<Longrightarrow> c < length (coro_array s) \<Longrightarrow> 0 \<le> pending_counts s ! c"
  by (simp add: counts_ok_def)

text \<open>Unlinking an inner coroutine, and linking one behind the tail.\<close>

lemma chain_upd_outside:
  "chain nf pf xs \<Longrightarrow> a \<notin> set (butlast xs) \<Longrightarrow> b \<notin> set (tl xs) \<Longrightarrow> chain (nf(a := x)) (pf(b := y)) xs"
  by (subst chain_cong [of xs _ nf _ pf]) auto

lemma chain_join:
  "chain nf pf (xs @ y # z # zs) \<longleftrightarrow> chain nf pf (xs @ [y]) \<and> nf y = int z \<and> pf z = int y \<and> chain nf pf (z # zs)"
  by (subst chain_append) simp

lemma chain_unlink:
  assumes "chain nf pf (ys @ p # c # d # zs)" "distinct (ys @ p # c # d # zs)"
  shows "chain (nf(p := int d)) (pf(d := int p)) (ys @ p # d # zs)"
proof -
  have "chain nf pf (ys @ [p])" "chain nf pf (d # zs)"
    using assms(1) by (auto simp: chain_join)
  then have "chain (nf(p := int d)) (pf(d := int p)) (ys @ [p])" "chain (nf(p := int d)) (pf(d := int p)) (d # zs)"
    using assms(2) by (auto intro!: chain_upd_outside simp: butlast_append tl_append dest: in_set_butlastD split: list.splits)
  then show ?thesis by (simp add: chain_join)
qed

lemma chain_link:
  assumes "chain nf pf (ys @ [p])" "distinct (ys @ [p])" "c \<notin> set (ys @ [p])"
  shows "chain (nf(p := int c, c := x)) (pf(c := int p)) (ys @ [p, c])"
proof -
  have "chain nf' pf' (ys @ [p]) \<longleftrightarrow> chain nf pf (ys @ [p])"
    if "\<And>a. a \<noteq> p \<Longrightarrow> a \<noteq> c \<Longrightarrow> nf' a = nf a" "\<And>a. a \<noteq> c \<Longrightarrow> pf' a = pf a" for nf' pf'
    using assms(2,3) by (intro chain_cong that) (auto simp: butlast_append tl_append split: list.splits)
  from this [of "nf(p := int c, c := x)" "pf(c := int p)"] assms show ?thesis by (simp add: chain_join)
qed

lemma in_ring_split:
  assumes "c \<in> set xs" "c \<noteq> hd xs"
  obtains ys p zs where "xs = ys @ p # c # zs"
proof -
  obtain us zs where "xs = us @ c # zs" using assms(1) by (meson split_list)
  with assms(2) that show ?thesis by (cases us rule: rev_cases) auto
qed

text \<open>
  What \<open>Yield\<close> does to the pointers when the yielding coroutine \<open>c\<close> has pending operations: \<open>p\<close> is its
  predecessor and \<open>d\<close> its successor in the ring.
\<close>

definition yielded :: "nat \<Rightarrow> nat \<Rightarrow> nat \<Rightarrow> coro_sched \<Rightarrow> coro_sched \<Rightarrow> bool" where
  "yielded p c d s s' \<longleftrightarrow> length (coro_array s') = length (coro_array s) \<and>
     (\<forall>k < length (coro_array s). nx s' k = ((nx s)(p := int d)) k \<and> pv s' k = ((pv s)(d := int p)) k \<and>
        waits s' k = ((waits s)(c := True, d := False)) k) \<and>
     coro_head s' = coro_head s \<and> coro_tail s' = (if coro_tail s = int c then int p else coro_tail s) \<and>
     pending_qps s' = pending_qps s \<and> pending_counts s' = pending_counts s \<and> run_log s' = run_log s @ [int d]"

lemma Yield_yielded:
  assumes "c < length (coro_array s)" "c < length (pending_counts s)" "pending_counts s ! c \<noteq> 0" "\<not> waits s c"
    and "nx s c = int d" "pv s c = int p" "p < length (coro_array s)" "d < length (coro_array s)" "p \<noteq> c" "d \<noteq> c"
  shows "holds (yielded p c d s) (Yield c s)"
  using assms by (auto simp: Yield_def get_coro_ok set_coro_ok RunCoroutine_def Let_def yielded_def nth_list_update)

lemma ring_neighbours:
  assumes "ring s (ys @ p # c # zs)"
  shows "pv s c = int p" "nx s c = int (hd (zs @ [0]))"
  using assms by (cases zs; simp add: ring_def chain_join)+

lemma yielded_ring:
  assumes r: "ring s (ys @ p # c # zs)" and y: "yielded p c (hd (zs @ [0])) s s'"
  shows "ring s' (ys @ p # zs)"
proof -
  let ?n = "length (coro_array s)" and ?nf = "(nx s)(p := int (hd (zs @ [0])))" and ?pf = "(pv s)(hd (zs @ [0]) := int p)"
  have sub: "k \<in> set (ys @ p # zs) \<Longrightarrow> k < ?n" for k using r by (auto simp: ring_def)
  have upd: "nx s' k = ?nf k" "pv s' k = ?pf k" if "k < ?n" for k
    using y that unfolding yielded_def by blast+
  have "chain (nx s') (pv s') (ys @ p # zs) \<longleftrightarrow> chain ?nf ?pf (ys @ p # zs)"
    by (intro chain_cong upd sub) (auto dest: in_set_butlastD simp: tl_append split: list.splits)
  moreover have "chain ?nf ?pf (ys @ p # zs)"
  proof (cases zs)
    case Nil
    moreover have "0 \<notin> set (tl (ys @ [p]))"
      using r by (cases ys) (auto simp: ring_def)
    moreover have "chain (nx s) (pv s) (ys @ [p])" using r by (simp add: ring_def chain_join)
    ultimately show ?thesis using r by (auto intro!: chain_upd_outside simp: ring_def butlast_append)
  next
    case (Cons d ds)
    then show ?thesis using r chain_unlink [of "nx s" "pv s" ys p c d ds] by (simp add: ring_def)
  qed
  moreover have "nx s' (last (ys @ p # zs)) = 0"
    using r y by (cases zs rule: rev_cases) (auto simp: ring_def yielded_def)
  moreover have "hd (ys @ p # zs) = 0" using r by (cases ys) (auto simp: ring_def)
  ultimately show ?thesis using r y by (cases zs rule: rev_cases) (auto simp: ring_def yielded_def)
qed

lemma yielded_counts:
  assumes r: "ring s (ys @ p # c # zs)" and k: "counts_ok s (ys @ p # c # zs)" "0 < pending_counts s ! c"
    and y: "yielded p c (hd (zs @ [0])) s s'"
  shows "counts_ok s' (ys @ p # zs)"
proof -
  have d: "hd (zs @ [0]) \<in> set (ys @ p # zs)" "hd (zs @ [0]) \<noteq> c"
    using r by (cases zs; cases ys; auto simp: ring_def)+
  have "\<forall>e < length (coro_array s'). e \<notin> set (ys @ p # zs) \<longrightarrow> waits s' e \<and> 0 < pending_counts s' ! e"
    using k y d by (auto simp: counts_ok_def yielded_def)
  moreover have "\<forall>e < length (coro_array s'). e \<in> set (ys @ p # zs) \<and> waits s' e \<longrightarrow> pending_counts s' ! e = 0"
    using k y d r by (auto simp: counts_ok_def yielded_def ring_def split: if_splits)
  moreover have "length (pending_counts s') = length (coro_array s')" "\<forall>n \<in> set (pending_counts s'). 0 \<le> n"
    using k(1) y by (simp_all add: counts_ok_def yielded_def)
  ultimately show ?thesis unfolding counts_ok_def by blast
qed

lemma ring_cong:
  assumes "ring s xs" "coro_head s' = coro_head s" "coro_tail s' = coro_tail s"
    "length (coro_array s') = length (coro_array s)"
    "\<And>k. k < length (coro_array s) \<Longrightarrow> nx s' k = nx s k \<and> pv s' k = pv s k"
  shows "ring s' xs"
proof -
  have sub: "k \<in> set xs \<Longrightarrow> k < length (coro_array s)" for k using assms(1) by (auto simp: ring_def)
  have "chain (nx s') (pv s') xs = chain (nx s) (pv s) xs"
  proof (intro chain_cong)
    show "nx s' c = nx s c" if "c \<in> set (butlast xs)" for c
      using assms(5) sub in_set_butlastD [OF that] by blast
    show "pv s' c = pv s c" if "c \<in> set (tl xs)" for c
      using assms(5) sub that by (cases xs) auto
  qed
  moreover have "nx s' (last xs) = nx s (last xs)"
    using assms(1,5) sub by (simp add: ring_def)
  ultimately show ?thesis using assms by (simp add: ring_def)
qed

text \<open>A waiting coroutine that is appended becomes the tail.\<close>

lemma AppendCoroutine_ring:
  assumes r: "ring s xs" and c: "c < length (coro_array s)" "c \<notin> set xs" "waits s c"
  shows "holds (\<lambda>s'. ring s' (xs @ [c]) \<and> length (coro_array s') = length (coro_array s) \<and>
    (\<forall>k < length (coro_array s). waits s' k = waits s k) \<and> pending_counts s' = pending_counts s \<and> run_log s' = run_log s) (AppendCoroutine c s)"
proof -
  obtain ys p where xs: "xs = ys @ [p]" using r by (metis ring_def append_butlast_last_id)
  have p: "p < length (coro_array s)" "p \<noteq> c" "coro_tail s = int p" "coro_head s = 0" using r c xs by (auto simp: ring_def)
  let ?A = "((coro_array s)[p := (coro_array s ! p)\<lparr>next_coro := int c\<rparr>])[c := (coro_array s ! c)\<lparr>next_coro := 0, prev_coro := int p\<rparr>]"
  have run: "AppendCoroutine c s = Inr (s\<lparr>coro_tail := int c, coro_array := ?A\<rparr>)"
    using p c by (simp add: AppendCoroutine_def get_coro_ok set_coro_ok Let_def)
  have "chain (\<lambda>k. next_coro (?A ! k)) (\<lambda>k. prev_coro (?A ! k)) (xs @ [c]) \<longleftrightarrow>
        chain ((nx s)(p := int c, c := 0)) ((pv s)(c := int p)) (xs @ [c])"
    using p c r xs by (intro chain_cong) (auto simp: ring_def nth_list_update)
  moreover have "chain ((nx s)(p := int c, c := 0)) ((pv s)(c := int p)) (xs @ [c])"
    using chain_link [of "nx s" "pv s" ys p c] r c xs by (simp add: ring_def)
  ultimately show ?thesis using run r c p xs by (auto simp: ring_def nth_list_update hd_append)
qed

lemma sum_list_dec: "c < length xs \<Longrightarrow> sum_list (xs[c := xs ! c + d]) = sum_list xs + (d :: int)"
  by (induction xs arbitrary: c) (auto split: nat.splits)

text \<open>The completion of an operation of \<open>c\<close>.\<close>

lemma complete_one_ok:
  assumes r: "ring s xs" and k: "counts_ok s xs" and c: "c < length (coro_array s)" "0 < pending_counts s ! c"
  shows "holds (\<lambda>s'. ring s' (if pending_counts s ! c = 1 \<and> c \<notin> set xs then xs @ [c] else xs) \<and>
    counts_ok s' (if pending_counts s ! c = 1 \<and> c \<notin> set xs then xs @ [c] else xs) \<and>
    length (coro_array s') = length (coro_array s) \<and> (\<forall>k < length (coro_array s). waits s' k = waits s k) \<and>
    pending_counts s' = (pending_counts s)[c := pending_counts s ! c - 1] \<and> run_log s' = run_log s) (complete_one c s)"
proof -
  let ?s1 = "s\<lparr>pending_counts := (pending_counts s)[c := pending_counts s ! c - 1]\<rparr>"
  have len: "length (pending_counts s) = length (coro_array s)" using k by (simp add: counts_ok_def)
  have nn: "\<forall>n \<in> set ((pending_counts s)[c := pending_counts s ! c - 1]). 0 \<le> n"
    using k c by (auto simp: counts_ok_def dest!: set_update_subset_insert [THEN subsetD])
  have r1: "ring ?s1 xs" using r by (simp add: ring_def)
  have w: "waits s c \<longleftrightarrow> c \<notin> set xs" using k c by (auto simp: counts_ok_def)
  show ?thesis
  proof (cases "pending_counts s ! c = 1 \<and> c \<notin> set xs")
    case True
    then have "holds (\<lambda>s'. ring s' (xs @ [c]) \<and> length (coro_array s') = length (coro_array s) \<and>
      (\<forall>k < length (coro_array s). waits s' k = waits s k) \<and> pending_counts s' = pending_counts ?s1 \<and> run_log s' = run_log s) (AppendCoroutine c ?s1)"
      using AppendCoroutine_ring [OF r1, of c] c w by simp
    with True show ?thesis using k c len nn
      by (auto simp: complete_one_def counts_ok_def nth_list_update elim!: holds_weaken)
  next
    case False
    then have "complete_one c s = Inr ?s1"
      using w c len by (auto simp: complete_one_def AppendCoroutine_def get_coro_ok Let_def)
    moreover have "counts_ok ?s1 xs"
      unfolding counts_ok_def
    proof (intro conjI allI impI)
      fix e assume e: "e < length (coro_array ?s1)"
      show "waits ?s1 e" if "e \<notin> set xs" using counts_okD(1) [OF k _ that] e by simp
      show "0 < pending_counts ?s1 ! e" if "e \<notin> set xs"
        using counts_okD(2) [OF k _ that] c(2) e len False that by (cases "e = c") auto
      show "pending_counts ?s1 ! e = 0" if "e \<in> set xs \<and> waits ?s1 e"
        using counts_okD(3) [OF k, of e] e w that by (cases "e = c") auto
    qed (use nn len in simp_all)
    ultimately show ?thesis using r1 False by (simp only: holds_Inr if_False) simp
  qed
qed

subsection \<open>What polling does\<close>

text \<open>
  \<open>completed answers c\<close> counts the completions of coroutine \<open>c\<close> among the answers of the queue pairs, and
  \<open>visits answers\<close> the answers that make the iterator move. Answers conform to the outstanding operations
  when none reports a fatal error and no coroutine gets more completions than it has pending operations.
\<close>

definition completed :: "poll_answer list \<Rightarrow> nat \<Rightarrow> nat" where
  "completed answers c = length (filter (\<lambda>a. a = PollWc WcSuccess c) answers)"

definition visits :: "poll_answer list \<Rightarrow> nat" where
  "visits answers = length (filter (\<lambda>a. a \<noteq> PollWc WcSuccess 0) answers)"

definition fatal :: "poll_answer \<Rightarrow> bool" where
  "fatal a = (case a of PollNothing \<Rightarrow> False | PollWc st c \<Rightarrow> st = WcOtherErr)"

definition answers_ok :: "poll_answer list \<Rightarrow> int list \<Rightarrow> bool" where
  "answers_ok answers pend \<longleftrightarrow> (\<forall>a \<in> set answers. \<not> fatal a) \<and>
     (\<forall>c < length pend. c \<noteq> 0 \<longrightarrow> int (completed answers c) \<le> pend ! c) \<and> (\<forall>c \<ge> length pend. c \<noteq> 0 \<longrightarrow> completed answers c = 0)"

lemma completed_Cons: "completed (a # as) c = (if a = PollWc WcSuccess c then Suc (completed as c) else completed as c)"
  by (simp add: completed_def)

lemma completed_Nil: "completed [] c = 0"
  by (simp add: completed_def)

lemma visits_Nil: "visits [] = 0"
  by (simp add: visits_def)

lemma visits_Cons: "visits (a # as) = (if a = PollWc WcSuccess 0 then visits as else Suc (visits as))"
  by (simp add: visits_def)

lemma answers_ok_skip: "answers_ok (a # as) pend \<Longrightarrow> (\<And>c. c \<noteq> 0 \<Longrightarrow> a \<noteq> PollWc WcSuccess c) \<Longrightarrow> answers_ok as pend"
  by (auto simp: answers_ok_def completed_Cons)

lemma answers_ok_complete:
  assumes "answers_ok (PollWc WcSuccess c # as) pend" "c \<noteq> 0"
  shows "c < length pend" "0 < pend ! c" "answers_ok as (pend[c := pend ! c - 1])"
proof -
  show c: "c < length pend"
  proof (rule ccontr)
    assume "\<not> c < length pend"
    with assms have "completed (PollWc WcSuccess c # as) c = 0" unfolding answers_ok_def by auto
    then show False by (simp add: completed_Cons)
  qed
  with assms show "0 < pend ! c" by (force simp: answers_ok_def completed_Cons)
  show "answers_ok as (pend[c := pend ! c - 1])"
    unfolding answers_ok_def
  proof (intro conjI allI impI)
    show "\<forall>a \<in> set as. \<not> fatal a" using assms by (simp add: answers_ok_def)
    fix e :: nat assume e0: "e \<noteq> 0"
    have e: "e < length pend \<Longrightarrow> int (completed (PollWc WcSuccess c # as) e) \<le> pend ! e"
      "length pend \<le> e \<Longrightarrow> completed (PollWc WcSuccess c # as) e = 0"
      using assms e0 unfolding answers_ok_def by blast+
    show "int (completed as e) \<le> pend[c := pend ! c - 1] ! e" if "e < length (pend[c := pend ! c - 1])"
      using e(1) that by (cases "e = c") (auto simp: completed_Cons)
    show "completed as e = 0" if "length (pend[c := pend ! c - 1]) \<le> e"
      using e(2) that c by (auto simp: completed_Cons split: if_splits)
  qed
qed

definition polled :: "poll_answer list \<Rightarrow> nat list \<Rightarrow> nat list \<Rightarrow> coro_sched \<Rightarrow> coro_sched \<Rightarrow> bool" where
  "polled answers xs ws s s' \<longleftrightarrow> sched_inv s' (xs @ ws) \<and> length (coro_array s') = length (coro_array s) \<and>
     (\<forall>c < length (coro_array s). c \<noteq> 0 \<longrightarrow> pending_counts s' ! c = pending_counts s ! c - int (completed answers c)) \<and>
     (\<forall>c < length (coro_array s). waits s' c = waits s c) \<and>
     set ws = {c. c < length (coro_array s) \<and> c \<notin> set xs \<and> pending_counts s' ! c = 0} \<and> run_log s' = run_log s"

lemma polled_skip: "(\<And>c. c \<noteq> 0 \<Longrightarrow> a \<noteq> PollWc WcSuccess c) \<Longrightarrow> polled (a # as) xs ws s = polled as xs ws s"
  by (rule ext) (simp add: polled_def completed_Cons cong: conj_cong)

lemma polled_complete:
  assumes p: "polled as xs' ws s1 s'" and c: "c < length (coro_array s)" "c \<noteq> 0" "length (pending_counts s) = length (coro_array s)"
    and s1: "length (coro_array s1) = length (coro_array s)" "\<forall>k < length (coro_array s). waits s1 k = waits s k"
      "pending_counts s1 = (pending_counts s)[c := pending_counts s ! c - 1]" "run_log s1 = run_log s"
    and xs': "xs' = (if pending_counts s ! c = 1 \<and> c \<notin> set xs then xs @ [c] else xs)"
  shows "polled (PollWc WcSuccess c # as) xs (drop (length xs) xs' @ ws) s s'"
proof -
  have app: "xs' @ ws = xs @ drop (length xs) xs' @ ws" by (simp add: xs')
  have cnt: "\<forall>e < length (coro_array s). e \<noteq> 0 \<longrightarrow> pending_counts s' ! e = pending_counts s ! e - int (completed (PollWc WcSuccess c # as) e)"
    using p c s1 by (auto simp: polled_def completed_Cons nth_list_update)
  have "0 \<le> pending_counts s' ! c"
    using p c(1) s1(1) pending_nonneg [of s' "xs' @ ws" c] by (simp add: polled_def sched_inv_def)
  with cnt c have "pending_counts s' ! c = 0" if "pending_counts s ! c = 1"
    using that by (auto simp: completed_Cons)
  then have "set (drop (length xs) xs' @ ws) = {e. e < length (coro_array s) \<and> e \<notin> set xs \<and> pending_counts s' ! e = 0}"
    using p s1(1) c(1) by (auto simp: polled_def xs')
  with p cnt s1 app show ?thesis by (simp add: polled_def)
qed

lemma poll_loop_polled:
  assumes "ring s xs" "counts_ok s xs" "int (length (before @ qps)) = sum_list (pending_counts s)"
    "answers_ok answers (pending_counts s)" "visits answers = length qps"
  shows "\<exists>ws. holds (polled answers xs ws s) (poll_loop answers before qps s)"
  using assms
proof (induction answers before qps s arbitrary: xs rule: poll_loop.induct)
  case (1 answers before s)
  then have "completed answers c = 0" if "c \<noteq> 0" for c
    using that by (auto simp: visits_def completed_def filter_empty_conv)
  moreover have "{c. c < length (coro_array s) \<and> c \<notin> set xs \<and> pending_counts s ! c = 0} = {}"
    using counts_okD(2) [OF 1(2)] by force
  ultimately have "polled answers xs [] s (s\<lparr>pending_qps := before\<rparr>)"
    using 1 by (simp add: polled_def sched_inv_def ring_def counts_ok_def)
  then show ?case by auto
next
  case (6 coro_id answers before qp qps s)
  show ?case
  proof (cases "coro_id = 0")
    case True
    with 6(3-) have "answers_ok answers (pending_counts s)" "visits answers = length (qp # qps)"
      by (auto simp: visits_Cons elim: answers_ok_skip)
    from 6(1) [OF True 6(3-5) this] show ?thesis using True by (simp add: polled_skip)
  next
    case False
    have len: "length (pending_counts s) = length (coro_array s)" using 6(4) by (simp add: counts_ok_def)
    note c = answers_ok_complete [OF 6(6) False, unfolded len]
    let ?xs = "if pending_counts s ! coro_id = 1 \<and> coro_id \<notin> set xs then xs @ [coro_id] else xs"
    obtain s1 where s1: "complete_one coro_id s = Inr s1" "ring s1 ?xs" "counts_ok s1 ?xs"
        "length (coro_array s1) = length (coro_array s)" "\<forall>k < length (coro_array s). waits s1 k = waits s k"
        "pending_counts s1 = (pending_counts s)[coro_id := pending_counts s ! coro_id - 1]" "run_log s1 = run_log s"
      using complete_one_ok [OF 6(3,4) c(1,2)] by (auto simp: holds_iff)
    have "int (length (before @ qps)) = sum_list (pending_counts s1)"
      using 6(5) c(1) len sum_list_dec [of coro_id "pending_counts s" "- 1"] by (simp add: s1)
    moreover have "answers_ok answers (pending_counts s1)" using c(3) by (simp add: s1)
    moreover have "visits answers = length qps" using 6(7) False by (simp add: visits_Cons)
    ultimately obtain ws s' where "poll_loop answers before qps s1 = Inr s'" "polled answers ?xs ws s1 s'"
      using 6(2) [OF False s1(1-3)] by (auto simp: holds_iff)
    moreover have "polled (PollWc WcSuccess coro_id # answers) xs (drop (length xs) ?xs @ ws) s s'"
      by (rule polled_complete [OF calculation(2) c(1) False len s1(4-7) refl])
    ultimately show ?thesis using False by (auto simp: s1(1))
  qed
qed (auto simp: polled_skip visits_Nil visits_Cons answers_ok_def fatal_def completed_Cons)

subsection \<open>The scheduler as a state machine\<close>

text \<open>
  \<open>follow k s\<close> is the coroutine \<open>k\<close> links behind the head: the coroutines that the poller can start.
  The steps: a running coroutine posts an operation; a running coroutine other than the poller yields;
  the poller starts a coroutine of the ring; the poller polls, with answers that conform to the
  outstanding operations and do not run out.
\<close>

primrec follow :: "nat \<Rightarrow> coro_sched \<Rightarrow> int" where
  "follow 0 s = coro_head s"
| "follow (Suc k) s = nx s (nat (follow k s))"

inductive sched_step :: "coro_sched \<Rightarrow> coro_sched \<Rightarrow> bool" where
  op_batch: "c < length (coro_array s) \<Longrightarrow> \<not> waits s c \<Longrightarrow> RDMABatch post c qp send_sr doorbell_num s = Inr (r, s') \<Longrightarrow> sched_step s s'"
| op_batch_sync: "c < length (coro_array s) \<Longrightarrow> \<not> waits s c \<Longrightarrow> RDMABatchSync post poll_till c qp send_sr doorbell_num s = Inr (r, s') \<Longrightarrow> sched_step s s'"
| op_write: "c < length (coro_array s) \<Longrightarrow> \<not> waits s c \<Longrightarrow> RDMAWrite post c qp wt_data remote_offset sz s = Inr (r, s') \<Longrightarrow> sched_step s s'"
| op_write_mr: "c < length (coro_array s) \<Longrightarrow> \<not> waits s c \<Longrightarrow> RDMAWrite_mr post c qp wt_data remote_offset sz local_mr remote_mr s = Inr (r, s') \<Longrightarrow> sched_step s s'"
| op_read: "c < length (coro_array s) \<Longrightarrow> \<not> waits s c \<Longrightarrow> RDMARead post c qp rd_data remote_offset sz s = Inr (r, s') \<Longrightarrow> sched_step s s'"
| op_read_sync: "c < length (coro_array s) \<Longrightarrow> \<not> waits s c \<Longrightarrow> RDMAReadSync post poll_till c qp rd_data remote_offset sz s = (r, s') \<Longrightarrow> sched_step s s'"
| op_cas: "c < length (coro_array s) \<Longrightarrow> \<not> waits s c \<Longrightarrow> RDMACAS post c qp local_buf remote_offset compare swap s = Inr (r, s') \<Longrightarrow> sched_step s s'"
| op_yield: "c < length (coro_array s) \<Longrightarrow> \<not> waits s c \<Longrightarrow> c \<noteq> 0 \<Longrightarrow> Yield c s = Inr s' \<Longrightarrow> sched_step s s'"
| op_run: "RunCoroutine (follow k s) s = Inr s' \<Longrightarrow> sched_step s s'"
| op_poll: "answers_ok answers (pending_counts s) \<Longrightarrow> visits answers = length (pending_qps s) \<Longrightarrow> PollCompletion answers s = Inr s' \<Longrightarrow> sched_step s s'"

lemma chain_succ: "chain nf pf xs \<Longrightarrow> c \<in> set (butlast xs) \<Longrightarrow> \<exists>d \<in> set xs. nf c = int d"
  by (induction nf pf xs rule: chain.induct) auto

lemma ring_succ: "ring s xs \<Longrightarrow> c \<in> set xs \<Longrightarrow> \<exists>d \<in> set xs. nx s c = int d"
proof -
  assume r: "ring s xs" and c: "c \<in> set xs"
  have "c \<in> set (butlast xs) \<or> c = last xs" using c by (cases xs rule: rev_cases) auto
  then show ?thesis using r chain_succ [of "nx s" "pv s" xs c] by (cases xs) (auto simp: ring_def)
qed

lemma follow_in_ring: "ring s xs \<Longrightarrow> \<exists>c \<in> set xs. follow k s = int c"
proof (induction k)
  case 0
  then show ?case by (cases xs) (auto simp: ring_def)
next
  case (Suc k)
  then obtain c where "c \<in> set xs" "follow k s = int c" by blast
  with ring_succ [OF Suc.prems] show ?case by auto
qed

lemma post_async_inv:
  assumes "sched_inv s xs" "c < length (coro_array s)" "\<not> waits s c" "post_async post c qp op s = Inr (r, s')"
  shows "sched_inv s' xs"
proof -
  have "sched_inv (t\<lparr>pending_qps := pending_qps t @ [qp], pending_counts := (pending_counts t)[c := pending_counts t ! c + 1]\<rparr>) xs"
    if "t = s\<lparr>posted := posted s @ [(qp, op)]\<rparr>" for t
  proof -
    have k: "counts_ok s xs" and len: "length (pending_counts s) = length (coro_array s)" using assms(1) by (auto simp: sched_inv_def counts_ok_def)
    have "c \<in> set xs" using counts_okD(1) [OF k assms(2)] assms(3) by blast
    then show ?thesis
      using assms(1-3) pending_nonneg [OF k assms(2)] sum_list_dec [of c "pending_counts s" 1] len that
      by (auto simp: sched_inv_def ring_def counts_ok_def nth_list_update dest!: set_update_subset_insert [THEN subsetD])
  qed
  moreover have "sched_inv s xs \<longleftrightarrow> sched_inv (s\<lparr>posted := p\<rparr>) xs" for p by (simp add: sched_inv_def ring_def counts_ok_def)
  ultimately show ?thesis using assms(1,4)
    by (auto simp: post_async_def AddPendingQP_def res_Inr split: if_splits)
qed

lemma RunCoroutine_inv:
  assumes inv: "sched_inv s xs" and c: "c \<in> set xs"
  shows "holds (\<lambda>s'. sched_inv s' xs \<and> \<not> waits s' c) (RunCoroutine (int c) s)"
proof -
  let ?s' = "s\<lparr>coro_array := (coro_array s)[c := (coro_array s ! c)\<lparr>is_wait_poll := False\<rparr>]\<rparr>"
  have n: "c < length (coro_array s)" using assms by (auto simp: sched_inv_def ring_def)
  have "ring ?s' xs" using inv by (intro set_coro_cong_ring) (simp_all add: sched_inv_def)
  moreover have "counts_ok ?s' xs"
    using inv c n by (auto simp: sched_inv_def counts_ok_def nth_list_update split: if_splits)
  ultimately have "sched_inv ?s' xs" using inv by (simp add: sched_inv_def)
  then show ?thesis using n by (simp add: RunCoroutine_def set_coro_ok sched_inv_def ring_def counts_ok_def)
qed

text \<open>
  \<open>switched c xs s s'\<close>: the coroutine \<open>c\<close> has left the ring \<open>xs\<close> and waits, and control has gone to a
  yield-able coroutine that is marked as running.
\<close>

definition switched :: "nat \<Rightarrow> nat list \<Rightarrow> coro_sched \<Rightarrow> coro_sched \<Rightarrow> bool" where
  "switched c xs s s' \<longleftrightarrow> sched_inv s' (remove1 c xs) \<and> waits s' c \<and> c \<notin> set (remove1 c xs) \<and>
     (\<exists>d \<in> set (remove1 c xs). run_log s' = run_log s @ [int d] \<and> \<not> waits s' d)"

lemma Yield_inv:
  assumes inv: "sched_inv s xs" and c: "c < length (coro_array s)" "\<not> waits s c" "c \<noteq> 0"
  shows "holds (\<lambda>s'. if pending_counts s ! c = 0 then s' = s else switched c xs s s') (Yield c s)"
proof (cases "pending_counts s ! c = 0")
  case True
  then show ?thesis using inv c by (simp add: Yield_def sched_inv_def counts_ok_def)
next
  case False
  have r: "ring s xs" and k: "counts_ok s xs" using inv by (simp_all add: sched_inv_def)
  have "c \<in> set xs" "c \<noteq> hd xs" using counts_okD(1) [OF k c(1)] c(2,3) r by (auto simp: ring_def)
  then obtain ys p zs where xs: "xs = ys @ p # c # zs" by (rule in_ring_split)
  have pos: "0 < pending_counts s ! c" using False pending_nonneg [OF k c(1)] by simp
  have d: "hd (zs @ [0]) < length (coro_array s)" "hd (zs @ [0]) \<noteq> c" "p < length (coro_array s)" "p \<noteq> c"
    using r xs c by (cases zs; auto simp: ring_def)+
  have dr: "hd (zs @ [0]) \<in> set (ys @ p # zs)" using r xs by (cases zs; cases ys) (auto simp: ring_def)
  have "holds (yielded p c (hd (zs @ [0])) s) (Yield c s)"
    using ring_neighbours [of s ys p c zs] r k xs c False d by (intro Yield_yielded) (auto simp: counts_ok_def)
  moreover have rem: "remove1 c xs = ys @ p # zs" using r xs by (auto simp: ring_def remove1_append)
  moreover have "switched c xs s s'" if y: "yielded p c (hd (zs @ [0])) s s'" for s'
  proof -
    have "sched_inv s' (ys @ p # zs)"
      using yielded_ring [OF _ y] yielded_counts [OF _ _ _ y] r k xs pos inv y by (simp add: sched_inv_def yielded_def)
    moreover have "waits s' c" "\<not> waits s' (hd (zs @ [0]))" "run_log s' = run_log s @ [int (hd (zs @ [0]))]"
      using y c d by (simp_all add: yielded_def)
    moreover have "c \<notin> set (ys @ p # zs)" using r xs by (auto simp: ring_def)
    ultimately show ?thesis using dr unfolding switched_def rem by blast
  qed
  ultimately show ?thesis using False by (simp add: holds_weaken)
qed

lemma PollCompletion_polled:
  assumes "sched_inv s xs" "answers_ok answers (pending_counts s)" "visits answers = length (pending_qps s)"
  shows "\<exists>ws. holds (polled answers xs ws s) (PollCompletion answers s)"
  unfolding PollCompletion_def using assms by (intro poll_loop_polled) (auto simp: sched_inv_def)

lemmas rdma_op_defs = RDMABatch_def RDMABatchSync_def RDMAWrite_def RDMAWrite_mr_def RDMARead_def RDMAReadSync_def RDMACAS_def

lemma sync_inv: "sched_inv s xs \<Longrightarrow> sched_inv (s\<lparr>posted := p\<rparr>) xs"
  by (simp add: sched_inv_def ring_def counts_ok_def)

lemma sched_step_inv: "sched_step s s' \<Longrightarrow> sched_inv s xs \<Longrightarrow> \<exists>xs'. sched_inv s' xs'"
proof (induction rule: sched_step.induct)
  case (op_yield c s s')
  from Yield_inv [OF op_yield(5,1-3)] op_yield(4,5) show ?case by (auto simp: switched_def split: if_splits)
next
  case (op_run k s s')
  obtain c where "c \<in> set xs" "follow k s = int c"
    using follow_in_ring [of s xs k] op_run(2) by (auto simp: sched_inv_def)
  with RunCoroutine_inv [OF op_run(2) this(1)] op_run(1) show ?case by auto
next
  case (op_poll answers s s')
  from PollCompletion_polled [OF op_poll(4,1,2)] op_poll(3) show ?case by (auto simp: polled_def)
qed (auto simp: rdma_op_defs res_Inr Let_def split: if_splits intro: post_async_inv sync_inv)

text \<open>The ring that \<open>LoopLinkCoroutine\<close> builds.\<close>

definition linked_upto :: "nat \<Rightarrow> nat \<Rightarrow> coro_sched \<Rightarrow> bool" where
  "linked_upto n i s \<longleftrightarrow> length (coro_array s) = n \<and> pending_counts s = replicate n 0 \<and> pending_qps s = [] \<and>
     (\<forall>k < n. \<not> waits s k) \<and> (\<forall>k < i. nx s k = int k + 1 \<and> pv s k = int k - 1)"

lemma chain_upt: "(\<And>k. k + 1 < n \<Longrightarrow> nf k = int k + 1) \<Longrightarrow> (\<And>k. 0 < k \<Longrightarrow> k < n \<Longrightarrow> pf k = int k - 1) \<Longrightarrow> chain nf pf [m..<n]"
proof (induction "n - m" arbitrary: m)
  case (Suc d)
  then have "[m..<n] = m # [Suc m..<n]" by (simp add: upt_rec)
  moreover have "chain nf pf [Suc m..<n]" using Suc by simp
  ultimately show ?case using Suc.prems by (cases "Suc m < n") (simp_all add: upt_rec [of "Suc m"])
qed simp

lemma LoopLink_inv:
  assumes "0 < n"
  shows "holds (\<lambda>s. sched_inv s [0..<n]) (LoopLinkCoroutine n (coro_sched_init junk n))"
proof -
  have "holds (linked_upto n n) (forE n (\<lambda>i. set_coro (int i) (\<lambda>c. c\<lparr>prev_coro := int i - 1, next_coro := int i + 1\<rparr>)) (coro_sched_init junk n))"
    by (rule holds_forE) (auto simp: linked_upto_def coro_sched_init_def set_coro_def nth_list_update less_Suc_eq)
  then obtain s1 where s1: "forE n (\<lambda>i. set_coro (int i) (\<lambda>c. c\<lparr>prev_coro := int i - 1, next_coro := int i + 1\<rparr>)) (coro_sched_init junk n) = Inr s1"
      "linked_upto n n s1" by (auto simp: holds_iff)
  let ?A = "((coro_array s1)[0 := (coro_array s1 ! 0)\<lparr>prev_coro := int n - 1\<rparr>])"
  let ?B = "?A[n - 1 := (?A ! (n - 1))\<lparr>next_coro := 0\<rparr>]"
  have n1: "int n - 1 = int (n - 1)" using assms by simp
  have A: "length (coro_array s1) = n" using s1(2) by (simp add: linked_upto_def)
  have run: "LoopLinkCoroutine n (coro_sched_init junk n) = Inr (s1\<lparr>coro_head := 0, coro_tail := int n - 1, coro_array := ?B\<rparr>)"
    unfolding LoopLinkCoroutine_def s1(1) bindE_simps Let_def n1 using A assms by (simp add: set_coro_def nat_diff_distrib)
  have "chain (\<lambda>k. next_coro (?B ! k)) (\<lambda>k. prev_coro (?B ! k)) [0..<n]"
    using s1(2) assms by (intro chain_upt) (auto simp: linked_upto_def nth_list_update)
  then show ?thesis
    using s1(2) assms unfolding run by (auto simp: sched_inv_def ring_def counts_ok_def linked_upto_def nth_list_update sum_list_replicate)
qed

lemma sched_steps_inv: "sched_step\<^sup>*\<^sup>* s s' \<Longrightarrow> sched_inv s xs \<Longrightarrow> \<exists>xs'. sched_inv s' xs'"
  by (induction rule: rtranclp_induct) (auto dest: sched_step_inv)

text \<open>A run of three coroutines: coroutine 1 posts a read and yields.\<close>

definition demo_linked :: coro_sched where
  "demo_linked = \<lparr>coro_array = [\<lparr>is_wait_poll = False, prev_coro = 2, next_coro = 1\<rparr>, \<lparr>is_wait_poll = False, prev_coro = 0, next_coro = 2\<rparr>,
       \<lparr>is_wait_poll = False, prev_coro = 1, next_coro = 0\<rparr>],
     coro_head = 0, coro_tail = 2, pending_qps = [], pending_counts = [0, 0, 0], posted = [], run_log = []\<rparr>"

definition demo_waiting :: coro_sched where
  "demo_waiting = \<lparr>coro_array = [\<lparr>is_wait_poll = False, prev_coro = 2, next_coro = 2\<rparr>, \<lparr>is_wait_poll = True, prev_coro = 0, next_coro = 2\<rparr>,
       \<lparr>is_wait_poll = False, prev_coro = 0, next_coro = 0\<rparr>],
     coro_head = 0, coro_tail = 2, pending_qps = [7], pending_counts = [0, 1, 0], posted = [(7, PostRead 100 8 64 1)], run_log = [2]\<rparr>"

lemma demo_link: "LoopLinkCoroutine 3 (coro_sched_init 0 3) = Inr demo_linked"
  by (simp add: LoopLinkCoroutine_def coro_sched_init_def demo_linked_def set_coro_def numeral_3_eq_3 forE_def)

lemma demo_steps: "sched_step\<^sup>*\<^sup>* demo_linked demo_waiting"
proof -
  let ?s = "demo_linked\<lparr>posted := [(7, PostRead 100 8 64 1)], pending_qps := [7], pending_counts := [0, 1, 0]\<rparr>"
  have "sched_step demo_linked ?s"
    by (rule op_read [of 1 _ "\<lambda>_ _. True" 7 100 64 8 True])
      (simp_all add: demo_linked_def RDMARead_def post_async_def AddPendingQP_def)
  moreover have "sched_step ?s demo_waiting"
    by (rule op_yield [of 1])
      (simp_all add: demo_linked_def demo_waiting_def Yield_def get_coro_def set_coro_def RunCoroutine_def Let_def)
  ultimately show ?thesis by (blast intro: rtranclp.intros)
qed

text \<open>
  C?. The ring of the coroutine scheduler is always consistent. After \<open>LoopLinkCoroutine\<close> has linked the
  coroutines of a new scheduler, in every state that posts, yields, starts and polls can reach there is a
  list of yield-able coroutines, beginning with the poller, that the \<open>next_coro\<close> and \<open>prev_coro\<close> pointers
  link into a ring; a coroutine outside it waits for at least one completion, none of those in it does;
  the number of pending queue pairs is the sum of the pending counts. In each such state a \<open>Yield\<close>
  of a running coroutine returns: with nothing pending it does nothing, otherwise the coroutine leaves the
  ring and control goes to a coroutine of the ring that does not wait.\<close>

theorem scheduler_invariant:
  assumes "0 < n" "LoopLinkCoroutine n (coro_sched_init junk n) = Inr s0" "sched_step\<^sup>*\<^sup>* s0 s"
  shows "\<exists>xs. sched_inv s xs \<and> (\<forall>c < length (coro_array s). c \<noteq> 0 \<and> \<not> is_wait_poll (coro_array s ! c) \<longrightarrow>
    holds (\<lambda>s'. if pending_counts s ! c = 0 then s' = s else switched c xs s s') (Yield c s))"
proof -
  have "sched_inv s0 [0..<n]" using LoopLink_inv [OF assms(1), of junk] assms(2) by simp
  then obtain xs where "sched_inv s xs" using sched_steps_inv [OF assms(3)] by blast
  then show ?thesis using Yield_inv by blast
qed

theorem scheduler_invariant_witness:
  "sched_step\<^sup>*\<^sup>* demo_linked demo_waiting \<and> pending_counts demo_waiting = [0, 1, 0] \<and> (\<exists>xs. sched_inv demo_waiting xs)"
  using scheduler_invariant [OF _ demo_link demo_steps] demo_steps by (auto simp: demo_waiting_def)

text \<open>
  C?. Polling loses no wake-up. When the answers of the queue pairs conform to the outstanding operations,
  \<open>PollCompletion\<close> returns without a failed assertion; it subtracts from the pending count of every
  coroutine the number of its completions, and it appends to the ring, behind the coroutines that were
  there, exactly the waiting coroutines that have no operation pending any more.\<close>

theorem poll_wakes_completed:
  assumes "sched_inv s xs" "answers_ok answers (pending_counts s)" "visits answers = length (pending_qps s)"
  shows "\<exists>s' ws. PollCompletion answers s = Inr s' \<and> sched_inv s' (xs @ ws) \<and>
    (\<forall>c < length (coro_array s). c \<noteq> 0 \<longrightarrow> pending_counts s' ! c = pending_counts s ! c - int (completed answers c)) \<and>
    set ws = {c. c < length (coro_array s) \<and> c \<notin> set xs \<and> pending_counts s' ! c = 0}"
  using PollCompletion_polled [OF assms] by (auto simp: polled_def holds_iff)

theorem poll_wakes_completed_witness:
  "\<exists>s' ws. PollCompletion [PollWc WcSuccess 1] demo_waiting = Inr s' \<and> sched_inv s' ([0, 2] @ ws) \<and> pending_counts s' ! 1 = 0"
proof -
  have "sched_inv demo_waiting [0, 2]"
    by (auto simp: demo_waiting_def sched_inv_def ring_def counts_ok_def less_Suc_eq numeral_3_eq_3)
  moreover have "answers_ok [PollWc WcSuccess 1] (pending_counts demo_waiting)"
    by (auto simp: demo_waiting_def answers_ok_def fatal_def completed_Cons completed_Nil less_Suc_eq numeral_3_eq_3)
  moreover have "visits [PollWc WcSuccess 1] = length (pending_qps demo_waiting)"
    by (simp add: demo_waiting_def visits_Cons visits_Nil)
  ultimately obtain s' ws where "PollCompletion [PollWc WcSuccess 1] demo_waiting = Inr s'" "sched_inv s' ([0, 2] @ ws)"
      "\<forall>c < length (coro_array demo_waiting). c \<noteq> 0 \<longrightarrow> pending_counts s' ! c = pending_counts demo_waiting ! c - int (completed [PollWc WcSuccess 1] c)"
    using poll_wakes_completed [of demo_waiting "[0, 2]" "[PollWc WcSuccess 1]"] by blast
  moreover from this(3) have "pending_counts s' ! 1 = 0"
    by (auto simp: demo_waiting_def completed_Cons completed_Nil)
  ultimately show ?thesis by blast
qed

text \<open>
  Two facts of the code as it is. A completion of the poller's own operation is consumed but its entry in
  the list of pending queue pairs and its pending count stay for ever; and \<open>AppendCoroutine\<close> leaves the
  head's \<open>prev_coro\<close> pointing at the old tail.
\<close>

lemma poller_completion_kept:
  assumes "pending_qps s = [qp]"
  shows "PollCompletion [PollWc WcSuccess 0, PollNothing] s = Inr (s\<lparr>pending_qps := [qp]\<rparr>)"
  by (simp add: PollCompletion_def assms)

lemma append_keeps_head_prev:
  "\<exists>s'. PollCompletion [PollWc WcSuccess 1] demo_waiting = Inr s' \<and> coro_tail s' = 1 \<and> prev_coro (coro_array s' ! 0) = 2"
  by (simp add: PollCompletion_def complete_one_def demo_waiting_def AppendCoroutine_def get_coro_def set_coro_def Let_def)

end
