(* ===== verification/Region_Alloc.thy ===== *)
theory Region_Alloc
  imports Erpc_Prelude
begin

section \<open>RDMA region and buffer allocators (\<open>core/allocator\<close>)\<close>

text \<open>
  \<open>RDMARegionAllocator\<close> cuts one registered memory region into equal regions, one per thread;
  \<open>RDMABufferAllocator\<close> hands out buffers of a thread's region by moving an offset, and starts over at the
  front when the region is exhausted. Addresses and sizes are 64-bit words, thread identifiers numbers (the
  type \<open>t_id_t\<close> is declared outside the repository; \<open>tid + 1\<close> is at most \<open>thread_num\<close>). The address that \<open>malloc\<close>
  returns and the answer of \<open>register_memory\<close> of the RDMA library are arguments.
\<close>

definition PER_THREAD_ALLOC_SIZE :: u64 where
  "PER_THREAD_ALLOC_SIZE = 500 * 1024 * 1024"

record region_allocator =
  global_mr :: u64
  thread_num :: nat

text \<open>The constructor: a null result of \<open>malloc\<close> is written through by \<open>memset\<close>, a failed registration aborts.\<close>

definition RDMARegionAllocator :: "(u64 \<Rightarrow> u64 option) \<Rightarrow> (u64 \<Rightarrow> u64 \<Rightarrow> bool) \<Rightarrow> nat \<Rightarrow> region_allocator res" where
  "RDMARegionAllocator malloc register_memory thread_num_per_machine =
    (let global_mr_size = of_nat thread_num_per_machine * PER_THREAD_ALLOC_SIZE
     in case malloc global_mr_size of
          None \<Rightarrow> Inl OutOfRange
        | Some p \<Rightarrow> if register_memory p global_mr_size then Inr \<lparr>global_mr = p, thread_num = thread_num_per_machine\<rparr>
                    else Inl ExitProcess)"

definition GetThreadLocalRegion :: "nat \<Rightarrow> region_allocator \<Rightarrow> (u64 \<times> u64) res" where
  "GetThreadLocalRegion tid a = assertE (tid < thread_num a)
    (Inr (global_mr a + of_nat tid * PER_THREAD_ALLOC_SIZE, global_mr a + of_nat (tid + 1) * PER_THREAD_ALLOC_SIZE))"

record buffer_allocator =
  ba_start :: u64
  ba_end :: u64
  cur_offset :: u64

definition RDMABufferAllocator :: "u64 \<Rightarrow> u64 \<Rightarrow> buffer_allocator" where
  "RDMABufferAllocator s e = \<lparr>ba_start = s, ba_end = e, cur_offset = 0\<rparr>"

definition Alloc :: "u64 \<Rightarrow> buffer_allocator \<Rightarrow> u64 \<times> buffer_allocator" where
  "Alloc sz a =
    (let a1 = (if ba_end a < ba_start a + cur_offset a + sz then a\<lparr>cur_offset := 0\<rparr> else a)
     in (ba_start a1 + cur_offset a1, a1\<lparr>cur_offset := cur_offset a1 + sz\<rparr>))"

definition Free :: "u64 \<Rightarrow> buffer_allocator \<Rightarrow> buffer_allocator" where
  "Free p a = a"

text \<open>A sequence of allocations: the buffers with their sizes, and the allocator afterwards.\<close>

fun allocs :: "u64 list \<Rightarrow> buffer_allocator \<Rightarrow> (u64 \<times> u64) list \<times> buffer_allocator" where
  "allocs [] a = ([], a)"
| "allocs (sz # szs) a = (case Alloc sz a of (p, a1) \<Rightarrow> case allocs szs a1 of (bs, a2) \<Rightarrow> ((p, sz) # bs, a2))"

subsection \<open>Buffers of a region\<close>

text \<open>
  \<open>span b\<close> are the addresses of a buffer. \<open>region_ok m a\<close>: the region does not reach the last \<open>m\<close> bytes of
  the address space, holds a buffer of \<open>m\<close> bytes, and the offset lies inside.
\<close>

definition span :: "u64 \<times> u64 \<Rightarrow> nat set" where
  "span b = {unat (fst b)..<unat (fst b) + unat (snd b)}"

definition region_ok :: "nat \<Rightarrow> buffer_allocator \<Rightarrow> bool" where
  "region_ok m a \<longleftrightarrow> unat (ba_start a) + m \<le> unat (ba_end a) \<and> unat (ba_end a) + m < 2 ^ 64 \<and>
     unat (ba_start a) + unat (cur_offset a) \<le> unat (ba_end a)"

text \<open>The allocator on unbounded numbers: the offset before the buffer, after a possible wrap.\<close>

definition place :: "nat \<Rightarrow> nat \<Rightarrow> nat \<Rightarrow> nat" where
  "place len off sz = (if len < off + sz then 0 else off)"

definition region_len :: "buffer_allocator \<Rightarrow> nat" where
  "region_len a = unat (ba_end a) - unat (ba_start a)"

lemma unat_add_less: "unat x + unat y < 2 ^ 64 \<Longrightarrow> unat (x + y :: u64) = unat x + unat y"
  by (subst unat_add_lem [THEN iffD1]) simp_all

lemma Alloc_place:
  assumes "region_ok m a" "unat sz \<le> m"
  shows "unat (fst (Alloc sz a)) = unat (ba_start a) + place (region_len a) (unat (cur_offset a)) (unat sz)"
    "unat (cur_offset (snd (Alloc sz a))) = place (region_len a) (unat (cur_offset a)) (unat sz) + unat sz"
    "ba_start (snd (Alloc sz a)) = ba_start a" "ba_end (snd (Alloc sz a)) = ba_end a"
    "region_ok m (snd (Alloc sz a))" "region_len (snd (Alloc sz a)) = region_len a"
proof -
  let ?s = "unat (ba_start a)" and ?o = "unat (cur_offset a)" and ?e = "unat (ba_end a)" and ?z = "unat sz"
  have b: "?s + m \<le> ?e" "?e + m < 2 ^ 64" "?s + ?o \<le> ?e" using assms by (simp_all add: region_ok_def)
  have so: "unat (ba_start a + cur_offset a) = ?s + ?o" using b by (intro unat_add_less) simp
  have "unat (ba_start a + cur_offset a + sz) = ?s + ?o + ?z"
    using b so assms(2) by (subst unat_add_less) simp_all
  then have c: "ba_end a < ba_start a + cur_offset a + sz \<longleftrightarrow> region_len a < ?o + ?z"
    using b by (auto simp: word_less_nat_alt region_len_def)
  have oz: "unat (cur_offset a + sz) = ?o + ?z" using b assms(2) by (intro unat_add_less) simp
  show eqs: "unat (fst (Alloc sz a)) = ?s + place (region_len a) ?o ?z"
    "unat (cur_offset (snd (Alloc sz a))) = place (region_len a) ?o ?z + ?z"
    "ba_start (snd (Alloc sz a)) = ba_start a" "ba_end (snd (Alloc sz a)) = ba_end a"
    using so oz by (simp_all add: Alloc_def Let_def c place_def)
  show "region_ok m (snd (Alloc sz a))" "region_len (snd (Alloc sz a)) = region_len a"
    using b assms(2) eqs by (auto simp: region_ok_def region_len_def place_def)
qed

text \<open>Every buffer lies in the region.\<close>

lemma allocs_inside:
  assumes "region_ok m a" "\<forall>sz \<in> set szs. unat sz \<le> m" "b \<in> set (fst (allocs szs a))"
  shows "span b \<subseteq> {unat (ba_start a)..<unat (ba_end a)}"
  using assms
proof (induction szs arbitrary: a)
  case (Cons sz szs)
  let ?a1 = "snd (Alloc sz a)"
  have sz: "unat sz \<le> m" using Cons.prems by simp
  note al = Alloc_place [OF Cons.prems(1) sz]
  from Cons.prems(3) consider "b = (fst (Alloc sz a), sz)" | "b \<in> set (fst (allocs szs ?a1))"
    by (auto simp: case_prod_beta)
  then show ?case
  proof cases
    case 1
    have "place (region_len a) (unat (cur_offset a)) (unat sz) + unat sz \<le> region_len a"
      using Cons.prems(1) sz by (auto simp: place_def region_ok_def region_len_def)
    moreover have "unat (ba_start a) + region_len a = unat (ba_end a)"
      using Cons.prems(1) by (simp add: region_ok_def region_len_def)
    ultimately show ?thesis using 1 al(1) by (auto simp: span_def)
  next
    case 2
    with Cons.IH [OF al(5)] Cons.prems(2) al(3,4) show ?thesis by simp
  qed
qed simp

text \<open>
  The offset since a buffer at \<open>p0\<close> of \<open>s0\<close> bytes was handed out: \<open>t\<close> bytes later it is either behind the
  buffer, with no wrap yet, or in front of it after one wrap.
\<close>

definition since :: "nat \<Rightarrow> nat \<Rightarrow> nat \<Rightarrow> nat \<Rightarrow> nat \<Rightarrow> nat \<Rightarrow> bool" where
  "since len m p0 s0 t off \<longleftrightarrow> off = p0 + s0 + t \<or> (\<exists>w. off + w = t \<and> len < p0 + s0 + w + m)"

lemma since_step:
  assumes "since len m p0 s0 t off" "sz \<le> m" "s0 + t + sz + m \<le> len" "p0 + s0 \<le> len"
  shows "since len m p0 s0 (t + sz) (place len off sz + sz)"
    "place len off sz + sz \<le> p0 \<or> p0 + s0 \<le> place len off sz"
  using assms by (auto simp: since_def place_def)

lemma allocs_since:
  assumes "region_ok m a" "\<forall>sz \<in> set szs. unat sz \<le> m" "b \<in> set (fst (allocs szs a))"
    "since (region_len a) m p0 s0 t (unat (cur_offset a))" "s0 + t + sum_list (map unat szs) + m \<le> region_len a"
    "p0 + s0 \<le> region_len a"
  shows "span b \<inter> {unat (ba_start a) + p0..<unat (ba_start a) + p0 + s0} = {}"
  using assms
proof (induction szs arbitrary: a t)
  case (Cons sz szs)
  let ?a1 = "snd (Alloc sz a)"
  have sz: "unat sz \<le> m" using Cons.prems by simp
  note al = Alloc_place [OF Cons.prems(1) sz]
  have "s0 + t + unat sz + m \<le> region_len a" using Cons.prems(5) by simp
  note st = since_step [OF Cons.prems(4) sz this Cons.prems(6)]
  from Cons.prems(3) consider "b = (fst (Alloc sz a), sz)" | "b \<in> set (fst (allocs szs ?a1))"
    by (auto simp: case_prod_beta)
  then show ?case
  proof cases
    case 1
    then show ?thesis using al(1) st(2) by (auto simp: span_def)
  next
    case 2
    have "span b \<inter> {unat (ba_start ?a1) + p0..<unat (ba_start ?a1) + p0 + s0} = {}"
      using Cons.IH [OF al(5) _ 2, of "t + unat sz"] Cons.prems st(1) al(2,6) by (simp add: add.assoc)
    then show ?thesis by (simp add: al(3))
  qed
qed simp
subsection \<open>Threads do not share buffers, and buffers are reused late\<close>

lemma unat_PER_THREAD: "unat PER_THREAD_ALLOC_SIZE = 524288000"
  by (simp add: PER_THREAD_ALLOC_SIZE_def)

lemma region_addr:
  assumes "unat p + t * 524288000 < 2 ^ 64"
  shows "unat (p + of_nat t * PER_THREAD_ALLOC_SIZE) = unat p + t * 524288000"
proof -
  have t: "unat (of_nat t :: u64) = t" using assms by (simp add: unat_of_nat take_bit_nat_eq_self)
  have "unat (of_nat t * PER_THREAD_ALLOC_SIZE :: u64) = t * 524288000"
    using assms t unat_PER_THREAD by (subst unat_mult_lem [THEN iffD1]) simp_all
  then show ?thesis using assms by (subst unat_add_less) simp_all
qed

lemma GetThreadLocalRegion_bounds:
  assumes "GetThreadLocalRegion tid a = Inr (s, e)" "unat (global_mr a) + thread_num a * 524288000 < 2 ^ 64"
  shows "unat s = unat (global_mr a) + tid * 524288000" "unat e = unat s + 524288000"
    "unat e \<le> unat (global_mr a) + thread_num a * 524288000"
proof -
  have lt: "tid < thread_num a" using assms(1) by (simp add: GetThreadLocalRegion_def assertE_eq_Inr)
  have "unat e = unat (global_mr a) + (tid + 1) * 524288000"
    using assms lt region_addr [of "global_mr a" "tid + 1"] by (simp add: GetThreadLocalRegion_def assertE_eq_Inr)
  moreover show "unat s = unat (global_mr a) + tid * 524288000"
    using assms lt region_addr [of "global_mr a" tid] by (simp add: GetThreadLocalRegion_def assertE_eq_Inr)
  ultimately show "unat e = unat s + 524288000" "unat e \<le> unat (global_mr a) + thread_num a * 524288000"
    using lt by simp_all
qed

lemma fresh_region_ok:
  "unat s + m \<le> unat e \<Longrightarrow> unat e + m < 2 ^ 64 \<Longrightarrow> region_ok m (RDMABufferAllocator s e)"
  by (simp add: region_ok_def RDMABufferAllocator_def)

text \<open>
  Threads do not share RDMA buffers. Two threads of a machine take their regions from one region
  allocator and allocate any sequences of buffers of at most \<open>m\<close> bytes each, \<open>m\<close> no larger than a region;
  every buffer of the first thread is disjoint from every buffer of the second. The block that \<open>malloc\<close>
  returned must end at least \<open>m\<close> bytes before the end of the address space.\<close>

theorem thread_buffers_disjoint:
  assumes "RDMARegionAllocator malloc register_memory n = Inr a"
    and "unat (global_mr a) + n * unat PER_THREAD_ALLOC_SIZE + m < 2 ^ 64" "m \<le> unat PER_THREAD_ALLOC_SIZE"
    and "GetThreadLocalRegion t1 a = Inr (s1, e1)" "GetThreadLocalRegion t2 a = Inr (s2, e2)" "t1 \<noteq> t2"
    and "\<forall>sz \<in> set (szs1 @ szs2). unat sz \<le> m"
    and "b1 \<in> set (fst (allocs szs1 (RDMABufferAllocator s1 e1)))" "b2 \<in> set (fst (allocs szs2 (RDMABufferAllocator s2 e2)))"
  shows "span b1 \<inter> span b2 = {}"
proof -
  have n: "thread_num a = n" using assms(1) by (auto simp: RDMARegionAllocator_def Let_def split: option.splits if_splits)
  note le = assms(2,3) [unfolded unat_PER_THREAD]
  have sp: "unat (global_mr a) + thread_num a * 524288000 < 2 ^ 64" using le n by simp
  note r1 = GetThreadLocalRegion_bounds [OF assms(4) sp] and r2 = GetThreadLocalRegion_bounds [OF assms(5) sp]
  have "span b1 \<subseteq> {unat s1..<unat e1}"
    using allocs_inside [OF fresh_region_ok, of s1 m e1 szs1 b1] r1 le assms(7,8) n by (simp add: RDMABufferAllocator_def)
  moreover have "span b2 \<subseteq> {unat s2..<unat e2}"
    using allocs_inside [OF fresh_region_ok, of s2 m e2 szs2 b2] r2 le assms(7,9) n by (simp add: RDMABufferAllocator_def)
  moreover have "t1 < t2 \<or> t2 < t1" using assms(6) by linarith
  then have "unat e1 \<le> unat s2 \<or> unat e2 \<le> unat s1" using r1 r2 by auto
  ultimately show ?thesis by fastforce
qed

theorem thread_buffers_disjoint_witness:
  "span (4096, 64) \<inter> span (524292096, 128) = {}"
  by (rule thread_buffers_disjoint
        [of "\<lambda>_. Some 4096" "\<lambda>_ _. True" 2 "\<lparr>global_mr = 4096, thread_num = 2\<rparr>" 256 0 4096 524292096 1 524292096 1048580096 "[64]" "[128]"])
    (simp_all add: RDMARegionAllocator_def GetThreadLocalRegion_def PER_THREAD_ALLOC_SIZE_def Alloc_def RDMABufferAllocator_def)

text \<open>
  C?. A buffer is reused late. After a buffer of \<open>sz\<close> bytes has been allocated, no later buffer overlaps it
  as long as the bytes allocated, this buffer and one buffer of the largest size included, fit the region:
  the precise form of the allocator's assumption that the front of a large region has been served when the
  offset comes back to it.\<close>

theorem buffer_reuse_distance:
  assumes "region_ok m a" "Alloc sz a = (p, a1)" "\<forall>z \<in> set (sz # szs). unat z \<le> m"
    and "unat sz + sum_list (map unat szs) + m \<le> region_len a" "b \<in> set (fst (allocs szs a1))"
  shows "span (p, sz) \<inter> span b = {}"
proof -
  let ?p = "place (region_len a) (unat (cur_offset a)) (unat sz)"
  have sz: "unat sz \<le> m" using assms(3) by simp
  note al = Alloc_place [OF assms(1) sz, unfolded assms(2) fst_conv snd_conv]
  have "?p + unat sz \<le> region_len a" using sz assms(1) by (auto simp: place_def region_ok_def region_len_def)
  then have "span b \<inter> {unat (ba_start a1) + ?p..<unat (ba_start a1) + ?p + unat sz} = {}"
    using assms(3-5) al by (intro allocs_since [of m a1 szs b ?p "unat sz" 0]) (auto simp: since_def)
  then show ?thesis using al by (auto simp: span_def)
qed

theorem buffer_reuse_distance_witness:
  "span (1000 + 80, 10) \<inter> span (1000, 20) = {}"
  by (rule buffer_reuse_distance [of 20 "\<lparr>ba_start = 1000, ba_end = 1100, cur_offset = 80\<rparr>" 10 _
        "\<lparr>ba_start = 1000, ba_end = 1100, cur_offset = 90\<rparr>" "[20]"])
    (simp_all add: region_ok_def region_len_def Alloc_def)

text \<open>A request larger than the region is not refused: its buffer reaches past the end of the region.\<close>

lemma oversized_buffer_overruns:
  "fst (Alloc 200 \<lparr>ba_start = 1000, ba_end = 1100, cur_offset = 80\<rparr>) = 1000 \<and> \<not> span (1000, 200) \<subseteq> {1000..<1100}"
  by (simp add: Alloc_def span_def)

end
