(* ===== verification/Latency_Hist.thy ===== *)
theory Latency_Hist
  imports Erpc_Prelude Complex_Main
begin

section \<open>Latency distributions (\<open>util/latency.h\<close>)\<close>

text \<open>
  A histogram of latencies with buckets of 1, 2, 4, 8 and 16 microseconds and one bucket for everything
  from 3968 microseconds. The abstract view of a histogram is the sorted list of the lower ends of the
  buckets of its samples; every statistic is the statistic of that list. Counters are natural numbers
  (fewer than \<open>2\<^sup>6\<^sup>4\<close> samples), the \<open>double\<close> arguments real numbers.
\<close>

record latency =
  bin0 :: "nat list"
  bin1 :: "nat list"
  bin2 :: "nat list"
  bin3 :: "nat list"
  bin4 :: "nat list"
  bin5 :: nat

definition lat_reset :: latency where
  "lat_reset = \<lparr>bin0 = replicate 128 0, bin1 = replicate 128 0, bin2 = replicate 128 0, bin3 = replicate 128 0,
     bin4 = replicate 128 0, bin5 = 0\<rparr>"

definition bump :: "nat \<Rightarrow> nat list \<Rightarrow> nat list" where
  "bump i bs = bs[i := bs ! i + 1]"

definition lat_update :: "nat \<Rightarrow> latency \<Rightarrow> latency" where
  "lat_update us l =
    (if us < 128 then l\<lparr>bin0 := bump us (bin0 l)\<rparr>
     else if us < 384 then l\<lparr>bin1 := bump ((us - 128) div 2) (bin1 l)\<rparr>
     else if us < 896 then l\<lparr>bin2 := bump ((us - 384) div 4) (bin2 l)\<rparr>
     else if us < 1920 then l\<lparr>bin3 := bump ((us - 896) div 8) (bin3 l)\<rparr>
     else if us < 3968 then l\<lparr>bin4 := bump ((us - 1920) div 16) (bin4 l)\<rparr>
     else l\<lparr>bin5 := bin5 l + 1\<rparr>)"

definition lat_add :: "latency \<Rightarrow> latency \<Rightarrow> latency" where
  "lat_add l r = \<lparr>bin0 = map2 (+) (bin0 l) (bin0 r), bin1 = map2 (+) (bin1 l) (bin1 r), bin2 = map2 (+) (bin2 l) (bin2 r),
     bin3 = map2 (+) (bin3 l) (bin3 r), bin4 = map2 (+) (bin4 l) (bin4 r), bin5 = bin5 l + bin5 r\<rparr>"

definition lat_count :: "latency \<Rightarrow> nat" where
  "lat_count l = sum_list (bin0 l) + sum_list (bin1 l) + sum_list (bin2 l) + sum_list (bin3 l) + sum_list (bin4 l) + bin5 l"

text \<open>\<open>weigh base step i bs\<close> is the loop \<open>for (; i < 128; i++) sum += bin[i] * (base + i * step)\<close>.\<close>

fun weigh :: "nat \<Rightarrow> nat \<Rightarrow> nat \<Rightarrow> nat list \<Rightarrow> nat" where
  "weigh base step i [] = 0"
| "weigh base step i (b # bs) = b * (base + i * step) + weigh base step (i + 1) bs"

definition lat_sum :: "latency \<Rightarrow> nat" where
  "lat_sum l = weigh 0 1 0 (bin0 l) + weigh 128 2 0 (bin1 l) + weigh 384 4 0 (bin2 l) + weigh 896 8 0 (bin3 l) +
     weigh 1920 16 0 (bin4 l) + bin5 l * 3968"

definition lat_avg :: "latency \<Rightarrow> real" where
  "lat_avg l = real (lat_sum l) / real (max 1 (lat_count l))"

fun first_bin :: "nat \<Rightarrow> nat \<Rightarrow> nat \<Rightarrow> nat list \<Rightarrow> nat option" where
  "first_bin base step i [] = None"
| "first_bin base step i (b # bs) = (if b \<noteq> 0 then Some (base + i * step) else first_bin base step (i + 1) bs)"

definition orelse :: "nat option \<Rightarrow> nat \<Rightarrow> nat" where
  "orelse r k = (case r of Some v \<Rightarrow> v | None \<Rightarrow> k)"

definition latency_min :: "latency \<Rightarrow> nat" where
  "latency_min l = orelse (first_bin 0 1 0 (bin0 l)) (orelse (first_bin 128 2 0 (bin1 l)) (orelse (first_bin 384 4 0 (bin2 l))
     (orelse (first_bin 896 8 0 (bin3 l)) (orelse (first_bin 1920 16 0 (bin4 l)) 3968))))"

text \<open>\<open>last_bin base step i bs\<close> is the loop that counts down from \<open>i - 1\<close>.\<close>

fun last_bin :: "nat \<Rightarrow> nat \<Rightarrow> nat \<Rightarrow> nat list \<Rightarrow> nat option" where
  "last_bin base step 0 bs = None"
| "last_bin base step (Suc i) bs = (if bs ! i \<noteq> 0 then Some (base + i * step) else last_bin base step i bs)"

definition latency_max :: "latency \<Rightarrow> nat" where
  "latency_max l = (if bin5 l \<noteq> 0 then 3968
     else orelse (last_bin 1920 16 128 (bin4 l)) (orelse (last_bin 896 8 128 (bin3 l)) (orelse (last_bin 384 4 128 (bin2 l))
       (orelse (last_bin 128 2 128 (bin1 l)) (orelse (last_bin 0 1 128 (bin0 l)) 0)))))"

text \<open>The loops of \<open>perc\<close>: \<open>Inl\<close> a result, \<open>Inr\<close> the remaining threshold.\<close>

fun perc_bin :: "nat \<Rightarrow> nat \<Rightarrow> nat \<Rightarrow> nat list \<Rightarrow> int \<Rightarrow> nat + int" where
  "perc_bin base step i [] thres = Inr thres"
| "perc_bin base step i (b # bs) thres =
    (let thres' = thres - int b in if thres' < 0 then Inl (base + i * step) else perc_bin base step (i + 1) bs thres')"

definition and_then :: "nat + int \<Rightarrow> (int \<Rightarrow> nat + int) \<Rightarrow> nat + int" where
  "and_then r k = (case r of Inl v \<Rightarrow> Inl v | Inr t \<Rightarrow> k t)"

definition trunc :: "real \<Rightarrow> int" where
  "trunc x = (if x < 0 then \<lceil>x\<rceil> else \<lfloor>x\<rfloor>)"

definition perc_from :: "latency \<Rightarrow> int \<Rightarrow> nat" where
  "perc_from l thres =
    (case and_then (and_then (and_then (and_then (perc_bin 0 1 0 (bin0 l) thres) (perc_bin 128 2 0 (bin1 l)))
            (perc_bin 384 4 0 (bin2 l))) (perc_bin 896 8 0 (bin3 l))) (perc_bin 1920 16 0 (bin4 l)) of
       Inl v \<Rightarrow> v | Inr t \<Rightarrow> 3968)"

definition perc :: "real \<Rightarrow> latency \<Rightarrow> nat" where
  "perc p l = perc_from l (trunc (p * real (lat_count l)))"

text \<open>The lines that \<open>print\<close> writes: the lower end of each bucket in use and its counter.\<close>

fun print_bin :: "nat \<Rightarrow> nat \<Rightarrow> nat \<Rightarrow> nat list \<Rightarrow> (nat \<times> nat) list" where
  "print_bin base step i [] = []"
| "print_bin base step i (b # bs) = (if b \<noteq> 0 then [(base + i * step, b)] else []) @ print_bin base step (i + 1) bs"

definition lat_print :: "latency \<Rightarrow> (nat \<times> nat) list" where
  "lat_print l = print_bin 0 1 0 (bin0 l) @ print_bin 128 2 0 (bin1 l) @ print_bin 384 4 0 (bin2 l) @ print_bin 896 8 0 (bin3 l) @
     print_bin 1920 16 0 (bin4 l) @ (if bin5 l \<noteq> 0 then [(3968, bin5 l)] else [])"

subsection \<open>The abstract view\<close>

text \<open>
  \<open>runs base step i bs\<close> lists the lower end of each bucket as often as its counter says; \<open>view\<close> does so for
  the whole histogram. \<open>floor_us us\<close> is the lower end of the bucket of a sample.
\<close>

fun runs :: "nat \<Rightarrow> nat \<Rightarrow> nat \<Rightarrow> nat list \<Rightarrow> nat list" where
  "runs base step i [] = []"
| "runs base step i (b # bs) = replicate b (base + i * step) @ runs base step (i + 1) bs"

definition view :: "latency \<Rightarrow> nat list" where
  "view l = runs 0 1 0 (bin0 l) @ runs 128 2 0 (bin1 l) @ runs 384 4 0 (bin2 l) @ runs 896 8 0 (bin3 l) @
     runs 1920 16 0 (bin4 l) @ replicate (bin5 l) 3968"

definition floor_us :: "nat \<Rightarrow> nat" where
  "floor_us us =
    (if us < 128 then us else if us < 384 then 128 + (us - 128) div 2 * 2 else if us < 896 then 384 + (us - 384) div 4 * 4
     else if us < 1920 then 896 + (us - 896) div 8 * 8 else if us < 3968 then 1920 + (us - 1920) div 16 * 16 else 3968)"

definition lat_ok :: "latency \<Rightarrow> bool" where
  "lat_ok l \<longleftrightarrow> length (bin0 l) = 128 \<and> length (bin1 l) = 128 \<and> length (bin2 l) = 128 \<and> length (bin3 l) = 128 \<and> length (bin4 l) = 128"

definition collect :: "nat list \<Rightarrow> latency" where
  "collect samples = fold lat_update samples lat_reset"

subsection \<open>Runs of one array\<close>

lemma runs_length: "length (runs base step i bs) = sum_list bs"
  by (induction base step i bs rule: runs.induct) auto

lemma runs_sum: "sum_list (runs base step i bs) = weigh base step i bs"
  by (induction base step i bs rule: runs.induct) (auto simp: sum_list_replicate)

lemma runs_lower: "v \<in> set (runs base step i bs) \<Longrightarrow> base + i * step \<le> v"
  by (induction base step i bs rule: runs.induct) fastforce+

lemma runs_upper: "v \<in> set (runs base step i bs) \<Longrightarrow> 0 < step \<Longrightarrow> v < base + (i + length bs) * step"
  by (induction base step i bs rule: runs.induct) (auto simp: algebra_simps)

lemma runs_range: "v \<in> set (runs base step 0 bs) \<Longrightarrow> length bs = 128 \<Longrightarrow> 0 < step \<Longrightarrow> base \<le> v \<and> v < base + 128 * step"
  using runs_lower [of v base step 0 bs] runs_upper [of v base step 0 bs] by simp

lemma runs_sorted: "sorted (runs base step i bs)"
  by (induction base step i bs rule: runs.induct) (auto simp: sorted_append dest!: runs_lower)

lemma runs_bump: "k < length bs \<Longrightarrow> mset (runs base step i (bump k bs)) = add_mset (base + (i + k) * step) (mset (runs base step i bs))"
  unfolding bump_def
proof (induction bs arbitrary: k i)
  case (Cons b bs)
  then show ?case by (cases k) (auto simp: algebra_simps)
qed simp

lemma runs_add: "length bs = length cs \<Longrightarrow> mset (runs base step i (map2 (+) bs cs)) = mset (runs base step i bs) + mset (runs base step i cs)"
  by (induction bs cs arbitrary: i rule: list_induct2) (auto simp: replicate_add ac_simps)

lemma runs_zero: "runs base step i (replicate n 0) = []"
  by (induction n arbitrary: i) auto

lemma runs_first: "first_bin base step i bs = (case runs base step i bs of [] \<Rightarrow> None | v # vs \<Rightarrow> Some v)"
  by (induction base step i bs rule: runs.induct) (auto simp: neq0_conv dest!: gr0_implies_Suc)

lemma runs_append: "runs base step i (bs @ cs) = runs base step i bs @ runs base step (i + length bs) cs"
  by (induction base step i bs rule: runs.induct) auto

lemma runs_last: "n \<le> length bs \<Longrightarrow>
   last_bin base step n bs = (if runs base step 0 (take n bs) = [] then None else Some (last (runs base step 0 (take n bs))))"
  by (induction n) (auto simp: take_Suc_conv_app_nth runs_append)

lemma runs_perc: "0 \<le> thres \<Longrightarrow>
   perc_bin base step i bs thres = (if nat thres < sum_list bs then Inl (runs base step i bs ! nat thres) else Inr (thres - int (sum_list bs)))"
proof (induction bs arbitrary: i thres)
  case (Cons b bs)
  then show ?case by (cases "thres < int b") (auto simp: Let_def nth_append nat_diff_distrib)
qed simp

subsection \<open>The whole histogram\<close>

lemma view_sorted: "lat_ok l \<Longrightarrow> sorted (view l)"
  unfolding view_def lat_ok_def
  by (auto simp: sorted_append runs_sorted dest!: runs_range)

lemma view_reset: "view lat_reset = []" "lat_ok lat_reset"
  by (simp_all add: view_def lat_reset_def runs_zero lat_ok_def)

lemma view_update:
  assumes "lat_ok l"
  shows "mset (view (lat_update us l)) = add_mset (floor_us us) (mset (view l))" "lat_ok (lat_update us l)"
proof -
  have len: "length (bump k bs) = length bs" for k bs by (simp add: bump_def)
  show "lat_ok (lat_update us l)" using assms by (simp add: lat_ok_def lat_update_def len)
  show "mset (view (lat_update us l)) = add_mset (floor_us us) (mset (view l))"
    using assms by (auto simp: lat_ok_def lat_update_def view_def runs_bump floor_us_def)
qed

lemma collect_view:
  shows "lat_ok (collect samples)" "view (collect samples) = sort (map floor_us samples)"
proof -
  have "lat_ok (fold lat_update samples l) \<and> mset (view (fold lat_update samples l)) = mset (view l) + mset (map floor_us samples)"
    if "lat_ok l" for l
    using that by (induction samples arbitrary: l) (simp_all add: view_update)
  from this [OF view_reset(2)] show ok: "lat_ok (collect samples)"
    and "view (collect samples) = sort (map floor_us samples)"
    by (auto simp: collect_def view_reset(1) intro!: properties_for_sort [symmetric] view_sorted)
qed

lemma view_add:
  assumes "lat_ok l" "lat_ok r"
  shows "lat_ok (lat_add l r)" "view (lat_add l r) = sort (view l @ view r)"
proof -
  show ok: "lat_ok (lat_add l r)" using assms by (simp add: lat_ok_def lat_add_def)
  have "mset (view (lat_add l r)) = mset (view l) + mset (view r)"
    using assms by (simp add: lat_ok_def lat_add_def view_def runs_add replicate_add)
  then show "view (lat_add l r) = sort (view l @ view r)"
    by (intro properties_for_sort [symmetric] view_sorted ok) simp
qed

lemma view_count: "lat_count l = length (view l)"
  by (simp add: lat_count_def view_def runs_length)

lemma view_sum: "lat_sum l = sum_list (view l)"
  by (simp add: lat_sum_def view_def runs_sum sum_list_replicate)

lemma view_min: "view l \<noteq> [] \<Longrightarrow> latency_min l = hd (view l)"
  by (auto simp: latency_min_def view_def runs_first orelse_def split: list.splits)

lemma view_max:
  assumes "lat_ok l"
  shows "latency_max l = (if view l = [] then 0 else last (view l))"
  using assms by (simp add: latency_max_def lat_ok_def view_def runs_last orelse_def)

lemma and_then_perc:
  assumes "0 \<le> thres" "r = (if nat thres < length xs then Inl (xs ! nat thres) else Inr (thres - int (length xs)))"
  shows "and_then r (perc_bin base step 0 bs) =
    (if nat thres < length (xs @ runs base step 0 bs) then Inl ((xs @ runs base step 0 bs) ! nat thres)
     else Inr (thres - int (length (xs @ runs base step 0 bs))))"
  using assms by (auto simp: and_then_def runs_perc runs_length nth_append nat_diff_distrib)

lemma view_perc:
  assumes "0 \<le> thres" "nat thres < length (view l)"
  shows "perc_from l thres = view l ! nat thres"
proof -
  have "perc_bin 0 1 0 (bin0 l) thres = (if nat thres < length (runs 0 1 0 (bin0 l)) then Inl (runs 0 1 0 (bin0 l) ! nat thres)
      else Inr (thres - int (length (runs 0 1 0 (bin0 l)))))"
    using assms(1) by (simp add: runs_perc runs_length)
  note p = and_then_perc [OF assms(1) and_then_perc [OF assms(1) and_then_perc [OF assms(1) and_then_perc [OF assms(1) this]]]]
  define w where "w = (((runs 0 1 0 (bin0 l) @ runs 128 2 0 (bin1 l)) @ runs 384 4 0 (bin2 l)) @ runs 896 8 0 (bin3 l)) @ runs 1920 16 0 (bin4 l)"
  have "view l = w @ replicate (bin5 l) 3968" by (simp add: view_def w_def)
  then show ?thesis unfolding perc_from_def p w_def [symmetric] using assms by (auto simp: nth_append)
qed

lemma round_down: "b \<le> us \<Longrightarrow> us - (b + (us - b) div k * k) = (us - b) mod (k :: nat)" "b \<le> us \<Longrightarrow> b + (us - b) div k * k \<le> us"
  using div_times_less_eq_dividend [of "us - b" k] by (simp add: minus_div_mult_eq_mod [symmetric], linarith)

lemma mod_small: "0 < k \<Longrightarrow> 128 * k \<le> us + 128 \<Longrightarrow> 128 * (n mod k) \<le> (us :: nat)"
  using mod_less_divisor [of k n] by linarith

lemma floor_us_close: "floor_us us \<le> us" "us < 3968 \<Longrightarrow> 128 * (us - floor_us us) \<le> us"
  by (simp_all add: floor_us_def round_down mod_small)

text \<open>The distributions of several threads, combined.\<close>

definition combine :: "nat list list \<Rightarrow> latency" where
  "combine parts = fold (\<lambda>part l. lat_add l (collect part)) parts lat_reset"

lemma combine_view:
  shows "lat_ok (combine parts)" "view (combine parts) = sort (map floor_us (concat parts))"
proof -
  have "lat_ok (fold (\<lambda>part l. lat_add l (collect part)) parts l) \<and>
    view (fold (\<lambda>part l. lat_add l (collect part)) parts l) = sort (view l @ map floor_us (concat parts))"
    if "lat_ok l" for l
    using that
  proof (induction parts arbitrary: l)
    case Nil
    then show ?case by (simp add: sorted_sort_id view_sorted)
  next
    case (Cons part parts)
    have v: "lat_ok (lat_add l (collect part))" "view (lat_add l (collect part)) = sort (view l @ sort (map floor_us part))"
      using view_add [OF Cons.prems collect_view(1)] by (simp_all add: collect_view(2))
    from Cons.IH [OF v(1)] show ?case
      by (auto simp: v(2) intro!: properties_for_sort)
  qed
  from this [OF view_reset(2)] show "lat_ok (combine parts)" "view (combine parts) = sort (map floor_us (concat parts))"
    by (auto simp: combine_def view_reset(1))
qed

text \<open>
  C?. The statistics of a latency distribution are those of its samples, with each sample rounded down to
  the lower end of its bucket. When the distributions of several threads are combined, the count is the number
  of all samples, the sum is the sum of the rounded samples, minimum and maximum are the first and the last
  of the sorted rounded samples, and the \<open>p\<close>-th percentile is the one at the position \<open>p * count\<close>. Rounding
  changes a sample below 3968 microseconds by less than one percent (at most one part in 128).\<close>

theorem latency_statistics:
  assumes "concat parts \<noteq> []" "0 \<le> p" "p < 1" "sorted_us = sort (map floor_us (concat parts))"
  shows "lat_count (combine parts) = length (concat parts) \<and> lat_sum (combine parts) = sum_list (map floor_us (concat parts)) \<and>
    latency_min (combine parts) = hd sorted_us \<and> latency_max (combine parts) = last sorted_us \<and>
    perc p (combine parts) = sorted_us ! nat \<lfloor>p * real (length (concat parts))\<rfloor> \<and>
    (\<forall>us \<in> set (concat parts). us < 3968 \<longrightarrow> floor_us us \<le> us \<and> 128 * (us - floor_us us) \<le> us)"
proof -
  let ?l = "combine parts"
  have v: "view ?l = sorted_us" "length sorted_us = length (concat parts)" using assms(4) by (simp_all add: combine_view(2))
  have ne: "view ?l \<noteq> []" using v assms(1) by (metis length_0_conv)
  have pos: "0 < length (concat parts)" using assms(1) by blast
  have "sum_list sorted_us = sum_list (map floor_us (concat parts))"
    unfolding assms(4) by (metis mset_sort sum_mset_sum_list)
  moreover have "lat_count ?l = length (concat parts)" using v by (simp add: view_count)
  moreover have "perc p ?l = sorted_us ! nat \<lfloor>p * real (length (concat parts))\<rfloor>"
  proof -
    let ?x = "p * real (length (concat parts))"
    have "0 \<le> ?x" "?x < real (length (concat parts))" using assms(2,3) pos by simp_all
    then have "trunc ?x = \<lfloor>?x\<rfloor>" "0 \<le> \<lfloor>?x\<rfloor>" "nat \<lfloor>?x\<rfloor> < length (view ?l)"
      unfolding v by (auto simp: trunc_def v(2) nat_less_iff floor_less_iff)
    then show ?thesis using view_perc [of "\<lfloor>?x\<rfloor>" ?l] \<open>lat_count ?l = _\<close> by (simp add: perc_def v(1))
  qed
  ultimately show ?thesis
    using v ne view_min [of ?l] view_max [OF combine_view(1), of parts] floor_us_close by (simp add: view_sum)
qed

theorem latency_statistics_witness:
  "lat_count (combine [[5, 131], [900]]) = 3 \<and> latency_min (combine [[5, 131], [900]]) = 5 \<and> perc (1 / 2) (combine [[5, 131], [900]]) = 130"
proof -
  have "floor_us 5 = 5" "floor_us 131 = 130" "floor_us 900 = 896" by (simp_all add: floor_us_def)
  moreover have "nat \<lfloor>1 / 2 * real 3\<rfloor> = 1" by (simp add: nat_eq_iff floor_eq_iff)
  ultimately show ?thesis
    using latency_statistics [of "[[5, 131], [900]]" "1 / 2" "[5, 130, 896]"] by simp
qed

end
