(* ===== verification/Rx_Ring.thy ===== *)
theory Rx_Ring
  imports Erpc_Prelude
begin

section \<open>The receive side of a transport\<close>

text \<open>
  The contract between an Rpc endpoint and the receive side of its transport: \<open>rx_burst\<close> adds the received buffers behind those the endpoint
  holds, \<open>post_recvs\<close> gives the oldest ones back. \<open>Q s ms\<close> says that in state \<open>s\<close> the endpoint holds the buffers \<open>ms\<close>, \<open>can s k ns\<close> that the NIC can deliver \<open>ns\<close>
  while \<open>k\<close> buffers are held. For every transport that keeps the contract, every buffer is given back exactly once and in the order of arrival.
\<close>

inductive rx_reach :: "('s \<Rightarrow> nat \<Rightarrow> 'm list \<Rightarrow> bool) \<Rightarrow> ('m list \<Rightarrow> 's \<Rightarrow> 's res) \<Rightarrow> (nat \<Rightarrow> 's \<Rightarrow> ('s \<times> 'm list) res) \<Rightarrow> 's \<Rightarrow> 's \<Rightarrow> 'm list \<Rightarrow> 'm list \<Rightarrow> bool"
  for can rx post s0 where
  rx_start: "rx_reach can rx post s0 s0 [] []"
| rx_recv: "rx_reach can rx post s0 s got freed \<Longrightarrow> can s (length got - length freed) ns \<Longrightarrow> rx ns s = Inr s' \<Longrightarrow> rx_reach can rx post s0 s' (got @ ns) freed"
| rx_post: "rx_reach can rx post s0 s got freed \<Longrightarrow> length freed + n \<le> length got \<Longrightarrow> post n s = Inr (s', fs) \<Longrightarrow> rx_reach can rx post s0 s' got (freed @ fs)"

locale rx_contract =
  fixes Q :: "'s \<Rightarrow> 'm list \<Rightarrow> bool" and can :: "'s \<Rightarrow> nat \<Rightarrow> 'm list \<Rightarrow> bool"
    and rx :: "'m list \<Rightarrow> 's \<Rightarrow> 's res" and post :: "nat \<Rightarrow> 's \<Rightarrow> ('s \<times> 'm list) res"
  assumes rx_law: "Q s ms \<Longrightarrow> can s (length ms) ns \<Longrightarrow> \<exists>s'. rx ns s = Inr s' \<and> Q s' (ms @ ns)"
    and post_law: "Q s ms \<Longrightarrow> n \<le> length ms \<Longrightarrow> \<exists>s'. post n s = Inr (s', take n ms) \<and> Q s' (drop n ms)"
begin

lemma reach_split:
  assumes "rx_reach can rx post s0 s got freed" "Q s0 []"
  shows "\<exists>ms. Q s ms \<and> got = freed @ ms"
  using assms
proof induction
  case (rx_recv s got freed ns s')
  then obtain ms where "Q s ms" "got = freed @ ms" by blast
  with rx_recv rx_law [of s ms ns] show ?case by auto
next
  case (rx_post s got freed n s' fs)
  then obtain ms where "Q s ms" "got = freed @ ms" by blast
  with rx_post post_law [of s ms n] show ?case by (auto intro!: exI [of _ "drop n ms"])
qed auto

lemma reach_progress:
  assumes r: "rx_reach can rx post s0 s got freed" and q: "Q s0 []"
  shows "can s (length got - length freed) ns \<Longrightarrow> \<exists>s'. rx ns s = Inr s'" "length freed + n \<le> length got \<Longrightarrow> \<exists>s' fs. post n s = Inr (s', fs)"
proof -
  obtain ms where ms: "Q s ms" "got = freed @ ms" using reach_split [OF r q] by blast
  show "\<exists>s'. rx ns s = Inr s'" if "can s (length got - length freed) ns" using rx_law [OF ms(1), of ns] that ms(2) by auto
  show "\<exists>s' fs. post n s = Inr (s', fs)" if "length freed + n \<le> length got" using post_law [OF ms(1), of n] that ms(2) by auto
qed

end

end
