(* ===== verification/Ib_Transport.thy ===== *)
theory Ib_Transport
  imports Msg_Buffer Rx_Ring
begin

section \<open>The InfiniBand transport (\<open>transport_impl/infiniband\<close>, \<open>verbs_common.h\<close>)\<close>

text \<open>
  Sending, flushing, receiving and posting of receive buffers on one unreliable-datagram queue pair. The
  arrays of work requests and their \<open>next\<close> pointers are lists of records; a pointer to entry \<open>i\<close> of an array
  is \<open>Some i\<close>. The device is third-party: what its calls return is an argument, and the state has the part
  of it that the code relies on. \<open>ib_sq\<close> are the posted SEND requests whose completion is not yet known:
  a polled completion is that of the oldest signaled request, and completes all before it. \<open>ib_rq\<close> are
  the posted receive buffers, which are filled in their order, and \<open>ib_held\<close> the buffers whose packets the Rpc
  object has not released yet.
\<close>

abbreviation (input) kQKey :: u32 where "kQKey \<equiv> 0x0205"
abbreviation (input) kGRHBytes :: nat where "kGRHBytes \<equiv> 40"
abbreviation (input) kMaxInline :: nat where "kMaxInline \<equiv> 60"
abbreviation (input) kRecvSlack :: nat where "kRecvSlack \<equiv> 32"
abbreviation (input) kRQDepth :: nat where "kRQDepth \<equiv> 4096"
abbreviation (input) kSQDepth :: nat where "kSQDepth \<equiv> 128"
abbreviation (input) ibUnsigBatch :: nat where "ibUnsigBatch \<equiv> 64"
abbreviation (input) ibPostlist :: nat where "ibPostlist \<equiv> 16"

definition kRecvSize :: nat where
  "kRecvSize = kMTU ib_cfg + 64"

datatype ibv_opcode = IBV_WR_SEND_WITH_IMM | IBV_WR_SEND | IBV_WR_OTHER

record sge =
  sge_addr :: nat
  sge_length :: nat
  sge_lkey :: u32

record send_wr =
  wr_next :: "nat option"
  wr_opcode :: ibv_opcode
  wr_qkey :: u32
  wr_sg_list :: nat
  wr_signaled :: bool
  wr_inline :: bool
  wr_num_sge :: nat
  wr_ah :: nat
  wr_qpn :: u32

record recv_wr =
  rw_next :: "nat option"
  rw_wr_id :: nat
  rw_sg_list :: nat
  rw_num_sge :: nat

text \<open>A posted SEND request with its scatter-gather entries.\<close>

record wqe =
  wq_wr :: send_wr
  wq_sgl :: "sge list"

record ib_routing_info =
  ri_port_lid :: u16
  ri_qpn :: u32
  ri_ah :: nat

record ib_item =
  it_routing :: ib_routing_info
  it_msg_buffer :: MsgBuffer
  it_pkt_idx :: nat

record ib_transport =
  ib_nb_tx :: nat
  ib_send_wr :: "send_wr list"
  ib_send_sgl :: "sge list list"
  ib_recv_head :: nat
  ib_recvs_to_post :: nat
  ib_recv_wr :: "recv_wr list"
  ib_recv_sgl :: "sge list"
  ib_use_fast_recv :: bool
  ib_fast_recv_used :: bool
  ib_self_ah :: nat
  ib_tx_flush_count :: nat
  ib_sq :: "wqe list"
  ib_rq :: "nat list"
  ib_held :: "nat list"

subsection \<open>Polling and signaling\<close>

text \<open>\<open>status\<close> is the status of the polled completion. With no signaled request outstanding the loop never ends.\<close>

definition poll_cq_one_helper :: "nat \<Rightarrow> ib_transport \<Rightarrow> ib_transport res" where
  "poll_cq_one_helper status t =
    (case dropWhile (\<lambda>w. \<not> wr_signaled (wq_wr w)) (ib_sq t) of
       [] \<Rightarrow> Inl NoReturn
     | w # ws \<Rightarrow> assertE (status = 0) (Inr (t\<lparr>ib_sq := ws\<rparr>)))"

definition get_signaled_flag :: "nat \<Rightarrow> ib_transport \<Rightarrow> (bool \<times> ib_transport) res" where
  "get_signaled_flag status t =
    (if ib_nb_tx t mod ibUnsigBatch = 0
     then bindE (if ib_nb_tx t \<noteq> 0 then poll_cq_one_helper status t else Inr t) (\<lambda>t1.
       Inr (True, t1\<lparr>ib_nb_tx := ib_nb_tx t1 + 1\<rparr>))
     else Inr (False, t\<lparr>ib_nb_tx := ib_nb_tx t + 1\<rparr>))"

subsection \<open>Sending\<close>

text \<open>
  The scatter-gather entries of an item: one entry for header and data of packet 0, else one for the
  header and one for the data.
\<close>

definition item_sgl :: "ib_item \<Rightarrow> sge list res" where
  "item_sgl item =
    (let m = it_msg_buffer item
     in case mb_buf m of
          None \<Rightarrow> Inl OutOfRange
        | Some buf \<Rightarrow>
            if it_pkt_idx item = 0
            then Inr [\<lparr>sge_addr = get_pkthdr_0 ib_cfg buf, sge_length = get_pkt_size ib_cfg m 0, sge_lkey = lkey (mb_buffer m)\<rparr>]
            else (let offset = it_pkt_idx item * kMaxDataPerPkt ib_cfg
                  in Inr [\<lparr>sge_addr = get_pkthdr_n ib_cfg buf (max_data_size m) (it_pkt_idx item), sge_length = sizeof_pkthdr ib_cfg, sge_lkey = lkey (mb_buffer m)\<rparr>,
                      \<lparr>sge_addr = buf + offset, sge_length = min (kMaxDataPerPkt ib_cfg) (sub64 (data_size m) offset), sge_lkey = lkey (mb_buffer m)\<rparr>]))"

definition tx_one :: "nat \<Rightarrow> nat \<Rightarrow> ib_item \<Rightarrow> ib_transport \<Rightarrow> ib_transport res" where
  "tx_one status i item t = rangeE (i < length (ib_send_wr t) \<and> i < length (ib_send_sgl t))
    (let wr = ib_send_wr t ! i
     in assertE (wr_next wr = Some (i + 1)) (assertE (wr_qkey wr = kQKey) (assertE (wr_opcode wr = IBV_WR_SEND_WITH_IMM) (assertE (wr_sg_list wr = i)
        (bindE (get_signaled_flag status t) (\<lambda>(signaled, t1).
         bindE (item_sgl item) (\<lambda>sgl.
           let wr1 = wr\<lparr>wr_signaled := signaled, wr_inline := (length sgl = 1 \<and> sge_length (sgl ! 0) \<le> kMaxInline),
                        wr_num_sge := length sgl, wr_ah := ri_ah (it_routing item), wr_qpn := ri_qpn (it_routing item)\<rparr>
           in Inr (t1\<lparr>ib_send_wr := (ib_send_wr t1)[i := wr1], ib_send_sgl := (ib_send_sgl t1)[i := sgl @ drop (length sgl) (ib_send_sgl t1 ! i)]\<rparr>))))))))"

text \<open>\<open>ibv_post_send\<close> walks the chain of \<open>next\<close> pointers; \<open>n\<close> bounds the walk by the number of requests.\<close>

fun wr_chain :: "nat \<Rightarrow> nat option \<Rightarrow> send_wr list \<Rightarrow> nat list res" where
  "wr_chain n None ws = Inr []"
| "wr_chain 0 (Some i) ws = Inl NoReturn"
| "wr_chain (Suc n) (Some i) ws = rangeE (i < length ws) (bindE (wr_chain n (wr_next (ws ! i)) ws) (\<lambda>is. Inr (i # is)))"

definition ibv_post_send :: "nat \<Rightarrow> ib_transport \<Rightarrow> ib_transport res" where
  "ibv_post_send ret t = bindE (wr_chain (length (ib_send_wr t)) (Some 0) (ib_send_wr t)) (\<lambda>is.
    assertE (ret = 0) (Inr (t\<lparr>ib_sq := ib_sq t @ map (\<lambda>i. \<lparr>wq_wr = ib_send_wr t ! i,
      wq_sgl = take (wr_num_sge (ib_send_wr t ! i)) (ib_send_sgl t ! wr_sg_list (ib_send_wr t ! i))\<rparr>) is\<rparr>)))"

definition set_next :: "nat \<Rightarrow> nat option \<Rightarrow> ib_transport \<Rightarrow> ib_transport res" where
  "set_next i p t = rangeE (i < length (ib_send_wr t))
    (Inr (t\<lparr>ib_send_wr := (ib_send_wr t)[i := (ib_send_wr t ! i)\<lparr>wr_next := p\<rparr>]\<rparr>))"

definition tx_burst :: "nat \<Rightarrow> nat \<Rightarrow> ib_item list \<Rightarrow> ib_transport \<Rightarrow> ib_transport res" where
  "tx_burst status ret items t =
    bindE (forE (length items) (\<lambda>i. tx_one status i (items ! i)) t) (\<lambda>t1.
    bindE (set_next (sub64 (length items) 1) None t1) (\<lambda>t2.
    bindE (ibv_post_send ret t2) (set_next (sub64 (length items) 1) (Some (length items)))))"

text \<open>\<open>tx_flush\<close> posts a one-byte inline request to the endpoint itself; \<open>flush_buf\<close> is the address of its byte.\<close>

definition tx_flush :: "nat \<Rightarrow> nat \<Rightarrow> nat \<Rightarrow> ib_transport \<Rightarrow> ib_transport res" where
  "tx_flush status ret flush_buf t =
    (if ib_nb_tx t = 0 then Inr t
     else bindE (poll_cq_one_helper status t) (\<lambda>t1.
       rangeE (0 < length (ib_send_wr t1) \<and> 0 < length (ib_send_sgl t1))
       (let wr = ib_send_wr t1 ! 0
        in assertE (wr_next wr = Some 1) (assertE (wr_qkey wr = kQKey) (assertE (wr_opcode wr = IBV_WR_SEND_WITH_IMM) (assertE (wr_sg_list wr = 0)
          (let t2 = t1\<lparr>ib_send_sgl := (ib_send_sgl t1)[0 := (ib_send_sgl t1 ! 0)[0 := (ib_send_sgl t1 ! 0 ! 0)\<lparr>sge_addr := flush_buf, sge_length := 1\<rparr>]],
                       ib_send_wr := (ib_send_wr t1)[0 := wr\<lparr>wr_next := None, wr_signaled := True, wr_inline := True, wr_num_sge := 1,
                          wr_qpn := 0, wr_ah := ib_self_ah t1\<rparr>]\<rparr>
           in bindE (ibv_post_send ret t2) (\<lambda>t3. bindE (set_next 0 (Some 1) t3) (\<lambda>t4.
              bindE (poll_cq_one_helper status t4) (\<lambda>t5.
                Inr (t5\<lparr>ib_nb_tx := 0, ib_tx_flush_count := ib_tx_flush_count t5 + 1\<rparr>)))))))))))"

subsection \<open>Receiving\<close>

text \<open>\<open>rx_burst\<close>: \<open>ret\<close> is what \<open>ibv_poll_cq\<close> returned, and so many posted buffers have been filled.\<close>

definition rx_burst :: "int \<Rightarrow> ib_transport \<Rightarrow> (nat \<times> ib_transport) res" where
  "rx_burst ret t = assertE (0 \<le> ret)
    (Inr (nat ret, t\<lparr>ib_held := ib_held t @ take (nat ret) (ib_rq t), ib_rq := drop (nat ret) (ib_rq t)\<rparr>))"

fun recv_chain :: "nat \<Rightarrow> nat option \<Rightarrow> recv_wr list \<Rightarrow> nat list res" where
  "recv_chain n None ws = Inr []"
| "recv_chain 0 (Some i) ws = Inl NoReturn"
| "recv_chain (Suc n) (Some i) ws = rangeE (i < length ws) (bindE (recv_chain n (rw_next (ws ! i)) ws) (\<lambda>is. Inr (i # is)))"

text \<open>A failed \<open>ibv_post_recv\<close> is handled by the caller: \<open>rt_assert\<close> in \<open>init_recvs\<close>, \<open>exit\<close> in \<open>post_recvs\<close>.\<close>

definition ibv_post_recv :: "error \<Rightarrow> nat \<Rightarrow> nat \<Rightarrow> ib_transport \<Rightarrow> ib_transport res" where
  "ibv_post_recv err ret first t = bindE (recv_chain (length (ib_recv_wr t)) (Some first) (ib_recv_wr t)) (\<lambda>is.
    if ret \<noteq> 0 then Inl err else Inr (t\<lparr>ib_rq := ib_rq t @ is\<rparr>))"

definition set_recv_next :: "nat \<Rightarrow> nat option \<Rightarrow> ib_transport \<Rightarrow> ib_transport res" where
  "set_recv_next i p t = rangeE (i < length (ib_recv_wr t))
    (Inr (t\<lparr>ib_recv_wr := (ib_recv_wr t)[i := (ib_recv_wr t ! i)\<lparr>rw_next := p\<rparr>]\<rparr>))"

text \<open>
  \<open>post_recvs\<close>. With the modified driver one special request asks for that many buffers, which the driver takes from its own
  ring; the buffers it posts are the argument \<open>fast\<close>. The Rpc object releases its oldest buffers.
\<close>

definition wrap_rq :: "nat \<Rightarrow> nat" where
  "wrap_rq last_wr_i = (if kRQDepth \<le> last_wr_i then last_wr_i - kRQDepth else last_wr_i)"

definition post_recvs :: "nat \<Rightarrow> nat list \<Rightarrow> nat \<Rightarrow> ib_transport \<Rightarrow> ib_transport res" where
  "post_recvs ret fast num_recvs t0 = assertE (\<not> ib_fast_recv_used t0) (assertE (num_recvs \<le> kRQDepth) (assertE (ib_recvs_to_post t0 < kRecvSlack)
    (let t = t0\<lparr>ib_recvs_to_post := ib_recvs_to_post t0 + num_recvs, ib_held := drop num_recvs (ib_held t0)\<rparr>
     in if ib_recvs_to_post t < kRecvSlack then Inr t
        else if ib_use_fast_recv t
        then (if ret \<noteq> 0 then Inl ExitProcess else Inr (t\<lparr>ib_rq := ib_rq t @ fast, ib_recvs_to_post := 0\<rparr>))
        else (let first_wr_i = ib_recv_head t;
                  last_wr_i = wrap_rq (first_wr_i + (ib_recvs_to_post t - 1))
              in rangeE (last_wr_i < length (ib_recv_wr t))
                (let temp_wr = rw_next (ib_recv_wr t ! last_wr_i)
                 in bindE (set_recv_next last_wr_i None t) (\<lambda>t1.
                    bindE (ibv_post_recv ExitProcess ret first_wr_i t1) (\<lambda>t2.
                    bindE (set_recv_next last_wr_i temp_wr t2) (\<lambda>t3.
                      Inr (t3\<lparr>ib_recv_head := (last_wr_i + 1) mod kRQDepth, ib_recvs_to_post := 0\<rparr>)))))))))"

subsection \<open>Initialisation\<close>

text \<open>
  \<open>init_recvs\<close> lays the receive ring out in the memory \<open>ring_extent\<close> that \<open>alloc_raw\<close> returned and posts all of it;
  the result is also the array of ring entries of the Rpc object.
\<close>

definition init_recv_one :: "Buffer \<Rightarrow> nat \<Rightarrow> ib_transport \<times> nat list \<Rightarrow> (ib_transport \<times> nat list) res" where
  "init_recv_one ring_extent i = (\<lambda>(t, rx_ring).
    (let buf = the (b_buf ring_extent); offset = i * kRecvSize + (64 - kGRHBytes)
     in assertE (offset + (kGRHBytes + kMTU ib_cfg) \<le> kRQDepth * kRecvSize)
       (Inr (t\<lparr>ib_recv_sgl := (ib_recv_sgl t)[i := \<lparr>sge_addr = buf + offset, sge_length = kRecvSize, sge_lkey = lkey ring_extent\<rparr>],
               ib_recv_wr := (ib_recv_wr t)[i := \<lparr>rw_next = Some (if i < kRQDepth - 1 then i + 1 else 0), rw_wr_id = buf + offset + kGRHBytes,
                                                rw_sg_list = i, rw_num_sge = 1\<rparr>]\<rparr>,
             rx_ring[i := buf + offset + kGRHBytes]))))"

definition init_recvs :: "Buffer \<Rightarrow> nat \<Rightarrow> ib_transport \<Rightarrow> nat list \<Rightarrow> (ib_transport \<times> nat list) res" where
  "init_recvs ring_extent ret t rx_ring =
    (if b_buf ring_extent = None then Inl RuntimeError
     else bindE (forE kRQDepth (init_recv_one ring_extent) (t, rx_ring)) (\<lambda>(t1, rx_ring1).
       bindE (set_recv_next (kRQDepth - 1) None t1) (\<lambda>t2.
       bindE (ibv_post_recv RuntimeError ret 0 t2) (\<lambda>t3.
       bindE (set_recv_next (kRQDepth - 1) (Some 0) t3) (\<lambda>t4. Inr (t4, rx_ring1))))))"

definition init_sends :: "ib_transport \<Rightarrow> ib_transport res" where
  "init_sends t = forE ibPostlist (\<lambda>i t. rangeE (i < length (ib_send_wr t))
    (Inr (t\<lparr>ib_send_wr := (ib_send_wr t)[i := (ib_send_wr t ! i)\<lparr>wr_next := Some (i + 1), wr_qkey := kQKey,
        wr_opcode := IBV_WR_SEND_WITH_IMM, wr_sg_list := i\<rparr>]\<rparr>))) t"

definition init_hugepage_structures :: "Buffer \<Rightarrow> nat \<Rightarrow> ib_transport \<Rightarrow> nat list \<Rightarrow> (ib_transport \<times> nat list) res" where
  "init_hugepage_structures ring_extent ret t rx_ring =
    bindE (init_recvs ring_extent ret t rx_ring) (\<lambda>(t1, ring). bindE (init_sends t1) (\<lambda>t2. Inr (t2, ring)))"

subsection \<open>Selective signaling\<close>

text \<open>
  Every 64th packet is signaled. \<open>sq_low n\<close> is the oldest of the first \<open>n\<close> packets that may still be in the send queue, so that
  the queue holds the packets from there on, with exactly one signaled one between two polls.
\<close>

definition sq_low :: "nat \<Rightarrow> nat" where
  "sq_low n = (if n \<le> ibUnsigBatch then 0 else ibUnsigBatch * ((n - 1) div ibUnsigBatch - 1) + 1)"

abbreviation (input) sq_flags :: "ib_transport \<Rightarrow> bool list" where
  "sq_flags t \<equiv> map (\<lambda>w. wr_signaled (wq_wr w)) (ib_sq t)"

definition sq_ok :: "nat \<Rightarrow> nat \<Rightarrow> ib_transport \<Rightarrow> bool" where
  "sq_ok k n t \<longleftrightarrow> sq_flags t = map (\<lambda>j. ibUnsigBatch dvd j) [sq_low k..<n]"

lemma dropWhile_first:
  assumes "map f xs = us @ True # vs" "True \<notin> set us"
  shows "\<exists>y ys. dropWhile (\<lambda>x. \<not> f x) xs = y # ys \<and> map f ys = vs"
  using assms
proof (induction us arbitrary: xs)
  case Nil
  then show ?case by (cases xs) auto
next
  case (Cons u us)
  then show ?case by (cases xs) auto
qed

lemma poll_flags:
  assumes "sq_flags t = us @ True # vs" "True \<notin> set us"
  shows "\<exists>ws. poll_cq_one_helper 0 t = Inr (t\<lparr>ib_sq := ws\<rparr>) \<and> map (\<lambda>w. wr_signaled (wq_wr w)) ws = vs \<and> (\<exists>ds. ib_sq t = ds @ ws)"
proof -
  obtain y ys where d: "dropWhile (\<lambda>w. \<not> wr_signaled (wq_wr w)) (ib_sq t) = y # ys" "map (\<lambda>w. wr_signaled (wq_wr w)) ys = vs"
    using dropWhile_first [OF assms] by blast
  have "ib_sq t = (takeWhile (\<lambda>w. \<not> wr_signaled (wq_wr w)) (ib_sq t) @ [y]) @ ys"
    using takeWhile_dropWhile_id [of "\<lambda>w. \<not> wr_signaled (wq_wr w)" "ib_sq t"] d(1) by simp
  moreover have "poll_cq_one_helper 0 t = Inr (t\<lparr>ib_sq := ys\<rparr>)" using d(1) by (simp add: poll_cq_one_helper_def)
  ultimately show ?thesis using d(2) by blast
qed

lemma upt_split3: "a \<le> c \<Longrightarrow> c < n \<Longrightarrow> [a..<n] = [a..<c] @ c # [Suc c..<n]"
  using upt_add_eq_append [of a c "n - c"] by (simp add: upt_conv_Cons)

lemma no_multiple:
  assumes "\<And>i. a \<le> 64 * i \<Longrightarrow> 64 * i < c \<Longrightarrow> False"
  shows "True \<notin> set (map (\<lambda>j :: nat. 64 dvd j) [a..<c])"
proof
  assume "True \<in> set (map (\<lambda>j. 64 dvd j) [a..<c])"
  then obtain j where "True = (64 dvd j)" "j \<in> set [a..<c]" unfolding set_map by (rule imageE)
  then obtain i where "j = 64 * i" "a \<le> j" "j < c" unfolding dvd_def by auto
  with assms [of i] show False by simp
qed

text \<open>Polling before packet \<open>64 * m\<close>: the signaled packet is \<open>64 * (m - 1)\<close>, which has been posted.\<close>

lemma poll_at_batch:
  assumes sq: "sq_ok (64 * m) n t" and m: "0 < m" "64 * m < n + 64" "n \<le> 64 * m"
  shows "\<exists>ws. poll_cq_one_helper 0 t = Inr (t\<lparr>ib_sq := ws\<rparr>) \<and> sq_ok (64 * m + 1) n (t\<lparr>ib_sq := ws\<rparr>) \<and> (\<exists>ds. ib_sq t = ds @ ws)"
proof -
  let ?c = "64 * (m - 1)" and ?F = "\<lambda>j :: nat. 64 dvd j"
  obtain k where k: "m = Suc k" using m(1) by (cases m) auto
  have low: "sq_low (64 * m) = (if k = 0 then 0 else 64 * (k - 1) + 1)" "sq_low (64 * m + 1) = 64 * k + 1"
    by (auto simp: sq_low_def k)
  have "sq_low (64 * m) \<le> ?c" "?c < n" using m k unfolding low by auto
  then have "sq_flags t = map ?F [sq_low (64 * m)..<?c] @ True # map ?F [Suc ?c..<n]"
    using sq upt_split3 [of "sq_low (64 * m)" ?c n] by (simp add: sq_ok_def)
  moreover have "True \<notin> set (map ?F [sq_low (64 * m)..<?c])"
  proof (rule no_multiple)
    fix i assume i: "sq_low (64 * m) \<le> 64 * i" "64 * i < ?c"
    have "i < k" using i(2) k by simp
    moreover have "k \<noteq> 0 \<longrightarrow> k \<le> i" using i(1) unfolding low(1) by auto
    ultimately show False by auto
  qed
  ultimately show ?thesis using poll_flags [of t] low k by (auto simp: sq_ok_def)
qed

lemma get_signaled_flag_ok:
  assumes sq: "sq_ok (ib_nb_tx t) n t" and n: "n \<le> ib_nb_tx t" "ib_nb_tx t < n + 16"
  shows "\<exists>ws. get_signaled_flag 0 t = Inr (64 dvd ib_nb_tx t, t\<lparr>ib_sq := ws, ib_nb_tx := ib_nb_tx t + 1\<rparr>) \<and>
    sq_ok (ib_nb_tx t + 1) n (t\<lparr>ib_sq := ws\<rparr>) \<and> (\<exists>ds. ib_sq t = ds @ ws)"
proof (cases "ib_nb_tx t mod 64 = 0 \<and> ib_nb_tx t \<noteq> 0")
  case True
  then obtain m where m: "ib_nb_tx t = 64 * m" "0 < m" by (auto elim!: dvdE simp: mod_eq_0_iff_dvd)
  then show ?thesis using poll_at_batch [of m n t] sq n by (auto simp: get_signaled_flag_def)
next
  case False
  let ?k = "ib_nb_tx t"
  have "sq_low (?k + 1) = sq_low ?k"
  proof (cases "?k = 0")
    case True
    then show ?thesis by (simp add: sq_low_def)
  next
    case k: False
    with False have "?k mod 64 \<noteq> 0" by simp
    then have "(?k - 1) div 64 = ?k div 64" "?k \<noteq> 64"
      using k by (cases ?k; force simp: div_Suc dvd_eq_mod_eq_0)+
    then show ?thesis by (auto simp: sq_low_def)
  qed
  then have "sq_ok (?k + 1) n (t\<lparr>ib_sq := ib_sq t\<rparr>)" using sq by (simp add: sq_ok_def)
  then show ?thesis using False by (intro exI [of _ "ib_sq t"]) (auto simp: get_signaled_flag_def dvd_eq_mod_eq_0)
qed

lemma sq_length: "sq_ok n n t \<Longrightarrow> length (ib_sq t) < kSQDepth"
proof -
  assume "sq_ok n n t"
  then have "length (sq_flags t) = length [sq_low n..<n]" unfolding sq_ok_def by simp
  then have "length (ib_sq t) = n - sq_low n" by simp
  moreover have "n - 1 < 64 * ((n - 1) div 64) + 64"
    using div_mult_mod_eq [of "n - 1" 64] mod_less_divisor [of 64 "n - 1"] by linarith
  then have "n < sq_low n + 128" by (auto simp: sq_low_def)
  ultimately show ?thesis by simp
qed

subsection \<open>Bursts\<close>

text \<open>
  \<open>send_ok\<close>: the SEND requests are linked one after the other, with their constant fields. \<open>prepared item j wr sgl\<close>: the request describes
  the item, as packet number \<open>j\<close>. \<open>rx_part\<close> is the receive side of the transport, which sending does not touch.
\<close>

definition send_ok :: "ib_transport \<Rightarrow> bool" where
  "send_ok t \<longleftrightarrow> length (ib_send_wr t) = ibPostlist + 1 \<and> length (ib_send_sgl t) = ibPostlist \<and>
     (\<forall>i < ibPostlist. wr_next (ib_send_wr t ! i) = Some (i + 1) \<and> wr_qkey (ib_send_wr t ! i) = kQKey \<and>
        wr_opcode (ib_send_wr t ! i) = IBV_WR_SEND_WITH_IMM \<and> wr_sg_list (ib_send_wr t ! i) = i \<and> length (ib_send_sgl t ! i) = 2)"

definition prepared :: "ib_item \<Rightarrow> nat \<Rightarrow> send_wr \<Rightarrow> sge list \<Rightarrow> bool" where
  "prepared item j wr sgl \<longleftrightarrow> wr_signaled wr = (ibUnsigBatch dvd j) \<and> item_sgl item = Inr (take (wr_num_sge wr) sgl) \<and>
     wr_ah wr = ri_ah (it_routing item) \<and> wr_qpn wr = ri_qpn (it_routing item)"

definition rx_part :: "ib_transport \<Rightarrow> nat \<times> nat \<times> recv_wr list \<times> sge list \<times> bool \<times> bool \<times> nat list \<times> nat list" where
  "rx_part t = (ib_recv_head t, ib_recvs_to_post t, ib_recv_wr t, ib_recv_sgl t, ib_use_fast_recv t, ib_fast_recv_used t, ib_rq t, ib_held t)"

definition in_burst :: "ib_transport \<Rightarrow> ib_item list \<Rightarrow> nat \<Rightarrow> ib_transport \<Rightarrow> bool" where
  "in_burst t0 items i t \<longleftrightarrow> send_ok t \<and> ib_nb_tx t = ib_nb_tx t0 + i \<and> sq_ok (ib_nb_tx t) (ib_nb_tx t0) t \<and>
     (\<exists>ds. ib_sq t0 = ds @ ib_sq t) \<and> rx_part t = rx_part t0 \<and>
     (\<forall>k < i. prepared (items ! k) (ib_nb_tx t0 + k) (ib_send_wr t ! k) (ib_send_sgl t ! k))"

lemma item_sgl_cases:
  assumes "mb_buf (it_msg_buffer item) \<noteq> None"
  shows "\<exists>sgl. item_sgl item = Inr sgl \<and> 0 < length sgl \<and> length sgl \<le> 2"
  using assms by (auto simp: item_sgl_def Let_def)

lemma tx_one_ok:
  assumes b: "in_burst t0 items i t" and i: "i < length items" "length items \<le> ibPostlist"
    and m: "mb_buf (it_msg_buffer (items ! i)) \<noteq> None"
  shows "holds (in_burst t0 items (Suc i)) (tx_one 0 i (items ! i) t)"
proof -
  let ?wr = "ib_send_wr t ! i"
  have so: "send_ok t" using b by (simp add: in_burst_def)
  have wr: "i < length (ib_send_wr t)" "i < length (ib_send_sgl t)" "wr_next ?wr = Some (i + 1)" "wr_qkey ?wr = kQKey"
      "wr_opcode ?wr = IBV_WR_SEND_WITH_IMM" "wr_sg_list ?wr = i" "length (ib_send_sgl t ! i) = 2"
    using so i by (auto simp: send_ok_def)
  obtain ws where ws: "get_signaled_flag 0 t = Inr (64 dvd ib_nb_tx t, t\<lparr>ib_sq := ws, ib_nb_tx := ib_nb_tx t + 1\<rparr>)"
      "sq_ok (ib_nb_tx t + 1) (ib_nb_tx t0) (t\<lparr>ib_sq := ws\<rparr>)" "\<exists>ds. ib_sq t = ds @ ws"
    using get_signaled_flag_ok [of t "ib_nb_tx t0"] b i by (auto simp: in_burst_def)
  obtain sgl where sgl: "item_sgl (items ! i) = Inr sgl" "0 < length sgl" "length sgl \<le> 2" using item_sgl_cases [OF m] by blast
  let ?wr1 = "?wr\<lparr>wr_signaled := 64 dvd ib_nb_tx t, wr_inline := (length sgl = 1 \<and> sge_length (sgl ! 0) \<le> kMaxInline),
        wr_num_sge := length sgl, wr_ah := ri_ah (it_routing (items ! i)), wr_qpn := ri_qpn (it_routing (items ! i))\<rparr>"
  let ?sgl1 = "sgl @ drop (length sgl) (ib_send_sgl t ! i)"
  let ?t1 = "t\<lparr>ib_sq := ws, ib_nb_tx := ib_nb_tx t + 1, ib_send_wr := (ib_send_wr t)[i := ?wr1], ib_send_sgl := (ib_send_sgl t)[i := ?sgl1]\<rparr>"
  have run: "tx_one 0 i (items ! i) t = Inr ?t1"
    using wr by (simp add: tx_one_def ws(1) sgl(1) Let_def)
  have "send_ok ?t1" using so wr sgl by (auto simp: send_ok_def nth_list_update)
  moreover have "prepared (items ! k) (ib_nb_tx t0 + k) (ib_send_wr ?t1 ! k) (ib_send_sgl ?t1 ! k)" if "k < Suc i" for k
    using that b wr(1,2) sgl by (cases "k = i") (auto simp: in_burst_def prepared_def)
  moreover have "sq_ok (ib_nb_tx ?t1) (ib_nb_tx t0) ?t1" using ws(2) by (simp add: sq_ok_def)
  moreover have "\<exists>ds. ib_sq t0 = ds @ ib_sq ?t1" using b ws(3) by (auto simp: in_burst_def)
  ultimately show ?thesis using b by (simp add: run in_burst_def rx_part_def)
qed

lemma wr_chain_upt:
  assumes "\<And>j. i \<le> j \<Longrightarrow> j < k - 1 \<Longrightarrow> wr_next (ws ! j) = Some (j + 1)" "wr_next (ws ! (k - 1)) = None" "k \<le> length ws" "i < k" "k - i \<le> n"
  shows "wr_chain n (Some i) ws = Inr [i..<k]"
  using assms
proof (induction n arbitrary: i)
  case (Suc n)
  show ?case
  proof (cases "i = k - 1")
    case True
    then show ?thesis using Suc.prems by (auto simp: upt_rec)
  next
    case False
    then have "wr_chain n (Some (i + 1)) ws = Inr [i + 1..<k]" using Suc.prems by (intro Suc.IH) auto
    then show ?thesis using Suc.prems False by (simp add: upt_conv_Cons)
  qed
qed simp

definition items_ok :: "ib_item list \<Rightarrow> bool" where
  "items_ok items \<longleftrightarrow> 0 < length items \<and> length items \<le> ibPostlist \<and> (\<forall>item \<in> set items. mb_buf (it_msg_buffer item) \<noteq> None)"

definition burst_done :: "ib_transport \<Rightarrow> ib_item list \<Rightarrow> ib_transport \<Rightarrow> bool" where
  "burst_done t0 items t \<longleftrightarrow> send_ok t \<and> ib_nb_tx t = ib_nb_tx t0 + length items \<and> sq_ok (ib_nb_tx t) (ib_nb_tx t) t \<and> rx_part t = rx_part t0 \<and>
     (\<exists>ds ks ws. ib_sq t0 = ds @ ks \<and> ib_sq t = ks @ ws \<and>
        list_all2 (\<lambda>item w. item_sgl item = Inr (wq_sgl w) \<and> wr_ah (wq_wr w) = ri_ah (it_routing item) \<and> wr_qpn (wq_wr w) = ri_qpn (it_routing item)) items ws)"

lemma sq_low_le: "sq_low k \<le> k"
proof -
  have "64 * ((k - 1) div 64) \<le> k - 1" by simp
  then show ?thesis unfolding sq_low_def by (auto simp: diff_mult_distrib2)
qed

lemma sq_low_burst: "k \<le> n + 16 \<Longrightarrow> n \<le> k \<Longrightarrow> 0 < n \<Longrightarrow> sq_low k \<le> n"
proof -
  assume k: "k \<le> n + 16" "n \<le> k" "0 < n"
  have "64 * ((k - 1) div 64) \<le> k - 1" by simp
  with k show ?thesis unfolding sq_low_def by (auto simp: diff_mult_distrib2)
qed

lemma sq_low_append: "k \<le> 16 \<Longrightarrow> [sq_low (n + k)..<n] @ [n..<n + k] = [sq_low (n + k)..<n + k]"
proof (cases "n = 0")
  case True
  moreover assume "k \<le> 16"
  ultimately have "sq_low (n + k) = 0" by (auto simp: sq_low_def)
  with True show ?thesis by simp
next
  case False
  moreover assume "k \<le> 16"
  ultimately have "sq_low (n + k) \<le> n" by (intro sq_low_burst) auto
  then show ?thesis by (rule upt_add_eq_append [symmetric])
qed

text \<open>Breaking the chain after request \<open>j\<close>, posting and restoring it adds the first \<open>j + 1\<close> requests to the send queue.\<close>

definition wr_linked :: "ib_transport \<Rightarrow> bool" where
  "wr_linked t \<longleftrightarrow> length (ib_send_wr t) = ibPostlist + 1 \<and> (\<forall>i < ibPostlist. wr_next (ib_send_wr t ! i) = Some (i + 1))"

lemma send_ok_linked: "send_ok t \<Longrightarrow> wr_linked t"
  by (simp add: send_ok_def wr_linked_def)

lemma break_post_restore:
  assumes so: "wr_linked t" and j: "j < ibPostlist"
    and ws: "ws = (ib_send_wr t)[j := (ib_send_wr t ! j)\<lparr>wr_next := None\<rparr>]"
  shows "bindE (set_next j None t) (\<lambda>t2. bindE (ibv_post_send 0 t2) (set_next j (Some (Suc j)))) =
    Inr (t\<lparr>ib_sq := ib_sq t @ map (\<lambda>i. \<lparr>wq_wr = ws ! i, wq_sgl = take (wr_num_sge (ws ! i)) (ib_send_sgl t ! wr_sg_list (ws ! i))\<rparr>) [0..<Suc j]\<rparr>)"
proof -
  have l: "length (ib_send_wr t) = 17" using so by (simp add: wr_linked_def)
  have chain: "wr_chain 17 (Some 0) ws = Inr [0..<Suc j]"
    using so j l unfolding ws by (intro wr_chain_upt) (auto simp: wr_linked_def nth_list_update)
  have nx: "(ib_send_wr t ! j)\<lparr>wr_next := Some (Suc j)\<rparr> = ib_send_wr t ! j"
    using so j by (auto simp: wr_linked_def intro!: send_wr.equality)
  have "set_next j None t = Inr (t\<lparr>ib_send_wr := ws\<rparr>)" using j l by (simp add: set_next_def ws)
  moreover have "ibv_post_send 0 (t\<lparr>ib_send_wr := ws\<rparr>) = Inr (t\<lparr>ib_send_wr := ws, ib_sq := ib_sq t @ map (\<lambda>i. \<lparr>wq_wr = ws ! i,
      wq_sgl = take (wr_num_sge (ws ! i)) (ib_send_sgl t ! wr_sg_list (ws ! i))\<rparr>) [0..<Suc j]\<rparr>)"
    using chain l by (simp add: ibv_post_send_def ws)
  moreover have "ws[j := (ws ! j)\<lparr>wr_next := Some (Suc j)\<rparr>] = ib_send_wr t" "j < length ws" using j l nx by (simp_all add: ws)
  ultimately show ?thesis by (simp add: set_next_def)
qed

lemma tx_burst_ok:
  assumes so: "send_ok t" and sq: "sq_ok (ib_nb_tx t) (ib_nb_tx t) t" and it: "items_ok items"
  shows "holds (burst_done t items) (tx_burst 0 0 items t)"
proof -
  let ?k = "length items"
  have k: "0 < ?k" "?k \<le> 16" using it by (auto simp: items_ok_def)
  have "holds (in_burst t items ?k) (forE ?k (\<lambda>i. tx_one 0 i (items ! i)) t)"
  proof (rule holds_forE)
    show "in_burst t items 0 t" using so sq by (simp add: in_burst_def)
  qed (use it tx_one_ok in \<open>auto simp: items_ok_def\<close>)
  then obtain t1 where t1: "forE ?k (\<lambda>i. tx_one 0 i (items ! i)) t = Inr t1" "in_burst t items ?k t1" by (auto simp: holds_iff)
  have s1: "send_ok t1" using t1(2) by (simp add: in_burst_def)
  let ?ws = "(ib_send_wr t1)[?k - 1 := (ib_send_wr t1 ! (?k - 1))\<lparr>wr_next := None\<rparr>]"
  let ?new = "map (\<lambda>i. \<lparr>wq_wr = ?ws ! i, wq_sgl = take (wr_num_sge (?ws ! i)) (ib_send_sgl t1 ! wr_sg_list (?ws ! i))\<rparr>) [0..<?k]"
  let ?t' = "t1\<lparr>ib_sq := ib_sq t1 @ ?new\<rparr>"
  have sub: "sub64 ?k 1 = ?k - 1" "Suc (?k - 1) = ?k" using k(1) by (cases items; simp)+
  have run: "tx_burst 0 0 items t = Inr ?t'"
    using break_post_restore [OF send_ok_linked [OF s1] _ refl, of "?k - 1", unfolded sub(2)] k by (simp add: tx_burst_def t1(1) sub(1) del: One_nat_def)
  have wr: "wr_signaled (?ws ! i) = (64 dvd (ib_nb_tx t + i))" "item_sgl (items ! i) = Inr (take (wr_num_sge (?ws ! i)) (ib_send_sgl t1 ! wr_sg_list (?ws ! i)))"
      "wr_ah (?ws ! i) = ri_ah (it_routing (items ! i))" "wr_qpn (?ws ! i) = ri_qpn (it_routing (items ! i))" if "i < ?k" for i
    using t1(2) that k by (cases "i = ?k - 1"; auto simp: in_burst_def prepared_def send_ok_def)+
  have "map (\<lambda>w. wr_signaled (wq_wr w)) ?new = map (\<lambda>j. 64 dvd j) [ib_nb_tx t..<ib_nb_tx t + ?k]"
    by (rule nth_equalityI) (use wr(1) in auto)
  then have "sq_flags ?t' = map (\<lambda>j. 64 dvd j) ([sq_low (ib_nb_tx t + ?k)..<ib_nb_tx t] @ [ib_nb_tx t..<ib_nb_tx t + ?k])"
    using t1(2) by (simp add: in_burst_def sq_ok_def)
  also have "[sq_low (ib_nb_tx t + ?k)..<ib_nb_tx t] @ [ib_nb_tx t..<ib_nb_tx t + ?k] = [sq_low (ib_nb_tx t + ?k)..<ib_nb_tx t + ?k]"
    by (rule sq_low_append) (use k in simp)
  finally have "sq_ok (ib_nb_tx t + ?k) (ib_nb_tx t + ?k) ?t'" by (simp add: sq_ok_def)
  moreover have "list_all2 (\<lambda>item w. item_sgl item = Inr (wq_sgl w) \<and> wr_ah (wq_wr w) = ri_ah (it_routing item) \<and> wr_qpn (wq_wr w) = ri_qpn (it_routing item)) items ?new"
    using wr(2-4) by (simp add: list_all2_conv_all_nth)
  ultimately show ?thesis using t1(2) unfolding run
    by (auto simp: burst_done_def in_burst_def send_ok_def rx_part_def)
qed

text \<open>Between two polls exactly one request is signaled: the last multiple of 64.\<close>

lemma one_signaled:
  assumes n: "0 < n"
  shows "\<exists>us vs. map (\<lambda>j :: nat. ibUnsigBatch dvd j) [sq_low n..<n] = us @ True # vs \<and> True \<notin> set us \<and> True \<notin> set vs"
proof -
  let ?F = "\<lambda>j :: nat. 64 dvd j"
  define m where "m = (n - 1) div 64"
  have m: "64 * m \<le> n - 1" "n - 1 < 64 * m + 64" unfolding m_def by (simp, presburger)
  have low: "sq_low n = (if n \<le> 64 then 0 else 64 * (m - 1) + 1)" by (simp add: sq_low_def m_def)
  have "sq_low n \<le> 64 * m" "64 * m < n" using m n unfolding low by auto
  then have "map ?F [sq_low n..<n] = map ?F [sq_low n..<64 * m] @ True # map ?F [Suc (64 * m)..<n]"
    using upt_split3 [of "sq_low n" "64 * m" n] by simp
  moreover have "True \<notin> set (map ?F [sq_low n..<64 * m])"
    by (rule no_multiple) (use m n in \<open>auto simp: low split: if_splits\<close>)
  moreover have "True \<notin> set (map ?F [Suc (64 * m)..<n])"
  proof (rule no_multiple)
    fix i assume i: "Suc (64 * m) \<le> 64 * i" "64 * i < n"
    then have "m + 1 \<le> i" by linarith
    then have "64 * (m + 1) \<le> 64 * i" by (rule mult_le_mono2)
    moreover have "n \<le> 64 * m + 64" using m n by linarith
    ultimately show False using i by simp
  qed
  ultimately show ?thesis by blast
qed

definition flush_done :: "ib_transport \<Rightarrow> ib_transport \<Rightarrow> bool" where
  "flush_done t0 t \<longleftrightarrow> send_ok t \<and> ib_nb_tx t = 0 \<and> ib_sq t = [] \<and> rx_part t = rx_part t0"

lemma tx_flush_ok:
  assumes so: "send_ok t" and sq: "sq_ok (ib_nb_tx t) (ib_nb_tx t) t"
  shows "holds (flush_done t) (tx_flush 0 0 fb t)"
proof (cases "ib_nb_tx t = 0")
  case True
  with so sq show ?thesis by (simp add: tx_flush_def flush_done_def sq_ok_def)
next
  case False
  then obtain us vs where "sq_flags t = us @ True # vs" "True \<notin> set us" and vs: "True \<notin> set vs"
    using one_signaled [of "ib_nb_tx t"] sq by (auto simp: sq_ok_def)
  then obtain ws where ws: "poll_cq_one_helper 0 t = Inr (t\<lparr>ib_sq := ws\<rparr>)" "map (\<lambda>w. wr_signaled (wq_wr w)) ws = vs"
    using poll_flags [of t] by blast
  let ?wrN = "(ib_send_wr t ! 0)\<lparr>wr_next := None, wr_signaled := True, wr_inline := True, wr_num_sge := 1, wr_qpn := 0, wr_ah := ib_self_ah t\<rparr>"
  let ?wr = "(ib_send_wr t ! 0)\<lparr>wr_signaled := True, wr_inline := True, wr_num_sge := 1, wr_qpn := 0, wr_ah := ib_self_ah t\<rparr>"
  let ?sgl = "(ib_send_sgl t)[0 := (ib_send_sgl t ! 0)[0 := (ib_send_sgl t ! 0 ! 0)\<lparr>sge_addr := fb, sge_length := 1\<rparr>]]"
  let ?t = "t\<lparr>ib_sq := ws, ib_send_sgl := ?sgl, ib_send_wr := (ib_send_wr t)[0 := ?wr]\<rparr>"
  have l: "length (ib_send_wr t) = 17" "length (ib_send_sgl t) = 16" using so by (auto simp: send_ok_def)
  then have ne: "ib_send_wr t \<noteq> []" "ib_send_sgl t \<noteq> []" by auto
  have wr0: "?wr\<lparr>wr_next := None\<rparr> = ?wrN" by (cases "ib_send_wr t ! 0") simp
  have so1: "send_ok ?t" using so by (auto simp: send_ok_def nth_list_update)
  obtain w where w: "bindE (set_next 0 None ?t) (\<lambda>t2. bindE (ibv_post_send 0 t2) (set_next 0 (Some (Suc 0)))) = Inr (?t\<lparr>ib_sq := ws @ [w]\<rparr>)"
      "wr_signaled (wq_wr w)"
    using break_post_restore [OF send_ok_linked [OF so1] _ refl, of 0] l by simp
  have "sq_flags (?t\<lparr>ib_sq := ws @ [w]\<rparr>) = vs @ True # []" using ws(2) w(2) by simp
  from poll_flags [OF this vs] have p2: "poll_cq_one_helper 0 (?t\<lparr>ib_sq := ws @ [w]\<rparr>) = Inr (?t\<lparr>ib_sq := []\<rparr>)" by auto
  have "set_next 0 None ?t = Inr (t\<lparr>ib_sq := ws, ib_send_sgl := ?sgl, ib_send_wr := (ib_send_wr t)[0 := ?wrN]\<rparr>)"
    unfolding wr0 [symmetric] using l ne by (simp add: set_next_def)
  with w(1) obtain t3 where p1: "ibv_post_send 0 (t\<lparr>ib_sq := ws, ib_send_sgl := ?sgl, ib_send_wr := (ib_send_wr t)[0 := ?wrN]\<rparr>) = Inr t3"
      "set_next 0 (Some (Suc 0)) t3 = Inr (?t\<lparr>ib_sq := ws @ [w]\<rparr>)" by (auto simp: bindE_eq_Inr)
  have "tx_flush 0 0 fb t = Inr (?t\<lparr>ib_sq := [], ib_nb_tx := 0, ib_tx_flush_count := ib_tx_flush_count t + 1\<rparr>)"
    using False so l ne p1 p2 by (simp add: tx_flush_def ws(1) send_ok_def Let_def)
  then show ?thesis using so1 by (simp add: flush_done_def send_ok_def rx_part_def)
qed

subsection \<open>The receive ring\<close>

text \<open>
  \<open>ring_from h\<close> are the entries of the ring, from entry \<open>h\<close> on. The released entries that wait to be posted, those
  the Rpc object holds and those in the receive queue are the whole ring, in this order.
\<close>

definition ring_from :: "nat \<Rightarrow> nat list" where
  "ring_from h = rotate h [0..<kRQDepth]"

definition ring_slack :: "ib_transport \<Rightarrow> nat list" where
  "ring_slack t = take (ib_recvs_to_post t) (ring_from (ib_recv_head t))"

definition circular :: "recv_wr list \<Rightarrow> bool" where
  "circular ws \<longleftrightarrow> length ws = kRQDepth \<and> (\<forall>i < kRQDepth. rw_next (ws ! i) = Some ((i + 1) mod kRQDepth))"

definition recv_ok :: "ib_transport \<Rightarrow> bool" where
  "recv_ok t \<longleftrightarrow> circular (ib_recv_wr t) \<and> ib_recv_head t < kRQDepth \<and> ib_recvs_to_post t < kRecvSlack \<and>
     \<not> ib_fast_recv_used t \<and> \<not> ib_use_fast_recv t \<and>
     ring_slack t @ ib_held t @ ib_rq t = ring_from (ib_recv_head t)"

lemma length_ring_from [simp]: "length (ring_from h) = kRQDepth"
  by (simp add: ring_from_def)

lemma ring_from_nth: "i < kRQDepth \<Longrightarrow> ring_from h ! i = (h + i) mod kRQDepth"
  by (simp add: ring_from_def nth_rotate)

lemma ring_from_mod [simp]: "ring_from (h mod kRQDepth) = ring_from h"
  using rotate_conv_mod [of h "[0..<kRQDepth]"] by (simp add: ring_from_def)

lemma ring_from_add: "p \<le> kRQDepth \<Longrightarrow> ring_from (h + p) = drop p (ring_from h) @ take p (ring_from h)"
proof -
  assume p: "p \<le> kRQDepth"
  have "ring_from (h + p) = rotate p (ring_from h)" by (simp add: ring_from_def rotate_rotate add.commute)
  also have "\<dots> = drop p (ring_from h) @ take p (ring_from h)"
    using p by (cases "p = kRQDepth") (simp_all add: rotate_drop_take)
  finally show ?thesis .
qed

lemma wrap_once: "a < kRQDepth + kRQDepth \<Longrightarrow> wrap_rq a = a mod kRQDepth"
  by (simp add: wrap_rq_def mod_if)

lemma recv_chain_ring:
  assumes "p \<le> n" "0 < p" "p \<le> kRQDepth" "length ws = kRQDepth" "h < kRQDepth"
    "\<And>j. j < p - 1 \<Longrightarrow> rw_next (ws ! ((h + j) mod kRQDepth)) = Some ((h + j + 1) mod kRQDepth)"
    "rw_next (ws ! ((h + p - 1) mod kRQDepth)) = None"
  shows "recv_chain n (Some h) ws = Inr (map (\<lambda>j. (h + j) mod kRQDepth) [0..<p])"
  using assms
proof (induction p arbitrary: n h)
  case (Suc p)
  obtain m where n: "n = Suc m" using Suc.prems(1) by (cases n) auto
  show ?case
  proof (cases "p = 0")
    case True
    then show ?thesis using Suc.prems n by (cases m) auto
  next
    case False
    let ?h = "(h + 1) mod 4096"
    have "rw_next (ws ! h) = Some ?h" using Suc.prems(6) [of 0] Suc.prems(5) False by simp
    moreover have "recv_chain m (Some ?h) ws = Inr (map (\<lambda>j. (?h + j) mod 4096) [0..<p])"
    proof (rule Suc.IH)
      fix j assume "j < p - 1"
      then show "rw_next (ws ! ((?h + j) mod 4096)) = Some ((?h + j + 1) mod 4096)"
        using Suc.prems(6) [of "Suc j"] mod_add_left_eq [of "h + 1" 4096 j] mod_add_left_eq [of "h + 1" 4096 "j + 1"] by simp
    next
      have "(?h + p - 1) mod 4096 = (?h + (p - 1)) mod 4096" using False by simp
      also have "\<dots> = ((h + 1) + (p - 1)) mod 4096" by (rule mod_add_left_eq)
      also have "(h + 1) + (p - 1) = h + Suc p - 1" using False by simp
      finally show "rw_next (ws ! ((?h + p - 1) mod 4096)) = None" using Suc.prems(7) by simp
    qed (use Suc.prems n False in auto)
    moreover have "map (\<lambda>j. (?h + j) mod 4096) [0..<p] = map (\<lambda>j. (h + j) mod 4096) [Suc 0..<Suc p]"
      by (rule nth_equalityI) (simp_all add: mod_simps del: upt_Suc)
    ultimately show ?thesis using Suc.prems n by (simp add: upt_conv_Cons del: upt_Suc)
  qed
qed simp

lemma circularD: "circular ws \<Longrightarrow> rw_next (ws ! (i mod kRQDepth)) = Some ((i + 1) mod kRQDepth)"
  by (simp add: circular_def mod_simps)

text \<open>Cutting the ring behind the last released entry, posting and closing it again posts exactly the released entries.\<close>

lemma cut_post_close:
  assumes c: "circular (ib_recv_wr t)" and h: "ib_recv_head t < kRQDepth" and p: "0 < p" "p \<le> kRQDepth"
    and l: "l = (ib_recv_head t + (p - 1)) mod kRQDepth"
  shows "bindE (set_recv_next l None t) (\<lambda>t1. bindE (ibv_post_recv e 0 (ib_recv_head t) t1) (set_recv_next l (Some ((l + 1) mod kRQDepth)))) =
    Inr (t\<lparr>ib_rq := ib_rq t @ take p (ring_from (ib_recv_head t))\<rparr>)"
proof -
  let ?h = "ib_recv_head t" and ?ws = "(ib_recv_wr t)[l := (ib_recv_wr t ! l)\<lparr>rw_next := None\<rparr>]"
  have len: "length (ib_recv_wr t) = 4096" "l < 4096" using c l by (auto simp: circular_def)
  have other: "(?h + j) mod 4096 \<noteq> l" if "j < p - 1" for j
  proof
    assume "(?h + j) mod 4096 = l"
    then have "ring_from ?h ! j = ring_from ?h ! (p - 1)" using that p l by (simp add: ring_from_nth)
    moreover have "distinct (ring_from ?h)" by (simp add: ring_from_def)
    ultimately show False using that p by (simp add: nth_eq_iff_index_eq)
  qed
  have "recv_chain 4096 (Some ?h) ?ws = Inr (map (\<lambda>j. (?h + j) mod 4096) [0..<p])"
  proof (rule recv_chain_ring)
    show "rw_next (?ws ! ((?h + p - 1) mod 4096)) = None" using len l p by simp
    show "rw_next (?ws ! ((?h + j) mod 4096)) = Some ((?h + j + 1) mod 4096)" if "j < p - 1" for j
      using other [OF that] circularD [OF c, of "?h + j"] by simp
  qed (use len h p in auto)
  also have "map (\<lambda>j. (?h + j) mod 4096) [0..<p] = take p (ring_from ?h)"
    by (rule nth_equalityI) (use p in \<open>auto simp: ring_from_nth\<close>)
  finally have "ibv_post_recv e 0 ?h (t\<lparr>ib_recv_wr := ?ws\<rparr>) = Inr (t\<lparr>ib_recv_wr := ?ws, ib_rq := ib_rq t @ take p (ring_from ?h)\<rparr>)"
    using len by (simp add: ibv_post_recv_def)
  moreover have "(ib_recv_wr t ! l)\<lparr>rw_next := Some ((l + 1) mod 4096)\<rparr> = ib_recv_wr t ! l"
    using circularD [OF c, of l] len by (auto intro!: recv_wr.equality)
  ultimately show ?thesis using len by (simp add: set_recv_next_def)
qed

lemma rx_burst_ok:
  assumes r: "recv_ok t" and n: "n \<le> length (ib_rq t)"
  shows "\<exists>t'. rx_burst (int n) t = Inr (n, t') \<and> recv_ok t' \<and> ib_held t' = ib_held t @ take n (ib_rq t)"
  using r by (simp add: rx_burst_def recv_ok_def ring_slack_def)

lemma post_recvs_ok:
  assumes r: "recv_ok t" and n: "n \<le> length (ib_held t)"
  shows "holds (\<lambda>t'. recv_ok t' \<and> ib_held t' = drop n (ib_held t) \<and> (\<exists>ps. ib_rq t' = ib_rq t @ ps)) (post_recvs 0 fast n t)"
proof -
  let ?h = "ib_recv_head t" and ?p = "ib_recvs_to_post t + n"
  let ?t = "t\<lparr>ib_recvs_to_post := ?p, ib_held := drop n (ib_held t)\<rparr>"
  have R: "ring_slack t @ ib_held t @ ib_rq t = ring_from ?h" and c: "circular (ib_recv_wr t)" and h: "?h < 4096"
    and q: "ib_recvs_to_post t < 32" "\<not> ib_fast_recv_used t" "\<not> ib_use_fast_recv t"
    using r by (auto simp: recv_ok_def)
  have sl: "length (ring_slack t) = ib_recvs_to_post t" using q(1) by (simp add: ring_slack_def)
  have "length (ring_slack t @ ib_held t @ ib_rq t) = 4096" unfolding R by simp
  with sl n have p: "?p \<le> 4096" "n \<le> 4096" by auto
  have split: "take ?p (ring_from ?h) = ring_slack t @ take n (ib_held t)" "drop ?p (ring_from ?h) = drop n (ib_held t) @ ib_rq t"
    using sl n unfolding R [symmetric] by simp_all
  show ?thesis
  proof (cases "?p < 32")
    case True
    have "ring_slack ?t @ drop n (ib_held t) @ ib_rq t = ring_from ?h"
      unfolding split(2) [symmetric] by (simp add: ring_slack_def)
    then have "recv_ok ?t" using c h q True by (simp add: recv_ok_def)
    then show ?thesis using q p True by (simp add: post_recvs_def)
  next
    case False
    let ?l = "(?h + (?p - 1)) mod 4096"
    have p0: "0 < ?p" using False by linarith
    have l: "wrap_rq (?h + (?p - 1)) = ?l"
      using h p(1) by (intro wrap_once) linarith
    have lw: "?l < length (ib_recv_wr t)" "rw_next (ib_recv_wr t ! ?l) = Some ((?l + 1) mod 4096)"
      using c circularD [OF c, of ?l] by (auto simp: circular_def)
    have "bindE (set_recv_next ?l None ?t) (\<lambda>t1. bindE (ibv_post_recv ExitProcess 0 ?h t1) (set_recv_next ?l (Some ((?l + 1) mod 4096)))) =
        Inr (?t\<lparr>ib_rq := ib_rq t @ take ?p (ring_from ?h)\<rparr>)"
      using cut_post_close [of ?t ?p ?l ExitProcess, OF _ _ p0 p(1)] c h by simp
    then obtain t1 t2 where run: "set_recv_next ?l None ?t = Inr t1" "ibv_post_recv ExitProcess 0 ?h t1 = Inr t2"
        "set_recv_next ?l (Some ((?l + 1) mod 4096)) t2 = Inr (?t\<lparr>ib_rq := ib_rq t @ take ?p (ring_from ?h)\<rparr>)"
      by (auto simp: bindE_eq_Inr)
    let ?t' = "?t\<lparr>ib_rq := ib_rq t @ take ?p (ring_from ?h), ib_recv_head := (?l + 1) mod 4096, ib_recvs_to_post := 0\<rparr>"
    have post: "post_recvs 0 fast n t = Inr ?t'"
      using q p False l lw run by (simp add: post_recvs_def Let_def)
    have "ring_from ((?l + 1) mod 4096) = ring_from (?h + (?p - 1) + 1)"
      by (simp only: mod_add_left_eq ring_from_mod)
    also have "?h + (?p - 1) + 1 = ?h + ?p" using p0 by linarith
    also have "ring_from (?h + ?p) = drop n (ib_held t) @ ib_rq t @ take ?p (ring_from ?h)"
      using ring_from_add [OF p(1), of ?h] split(2) by simp
    finally have "recv_ok ?t'" using c q by (simp add: recv_ok_def ring_slack_def)
    then show ?thesis by (simp add: post)
  qed
qed

subsection \<open>The contract of the receive side\<close>

definition ib_holds :: "ib_transport \<Rightarrow> nat list \<Rightarrow> bool" where
  "ib_holds t ms \<longleftrightarrow> recv_ok t \<and> ib_held t = ms"

definition ib_can :: "ib_transport \<Rightarrow> nat \<Rightarrow> nat list \<Rightarrow> bool" where
  "ib_can t k ns \<longleftrightarrow> length ns \<le> ibPostlist \<and> ns = take (length ns) (ib_rq t)"

definition ib_rx :: "nat list \<Rightarrow> ib_transport \<Rightarrow> ib_transport res" where
  "ib_rx ns t = bindE (rx_burst (int (length ns)) t) (\<lambda>(_, t'). Inr t')"

definition ib_post :: "nat \<Rightarrow> ib_transport \<Rightarrow> (ib_transport \<times> nat list) res" where
  "ib_post n t = bindE (post_recvs 0 [] n t) (\<lambda>t'. Inr (t', take n (ib_held t)))"

interpretation ib_ring: rx_contract ib_holds ib_can ib_rx ib_post
proof unfold_locales
  fix t ms ns assume h: "ib_holds t ms" "ib_can t (length ms) ns"
  have "length ns \<le> length (ib_rq t)" using h(2) unfolding ib_can_def by (metis length_take min.cobounded1)
  with h show "\<exists>t'. ib_rx ns t = Inr t' \<and> ib_holds t' (ms @ ns)"
    using rx_burst_ok [of t "length ns"] by (auto simp: ib_holds_def ib_can_def ib_rx_def)
next
  fix t ms n assume "ib_holds t ms" "n \<le> length ms"
  then show "\<exists>t'. ib_post n t = Inr (t', take n ms) \<and> ib_holds t' (drop n ms)"
    using post_recvs_ok [of t n "[]"] by (auto simp: ib_holds_def ib_post_def holds_iff)
qed

text \<open>The entries of the receive ring are released in the order in which the NIC filled them.\<close>

lemma ib_rx_fifo: "ib_holds t0 [] \<Longrightarrow> rx_reach ib_can ib_rx ib_post t0 t got freed \<Longrightarrow> got = freed @ ib_held t"
  using ib_ring.reach_split [of t0 t got freed] by (auto simp: ib_holds_def)

subsection \<open>The start state\<close>

text \<open>The fields of a new transport object: arrays of the declared sizes, counters 0, nothing posted.\<close>

definition fresh_transport :: "ib_transport \<Rightarrow> bool" where
  "fresh_transport t \<longleftrightarrow> ib_nb_tx t = 0 \<and> length (ib_send_wr t) = ibPostlist + 1 \<and> length (ib_send_sgl t) = ibPostlist \<and>
     (\<forall>sgl \<in> set (ib_send_sgl t). length sgl = 2) \<and> ib_recv_head t = 0 \<and> ib_recvs_to_post t = 0 \<and>
     length (ib_recv_wr t) = kRQDepth \<and> length (ib_recv_sgl t) = kRQDepth \<and> \<not> ib_fast_recv_used t \<and> \<not> ib_use_fast_recv t \<and>
     ib_sq t = [] \<and> ib_rq t = [] \<and> ib_held t = []"

text \<open>The slot of ring entry \<open>i\<close>: its address, and the packet address behind the global route header.\<close>

definition slot_addr :: "nat \<Rightarrow> nat \<Rightarrow> nat" where
  "slot_addr buf i = buf + (i * kRecvSize + (64 - kGRHBytes))"

definition ring_laid :: "nat \<Rightarrow> Buffer \<Rightarrow> nat \<Rightarrow> recv_wr list \<Rightarrow> sge list \<Rightarrow> nat list \<Rightarrow> bool" where
  "ring_laid buf ext k wrs sgl ring \<longleftrightarrow> length wrs = kRQDepth \<and> length sgl = kRQDepth \<and> length ring = kRQDepth \<and>
     (\<forall>i < k. sgl ! i = \<lparr>sge_addr = slot_addr buf i, sge_length = kRecvSize, sge_lkey = lkey ext\<rparr> \<and>
        wrs ! i = \<lparr>rw_next = Some ((i + 1) mod kRQDepth), rw_wr_id = slot_addr buf i + kGRHBytes, rw_sg_list = i, rw_num_sge = 1\<rparr> \<and>
        ring ! i = slot_addr buf i + kGRHBytes)"

definition laying :: "nat \<Rightarrow> Buffer \<Rightarrow> ib_transport \<Rightarrow> nat \<Rightarrow> ib_transport \<times> nat list \<Rightarrow> bool" where
  "laying buf ext t0 k tr \<longleftrightarrow> (\<exists>wrs sgl ring. tr = (t0\<lparr>ib_recv_sgl := sgl, ib_recv_wr := wrs\<rparr>, ring) \<and> ring_laid buf ext k wrs sgl ring)"

lemma init_recv_one_ok:
  assumes b: "b_buf ext = Some buf" and i: "i < kRQDepth" and l: "laying buf ext t0 i tr"
  shows "holds (laying buf ext t0 (Suc i)) (init_recv_one ext i tr)"
proof -
  obtain wrs sgl ring where tr: "tr = (t0\<lparr>ib_recv_sgl := sgl, ib_recv_wr := wrs\<rparr>, ring)" "ring_laid buf ext i wrs sgl ring"
    using l by (auto simp: laying_def)
  have "i * kRecvSize \<le> 4095 * kRecvSize" by (rule mult_le_mono1) (use i in simp)
  then have "i * kRecvSize + 24 + (40 + kMTU ib_cfg) \<le> 4096 * kRecvSize" by (simp add: kRecvSize_def)
  moreover have "(if i < 4095 then i + 1 else 0) = (i + 1) mod 4096" using i by (cases "i = 4095") auto
  ultimately have "init_recv_one ext i tr = Inr (t0\<lparr>ib_recv_sgl := sgl[i := \<lparr>sge_addr = slot_addr buf i, sge_length = kRecvSize, sge_lkey = lkey ext\<rparr>],
      ib_recv_wr := wrs[i := \<lparr>rw_next = Some ((i + 1) mod 4096), rw_wr_id = slot_addr buf i + 40, rw_sg_list = i, rw_num_sge = 1\<rparr>]\<rparr>,
      ring[i := slot_addr buf i + 40])"
    using b by (simp add: tr(1) init_recv_one_def Let_def slot_addr_def)
  moreover have "ring_laid buf ext (Suc i) (wrs[i := \<lparr>rw_next = Some ((i + 1) mod 4096), rw_wr_id = slot_addr buf i + 40, rw_sg_list = i, rw_num_sge = 1\<rparr>])
      (sgl[i := \<lparr>sge_addr = slot_addr buf i, sge_length = kRecvSize, sge_lkey = lkey ext\<rparr>]) (ring[i := slot_addr buf i + 40])"
    using tr(2) i by (auto simp: ring_laid_def nth_list_update less_Suc_eq)
  ultimately show ?thesis unfolding laying_def holds_iff by blast
qed

lemma ring_laid_circular: "ring_laid buf ext kRQDepth wrs sgl ring \<Longrightarrow> circular wrs"
  by (simp add: ring_laid_def circular_def)

lemma init_recvs_ok:
  assumes b: "b_buf ext = Some buf" and f: "fresh_transport t" and r: "length rx_ring = kRQDepth"
  shows "\<exists>wrs sgl ring. init_recvs ext 0 t rx_ring = Inr (t\<lparr>ib_recv_sgl := sgl, ib_recv_wr := wrs, ib_rq := [0..<kRQDepth]\<rparr>, ring) \<and>
    ring_laid buf ext kRQDepth wrs sgl ring"
proof -
  have "holds (laying buf ext t 4096) (forE 4096 (init_recv_one ext) (t, rx_ring))"
  proof (rule holds_forE)
    have "t = t\<lparr>ib_recv_sgl := ib_recv_sgl t, ib_recv_wr := ib_recv_wr t\<rparr>" by simp
    moreover have "ring_laid buf ext 0 (ib_recv_wr t) (ib_recv_sgl t) rx_ring" using f r by (simp add: ring_laid_def fresh_transport_def)
    ultimately show "laying buf ext t 0 (t, rx_ring)" unfolding laying_def by blast
  qed (rule init_recv_one_ok [OF b])
  then obtain wrs sgl ring where loop: "forE 4096 (init_recv_one ext) (t, rx_ring) = Inr (t\<lparr>ib_recv_sgl := sgl, ib_recv_wr := wrs\<rparr>, ring)"
      and laid: "ring_laid buf ext 4096 wrs sgl ring" by (auto simp: holds_iff laying_def)
  let ?t = "t\<lparr>ib_recv_sgl := sgl, ib_recv_wr := wrs\<rparr>"
  have "bindE (set_recv_next 4095 None ?t) (\<lambda>t1. bindE (ibv_post_recv RuntimeError 0 0 t1) (set_recv_next 4095 (Some 0))) =
      Inr (?t\<lparr>ib_rq := [0..<4096]\<rparr>)"
    using cut_post_close [of ?t 4096 4095 RuntimeError] ring_laid_circular [OF laid] f
    by (simp add: fresh_transport_def ring_from_def del: upt_rec_numeral)
  then show ?thesis using loop laid b by (auto simp: init_recvs_def bindE_eq_Inr intro!: exI)
qed

lemma init_sends_ok:
  assumes f: "length (ib_send_wr t) = ibPostlist + 1" "length (ib_send_sgl t) = ibPostlist" "\<forall>sgl \<in> set (ib_send_sgl t). length sgl = 2"
  shows "\<exists>ws. init_sends t = Inr (t\<lparr>ib_send_wr := ws\<rparr>) \<and> send_ok (t\<lparr>ib_send_wr := ws\<rparr>)"
proof -
  let ?P = "\<lambda>k t'. \<exists>ws. t' = t\<lparr>ib_send_wr := ws\<rparr> \<and> length ws = 17 \<and> (\<forall>i < k. wr_next (ws ! i) = Some (i + 1) \<and> wr_qkey (ws ! i) = kQKey \<and>
     wr_opcode (ws ! i) = IBV_WR_SEND_WITH_IMM \<and> wr_sg_list (ws ! i) = i)"
  have "holds (?P 16) (init_sends t)"
    unfolding init_sends_def
  proof (rule holds_forE)
    show "?P 0 t" using f by (intro exI [of _ "ib_send_wr t"]) simp
  qed (auto, rule exI, rule conjI, rule refl, auto simp: nth_list_update less_Suc_eq)
  then obtain ws where "init_sends t = Inr (t\<lparr>ib_send_wr := ws\<rparr>)" "length ws = 17"
      "\<forall>i < 16. wr_next (ws ! i) = Some (i + 1) \<and> wr_qkey (ws ! i) = kQKey \<and> wr_opcode (ws ! i) = IBV_WR_SEND_WITH_IMM \<and> wr_sg_list (ws ! i) = i"
    unfolding holds_iff by blast
  moreover have "length (ib_send_sgl t ! i) = 2" if "i < 16" for i using that f(2,3) by simp
  ultimately show ?thesis using f by (auto simp: send_ok_def)
qed

definition ib_inv :: "ib_transport \<Rightarrow> bool" where
  "ib_inv t \<longleftrightarrow> send_ok t \<and> sq_ok (ib_nb_tx t) (ib_nb_tx t) t \<and> recv_ok t"

lemma init_hugepage_structures_ok:
  assumes b: "b_buf ext = Some buf" and f: "fresh_transport t" and r: "length rx_ring = kRQDepth"
  shows "\<exists>t' ring. init_hugepage_structures ext 0 t rx_ring = Inr (t', ring) \<and> ib_inv t' \<and> ib_rq t' = [0..<kRQDepth] \<and>
    ring_laid buf ext kRQDepth (ib_recv_wr t') (ib_recv_sgl t') ring"
proof -
  obtain wrs sgl ring where i: "init_recvs ext 0 t rx_ring = Inr (t\<lparr>ib_recv_sgl := sgl, ib_recv_wr := wrs, ib_rq := [0..<4096]\<rparr>, ring)"
      "ring_laid buf ext 4096 wrs sgl ring" using init_recvs_ok [OF b f r] by blast
  let ?t = "t\<lparr>ib_recv_sgl := sgl, ib_recv_wr := wrs, ib_rq := [0..<4096]\<rparr>"
  obtain ws where s: "init_sends ?t = Inr (?t\<lparr>ib_send_wr := ws\<rparr>)" "send_ok (?t\<lparr>ib_send_wr := ws\<rparr>)"
    using init_sends_ok [of ?t] f by (auto simp: fresh_transport_def)
  have "recv_ok (?t\<lparr>ib_send_wr := ws\<rparr>)"
    using f ring_laid_circular [OF i(2)] by (simp add: recv_ok_def fresh_transport_def ring_slack_def ring_from_def)
  then have "ib_inv (?t\<lparr>ib_send_wr := ws\<rparr>)" using f s(2) by (simp add: ib_inv_def sq_ok_def sq_low_def fresh_transport_def)
  then show ?thesis using i s by (auto simp: init_hugepage_structures_def)
qed

subsection \<open>Every sequence of calls\<close>

datatype ib_event = IbTx "ib_item list" | IbFlush nat | IbRx nat | IbPost nat

text \<open>
  What the event loop does with the transport: a burst of at most \<open>kPostlist\<close> packets, a flush, a receive call that returns
  at most as many packets as buffers are posted, and the release of held buffers.
\<close>

definition ib_allowed :: "ib_event \<Rightarrow> ib_transport \<Rightarrow> bool" where
  "ib_allowed e t = (case e of
     IbTx items \<Rightarrow> items_ok items
   | IbFlush fb \<Rightarrow> True
   | IbRx n \<Rightarrow> n \<le> ibPostlist \<and> n \<le> length (ib_rq t)
   | IbPost n \<Rightarrow> n \<le> length (ib_held t))"

definition ib_call :: "ib_event \<Rightarrow> ib_transport \<Rightarrow> ib_transport res" where
  "ib_call e t = (case e of
     IbTx items \<Rightarrow> tx_burst 0 0 items t
   | IbFlush fb \<Rightarrow> tx_flush 0 0 fb t
   | IbRx n \<Rightarrow> bindE (rx_burst (int n) t) (\<lambda>(_, t'). Inr t')
   | IbPost n \<Rightarrow> post_recvs 0 [] n t)"

inductive ib_reach :: "Buffer \<Rightarrow> ib_transport \<Rightarrow> nat list \<Rightarrow> ib_transport \<Rightarrow> bool" for ext t0 ring0 where
  ib_init: "init_hugepage_structures ext 0 t0 ring0 = Inr (t, ring) \<Longrightarrow> ib_reach ext t0 ring0 t"
| ib_next: "ib_reach ext t0 ring0 t \<Longrightarrow> ib_allowed e t \<Longrightarrow> ib_call e t = Inr t' \<Longrightarrow> ib_reach ext t0 ring0 t'"

lemma recv_ok_rx_part: "rx_part t = rx_part t' \<Longrightarrow> recv_ok t = recv_ok t'"
  by (simp add: recv_ok_def rx_part_def ring_slack_def)

lemma ib_call_inv:
  assumes i: "ib_inv t" and a: "ib_allowed e t"
  shows "holds ib_inv (ib_call e t)"
proof (cases e)
  case (IbTx items)
  then have "holds (burst_done t items) (ib_call e t)" using i a by (simp add: ib_inv_def ib_allowed_def ib_call_def tx_burst_ok)
  then show ?thesis by (rule holds_weaken) (use i in \<open>auto simp: burst_done_def ib_inv_def dest: recv_ok_rx_part\<close>)
next
  case (IbFlush fb)
  then have "holds (flush_done t) (ib_call e t)" using i by (simp add: ib_inv_def ib_call_def tx_flush_ok)
  then show ?thesis by (rule holds_weaken) (use i in \<open>auto simp: flush_done_def ib_inv_def sq_ok_def sq_low_def dest: recv_ok_rx_part\<close>)
next
  case (IbRx n)
  then have n: "n \<le> length (ib_rq t)" using a by (simp add: ib_allowed_def)
  have "send_ok (t\<lparr>ib_held := hs, ib_rq := rs\<rparr>) = send_ok t" "sq_ok k k (t\<lparr>ib_held := hs, ib_rq := rs\<rparr>) = sq_ok k k t" for hs rs k
    by (simp_all add: send_ok_def sq_ok_def)
  then show ?thesis using i n rx_burst_ok [of t n] IbRx by (auto simp: ib_call_def rx_burst_def ib_inv_def)
next
  case (IbPost n)
  then have n: "n \<le> length (ib_held t)" using a by (simp add: ib_allowed_def)
  have "holds recv_ok (ib_call e t)" using post_recvs_ok [of t n "[]"] i n IbPost
    by (auto simp: ib_call_def ib_inv_def elim!: holds_weaken)
  moreover have "send_ok t' \<and> ib_nb_tx t' = ib_nb_tx t \<and> ib_sq t' = ib_sq t" if "post_recvs 0 [] n t = Inr t'" for t'
    using that i by (auto simp: ib_inv_def send_ok_def post_recvs_def set_recv_next_def ibv_post_recv_def res_Inr Let_def split: if_splits)
  ultimately show ?thesis using i IbPost by (auto simp: holds_iff ib_inv_def ib_call_def sq_ok_def)
qed

subsection \<open>Properties\<close>

lemma ib_reach_inv:
  assumes "b_buf ext = Some buf" "fresh_transport t0" "length ring0 = kRQDepth" "ib_reach ext t0 ring0 t"
  shows "ib_inv t"
  using assms(4)
proof induction
  case (ib_init t ring)
  then show ?case using init_hugepage_structures_ok [OF assms(1-3)] by auto
next
  case (ib_next t e t')
  then show ?case using ib_call_inv [of t e] by simp
qed

lemma one_True_count: "map f ws = us @ True # vs \<Longrightarrow> True \<notin> set us \<Longrightarrow> True \<notin> set vs \<Longrightarrow> length (filter f ws) = 1"
proof -
  assume m: "map f ws = us @ True # vs" "True \<notin> set us" "True \<notin> set vs"
  have "length (filter f ws) = length (filter (\<lambda>b. b) (map f ws))" by (simp add: filter_map comp_def)
  also have "\<dots> = 1" using m(2,3) unfolding m(1) by (auto simp: filter_empty_conv)
  finally show ?thesis .
qed

lemma sq_ok_one: "sq_ok n n t \<Longrightarrow> 0 < n \<Longrightarrow> length (filter (\<lambda>w. wr_signaled (wq_wr w)) (ib_sq t)) = 1"
  using one_signaled [of n] one_True_count [of "\<lambda>w. wr_signaled (wq_wr w)" "ib_sq t"] unfolding sq_ok_def by metis

definition ib_safe :: "ib_transport \<Rightarrow> bool" where
  "ib_safe t \<longleftrightarrow> length (ib_sq t) < kSQDepth \<and>
     length (filter (\<lambda>w. wr_signaled (wq_wr w)) (ib_sq t)) = (if ib_nb_tx t = 0 then 0 else 1) \<and>
     mset (ring_slack t @ ib_held t @ ib_rq t) = mset [0..<kRQDepth]"

lemma mset_ring_from: "mset (ring_from h) = mset [0..<kRQDepth]"
  unfolding ring_from_def rotate_drop_take mset_append
  by (subst union_commute) (simp only: append_take_drop_id flip: mset_append)

lemma ib_inv_safe: "ib_inv t \<Longrightarrow> ib_safe t"
proof -
  assume i: "ib_inv t"
  then have "mset (ring_slack t @ ib_held t @ ib_rq t) = mset [0..<kRQDepth]"
    by (simp only: ib_inv_def recv_ok_def mset_ring_from)
  moreover have "ib_sq t = [] \<longleftrightarrow> ib_nb_tx t = 0 \<or> ib_sq t = []" using i by (auto simp: ib_inv_def sq_ok_def)
  ultimately show ?thesis using i sq_length [of "ib_nb_tx t" t] sq_ok_one [of "ib_nb_tx t" t]
    by (auto simp: ib_inv_def ib_safe_def sq_ok_def)
qed

text \<open>
  C?. After the initialisation of the hugepage structures, and after any sequence of bursts, flushes, receives and posts of
  receive buffers, fewer than \<open>kSQDepth\<close> SEND requests are outstanding; exactly one of them is signaled once a packet has been sent,
  as \<open>tx_flush\<close> relies on; and every entry of the receive ring is in exactly one place: waiting to be posted, held by the Rpc object, or in the
  receive queue. In every such state every permitted call returns: no assertion on the work requests fails, no poll waits for ever and no
  walk of the request chains leaves its array.
\<close>

theorem ib_transport_invariant:
  assumes "b_buf ext = Some buf" "fresh_transport t0" "length ring0 = kRQDepth" "ib_reach ext t0 ring0 t"
  shows "ib_safe t \<and> (\<forall>e. ib_allowed e t \<longrightarrow> (\<exists>t'. ib_call e t = Inr t' \<and> ib_safe t'))"
  using ib_reach_inv [OF assms] ib_inv_safe ib_call_inv unfolding holds_iff by blast

definition ex_transport :: ib_transport where
  "ex_transport = \<lparr>ib_nb_tx = 0, ib_send_wr = replicate 17 \<lparr>wr_next = None, wr_opcode = IBV_WR_OTHER, wr_qkey = 0, wr_sg_list = 0, wr_signaled = False,
     wr_inline = False, wr_num_sge = 0, wr_ah = 0, wr_qpn = 0\<rparr>, ib_send_sgl = replicate 16 (replicate 2 \<lparr>sge_addr = 0, sge_length = 0, sge_lkey = 0\<rparr>),
     ib_recv_head = 0, ib_recvs_to_post = 0, ib_recv_wr = replicate 4096 \<lparr>rw_next = None, rw_wr_id = 0, rw_sg_list = 0, rw_num_sge = 0\<rparr>,
     ib_recv_sgl = replicate 4096 \<lparr>sge_addr = 0, sge_length = 0, sge_lkey = 0\<rparr>, ib_use_fast_recv = False, ib_fast_recv_used = False,
     ib_self_ah = 7, ib_tx_flush_count = 0, ib_sq = [], ib_rq = [], ib_held = []\<rparr>"

definition ex_extent :: Buffer where
  "ex_extent = \<lparr>b_buf = Some 0x10000000, class_size = 0x1000000, lkey = 9\<rparr>"

lemma ex_fresh: "fresh_transport ex_transport"
  by (simp add: fresh_transport_def ex_transport_def)

theorem ib_transport_invariant_witness:
  "\<exists>t t'. ib_reach ex_extent ex_transport (replicate 4096 0) t \<and> ib_call (IbRx 16) t = Inr t' \<and> ib_safe t'"
proof -
  have b: "b_buf ex_extent = Some 0x10000000" "length (replicate 4096 (0 :: nat)) = kRQDepth" by (simp_all add: ex_extent_def)
  obtain t ring where i: "init_hugepage_structures ex_extent 0 ex_transport (replicate 4096 0) = Inr (t, ring)" "ib_rq t = [0..<4096]"
    using init_hugepage_structures_ok [OF b(1) ex_fresh b(2)] by blast
  from i(1) have r: "ib_reach ex_extent ex_transport (replicate 4096 0) t" by (rule ib_init)
  have "ib_allowed (IbRx 16) t" by (simp add: ib_allowed_def i(2))
  then show ?thesis using ib_transport_invariant [OF b(1) ex_fresh b(2) r] r by blast
qed

text \<open>The request posted for an item: its destination, the address of its header, and as many bytes as the packet has.\<close>

definition sends_item :: "ib_item \<Rightarrow> wqe \<Rightarrow> bool" where
  "sends_item item w \<longleftrightarrow> wr_ah (wq_wr w) = ri_ah (it_routing item) \<and> wr_qpn (wq_wr w) = ri_qpn (it_routing item) \<and> wq_sgl w \<noteq> [] \<and>
     (\<exists>buf. mb_buf (it_msg_buffer item) = Some buf \<and>
        sge_addr (hd (wq_sgl w)) = get_pkthdr_n ib_cfg buf (max_data_size (it_msg_buffer item)) (it_pkt_idx item)) \<and>
     sum_list (map sge_length (wq_sgl w)) = get_pkt_size ib_cfg (it_msg_buffer item) (it_pkt_idx item)"

lemma item_sgl_sends:
  assumes "item_sgl item = Inr (wq_sgl w)" "wr_ah (wq_wr w) = ri_ah (it_routing item)" "wr_qpn (wq_wr w) = ri_qpn (it_routing item)"
  shows "sends_item item w"
  using assms(2,3) assms(1) [symmetric]
  by (auto simp: sends_item_def item_sgl_def Let_def get_pkthdr_n_def get_pkt_size_def split: option.splits if_splits)

text \<open>
  C?. In every reachable state of the transport, \<open>tx_burst\<close> of up to \<open>kPostlist\<close> packets returns, and posts one request per packet, in the order of the
  burst: to the packet's destination, starting at the packet's header, and with as many bytes as the packet has. Of the
  older requests only a completed front part leaves the send queue, and the receive side is untouched.
\<close>

theorem ib_tx_burst_posts:
  assumes "b_buf ext = Some buf" "fresh_transport t0" "length ring0 = kRQDepth" "ib_reach ext t0 ring0 t" and items: "items_ok items"
  shows "\<exists>t' ds ks ws. tx_burst 0 0 items t = Inr t' \<and> ib_sq t = ds @ ks \<and> ib_sq t' = ks @ ws \<and> list_all2 sends_item items ws \<and>
    rx_part t' = rx_part t"
proof -
  have "ib_inv t" by (rule ib_reach_inv [OF assms(1-4)])
  then have "holds (burst_done t items) (tx_burst 0 0 items t)" using items by (simp add: ib_inv_def tx_burst_ok)
  then show ?thesis unfolding holds_iff burst_done_def
    by (blast intro: list_all2_mono item_sgl_sends)
qed

definition ex_item :: ib_item where
  "ex_item = \<lparr>it_routing = \<lparr>ri_port_lid = 3, ri_qpn = 77, ri_ah = 5\<rparr>, it_msg_buffer = \<lparr>mb_buffer = ex_extent, max_data_size = 5000, data_size = 5000,
     max_num_pkts = 2, num_pkts = 2, mb_buf = Some 0x20000000, hdrs = undefined, bytes = undefined\<rparr>, it_pkt_idx = 1\<rparr>"

theorem ib_tx_burst_posts_witness:
  "\<exists>t t' w. ib_reach ex_extent ex_transport (replicate 4096 0) t \<and> tx_burst 0 0 [ex_item] t = Inr t' \<and> w \<in> set (ib_sq t') \<and> sends_item ex_item w"
proof -
  have b: "b_buf ex_extent = Some 0x10000000" "length (replicate 4096 (0 :: nat)) = kRQDepth" by (simp_all add: ex_extent_def)
  obtain t ring where i: "init_hugepage_structures ex_extent 0 ex_transport (replicate 4096 0) = Inr (t, ring)"
    using init_hugepage_structures_ok [OF b(1) ex_fresh b(2)] by blast
  then have r: "ib_reach ex_extent ex_transport (replicate 4096 0) t" by (rule ib_init)
  have "items_ok [ex_item]" by (simp add: items_ok_def ex_item_def)
  then show ?thesis using ib_tx_burst_posts [OF b(1) ex_fresh b(2) r] r by (fastforce simp: list_all2_Cons1)
qed

text \<open>
  The receive ring as \<open>init_hugepage_structures\<close> lays it out: the space that a received packet needs, route header and \<open>kMTU\<close> bytes,
  lies for every entry inside the allocated extent of \<open>kNumRxRingEntries * kRecvSize\<close> bytes; the scatter-gather entries of different
  ring entries do not overlap, even at their full declared length; and the Rpc object's ring entry is the address behind the route header.
\<close>

theorem ib_ring_layout:
  assumes "b_buf ext = Some buf" "fresh_transport t0" "length ring0 = kRQDepth"
  shows "\<exists>t ring. init_hugepage_structures ext 0 t0 ring0 = Inr (t, ring) \<and>
    (\<forall>i < kRQDepth. buf \<le> sge_addr (ib_recv_sgl t ! i) \<and> sge_addr (ib_recv_sgl t ! i) + kGRHBytes + kMTU ib_cfg \<le> buf + kRQDepth * kRecvSize \<and>
       ring ! i = sge_addr (ib_recv_sgl t ! i) + kGRHBytes \<and>
       (\<forall>j < i. sge_addr (ib_recv_sgl t ! j) + sge_length (ib_recv_sgl t ! j) \<le> sge_addr (ib_recv_sgl t ! i)))"
proof -
  obtain t ring where i: "init_hugepage_structures ext 0 t0 ring0 = Inr (t, ring)" "ring_laid buf ext 4096 (ib_recv_wr t) (ib_recv_sgl t) ring"
    using init_hugepage_structures_ok [OF assms] by blast
  have "i * kRecvSize + 24 + (40 + kMTU ib_cfg) \<le> 4096 * kRecvSize" if "i < 4096" for i
  proof -
    have "i * kRecvSize \<le> 4095 * kRecvSize" by (rule mult_le_mono1) (use that in simp)
    then show ?thesis by (simp add: kRecvSize_def)
  qed
  moreover have "slot_addr buf j + kRecvSize \<le> slot_addr buf i" if "j < i" for i j
  proof -
    have "Suc j * kRecvSize \<le> i * kRecvSize" by (rule mult_le_mono1) (use that in simp)
    then show ?thesis by (simp add: slot_addr_def)
  qed
  ultimately show ?thesis using i by (intro exI [of _ t] exI [of _ ring]) (simp add: ring_laid_def slot_addr_def)
qed

theorem ib_ring_layout_witness:
  "\<exists>t ring. init_hugepage_structures ex_extent 0 ex_transport (replicate 4096 0) = Inr (t, ring) \<and>
    ring ! 4095 = sge_addr (ib_recv_sgl t ! 4095) + kGRHBytes"
proof -
  have b: "b_buf ex_extent = Some 0x10000000" "length (replicate 4096 (0 :: nat)) = kRQDepth" by (simp_all add: ex_extent_def)
  have "(4095 :: nat) < kRQDepth" by simp
  then show ?thesis using ib_ring_layout [OF b(1) ex_fresh b(2)] by blast
qed

text \<open>At its declared length the last entry ends behind the extent.\<close>

lemma last_slot_past_extent: "slot_addr buf (kRQDepth - 1) + kRecvSize = buf + kRQDepth * kRecvSize + (64 - kGRHBytes)"
  by (simp add: slot_addr_def)

end
