(* ===== verification/Verbs_Common.thy ===== *)
theory Verbs_Common
  imports Ib_Transport
begin

section \<open>Port resolution and address handles of the verbs transports (\<open>verbs_common.h\<close>, \<open>ib_transport.cc\<close>)\<close>

text \<open>
  A physical port number of eRPC counts the active ports of all verbs devices. The devices, with what opening, querying and closing them
  returns, are arguments. Shown: the scan finds exactly the port at that position of the list of all active ports, and fails if there is none. The
  second part models the address handles of an InfiniBand transport, from the routing information of a peer to their release.
\<close>

subsection \<open>Resolving a port\<close>

record port_attr =
  pa_query_ok :: bool
  pa_phys_state :: nat
  pa_link_layer :: nat
  pa_active_mtu :: nat
  pa_active_speed :: nat
  pa_active_width :: nat
  pa_lid :: u16

record verbs_device =
  dv_open_ok :: bool
  dv_query_ok :: bool
  dv_close_ok :: bool
  dv_ports :: "port_attr list"

record verbs_resolve =
  vr_device_id :: nat
  vr_dev_port_id :: nat
  vr_bandwidth :: nat

abbreviation (input) IBV_PORT_ACTIVE :: nat where "IBV_PORT_ACTIVE \<equiv> 4"
abbreviation (input) IBV_PORT_ACTIVE_DEFER :: nat where "IBV_PORT_ACTIVE_DEFER \<equiv> 5"
abbreviation (input) IBV_LINK_LAYER_INFINIBAND :: nat where "IBV_LINK_LAYER_INFINIBAND \<equiv> 1"
abbreviation (input) IBV_LINK_LAYER_ETHERNET :: nat where "IBV_LINK_LAYER_ETHERNET \<equiv> 2"

definition enum_to_mtu :: "nat \<Rightarrow> nat" where
  "enum_to_mtu mtu = (if mtu = 1 then 256 else if mtu = 2 then 512 else if mtu = 3 then 1024 else if mtu = 4 then 2048 else if mtu = 5 then 4096 else 0)"

definition link_layer_str :: "nat \<Rightarrow> string" where
  "link_layer_str l = (if l = 0 then ''[Unspecified]'' else if l = 1 then ''[InfiniBand]'' else if l = 2 then ''[Ethernet]'' else ''[Invalid]'')"

text \<open>Speed of a lane in tenths of Gbps, and number of lanes; an unknown value violates the \<open>rt_assert\<close>.\<close>

definition lane_speed :: "nat \<Rightarrow> nat res" where
  "lane_speed s = (if s = 1 then Inr 25 else if s = 2 then Inr 50 else if s = 4 then Inr 100 else if s = 8 then Inr 100 else if s = 16 then Inr 140
     else if s = 32 then Inr 250 else if s = 64 then Inr 500 else Inl RuntimeError)"

definition num_lanes :: "nat \<Rightarrow> nat res" where
  "num_lanes w = (if w = 1 then Inr 1 else if w = 2 then Inr 4 else if w = 4 then Inr 8 else if w = 8 then Inr 12 else Inl RuntimeError)"

definition is_active :: "port_attr \<Rightarrow> bool" where
  "is_active p \<longleftrightarrow> \<not> (pa_phys_state p \<noteq> IBV_PORT_ACTIVE \<and> pa_phys_state p \<noteq> IBV_PORT_ACTIVE_DEFER)"

text \<open>The checks on the port that was found; \<open>infiniband\<close> is \<open>transport_type == kInfiniBand && !kIsRoCE\<close>.\<close>

definition accept_port :: "bool \<Rightarrow> nat \<Rightarrow> nat \<Rightarrow> nat \<Rightarrow> port_attr \<Rightarrow> verbs_resolve res" where
  "accept_port infiniband mtu dev_i port_i p =
    (if pa_link_layer p \<noteq> (if infiniband then IBV_LINK_LAYER_INFINIBAND else IBV_LINK_LAYER_ETHERNET) then Inl RuntimeError
     else if enum_to_mtu (pa_active_mtu p) < mtu then Inl RuntimeError
     else bindE (lane_speed (pa_active_speed p)) (\<lambda>gbps.
          bindE (num_lanes (pa_active_width p)) (\<lambda>lanes.
            Inr \<lparr>vr_device_id = dev_i, vr_dev_port_id = port_i, vr_bandwidth = lanes * gbps * (100 * 1000 * 1000) div 8\<rparr>)))"

text \<open>The loop over the ports of a device ends with the resolved port, or with the number of ports still to discover.\<close>

fun scan_dev_ports :: "bool \<Rightarrow> nat \<Rightarrow> nat \<Rightarrow> nat \<Rightarrow> nat \<Rightarrow> port_attr list \<Rightarrow> (verbs_resolve + nat) res" where
  "scan_dev_ports ib mtu dev_i port_i n [] = Inr (Inr n)"
| "scan_dev_ports ib mtu dev_i port_i n (p # ps) =
    (if \<not> pa_query_ok p then Inl RuntimeError
     else if \<not> is_active p then scan_dev_ports ib mtu dev_i (port_i + 1) n ps
     else if n = 0 then bindE (accept_port ib mtu dev_i port_i p) (\<lambda>r. Inr (Inl r))
     else scan_dev_ports ib mtu dev_i (port_i + 1) (n - 1) ps)"

fun scan_devices :: "bool \<Rightarrow> nat \<Rightarrow> nat \<Rightarrow> nat \<Rightarrow> verbs_device list \<Rightarrow> verbs_resolve res" where
  "scan_devices ib mtu dev_i n [] = Inl RuntimeError"
| "scan_devices ib mtu dev_i n (d # ds) =
    rt_assert (dv_open_ok d)
    (if \<not> dv_query_ok d then Inl RuntimeError
     else bindE (scan_dev_ports ib mtu dev_i 1 n (dv_ports d)) (\<lambda>r.
       case r of
         Inl v \<Rightarrow> Inr v
       | Inr n' \<Rightarrow> if \<not> dv_close_ok d then Inl RuntimeError else scan_devices ib mtu (dev_i + 1) n' ds))"

definition common_resolve_phy_port :: "bool \<Rightarrow> nat \<Rightarrow> nat \<Rightarrow> verbs_device list option \<Rightarrow> verbs_resolve res" where
  "common_resolve_phy_port ib mtu phy_port dev_list =
    (case dev_list of None \<Rightarrow> Inl RuntimeError | Some ds \<Rightarrow> scan_devices ib mtu 0 phy_port ds)"

subsubsection \<open>The scan finds the port at the given position\<close>

text \<open>The reference: all active ports in the order of devices and ports, with the device index and the 1-based port number.\<close>

fun active_ports :: "nat \<Rightarrow> nat \<Rightarrow> port_attr list \<Rightarrow> (nat \<times> nat \<times> port_attr) list" where
  "active_ports dev_i port_i [] = []"
| "active_ports dev_i port_i (p # ps) = (if is_active p then [(dev_i, port_i, p)] else []) @ active_ports dev_i (port_i + 1) ps"

fun all_active :: "nat \<Rightarrow> verbs_device list \<Rightarrow> (nat \<times> nat \<times> port_attr) list" where
  "all_active dev_i [] = []"
| "all_active dev_i (d # ds) = active_ports dev_i 1 (dv_ports d) @ all_active (dev_i + 1) ds"

definition device_ok :: "verbs_device \<Rightarrow> bool" where
  "device_ok d \<longleftrightarrow> dv_open_ok d \<and> dv_query_ok d \<and> dv_close_ok d \<and> (\<forall>p \<in> set (dv_ports d). pa_query_ok p)"

definition accept_nth :: "bool \<Rightarrow> nat \<Rightarrow> (nat \<times> nat \<times> port_attr) \<Rightarrow> verbs_resolve res" where
  "accept_nth ib mtu = (\<lambda>(dev_i, port_i, p). accept_port ib mtu dev_i port_i p)"

lemma scan_dev_ports_nth:
  "\<forall>p \<in> set ps. pa_query_ok p \<Longrightarrow> scan_dev_ports ib mtu dev_i port_i n ps =
    (if n < length (active_ports dev_i port_i ps) then bindE (accept_nth ib mtu (active_ports dev_i port_i ps ! n)) (\<lambda>r. Inr (Inl r))
     else Inr (Inr (n - length (active_ports dev_i port_i ps))))"
proof (induction ps arbitrary: port_i n)
  case (Cons p ps)
  then show ?case by (cases n) (simp_all add: accept_nth_def)
qed simp

lemma scan_devices_nth:
  "\<forall>d \<in> set ds. device_ok d \<Longrightarrow> scan_devices ib mtu dev_i n ds =
    (if n < length (all_active dev_i ds) then accept_nth ib mtu (all_active dev_i ds ! n) else Inl RuntimeError)"
proof (induction ds arbitrary: dev_i n)
  case (Cons d ds)
  let ?a = "active_ports dev_i 1 (dv_ports d)"
  have d: "dv_open_ok d" "dv_query_ok d" "dv_close_ok d" "\<forall>p \<in> set (dv_ports d). pa_query_ok p" using Cons.prems by (auto simp: device_ok_def)
  show ?case
  proof (cases "n < length ?a")
    case True
    then show ?thesis using d scan_dev_ports_nth [OF d(4), of ib mtu dev_i 1 n]
      by (cases "accept_nth ib mtu (?a ! n)") (simp_all add: rt_assert_def nth_append)
  next
    case False
    then show ?thesis using d scan_dev_ports_nth [OF d(4), of ib mtu dev_i 1 n] Cons by (auto simp: rt_assert_def nth_append)
  qed
qed simp

text \<open>
  C?. When the verbs calls succeed, \<open>common_resolve_phy_port\<close> resolves physical port \<open>n\<close> to the port at position \<open>n\<close> of the list of all active ports, in the order of
  devices and ports, subject to its checks of link layer, MTU, speed and width; and it throws if there are not that many active ports.
\<close>

theorem resolve_finds_nth_active_port:
  assumes "\<forall>d \<in> set ds. device_ok d"
  shows "common_resolve_phy_port ib mtu n (Some ds) =
    (if n < length (all_active 0 ds) then accept_nth ib mtu (all_active 0 ds ! n) else Inl RuntimeError)"
  using scan_devices_nth [OF assms] by (simp add: common_resolve_phy_port_def)

theorem resolve_finds_nth_active_port_witness:
  "common_resolve_phy_port True 3840 1 (Some
     [\<lparr>dv_open_ok = True, dv_query_ok = True, dv_close_ok = True, dv_ports = [\<lparr>pa_query_ok = True, pa_phys_state = 4, pa_link_layer = 1, pa_active_mtu = 5, pa_active_speed = 32, pa_active_width = 2, pa_lid = 3\<rparr>,
        \<lparr>pa_query_ok = True, pa_phys_state = 1, pa_link_layer = 1, pa_active_mtu = 5, pa_active_speed = 32, pa_active_width = 2, pa_lid = 0\<rparr>]\<rparr>,
      \<lparr>dv_open_ok = True, dv_query_ok = True, dv_close_ok = True, dv_ports = [\<lparr>pa_query_ok = True, pa_phys_state = 5, pa_link_layer = 1, pa_active_mtu = 5, pa_active_speed = 32, pa_active_width = 2, pa_lid = 4\<rparr>]\<rparr>]) =
   Inr \<lparr>vr_device_id = 1, vr_dev_port_id = 1, vr_bandwidth = 12500000000\<rparr>"
  by (subst resolve_finds_nth_active_port)
    (simp_all add: device_ok_def is_active_def accept_nth_def accept_port_def enum_to_mtu_def lane_speed_def num_lanes_def)

subsection \<open>Address handles\<close>

text \<open>
  The transport is not RoCE, so that an address handle depends on the peer's LID. \<open>create\<close> is \<open>ibv_create_ah\<close>, which returns \<open>None\<close>
  if it fails. The handles to free are a list, the null pointer included.
\<close>

record ah_attr =
  aa_is_global :: bool
  aa_dlid :: u16
  aa_sl :: nat
  aa_src_path_bits :: nat
  aa_port_num :: nat

record ib_addr =
  ia_port_lid :: u16
  ia_qpn :: u32
  ia_dev_port_id :: nat
  ia_self_ah :: "nat option"
  ia_ah_to_free :: "nat option list"

definition ib_resolve_phy_port :: "port_attr \<Rightarrow> ib_addr \<Rightarrow> ib_addr res" where
  "ib_resolve_phy_port p t = (if \<not> pa_query_ok p then Inl RuntimeError else Inr (t\<lparr>ia_port_lid := pa_lid p\<rparr>))"

definition create_ah :: "(ah_attr \<Rightarrow> nat option) \<Rightarrow> ib_addr \<Rightarrow> ib_routing_info \<Rightarrow> nat option" where
  "create_ah create t ri = create \<lparr>aa_is_global = False, aa_dlid = ri_port_lid ri, aa_sl = 0, aa_src_path_bits = 0, aa_port_num = ia_dev_port_id t\<rparr>"

definition ib_fill_local_routing_info :: "ib_addr \<Rightarrow> ib_routing_info" where
  "ib_fill_local_routing_info t = \<lparr>ri_port_lid = ia_port_lid t, ri_qpn = ia_qpn t, ri_ah = 0\<rparr>"

definition init_self_ah :: "(ah_attr \<Rightarrow> nat option) \<Rightarrow> ib_addr \<Rightarrow> ib_addr res" where
  "init_self_ah create t = (let ah = create_ah create t (ib_fill_local_routing_info t) in rt_assert (ah \<noteq> None) (Inr (t\<lparr>ia_self_ah := ah\<rparr>)))"

text \<open>The pointer in the resolved routing information is 0 if the handle could not be created.\<close>

definition ib_resolve_remote_routing_info :: "(ah_attr \<Rightarrow> nat option) \<Rightarrow> ib_routing_info \<Rightarrow> ib_addr \<Rightarrow> bool \<times> ib_routing_info \<times> ib_addr" where
  "ib_resolve_remote_routing_info create ri t =
    (let ah = create_ah create t ri
     in (ah \<noteq> None, ri\<lparr>ri_ah := (case ah of None \<Rightarrow> 0 | Some a \<Rightarrow> a)\<rparr>, t\<lparr>ia_ah_to_free := ia_ah_to_free t @ [ah]\<rparr>))"

text \<open>The destructor; the arguments are what destroying a handle and releasing the other objects returns.\<close>

definition IBTransport_destroy :: "(nat option \<Rightarrow> nat) \<Rightarrow> nat list \<Rightarrow> nat list \<Rightarrow> ib_addr \<Rightarrow> nat option list res" where
  "IBTransport_destroy destroy_ah before after t =
    (if \<exists>r \<in> set before. r \<noteq> 0 then Inl ExitProcess
     else if destroy_ah (ia_self_ah t) \<noteq> 0 then Inl ExitProcess
     else if \<exists>a \<in> set (ia_ah_to_free t). destroy_ah a \<noteq> 0 then Inl ExitProcess
     else if \<exists>r \<in> set after. r \<noteq> 0 then Inl ExitProcess
     else Inr (ia_self_ah t # ia_ah_to_free t))"

text \<open>A handle that could not be created is nevertheless given to \<open>ibv_destroy_ah\<close>, as a null pointer.\<close>

lemma null_handle_destroyed:
  assumes "create_ah create t ri = None" "IBTransport_destroy destroy_ah bs as (snd (snd (ib_resolve_remote_routing_info create ri t))) = Inr hs"
  shows "fst (ib_resolve_remote_routing_info create ri t) = False \<and> None \<in> set hs"
  using assms by (auto simp: ib_resolve_remote_routing_info_def IBTransport_destroy_def Let_def split: if_splits)

text \<open>Each created handle is released exactly once, after the one for the endpoint itself and in the order of creation.\<close>

lemma handles_released_once:
  assumes "\<forall>ri \<in> set ris. create_ah create t ri \<noteq> None" "destroy_ah = (\<lambda>a. if a = None then 22 else 0)" "ia_self_ah t \<noteq> None" "ia_ah_to_free t = []"
  shows "IBTransport_destroy destroy_ah [0, 0, 0] [0, 0] (fold (\<lambda>ri t. snd (snd (ib_resolve_remote_routing_info create ri t))) ris t) =
    Inr (ia_self_ah t # map (create_ah create t) ris)"
proof -
  have "fold (\<lambda>ri t. snd (snd (ib_resolve_remote_routing_info create ri t))) ris t1 = t1\<lparr>ia_ah_to_free := ia_ah_to_free t1 @ map (create_ah create t1) ris\<rparr>" for t1
  proof (induction ris arbitrary: t1)
    case (Cons ri ris)
    have "create_ah create (t1\<lparr>ia_ah_to_free := xs\<rparr>) = create_ah create t1" for xs by (simp add: create_ah_def fun_eq_iff)
    with Cons.IH [of "t1\<lparr>ia_ah_to_free := ia_ah_to_free t1 @ [create_ah create t1 ri]\<rparr>"] show ?case
      by (simp add: ib_resolve_remote_routing_info_def Let_def)
  qed simp
  then show ?thesis using assms by (auto simp: IBTransport_destroy_def)
qed

end
