(* ===== verification/Eth_Common.thy ===== *)
theory Eth_Common
  imports Msg_Buffer Sm_Types
begin

section \<open>Ethernet, IPv4 and UDP headers (\<open>transport_impl/eth_common.h\<close>)\<close>

text \<open>
  The packed header structures as records, with their bit fields at their widths, and their image in memory on
  a little-endian host: \<open>*_bytes\<close> is what a copy of the structure reads, \<open>*_of\<close> is the \<open>reinterpret_cast\<close> of a byte array. The
  header generators, the checksum of the IPv4 header on its 16-bit words, and the printed forms. Shown: the casts invert the
  memory images, a generated frame header has the fields the receiver reads, and the IPv4 checksum is valid in the sense of RFC 1071.
\<close>

abbreviation (input) kIPEtherType :: u16 where "kIPEtherType \<equiv> 0x800"
abbreviation (input) kIPHdrProtocol :: u8 where "kIPHdrProtocol \<equiv> 0x11"
abbreviation (input) kBaseEthUDPPort :: nat where "kBaseEthUDPPort \<equiv> 10000"
abbreviation (input) kInetHdrsTotSize :: nat where "kInetHdrsTotSize \<equiv> 42"

subsection \<open>Byte order\<close>

definition le16 :: "u16 \<Rightarrow> u8 list" where
  "le16 w = [ucast w, ucast (drop_bit 8 w)]"

definition of_le16 :: "u8 \<Rightarrow> u8 \<Rightarrow> u16" where
  "of_le16 a b = ucast a OR push_bit 8 (ucast b)"

definition le32 :: "u32 \<Rightarrow> u8 list" where
  "le32 w = [ucast w, ucast (drop_bit 8 w), ucast (drop_bit 16 w), ucast (drop_bit 24 w)]"

definition of_le32 :: "u8 \<Rightarrow> u8 \<Rightarrow> u8 \<Rightarrow> u8 \<Rightarrow> u32" where
  "of_le32 a b c d = ucast a OR push_bit 8 (ucast b) OR push_bit 16 (ucast c) OR push_bit 24 (ucast d)"

text \<open>\<open>htons\<close> and \<open>ntohs\<close> are the same function, and so are \<open>htonl\<close> and \<open>ntohl\<close>.\<close>

definition htons :: "u16 \<Rightarrow> u16" where
  "htons w = of_le16 (ucast (drop_bit 8 w)) (ucast w)"

definition htonl :: "u32 \<Rightarrow> u32" where
  "htonl w = of_le32 (ucast (drop_bit 24 w)) (ucast (drop_bit 16 w)) (ucast (drop_bit 8 w)) (ucast w)"

lemma u8_bit: "8 \<le> n \<Longrightarrow> \<not> bit (b :: u8) n"
  using bit_imp_le_length [of b n] by auto

lemma of_le16_le16 [simp]: "of_le16 (ucast w) (ucast (drop_bit 8 w)) = w"
  by (rule bit_word_eqI) (auto simp: of_le16_def bit_simps)

lemma le16_of_le16 [simp]: "le16 (of_le16 a b) = [a, b]"
  by (auto simp: le16_def of_le16_def bit_simps u8_bit intro!: bit_word_eqI)

lemma of_le32_le32 [simp]: "of_le32 (ucast w) (ucast (drop_bit 8 w)) (ucast (drop_bit 16 w)) (ucast (drop_bit 24 w)) = w"
proof (rule bit_word_eqI)
  fix n assume "n < LENGTH(32)"
  then show "bit (of_le32 (ucast w) (ucast (drop_bit 8 w)) (ucast (drop_bit 16 w)) (ucast (drop_bit 24 w))) n = bit w n"
    by (cases "n < 8"; cases "n < 16"; cases "n < 24") (auto simp: of_le32_def bit_simps)
qed

lemma le32_of_le32 [simp]: "le32 (of_le32 a b c d) = [a, b, c, d]"
  by (auto simp: le32_def of_le32_def bit_simps u8_bit intro!: bit_word_eqI)

lemma htons_htons [simp]: "htons (htons w) = w"
  using le16_of_le16 [of "ucast (drop_bit 8 w)" "ucast w"] by (simp add: htons_def le16_def)

lemma htonl_htonl [simp]: "htonl (htonl w) = w"
  using le32_of_le32 [of "ucast (drop_bit 24 w)" "ucast (drop_bit 16 w)" "ucast (drop_bit 8 w)" "ucast w"]
  by (simp add: htonl_def le32_def)

subsection \<open>The headers and their memory images\<close>

record eth_hdr =
  dst_mac :: "u8 list"
  src_mac :: "u8 list"
  eth_type :: u16

record ipv4_hdr =
  ihl :: "4 word"
  ip_version :: "4 word"
  ecn :: "2 word"
  dscp :: "6 word"
  tot_len :: u16
  ip_id :: u16
  frag_off :: u16
  ttl :: u8
  protocol :: u8
  ip_check :: u16
  src_ip :: u32
  dst_ip :: u32

record udp_hdr =
  src_port :: u16
  dst_port :: u16
  udp_len :: u16
  udp_check :: u16

definition eth_bytes :: "eth_hdr \<Rightarrow> u8 list" where
  "eth_bytes h = dst_mac h @ src_mac h @ le16 (eth_type h)"

definition ipv4_bytes :: "ipv4_hdr \<Rightarrow> u8 list" where
  "ipv4_bytes h = [ucast (ihl h) OR push_bit 4 (ucast (ip_version h)), ucast (ecn h) OR push_bit 2 (ucast (dscp h))] @ le16 (tot_len h) @
     le16 (ip_id h) @ le16 (frag_off h) @ [ttl h, protocol h] @ le16 (ip_check h) @ le32 (src_ip h) @ le32 (dst_ip h)"

definition udp_bytes :: "udp_hdr \<Rightarrow> u8 list" where
  "udp_bytes h = le16 (src_port h) @ le16 (dst_port h) @ le16 (udp_len h) @ le16 (udp_check h)"

definition eth_of :: "u8 list \<Rightarrow> eth_hdr" where
  "eth_of bs = \<lparr>dst_mac = take 6 bs, src_mac = take 6 (drop 6 bs), eth_type = of_le16 (bs ! 12) (bs ! 13)\<rparr>"

definition ipv4_of :: "u8 list \<Rightarrow> ipv4_hdr" where
  "ipv4_of bs = \<lparr>ihl = ucast (bs ! 0), ip_version = ucast (drop_bit 4 (bs ! 0)), ecn = ucast (bs ! 1), dscp = ucast (drop_bit 2 (bs ! 1)),
     tot_len = of_le16 (bs ! 2) (bs ! 3), ip_id = of_le16 (bs ! 4) (bs ! 5), frag_off = of_le16 (bs ! 6) (bs ! 7), ttl = bs ! 8, protocol = bs ! 9,
     ip_check = of_le16 (bs ! 10) (bs ! 11), src_ip = of_le32 (bs ! 12) (bs ! 13) (bs ! 14) (bs ! 15), dst_ip = of_le32 (bs ! 16) (bs ! 17) (bs ! 18) (bs ! 19)\<rparr>"

definition udp_of :: "u8 list \<Rightarrow> udp_hdr" where
  "udp_of bs = \<lparr>src_port = of_le16 (bs ! 0) (bs ! 1), dst_port = of_le16 (bs ! 2) (bs ! 3), udp_len = of_le16 (bs ! 4) (bs ! 5), udp_check = of_le16 (bs ! 6) (bs ! 7)\<rparr>"

text \<open>The headers inside the headroom of a packet header (\<open>pkthdr.h\<close>).\<close>

definition get_eth_hdr :: "pkthdr \<Rightarrow> eth_hdr" where
  "get_eth_hdr h = eth_of (headroom h)"

definition get_ipv4_hdr :: "pkthdr \<Rightarrow> ipv4_hdr" where
  "get_ipv4_hdr h = ipv4_of (drop 14 (headroom h))"

definition get_udp_hdr :: "pkthdr \<Rightarrow> udp_hdr" where
  "get_udp_hdr h = udp_of (drop 34 (headroom h))"

definition mac_ok :: "u8 list \<Rightarrow> bool" where
  "mac_ok m \<longleftrightarrow> length m = 6"

lemma length_le [simp]: "length (le16 w) = 2" "length (le32 v) = 4"
  by (simp_all add: le16_def le32_def)

lemma nth_le16 [simp]: "le16 w ! 0 = ucast w" "le16 w ! Suc 0 = ucast (drop_bit 8 w)"
  by (simp_all add: le16_def)

lemma length_ipv4_bytes [simp]: "length (ipv4_bytes h) = 20"
  by (simp add: ipv4_bytes_def)

lemma length_udp_bytes [simp]: "length (udp_bytes h) = 8"
  by (simp add: udp_bytes_def)

lemma nibbles [simp]:
  "ucast (ucast a OR push_bit 4 (ucast b) :: u8) = (a :: 4 word)" "ucast (drop_bit 4 (ucast a OR push_bit 4 (ucast b) :: u8)) = (b :: 4 word)"
  "ucast (ucast c OR push_bit 2 (ucast d) :: u8) = (c :: 2 word)" "ucast (drop_bit 2 (ucast c OR push_bit 2 (ucast d) :: u8)) = (d :: 6 word)"
proof -
  have "\<not> bit a (4 + n)" "\<not> bit c (2 + n)" for n
    using bit_imp_le_length [of a "4 + n"] bit_imp_le_length [of c "2 + n"] by auto
  then show "ucast (ucast a OR push_bit 4 (ucast b) :: u8) = a" "ucast (drop_bit 4 (ucast a OR push_bit 4 (ucast b) :: u8)) = b"
    "ucast (ucast c OR push_bit 2 (ucast d) :: u8) = c" "ucast (drop_bit 2 (ucast c OR push_bit 2 (ucast d) :: u8)) = d"
    by (auto simp: bit_simps intro!: bit_word_eqI)
qed

lemma ipv4_of_bytes: "ipv4_of (ipv4_bytes h @ bs) = h"
  by (simp add: ipv4_of_def ipv4_bytes_def le16_def le32_def nth_Cons' del: drop_bit_or)

lemma udp_of_bytes: "udp_of (udp_bytes h @ bs) = h"
  by (simp add: udp_of_def udp_bytes_def le16_def nth_Cons')

lemma eth_of_bytes: "mac_ok (dst_mac h) \<Longrightarrow> mac_ok (src_mac h) \<Longrightarrow> eth_of (eth_bytes h @ bs) = h"
  by (simp add: eth_of_def eth_bytes_def mac_ok_def le16_def nth_append)

subsection \<open>Generating headers\<close>

definition gen_eth_header :: "u8 list \<Rightarrow> u8 list \<Rightarrow> eth_hdr" where
  "gen_eth_header smac dmac = \<lparr>dst_mac = take 6 dmac, src_mac = take 6 smac, eth_type = htons kIPEtherType\<rparr>"

definition gen_ipv4_header :: "u32 \<Rightarrow> u32 \<Rightarrow> u16 \<Rightarrow> ipv4_hdr" where
  "gen_ipv4_header sip dip dsize = \<lparr>ihl = 5, ip_version = 4, ecn = 1, dscp = 0, tot_len = htons (20 + 8 + dsize), ip_id = htons 0, frag_off = htons 0,
     ttl = 128, protocol = kIPHdrProtocol, ip_check = 0, src_ip = htonl sip, dst_ip = htonl dip\<rparr>"

definition gen_udp_header :: "u16 \<Rightarrow> u16 \<Rightarrow> u16 \<Rightarrow> udp_hdr" where
  "gen_udp_header sport dport dsize = \<lparr>src_port = htons sport, dst_port = htons dport, udp_len = htons (8 + dsize), udp_check = 0\<rparr>"

subsection \<open>The checksum\<close>

text \<open>\<open>ptr16[i]\<close> for a pointer to the header; \<open>get_ipv4_checksum\<close> skips word 5, the checksum field itself.\<close>

definition ptr16 :: "u8 list \<Rightarrow> nat \<Rightarrow> u16" where
  "ptr16 bs i = of_le16 (bs ! (2 * i)) (bs ! (2 * i + 1))"

definition fold_cksum :: "u32 \<Rightarrow> u16" where
  "fold_cksum ip_cksum =
    (let c1 = drop_bit 16 (ip_cksum AND 0xFFFF0000) + (ip_cksum AND 0x0000FFFF);
         c2 = (if 65535 < c1 then c1 - 65535 else c1);
         c3 = NOT c2 AND 0x0000FFFF
     in ucast (if c3 = 0 then 0xFFFF else c3))"

definition get_ipv4_checksum :: "u8 list \<Rightarrow> u16" where
  "get_ipv4_checksum bs = fold_cksum (sum_list (map (\<lambda>i. ucast (ptr16 bs i)) [0, 1, 2, 3, 4, 6, 7, 8, 9]))"

text \<open>
  The reference: addition of 16-bit words in one's complement, with the carry added back in. A receiver adds all ten words
  of the header and accepts it if the sum is \<open>0xFFFF\<close> (RFC 1071).
\<close>

definition ones_add :: "nat \<Rightarrow> nat \<Rightarrow> nat" where
  "ones_add a b = (if a + b < 0x10000 then a + b else (a + b) mod 0x10000 + 1)"

definition ones_sum :: "u8 list \<Rightarrow> nat" where
  "ones_sum bs = fold (\<lambda>i s. ones_add s (unat (ptr16 bs i))) [0..<10] 0"

lemma ones_add_bounds:
  assumes "a < 0x10000" "b < 0x10000"
  shows "ones_add a b < 0x10000" "ones_add a b mod 65535 = (a + b) mod 65535" "0 < a + b \<Longrightarrow> 0 < ones_add a b"
proof -
  have wrap: "a + b = 0x10000 + (a + b) mod 0x10000" if "\<not> a + b < 0x10000"
  proof -
    have "a + b - 0x10000 < 0x10000" using assms by linarith
    then show ?thesis using that le_mod_geq [of "0x10000" "a + b"] by simp
  qed
  then show "ones_add a b < 0x10000" using assms by (auto simp: ones_add_def)
  show "ones_add a b mod 65535 = (a + b) mod 65535"
  proof (cases "a + b < 0x10000")
    case False
    have "(a + b) mod 65535 = (65535 + ((a + b) mod 0x10000 + 1)) mod 65535" using wrap [OF False] by simp
    also have "\<dots> = ((a + b) mod 0x10000 + 1) mod 65535" by (rule mod_add_self1)
    finally show ?thesis using False by (simp add: ones_add_def)
  qed (simp add: ones_add_def)
qed (auto simp: ones_add_def)

lemma ones_fold:
  assumes "s < 0x10000" "\<And>i. f i < 0x10000"
  shows "fold (\<lambda>i s. ones_add s (f i)) is s < 0x10000 \<and> fold (\<lambda>i s. ones_add s (f i)) is s mod 65535 = (s + sum_list (map f is)) mod 65535 \<and>
    (0 < s + sum_list (map f is) \<longrightarrow> 0 < fold (\<lambda>i s. ones_add s (f i)) is s)"
  using assms(1)
proof (induction "is" arbitrary: s)
  case (Cons i "is")
  note b = ones_add_bounds [OF Cons.prems assms(2) [of i]]
  have "(ones_add s (f i) + sum_list (map f is)) mod 65535 = (s + f i + sum_list (map f is)) mod 65535"
    using b(2) by (metis mod_add_cong)
  then show ?case using Cons.IH [OF b(1)] b(3) by (auto simp: add.assoc)
qed (use assms in auto)

lemma and_ffff: "w AND 0x0000FFFF = take_bit 16 (w :: u32)"
proof -
  have "(0x0000FFFF :: u32) = mask 16" by (simp add: mask_eq_exp_minus_1)
  then show ?thesis by (simp add: take_bit_eq_mask)
qed

lemma hi_half: "drop_bit 16 (w AND 0xFFFF0000) = drop_bit 16 (w :: u32)"
proof -
  have m: "(0xFFFF0000 :: u32) = push_bit 16 (mask 16)" by (simp add: mask_eq_exp_minus_1 push_bit_eq_mult)
  have "n < 16" if "bit w (16 + n)" for n using bit_imp_le_length [OF that] by simp
  then show ?thesis unfolding m by (auto simp: bit_simps intro!: bit_word_eqI)
qed

lemma not_low:
  assumes "unat w < 0x10000"
  shows "unat (NOT w AND 0x0000FFFF :: u32) = 65535 - unat w"
proof -
  have "take_bit 16 w = w" using assms by (simp add: word_unat_eq_iff unsigned_take_bit_eq take_bit_nat_eq_self)
  then have "NOT w AND 0x0000FFFF = mask 16 - w" by (simp add: and_ffff take_bit_not_eq_mask_diff)
  also have "(mask 16 :: u32) = 0xFFFF" by (simp add: mask_eq_exp_minus_1)
  finally show ?thesis using assms by (simp add: unat_sub word_le_nat_alt)
qed

lemma unat_fold_cksum:
  assumes s: "s < 9 * 0x10000"
  defines "f \<equiv> s div 0x10000 + s mod 0x10000"
  defines "g \<equiv> (if 65535 < f then f - 65535 else f)"
  shows "unat (fold_cksum (of_nat s)) = (if g = 65535 then 65535 else 65535 - g)"
proof -
  let ?w = "of_nat s :: u32"
  let ?c1 = "drop_bit 16 (?w AND 0xFFFF0000) + (?w AND 0x0000FFFF)"
  let ?c2 = "if 65535 < ?c1 then ?c1 - 65535 else ?c1"
  have u: "unat ?w = s" using s by (simp add: unat_of_nat take_bit_nat_eq_self)
  have f: "f < 0x10000 + 9" "g \<le> 65535" using s by (auto simp: f_def g_def)
  have "unat (drop_bit 16 ?w) = s div 0x10000" "unat (take_bit 16 ?w) = s mod 0x10000"
    unfolding unat_drop_bit_eq unsigned_take_bit_eq u by (simp_all add: drop_bit_eq_div take_bit_eq_mod)
  then have c1: "unat ?c1 = f" using f(1) unfolding hi_half and_ffff by (simp add: unat_word_ariths f_def)
  then have c2: "unat ?c2 = g" by (auto simp: g_def word_less_nat_alt unat_sub word_le_nat_alt)
  then have c3: "unat (NOT ?c2 AND 0x0000FFFF) = 65535 - g" using not_low [of ?c2] f(2) by simp
  define c where "c = NOT ?c2 AND 0x0000FFFF"
  then have "fold_cksum ?w = ucast (if c = 0 then 0xFFFF else c)" by (simp only: fold_cksum_def Let_def)
  moreover have "unat (ucast c :: u16) = 65535 - g" "c = 0 \<longleftrightarrow> g = 65535"
    using c3 f(2) unfolding c_def [symmetric] by (auto simp: unsigned_ucast_eq take_bit_nat_eq_self word_unat_eq_iff)
  ultimately show ?thesis by simp
qed

lemma fold_cksum_complements:
  assumes s: "s < 9 * 0x10000"
  shows "(s + unat (fold_cksum (of_nat s))) mod 65535 = 0" "0 < unat (fold_cksum (of_nat s))"
proof -
  define f where "f = s div 0x10000 + s mod 0x10000"
  define g where "g = (if 65535 < f then f - 65535 else f)"
  have u: "unat (fold_cksum (of_nat s)) = (if g = 65535 then 65535 else 65535 - g)"
    using unat_fold_cksum [OF s] by (simp add: f_def g_def)
  have g: "g \<le> 65535" using s by (auto simp: f_def g_def)
  have "s = 0x10000 * (s div 0x10000) + s mod 0x10000" by simp
  then have "s = f + 65535 * (s div 0x10000)" unfolding f_def by linarith
  then have "s mod 65535 = f mod 65535" by (metis mod_mult_self2)
  also have "f mod 65535 = g mod 65535" using le_mod_geq [of 65535 f] by (auto simp: g_def)
  finally have "(s + unat (fold_cksum (of_nat s))) mod 65535 = (g + unat (fold_cksum (of_nat s))) mod 65535" by (metis mod_add_cong)
  then show "(s + unat (fold_cksum (of_nat s))) mod 65535 = 0" using g unfolding u by (cases "g = 65535") auto
  show "0 < unat (fold_cksum (of_nat s))" using g unfolding u by auto
qed

definition set_check :: "u16 \<Rightarrow> u8 list \<Rightarrow> u8 list" where
  "set_check w bs = bs[10 := ucast w, 11 := ucast (drop_bit 8 w)]"

lemma ptr16_set_check:
  assumes "length bs = 20" "i < 10"
  shows "ptr16 (set_check w bs) i = (if i = 5 then w else ptr16 bs i)"
  using assms by (auto simp: ptr16_def set_check_def nth_list_update)

lemma unat_u16_less: "unat (w :: u16) < 0x10000"
  by (rule order_less_le_trans [OF unsigned_less]) simp

lemma sum_list_bound: "(\<And>i. f i \<le> b) \<Longrightarrow> sum_list (map f xs) \<le> length xs * (b :: nat)"
  by (induction xs) (auto intro: add_mono)

lemma upt10: "[0..<10] = [0, 1, 2, 3, 4, 5, 6, 7, 8, 9 :: nat]"
  by (simp add: upt_rec)

lemma ipv4_checksum_ok:
  assumes len: "length bs = 20"
  shows "ones_sum (set_check (get_ipv4_checksum bs) bs) = 0xFFFF \<and> get_ipv4_checksum bs \<noteq> 0"
proof -
  let ?is = "[0, 1, 2, 3, 4, 6, 7, 8, 9 :: nat]" and ?c = "get_ipv4_checksum bs" and ?f = "\<lambda>i. unat (ptr16 (set_check (get_ipv4_checksum bs) bs) i)"
  define s where "s = sum_list (map (\<lambda>i. unat (ptr16 bs i)) ?is)"
  have "(sum_list (map (\<lambda>i. ucast (ptr16 bs i)) ?is) :: u32) = of_nat s" by (simp add: s_def)
  then have c: "?c = fold_cksum (of_nat s)" by (simp only: get_ipv4_checksum_def)
  have "s < 9 * 0x10000" using sum_list_bound [of "\<lambda>i. unat (ptr16 bs i)" 65535 ?is] unat_u16_less [THEN Suc_leI] unfolding s_def by simp
  note k = fold_cksum_complements [OF this, folded c]
  have sum10: "sum_list (map ?f [0..<10]) = s + unat ?c" unfolding upt10 by (simp add: ptr16_set_check [OF len] s_def)
  have "0 < sum_list (map ?f [0..<10])" "sum_list (map ?f [0..<10]) mod 65535 = 0" using k unfolding sum10 by auto
  then have "0 < ones_sum (set_check ?c bs)" "ones_sum (set_check ?c bs) < 0x10000" "ones_sum (set_check ?c bs) mod 65535 = 0"
    using ones_fold [of 0 ?f "[0..<10]"] unat_u16_less unfolding ones_sum_def by auto
  then have "ones_sum (set_check ?c bs) = 0xFFFF" by (auto elim!: dvdE simp: mod_eq_0_iff_dvd)
  then show ?thesis using k(2) by auto
qed

text \<open>
  C?. The checksum that \<open>get_ipv4_checksum\<close> computes is the one a receiver verifies: with it in the checksum field, whatever was there before, the
  one's-complement sum of the ten 16-bit words of the header is \<open>0xFFFF\<close>. The value is never 0, so a header with a checksum is
  never mistaken for one without.
\<close>

theorem ipv4_checksum_valid:
  assumes len: "length bs = 20"
  shows "ones_sum (set_check (get_ipv4_checksum bs) bs) = 0xFFFF \<and> get_ipv4_checksum bs \<noteq> 0"
  by (rule ipv4_checksum_ok [OF assms])

theorem ipv4_checksum_valid_witness:
  "ones_sum (set_check (get_ipv4_checksum (ipv4_bytes (gen_ipv4_header 0x0A000008 0x0A000009 100))) (ipv4_bytes (gen_ipv4_header 0x0A000008 0x0A000009 100))) = 0xFFFF"
  using ipv4_checksum_valid [of "ipv4_bytes (gen_ipv4_header 0x0A000008 0x0A000009 100)"] by simp

subsection \<open>Printed forms\<close>

fun hex_str :: "nat \<Rightarrow> string" where
  "hex_str n = (let d = n mod 16; c = char_of (if d < 10 then d + 48 else d + 87) in if n < 16 then [c] else hex_str (n div 16) @ [c])"

declare hex_str.simps [simp del]

definition mac_to_string :: "u8 list \<Rightarrow> string" where
  "mac_to_string mac = concat (map (\<lambda>i. hex_str (unat (mac ! i)) @ (if i \<noteq> 5 then '':'' else [])) [0..<6])"

text \<open>\<open>inet_ntop\<close> prints the four bytes of the address in the order they have in memory.\<close>

definition ipv4_to_string :: "u32 \<Rightarrow> string" where
  "ipv4_to_string a = (case map (\<lambda>b. dec_str (unat b)) (le32 a) of
     [b0, b1, b2, b3] \<Rightarrow> b0 @ ''.'' @ b1 @ ''.'' @ b2 @ ''.'' @ b3
   | _ \<Rightarrow> [])"

definition eth_to_string :: "eth_hdr \<Rightarrow> string" where
  "eth_to_string h = ''[ETH: dst '' @ mac_to_string (dst_mac h) @ '', src '' @ mac_to_string (src_mac h) @ '', eth_type '' @
     dec_str (unat (htons (eth_type h))) @ '']''"

definition ipv4_hdr_to_string :: "ipv4_hdr \<Rightarrow> string" where
  "ipv4_hdr_to_string h = ''[IPv4: ihl '' @ dec_str (unat (ihl h)) @ '', version '' @ dec_str (unat (ip_version h)) @ '', ecn '' @ dec_str (unat (ecn h)) @
     '', tot_len '' @ dec_str (unat (htons (tot_len h))) @ '', id '' @ dec_str (unat (htons (ip_id h))) @ '', frag_off '' @ dec_str (unat (htons (frag_off h))) @
     '', ttl '' @ dec_str (unat (ttl h)) @ '', protocol '' @ dec_str (unat (protocol h)) @ '', check '' @ dec_str (unat (ip_check h)) @
     '', src IP '' @ ipv4_to_string (src_ip h) @ '', dst IP '' @ ipv4_to_string (dst_ip h) @ '']''"

definition udp_to_string :: "udp_hdr \<Rightarrow> string" where
  "udp_to_string h = ''[UDP: src_port '' @ dec_str (unat (htons (src_port h))) @ '', dst_port '' @ dec_str (unat (htons (dst_port h))) @
     '', len '' @ dec_str (unat (htons (udp_len h))) @ '', check '' @ dec_str (unat (udp_check h)) @ '']''"

definition frame_header_to_string :: "u8 list \<Rightarrow> string" where
  "frame_header_to_string buf = eth_to_string (eth_of buf) @ '', '' @ ipv4_hdr_to_string (ipv4_of (drop 14 buf)) @ '', '' @ udp_to_string (udp_of (drop 34 buf))"

text \<open>The routing information of an endpoint; addresses and ports in host byte order.\<close>

record eth_routing_info =
  ri_mac :: "u8 list"
  ri_ipv4_addr :: u32
  ri_udp_port :: u16
  ri_rxq_id :: u16
  ri_reta_size :: u16

definition eth_ri_to_string :: "eth_routing_info \<Rightarrow> string" where
  "eth_ri_to_string r = ''[MAC '' @ mac_to_string (ri_mac r) @ '', IP '' @ ipv4_to_string (ri_ipv4_addr r) @ '', UDP port '' @ dec_str (unat (ri_udp_port r)) @
     '', RQ queue ID '' @ (if ri_rxq_id r = 0xFFFF then '' N/A '' else dec_str (unat (ri_rxq_id r))) @
     '', RETA size '' @ (if ri_reta_size r = 0xFFFF then '' N/A'' else dec_str (unat (ri_reta_size r))) @ '']''"

text \<open>The routing information prints its address, which is in host order, as if it were in network order: 10.0.0.8 becomes 8.0.0.10.\<close>

lemma routing_info_prints_reversed: "ipv4_to_string 0x0A000008 = ''8.0.0.10'' \<and> ipv4_to_string (htonl 0x0A000008) = ''10.0.0.8''"
  by (simp add: ipv4_to_string_def le32_def htonl_def of_le32_def dec_str.simps char_of_def bit_Suc_0_iff)

end
