(* ===== verification/Dpdk_Transport.thy ===== *)
theory Dpdk_Transport
  imports Eth_Common Rx_Ring
begin

section \<open>The DPDK transport (\<open>transport_impl/dpdk\<close>)\<close>

text \<open>
  Three parts. The memory zone shared by the management daemon and the processes of a machine hands out the queue pairs of a port. The
  routing information of a remote endpoint is resolved once into the frame header that every packet to it carries. The datapath copies
  packets into buffers of the driver, hands them over, and keeps the received buffers in the Rpc object's ring until it releases
  them. The driver, the process identifiers and the liveness of processes are third-party: arguments of the definitions.
\<close>

abbreviation (input) kMaxQueuesPerPort :: nat where "kMaxQueuesPerPort \<equiv> 16"
abbreviation (input) kMaxPhyPorts :: nat where "kMaxPhyPorts \<equiv> 16"
abbreviation (input) kInvalidQpId :: nat where "kInvalidQpId \<equiv> 0xFFFFFFFFFFFFFFFF"
abbreviation (input) kNumRxRingEntries :: nat where "kNumRxRingEntries \<equiv> 4096"
abbreviation (input) kRxBatchSize :: nat where "kRxBatchSize \<equiv> 32"
abbreviation (input) kNumMbufs :: nat where "kNumMbufs \<equiv> 8191"
abbreviation (input) dpdkPostlist :: nat where "dpdkPostlist \<equiv> 32"

subsection \<open>Ownership of queue pairs\<close>

record qp_owner =
  pid :: int
  proc_random_id :: nat

record ownership_memzone =
  oz_epoch :: nat
  num_qps_available :: nat
  owner :: "qp_owner list list"
  oz_link :: "nat \<Rightarrow> nat"

definition memzone_init :: "ownership_memzone \<Rightarrow> ownership_memzone" where
  "memzone_init z = z\<lparr>num_qps_available := kMaxQueuesPerPort, oz_epoch := 0,
     owner := replicate kMaxPhyPorts (replicate kMaxQueuesPerPort \<lparr>pid = 0, proc_random_id = 0\<rparr>)\<rparr>"

definition get_epoch :: "ownership_memzone \<Rightarrow> nat" where
  "get_epoch z = oz_epoch z"

definition get_num_qps_available :: "ownership_memzone \<Rightarrow> nat" where
  "get_num_qps_available z = num_qps_available z"

fun int_str :: "int \<Rightarrow> string" where
  "int_str i = (if i < 0 then ''-'' @ dec_str (nat (- i)) else dec_str (nat i))"

definition get_summary :: "nat \<Rightarrow> ownership_memzone \<Rightarrow> string" where
  "get_summary phy_port z = ''['' @ dec_str (num_qps_available z) @ '' QPs of '' @ dec_str kMaxQueuesPerPort @ '' available] '' @
     (if num_qps_available z < kMaxQueuesPerPort
      then ''[Ownership: '' @ concat (map (\<lambda>i. if pid (owner z ! phy_port ! i) \<noteq> 0
             then ''[QP #'' @ dec_str i @ '', PID '' @ int_str (pid (owner z ! phy_port ! i)) @ ''] '' else []) [0..<kMaxQueuesPerPort]) @ '']''
      else [])"

text \<open>The index of the first free queue pair of a port from \<open>i\<close> on, of \<open>n\<close> that are left.\<close>

fun first_free :: "nat \<Rightarrow> nat \<Rightarrow> qp_owner list \<Rightarrow> nat option" where
  "first_free 0 i os = None"
| "first_free (Suc n) i os = (if pid (os ! i) = 0 then Some i else first_free n (i + 1) os)"

definition pid_conflict :: "int \<Rightarrow> nat \<Rightarrow> qp_owner list \<Rightarrow> bool" where
  "pid_conflict my_pid rid os \<longleftrightarrow> (\<exists>i \<in> set [0..<kMaxQueuesPerPort]. pid (os ! i) = my_pid \<and> proc_random_id (os ! i) \<noteq> rid)"

definition set_owner :: "nat \<Rightarrow> nat \<Rightarrow> qp_owner \<Rightarrow> ownership_memzone \<Rightarrow> ownership_memzone" where
  "set_owner p i w z = z\<lparr>owner := (owner z)[p := (owner z ! p)[i := w]]\<rparr>"

definition get_qp :: "int \<Rightarrow> nat \<Rightarrow> nat \<Rightarrow> ownership_memzone \<Rightarrow> (nat \<times> ownership_memzone) res" where
  "get_qp my_pid phy_port rid z0 = rangeE (phy_port < kMaxPhyPorts)
    (let z = z0\<lparr>oz_epoch := oz_epoch z0 + 1\<rparr>; os = owner z ! phy_port
     in if pid_conflict my_pid rid os then Inr (kInvalidQpId, z)
        else (case first_free kMaxQueuesPerPort 0 os of
            None \<Rightarrow> Inr (kInvalidQpId, z)
          | Some i \<Rightarrow> Inr (i, set_owner phy_port i \<lparr>pid = my_pid, proc_random_id = rid\<rparr> (z\<lparr>num_qps_available := sub64 (num_qps_available z) 1\<rparr>))))"

datatype free_result = FreeOk | EALREADY | EPERM

definition free_qp :: "int \<Rightarrow> nat \<Rightarrow> nat \<Rightarrow> ownership_memzone \<Rightarrow> (free_result \<times> ownership_memzone) res" where
  "free_qp my_pid phy_port qp_id z0 = rangeE (phy_port < kMaxPhyPorts \<and> qp_id < kMaxQueuesPerPort)
    (let z = z0\<lparr>oz_epoch := oz_epoch z0 + 1\<rparr>; w = owner z ! phy_port ! qp_id
     in if pid w = 0 then Inr (EALREADY, z)
        else if pid w \<noteq> my_pid then Inr (EPERM, z)
        else Inr (FreeOk, set_owner phy_port qp_id (w\<lparr>pid := 0\<rparr>) (z\<lparr>num_qps_available := num_qps_available z + 1\<rparr>)))"

text \<open>\<open>alive p\<close>: \<open>kill(p, 0)\<close> returns 0.\<close>

definition reclaim_one :: "(int \<Rightarrow> bool) \<Rightarrow> nat \<Rightarrow> nat \<Rightarrow> ownership_memzone \<Rightarrow> ownership_memzone" where
  "reclaim_one alive phy_port i z =
    (let w = owner z ! phy_port ! i
     in if alive (pid w) then z
        else set_owner phy_port i (w\<lparr>pid := 0\<rparr>) (z\<lparr>num_qps_available := num_qps_available z + 1\<rparr>))"

definition daemon_reclaim_qps_from_crashed :: "(int \<Rightarrow> bool) \<Rightarrow> nat \<Rightarrow> ownership_memzone \<Rightarrow> ownership_memzone res" where
  "daemon_reclaim_qps_from_crashed alive phy_port z = rangeE (phy_port < kMaxPhyPorts)
    (Inr (fold (reclaim_one alive phy_port) [0..<kMaxQueuesPerPort] z))"

text \<open>One round of the daemon's loop: what it logs, the epoch it remembers, and the reclaimed zone.\<close>

definition daemon_pass :: "(int \<Rightarrow> bool) \<Rightarrow> nat \<Rightarrow> nat \<times> ownership_memzone \<Rightarrow> (string option \<times> nat \<times> ownership_memzone) res" where
  "daemon_pass alive phy_port = (\<lambda>(prev_epoch, z).
    (let cur_epoch = get_epoch z;
         log = (if cur_epoch \<noteq> prev_epoch then Some (get_summary phy_port z) else None)
     in bindE (daemon_reclaim_qps_from_crashed alive phy_port z) (\<lambda>z1. Inr (log, cur_epoch, z1))))"

subsubsection \<open>Properties of the ownership zone\<close>

abbreviation (input) free_qps :: "qp_owner list \<Rightarrow> nat" where
  "free_qps os \<equiv> length (filter (\<lambda>w. pid w = 0) os)"

definition zone_ok :: "nat \<Rightarrow> ownership_memzone \<Rightarrow> bool" where
  "zone_ok p z \<longleftrightarrow> p < kMaxPhyPorts \<and> length (owner z) = kMaxPhyPorts \<and> (\<forall>os \<in> set (owner z). length os = kMaxQueuesPerPort) \<and>
     num_qps_available z = free_qps (owner z ! p)"

lemma first_free_spec:
  "(case first_free n i os of
      None \<Rightarrow> (\<forall>j. i \<le> j \<and> j < i + n \<longrightarrow> pid (os ! j) \<noteq> 0)
    | Some k \<Rightarrow> i \<le> k \<and> k < i + n \<and> pid (os ! k) = 0 \<and> (\<forall>j. i \<le> j \<and> j < k \<longrightarrow> pid (os ! j) \<noteq> 0))"
proof (induction n arbitrary: i)
  case (Suc n)
  show ?case
  proof (cases "pid (os ! i) = 0")
    case False
    then have "j = i \<or> Suc i \<le> j" if "i \<le> j" for j using that by auto
    then show ?thesis using Suc [of "i + 1"] False by (auto split: option.splits dest: le_neq_implies_less)
  qed simp
qed simp

lemma first_free_None: "first_free n i os = None \<Longrightarrow> i \<le> j \<Longrightarrow> j < i + n \<Longrightarrow> pid (os ! j) \<noteq> 0"
  using first_free_spec [of i n os] by simp

lemma filter_update_length:
  assumes "i < length xs"
  shows "length (filter P (xs[i := v])) + (if P (xs ! i) then 1 else 0) = length (filter P xs) + (if P v then 1 else 0)"
  using assms
proof (induction xs arbitrary: i)
  case (Cons x xs)
  then show ?case by (cases i) auto
qed simp

lemma zone_ok_nth: "zone_ok p z \<Longrightarrow> length (owner z ! p) = kMaxQueuesPerPort"
  by (simp add: zone_ok_def)

lemma set_owner_ok:
  assumes z: "zone_ok p z" and i: "i < kMaxQueuesPerPort"
    and n: "n + (if pid (owner z ! p ! i) = 0 then 1 else 0) = num_qps_available z + (if pid w = 0 then 1 else 0)"
  shows "zone_ok p (set_owner p i w (z\<lparr>num_qps_available := n\<rparr>))"
proof -
  have l: "i < length (owner z ! p)" "p < length (owner z)" using z i zone_ok_nth [OF z] by (auto simp: zone_ok_def)
  have "n = free_qps ((owner z ! p)[i := w])"
    using n z filter_update_length [OF l(1), of "\<lambda>w. pid w = 0" w] by (simp add: zone_ok_def split: if_splits)
  then show ?thesis using z l zone_ok_nth [OF z]
    by (auto simp: zone_ok_def set_owner_def dest!: set_update_subset_insert [THEN subsetD])
qed

definition owns :: "ownership_memzone \<Rightarrow> nat \<Rightarrow> nat \<Rightarrow> int" where
  "owns z p i = pid (owner z ! p ! i)"

lemma owns_set_owner:
  assumes "zone_ok p z" "i < kMaxQueuesPerPort"
  shows "owns (set_owner p i w (z\<lparr>num_qps_available := n\<rparr>)) q j = (if q = p \<and> j = i then pid w else owns z q j)"
  using assms zone_ok_nth [OF assms(1)] by (auto simp: owns_def set_owner_def zone_ok_def nth_list_update)

lemma zone_ok_epoch [simp]: "zone_ok p (z\<lparr>oz_epoch := e\<rparr>) = zone_ok p z"
  by (simp add: zone_ok_def)

lemma owns_epoch [simp]: "owns (z\<lparr>oz_epoch := e\<rparr>) = owns z"
  by (simp add: owns_def fun_eq_iff)

lemma num_available_pos: "zone_ok p z \<Longrightarrow> i < kMaxQueuesPerPort \<Longrightarrow> owns z p i = 0 \<Longrightarrow> 0 < num_qps_available z"
  using nth_mem [of i "owner z ! p"] by (auto simp: zone_ok_def owns_def filter_empty_conv)

lemma get_qp_ok:
  assumes z: "zone_ok p z" and a: "0 < my_pid"
  shows "\<exists>r z'. get_qp my_pid p rid z = Inr (r, z') \<and> zone_ok p z' \<and>
    (if r = kInvalidQpId
     then owns z' = owns z \<and> (pid_conflict my_pid rid (owner z ! p) \<or> (\<forall>i < kMaxQueuesPerPort. owns z p i \<noteq> 0))
     else r < kMaxQueuesPerPort \<and> owns z p r = 0 \<and> (\<forall>q j. owns z' q j = (if q = p \<and> j = r then my_pid else owns z q j)))"
proof -
  let ?z = "z\<lparr>oz_epoch := oz_epoch z + 1\<rparr>" and ?os = "owner z ! p"
  have p: "p < 16" using z by (simp add: zone_ok_def)
  note ff = first_free_spec [of 0 16 ?os]
  show ?thesis
  proof (cases "pid_conflict my_pid rid ?os \<or> first_free 16 0 ?os = None")
    case True
    then have "get_qp my_pid p rid z = Inr (kInvalidQpId, ?z)" using p by (auto simp: get_qp_def Let_def)
    moreover have "\<forall>i < 16. owns z p i \<noteq> 0" if "first_free 16 0 ?os = None" using first_free_None [OF that] by (simp add: owns_def)
    ultimately show ?thesis using z True by auto
  next
    case False
    then obtain i where i: "first_free 16 0 ?os = Some i" "i < 16" "owns z p i = 0" "\<not> pid_conflict my_pid rid ?os" using ff by (auto simp: owns_def)
    have pos: "0 < num_qps_available z" by (rule num_available_pos [OF z i(2,3)])
    let ?w = "\<lparr>pid = my_pid, proc_random_id = rid\<rparr>" and ?n = "num_qps_available z - 1"
    have "get_qp my_pid p rid z = Inr (i, set_owner p i ?w (?z\<lparr>num_qps_available := ?n\<rparr>))"
      using p i pos by (simp add: get_qp_def Let_def)
    moreover have "zone_ok p (set_owner p i ?w (?z\<lparr>num_qps_available := ?n\<rparr>))"
      by (rule set_owner_ok) (use z i a pos in \<open>auto simp: owns_def\<close>)
    ultimately show ?thesis using i owns_set_owner [of p ?z i ?w ?n] z by simp
  qed
qed

text \<open>
  \<open>get_qp\<close> hands out a queue pair of the port that was free, records the caller as its owner and leaves all other owners as they were; it
  fails, changing no owner, exactly if no queue pair of the port is free or another process has recorded the same process identifier.
\<close>

theorem get_qp_exclusive:
  assumes z: "zone_ok p z" and a: "0 < my_pid"
  shows "\<exists>r z'. get_qp my_pid p rid z = Inr (r, z') \<and> zone_ok p z' \<and>
    (if r = kInvalidQpId
     then owns z' = owns z \<and> (pid_conflict my_pid rid (owner z ! p) \<or> (\<forall>i < kMaxQueuesPerPort. owns z p i \<noteq> 0))
     else r < kMaxQueuesPerPort \<and> owns z p r = 0 \<and> (\<forall>q j. owns z' q j = (if q = p \<and> j = r then my_pid else owns z q j)))"
  by (rule get_qp_ok [OF assms])

theorem get_qp_exclusive_witness:
  "\<exists>r z'. get_qp 4711 3 33 (memzone_init \<lparr>oz_epoch = 0, num_qps_available = 0, owner = [], oz_link = (\<lambda>_. 0)\<rparr>) = Inr (r, z') \<and> zone_ok 3 z'"
proof -
  let ?z = "memzone_init \<lparr>oz_epoch = 0, num_qps_available = 0, owner = [], oz_link = (\<lambda>_. 0)\<rparr>"
  have "zone_ok 3 ?z" by (simp add: zone_ok_def memzone_init_def)
  then show ?thesis using get_qp_exclusive [of 3 ?z 4711 33] by auto
qed

text \<open>The counter is shared by all ports and starts at the number of queue pairs of one: with a second port in use it wraps around.\<close>

lemma second_port_wraps_counter:
  assumes z: "zone_ok 0 z" "\<forall>i < kMaxQueuesPerPort. owns z 0 i \<noteq> 0"
    and f: "first_free kMaxQueuesPerPort 0 (owner z ! 1) = Some i" "\<not> pid_conflict my_pid rid (owner z ! 1)"
  shows "\<exists>z'. get_qp my_pid 1 rid z = Inr (i, z') \<and> get_num_qps_available z' = 2 ^ 64 - 1"
proof -
  have "free_qps (owner z ! 0) = 0" using z zone_ok_nth [OF z(1)] by (auto simp: filter_empty_conv in_set_conv_nth owns_def)
  then have "num_qps_available z = 0" using z(1) by (simp add: zone_ok_def)
  then show ?thesis using f by (simp add: get_qp_def Let_def set_owner_def get_num_qps_available_def sub64_def)
qed

datatype zone_event = ZGet int nat | ZFree int nat | ZReclaim "int set"

text \<open>\<open>ZReclaim A\<close> is a round of the daemon while the processes in \<open>A\<close> are alive; \<open>kill(0, 0)\<close> addresses the daemon's own process group and succeeds.\<close>

definition zone_allowed :: "zone_event \<Rightarrow> bool" where
  "zone_allowed e = (case e of ZGet a rid \<Rightarrow> 0 < a | ZFree a i \<Rightarrow> i < kMaxQueuesPerPort | ZReclaim A \<Rightarrow> 0 \<in> A)"

definition zone_call :: "nat \<Rightarrow> zone_event \<Rightarrow> ownership_memzone \<Rightarrow> ownership_memzone res" where
  "zone_call p e z = (case e of
     ZGet a rid \<Rightarrow> bindE (get_qp a p rid z) (\<lambda>(_, z'). Inr z')
   | ZFree a i \<Rightarrow> bindE (free_qp a p i z) (\<lambda>(_, z'). Inr z')
   | ZReclaim A \<Rightarrow> daemon_reclaim_qps_from_crashed (\<lambda>a. a \<in> A) p z)"

inductive zone_reach :: "nat \<Rightarrow> ownership_memzone \<Rightarrow> bool" for p where
  zone_start: "zone_reach p (memzone_init z)"
| zone_next: "zone_reach p z \<Longrightarrow> zone_allowed e \<Longrightarrow> zone_call p e z = Inr z' \<Longrightarrow> zone_reach p z'"

text \<open>What an event may do to an owner: only the owner itself frees a queue pair, or the daemon after the owner's death.\<close>

definition loses :: "zone_event \<Rightarrow> nat \<Rightarrow> int \<Rightarrow> bool" where
  "loses e i a = (case e of ZGet b rid \<Rightarrow> False | ZFree b j \<Rightarrow> b = a \<and> j = i | ZReclaim A \<Rightarrow> a \<notin> A)"

definition zone_step_ok :: "nat \<Rightarrow> zone_event \<Rightarrow> ownership_memzone \<Rightarrow> ownership_memzone \<Rightarrow> bool" where
  "zone_step_ok p e z z' \<longleftrightarrow> zone_ok p z' \<and> (\<forall>i. owns z p i \<noteq> 0 \<longrightarrow> owns z' p i = (if loses e i (owns z p i) \<and> i < kMaxQueuesPerPort then 0 else owns z p i))"

lemma reclaim_one_ok:
  assumes z: "zone_ok p z" and i: "i < kMaxQueuesPerPort" and a: "alive 0"
  shows "zone_ok p (reclaim_one alive p i z)"
    "owns (reclaim_one alive p i z) p j = (if j = i \<and> \<not> alive (owns z p i) then 0 else owns z p j)"
proof -
  have "zone_ok p (set_owner p i ((owner z ! p ! i)\<lparr>pid := 0\<rparr>) (z\<lparr>num_qps_available := num_qps_available z + 1\<rparr>))" if "\<not> alive (owns z p i)"
    by (rule set_owner_ok [OF z i]) (use that a in \<open>auto simp: owns_def\<close>)
  then show "zone_ok p (reclaim_one alive p i z)" using z by (auto simp: reclaim_one_def Let_def owns_def)
  show "owns (reclaim_one alive p i z) p j = (if j = i \<and> \<not> alive (owns z p i) then 0 else owns z p j)"
    using owns_set_owner [OF z i] by (auto simp: reclaim_one_def Let_def) (auto simp: owns_def)
qed

lemma reclaim_fold_ok:
  assumes "zone_ok p z" "alive 0" "n \<le> kMaxQueuesPerPort"
  shows "zone_ok p (fold (reclaim_one alive p) [0..<n] z) \<and>
    (\<forall>j. owns (fold (reclaim_one alive p) [0..<n] z) p j = (if j < n \<and> \<not> alive (owns z p j) then 0 else owns z p j))"
  using assms(3)
proof (induction n)
  case (Suc n)
  then have IH: "zone_ok p (fold (reclaim_one alive p) [0..<n] z)"
    "owns (fold (reclaim_one alive p) [0..<n] z) p j = (if j < n \<and> \<not> alive (owns z p j) then 0 else owns z p j)" for j by auto
  show ?case using reclaim_one_ok [OF IH(1), of n alive] assms(2) Suc.prems by (auto simp: IH(2) less_Suc_eq)
qed (use assms in simp)

lemma zone_call_ok:
  assumes z: "zone_ok p z" and a: "zone_allowed e"
  shows "holds (zone_step_ok p e z) (zone_call p e z)"
proof (cases e)
  case (ZGet b rid)
  then have "0 < b" using a by (simp add: zone_allowed_def)
  from get_qp_ok [OF z this, of rid] obtain r z' where g: "get_qp b p rid z = Inr (r, z')" "zone_ok p z'"
      and k: "\<And>i. owns z p i \<noteq> 0 \<Longrightarrow> owns z' p i = owns z p i" by (force split: if_splits)
  then show ?thesis by (auto simp: zone_call_def zone_step_ok_def loses_def ZGet)
next
  case (ZFree b i)
  then have i: "i < 16" "p < 16" using a z by (auto simp: zone_allowed_def zone_ok_def)
  let ?z = "z\<lparr>oz_epoch := oz_epoch z + 1\<rparr>" and ?w = "(owner z ! p ! i)\<lparr>pid := 0\<rparr>" and ?n = "num_qps_available z + 1"
  have "zone_ok p (set_owner p i ?w (?z\<lparr>num_qps_available := ?n\<rparr>))" if "owns z p i \<noteq> 0"
    by (rule set_owner_ok) (use z i that in \<open>auto simp: owns_def\<close>)
  then show ?thesis using i z owns_set_owner [of p ?z i ?w ?n]
    by (auto simp: zone_call_def zone_step_ok_def loses_def ZFree free_qp_def Let_def owns_def)
next
  case (ZReclaim A)
  then have "0 \<in> A" "p < 16" using a z by (auto simp: zone_allowed_def zone_ok_def)
  then show ?thesis using reclaim_fold_ok [OF z, of "\<lambda>a. a \<in> A" 16]
    by (auto simp: zone_call_def zone_step_ok_def loses_def ZReclaim daemon_reclaim_qps_from_crashed_def)
qed

lemma zone_reach_ok:
  assumes "p < kMaxPhyPorts" "zone_reach p z"
  shows "zone_ok p z"
  using assms(2)
proof induction
  case (zone_start z)
  then show ?case using assms(1) by (simp add: zone_ok_def memzone_init_def)
next
  case (zone_next z e z')
  then show ?case using zone_call_ok [of p z e] by (simp add: zone_step_ok_def)
qed

text \<open>
  C22. However processes of a machine reserve and free queue pairs of the one port its daemon manages, and whatever processes the daemon finds dead: every call returns,
  the number of available queue pairs is the number of those that have no owner, and an owned queue pair keeps its owner until that
  process frees it or the daemon finds that process dead.
\<close>

theorem qp_ownership_invariant:
  assumes "p < kMaxPhyPorts" "zone_reach p z" "zone_allowed e"
  shows "\<exists>z'. zone_call p e z = Inr z' \<and> num_qps_available z = free_qps (owner z ! p) \<and>
    num_qps_available z' = free_qps (owner z' ! p) \<and>
    (\<forall>i < kMaxQueuesPerPort. owns z p i \<noteq> 0 \<longrightarrow> owns z' p i = (if loses e i (owns z p i) then 0 else owns z p i))"
  using zone_reach_ok [OF assms(1,2)] zone_call_ok [of p z e, OF zone_reach_ok [OF assms(1,2)] assms(3)]
  by (auto simp: holds_iff zone_step_ok_def zone_ok_def)

theorem qp_ownership_invariant_witness:
  "\<exists>z z'. zone_reach 0 z \<and> zone_call 0 (ZReclaim {0, 17}) z = Inr z' \<and> num_qps_available z' = free_qps (owner z' ! 0)"
proof -
  let ?z = "memzone_init \<lparr>oz_epoch = 0, num_qps_available = 0, owner = [], oz_link = (\<lambda>_. 0)\<rparr>"
  have r: "zone_reach 0 ?z" by (rule zone_start)
  have "zone_allowed (ZReclaim {0, 17})" by (simp add: zone_allowed_def)
  then show ?thesis using qp_ownership_invariant [OF _ r, of "ZReclaim {0, 17}"] r by auto
qed

subsection \<open>Construction and addresses\<close>

text \<open>
  What \<open>resolve_phy_port\<close> learns from the driver: \<open>dev_info\<close> and the link. \<open>link_speed\<close> is in Mbps, with 0 for \<open>ETH_SPEED_NUM_NONE\<close>.
\<close>

datatype dpdk_proc_type = kPrimary | kSecondary

record dpdk_dev =
  dev_mac :: "u8 list"
  driver_name :: string
  dev_reta_size :: nat
  dev_link_up :: bool
  dev_link_speed :: nat

record dpdk_resolve =
  rs_ipv4_addr :: u32
  rs_mac_addr :: "u8 list"
  rs_bandwidth :: nat
  rs_reta_size :: nat

definition get_port_ipv4_addr :: "dpdk_dev \<Rightarrow> u32" where
  "get_port_ipv4_addr d = of_le32 (dev_mac d ! 2) (dev_mac d ! 3) (dev_mac d ! 4) (dev_mac d ! 5)"

definition resolve_phy_port :: "dpdk_proc_type \<Rightarrow> nat \<Rightarrow> dpdk_dev \<Rightarrow> dpdk_resolve res" where
  "resolve_phy_port pt memzone_speed d =
    rt_assert (driver_name d \<in> {''net_mlx4'', ''net_mlx5'', ''mlx5_pci''})
    (bindE (if driver_name d = ''net_mlx4''
            then rt_assert (dev_reta_size d = 0) (Inr 128)
            else rt_assert (kMaxQueuesPerPort \<le> dev_reta_size d) (Inr (dev_reta_size d))) (\<lambda>reta.
     bindE (if pt = kPrimary then rt_assert (dev_link_up d) (Inr (dev_link_speed d)) else Inr memzone_speed) (\<lambda>speed.
     bindE (if speed \<noteq> 0 then rt_assert (10000 \<le> speed) (Inr (speed * 1000 * 1000 div 8)) else Inr (10 * (1000 * 1000 * 1000) div 8)) (\<lambda>bw.
       Inr \<lparr>rs_ipv4_addr = get_port_ipv4_addr d, rs_mac_addr = take 6 (dev_mac d), rs_bandwidth = bw, rs_reta_size = reta\<rparr>))))"

definition udp_port_for_queue :: "nat \<Rightarrow> nat \<Rightarrow> u16" where
  "udp_port_for_queue phy_port qp_id = of_nat (kBaseEthUDPPort + phy_port * kMaxQueuesPerPort + qp_id)"

definition get_mempool_name :: "nat \<Rightarrow> nat \<Rightarrow> nat \<Rightarrow> string res" where
  "get_mempool_name namesize phy_port qp_id =
    (let ret = ''erpc-mp-'' @ dec_str phy_port @ ''-'' @ dec_str qp_id in rt_assert (length ret < namesize) (Inr ret))"

text \<open>
  The globals of a process, and the answers of the driver that the constructor asks for: whether \<open>rte_eal_init\<close> works, the process type, the shared
  zone that a secondary process finds, whether \<open>setup_phy_port\<close> works, the mempools by name, and the packets that wait in the receive queue.
\<close>

record dpdk_globals =
  g_dpdk_initialized :: bool
  g_port_initialized :: "nat \<Rightarrow> bool"
  g_memzone :: ownership_memzone

record dpdk_answers =
  an_eal_init :: bool
  an_proc_type :: dpdk_proc_type
  an_zone :: "ownership_memzone option"
  an_setup_ok :: bool
  an_mempool :: "string \<Rightarrow> bool"
  an_namesize :: nat
  an_bursts :: "nat list list"

text \<open>\<open>drain_rx_queue\<close> frees what the receive bursts return, until one returns nothing; \<open>bursts\<close> are the answers of the driver.\<close>

fun drain_rx_queue :: "nat list list \<Rightarrow> nat list res" where
  "drain_rx_queue [] = Inl NoReturn"
| "drain_rx_queue (ms # bursts) = (if ms = [] then Inr [] else bindE (drain_rx_queue bursts) (\<lambda>freed. Inr (ms @ freed)))"

record dpdk_transport =
  d_proc_type :: dpdk_proc_type
  d_qp_id :: nat
  d_rx_flow_udp_port :: u16
  d_phy_port :: nat
  d_resolve :: dpdk_resolve
  d_rx_ring :: "nat list"
  d_rx_ring_head :: nat
  d_rx_ring_tail :: nat
  d_tx_flush_count :: nat

definition dpdk_eal :: "dpdk_answers \<Rightarrow> nat \<Rightarrow> dpdk_globals \<Rightarrow> dpdk_globals res" where
  "dpdk_eal an phy_port g =
    (if g_dpdk_initialized g then Inr g
     else rt_assert (an_eal_init an)
       (if an_proc_type an = kPrimary
        then Inr (g\<lparr>g_memzone := memzone_init (g_memzone g), g_dpdk_initialized := True\<rparr>)
        else (case an_zone an of
            None \<Rightarrow> Inl ExitProcess
          | Some z \<Rightarrow> Inr (g\<lparr>g_memzone := z, g_port_initialized := (g_port_initialized g)(phy_port := True), g_dpdk_initialized := True\<rparr>))))"

definition DpdkTransport_init :: "dpdk_answers \<Rightarrow> int \<Rightarrow> dpdk_dev \<Rightarrow> nat \<Rightarrow> nat \<Rightarrow> dpdk_globals \<Rightarrow> (dpdk_transport \<times> dpdk_globals) res" where
  "DpdkTransport_init an my_pid d memzone_speed phy_port g0 =
    bindE (dpdk_eal an phy_port g0) (\<lambda>g.
    bindE (get_qp my_pid phy_port 33 (g_memzone g)) (\<lambda>(qp, z).
    (let g1 = g\<lparr>g_memzone := z\<rparr>
     in if qp = kInvalidQpId then Inl RuntimeError
        else bindE (get_mempool_name (an_namesize an) phy_port qp) (\<lambda>name.
          let fresh = (an_proc_type an = kPrimary \<and> \<not> g_port_initialized g1 phy_port);
              g2 = (if fresh then g1\<lparr>g_port_initialized := (g_port_initialized g1)(phy_port := True)\<rparr> else g1)
          in rt_assert (fresh \<longrightarrow> an_setup_ok an) (rt_assert (an_mempool an name)
             (bindE (if an_proc_type an = kSecondary then drain_rx_queue (an_bursts an) else Inr []) (\<lambda>_.
              bindE (resolve_phy_port (an_proc_type an) memzone_speed d) (\<lambda>rs.
               Inr (\<lparr>d_proc_type = an_proc_type an, d_qp_id = qp, d_rx_flow_udp_port = of_nat (kBaseEthUDPPort + qp), d_phy_port = phy_port,
                     d_resolve = rs, d_rx_ring = [], d_rx_ring_head = 0, d_rx_ring_tail = 0, d_tx_flush_count = 0\<rparr>, g2)))))))))"

definition init_rx_ring :: "nat list \<Rightarrow> dpdk_transport \<Rightarrow> dpdk_transport" where
  "init_rx_ring ring t = t\<lparr>d_rx_ring := ring\<rparr>"

definition DpdkTransport_destroy :: "nat list list \<Rightarrow> int \<Rightarrow> dpdk_transport \<Rightarrow> dpdk_globals \<Rightarrow> dpdk_globals res" where
  "DpdkTransport_destroy bursts my_pid t g = bindE (drain_rx_queue bursts) (\<lambda>_.
    bindE (free_qp my_pid (d_phy_port t) (d_qp_id t) (g_memzone g)) (\<lambda>(r, z).
      rt_assert (r = FreeOk) (Inr (g\<lparr>g_memzone := z\<rparr>))))"

text \<open>For a port other than 0 the transport's UDP port is not the one that \<open>udp_port_for_queue\<close> names.\<close>

lemma udp_port_ignores_phy_port:
  "udp_port_for_queue 1 qp \<noteq> of_nat (kBaseEthUDPPort + qp)"
proof
  assume "udp_port_for_queue 1 qp = of_nat (kBaseEthUDPPort + qp)"
  then have "(of_nat (kBaseEthUDPPort + qp) + 16 :: u16) = of_nat (kBaseEthUDPPort + qp)" by (simp add: udp_port_for_queue_def algebra_simps)
  then show False by simp
qed

text \<open>
  In a process that has initialised DPDK, a transport that the constructor returns owns a queue pair that was free, and destroying it in the same process
  gives the queue pair back: the owners of the port are again those from before the construction.
\<close>

theorem dpdk_transport_roundtrip:
  assumes z: "zone_ok p (g_memzone g)" "g_dpdk_initialized g" and a: "0 < my_pid" and new: "DpdkTransport_init an my_pid d sp p g = Inr (t, g1)"
    and dr: "drain_rx_queue bursts = Inr ms"
  shows "owns (g_memzone g1) p (d_qp_id t) = my_pid \<and> owns (g_memzone g) p (d_qp_id t) = 0 \<and>
    (\<exists>g2. DpdkTransport_destroy bursts my_pid t g1 = Inr g2 \<and> zone_ok p (g_memzone g2) \<and> owns (g_memzone g2) p = owns (g_memzone g) p)"
proof -
  obtain qp z1 where q: "get_qp my_pid p 33 (g_memzone g) = Inr (qp, z1)" "qp \<noteq> kInvalidQpId" "d_qp_id t = qp" "g_memzone g1 = z1" "d_phy_port t = p"
    using new z(2) by (auto simp: DpdkTransport_init_def dpdk_eal_def res_Inr Let_def rt_assert_def split: if_splits prod.splits)
  have g: "zone_ok p z1" "qp < 16" "owns (g_memzone g) p qp = 0" "\<And>j. owns z1 p j = (if j = qp then my_pid else owns (g_memzone g) p j)"
    using get_qp_ok [OF z(1) a, of 33] q(1,2) by auto
  have p: "p < 16" using z(1) by (simp add: zone_ok_def)
  let ?w = "(owner z1 ! p ! qp)\<lparr>pid := 0\<rparr>" and ?z = "z1\<lparr>oz_epoch := oz_epoch z1 + 1\<rparr>" and ?n = "num_qps_available z1 + 1"
  have own: "pid (owner z1 ! p ! qp) = my_pid" using g(4) [of qp] by (simp add: owns_def)
  have "DpdkTransport_destroy bursts my_pid t g1 = Inr (g1\<lparr>g_memzone := set_owner p qp ?w (?z\<lparr>num_qps_available := ?n\<rparr>)\<rparr>)"
    using q p g(2) a own dr by (simp add: DpdkTransport_destroy_def free_qp_def Let_def rt_assert_def)
  moreover have "zone_ok p (set_owner p qp ?w (?z\<lparr>num_qps_available := ?n\<rparr>))"
    by (rule set_owner_ok) (use g own a in auto)
  moreover have "owns (set_owner p qp ?w (?z\<lparr>num_qps_available := ?n\<rparr>)) p = owns (g_memzone g) p"
    using owns_set_owner [of p ?z qp ?w ?n] g by (auto simp: fun_eq_iff)
  ultimately show ?thesis using q(3,4) g by auto
qed

subsection \<open>Routing information and frame headers\<close>

definition fill_local_routing_info :: "dpdk_transport \<Rightarrow> eth_routing_info" where
  "fill_local_routing_info t = \<lparr>ri_mac = take 6 (rs_mac_addr (d_resolve t)), ri_ipv4_addr = rs_ipv4_addr (d_resolve t), ri_udp_port = d_rx_flow_udp_port t,
     ri_rxq_id = of_nat (d_qp_id t), ri_reta_size = of_nat (rs_reta_size (d_resolve t))\<rparr>"

text \<open>
  \<open>rss src_addr dst_addr sport dport\<close> is \<open>rte_softrss\<close> on the tuple with the default key. The scan takes the first source port from
  \<open>kBaseEthUDPPort\<close> on whose hash selects the receiver's queue; the frame header then overwrites the front of the routing information, of
  which \<open>rest\<close> are the bytes behind the header.
\<close>

definition rss_queue :: "(u32 \<Rightarrow> u32 \<Rightarrow> u16 \<Rightarrow> u16 \<Rightarrow> u32) \<Rightarrow> dpdk_transport \<Rightarrow> eth_routing_info \<Rightarrow> nat \<Rightarrow> nat" where
  "rss_queue rss t ri i = unat (rss (rs_ipv4_addr (d_resolve t)) (ri_ipv4_addr ri) (of_nat i) (ri_udp_port ri)) mod unat (ri_reta_size ri) mod kMaxQueuesPerPort"

definition dpdk_frame_header :: "dpdk_transport \<Rightarrow> eth_routing_info \<Rightarrow> u16 \<Rightarrow> u8 list" where
  "dpdk_frame_header t ri sport = eth_bytes (gen_eth_header (rs_mac_addr (d_resolve t)) (ri_mac ri)) @
     ipv4_bytes (gen_ipv4_header (rs_ipv4_addr (d_resolve t)) (ri_ipv4_addr ri) 0) @ udp_bytes (gen_udp_header sport (ri_udp_port ri) 0)"

definition scan_ports :: "nat list" where
  "scan_ports = [kBaseEthUDPPort..<65535]"

definition resolve_remote_routing_info :: "(u32 \<Rightarrow> u32 \<Rightarrow> u16 \<Rightarrow> u16 \<Rightarrow> u32) \<Rightarrow> dpdk_transport \<Rightarrow> eth_routing_info \<Rightarrow> u8 list \<Rightarrow> u8 list res" where
  "resolve_remote_routing_info rss t ri rest = rangeE (ri_reta_size ri \<noteq> 0)
    (case find (\<lambda>i. rss_queue rss t ri i = unat (ri_rxq_id ri)) scan_ports of
       None \<Rightarrow> Inl RuntimeError
     | Some i \<Rightarrow> Inr (dpdk_frame_header t ri (of_nat i) @ rest))"

definition set16 :: "nat \<Rightarrow> u16 \<Rightarrow> u8 list \<Rightarrow> u8 list" where
  "set16 k w bs = bs[k := ucast w, k + 1 := ucast (drop_bit 8 w)]"

definition format_pkthdr :: "u8 list \<Rightarrow> nat \<Rightarrow> pkthdr \<Rightarrow> pkthdr res" where
  "format_pkthdr routing_info pkt_size h =
    (let hr0 = take 40 routing_info @ drop 40 (headroom h);
         hr1 = set16 16 (htons (of_nat (sub64 pkt_size 14))) hr0;
         hr2 = set16 24 (get_ipv4_checksum (take 20 (drop 14 hr1))) hr1
     in assertE (udp_check (get_udp_hdr (h\<lparr>headroom := hr2\<rparr>)) = 0)
          (Inr (h\<lparr>headroom := set16 38 (htons (of_nat (sub64 (sub64 pkt_size 14) 20))) hr2\<rparr>)))"

subsubsection \<open>The frame that arrives\<close>

lemma length_eth_bytes: "mac_ok (dst_mac h) \<Longrightarrow> mac_ok (src_mac h) \<Longrightarrow> length (eth_bytes h) = 14"
  by (simp add: eth_bytes_def mac_ok_def)

lemma nth_set16: "k + 1 < length bs \<Longrightarrow> set16 k w bs ! j = (if j = k then ucast w else if j = k + 1 then ucast (drop_bit 8 w) else bs ! j)"
  by (simp add: set16_def nth_list_update)

lemma length_set16 [simp]: "length (set16 k w bs) = length bs"
  by (simp add: set16_def)

lemma drop_set16: "n \<le> k \<Longrightarrow> drop n (set16 k w bs) = set16 (k - n) w (drop n bs)"
  by (simp add: set16_def drop_update_swap Suc_diff_le)

lemma take_set16: "n \<le> k \<Longrightarrow> take n (set16 k w bs) = take n bs"
  by (simp add: set16_def take_update_cancel)

lemma take_set16_inside: "k + 1 < n \<Longrightarrow> take n (set16 k w bs) = set16 k w (take n bs)"
  by (simp add: set16_def take_update_swap)

lemma set16_append1: "k + 1 < length xs \<Longrightarrow> set16 k w (xs @ ys) = set16 k w xs @ ys"
  by (simp add: set16_def list_update_append1)

lemma set16_append2: "length xs \<le> k \<Longrightarrow> set16 k w (xs @ ys) = xs @ set16 (k - length xs) w ys"
  by (simp add: set16_def list_update_append Suc_diff_le)

lemma ipv4_set_tot_len: "set16 2 w (ipv4_bytes h) = ipv4_bytes (h\<lparr>tot_len := w\<rparr>)"
  by (simp add: set16_def ipv4_bytes_def le16_def)

lemma ipv4_set_check: "set16 10 w (ipv4_bytes h) = ipv4_bytes (h\<lparr>ip_check := w\<rparr>)"
  by (simp add: set16_def ipv4_bytes_def le16_def numeral_eq_Suc)

lemma set_check_set16: "set_check w = set16 10 w"
  by (simp add: set_check_def set16_def fun_eq_iff)

lemma udp_set_len: "set16 4 w (udp_bytes h) = udp_bytes (h\<lparr>udp_len := w\<rparr>)"
  by (simp add: set16_def udp_bytes_def le16_def numeral_eq_Suc)

lemma udp_bytes_split: "udp_check u = 0 \<Longrightarrow> take 6 (udp_bytes u) @ [0, 0] = udp_bytes u"
  by (simp add: udp_bytes_def le16_def)

lemma format_pkthdr_frame:
  assumes e: "mac_ok (dst_mac e)" "mac_ok (src_mac e)" and u: "udp_check u = 0" and h: "length (headroom h) = 42" "drop 40 (headroom h) = [0, 0]"
    and sz: "34 \<le> pkt_size" and i1_def: "i1 = i\<lparr>tot_len := htons (of_nat (pkt_size - 14))\<rparr>"
  shows "format_pkthdr (eth_bytes e @ ipv4_bytes i @ udp_bytes u @ rest) pkt_size h =
    Inr (h\<lparr>headroom := eth_bytes e @ ipv4_bytes (i1\<lparr>ip_check := get_ipv4_checksum (ipv4_bytes i1)\<rparr>) @
       udp_bytes (u\<lparr>udp_len := htons (of_nat (pkt_size - 34))\<rparr>)\<rparr>)"
proof -
  let ?E = "eth_bytes e" and ?c = "get_ipv4_checksum (ipv4_bytes i1)"
  have l: "length ?E = 14" by (rule length_eth_bytes [OF e])
  have "take 40 (?E @ ipv4_bytes i @ udp_bytes u @ rest) @ drop 40 (headroom h) = ?E @ ipv4_bytes i @ udp_bytes u"
    using l by (simp add: h(2) udp_bytes_split [OF u])
  moreover have "set16 16 (htons (of_nat (sub64 pkt_size 14))) (?E @ ipv4_bytes i @ udp_bytes u) = ?E @ ipv4_bytes i1 @ udp_bytes u"
    using sz by (simp add: set16_append2 set16_append1 l ipv4_set_tot_len i1_def)
  moreover have "take 20 (drop 14 (?E @ ipv4_bytes i1 @ udp_bytes u)) = ipv4_bytes i1" by (simp add: l)
  moreover have "set16 24 ?c (?E @ ipv4_bytes i1 @ udp_bytes u) = ?E @ ipv4_bytes (i1\<lparr>ip_check := ?c\<rparr>) @ udp_bytes u"
    by (simp add: set16_append2 set16_append1 l ipv4_set_check)
  moreover have "get_udp_hdr (h\<lparr>headroom := ?E @ ipv4_bytes (i1\<lparr>ip_check := ?c\<rparr>) @ udp_bytes u\<rparr>) = u"
    using udp_of_bytes [of u "[]"] by (simp add: get_udp_hdr_def l)
  moreover have "set16 38 w (?E @ ipv4_bytes (i1\<lparr>ip_check := ?c\<rparr>) @ udp_bytes u) = ?E @ ipv4_bytes (i1\<lparr>ip_check := ?c\<rparr>) @ udp_bytes (u\<lparr>udp_len := w\<rparr>)" for w
    by (simp add: set16_append2 l udp_set_len)
  moreover have "sub64 (sub64 pkt_size 14) 20 = pkt_size - 34" using sz by simp
  ultimately show ?thesis using u by (simp only: format_pkthdr_def Let_def) simp
qed

text \<open>What the debug build checks of a received packet before it enters the ring.\<close>

definition rx_accepts :: "dpdk_transport \<Rightarrow> pkthdr \<Rightarrow> bool" where
  "rx_accepts t h \<longleftrightarrow> htonl (dst_ip (get_ipv4_hdr h)) = rs_ipv4_addr (d_resolve t) \<and> htons (dst_port (get_udp_hdr h)) = d_rx_flow_udp_port t"

definition dpdk_ok :: "dpdk_transport \<Rightarrow> bool" where
  "dpdk_ok t \<longleftrightarrow> mac_ok (rs_mac_addr (d_resolve t)) \<and> d_qp_id t < kMaxQueuesPerPort \<and> 0 < rs_reta_size (d_resolve t) \<and> rs_reta_size (d_resolve t) < 2 ^ 16"

text \<open>
  C?. The path of a packet between two DPDK endpoints. Let \<open>b\<close> send its routing information to \<open>a\<close> and \<open>a\<close> resolve it, and let \<open>a\<close> format the headroom of a packet with
  the result: the packet carries \<open>b\<close>'s MAC address as destination and \<open>a\<close>'s as source, the lengths of the IP packet and of the UDP datagram, and an IPv4 checksum a receiver
  verifies; it passes the check of the receiver \<open>b\<close>; the NIC's hash of its address tuple selects \<open>b\<close>'s receive queue; and the fields of the eRPC header are untouched.
\<close>

theorem dpdk_frame_reaches_receiver:
  assumes a: "dpdk_ok a" and b: "dpdk_ok b"
    and res: "resolve_remote_routing_info rss a (fill_local_routing_info b) rest = Inr ri"
    and h: "length (headroom h) = 42" "drop 40 (headroom h) = [0, 0]" and sz: "sizeof_pkthdr dpdk_cfg \<le> pkt_size" "pkt_size \<le> kMTU dpdk_cfg"
  shows "\<exists>h' sport. format_pkthdr ri pkt_size h = Inr h' \<and> h' = h\<lparr>headroom := headroom h'\<rparr> \<and> length (headroom h') = 42 \<and> rx_accepts b h' \<and>
    dst_mac (get_eth_hdr h') = rs_mac_addr (d_resolve b) \<and> src_mac (get_eth_hdr h') = rs_mac_addr (d_resolve a) \<and>
    unat (htons (tot_len (get_ipv4_hdr h'))) = pkt_size - 14 \<and> unat (htons (udp_len (get_udp_hdr h'))) = pkt_size - 34 \<and>
    ones_sum (take 20 (drop 14 (headroom h'))) = 0xFFFF \<and> htons (src_port (get_udp_hdr h')) = sport \<and>
    unat (rss (rs_ipv4_addr (d_resolve a)) (rs_ipv4_addr (d_resolve b)) sport (d_rx_flow_udp_port b)) mod rs_reta_size (d_resolve b) mod kMaxQueuesPerPort = d_qp_id b"
proof -
  let ?b = "fill_local_routing_info b"
  obtain i where i: "find (\<lambda>i. rss_queue rss a ?b i = unat (ri_rxq_id ?b)) scan_ports = Some i" "ri = dpdk_frame_header a ?b (of_nat i) @ rest"
    using res by (auto simp: resolve_remote_routing_info_def rangeE_eq_Inr split: option.splits)
  let ?e = "gen_eth_header (rs_mac_addr (d_resolve a)) (ri_mac ?b)"
  let ?i = "gen_ipv4_header (rs_ipv4_addr (d_resolve a)) (ri_ipv4_addr ?b) 0" and ?u = "gen_udp_header (of_nat i) (ri_udp_port ?b) 0"
  let ?i1 = "?i\<lparr>tot_len := htons (of_nat (pkt_size - 14))\<rparr>"
  let ?i2 = "?i1\<lparr>ip_check := get_ipv4_checksum (ipv4_bytes ?i1)\<rparr>" and ?u2 = "?u\<lparr>udp_len := htons (of_nat (pkt_size - 34))\<rparr>"
  let ?h = "h\<lparr>headroom := eth_bytes ?e @ ipv4_bytes ?i2 @ udp_bytes ?u2\<rparr>"
  have e: "mac_ok (dst_mac ?e)" "mac_ok (src_mac ?e)" "dst_mac ?e = rs_mac_addr (d_resolve b)" "src_mac ?e = rs_mac_addr (d_resolve a)"
    using a b by (simp_all add: gen_eth_header_def mac_ok_def dpdk_ok_def fill_local_routing_info_def)
  have p: "34 \<le> pkt_size" "pkt_size < 2 ^ 16" using sz by (simp_all add: sizeof_pkthdr_def dpdk_cfg_def)
  have run: "format_pkthdr ri pkt_size h = Inr ?h"
    unfolding i(2) dpdk_frame_header_def append_assoc by (rule format_pkthdr_frame [OF e(1,2) _ h p(1) refl]) (simp add: gen_udp_header_def)
  have l: "length (eth_bytes ?e) = 14" by (rule length_eth_bytes [OF e(1,2)])
  have parts: "get_eth_hdr ?h = ?e" "get_ipv4_hdr ?h = ?i2" "get_udp_hdr ?h = ?u2" "take 20 (drop 14 (headroom ?h)) = ipv4_bytes ?i2"
    using eth_of_bytes [OF e(1,2)] ipv4_of_bytes udp_of_bytes [of ?u2 "[]"] l
    by (simp_all add: get_eth_hdr_def get_ipv4_hdr_def get_udp_hdr_def)
  have "ones_sum (ipv4_bytes ?i2) = 0xFFFF" using ipv4_checksum_ok [of "ipv4_bytes ?i1"] by (simp add: set_check_set16 ipv4_set_check)
  moreover have "rx_accepts b ?h" unfolding rx_accepts_def parts
    by (simp add: gen_ipv4_header_def gen_udp_header_def fill_local_routing_info_def)
  moreover have "rss_queue rss a ?b i = d_qp_id b"
    using i(1) b by (auto simp: find_Some_iff fill_local_routing_info_def dpdk_ok_def unat_of_nat take_bit_nat_eq_self)
  then have "unat (rss (rs_ipv4_addr (d_resolve a)) (rs_ipv4_addr (d_resolve b)) (of_nat i) (d_rx_flow_udp_port b)) mod rs_reta_size (d_resolve b) mod 16 = d_qp_id b"
    using b by (simp add: rss_queue_def fill_local_routing_info_def dpdk_ok_def unat_of_nat take_bit_nat_eq_self)
  moreover have "unat (htons (tot_len ?i2)) = pkt_size - 14" "unat (htons (udp_len ?u2)) = pkt_size - 34" "htons (src_port ?u2) = of_nat i"
  proof -
    have w: "htons (tot_len ?i2) = of_nat (pkt_size - 14)" "htons (udp_len ?u2) = of_nat (pkt_size - 34)" by simp_all
    show "unat (htons (tot_len ?i2)) = pkt_size - 14" "unat (htons (udp_len ?u2)) = pkt_size - 34"
      unfolding w using p by (simp_all only: unat_of_nat_u16 less_imp_diff_less)
    show "htons (src_port ?u2) = of_nat i" by (simp add: gen_udp_header_def)
  qed
  ultimately show ?thesis using run parts e(3,4) l by (intro exI [of _ ?h] exI [of _ "of_nat i"]) simp
qed

lemma find_first_port: "P kBaseEthUDPPort \<Longrightarrow> find P scan_ports = Some kBaseEthUDPPort"
proof -
  assume p: "P kBaseEthUDPPort"
  have sp: "scan_ports = kBaseEthUDPPort # [Suc kBaseEthUDPPort..<65535]" unfolding scan_ports_def by (rule upt_conv_Cons) simp
  show ?thesis unfolding sp using p by (simp del: upt_rec_numeral)
qed

definition ex_dpdk :: "nat \<Rightarrow> dpdk_transport" where
  "ex_dpdk n = \<lparr>d_proc_type = kPrimary, d_qp_id = n, d_rx_flow_udp_port = of_nat (kBaseEthUDPPort + n), d_phy_port = 0,
     d_resolve = \<lparr>rs_ipv4_addr = 0x0A000008 + of_nat n, rs_mac_addr = [2, 0, 0, 0, 0, of_nat n], rs_bandwidth = 1250000000, rs_reta_size = 128\<rparr>,
     d_rx_ring = replicate kNumRxRingEntries 0, d_rx_ring_head = 0, d_rx_ring_tail = 0, d_tx_flush_count = 0\<rparr>"

theorem dpdk_frame_reaches_receiver_witness:
  "\<exists>ri h'. resolve_remote_routing_info (\<lambda>_ _ _ _. 131) (ex_dpdk 1) (fill_local_routing_info (ex_dpdk 3)) [] = Inr ri \<and>
    format_pkthdr ri 100 (undefined\<lparr>headroom := replicate 42 0\<rparr>) = Inr h' \<and> rx_accepts (ex_dpdk 3) h'"
proof -
  let ?rss = "\<lambda>_ _ _ _. 131 :: u32"
  have ok: "dpdk_ok (ex_dpdk 1)" "dpdk_ok (ex_dpdk 3)" by (simp_all add: dpdk_ok_def ex_dpdk_def mac_ok_def)
  obtain ri where r: "resolve_remote_routing_info ?rss (ex_dpdk 1) (fill_local_routing_info (ex_dpdk 3)) [] = Inr ri"
    using find_first_port [of "\<lambda>i. rss_queue ?rss (ex_dpdk 1) (fill_local_routing_info (ex_dpdk 3)) i = unat (ri_rxq_id (fill_local_routing_info (ex_dpdk 3)))"]
    by (simp add: resolve_remote_routing_info_def rss_queue_def fill_local_routing_info_def ex_dpdk_def)
  have h: "length (headroom (undefined\<lparr>headroom := replicate 42 0\<rparr>)) = 42" "drop 40 (headroom (undefined\<lparr>headroom := replicate 42 0\<rparr>)) = [0, 0 :: u8]"
    by (simp_all add: numeral_eq_Suc)
  have sz: "sizeof_pkthdr dpdk_cfg \<le> 100" "100 \<le> kMTU dpdk_cfg" by (simp_all add: sizeof_pkthdr_def dpdk_cfg_def)
  show ?thesis using dpdk_frame_reaches_receiver [OF ok r h sz] r by blast
qed

subsection \<open>The datapath\<close>

text \<open>
  An item names its message buffer by a key of the store of message buffers, because formatting writes into the buffer's header. The packets
  handed to the NIC are \<open>packet\<close>s: the whole header, and the data bytes behind it.
\<close>

record dpdk_item =
  di_routing_info :: "u8 list"
  di_msg_buffer :: nat
  di_pkt_idx :: nat

type_synonym mb_store = "nat \<Rightarrow> MsgBuffer"

definition dpdk_tx_one :: "(nat \<Rightarrow> u8) \<Rightarrow> (nat \<Rightarrow> bool) \<Rightarrow> dpdk_item list \<Rightarrow> nat \<Rightarrow> mb_store \<times> packet list \<Rightarrow> (mb_store \<times> packet list) res" where
  "dpdk_tx_one rest mbuf_ok items i = (\<lambda>(store, mbufs).
    (let item = items ! i; m = store (di_msg_buffer item); idx = di_pkt_idx item
     in assertE (mbuf_ok i)
       (bindE (format_pkthdr (di_routing_info item) (get_pkt_size dpdk_cfg m idx) (hdrs m idx)) (\<lambda>h.
         let m1 = m\<lparr>hdrs := (hdrs m)(idx := h)\<rparr>
         in Inr (store(di_msg_buffer item := m1), mbufs @ [tx_item_packet dpdk_cfg rest m1 idx])))))"

text \<open>
  Handing over: \<open>answers\<close> are what the calls of \<open>rte_eth_tx_burst\<close> return, \<open>n\<close> counts the packets handed over, which
  the NIC has taken in order.
\<close>

fun tx_hand_over :: "nat list \<Rightarrow> packet list \<Rightarrow> nat \<Rightarrow> packet list \<Rightarrow> packet list res" where
  "tx_hand_over [] mbufs n nic = Inl NoReturn"
| "tx_hand_over (k # answers) mbufs n nic =
    (let nic1 = nic @ take k (drop n mbufs) in if n + k = length mbufs then Inr nic1 else tx_hand_over answers mbufs (n + k) nic1)"

definition dpdk_tx_burst :: "(nat \<Rightarrow> u8) \<Rightarrow> (nat \<Rightarrow> bool) \<Rightarrow> nat list \<Rightarrow> dpdk_item list \<Rightarrow> mb_store \<Rightarrow> packet list \<Rightarrow> (mb_store \<times> packet list) res" where
  "dpdk_tx_burst rest mbuf_ok answers items store nic = rangeE (length items \<le> dpdkPostlist)
    (bindE (forE (length items) (dpdk_tx_one rest mbuf_ok items) (store, [])) (\<lambda>(store1, mbufs).
     bindE (tx_hand_over answers mbufs 0 nic) (\<lambda>nic1. Inr (store1, nic1))))"

definition dpdk_tx_flush :: "dpdk_transport \<Rightarrow> dpdk_transport" where
  "dpdk_tx_flush t = t\<lparr>d_tx_flush_count := d_tx_flush_count t + 1\<rparr>"

text \<open>
  Receiving. \<open>off\<close> is the size of the driver's buffer header with its headroom, \<open>mtod\<close> the driver's address of a buffer's data, \<open>mem\<close> the packet header
  at an address. \<open>post_recvs\<close> returns the buffers it frees.
\<close>

definition dpdk_dtom :: "nat \<Rightarrow> nat \<Rightarrow> nat" where
  "dpdk_dtom off d = d - off"

definition dpdk_rx_one :: "nat \<Rightarrow> (nat \<Rightarrow> nat) \<Rightarrow> (nat \<Rightarrow> pkthdr) \<Rightarrow> nat \<Rightarrow> dpdk_transport \<Rightarrow> dpdk_transport res" where
  "dpdk_rx_one off mtod mem mbuf t = rangeE (d_rx_ring_head t < length (d_rx_ring t))
    (let d = mtod mbuf
     in assertE (dpdk_dtom off d = mbuf)
       (if \<not> rx_accepts t (mem d) then Inl ExitProcess
        else Inr (t\<lparr>d_rx_ring := (d_rx_ring t)[d_rx_ring_head t := d], d_rx_ring_head := (d_rx_ring_head t + 1) mod kNumRxRingEntries\<rparr>)))"

definition dpdk_rx_burst :: "nat \<Rightarrow> (nat \<Rightarrow> nat) \<Rightarrow> (nat \<Rightarrow> pkthdr) \<Rightarrow> nat list \<Rightarrow> dpdk_transport \<Rightarrow> (nat \<times> dpdk_transport) res" where
  "dpdk_rx_burst off mtod mem rx_pkts t = bindE (foldE (dpdk_rx_one off mtod mem) rx_pkts t) (\<lambda>t1. Inr (length rx_pkts, t1))"

definition dpdk_post_one :: "nat \<Rightarrow> nat \<Rightarrow> dpdk_transport \<times> nat list \<Rightarrow> (dpdk_transport \<times> nat list) res" where
  "dpdk_post_one off i = (\<lambda>(t, freed). rangeE (d_rx_ring_tail t < length (d_rx_ring t))
    (Inr (t\<lparr>d_rx_ring_tail := (d_rx_ring_tail t + 1) mod kNumRxRingEntries\<rparr>, freed @ [dpdk_dtom off (d_rx_ring t ! d_rx_ring_tail t)])))"

definition dpdk_post_recvs :: "nat \<Rightarrow> nat \<Rightarrow> dpdk_transport \<Rightarrow> (dpdk_transport \<times> nat list) res" where
  "dpdk_post_recvs off num_recvs t = forE num_recvs (dpdk_post_one off) (t, [])"

subsubsection \<open>A burst hands over every packet once, in order\<close>

definition hdr_ok :: "pkthdr \<Rightarrow> bool" where
  "hdr_ok h \<longleftrightarrow> length (headroom h) = 42 \<and> drop 40 (headroom h) = [0, 0]"

definition ri_ok :: "u8 list \<Rightarrow> bool" where
  "ri_ok ri \<longleftrightarrow> (\<exists>e i u rest. mac_ok (dst_mac e) \<and> mac_ok (src_mac e) \<and> udp_check u = 0 \<and> ri = eth_bytes e @ ipv4_bytes i @ udp_bytes u @ rest)"

lemma format_pkthdr_ok:
  assumes r: "ri_ok ri" and h: "hdr_ok h" and sz: "34 \<le> pkt_size"
  shows "\<exists>hr. format_pkthdr ri pkt_size h = Inr (h\<lparr>headroom := hr\<rparr>) \<and> hdr_ok (h\<lparr>headroom := hr\<rparr>)"
proof -
  obtain e i u rest where e: "mac_ok (dst_mac e)" "mac_ok (src_mac e)" "udp_check u = 0" "ri = eth_bytes e @ ipv4_bytes i @ udp_bytes u @ rest"
    using r by (auto simp: ri_ok_def)
  let ?u = "u\<lparr>udp_len := htons (of_nat (pkt_size - 34))\<rparr>"
  have "drop 6 (udp_bytes ?u) = [0, 0]" using e(3) by (simp add: udp_bytes_def le16_def)
  then have "hdr_ok (h\<lparr>headroom := eth_bytes e @ ipv4_bytes i2 @ udp_bytes ?u\<rparr>)" for i2
    by (simp add: hdr_ok_def length_eth_bytes [OF e(1,2)])
  then show ?thesis using format_pkthdr_frame [OF e(1-3) _ _ sz refl, of h i rest] h unfolding e(4) hdr_ok_def by blast
qed

lemma ri_ok_frame_header:
  assumes "mac_ok (rs_mac_addr (d_resolve t))" "mac_ok (ri_mac ri)"
  shows "ri_ok (dpdk_frame_header t ri sport @ rest)"
proof -
  let ?e = "gen_eth_header (rs_mac_addr (d_resolve t)) (ri_mac ri)"
  have "mac_ok (dst_mac ?e)" "mac_ok (src_mac ?e)" using assms by (simp_all add: mac_ok_def gen_eth_header_def)
  moreover have "udp_check (gen_udp_header sport (ri_udp_port ri) 0) = 0" by (simp add: gen_udp_header_def)
  ultimately show ?thesis unfolding ri_ok_def dpdk_frame_header_def append_assoc by blast
qed

text \<open>\<open>carries store item p\<close>: the packet has the eRPC header of the item's packet, except for its headroom, and the item's part of the message.\<close>

definition carries :: "mb_store \<Rightarrow> dpdk_item \<Rightarrow> packet \<Rightarrow> bool" where
  "carries store item p \<longleftrightarrow> (let m = store (di_msg_buffer item); idx = di_pkt_idx item in
     (\<exists>hr. p_hdr p = (hdrs m idx)\<lparr>headroom := hr\<rparr>) \<and>
     (\<forall>j < get_pkt_size dpdk_cfg m idx - sizeof_pkthdr dpdk_cfg. p_data p j = bytes m (idx * kMaxDataPerPkt dpdk_cfg + j)))"

definition headrooms_only :: "mb_store \<Rightarrow> mb_store \<Rightarrow> bool" where
  "headrooms_only store store' \<longleftrightarrow> (\<forall>k. \<exists>hs. store' k = (store k)\<lparr>hdrs := hs\<rparr> \<and> (\<forall>idx. hdr_ok (hs idx) \<and> (\<exists>hr. hs idx = (hdrs (store k) idx)\<lparr>headroom := hr\<rparr>)))"

lemma tx_item_packet_carries:
  assumes "m1 = m\<lparr>hdrs := hs\<rparr>" "m = store (di_msg_buffer item)" "hs (di_pkt_idx item) = (hdrs m (di_pkt_idx item))\<lparr>headroom := hr\<rparr>"
  shows "carries store item (tx_item_packet dpdk_cfg rest m1 (di_pkt_idx item))"
  using assms by (auto simp: carries_def tx_item_packet_def Let_def get_pkt_size_def)

lemma dpdk_tx_one_ok:
  assumes i: "i < length items" and r: "ri_ok (di_routing_info (items ! i))" and a: "mbuf_ok i"
    and inv: "headrooms_only store (fst s) \<and> list_all2 (carries store) (take i items) (snd s)"
  shows "holds (\<lambda>s'. headrooms_only store (fst s') \<and> list_all2 (carries store) (take (Suc i) items) (snd s')) (dpdk_tx_one rest mbuf_ok items i s)"
proof -
  obtain store1 mbufs where s: "s = (store1, mbufs)" by (cases s)
  let ?item = "items ! i" let ?k = "di_msg_buffer ?item" and ?idx = "di_pkt_idx ?item"
  obtain hs where hs: "store1 ?k = (store ?k)\<lparr>hdrs := hs\<rparr>" "\<And>idx. hdr_ok (hs idx)" "\<And>idx. \<exists>hr. hs idx = (hdrs (store ?k) idx)\<lparr>headroom := hr\<rparr>"
    using inv unfolding s headrooms_only_def fst_conv by blast
  have "34 \<le> get_pkt_size dpdk_cfg (store1 ?k) ?idx" by (simp add: get_pkt_size_def Let_def sizeof_pkthdr_def dpdk_cfg_def)
  then obtain hr where f: "format_pkthdr (di_routing_info ?item) (get_pkt_size dpdk_cfg (store1 ?k) ?idx) (hs ?idx) = Inr ((hs ?idx)\<lparr>headroom := hr\<rparr>)"
      "hdr_ok ((hs ?idx)\<lparr>headroom := hr\<rparr>)" using format_pkthdr_ok [OF r hs(2)] by blast
  let ?hs = "hs(?idx := (hs ?idx)\<lparr>headroom := hr\<rparr>)" let ?m = "(store ?k)\<lparr>hdrs := ?hs\<rparr>"
  obtain hr0 where hr0: "hs ?idx = (hdrs (store ?k) ?idx)\<lparr>headroom := hr0\<rparr>" using hs(3) by blast
  have "dpdk_tx_one rest mbuf_ok items i s = Inr (store1(?k := ?m), mbufs @ [tx_item_packet dpdk_cfg rest ?m ?idx])"
    using f(1) a by (simp add: s dpdk_tx_one_def Let_def hs(1))
  moreover have "carries store ?item (tx_item_packet dpdk_cfg rest ?m ?idx)"
    by (rule tx_item_packet_carries [OF refl refl, of _ _ hr]) (simp add: hr0)
  moreover have "hdr_ok (?hs idx) \<and> (\<exists>hr. ?hs idx = (hdrs (store ?k) idx)\<lparr>headroom := hr\<rparr>)" for idx
    using hs(2,3) f(2) hr0 by (cases "idx = ?idx") auto
  then have "headrooms_only store (store1(?k := ?m))" using inv unfolding s headrooms_only_def by auto
  ultimately show ?thesis using inv i by (simp add: s take_Suc_conv_app_nth list_all2_appendI)
qed

fun answers_ok :: "nat \<Rightarrow> nat list \<Rightarrow> bool" where
  "answers_ok r [] \<longleftrightarrow> False"
| "answers_ok r (k # ks) \<longleftrightarrow> k \<le> r \<and> (k = r \<or> answers_ok (r - k) ks)"

lemma tx_hand_over_all:
  "answers_ok (length mbufs - n) ks \<Longrightarrow> n \<le> length mbufs \<Longrightarrow> tx_hand_over ks mbufs n nic = Inr (nic @ drop n mbufs)"
proof (induction ks arbitrary: n nic)
  case (Cons k ks)
  show ?case
  proof (cases "k = length mbufs - n")
    case False
    then have "tx_hand_over ks mbufs (n + k) (nic @ take k (drop n mbufs)) = Inr ((nic @ take k (drop n mbufs)) @ drop (n + k) mbufs)"
      using Cons.prems by (intro Cons.IH) auto
    moreover have "take k (drop n mbufs) @ drop (n + k) mbufs = drop n mbufs" by (metis append_take_drop_id drop_drop add.commute)
    ultimately show ?thesis using False Cons.prems by (simp add: Let_def)
  qed (use Cons.prems in simp)
qed simp

text \<open>
  \<open>tx_burst\<close> of at most \<open>kPostlist\<close> packets, with resolved routing information and mbufs available, returns as soon as the NIC has taken all packets, however
  it splits them over its answers: every packet is handed over exactly once, in the order of the burst, with the eRPC header and the data of
  its item, and the message buffers change only in the headrooms of their headers.
\<close>

theorem dpdk_tx_burst_sends:
  assumes n: "length items \<le> dpdkPostlist" and m: "\<forall>i < length items. mbuf_ok i" and r: "\<forall>item \<in> set items. ri_ok (di_routing_info item)"
    and h: "\<forall>k idx. hdr_ok (hdrs (store k) idx)" and an: "answers_ok (length items) answers"
  shows "\<exists>store' ps. dpdk_tx_burst rest mbuf_ok answers items store nic = Inr (store', nic @ ps) \<and> list_all2 (carries store) items ps \<and> headrooms_only store store'"
proof -
  have "holds (\<lambda>s. headrooms_only store (fst s) \<and> list_all2 (carries store) (take (length items) items) (snd s))
     (forE (length items) (dpdk_tx_one rest mbuf_ok items) (store, []))"
  proof (rule holds_forE)
    have "store k = (store k)\<lparr>hdrs := hdrs (store k)\<rparr>" "hdrs (store k) idx = (hdrs (store k) idx)\<lparr>headroom := headroom (hdrs (store k) idx)\<rparr>" for k idx by simp_all
    then have "headrooms_only store store" using h unfolding headrooms_only_def by blast
    then show "headrooms_only store (fst (store, [])) \<and> list_all2 (carries store) (take 0 items) (snd (store, []))" by simp
  qed (use m r in \<open>auto intro!: dpdk_tx_one_ok\<close>)
  then obtain store' ps where f: "forE (length items) (dpdk_tx_one rest mbuf_ok items) (store, []) = Inr (store', ps)"
      "headrooms_only store store'" "list_all2 (carries store) items ps" by (auto simp: holds_iff)
  have "length ps = length items" using list_all2_lengthD [OF f(3)] by simp
  then have "tx_hand_over answers ps 0 nic = Inr (nic @ ps)" using tx_hand_over_all [of ps 0 answers nic] an by simp
  then show ?thesis using f n by (simp add: dpdk_tx_burst_def)
qed

theorem dpdk_tx_burst_sends_witness:
  "\<exists>store store' ps. dpdk_tx_burst (\<lambda>_. 0) (\<lambda>_. True) [0, 1, 0, 1] [\<lparr>di_routing_info = dpdk_frame_header (ex_dpdk 1) (fill_local_routing_info (ex_dpdk 3)) 10000, di_msg_buffer = 5, di_pkt_idx = 0\<rparr>,
     \<lparr>di_routing_info = dpdk_frame_header (ex_dpdk 1) (fill_local_routing_info (ex_dpdk 3)) 10000, di_msg_buffer = 5, di_pkt_idx = 1\<rparr>] store [] = Inr (store', ps) \<and> length ps = 2"
proof -
  let ?ri = "dpdk_frame_header (ex_dpdk 1) (fill_local_routing_info (ex_dpdk 3)) 10000"
  let ?items = "[\<lparr>di_routing_info = ?ri, di_msg_buffer = 5, di_pkt_idx = 0\<rparr>, \<lparr>di_routing_info = ?ri, di_msg_buffer = 5, di_pkt_idx = 1\<rparr>]"
  let ?h = "(undefined :: pkthdr)\<lparr>headroom := replicate 42 0\<rparr>"
  let ?store = "\<lambda>_ :: nat. \<lparr>mb_buffer = null_Buffer, max_data_size = 1500, data_size = 1500, max_num_pkts = 2, num_pkts = 2, mb_buf = None, hdrs = (\<lambda>_. ?h), bytes = (\<lambda>_. 7)\<rparr>"
  have "ri_ok (?ri @ [])" by (rule ri_ok_frame_header) (simp_all add: mac_ok_def fill_local_routing_info_def ex_dpdk_def)
  then have "\<forall>item \<in> set ?items. ri_ok (di_routing_info item)" by simp
  moreover have "hdr_ok ?h" by (simp add: hdr_ok_def numeral_eq_Suc)
  then have "\<forall>k idx. hdr_ok (hdrs (?store k) idx)" by simp
  ultimately obtain store' ps where "dpdk_tx_burst (\<lambda>_. 0) (\<lambda>_. True) [0, 1, 0, 1] ?items ?store [] = Inr (store', [] @ ps)" "list_all2 (carries ?store) ?items ps"
    using dpdk_tx_burst_sends [of ?items "\<lambda>_. True" ?store "[0, 1, 0, 1]" "\<lambda>_. 0" "[]"] by auto
  moreover from this(2) have "length ps = 2" by (auto dest: list_all2_lengthD)
  ultimately show ?thesis by (intro exI [of _ ?store] exI [of _ store'] exI [of _ ps]) simp
qed

subsubsection \<open>The receive ring is a queue\<close>

text \<open>
  \<open>rx_queue off t ms\<close>: the ring holds the buffers \<open>ms\<close>, in their order, between tail and head.
\<close>

definition rx_queue :: "nat \<Rightarrow> dpdk_transport \<Rightarrow> nat list \<Rightarrow> bool" where
  "rx_queue off t ms \<longleftrightarrow> length (d_rx_ring t) = kNumRxRingEntries \<and> length ms \<le> kNumRxRingEntries \<and> d_rx_ring_tail t < kNumRxRingEntries \<and>
     d_rx_ring_head t = (d_rx_ring_tail t + length ms) mod kNumRxRingEntries \<and>
     (\<forall>j < length ms. d_rx_ring t ! ((d_rx_ring_tail t + j) mod kNumRxRingEntries) = ms ! j + off)"

lemma ring_index_inj: "j < n \<Longrightarrow> k < n \<Longrightarrow> (a + j) mod n = (a + k) mod n \<Longrightarrow> j = (k :: nat)"
proof -
  assume jk: "j < n" "k < n" "(a + j) mod n = (a + k) mod n"
  then have "rotate a [0..<n] ! j = rotate a [0..<n] ! k" by (simp add: nth_rotate)
  moreover have "distinct (rotate a [0..<n])" by simp
  ultimately show "j = k" using jk nth_eq_iff_index_eq [of "rotate a [0..<n]" j k] by simp
qed

lemma dpdk_rx_one_queue:
  assumes q: "rx_queue off t ms" and room: "length ms < kNumRxRingEntries" and acc: "rx_accepts t (mem (mtod m))" and mt: "mtod m = m + off"
  shows "\<exists>t'. dpdk_rx_one off mtod mem m t = Inr t' \<and> rx_queue off t' (ms @ [m]) \<and> rx_accepts t' = rx_accepts t"
proof -
  let ?h = "d_rx_ring_head t" and ?t = "t\<lparr>d_rx_ring := (d_rx_ring t)[d_rx_ring_head t := m + off], d_rx_ring_head := (d_rx_ring_head t + 1) mod 4096\<rparr>"
  have h: "?h = (d_rx_ring_tail t + length ms) mod 4096" "?h < 4096" "length (d_rx_ring t) = 4096" using q by (auto simp: rx_queue_def)
  have "dpdk_rx_one off mtod mem m t = Inr ?t" using acc h mt by (simp add: dpdk_rx_one_def Let_def dpdk_dtom_def)
  moreover have "(d_rx_ring t)[?h := m + off] ! ((d_rx_ring_tail t + j) mod 4096) = (ms @ [m]) ! j + off" if "j < length (ms @ [m])" for j
  proof (cases "j = length ms")
    case False
    then have "j < length ms" using that by simp
    moreover from this have "(d_rx_ring_tail t + j) mod 4096 \<noteq> ?h" using ring_index_inj [of j 4096 "length ms" "d_rx_ring_tail t"] room unfolding h(1) by auto
    ultimately show ?thesis using q by (simp add: rx_queue_def nth_append)
  qed (use h in simp)
  then have "rx_queue off ?t (ms @ [m])" using q room by (simp add: rx_queue_def mod_simps)
  moreover have "rx_accepts ?t = rx_accepts t" by (simp add: rx_accepts_def fun_eq_iff)
  ultimately show ?thesis by blast
qed

lemma dpdk_rx_fold_queue:
  "rx_queue off t ms \<Longrightarrow> length ms + length ns \<le> kNumRxRingEntries \<Longrightarrow> \<forall>m \<in> set ns. mtod m = m + off \<and> rx_accepts t (mem (mtod m)) \<Longrightarrow>
    \<exists>t'. foldE (dpdk_rx_one off mtod mem) ns t = Inr t' \<and> rx_queue off t' (ms @ ns) \<and> rx_accepts t' = rx_accepts t"
proof (induction ns arbitrary: t ms)
  case (Cons m ns)
  then obtain t1 where t1: "dpdk_rx_one off mtod mem m t = Inr t1" "rx_queue off t1 (ms @ [m])" "rx_accepts t1 = rx_accepts t"
    using dpdk_rx_one_queue [of off t ms mem mtod m] by auto
  obtain t2 where "foldE (dpdk_rx_one off mtod mem) ns t1 = Inr t2" "rx_queue off t2 ((ms @ [m]) @ ns)" "rx_accepts t2 = rx_accepts t1"
  proof -
    have "\<forall>m \<in> set ns. mtod m = m + off \<and> rx_accepts t1 (mem (mtod m))" using Cons.prems(3) unfolding t1(3) by auto
    from Cons.IH [OF t1(2) _ this] Cons.prems(2) that show thesis by auto
  qed
  then show ?case using t1 by auto
qed auto

lemma dpdk_post_one_queue:
  assumes q: "rx_queue off t (m # ms)"
  shows "\<exists>t'. dpdk_post_one off i (t, freed) = Inr (t', freed @ [m]) \<and> rx_queue off t' ms \<and> rx_accepts t' = rx_accepts t"
proof -
  let ?t = "t\<lparr>d_rx_ring_tail := (d_rx_ring_tail t + 1) mod 4096\<rparr>"
  have l: "length (d_rx_ring t) = 4096" "d_rx_ring_tail t < 4096" using q by (auto simp: rx_queue_def)
  have ent: "d_rx_ring t ! ((d_rx_ring_tail t + j) mod 4096) = (m # ms) ! j + off" if "j < Suc (length ms)" for j using q that by (simp add: rx_queue_def)
  have "d_rx_ring t ! d_rx_ring_tail t = m + off" using ent [of 0] l by simp
  then have "dpdk_post_one off i (t, freed) = Inr (?t, freed @ [m])" using l by (simp add: dpdk_post_one_def dpdk_dtom_def)
  moreover have "d_rx_ring t ! (((d_rx_ring_tail t + 1) mod 4096 + j) mod 4096) = ms ! j + off" if "j < length ms" for j
    using ent [of "Suc j"] that by (simp add: mod_simps)
  then have "rx_queue off ?t ms" using q by (simp add: rx_queue_def mod_simps)
  moreover have "rx_accepts ?t = rx_accepts t" by (simp add: rx_accepts_def fun_eq_iff)
  ultimately show ?thesis by blast
qed

lemma dpdk_post_recvs_queue:
  assumes q: "rx_queue off t ms" and n: "n \<le> length ms"
  shows "\<exists>t'. dpdk_post_recvs off n t = Inr (t', take n ms) \<and> rx_queue off t' (drop n ms) \<and> rx_accepts t' = rx_accepts t"
proof -
  let ?P = "\<lambda>i s. snd s = take i ms \<and> rx_queue off (fst s) (drop i ms) \<and> rx_accepts (fst s) = rx_accepts t"
  have "holds (?P n) (forE n (dpdk_post_one off) (t, []))"
  proof (rule holds_forE)
    fix i s assume i: "i < n" and p: "?P i s"
    obtain t1 freed where s: "s = (t1, freed)" by (cases s)
    have d: "drop i ms = ms ! i # drop (Suc i) ms" using i n by (simp add: Cons_nth_drop_Suc)
    with p dpdk_post_one_queue [of off t1 "ms ! i" "drop (Suc i) ms" i freed] show "holds (?P (Suc i)) (dpdk_post_one off i s)"
      using i n by (auto simp: s take_Suc_conv_app_nth)
  qed (use q in simp)
  then show ?thesis by (auto simp: holds_iff dpdk_post_recvs_def)
qed

text \<open>The contract of the receive side, for one layout of the driver's buffers and one memory of packet headers.\<close>

definition dpdk_holds :: "nat \<Rightarrow> (pkthdr \<Rightarrow> bool) \<Rightarrow> dpdk_transport \<Rightarrow> nat list \<Rightarrow> bool" where
  "dpdk_holds off acc t ms \<longleftrightarrow> rx_queue off t ms \<and> rx_accepts t = acc"

definition dpdk_can :: "nat \<Rightarrow> (nat \<Rightarrow> pkthdr) \<Rightarrow> (pkthdr \<Rightarrow> bool) \<Rightarrow> dpdk_transport \<Rightarrow> nat \<Rightarrow> nat list \<Rightarrow> bool" where
  "dpdk_can off mem acc t k ns \<longleftrightarrow> length ns \<le> kRxBatchSize \<and> k + length ns \<le> kNumRxRingEntries \<and> (\<forall>m \<in> set ns. acc (mem (m + off)))"

definition dpdk_rx :: "nat \<Rightarrow> (nat \<Rightarrow> pkthdr) \<Rightarrow> nat list \<Rightarrow> dpdk_transport \<Rightarrow> dpdk_transport res" where
  "dpdk_rx off mem ns t = bindE (dpdk_rx_burst off (\<lambda>m. m + off) mem ns t) (\<lambda>(_, t'). Inr t')"

lemma dpdk_rx_law:
  assumes "dpdk_holds off acc t ms" "dpdk_can off mem acc t (length ms) ns"
  shows "\<exists>t'. dpdk_rx off mem ns t = Inr t' \<and> dpdk_holds off acc t' (ms @ ns)"
  using assms dpdk_rx_fold_queue [of off t ms ns "\<lambda>m. m + off" mem]
  by (auto simp: dpdk_holds_def dpdk_can_def dpdk_rx_def dpdk_rx_burst_def)

interpretation dpdk_ring: rx_contract "dpdk_holds off acc" "dpdk_can off mem acc" "dpdk_rx off mem" "dpdk_post_recvs off" for off acc mem
proof unfold_locales
  fix t ms n assume "dpdk_holds off acc t ms" "n \<le> length ms"
  then show "\<exists>t'. dpdk_post_recvs off n t = Inr (t', take n ms) \<and> dpdk_holds off acc t' (drop n ms)"
    using dpdk_post_recvs_queue [of off t ms n] by (auto simp: dpdk_holds_def)
qed (rule dpdk_rx_law)

text \<open>
  C?. Reception with DPDK, for any sequence of receive bursts and of \<open>post_recvs\<close> that release no more than the endpoint holds: the driver's buffers are freed in
  the order in which they arrived, each exactly once, and those not yet freed are in the ring, between its tail and its head. In every such state a burst of
  packets that are addressed to the endpoint and fit the ring is received, and a release returns.
\<close>

theorem dpdk_rx_fifo:
  assumes t0: "rx_queue off t0 []" and r: "rx_reach (dpdk_can off mem (rx_accepts t0)) (dpdk_rx off mem) (dpdk_post_recvs off) t0 t got freed"
  shows "(\<exists>ms. got = freed @ ms \<and> rx_queue off t ms) \<and>
    (\<forall>ns. dpdk_can off mem (rx_accepts t0) t (length got - length freed) ns \<longrightarrow> (\<exists>t'. dpdk_rx off mem ns t = Inr t')) \<and>
    (\<forall>n. length freed + n \<le> length got \<longrightarrow> (\<exists>t' fs. dpdk_post_recvs off n t = Inr (t', fs)))"
proof -
  have q: "dpdk_holds off (rx_accepts t0) t0 []" using t0 by (simp add: dpdk_holds_def)
  show ?thesis using dpdk_ring.reach_split [OF r q] dpdk_ring.reach_progress [OF r q] by (auto simp: dpdk_holds_def)
qed

theorem dpdk_rx_fifo_witness:
  "\<exists>t t' h fs. rx_reach (dpdk_can 256 (\<lambda>_. h) (rx_accepts (ex_dpdk 3))) (dpdk_rx 256 (\<lambda>_. h)) (dpdk_post_recvs 256) (ex_dpdk 3) t [4096, 8192] [] \<and>
     dpdk_post_recvs 256 1 t = Inr (t', fs)"
proof -
  obtain h where h: "rx_accepts (ex_dpdk 3) h"
  proof -
    let ?i = "gen_ipv4_header 0 0x0A00000B 0" and ?u = "gen_udp_header 0 10003 0"
    let ?h = "(undefined :: pkthdr)\<lparr>headroom := replicate 14 0 @ ipv4_bytes ?i @ udp_bytes ?u\<rparr>"
    have "get_ipv4_hdr ?h = ?i" "get_udp_hdr ?h = ?u"
      using ipv4_of_bytes [of ?i "udp_bytes ?u"] udp_of_bytes [of ?u "[]"] by (simp_all add: get_ipv4_hdr_def get_udp_hdr_def)
    then have "rx_accepts (ex_dpdk 3) ?h" by (simp add: rx_accepts_def gen_ipv4_header_def gen_udp_header_def ex_dpdk_def)
    then show thesis by (rule that)
  qed
  have q: "rx_queue 256 (ex_dpdk 3) []" by (simp add: rx_queue_def ex_dpdk_def)
  have can: "dpdk_can 256 (\<lambda>_. h) (rx_accepts (ex_dpdk 3)) (ex_dpdk 3) (length ([] :: nat list) - length ([] :: nat list)) [4096, 8192]" using h by (simp add: dpdk_can_def)
  note s = rx_start [of "dpdk_can 256 (\<lambda>_. h) (rx_accepts (ex_dpdk 3))" "dpdk_rx 256 (\<lambda>_. h)" "dpdk_post_recvs 256" "ex_dpdk 3"]
  obtain t where "dpdk_rx 256 (\<lambda>_. h) [4096, 8192] (ex_dpdk 3) = Inr t" using dpdk_rx_fifo [OF q s] can by blast
  from rx_recv [OF s can this] have r: "rx_reach (dpdk_can 256 (\<lambda>_. h) (rx_accepts (ex_dpdk 3))) (dpdk_rx 256 (\<lambda>_. h)) (dpdk_post_recvs 256) (ex_dpdk 3) t [4096, 8192] []" by simp
  have "\<exists>t' fs. dpdk_post_recvs 256 1 t = Inr (t', fs)" using dpdk_rx_fifo [OF q r] by simp
  then show ?thesis using r by blast
qed

end
