(* ===== verification/Raw_Transport.thy ===== *)
theory Raw_Transport
  imports Eth_Common
begin

section \<open>Reception of the raw Ethernet transport (\<open>transport_impl/raw\<close>)\<close>

text \<open>
  The default "dumbpipe" mode. The NIC writes packets one after the other into strides of a ring, and for packet \<open>x\<close> overwrites entry \<open>x mod kRecvCQDepth\<close> of a small
  completion queue that is allowed to overrun. The transport never polls it: it reads the entry's counters and computes from them how many packets have
  arrived since the last read. The NIC is third-party; what the code relies on is the content of a completion entry, which \<open>cqe_of\<close> states for a number of received
  packets. Shown: reads are consistent although the NIC writes concurrently, a burst reports only packets that have arrived and leaves at most seven unreported,
  and the NIC never overwrites a packet that the Rpc object still holds.
\<close>

abbreviation (input) kStridesPerWQE :: nat where "kStridesPerWQE \<equiv> 512"
abbreviation (input) kCQESnapshotCycle :: nat where "kCQESnapshotCycle \<equiv> 0x2000000"
abbreviation (input) kRecvCQDepth :: nat where "kRecvCQDepth \<equiv> 8"
abbreviation (input) rawRQDepth :: nat where "rawRQDepth \<equiv> 8"
abbreviation (input) rawRxRingEntries :: nat where "rawRxRingEntries \<equiv> 4096"
abbreviation (input) rawRecvSize :: nat where "rawRecvSize \<equiv> 1024"

subsection \<open>Completion entries\<close>

text \<open>The counters of an entry as they are in memory, in network byte order, and a snapshot in host order.\<close>

record mlx5_cqe =
  c_wqe_id :: u16
  c_wqe_counter :: u16

record cqe_snapshot =
  wqe_id :: u16
  wqe_counter :: u16

definition get_cqe_snapshot_cycle_idx :: "cqe_snapshot \<Rightarrow> nat" where
  "get_cqe_snapshot_cycle_idx s = unat (wqe_id s) * kStridesPerWQE + unat (wqe_counter s)"

text \<open>\<open>snapshot_cqe\<close>: every round reads the entry three times; \<open>reads\<close> are what the rounds find in memory.\<close>

fun snapshot_cqe :: "(mlx5_cqe \<times> mlx5_cqe \<times> mlx5_cqe) list \<Rightarrow> cqe_snapshot res" where
  "snapshot_cqe [] = Inl NoReturn"
| "snapshot_cqe ((c0, c1, c2) # reads) =
    (if c_wqe_id c0 = c_wqe_id c2 then Inr \<lparr>wqe_id = htons (c_wqe_id c0), wqe_counter = htons (c_wqe_counter c1)\<rparr> else snapshot_cqe reads)"

definition get_cqe_cycle_delta :: "cqe_snapshot \<Rightarrow> cqe_snapshot \<Rightarrow> nat res" where
  "get_cqe_cycle_delta prev cur =
    (let prev_idx = get_cqe_snapshot_cycle_idx prev; cur_idx = get_cqe_snapshot_cycle_idx cur
     in assertE (prev_idx < kCQESnapshotCycle \<and> cur_idx < kCQESnapshotCycle)
          (Inr (((cur_idx + kCQESnapshotCycle) - prev_idx) mod kCQESnapshotCycle)))"

subsection \<open>Receiving and releasing\<close>

record raw_transport =
  r_prev_snapshot :: cqe_snapshot
  r_cqe_idx :: nat
  r_recv_head :: nat
  r_recvs_to_post :: nat
  r_mp_sge_idx :: nat
  r_mp_recv_sge :: "(nat \<times> nat) list"
  r_posted :: "nat list"

text \<open>\<open>reads i\<close> are the rounds of reading entry \<open>i\<close>. The prefetches have no effect.\<close>

definition raw_rx_burst :: "(nat \<Rightarrow> (mlx5_cqe \<times> mlx5_cqe \<times> mlx5_cqe) list) \<Rightarrow> raw_transport \<Rightarrow> (nat \<times> raw_transport) res" where
  "raw_rx_burst reads t =
    bindE (snapshot_cqe (reads (r_cqe_idx t))) (\<lambda>cur.
    bindE (get_cqe_cycle_delta (r_prev_snapshot t) cur) (\<lambda>delta.
      if delta = 0 \<or> rawRxRingEntries \<le> delta then Inr (0, t)
      else Inr (delta, t\<lparr>r_recv_head := fold (\<lambda>_ h. (h + 1) mod rawRxRingEntries) [0..<delta] (r_recv_head t),
                          r_cqe_idx := (r_cqe_idx t + 1) mod kRecvCQDepth, r_prev_snapshot := cur\<rparr>)))"

text \<open>\<open>ret\<close> is what \<open>recv_burst\<close> of the work queue returns; \<open>r_posted\<close> are the multi-packet entries posted so far.\<close>

definition raw_post_recvs :: "nat \<Rightarrow> nat \<Rightarrow> raw_transport \<Rightarrow> raw_transport res" where
  "raw_post_recvs ret num_recvs t0 = assertE (num_recvs \<le> rawRxRingEntries)
    (let t = t0\<lparr>r_recvs_to_post := r_recvs_to_post t0 + num_recvs\<rparr>
     in if r_recvs_to_post t < kStridesPerWQE then Inr t
        else assertE (ret = 0) (Inr (t\<lparr>r_posted := r_posted t @ [r_mp_sge_idx t], r_mp_sge_idx := (r_mp_sge_idx t + 1) mod rawRQDepth,
               r_recvs_to_post := sub64 (r_recvs_to_post t) kStridesPerWQE\<rparr>)))"

subsection \<open>Initialisation\<close>

text \<open>The entries start as if the last \<open>kRecvCQDepth\<close> packets of the cycle had just arrived.\<close>

definition init_cqe :: "nat \<Rightarrow> mlx5_cqe" where
  "init_cqe i = \<lparr>c_wqe_id = htons 0xFFFF, c_wqe_counter = htons (of_nat (sub64 kStridesPerWQE (sub64 kRecvCQDepth i)))\<rparr>"

definition map_mlx5_overrunning_recv_cqes :: "nat \<Rightarrow> raw_transport \<Rightarrow> (mlx5_cqe list \<times> raw_transport) res" where
  "map_mlx5_overrunning_recv_cqes cq_log_size t = rt_assert (kRecvCQDepth = 2 ^ cq_log_size)
    (let cqes = map init_cqe [0..<kRecvCQDepth]
     in bindE (foldE (\<lambda>i _. bindE (snapshot_cqe [(cqes ! i, cqes ! i, cqes ! i)]) (\<lambda>s.
                 rt_assert (get_cqe_snapshot_cycle_idx s = kCQESnapshotCycle - (kRecvCQDepth - i)) (Inr ()))) [0..<kRecvCQDepth] ()) (\<lambda>_.
        bindE (snapshot_cqe [(cqes ! (kRecvCQDepth - 1), cqes ! (kRecvCQDepth - 1), cqes ! (kRecvCQDepth - 1))]) (\<lambda>s.
          Inr (cqes, t\<lparr>r_prev_snapshot := s\<rparr>))))"

definition raw_init_recvs :: "Buffer \<Rightarrow> raw_transport \<Rightarrow> (nat list \<times> raw_transport) res" where
  "raw_init_recvs ring_extent t =
    (case b_buf ring_extent of
       None \<Rightarrow> Inl RuntimeError
     | Some buf \<Rightarrow> Inr (map (\<lambda>i. buf + rawRecvSize * i) [0..<rawRxRingEntries],
         t\<lparr>r_mp_recv_sge := map (\<lambda>i. (buf + i * (rawRecvSize * kStridesPerWQE), rawRecvSize * kStridesPerWQE)) [0..<rawRQDepth],
           r_posted := r_posted t @ [0..<rawRQDepth]\<rparr>))"

subsection \<open>Routing information\<close>

definition raw_fill_local_routing_info :: "u8 list \<Rightarrow> u32 \<Rightarrow> u16 \<Rightarrow> eth_routing_info" where
  "raw_fill_local_routing_info mac ip port = \<lparr>ri_mac = take 6 mac, ri_ipv4_addr = ip, ri_udp_port = port, ri_rxq_id = 0, ri_reta_size = 0\<rparr>"

definition raw_resolve_remote_routing_info :: "u8 list \<Rightarrow> u32 \<Rightarrow> u16 \<Rightarrow> eth_routing_info \<Rightarrow> u8 list \<Rightarrow> u8 list" where
  "raw_resolve_remote_routing_info mac ip port ri rest = eth_bytes (gen_eth_header mac (ri_mac ri)) @
     ipv4_bytes (gen_ipv4_header ip (ri_ipv4_addr ri) 0) @ udp_bytes (gen_udp_header port (ri_udp_port ri) 0) @ rest"

subsection \<open>What the counters say\<close>

text \<open>
  \<open>last_pkt R i\<close> is the number of the last packet, of \<open>R\<close> received ones, whose completion the NIC wrote to entry \<open>i\<close>; it is negative for the initial content. \<open>cqe_of x\<close> is the completion of packet \<open>x\<close>.
\<close>

definition last_pkt :: "nat \<Rightarrow> nat \<Rightarrow> int" where
  "last_pkt R i = int R - 1 - (int R - 1 - int i) mod int kRecvCQDepth"

definition snap :: "int \<Rightarrow> cqe_snapshot" where
  "snap x = \<lparr>wqe_id = of_int (x div int kStridesPerWQE), wqe_counter = of_int (x mod int kStridesPerWQE)\<rparr>"

definition cqe_of :: "int \<Rightarrow> mlx5_cqe" where
  "cqe_of x = \<lparr>c_wqe_id = htons (wqe_id (snap x)), c_wqe_counter = htons (wqe_counter (snap x))\<rparr>"

lemma uint_of_int_u16: "uint (of_int x :: u16) = x mod 65536"
  by (simp add: uint_word_of_int_eq take_bit_eq_mod)

lemma max_u16: "(0xFFFF :: u16) = - 1"
  by simp

lemma cycle_idx_snap: "int (get_cqe_snapshot_cycle_idx (snap x)) = x mod int kCQESnapshotCycle"
proof -
  have "x mod 512 < 512" by simp
  then have "x mod 512 mod 65536 = x mod 512" by (intro mod_pos_pos_trivial) auto
  then have "int (get_cqe_snapshot_cycle_idx (snap x)) = 512 * (x div 512 mod 65536) + x mod 512"
    by (simp add: get_cqe_snapshot_cycle_idx_def snap_def uint_of_int_u16)
  also have "\<dots> = x mod (512 * 65536)" by (rule zmod_zmult2_eq [symmetric]) simp
  finally show ?thesis by simp
qed

lemma cycle_delta_snap: "get_cqe_cycle_delta (snap x) (snap y) = Inr (nat ((y - x) mod int kCQESnapshotCycle))"
proof -
  let ?a = "get_cqe_snapshot_cycle_idx (snap x)" and ?b = "get_cqe_snapshot_cycle_idx (snap y)" and ?M = "33554432 :: nat"
  have a: "int ?a = x mod 33554432" "int ?b = y mod 33554432" using cycle_idx_snap by simp_all
  then have l: "?a < ?M" "?b < ?M" using pos_mod_bound [of "33554432 :: int"] by (metis of_nat_less_iff of_nat_numeral zero_less_numeral)+
  then have "int ((?b + ?M - ?a) mod ?M) = (int ?b + 33554432 - int ?a) mod 33554432" by (simp add: zmod_int of_nat_diff)
  also have "int ?b + 33554432 - int ?a = (int ?b - int ?a) + 33554432" by simp
  also have "\<dots> mod 33554432 = (y - x) mod 33554432" unfolding a mod_add_self2 by (rule mod_diff_eq)
  finally have "(?b + ?M - ?a) mod ?M = nat ((y - x) mod 33554432)" by simp
  with l show ?thesis by (simp add: get_cqe_cycle_delta_def Let_def)
qed

lemma init_cqe_is: "i < kRecvCQDepth \<Longrightarrow> init_cqe i = cqe_of (last_pkt 0 i)"
proof -
  assume "i < kRecvCQDepth"
  then have "i \<in> {0, 1, 2, 3, 4, 5, 6, 7}" by auto
  then show ?thesis by (auto simp: init_cqe_def cqe_of_def snap_def last_pkt_def max_u16)
qed

lemma htons_inj [simp]: "htons a = htons b \<longleftrightarrow> a = b"
  by (metis htons_htons)

lemma last_pkt_mono: "a \<le> b \<Longrightarrow> last_pkt a i \<le> last_pkt b i"
proof -
  assume "a \<le> b"
  let ?d = "\<lambda>R. (int R - 1 - int i) div 8"
  have "last_pkt R i = int i + 8 * ?d R" for R
    using div_mult_mod_eq [of "int R - 1 - int i" 8] by (simp add: last_pkt_def algebra_simps)
  moreover have "?d a \<le> ?d b" using \<open>a \<le> b\<close> by (intro zdiv_mono1) auto
  ultimately show ?thesis by simp
qed

lemma last_pkt_bounds: "int R - 8 \<le> last_pkt R i" "last_pkt R i < int R"
  unfolding last_pkt_def using pos_mod_bound [of 8 "int R - 1 - int i"] pos_mod_sign [of 8 "int R - 1 - int i"] by auto

lemma same_wqe:
  fixes x y z :: int
  assumes "x \<le> y" "y \<le> z" "z + 512 \<le> x + 33554432" "(of_int (x div 512) :: u16) = of_int (z div 512)"
  shows "x div 512 = y div 512"
proof -
  have m: "x div 512 mod 65536 = z div 512 mod 65536" using arg_cong [OF assms(4), of uint] by (simp only: uint_of_int_u16)
  have le: "x div 512 \<le> y div 512" "y div 512 \<le> z div 512" using assms by (auto intro: zdiv_mono1)
  have "z div 512 \<le> (x + 33553920) div 512" using assms(3) by (intro zdiv_mono1) auto
  then have "z div 512 < x div 512 + 65536" by simp
  moreover have "65536 dvd z div 512 - x div 512" using m [symmetric] by (simp only: mod_eq_dvd_iff)
  then obtain k where k: "z div 512 - x div 512 = 65536 * k" by (rule dvdE)
  ultimately have "k < 1" "0 \<le> k" using le by linarith+
  with k le show ?thesis by simp
qed

lemma snapshot_round:
  assumes "a \<le> b" "b \<le> c" "c + kStridesPerWQE + kRecvCQDepth \<le> a + kCQESnapshotCycle"
    and "c_wqe_id (cqe_of (last_pkt a i)) = c_wqe_id (cqe_of (last_pkt c i))"
  shows "\<lparr>wqe_id = htons (c_wqe_id (cqe_of (last_pkt a i))), wqe_counter = htons (c_wqe_counter (cqe_of (last_pkt b i)))\<rparr> = snap (last_pkt b i)"
proof -
  have "last_pkt a i div 512 = last_pkt b i div 512"
    using assms last_pkt_mono [of a b i] last_pkt_mono [of b c i] last_pkt_bounds [of a i] last_pkt_bounds [of c i]
    by (intro same_wqe [of _ _ "last_pkt c i"]) (auto simp: cqe_of_def snap_def)
  then show ?thesis by (simp add: cqe_of_def snap_def)
qed

definition cqe_rounds :: "(nat \<times> nat \<times> nat) list \<Rightarrow> nat \<Rightarrow> (mlx5_cqe \<times> mlx5_cqe \<times> mlx5_cqe) list" where
  "cqe_rounds rounds i = map (\<lambda>(a, b, c). (cqe_of (last_pkt a i), cqe_of (last_pkt b i), cqe_of (last_pkt c i))) rounds"

definition round_ok :: "nat \<times> nat \<times> nat \<Rightarrow> bool" where
  "round_ok = (\<lambda>(a, b, c). a \<le> b \<and> b \<le> c \<and> c + kStridesPerWQE + kRecvCQDepth \<le> a + kCQESnapshotCycle)"

lemma snapshot_cqe_consistent:
  "\<forall>r \<in> set rounds. round_ok r \<Longrightarrow> snapshot_cqe (cqe_rounds rounds i) = Inr cur \<Longrightarrow> \<exists>(a, b, c) \<in> set rounds. cur = snap (last_pkt b i)"
proof (induction rounds)
  case (Cons r rounds)
  obtain a b c where r: "r = (a, b, c)" by (cases r)
  have ok: "a \<le> b" "b \<le> c" "c + 512 + 8 \<le> a + 33554432" using Cons.prems(1) by (auto simp: r round_ok_def)
  show ?case
  proof (cases "c_wqe_id (cqe_of (last_pkt a i)) = c_wqe_id (cqe_of (last_pkt c i))")
    case True
    then have "cur = snap (last_pkt b i)" using Cons.prems(2) snapshot_round [OF ok True] by (simp add: cqe_rounds_def r)
    then show ?thesis by (auto simp: r)
  next
    case False
    then show ?thesis using Cons by (auto simp: cqe_rounds_def r)
  qed
qed (simp add: cqe_rounds_def)

text \<open>A round during which the NIC does not write the entry ends the loop.\<close>

lemma snapshot_cqe_returns:
  "(a, b, c) \<in> set rounds \<Longrightarrow> last_pkt a i = last_pkt c i \<Longrightarrow> \<exists>cur. snapshot_cqe (cqe_rounds rounds i) = Inr cur"
  by (induction rounds) (auto simp: cqe_rounds_def)

subsection \<open>A burst reports exactly what has arrived\<close>

text \<open>\<open>raw_at p t\<close>: the transport has reported the first \<open>p\<close> packets.\<close>

definition raw_at :: "nat \<Rightarrow> raw_transport \<Rightarrow> bool" where
  "raw_at p t \<longleftrightarrow> r_prev_snapshot t = snap (int p - 1) \<and> r_cqe_idx t = p mod kRecvCQDepth \<and> r_recv_head t = p mod rawRxRingEntries"

lemma fold_wrap: "fold (\<lambda>_ h. (h + 1) mod n) [0..<d] (p mod n) = (p + d) mod (n :: nat)"
  by (induction d) (simp_all add: mod_simps)

lemma last_pkt_at: "last_pkt R (p mod kRecvCQDepth) = int R - 1 - (int R - 1 - int p) mod 8"
  by (simp add: last_pkt_def zmod_int mod_simps)

lemma last_pkt_new:
  assumes "p < R"
  shows "last_pkt R (p mod kRecvCQDepth) = int (p + 8 * ((R - 1 - p) div 8))"
proof -
  have "int R - 1 - int p = int (R - 1 - p)" using assms by simp
  then have "last_pkt R (p mod 8) = int R - 1 - int ((R - 1 - p) mod 8)" unfolding last_pkt_at by (simp add: zmod_int)
  moreover have "R - 1 - p = 8 * ((R - 1 - p) div 8) + (R - 1 - p) mod 8" by simp
  ultimately show ?thesis using assms by linarith
qed

lemma last_pkt_old: "last_pkt p (p mod kRecvCQDepth) = int p - 8"
  by (simp add: last_pkt_at)

lemma raw_rx_burst_at:
  assumes t: "raw_at p t" and s: "snapshot_cqe (reads (p mod kRecvCQDepth)) = Inr (snap (last_pkt R (p mod kRecvCQDepth)))"
    and R: "p \<le> R" "R \<le> p + rawRxRingEntries"
  shows "\<exists>n t'. raw_rx_burst reads t = Inr (n, t') \<and> raw_at (p + n) t' \<and> p + n \<le> R \<and> R < p + n + kRecvCQDepth \<and> (n = 0 \<longleftrightarrow> R = p) \<and>
    t' = t\<lparr>r_recv_head := r_recv_head t', r_cqe_idx := r_cqe_idx t', r_prev_snapshot := r_prev_snapshot t'\<rparr>"
proof (cases "R = p")
  case True
  have "(int p - 8 - (int p - 1)) mod 33554432 = 33554425" by simp
  then have "raw_rx_burst reads t = Inr (0, t)" using t s True last_pkt_old [of p] by (simp add: raw_rx_burst_def raw_at_def cycle_delta_snap)
  then show ?thesis using t True by simp
next
  case False
  define k where "k = (R - 1 - p) div 8"
  have R': "p < R" using R(1) False by simp
  have m: "R - 1 - p = 8 * k + (R - 1 - p) mod 8" "(R - 1 - p) mod 8 < 8" unfolding k_def by simp_all
  have k: "8 * k + 1 < 4096" "p + (8 * k + 1) \<le> R" "R < p + (8 * k + 1) + 8"
  proof -
    have "R - 1 - p < 512 * 8" using R(2) R' by simp
    then have "k < 512" unfolding k_def by (rule less_mult_imp_div_less)
    then show "8 * k + 1 < 4096" by simp
    show "p + (8 * k + 1) \<le> R" using m R' by linarith
    show "R < p + (8 * k + 1) + 8" using m R' by linarith
  qed
  have y: "last_pkt R (p mod 8) = int (p + 8 * k)" using last_pkt_new [OF R'] by (simp add: k_def)
  have "(int (p + 8 * k) - (int p - 1)) mod 33554432 = int (8 * k + 1)" using k(1) by simp
  then have d: "get_cqe_cycle_delta (r_prev_snapshot t) (snap (int (p + 8 * k))) = Inr (8 * k + 1)"
    using t by (simp only: raw_at_def cycle_delta_snap) simp
  let ?t = "t\<lparr>r_recv_head := (p + (8 * k + 1)) mod 4096, r_cqe_idx := (r_cqe_idx t + 1) mod 8, r_prev_snapshot := snap (int (p + 8 * k))\<rparr>"
  have h: "fold (\<lambda>_ h. Suc h mod 4096) [0..<Suc (8 * k)] (r_recv_head t) = Suc (p + 8 * k) mod 4096"
    using t fold_wrap [of 4096 "8 * k + 1" p] by (simp add: raw_at_def del: upt_Suc)
  have "snapshot_cqe (reads (r_cqe_idx t)) = Inr (snap (int (p + 8 * k)))" using s t y by (simp add: raw_at_def)
  then have "raw_rx_burst reads t = Inr (8 * k + 1, ?t)" using d k(1) unfolding raw_rx_burst_def by (simp add: h del: upt_Suc)
  moreover have "raw_at (p + (8 * k + 1)) ?t" using t by (simp add: raw_at_def mod_simps)
  ultimately show ?thesis using k False by (intro exI [of _ "8 * k + 1"] exI [of _ ?t]) simp
qed

subsection \<open>Reception as a whole\<close>

text \<open>
  \<open>raw_reach\<close>: \<open>R\<close> packets have been received by the NIC, \<open>p\<close> reported and \<open>q\<close> released. The NIC fills at most the strides of the posted entries, and may
  receive packets while the transport reads a completion entry.
\<close>

definition raw_fresh :: "raw_transport \<Rightarrow> bool" where
  "raw_fresh t \<longleftrightarrow> r_cqe_idx t = 0 \<and> r_recv_head t = 0 \<and> r_recvs_to_post t = 0 \<and> r_mp_sge_idx t = 0 \<and> r_posted t = []"

definition nic_rounds :: "nat \<Rightarrow> nat \<Rightarrow> (nat \<times> nat \<times> nat) list \<Rightarrow> bool" where
  "nic_rounds R R' rounds \<longleftrightarrow> R \<le> R' \<and> (\<forall>(a, b, c) \<in> set rounds. R \<le> a \<and> a \<le> b \<and> b \<le> c \<and> c \<le> R')"

inductive raw_reach :: "Buffer \<Rightarrow> raw_transport \<Rightarrow> raw_transport \<Rightarrow> nat \<Rightarrow> nat \<Rightarrow> nat \<Rightarrow> bool" for ext t0 where
  raw_start: "map_mlx5_overrunning_recv_cqes 3 t0 = Inr (cqes, t1) \<Longrightarrow> raw_init_recvs ext t1 = Inr (ring, t) \<Longrightarrow> raw_reach ext t0 t 0 0 0"
| raw_nic: "raw_reach ext t0 t R p q \<Longrightarrow> R \<le> R' \<Longrightarrow> R' \<le> kStridesPerWQE * length (r_posted t) \<Longrightarrow> raw_reach ext t0 t R' p q"
| raw_rx: "raw_reach ext t0 t R p q \<Longrightarrow> nic_rounds R R' rounds \<Longrightarrow> R' \<le> kStridesPerWQE * length (r_posted t) \<Longrightarrow>
    raw_rx_burst (cqe_rounds rounds) t = Inr (n, t') \<Longrightarrow> raw_reach ext t0 t' R' (p + n) q"
| raw_post: "raw_reach ext t0 t R p q \<Longrightarrow> q + n \<le> p \<Longrightarrow> raw_post_recvs 0 n t = Inr t' \<Longrightarrow> raw_reach ext t0 t' R p (q + n)"

definition raw_inv :: "raw_transport \<Rightarrow> nat \<Rightarrow> nat \<Rightarrow> nat \<Rightarrow> bool" where
  "raw_inv t R p q \<longleftrightarrow> raw_at p t \<and> q \<le> p \<and> p \<le> R \<and> R \<le> kStridesPerWQE * length (r_posted t) \<and>
     kStridesPerWQE * length (r_posted t) + r_recvs_to_post t = q + rawRxRingEntries \<and>
     r_mp_sge_idx t = length (r_posted t) mod rawRQDepth \<and> (\<forall>j < length (r_posted t). r_posted t ! j = j mod rawRQDepth)"

lemma raw_start_inv:
  assumes f: "raw_fresh t0" and m: "map_mlx5_overrunning_recv_cqes 3 t0 = Inr (cqes, t1)" and i: "raw_init_recvs ext t1 = Inr (ring, t)"
  shows "raw_inv t 0 0 0"
proof -
  have "r_prev_snapshot t1 = snap (- 1)" "t1 = t0\<lparr>r_prev_snapshot := r_prev_snapshot t1\<rparr>"
    using m init_cqe_is [of 7] by (auto simp: map_mlx5_overrunning_recv_cqes_def res_Inr Let_def last_pkt_def cqe_of_def snap_def simp del: upt_rec_numeral)
  moreover have "r_posted t = r_posted t1 @ [0..<8]" "r_recv_head t = r_recv_head t1" "r_cqe_idx t = r_cqe_idx t1" "r_prev_snapshot t = r_prev_snapshot t1"
      "r_recvs_to_post t = r_recvs_to_post t1" "r_mp_sge_idx t = r_mp_sge_idx t1"
    using i by (auto simp: raw_init_recvs_def split: option.splits)
  moreover have "r_posted t1 = []" "r_recv_head t1 = 0" "r_cqe_idx t1 = 0" "r_recvs_to_post t1 = 0" "r_mp_sge_idx t1 = 0"
    using f calculation(2) by (metis raw_fresh_def raw_transport.surjective raw_transport.update_convs(1) raw_transport.select_convs)+
  ultimately show ?thesis by (simp add: raw_inv_def raw_at_def del: upt_rec_numeral)
qed

lemma init_snapshot:
  assumes "i < kRecvCQDepth"
  shows "\<exists>s. snapshot_cqe [(init_cqe i, init_cqe i, init_cqe i)] = Inr s \<and> get_cqe_snapshot_cycle_idx s = kCQESnapshotCycle - (kRecvCQDepth - i)"
proof -
  have "i \<in> {0, 1, 2, 3, 4, 5, 6, 7}" using assms by auto
  then have i: "last_pkt 0 i = int i - 8" by (auto simp: last_pkt_def)
  have "snapshot_cqe [(init_cqe i, init_cqe i, init_cqe i)] = Inr (snap (int i - 8))" using init_cqe_is [OF assms] i by (simp add: cqe_of_def)
  moreover have "(int i - 8) mod 33554432 = int (33554432 - (8 - i))" using assms mod_add_self2 [of "int i - 8" 33554432] by simp
  then have "get_cqe_snapshot_cycle_idx (snap (int i - 8)) = 33554432 - (8 - i)" using cycle_idx_snap [of "int i - 8"] by simp
  ultimately show ?thesis by simp
qed

lemma map_cqes_ok: "\<exists>cqes t1. map_mlx5_overrunning_recv_cqes 3 t = Inr (cqes, t1)"
proof -
  let ?cqes = "map init_cqe [0..<8]"
  let ?f = "\<lambda>i _ :: unit. bindE (snapshot_cqe [(?cqes ! i, ?cqes ! i, ?cqes ! i)]) (\<lambda>s. rt_assert (get_cqe_snapshot_cycle_idx s = 33554432 - (8 - i)) (Inr ()))"
  have "holds (\<lambda>_. True) (foldE ?f [0..<8] ())"
  proof (rule holds_foldE)
    fix i s assume "i \<in> set [0..<8 :: nat]"
    then have i: "i < 8" "?cqes ! i = init_cqe i" by auto
    from init_snapshot [OF i(1)] show "holds (\<lambda>_. True) (?f i s)" unfolding i(2) by (auto simp: rt_assert_def)
  qed simp
  then have "foldE ?f [0..<8] () = Inr ()" by (auto simp: holds_iff)
  moreover obtain s where "snapshot_cqe [(?cqes ! 7, ?cqes ! 7, ?cqes ! 7)] = Inr s" using init_snapshot [of 7] by (auto simp del: upt_rec_numeral)
  ultimately show ?thesis by (simp add: map_mlx5_overrunning_recv_cqes_def rt_assert_def Let_def)
qed

lemma raw_rx_inv:
  assumes v: "raw_inv t R p q" and nr: "nic_rounds R R' rounds" and cap: "R' \<le> kStridesPerWQE * length (r_posted t)"
    and s: "snapshot_cqe (cqe_rounds rounds (p mod kRecvCQDepth)) = Inr cur"
  shows "\<exists>n t'. raw_rx_burst (cqe_rounds rounds) t = Inr (n, t') \<and> raw_inv t' R' (p + n) q \<and> p + n \<le> R' \<and> R < p + n + kRecvCQDepth"
proof -
  have b: "p \<le> R" "R' \<le> q + 4096" "q \<le> p" "raw_at p t" using v cap by (auto simp: raw_inv_def)
  have "\<forall>r \<in> set rounds. round_ok r" using nr b by (fastforce simp: nic_rounds_def round_ok_def)
  from snapshot_cqe_consistent [OF this s] obtain x y z where r: "(x, y, z) \<in> set rounds" "cur = snap (last_pkt y (p mod 8))" by blast
  then have y: "R \<le> y" "y \<le> R'" using nr by (auto simp: nic_rounds_def)
  obtain n t' where n: "raw_rx_burst (cqe_rounds rounds) t = Inr (n, t')" "raw_at (p + n) t'" "p + n \<le> y" "y < p + n + 8"
      "t' = t\<lparr>r_recv_head := r_recv_head t', r_cqe_idx := r_cqe_idx t', r_prev_snapshot := r_prev_snapshot t'\<rparr>"
    using raw_rx_burst_at [OF b(4), of "cqe_rounds rounds" y] s r(2) y b by auto
  have "r_posted t' = r_posted t" "r_recvs_to_post t' = r_recvs_to_post t" "r_mp_sge_idx t' = r_mp_sge_idx t" by (subst n(5), simp)+
  then have "raw_inv t' R' (p + n) q" using v n y cap by (simp add: raw_inv_def)
  then show ?thesis using n y by auto
qed

lemma raw_post_inv:
  assumes v: "raw_inv t R p q" and n: "q + n \<le> p"
  shows "holds (\<lambda>t'. raw_inv t' R p (q + n)) (raw_post_recvs 0 n t)"
proof -
  have "n \<le> 4096" using v n by (auto simp: raw_inv_def)
  then show ?thesis using v n
    by (auto simp: raw_post_recvs_def Let_def raw_inv_def raw_at_def nth_append less_Suc_eq mod_simps)
qed

lemma raw_reach_inv:
  assumes "raw_fresh t0" "raw_reach ext t0 t R p q"
  shows "raw_inv t R p q"
  using assms(2)
proof induction
  case (raw_start cqes t1 ring t)
  then show ?case using raw_start_inv [OF assms(1)] by blast
next
  case (raw_nic t R p q R')
  then show ?case by (auto simp: raw_inv_def)
next
  case (raw_rx t R p q R' rounds n t')
  obtain cur where "snapshot_cqe (cqe_rounds rounds (p mod 8)) = Inr cur"
    using raw_rx by (auto simp: raw_rx_burst_def raw_inv_def raw_at_def bindE_eq_Inr)
  from raw_rx_inv [OF raw_rx.IH raw_rx.hyps(2,3) this] raw_rx.hyps(4) show ?case by auto
next
  case (raw_post t R p q n t')
  then show ?case using raw_post_inv [of t R p q n] by simp
qed

text \<open>
  C?. Reception of the raw transport from its initialisation on, whatever the NIC delivers into the posted strides and however bursts, deliveries and releases interleave: the ring never holds more
  packets than it has entries, so that the NIC overwrites no packet before its release, and the multi-packet entries are posted in turn. A burst whose read of the completion entry meets
  one round without a concurrent write returns; it reports only packets that have arrived, and of those that had arrived before the call at most \<open>kRecvCQDepth - 1\<close> remain unreported. Releasing reported packets returns.
\<close>

theorem raw_reception_safe:
  assumes f: "raw_fresh t0" and r: "raw_reach ext t0 t R p q"
  shows "q \<le> p \<and> p \<le> R \<and> R \<le> q + rawRxRingEntries \<and> r_recv_head t = p mod rawRxRingEntries \<and> (\<forall>j < length (r_posted t). r_posted t ! j = j mod rawRQDepth) \<and>
    (\<forall>R' rounds. nic_rounds R R' rounds \<and> R' \<le> kStridesPerWQE * length (r_posted t) \<and> (\<exists>(a, b, c) \<in> set rounds. a = c) \<longrightarrow>
       (\<exists>n t'. raw_rx_burst (cqe_rounds rounds) t = Inr (n, t') \<and> p + n \<le> R' \<and> R < p + n + kRecvCQDepth)) \<and>
    (\<forall>n. q + n \<le> p \<longrightarrow> (\<exists>t'. raw_post_recvs 0 n t = Inr t'))"
proof -
  have v: "raw_inv t R p q" by (rule raw_reach_inv [OF f r])
  have "\<exists>n t'. raw_rx_burst (cqe_rounds rounds) t = Inr (n, t') \<and> p + n \<le> R' \<and> R < p + n + 8"
    if nr: "nic_rounds R R' rounds" and c: "R' \<le> 512 * length (r_posted t)" and e: "\<exists>(a, b, c) \<in> set rounds. a = c" for R' rounds
  proof -
    obtain a b where "(a, b, a) \<in> set rounds" using e by auto
    then obtain cur where "snapshot_cqe (cqe_rounds rounds (p mod 8)) = Inr cur" using snapshot_cqe_returns by blast
    from raw_rx_inv [OF v nr c this] show ?thesis by blast
  qed
  moreover have "\<exists>t'. raw_post_recvs 0 n t = Inr t'" if "q + n \<le> p" for n using raw_post_inv [OF v that] by (auto simp: holds_iff)
  ultimately show ?thesis using v by (auto simp: raw_inv_def raw_at_def)
qed

definition ex_raw :: raw_transport where
  "ex_raw = \<lparr>r_prev_snapshot = \<lparr>wqe_id = 0, wqe_counter = 0\<rparr>, r_cqe_idx = 0, r_recv_head = 0, r_recvs_to_post = 0, r_mp_sge_idx = 0, r_mp_recv_sge = [], r_posted = []\<rparr>"

theorem raw_reception_safe_witness:
  "\<exists>t n t'. raw_reach \<lparr>b_buf = Some 0x1000, class_size = 0x400000, lkey = 1\<rparr> ex_raw t 0 0 0 \<and> raw_rx_burst (cqe_rounds [(3, 9, 12), (12, 20, 20), (20, 20, 20)]) t = Inr (n, t')"
proof -
  let ?ext = "\<lparr>b_buf = Some 0x1000, class_size = 0x400000, lkey = 1\<rparr>"
  have f: "raw_fresh ex_raw" by (simp add: raw_fresh_def ex_raw_def)
  obtain cqes t1 where m: "map_mlx5_overrunning_recv_cqes 3 ex_raw = Inr (cqes, t1)" using map_cqes_ok by blast
  obtain ring t where i: "raw_init_recvs ?ext t1 = Inr (ring, t)" by (simp add: raw_init_recvs_def)
  then have "length (r_posted t) \<ge> 8" by (auto simp: raw_init_recvs_def)
  then have c: "20 \<le> 512 * length (r_posted t)" by simp
  have r: "raw_reach ?ext ex_raw t 0 0 0" by (rule raw_start [OF m i])
  have "nic_rounds 0 20 [(3, 9, 12), (12, 20, 20), (20, 20, 20)]" "\<exists>(a, b, c) \<in> set [(3, 9, 12), (12, 20, 20), (20, 20, 20 :: nat)]. a = c" by (auto simp: nic_rounds_def)
  then show ?thesis using raw_reception_safe [OF f r] c r by blast
qed

text \<open>More than one entry's worth of released packets posts one entry only; the rest waits for the next call.\<close>

lemma post_one_entry_per_call:
  assumes "r_recvs_to_post t = 0" "length (r_posted t) = n"
  shows "\<exists>t'. raw_post_recvs 0 4089 t = Inr t' \<and> length (r_posted t') = n + 1 \<and> r_recvs_to_post t' = 3577"
  using assms by (simp add: raw_post_recvs_def Let_def)

end
