(* ===== verification/Rpc_Create.thy ===== *)
theory Rpc_Create
  imports Rpc_Event_Loop Nexus_Process Ib_Transport
begin

section \<open>Creating and destroying an Rpc object (\<open>rpc_impl/rpc.cc\<close>)\<close>

text \<open>
  The constructor ties the components together: it registers the thread with the Nexus, makes the transport,
  the hugepage allocator and the timing wheel, takes the control message buffers from the allocator,
  installs the hook and brings the wheel up to date. The transport is a template parameter of the class and
  so a parameter here, with its contract as a locale; the InfiniBand transport and the fake one provide it.
\<close>

abbreviation (input) kInitialHugeAllocSize :: nat where "kInitialHugeAllocSize \<equiv> 8388608"
abbreviation (input) kRpcRTOUs :: real where "kRpcRTOUs \<equiv> 5000"
abbreviation (input) maxPhyPorts :: nat where "maxPhyPorts \<equiv> 16"

subsection \<open>The constructor\<close>

text \<open>
  What the constructor is given besides the Nexus: the calling thread, the address of the hook member, the arguments
  \<open>rpc_id\<close> and \<open>phy_port\<close>, whether \<open>fopen\<close> opened the trace file, the outcome of the transport's own constructor, its
  \<open>init_hugepage_structures\<close> (which also fills the receive ring), the system's answers to \<open>shmget\<close>, the old contents of the
  wheel's memory, the seed of \<open>FastRand\<close>, the queues of the background threads, the number of clock readings for \<open>catchup\<close>
  and, as \<open>ct_raw\<close>, the indeterminate contents of the members that have no initialiser.
\<close>

record rpc_ctor =
  ct_thread :: nat
  ct_hook :: nat
  ct_rpc_id :: u8
  ct_phy_port :: u8
  ct_trace_ok :: bool
  ct_transport :: "unit res"
  ct_init :: "huge_alloc \<Rightarrow> (huge_alloc \<times> nat list) res"
  ct_script :: "shm_answer list"
  ct_wheel_mem :: "nat \<Rightarrow> sref wheel_bkt"
  ct_seed :: u64
  ct_bg_queue :: "nat \<Rightarrow> bg_work_item MtQueue"
  ct_samples :: nat
  ct_raw :: rpc

text \<open>The constant members, which the model keeps in the environment.\<close>

definition Rpc_env :: "nexus \<Rightarrow> nat \<Rightarrow> u8 \<Rightarrow> env \<Rightarrow> env" where
  "Rpc_env n etid rpc_id e = e\<lparr>creator_etid := etid, num_bg_threads := nx_num_bg_threads n, freq_ghz := nx_freq_ghz n,
     rpc_rto_cycles := us_to_cycles kRpcRTOUs (nx_freq_ghz n), rpc_pkt_loss_scan_cycles := us_to_cycles kRpcRTOUs (nx_freq_ghz n) div 10,
     req_func_type := (\<lambda>t. if t < length (nx_req_func_arr n) \<and> is_registered (nx_req_func_arr n ! t)
       then Some (rf_type (nx_req_func_arr n ! t)) else None),
     nexus_hostname := nx_hostname n, nexus_sm_udp_port := nx_sm_udp_port n, my_rpc_id := rpc_id\<rparr>"

text \<open>The member initialisers of \<open>rpc.h\<close>; what has none keeps its indeterminate value.\<close>

definition Rpc_members :: "env \<Rightarrow> rpc_ctor \<Rightarrow> rpc" where
  "Rpc_members e c = (ct_raw c)\<lparr>session_vec := [], stallq := [], tx_burst_arr := [], ctrl_msgbuf_head := 0, rx_ring_head := 0,
     bgq_request := MtQueue_init, bgq_response := MtQueue_init, fast_rand := ct_seed c, cur_etid := creator_etid e, wire := [],
     tx_flush_count := 0, recvs_posted := 0, st_num_re_tx := 0, st_still_in_wheel := 0, ring_entries_available := kNumRxRingEntries,
     conn_req_token_map := (\<lambda>_. None), sm_pending_reqs := [], sm_rx_queue := MtQueue_init, udp_sent := [], app_events := [],
     pre_resp_msgbuf_size := kMaxDataPerPkt (cfg e), retry_connect_on_invalid_rpc_id := False, rand_i := 0,
     fail_resolve_rinfo := False, pkt_drop_prob := 0, pkt_drop_thresh_billion := 0\<rparr>"

definition alloc_ctrl_msgbuf :: "env \<Rightarrow> nat \<Rightarrow> rpc \<Rightarrow> rpc res" where
  "alloc_ctrl_msgbuf e i s =
    bindE (alloc_msg_buffer (cfg e) (bsrl_r0 e) (reg_mr e) (mem_hdrs e) (mem_bytes e) 8 (huge_al s)) (\<lambda>(m, h).
      case m of None \<Rightarrow> Inl RuntimeError | Some mb \<Rightarrow> Inr (s\<lparr>huge_al := h, mbufs := (mbufs s)(CtrlBuf i := mb)\<rparr>))"

text \<open>
  Each end of the list of active RPCs is a sentinel; the null pointers that they hold outwards are never followed and have
  no counterpart. The clock readings that \<open>catchup\<close> may take are the next \<open>ct_samples\<close> ones; the first reading is \<open>creation_tsc_\<close>.
\<close>

definition Rpc_late :: "rpc_ctor \<Rightarrow> env \<Rightarrow> rpc \<Rightarrow> rpc res" where
  "Rpc_late c e s =
    (let (now, s1) = rdtsc e (s\<lparr>anext := (anext s)(RootSentinel := TailSentinel), aprev := (aprev s)(TailSentinel := RootSentinel),
           bg_req_queue_arr := map (ct_bg_queue c) [0..<num_bg_threads e]\<rparr>);
         s2 = s1\<lparr>pkt_loss_scan_tsc := now\<rparr>
     in bindE (catchup (cfg e) (map (tsc e) [tsc_i s2..<tsc_i s2 + ct_samples c]) (tw s2)) (\<lambda>w.
        Inr (s2\<lparr>tw := w, tsc_i := tsc_i s2 + ct_samples c\<rparr>)))"

definition Rpc_build :: "rpc_ctor \<Rightarrow> env \<Rightarrow> nexus \<Rightarrow> rpc \<Rightarrow> (env \<times> rpc \<times> nexus) res" where
  "Rpc_build c e n s0 =
    bindE (ct_init c (huge_alloc_init kInitialHugeAllocSize (ct_script c))) (\<lambda>(h1, ring).
     let e1 = e\<lparr>rx_ring_addr := (\<lambda>i. ring ! i)\<rparr>; (base_tsc, s1) = rdtsc e1 s0
     in bindE (timing_wheel_init (cfg e1) (freq_ghz e1) (reg_mr e1) (ct_wheel_mem c) base_tsc h1) (\<lambda>(w, h2).
        bindE (forE (2 * kUnsigBatch (cfg e1)) (alloc_ctrl_msgbuf e1) (s1\<lparr>huge_al := h2, tw := w\<rparr>)) (\<lambda>s2.
        bindE (register_hook (ct_hook c) (n\<lparr>nx_hooks := (nx_hooks n)(ct_hook c := Hook_init (ct_rpc_id c))\<rparr>)) (\<lambda>n2.
        bindE (Rpc_late c e1 s2) (\<lambda>s3. Inr (e1, s3, n2))))))"

definition Rpc_init :: "rpc_ctor \<Rightarrow> env \<Rightarrow> nexus \<Rightarrow> (env \<times> rpc \<times> nexus) res" where
  "Rpc_init c e n =
    rt_assert (ct_rpc_id c \<noteq> kInvalidRpcId) (bindE (rpc_id_exists (ct_rpc_id c) n) (\<lambda>ex. rt_assert (\<not> ex)
    (rt_assert (unat (ct_phy_port c) < maxPhyPorts) (rt_assert (nx_numa_node n < kMaxNumaNodes)
    (bindE (tls_init (ct_thread c) (nx_tls n)) (\<lambda>tls. bindE (get_etid (ct_thread c) tls) (\<lambda>etid.
      let e1 = Rpc_env n etid (ct_rpc_id c) e
      in if \<not> ct_trace_ok c then Inl RuntimeError
         else bindE (ct_transport c) (\<lambda>_. assertE (nx_numa_node n \<le> kMaxNumaNodes)
           (Rpc_build c e1 (n\<lparr>nx_tls := tls\<rparr>) (snd (rdtsc e1 (Rpc_members e1 c))))))))))))"

subsection \<open>The destructor\<close>

text \<open>
  Deleting the allocator deregisters and detaches its regions in order; \<open>shmdt_ok\<close> is the system's answer for a region.
  \<open>tr_delete\<close> is the transport's destructor.
\<close>

datatype shm_release = DeregMr u32 | Shmdt nat

fun HugeAlloc_destroy :: "(nat \<Rightarrow> bool) \<Rightarrow> shm_region list \<Rightarrow> shm_release list res" where
  "HugeAlloc_destroy shmdt_ok [] = Inr []"
| "HugeAlloc_destroy shmdt_ok (r # rs) =
    (if \<not> shmdt_ok (sr_buf r) then Inl ExitProcess
     else bindE (HugeAlloc_destroy shmdt_ok rs) (\<lambda>es.
       Inr ((if sr_registered r then [DeregMr (sr_lkey r)] else []) @ Shmdt (sr_buf r) # es)))"

definition Rpc_destroy :: "(nat \<Rightarrow> bool) \<Rightarrow> unit res \<Rightarrow> nat \<Rightarrow> env \<Rightarrow> rpc \<Rightarrow> nexus \<Rightarrow> (shm_release list \<times> nexus) res" where
  "Rpc_destroy shmdt_ok tr_delete hk e s n = assertE (in_dispatch e s)
    (bindE (HugeAlloc_destroy shmdt_ok (shm_list (huge_al s))) (\<lambda>es. bindE tr_delete (\<lambda>_.
     bindE (unregister_hook hk n) (\<lambda>n'. Inr (es, n')))))"

subsection \<open>Small allocations\<close>

text \<open>
  The control buffers are of the smallest class. Only an allocator without any free buffer asks the system for
  more, and it then gets at least one buffer of the largest class.
\<close>

lemma split_down_prev: "split_down n c h = Inr h' \<Longrightarrow> prev_allocation_size h' = prev_allocation_size h"
proof (induction n c h rule: split_down.induct)
  case (1 n c h)
  show ?case
  proof (cases "n = c")
    case False
    then obtain h1 where h1: "split_buf n h = Inr h1" "split_down (n - 1) c h1 = Inr h'"
      using "1.prems" by (auto simp: split_down.simps [of n] bindE_eq_Inr)
    then have "prev_allocation_size h1 = prev_allocation_size h"
      by (auto simp: split_buf_def assertE_eq_Inr Let_def push_free_def pop_free_def)
    then show ?thesis using "1.IH" [OF False h1(1) h1(2)] by simp
  qed (use "1.prems" in \<open>simp add: split_down.simps\<close>)
qed

lemma alloc_from_class_prev: "alloc_from_class c h = Inr (b, h') \<Longrightarrow> prev_allocation_size h' = prev_allocation_size h"
  by (auto simp: alloc_from_class_def res_Inr Let_def pop_free_def)

lemma next_class_free: "next_class fl 1 = k_num_classes \<Longrightarrow> fl ! 0 = [] \<Longrightarrow> j < k_num_classes \<Longrightarrow> fl ! j = []"
  using next_class_spec [of 1 fl] by (cases "j = 0") auto

lemma free_foot_empty:
  assumes "ha_inv h" "\<And>j. j < k_num_classes \<Longrightarrow> freelist h ! j = []"
  shows "free_foot h = {#}"
proof -
  have "freelist h = replicate k_num_classes []" using assms by (intro nth_equalityI) (auto simp: ha_inv_def)
  moreover have "sum_list (replicate k {#}) = {#}" for k by (induction k) simp_all
  ultimately show ?thesis by (simp add: free_foot_def list_foot_def)
qed

lemma free_foot_max:
  assumes "ha_inv h" "freelist h ! 17 \<noteq> []"
  shows "k_max_class_size \<le> size (free_foot h)"
proof -
  let ?b = "last (freelist h ! 17)"
  have b: "b_buf ?b \<noteq> None" "class_size ?b = class_max_size 17"
    using ha_inv_classD [OF assms(1) _ last_in_set [OF assms(2)]] by auto
  have "size (free_foot h) = size (free_foot (pop_free 17 h)) + size (foot ?b)"
    unfolding size_union [symmetric] using free_foot_pop [of 17 h] assms by simp
  then show ?thesis using size_foot_Some [OF b(1)] b(2) by (simp add: class_max_size_def)
qed

lemma free_foot_nonempty:
  assumes "ha_inv h" "j < k_num_classes" "freelist h ! j \<noteq> []"
  shows "free_foot h \<noteq> {#}"
proof -
  have "b_buf (last (freelist h ! j)) \<noteq> None" "class_size (last (freelist h ! j)) = class_max_size j"
    using ha_inv_classD [OF assms(1,2) last_in_set [OF assms(3)]] by auto
  then have "size (foot (last (freelist h ! j))) \<noteq> 0" by (simp add: size_foot_Some class_max_size_def)
  then show ?thesis using free_foot_pop [of j h] assms by auto
qed

lemma class_for_least: "class_for sz c \<Longrightarrow> sz \<le> 64 \<Longrightarrow> c = 0"
  using class_max_size_mono [of 0 "c - 1"] by (auto simp: class_for_def class_max_size_0)

lemma alloc_small_prev:
  assumes inv: "ha_inv h" and sz: "1 \<le> sz" "sz \<le> 64" and room: "prev_allocation_size h \<le> 2 ^ 62"
    and al: "alloc 0 reg sz h = Inr (b, h')" and b: "b_buf b \<noteq> None"
  shows "if free_foot h = {#} then prev_allocation_size h' = 2 * prev_allocation_size h \<and> k_max_class_size \<le> size (free_foot h') + 64
     else prev_allocation_size h' = prev_allocation_size h"
proof -
  obtain c where c: "get_class 0 sz = Inr c" "class_for sz c" using get_class_class_for [of sz 0] sz by auto
  have c0: "c = 0" by (rule class_for_least [OF c(2) sz(2)])
  let ?n = "next_class (freelist h) 1"
  show ?thesis
  proof (cases "freelist h ! 0 = [] \<and> ?n = k_num_classes")
    case False
    then have "free_foot h \<noteq> {#}"
      using free_foot_nonempty [OF inv, of 0] free_foot_nonempty [OF inv, of ?n] next_class_spec [of 1 "freelist h"] by auto
    moreover have "prev_allocation_size h' = prev_allocation_size h" using False al c(1) c0 sz b
      by (auto simp: alloc_def res_Inr Let_def alloc_from_class_prev dest: split_down_prev split: if_splits)
    ultimately show ?thesis by simp
  next
    case True
    then have "free_foot h = {#}" using next_class_free by (intro free_foot_empty [OF inv]) blast
    moreover have "prev_allocation_size h' = 2 * prev_allocation_size h \<and> k_max_class_size \<le> size (free_foot h') + 64"
    proof -
      let ?h0 = "h\<lparr>prev_allocation_size := prev_allocation_size h * 2\<rparr>"
      obtain h1 h3 where h: "reserve_hugepages reg (prev_allocation_size h * 2) ?h0 = Inr (True, h1)" "split_down 17 0 h1 = Inr h3"
          "alloc_from_class 0 h3 = Inr (b, h')" "freelist h3 ! 0 \<noteq> []"
        using True al c(1) c0 sz b by (auto simp: alloc_def res_Inr Let_def null_Buffer_def split: if_splits option.splits)
      have "ha_inv ?h0" using inv by (auto simp: ha_inv_def)
      then have "reserve_post ?h0 (True, h1)"
        using reserve_hugepages_ok [of ?h0 "prev_allocation_size h * 2" reg] inv room h(1) by (simp add: ha_inv_def)
      then have h1: "ha_inv h1" "freelist h1 ! 17 \<noteq> []" "prev_allocation_size h1 = prev_allocation_size h * 2"
          "\<And>j. j < 17 \<Longrightarrow> freelist h1 ! j = freelist h ! j" by (simp_all add: reserve_post_def)
      have emp: "freelist h1 ! j = []" if "j < 17" for j
        using that h1(4) [OF that] True next_class_free [of "freelist h" j] by simp
      obtain h3' where "split_down 17 0 h1 = Inr h3'" "split_ok 0 h1 h3'"
        using split_down_ok [OF h1(1) _ _ h1(2), of 0] emp by (auto elim: holdsE)
      then have s: "ha_inv h3" "free_foot h3 = free_foot h1" using h(2) by (simp_all add: split_ok_def)
      have "free_foot h' + foot b = free_foot h3" "class_size b = 64"
        using alloc_from_class_ok [OF s(1) _ h(4)] h(3) by (simp_all add: class_max_size_0)
      then have "size (free_foot h') + 64 = size (free_foot h1)"
        using s(2) size_foot_Some [OF b] by (metis size_union)
      then show ?thesis using free_foot_max [OF h1(1,2)] split_down_prev [OF h(2)] alloc_from_class_prev [OF h(3)] h1(3) by simp
    qed
    ultimately show ?thesis by simp
  qed
qed

subsection \<open>The memory of a new endpoint\<close>

lemma os_holds_forE:
  assumes step: "\<And>i s. i < n \<Longrightarrow> P i s \<Longrightarrow> os_holds (P (Suc i)) (f i s)" and init: "P 0 s"
  shows "os_holds (P n) (forE n f s)"
proof -
  have "k \<le> n \<Longrightarrow> os_holds (P k) (foldE f [0..<k] s)" for k
  proof (induction k)
    case (Suc k)
    then have "os_holds (P k) (foldE f [0..<k] s)" by simp
    then have "os_holds (P (Suc k)) (bindE (foldE f [0..<k] s) (f k))" by (rule os_holds_bind) (use Suc step in auto)
    then show ?case by (cases "foldE f [0..<k] s"; cases "f k (projr (foldE f [0..<k] s))") (simp_all add: foldE_append)
  qed (simp add: init)
  then show ?thesis by (simp add: forE_def)
qed

lemma bindE_eq_Inl: "bindE m f = Inl er \<longleftrightarrow> m = Inl er \<or> (\<exists>x. m = Inr x \<and> f x = Inl er)"
  by (cases m) auto

lemma os_ok_mono: "os_ok h' \<Longrightarrow> shm_foot h \<subseteq># shm_foot h' \<Longrightarrow> os_ok h"
  unfolding os_ok_def by (meson mset_subset_eqD mset_subset_eq_count order_trans)

lemma tw_inv_moves:
  assumes inv: "tw_inv cf (free_foot h + u) ch (w, h)" and f: "free_foot h' + b = free_foot h + new"
    and s: "shm_foot h + new \<subseteq># shm_foot h'" and os: "os_ok h'"
  shows "tw_inv cf (free_foot h' + (u + b)) ch (w, h')"
proof -
  let ?o = "objs_foot 64 (mp_pool (bkt_pool w)) + objs_foot 64 (all_bkts cf ch)"
  have "?o + (free_foot h + u) \<subseteq># shm_foot h" using tw_invD(7) [OF inv] by (simp add: mp_acc_def ac_simps)
  then have "?o + (free_foot h + u) + new \<subseteq># shm_foot h + new" by simp
  then have *: "?o + (free_foot h + u) + new \<subseteq># shm_foot h'" using s by (rule subset_mset.order_trans)
  have "?o + (free_foot h + u) + new = ?o + u + (free_foot h + new)" by (simp add: ac_simps)
  also have "\<dots> = ?o + (free_foot h' + (u + b))" unfolding f [symmetric] by (simp add: ac_simps)
  finally have "?o + (free_foot h' + (u + b)) \<subseteq># shm_foot h'" using * by metis
  moreover have "size (shm_foot h) \<le> size (shm_foot h')" using size_mset_mono [OF s] by simp
  ultimately show ?thesis using inv os by (auto simp: tw_inv_def mp_acc_def ac_simps max_def split: if_splits)
qed

definition ctrl_foot :: "(mbref \<Rightarrow> MsgBuffer) \<Rightarrow> nat \<Rightarrow> nat multiset" where
  "ctrl_foot m i = sum_list (map (\<lambda>j. foot (mb_buffer (m (CtrlBuf j)))) [0..<i])"

definition ctrl_ok :: "MsgBuffer \<Rightarrow> bool" where
  "ctrl_ok m \<longleftrightarrow> is_dynamic m \<and> max_data_size m = 8 \<and> num_pkts m = 1 \<and> class_size (mb_buffer m) = 64"

text \<open>
  After \<open>i\<close> control buffers: each is a valid buffer; the allocator has asked the system at most once; and the wheel's
  buckets, the free buffers, the control buffers and \<open>u\<close>, the rest, come from the system's regions without overlap.
\<close>

definition ctrl_inv :: "transport_cfg \<Rightarrow> nat multiset \<Rightarrow> (nat \<Rightarrow> nat list) \<Rightarrow> rpc \<Rightarrow> nat \<Rightarrow> rpc \<Rightarrow> bool" where
  "ctrl_inv cf u ch s0 i s \<longleftrightarrow> (\<exists>h m. s = s0\<lparr>huge_al := h, mbufs := m\<rparr> \<and> ha_inv h \<and>
     (i = 0 \<and> free_foot h = {#} \<and> prev_allocation_size h \<le> 2 ^ 23 \<or> prev_allocation_size h \<le> 2 ^ 24 \<and> 2 ^ 23 \<le> size (free_foot h) + 64 * i) \<and>
     (\<forall>j < i. ctrl_ok (m (CtrlBuf j))) \<and>
     (os_ok h \<longrightarrow> tw_inv cf (free_foot h + (u + ctrl_foot m i)) ch (tw s0, h)))"

lemma alloc_ctrl_ok:
  assumes cfg: "cfg_ok (cfg e)" and r0: "bsrl_r0 e = 0" and i: "i < 131072" and P: "ctrl_inv (cfg e) u ch s0 i s"
  shows "os_holds (ctrl_inv (cfg e) u ch s0 (Suc i)) (alloc_ctrl_msgbuf e i s)"
proof -
  let ?sz = "8 + sizeof_pkthdr (cfg e)"
  have sz: "1 \<le> ?sz" "?sz \<le> 64" and np: "data_size_to_num_pkts (cfg e) 8 = 1"
    using cfg_okD [OF cfg] by (auto simp: data_size_to_num_pkts_def)
  obtain h m where s: "s = s0\<lparr>huge_al := h, mbufs := m\<rparr>" "ha_inv h"
    and prev: "i = 0 \<and> free_foot h = {#} \<and> prev_allocation_size h \<le> 2 ^ 23 \<or> prev_allocation_size h \<le> 2 ^ 24 \<and> 2 ^ 23 \<le> size (free_foot h) + 64 * i"
    and old: "\<forall>j < i. ctrl_ok (m (CtrlBuf j))" and acc: "os_ok h \<longrightarrow> tw_inv (cfg e) (free_foot h + (u + ctrl_foot m i)) ch (tw s0, h)"
    using P by (auto simp: ctrl_inv_def)
  have room: "prev_allocation_size h \<le> 2 ^ 62" using prev by auto
  have al: "os_holds (alloc_post ?sz h) (alloc 0 (reg_mr e) ?sz h)" using sz by (intro alloc_ok [OF s(2)]) (use room in auto)
  have hs: "huge_al s = h" by (simp add: s(1))
  have eq: "alloc_ctrl_msgbuf e i s = bindE (bindE (alloc 0 (reg_mr e) ?sz h) (\<lambda>(buffer, h1).
        if b_buf buffer = None then Inr (None, h1)
        else bindE (MsgBuffer_dyn (cfg e) buffer 8 1 (mem_hdrs e) (mem_bytes e)) (\<lambda>m. Inr (Some m, h1)))) (\<lambda>(m, h).
      case m of None \<Rightarrow> Inl RuntimeError | Some mb \<Rightarrow> Inr (s\<lparr>huge_al := h, mbufs := (mbufs s)(CtrlBuf i := mb)\<rparr>))"
    unfolding alloc_ctrl_msgbuf_def alloc_msg_buffer_def np r0 hs Let_def by simp
  show ?thesis
  proof (cases "alloc 0 (reg_mr e) ?sz h")
    case (Inl er)
    then show ?thesis using al eq by simp
  next
    case (Inr y)
    then obtain b h' where y: "alloc 0 (reg_mr e) ?sz h = Inr (b, h')" by (cases y) auto
    show ?thesis
    proof (cases "b_buf b = None")
      case True
      then show ?thesis using y eq by (simp add: os_error_def)
    next
      case False
      have post: "alloc_post ?sz h (b, h')" using al y by simp
      have inv': "ha_inv h'" using post by (simp add: alloc_post_def)
      obtain c where "class_for ?sz c" "class_size b = class_max_size c" using post False by (auto simp: alloc_post_def)
      then have b64: "class_size b = 64" using class_for_least [OF _ sz(2)] class_max_size_0 by metis
      obtain new where new: "free_foot h' + foot b = free_foot h + new" "shm_foot h + new \<subseteq># shm_foot h'"
        using post False by (auto simp: alloc_post_def)
      obtain mb where mb: "MsgBuffer_dyn (cfg e) b 8 1 (mem_hdrs e) (mem_bytes e) = Inr mb" "mb_buffer mb = b" "max_data_size mb = 8" "num_pkts mb = 1"
        using False b64 sz by (simp add: MsgBuffer_dyn_def)
      let ?m = "m(CtrlBuf i := mb)"
      have cf: "ctrl_foot ?m (Suc i) = ctrl_foot m i + foot b" by (auto simp: ctrl_foot_def mb(2) intro!: arg_cong [where f = sum_list])
      have "size (free_foot h') + 64 = size (free_foot h) + size new"
        using new(1) size_foot_Some [OF False] b64 by (metis size_union)
      then have prev': "prev_allocation_size h' \<le> 2 ^ 24 \<and> 2 ^ 23 \<le> size (free_foot h') + 64 * Suc i"
        using alloc_small_prev [OF s(2) sz room y False] prev i by (auto split: if_splits)
      have "os_ok h' \<longrightarrow> tw_inv (cfg e) (free_foot h' + (u + ctrl_foot ?m (Suc i))) ch (tw s0, h')"
        using tw_inv_moves [OF _ new, of "cfg e" "u + ctrl_foot m i" ch "tw s0"] acc os_ok_mono [of h' h] subset_mset.order_trans [OF _ new(2), of "shm_foot h"]
        unfolding cf by (simp add: add.assoc)
      moreover have "\<forall>j < Suc i. ctrl_ok (?m (CtrlBuf j))"
        using old mb(2-4) b64 False by (auto simp: less_Suc_eq ctrl_ok_def is_dynamic_def)
      ultimately have "ctrl_inv (cfg e) u ch s0 (Suc i) (s\<lparr>huge_al := h', mbufs := (mbufs s)(CtrlBuf i := mb)\<rparr>)"
        unfolding ctrl_inv_def using inv' prev' by (intro exI [of _ h'] exI [of _ ?m]) (simp add: s(1))
      then show ?thesis using y eq False mb(1) by simp
    qed
  qed
qed

subsection \<open>Catching up\<close>

text \<open>Reaping has no assertion: without any invariant it can only run for ever.\<close>

lemma reap_chain_error: "reap_chain fuel i b w = Inl er \<Longrightarrow> er = NoReturn"
proof (induction fuel arbitrary: b w)
  case (Suc fuel)
  from Suc.prems show ?case by (auto simp: reap_chain.simps [of "Suc fuel"] Let_def dest: Suc.IH split: option.splits)
qed (auto simp: reap_chain.simps [of 0] split: option.splits)

lemma reap_loop_error: "reap_loop fuel cf t w = Inl er \<Longrightarrow> er = NoReturn"
proof (induction fuel arbitrary: w)
  case (Suc fuel)
  show ?case
  proof (cases "reap_wslot (cur_wslot w) w")
    case (Inl er')
    then have "er' = NoReturn"
      unfolding reap_wslot_def by (cases "reap_chain (2 ^ 64) (cur_wslot w) (Some (wslot_addr w (cur_wslot w))) w") (auto dest: reap_chain_error)
    then show ?thesis using Suc.prems Inl by (auto simp: reap_loop.simps [of "Suc fuel"] split: if_splits)
  next
    case (Inr w1)
    then show ?thesis using Suc.prems by (auto simp: reap_loop.simps [of "Suc fuel"] Let_def dest: Suc.IH split: if_splits)
  qed
qed (auto simp: reap_loop.simps [of 0] split: if_splits)

lemma catchup_error: "catchup cf clk w = Inl er \<Longrightarrow> er = NoReturn"
proof (induction cf clk w rule: catchup.induct)
  case (1 cf t clk w)
  show ?case
  proof (cases clk)
    case Nil
    then show ?thesis using "1.prems" by (auto split: if_splits)
  next
    case (Cons t2 clk2)
    show ?thesis
    proof (cases "reap cf t2 w")
      case (Inl er')
      then show ?thesis using "1.prems" Cons reap_loop_error [of "t2 + 1" cf t2 w] by (auto simp: reap_def split: if_splits)
    next
      case (Inr w1)
      then show ?thesis using "1.prems" Cons "1.IH" [OF _ Cons] by (auto split: if_splits)
    qed
  qed
qed auto

lemma catchup_ok:
  assumes "catchup cf clk w = Inr w'" "tw_inv cf u ch (w, h)"
  shows "\<exists>ch'. tw_inv cf u ch' (w', h)"
  using assms
proof (induction cf clk w arbitrary: ch rule: catchup.induct)
  case (1 cf t clk w)
  show ?case
  proof (cases "tx_tsc (bkts w (wslot_addr w (cur_wslot w))) < t")
    case True
    then obtain t2 clk2 w1 where c: "clk = t2 # clk2" "reap cf t2 w = Inr w1" "catchup cf clk2 w1 = Inr w'"
      using "1.prems"(1) by (auto simp: bindE_eq_Inr split: list.splits)
    obtain ch1 where "tw_inv cf u ch1 (w1, h)" using reap_ok [OF "1.prems"(2), of t2] c(2) by auto
    then show ?thesis using "1.IH" [OF True c] by blast
  next
    case False
    then show ?thesis using "1.prems" by auto
  qed
qed auto

lemma timing_wheel_init_error:
  assumes "kMTU cf \<le> 2 ^ 32" "timing_wheel_init cf freq reg mem base h = Inl er"
  shows "os_error er"
proof -
  have nw: "kWheelNumWslots cf * 64 \<le> 2 ^ 63" using kWheelNumWslots_le [of cf] assms(1) by simp
  show ?thesis using assms(2) alloc_raw_ok [OF nw, of h reg RegFalse]
    by (cases "alloc_raw reg (kWheelNumWslots cf * 64) RegFalse h") (auto simp: timing_wheel_init_def os_error_def split: option.splits)
qed

subsection \<open>Installing the hook\<close>

lemma valid_rpc_id: "(rpc_id :: u8) \<noteq> kInvalidRpcId \<Longrightarrow> unat rpc_id < kMaxRpcId + 1"
proof -
  assume "rpc_id \<noteq> kInvalidRpcId"
  then have "unat rpc_id \<noteq> 255" by (auto simp: word_unat_eq_iff)
  moreover have "unat rpc_id < 256" using unsigned_less [of rpc_id] by simp
  ultimately show ?thesis by simp
qed

lemma register_hook_ok:
  assumes inv: "nexus_inv n" and id: "unat rpc_id < kMaxRpcId + 1" and none: "nx_reg_hooks_arr n ! unat rpc_id = None"
    and new: "Some h \<notin> set (nx_reg_hooks_arr n)"
  shows "holds (\<lambda>n'. nexus_inv n' \<and> nx_reg_hooks_arr n' = (nx_reg_hooks_arr n)[unat rpc_id := Some h])
    (register_hook h (n\<lparr>nx_hooks := (nx_hooks n)(h := Hook_init rpc_id)\<rparr>))"
proof -
  let ?n = "n\<lparr>nx_hooks := (nx_hooks n)(h := Hook_init rpc_id)\<rparr>"
  let ?n1 = "?n\<lparr>nx_registration_allowed := False, nx_reg_hooks_arr := (nx_reg_hooks_arr n)[unat rpc_id := Some h]\<rparr>"
  have bg: "nx_num_bg_threads n \<le> kMaxBgThreads" and len: "length (nx_reg_hooks_arr n) = kMaxRpcId + 1"
    using inv by (auto simp: nexus_inv_def)
  have "holds (\<lambda>m. length (hk_bg_req_queue_arr (nx_hooks m h)) = kMaxBgThreads)
     (forE (nx_num_bg_threads n) (\<lambda>i n2. rangeE (i < length (hk_bg_req_queue_arr (nx_hooks n2 h)))
              (Inr (n2\<lparr>nx_hooks := (nx_hooks n2)(h := (nx_hooks n2 h)\<lparr>hk_bg_req_queue_arr := (hk_bg_req_queue_arr (nx_hooks n2 h))[i := Some i]\<rparr>)\<rparr>))) ?n1)"
    by (rule holds_forE [where P = "\<lambda>_ m. length (hk_bg_req_queue_arr (nx_hooks m h)) = kMaxBgThreads"])
      (use bg in \<open>auto simp: Hook_init_def\<close>)
  then obtain n' where n': "register_hook h ?n = Inr n'"
    using id none len unfolding holds_iff by (auto simp: register_hook_def Hook_init_def Let_def)
  have "nexus_inv n'" using nstep_inv [OF nstep.hook [OF new n'] inv] .
  moreover have "nx_reg_hooks_arr n' = (nx_reg_hooks_arr n)[unat rpc_id := Some h]"
    using register_hook_new(3) [OF n' bg] by auto
  ultimately show ?thesis using n' by simp
qed

subsection \<open>What the constructor relies on of the transport\<close>

text \<open>
  The state the constructor leaves. \<open>u\<close> is the memory of the transport; the tail of the predicate says that this memory, the
  wheel's buckets, the free buffers and the control buffers lie in the system's regions and share no byte, if the
  regions do not overlap.
\<close>

definition rpc_ready :: "nat multiset \<Rightarrow> env \<Rightarrow> rpc \<Rightarrow> bool" where
  "rpc_ready u e s \<longleftrightarrow> session_vec s = [] \<and> ring_entries_available s = kNumRxRingEntries \<and> in_dispatch e s \<and> stallq s = [] \<and>
     anext s RootSentinel = TailSentinel \<and> aprev s TailSentinel = RootSentinel \<and> length (bg_req_queue_arr s) = num_bg_threads e \<and>
     (\<forall>j < 2 * kUnsigBatch (cfg e). ctrl_ok (mbufs s (CtrlBuf j))) \<and>
     (os_ok (huge_al s) \<longrightarrow> (\<exists>ch. tw_inv (cfg e) (free_foot (huge_al s) + (u + ctrl_foot (mbufs s) (2 * kUnsigBatch (cfg e)))) ch (tw s, huge_al s)))"

definition created :: "rpc_ctor \<Rightarrow> nexus \<Rightarrow> env \<times> rpc \<times> nexus \<Rightarrow> bool" where
  "created c n = (\<lambda>(e, s, n'). nexus_inv n' \<and> nx_reg_hooks_arr n' = (nx_reg_hooks_arr n)[unat (ct_rpc_id c) := Some (ct_hook c)] \<and>
     (\<exists>h1 ring. ct_init c (huge_alloc_init kInitialHugeAllocSize (ct_script c)) = Inr (h1, ring) \<and> rpc_ready (shm_foot h1) e s))"

lemma Rpc_late_ready:
  assumes P: "ctrl_inv (cfg e) u ch s0 (2 * kUnsigBatch (cfg e)) s"
    and s0: "session_vec s0 = []" "ring_entries_available s0 = kNumRxRingEntries" "in_dispatch e s0" "stallq s0 = []"
  shows "os_holds (rpc_ready u e) (Rpc_late c e s)"
proof -
  obtain h m where s: "s = s0\<lparr>huge_al := h, mbufs := m\<rparr>" and old: "\<forall>j < 2 * kUnsigBatch (cfg e). ctrl_ok (m (CtrlBuf j))"
    and acc: "os_ok h \<longrightarrow> tw_inv (cfg e) (free_foot h + (u + ctrl_foot m (2 * kUnsigBatch (cfg e)))) ch (tw s0, h)"
    using P by (auto simp: ctrl_inv_def)
  show ?thesis
  proof (cases "Rpc_late c e s")
    case (Inl er)
    then have "er = NoReturn"
      by (auto simp: Rpc_late_def rdtsc_def Let_def bindE_eq_Inl dest: catchup_error)
    then show ?thesis using Inl by (simp add: os_error_def)
  next
    case (Inr t)
    then obtain clk w where w: "catchup (cfg e) clk (tw s0) = Inr w" and t: "huge_al t = h" "mbufs t = m" "tw t = w"
        "session_vec t = []" "ring_entries_available t = kNumRxRingEntries" "in_dispatch e t" "stallq t = []"
        "anext t RootSentinel = TailSentinel" "aprev t TailSentinel = RootSentinel" "length (bg_req_queue_arr t) = num_bg_threads e"
      using s0 by (auto simp: Rpc_late_def rdtsc_def Let_def bindE_eq_Inr s in_dispatch_def)
    then show ?thesis using Inr old acc catchup_ok [OF w] by (auto simp: rpc_ready_def)
  qed
qed

text \<open>Arguments that pass the checks, and the state in which the work on the members begins.\<close>

definition valid_args :: "rpc_ctor \<Rightarrow> nexus \<Rightarrow> bool" where
  "valid_args c n \<longleftrightarrow> ct_rpc_id c \<noteq> kInvalidRpcId \<and> nx_reg_hooks_arr n ! unat (ct_rpc_id c) = None \<and> unat (ct_phy_port c) < maxPhyPorts \<and>
    nx_numa_node n < kMaxNumaNodes \<and> ct_trace_ok c \<and> ct_transport c = Inr ()"

definition build_start :: "rpc_ctor \<Rightarrow> env \<Rightarrow> nexus \<Rightarrow> env \<Rightarrow> nexus \<Rightarrow> rpc \<Rightarrow> bool" where
  "build_start c e n e1 n1 s1 \<longleftrightarrow> nexus_inv n1 \<and> nx_reg_hooks_arr n1 = nx_reg_hooks_arr n \<and> cfg e1 = cfg e \<and> bsrl_r0 e1 = bsrl_r0 e \<and> tsc e1 = tsc e \<and>
    freq_ghz e1 = nx_freq_ghz n \<and> session_vec s1 = [] \<and> ring_entries_available s1 = kNumRxRingEntries \<and> in_dispatch e1 s1 \<and> stallq s1 = [] \<and>
    tsc_i s1 = tsc_i (ct_raw c) + 1"

lemma Rpc_init_build:
  assumes n: "nexus_inv n" and t: "\<not> tls_initialized (nx_tls n) (ct_thread c)" and valid: "valid_args c n"
  shows "\<exists>e1 n1 s1. Rpc_init c e n = Rpc_build c e1 n1 s1 \<and> build_start c e n e1 n1 s1"
proof -
  have id: "unat (ct_rpc_id c) < kMaxRpcId + 1" using valid valid_rpc_id by (auto simp: valid_args_def)
  obtain tls where tls: "tls_init (ct_thread c) (nx_tls n) = Inr tls" using t by (simp add: tls_init_def)
  then have reg: "tls_initialized tls (ct_thread c)" by (auto simp: tls_init_def assertE_eq_Inr)
  let ?n = "n\<lparr>nx_tls := tls\<rparr>" and ?e = "Rpc_env n (tls_etid tls (ct_thread c)) (ct_rpc_id c) e"
  have inv: "nexus_inv ?n" using nstep_inv [OF nstep.thread [OF tls] n] .
  have "Rpc_init c e n = Rpc_build c ?e ?n (snd (rdtsc ?e (Rpc_members ?e c)))"
    using valid id n tls reg by (simp add: valid_args_def Rpc_init_def rt_assert_def rpc_id_exists_def get_etid_def nexus_inv_def Let_def)
  moreover have "build_start c e n ?e ?n (snd (rdtsc ?e (Rpc_members ?e c)))"
    using inv by (simp add: build_start_def Rpc_env_def Rpc_members_def rdtsc_def in_dispatch_def)
  ultimately show ?thesis by blast
qed

text \<open>
  A transport takes its memory from the new allocator as whole regions, with \<open>alloc_raw\<close>, and leaves the free lists and the
  size of the next reservation alone.
\<close>

locale transport_memory =
  fixes tr_init :: "huge_alloc \<Rightarrow> (huge_alloc \<times> nat list) res"
  assumes takes_regions: "tr_init h = Inr (h', ring) \<Longrightarrow> freelist h' = freelist h \<and> prev_allocation_size h' = prev_allocation_size h \<and>
    (\<exists>rs. shm_list h' = shm_list h @ rs)"
begin

lemma allocator_ready:
  assumes "tr_init (huge_alloc_init kInitialHugeAllocSize script) = Inr (h', ring)"
  shows "ha_inv h'" "free_foot h' = {#}" "prev_allocation_size h' = 2 ^ 23"
proof -
  note r = takes_regions [OF assms]
  then show i: "ha_inv h'" and "prev_allocation_size h' = 2 ^ 23" by (auto simp: huge_alloc_init_def ha_inv_def)
  show "free_foot h' = {#}" by (rule free_foot_empty [OF i]) (use r in \<open>simp add: huge_alloc_init_def\<close>)
qed

text \<open>The regions of the transport, the wheel and the control buffers after the loop over the control buffers.\<close>

lemma ctrl_inv_start:
  assumes h1: "tr_init (huge_alloc_init kInitialHugeAllocSize script) = Inr (h1, ring)"
    and w: "timing_wheel_init (cfg e) (freq_ghz e) (reg_mr e) mem base h1 = Inr (w, h2)" and mtu: "kMTU (cfg e) \<le> 2 ^ 32"
    and mem: "\<And>a. length (entry (mem a)) = kWheelBucketCap" and freq: "0 < us_to_cycles kWheelSlotWidthUs (freq_ghz e)"
  shows "ctrl_inv (cfg e) (shm_foot h1) (\<lambda>i. [wslot_addr w i]) (s\<lparr>huge_al := h2, tw := w\<rparr>) 0 (s\<lparr>huge_al := h2, tw := w\<rparr>)"
proof -
  let ?s = "s\<lparr>huge_al := h2, tw := w\<rparr>"
  note a = allocator_ready [OF h1]
  have n: "kWheelNumWslots (cfg e) * 64 \<le> 2 ^ 63" using kWheelNumWslots_le [of "cfg e"] mtu by simp
  obtain b where b: "alloc_raw (reg_mr e) (kWheelNumWslots (cfg e) * 64) RegFalse h1 = Inr (b, h2)"
    using w by (auto simp: timing_wheel_init_def bindE_eq_Inr split: option.splits)
  then have f: "freelist h2 = freelist h1" "prev_allocation_size h2 = prev_allocation_size h1"
    using alloc_raw_ok [OF n, of h1 "reg_mr e" RegFalse] by auto
  have ha: "ha_inv h2" using a(1) f by (simp add: ha_inv_def)
  have ff: "free_foot h2 = {#}" using free_foot_cong [OF f(1)] a(2) by simp
  have "os_ok h2 \<Longrightarrow> tw_inv (cfg e) (shm_foot h1) (\<lambda>i. [wslot_addr w i]) (w, h2)"
    using timing_wheel_init_ok(1) [OF mem mtu freq _ w] by simp
  then have "ctrl_inv (cfg e) (shm_foot h1) (\<lambda>i. [wslot_addr w i]) ?s 0 (?s\<lparr>huge_al := h2, mbufs := mbufs s\<rparr>)"
    unfolding ctrl_inv_def using ha f a(3) by (intro exI [of _ h2] exI [of _ "mbufs s"]) (simp add: ctrl_foot_def ff)
  moreover have "?s\<lparr>huge_al := h2, mbufs := mbufs s\<rparr> = ?s" by (cases s) simp
  ultimately show ?thesis by (simp only:)
qed

lemma buffers_ready:
  assumes h1: "tr_init (huge_alloc_init kInitialHugeAllocSize script) = Inr (h1, ring)"
    and w: "timing_wheel_init (cfg e) (freq_ghz e) (reg_mr e) mem base h1 = Inr (w, h2)"
    and cfg: "cfg_ok (cfg e)" "bsrl_r0 e = 0" "kUnsigBatch (cfg e) \<le> 65536" and mtu: "kMTU (cfg e) \<le> 2 ^ 32"
    and mem: "\<And>a. length (entry (mem a)) = kWheelBucketCap" and freq: "0 < us_to_cycles kWheelSlotWidthUs (freq_ghz e)"
  shows "os_holds (ctrl_inv (cfg e) (shm_foot h1) (\<lambda>i. [wslot_addr w i]) (s\<lparr>huge_al := h2, tw := w\<rparr>) (2 * kUnsigBatch (cfg e)))
    (forE (2 * kUnsigBatch (cfg e)) (alloc_ctrl_msgbuf e) (s\<lparr>huge_al := h2, tw := w\<rparr>))"
proof (rule os_holds_forE)
  show "ctrl_inv (cfg e) (shm_foot h1) (\<lambda>i. [wslot_addr w i]) (s\<lparr>huge_al := h2, tw := w\<rparr>) 0 (s\<lparr>huge_al := h2, tw := w\<rparr>)"
    by (rule ctrl_inv_start [OF h1 w mtu mem freq])
qed (use cfg in \<open>intro alloc_ctrl_ok; simp\<close>)

lemma Rpc_build_ok:
  assumes tr: "ct_init c = tr_init" and cfg: "cfg_ok (cfg e)" "bsrl_r0 e = 0" "kUnsigBatch (cfg e) \<le> 65536" "kMTU (cfg e) \<le> 2 ^ 32"
    and mem: "\<And>a. length (entry (ct_wheel_mem c a)) = kWheelBucketCap" and freq: "0 < us_to_cycles kWheelSlotWidthUs (freq_ghz e)"
    and s0: "session_vec s0 = []" "ring_entries_available s0 = kNumRxRingEntries" "in_dispatch e s0" "stallq s0 = []"
    and n: "nexus_inv n" "unat (ct_rpc_id c) < kMaxRpcId + 1" "nx_reg_hooks_arr n ! unat (ct_rpc_id c) = None" "Some (ct_hook c) \<notin> set (nx_reg_hooks_arr n)"
  shows "case Rpc_build c e n s0 of Inl er \<Rightarrow> os_error er \<or> (\<exists>h. tr_init h = Inl er) | Inr x \<Rightarrow> created c n x"
proof (cases "tr_init (huge_alloc_init kInitialHugeAllocSize (ct_script c))")
  case (Inl er)
  then show ?thesis by (auto simp: Rpc_build_def tr)
next
  case (Inr x)
  then obtain h1 ring where h1: "tr_init (huge_alloc_init kInitialHugeAllocSize (ct_script c)) = Inr (h1, ring)" by (cases x) auto
  let ?e = "e\<lparr>rx_ring_addr := (\<lambda>i. ring ! i)\<rparr>" and ?n = "n\<lparr>nx_hooks := (nx_hooks n)(ct_hook c := Hook_init (ct_rpc_id c))\<rparr>"
  let ?base = "fst (rdtsc ?e s0)" and ?s1 = "snd (rdtsc ?e s0)"
  have b: "Rpc_build c e n s0 = bindE (timing_wheel_init (cfg ?e) (freq_ghz ?e) (reg_mr ?e) (ct_wheel_mem c) ?base h1) (\<lambda>(w, h2).
        bindE (forE (2 * kUnsigBatch (cfg ?e)) (alloc_ctrl_msgbuf ?e) (?s1\<lparr>huge_al := h2, tw := w\<rparr>)) (\<lambda>s2.
        bindE (register_hook (ct_hook c) ?n) (\<lambda>n2. bindE (Rpc_late c ?e s2) (\<lambda>s3. Inr (?e, s3, n2)))))"
    by (simp add: Rpc_build_def tr h1 Let_def split_def)
  obtain n2 where n2: "register_hook (ct_hook c) ?n = Inr n2" "nexus_inv n2" "nx_reg_hooks_arr n2 = (nx_reg_hooks_arr n)[unat (ct_rpc_id c) := Some (ct_hook c)]"
    using register_hook_ok [OF n] unfolding holds_iff by blast
  have "os_holds (created c n) (Rpc_build c e n s0)"
    unfolding b
  proof (rule os_holds_bind [where P = "\<lambda>(w, h2). timing_wheel_init (cfg ?e) (freq_ghz ?e) (reg_mr ?e) (ct_wheel_mem c) ?base h1 = Inr (w, h2)"], goal_cases)
    case 1
    show ?case using timing_wheel_init_error [OF cfg(4), of "freq_ghz e" "reg_mr e" "ct_wheel_mem c" ?base h1]
      by (cases "timing_wheel_init (cfg ?e) (freq_ghz ?e) (reg_mr ?e) (ct_wheel_mem c) ?base h1") auto
  next
    case (2 x)
    then obtain w h2 where w: "x = (w, h2)" "timing_wheel_init (cfg ?e) (freq_ghz ?e) (reg_mr ?e) (ct_wheel_mem c) ?base h1 = Inr (w, h2)" by (cases x) auto
    let ?s2 = "?s1\<lparr>huge_al := h2, tw := w\<rparr>"
    have bufs: "os_holds (ctrl_inv (cfg ?e) (shm_foot h1) (\<lambda>i. [wslot_addr w i]) ?s2 (2 * kUnsigBatch (cfg ?e)))
        (forE (2 * kUnsigBatch (cfg ?e)) (alloc_ctrl_msgbuf ?e) ?s2)"
      by (rule buffers_ready [OF h1 w(2)]) (use cfg mem freq in simp_all)
    have "os_holds (created c n) (bindE (Rpc_late c ?e s2) (\<lambda>s3. Inr (?e, s3, n2)))"
      if "ctrl_inv (cfg ?e) (shm_foot h1) (\<lambda>i. [wslot_addr w i]) ?s2 (2 * kUnsigBatch (cfg ?e)) s2" for s2
    proof (rule os_holds_bind [OF Rpc_late_ready [OF that]])
      show "os_holds (created c n) (Inr (?e, s3, n2))" if "rpc_ready (shm_foot h1) ?e s3" for s3
        using that n2 h1 by (auto simp: created_def tr)
    qed (use s0 in \<open>simp_all add: rdtsc_def in_dispatch_def\<close>)
    then show ?case unfolding w(1) prod.case n2(1) bindE_simps by (rule os_holds_bind [OF bufs])
  qed
  then show ?thesis by (auto simp: os_holds_def split: sum.splits)
qed

lemma Rpc_init_ok:
  assumes tr: "ct_init c = tr_init" and cfg: "cfg_ok (cfg e)" "bsrl_r0 e = 0" "kUnsigBatch (cfg e) \<le> 65536" "kMTU (cfg e) \<le> 2 ^ 32"
    and mem: "\<And>a. length (entry (ct_wheel_mem c a)) = kWheelBucketCap" and freq: "0 < us_to_cycles kWheelSlotWidthUs (nx_freq_ghz n)"
    and n: "nexus_inv n" "Some (ct_hook c) \<notin> set (nx_reg_hooks_arr n)" and t: "\<not> tls_initialized (nx_tls n) (ct_thread c)"
  shows "case Rpc_init c e n of Inl er \<Rightarrow> os_error er \<or> ct_transport c = Inl er \<or> (\<exists>h. tr_init h = Inl er) | Inr x \<Rightarrow> created c n x"
proof (cases "valid_args c n")
  case True
  obtain e1 n1 s1 where eq: "Rpc_init c e n = Rpc_build c e1 n1 s1" and st: "build_start c e n e1 n1 s1" using Rpc_init_build [OF n(1) t True] by blast
  have "case Rpc_build c e1 n1 s1 of Inl er \<Rightarrow> os_error er \<or> (\<exists>h. tr_init h = Inl er) | Inr x \<Rightarrow> created c n1 x"
    by (rule Rpc_build_ok [OF tr]) (use cfg mem freq n st True valid_rpc_id in \<open>simp_all add: build_start_def valid_args_def\<close>)
  then show ?thesis using st unfolding eq by (auto simp: created_def build_start_def split: sum.splits)
next
  case False
  have "Rpc_init c e n = Inl RuntimeError \<or> (\<exists>er. Rpc_init c e n = Inl er \<and> ct_transport c = Inl er)"
    using False valid_rpc_id [of "ct_rpc_id c"] n(1) t by (cases "ct_transport c")
      (auto simp: valid_args_def Rpc_init_def rt_assert_def rpc_id_exists_def tls_init_def get_etid_def nexus_inv_def Let_def)
  then show ?thesis by (auto simp: os_error_def)
qed

end

subsection \<open>The transports that provide it\<close>

text \<open>\<open>IBTransport::init_hugepage_structures\<close> with the allocation of its ring; the fake transport has nothing to do.\<close>

definition ib_tr_init :: "(nat \<Rightarrow> nat \<Rightarrow> u32) \<Rightarrow> nat \<Rightarrow> ib_transport \<Rightarrow> nat list \<Rightarrow> huge_alloc \<Rightarrow> (huge_alloc \<times> nat list) res" where
  "ib_tr_init reg ret t rx_ring h = bindE (alloc_raw reg (kNumRxRingEntries * kRecvSize) RegTrue h) (\<lambda>(ring_extent, h1).
    bindE (init_hugepage_structures ring_extent ret t rx_ring) (\<lambda>(t1, ring). Inr (h1, ring)))"

definition fake_tr_init :: "nat list \<Rightarrow> huge_alloc \<Rightarrow> (huge_alloc \<times> nat list) res" where
  "fake_tr_init rx_ring h = Inr (h, rx_ring)"

lemma ib_ring_small: "kNumRxRingEntries * kRecvSize \<le> 2 ^ 63"
  by (simp add: kRecvSize_def ib_cfg_def)

interpretation ib_tr: transport_memory "ib_tr_init reg ret t rx_ring" for reg ret t rx_ring
proof (unfold_locales, goal_cases)
  case (1 h h' ring)
  then obtain b where "alloc_raw reg (kNumRxRingEntries * kRecvSize) RegTrue h = Inr (b, h')"
    by (auto simp: ib_tr_init_def bindE_eq_Inr)
  then show ?case using alloc_raw_ok [OF ib_ring_small, of h reg RegTrue] by (auto split: option.splits)
qed

interpretation fake_tr: transport_memory "fake_tr_init rx_ring" for rx_ring
  by unfold_locales (simp add: fake_tr_init_def)

lemma ib_tr_init_error:
  assumes "fresh_transport t" "length rx_ring = kRQDepth" "ib_tr_init reg ret t rx_ring h = Inl er"
  shows "os_error er"
proof (cases "alloc_raw reg (kNumRxRingEntries * kRecvSize) RegTrue h")
  case (Inl er')
  then show ?thesis using assms(3) alloc_raw_ok [OF ib_ring_small, of h reg RegTrue] by (simp add: ib_tr_init_def)
next
  case (Inr x)
  then obtain b h1 where x: "alloc_raw reg (kNumRxRingEntries * kRecvSize) RegTrue h = Inr (b, h1)" by (cases x) auto
  then have er: "init_hugepage_structures b ret t rx_ring = Inl er" using assms(3) by (auto simp: ib_tr_init_def bindE_eq_Inl)
  have "er = RuntimeError"
  proof (cases "b_buf b")
    case None
    then show ?thesis using er by (simp add: init_hugepage_structures_def init_recvs_def)
  next
    case (Some buf)
    obtain t' ring where ok: "init_hugepage_structures b 0 t rx_ring = Inr (t', ring)" using init_hugepage_structures_ok [OF Some assms(1,2)] by blast
    then have "ret \<noteq> 0" using er by (cases "ret = 0") auto
    then show ?thesis using ok er Some
      by (auto simp: init_hugepage_structures_def init_recvs_def ibv_post_recv_def bindE_eq_Inr bindE_eq_Inl)
  qed
  then show ?thesis by (simp add: os_error_def)
qed

lemma ctrl_foot_split:
  assumes "i < j" "j < k"
  shows "foot (mb_buffer (m (CtrlBuf i))) + foot (mb_buffer (m (CtrlBuf j))) \<subseteq># ctrl_foot m k"
proof -
  have "[0..<k] = [0..<i] @ i # [Suc i..<j] @ j # [Suc j..<k]"
    using assms upt_add_eq_append [of 0 i "k - i"] upt_add_eq_append [of "Suc i" j "k - j"] by (simp add: upt_conv_Cons)
  then show ?thesis by (simp add: ctrl_foot_def)
qed

lemma ready_disjoint:
  assumes "rpc_ready u e s" "os_ok (huge_al s)" "i < j" "j < 2 * kUnsigBatch (cfg e)"
  shows "set_mset (foot (mb_buffer (mbufs s (CtrlBuf i)))) \<inter> set_mset (foot (mb_buffer (mbufs s (CtrlBuf j)))) = {}"
proof -
  let ?k = "2 * kUnsigBatch (cfg e)" and ?f = "\<lambda>i. foot (mb_buffer (mbufs s (CtrlBuf i)))"
  obtain ch where "tw_inv (cfg e) (free_foot (huge_al s) + (u + ctrl_foot (mbufs s) ?k)) ch (tw s, huge_al s)"
    using assms(1,2) by (auto simp: rpc_ready_def)
  note tw_invD(7) [OF this]
  then have "ctrl_foot (mbufs s) ?k + (objs_foot 64 (mp_pool (bkt_pool (tw s))) + (free_foot (huge_al s) + u + objs_foot 64 (all_bkts (cfg e) ch)))
      \<subseteq># shm_foot (huge_al s)" by (simp add: mp_acc_def ac_simps)
  then have "ctrl_foot (mbufs s) ?k \<subseteq># shm_foot (huge_al s)" by (rule subset_mset.order_trans [OF mset_subset_eq_add_left])
  then have "?f i + ?f j \<subseteq># shm_foot (huge_al s)" using ctrl_foot_split [OF assms(3,4)] by (rule subset_mset.order_trans [rotated])
  then have "count (?f i) x + count (?f j) x \<le> 1" for x
    using assms(2) mset_subset_eq_count [of "?f i + ?f j" "shm_foot (huge_al s)" x] unfolding os_ok_def count_union by (meson order_trans)
  note once = this
  have "\<not> (1 \<le> count (?f i) x \<and> 1 \<le> count (?f j) x)" for x using once [of x] by linarith
  then show ?thesis by (auto simp: count_greater_eq_one_iff)
qed

subsection \<open>The constructor returns\<close>

lemma alloc_raw_returns:
  assumes "os_script h = ShmOk k a True # rest" "a \<noteq> 0" "sz \<le> 2 ^ 63"
  shows "\<exists>b h'. alloc_raw reg sz dr h = Inr (b, h') \<and> b_buf b = Some a \<and> os_script h' = rest"
  using assms huge_round_up [OF assms(3)] by (simp add: alloc_raw_def Let_def)

lemma reserve_returns:
  assumes "os_script h = ShmOk k a True # rest" "a \<noteq> 0" "k_max_class_size \<le> sz" "sz \<le> 2 ^ 63"
  shows "\<exists>h'. reserve_hugepages reg sz h = Inr (True, h')"
proof -
  obtain b h' where b: "alloc_raw reg sz RegTrue h = Inr (b, h')" "b_buf b = Some a"
    using alloc_raw_returns [OF assms(1,2,4)] by blast
  have "1 \<le> sz div k_max_class_size" using assms(3) by (simp add: Suc_le_eq div_greater_zero_iff)
  then show ?thesis using b assms(3) by (simp add: reserve_hugepages_def)
qed

lemma alloc_small_returns:
  assumes inv: "ha_inv h" and sz: "1 \<le> sz" "sz \<le> 64" and room: "prev_allocation_size h \<le> 2 ^ 62"
    and os: "free_foot h = {#} \<Longrightarrow> os_script h = ShmOk k a True # rest \<and> a \<noteq> 0"
  shows "\<exists>b h'. alloc 0 reg sz h = Inr (b, h') \<and> b_buf b \<noteq> None"
proof -
  obtain c where c: "get_class 0 sz = Inr c" "class_for sz c" using get_class_class_for [of sz 0] sz by auto
  have c0: "c = 0" by (rule class_for_least [OF c(2) sz(2)])
  let ?n = "next_class (freelist h) 1"
  have n: "1 \<le> ?n" "?n \<le> k_num_classes" "?n < k_num_classes \<Longrightarrow> freelist h ! ?n \<noteq> []" "\<And>i. 1 \<le> i \<Longrightarrow> i < ?n \<Longrightarrow> freelist h ! i = []"
    using next_class_spec [of 1 "freelist h"] by auto
  consider (hit) "freelist h ! 0 \<noteq> []" | (larger) "freelist h ! 0 = []" "?n < k_num_classes"
    | (reserve) "freelist h ! 0 = []" "?n = k_num_classes" using n(2) by linarith
  then show ?thesis
  proof cases
    case hit
    then show ?thesis using alloc_from_class_ok [OF inv _ hit] c(1) c0 sz by (auto simp: alloc_def elim!: holdsE)
  next
    case larger
    have "\<forall>j. 0 \<le> j \<and> j < ?n \<longrightarrow> freelist h ! j = []" using larger(1) n(4) by (metis less_one not_le)
    then show ?thesis using alloc_split_ok [OF inv c(2) _ larger(2) n(3) [OF larger(2)]] c(1) c0 sz larger
      by (auto simp: alloc_def Let_def elim!: holdsE)
  next
    case reserve
    have emp: "freelist h ! j = []" if "j < k_num_classes" for j using next_class_free [OF reserve(2,1) that] .
    let ?h0 = "h\<lparr>prev_allocation_size := prev_allocation_size h * 2\<rparr>" and ?sz = "prev_allocation_size h * 2"
    have s: "k_max_class_size \<le> ?sz" "?sz \<le> 2 ^ 63" and inv0: "ha_inv ?h0" using inv room by (auto simp: ha_inv_def)
    obtain h1 where h1: "reserve_hugepages reg ?sz ?h0 = Inr (True, h1)"
      using reserve_returns [of ?h0 k a rest ?sz] os free_foot_empty [OF inv emp] s by auto
    have post: "reserve_post ?h0 (True, h1)" using reserve_hugepages_ok [OF inv0 s, of reg] h1 by simp
    then have "ha_inv h1" "freelist h1 ! 17 \<noteq> []" "\<forall>j. 0 \<le> j \<and> j < 17 \<longrightarrow> freelist h1 ! j = []" using emp by (auto simp: reserve_post_def)
    then show ?thesis using alloc_split_ok [OF _ c(2), of h1 17] c(1) c0 sz reserve h1
      by (auto simp: alloc_def Let_def elim!: holdsE)
  qed
qed

text \<open>With the system's answer for the first control buffer, none of them fails.\<close>

definition ctrl_go :: "transport_cfg \<Rightarrow> nat multiset \<Rightarrow> (nat \<Rightarrow> nat list) \<Rightarrow> rpc \<Rightarrow> nat \<Rightarrow> rpc \<Rightarrow> bool" where
  "ctrl_go cf u ch s0 i s \<longleftrightarrow> ctrl_inv cf u ch s0 i s \<and> (i = 0 \<longrightarrow> s = s0)"

lemma alloc_ctrl_go:
  assumes cfg: "cfg_ok (cfg e)" "bsrl_r0 e = 0" and i: "i < 131072" and P: "ctrl_go (cfg e) u ch s0 i s"
    and os: "os_script (huge_al s0) = ShmOk k a True # rest" "a \<noteq> 0"
  shows "holds (ctrl_go (cfg e) u ch s0 (Suc i)) (alloc_ctrl_msgbuf e i s)"
proof -
  let ?sz = "8 + sizeof_pkthdr (cfg e)"
  have sz: "1 \<le> ?sz" "?sz \<le> 64" and np: "data_size_to_num_pkts (cfg e) 8 = 1"
    using cfg_okD [OF cfg(1)] by (auto simp: data_size_to_num_pkts_def)
  have inv: "ctrl_inv (cfg e) u ch s0 i s" and s0: "i = 0 \<Longrightarrow> s = s0" using P by (simp_all add: ctrl_go_def)
  have h: "ha_inv (huge_al s)" "prev_allocation_size (huge_al s) \<le> 2 ^ 62" "0 < i \<Longrightarrow> free_foot (huge_al s) \<noteq> {#}"
    using inv i by (auto simp: ctrl_inv_def)
  have "os_script (huge_al s) = ShmOk k a True # rest \<and> a \<noteq> 0" if "free_foot (huge_al s) = {#}"
    using that h(3) s0 os by (cases "i = 0") auto
  then obtain b h' where b: "alloc 0 (reg_mr e) ?sz (huge_al s) = Inr (b, h')" "b_buf b \<noteq> None"
    using alloc_small_returns [OF h(1) sz h(2)] by blast
  have "\<exists>t. alloc_ctrl_msgbuf e i s = Inr t"
  proof -
    have "alloc_post ?sz (huge_al s) (b, h')" using alloc_ok [OF h(1) sz(1) _ _ h(2), of 0 "reg_mr e"] sz b(1) by simp
    then have "?sz \<le> class_size b" using b(2) by (auto simp: alloc_post_def class_for_def)
    then obtain mb where "MsgBuffer_dyn (cfg e) b 8 1 (mem_hdrs e) (mem_bytes e) = Inr mb" using b(2) by (simp add: MsgBuffer_dyn_def)
    then show ?thesis using b np cfg(2) by (simp add: alloc_ctrl_msgbuf_def alloc_msg_buffer_def Let_def)
  qed
  then show ?thesis using alloc_ctrl_ok [OF cfg i inv] by (auto simp: ctrl_go_def)
qed

text \<open>
  Two rounds of \<open>catchup\<close> are enough when four consecutive readings of the clock fit into one slot of the wheel: after the
  first round the wheel is at most that far behind, and after the second it is ahead of the last reading.
\<close>

lemma reap_ahead:
  assumes inv: "tw_inv cf u ch (w, h)"
  shows "\<exists>ch' w'. reap cf t w = Inr w' \<and> tw_inv cf u ch' (w', h) \<and> wslot_width_tsc w' = wslot_width_tsc w \<and>
     t < slot_tsc w' (cur_wslot w') \<and> (slot_tsc w (cur_wslot w) \<le> t \<longrightarrow> slot_tsc w (cur_wslot w) + wslot_width_tsc w \<le> slot_tsc w' (cur_wslot w'))"
proof -
  let ?d = "wslot_width_tsc w" and ?a = "abs_tw cf ch w"
  obtain ch' w' where w': "reap cf t w = Inr w'" "tw_inv cf u ch' (w', h)" "same_wheel w w'" "abs_tw cf ch' w' = aw_reap ?d t ?a"
    using reap_ok [OF inv, of t] by blast
  have d: "0 < ?d" using tw_invD(1) [OF inv] .
  have s: "slot_tsc w' (cur_wslot w') = slot_tsc w (cur_wslot w) + due ?d t ?a * ?d"
    using arg_cong [OF w'(4), of aw_tsc] by (simp add: aw_reap_def Let_def)
  moreover have "t < slot_tsc w (cur_wslot w) + due ?d t ?a * ?d" using less_due [OF d, of "due ?d t ?a" t ?a] by simp
  moreover have "slot_tsc w (cur_wslot w) + ?d \<le> slot_tsc w (cur_wslot w) + due ?d t ?a * ?d" if "slot_tsc w (cur_wslot w) \<le> t"
    using that by (simp add: due_def)
  ultimately show ?thesis using w' by (auto simp: same_wheel_def)
qed

lemma catchup_returns:
  assumes inv: "tw_inv cf u ch (w, h)" and t: "t3 \<le> t4" "t4 \<le> t5" "t5 \<le> t2 + wslot_width_tsc w"
  shows "\<exists>w'. catchup cf (t1 # t2 # t3 # t4 # t5 # ts) w = Inr w'"
proof -
  obtain ch1 w1 where w1: "reap cf t2 w = Inr w1" "tw_inv cf u ch1 (w1, h)" "wslot_width_tsc w1 = wslot_width_tsc w" "t2 < slot_tsc w1 (cur_wslot w1)"
    using reap_ahead [OF inv, of t2] by blast
  obtain ch2 w2 where w2: "reap cf t4 w1 = Inr w2" "slot_tsc w1 (cur_wslot w1) \<le> t4 \<longrightarrow> slot_tsc w1 (cur_wslot w1) + wslot_width_tsc w1 \<le> slot_tsc w2 (cur_wslot w2)"
    using reap_ahead [OF w1(2), of t4] by blast
  have "\<not> slot_tsc w2 (cur_wslot w2) < t5" if "slot_tsc w1 (cur_wslot w1) < t3" using that w2(2) w1(3,4) t by linarith
  then show ?thesis using w1(1) w2(1) by (simp add: slot_tsc_def)
qed

lemma huge_round_up_le:
  assumes "sz \<le> 2 ^ 23"
  shows "unat (round_up (of_nat kHugepageSize) (of_nat sz :: u64)) \<le> 2 ^ 24"
proof -
  have u: "unat (of_nat sz :: u64) = sz" "unat (of_nat kHugepageSize :: u64) = 2 ^ 21"
    using assms by (simp_all add: unat_of_nat take_bit_eq_mod)
  have "unat (round_up (of_nat kHugepageSize) (of_nat sz :: u64)) = ((sz + 2 ^ 21 - 1) div 2 ^ 21) * 2 ^ 21"
    using unat_round_up [OF u(2), of "of_nat sz"] assms unfolding u by simp
  then show ?thesis using round_up_nat_bounds(2) [of "2 ^ 21" sz] assms by simp
qed

text \<open>The invariant of a new wheel does not depend on the other regions: an allocator with the wheel's region alone has it.\<close>

lemma new_wheel:
  assumes mem: "\<And>a. length (entry (mem a)) = kWheelBucketCap" and mtu: "kMTU cf \<le> 2 ^ 14"
    and freq: "0 < us_to_cycles kWheelSlotWidthUs freq" and os: "os_script h = ShmOk k a True # rest" "a \<noteq> 0" "a + 2 ^ 24 \<le> 2 ^ 48"
  shows "\<exists>w h' h0. timing_wheel_init cf freq reg mem base h = Inr (w, h') \<and> os_script h' = rest \<and>
     tw_inv cf {#} (\<lambda>i. [wslot_addr w i]) (w, h0) \<and> wslot_width_tsc w = us_to_cycles kWheelSlotWidthUs freq"
proof -
  let ?N = "kWheelNumWslots cf"
  have n: "?N * 64 \<le> 2 ^ 63" "?N * 64 \<le> 2 ^ 23" using kWheelNumWslots_le [of cf] mtu by simp_all
  obtain b h' where b: "alloc_raw reg (?N * 64) RegFalse h = Inr (b, h')" "b_buf b = Some a" "os_script h' = rest"
    using alloc_raw_returns [OF os(1,2) n(1)] by blast
  let ?e = "h\<lparr>shm_list := []\<rparr>"
  have al: "\<exists>b0 h0. alloc_raw reg (?N * 64) RegFalse ?e = Inr (b0, h0) \<and> b_buf b0 = Some a \<and>
      shm_list h0 = [\<lparr>sr_key = k, sr_buf = a, sr_size = unat (round_up (of_nat kHugepageSize) (of_nat (?N * 64) :: u64)), sr_registered = False, sr_lkey = 0xffffffff\<rparr>]"
    using os huge_round_up(2) [OF n(1)] by (simp add: alloc_raw_def Let_def)
  let ?sz = "unat (round_up (of_nat kHugepageSize) (of_nat (?N * 64) :: u64))"
  obtain b0 h0 where b0: "alloc_raw reg (?N * 64) RegFalse ?e = Inr (b0, h0)" "b_buf b0 = Some a" and shm: "shm_foot h0 = mset [a..<a + ?sz]"
    using al by (auto simp: shm_foot_def)
  have "?sz \<le> 2 ^ 24" by (rule huge_round_up_le [OF n(2)])
  then have ok: "os_ok h0" unfolding os_ok_def shm using os(3) by (auto simp: count_mset_set')
  obtain w :: "'a timing_wheel" where w: "timing_wheel_init cf freq reg mem base ?e = Inr (w, h0)" "timing_wheel_init cf freq reg mem base h = Inr (w, h')"
    using b b0 by (auto simp: timing_wheel_init_def)
  have "tw_inv cf {#} (\<lambda>i. [wslot_addr w i]) (w, h0)" "wslot_width_tsc w = us_to_cycles kWheelSlotWidthUs freq"
    using timing_wheel_init_ok(1,3) [OF mem _ freq _ w(1) ok, of "{#}"] mtu by simp_all
  then show ?thesis using w(2) b(3) by blast
qed

text \<open>
  What the system and the clock must do for the constructor to return: answer the two further requests for memory, and
  let four readings of the clock pass within one slot of the wheel.
\<close>

definition clock_ok :: "(nat \<Rightarrow> nat) \<Rightarrow> nat \<Rightarrow> nat \<Rightarrow> bool" where
  "clock_ok clk i width \<longleftrightarrow> clk (i + 5) \<le> clk (i + 6) \<and> clk (i + 6) \<le> clk (i + 7) \<and> clk (i + 7) \<le> clk (i + 4) + width"

lemma Rpc_late_returns:
  assumes inv: "tw_inv (cfg e) u ch (tw s, h)" and n: "5 \<le> ct_samples c"
    and clk: "tsc_i s = i + 2" "clock_ok (tsc e) i (wslot_width_tsc (tw s))"
  shows "\<exists>t. Rpc_late c e s = Inr t"
proof -
  let ?k = "tsc_i s + 1"
  have "[?k..<?k + ct_samples c] = ?k # (?k + 1) # (?k + 2) # (?k + 3) # (?k + 4) # [?k + 5..<?k + ct_samples c]"
    using n by (simp add: upt_conv_Cons add.commute [of _ "tsc_i s"] numeral_eq_Suc)
  then have "map (tsc e) [?k..<?k + ct_samples c] = tsc e ?k # tsc e (?k + 1) # tsc e (?k + 2) # tsc e (?k + 3) # tsc e (?k + 4) # map (tsc e) [?k + 5..<?k + ct_samples c]"
    by simp
  moreover have "\<exists>w. catchup (cfg e) (tsc e ?k # tsc e (?k + 1) # tsc e (?k + 2) # tsc e (?k + 3) # tsc e (?k + 4) # map (tsc e) [?k + 5..<?k + ct_samples c]) (tw s) = Inr w"
    by (rule catchup_returns [OF inv]) (use clk in \<open>simp_all add: clock_ok_def numeral_eq_Suc\<close>)
  ultimately show ?thesis by (auto simp: Rpc_late_def rdtsc_def Let_def)
qed

context transport_memory
begin

lemma Rpc_build_returns:
  assumes tr: "ct_init c = tr_init" and h1: "tr_init (huge_alloc_init kInitialHugeAllocSize (ct_script c)) = Inr (h1, ring)"
    and os: "os_script h1 = ShmOk k a True # ShmOk k' a' True # rest" "a \<noteq> 0" "a' \<noteq> 0" "a + 2 ^ 24 \<le> 2 ^ 48"
    and cfg: "cfg_ok (cfg e)" "bsrl_r0 e = 0" "kUnsigBatch (cfg e) \<le> 65536" "kMTU (cfg e) \<le> 2 ^ 14"
    and mem: "\<And>a. length (entry (ct_wheel_mem c a)) = kWheelBucketCap" and freq: "0 < us_to_cycles kWheelSlotWidthUs (freq_ghz e)"
    and n: "nexus_inv n" "unat (ct_rpc_id c) < kMaxRpcId + 1" "nx_reg_hooks_arr n ! unat (ct_rpc_id c) = None" "Some (ct_hook c) \<notin> set (nx_reg_hooks_arr n)"
    and clk: "5 \<le> ct_samples c" "tsc_i s0 = i + 1" "clock_ok (tsc e) i (us_to_cycles kWheelSlotWidthUs (freq_ghz e))"
  shows "\<exists>x. Rpc_build c e n s0 = Inr x"
proof -
  let ?e = "e\<lparr>rx_ring_addr := (\<lambda>i. ring ! i)\<rparr>" and ?n = "n\<lparr>nx_hooks := (nx_hooks n)(ct_hook c := Hook_init (ct_rpc_id c))\<rparr>"
  let ?base = "fst (rdtsc ?e s0)" and ?s1 = "snd (rdtsc ?e s0)"
  obtain n2 where n2: "register_hook (ct_hook c) ?n = Inr n2" using register_hook_ok [OF n] unfolding holds_iff by blast
  obtain w h2 h0 where w: "timing_wheel_init (cfg ?e) (freq_ghz ?e) (reg_mr ?e) (ct_wheel_mem c) ?base h1 = Inr (w, h2)"
      "os_script h2 = ShmOk k' a' True # rest" "tw_inv (cfg e) {#} (\<lambda>i. [wslot_addr w i]) (w, h0)"
      "wslot_width_tsc w = us_to_cycles kWheelSlotWidthUs (freq_ghz e)"
    using new_wheel [of "ct_wheel_mem c", OF mem cfg(4) freq os(1,2,4), where reg = "reg_mr e" and base = ?base] by auto
  let ?s2 = "?s1\<lparr>huge_al := h2, tw := w\<rparr>" and ?P = "ctrl_go (cfg e) (shm_foot h1) (\<lambda>i. [wslot_addr w i])" and ?k = "2 * kUnsigBatch (cfg e)"
  have start: "?P ?s2 0 ?s2"
  proof -
    note ctrl_inv_start [OF h1, of ?e "ct_wheel_mem c" ?base w h2 ?s1]
    then show ?thesis using w(1) cfg mem freq by (simp add: ctrl_go_def)
  qed
  have "holds (?P ?s2 ?k) (forE ?k (alloc_ctrl_msgbuf ?e) ?s2)"
  proof (rule holds_forE [where P = "?P ?s2", OF _ start])
    fix i s assume "i < ?k" "?P ?s2 i s"
    then show "holds (?P ?s2 (Suc i)) (alloc_ctrl_msgbuf ?e i s)"
      using alloc_ctrl_go [of ?e i "shm_foot h1" "\<lambda>i. [wslot_addr w i]" ?s2 s k' a' rest] cfg os(3) w(2) by simp
  qed
  then obtain s2 where s2: "forE ?k (alloc_ctrl_msgbuf ?e) ?s2 = Inr s2" "tw s2 = w" "tsc_i s2 = i + 2"
    using clk(2) by (auto simp: holds_iff ctrl_go_def ctrl_inv_def rdtsc_def)
  obtain s3 where "Rpc_late c ?e s2 = Inr s3"
    using Rpc_late_returns [of ?e "{#}" "\<lambda>i. [wslot_addr w i]" s2 h0 c i] w(3,4) s2(2,3) clk(1,3) by auto
  then show ?thesis using h1 w(1) s2(1) n2 by (simp add: Rpc_build_def tr Let_def split_def)
qed

end

subsection \<open>Correctness of the constructor\<close>

lemma created_runs:
  assumes "created c n (e, s, n')" "(estep e)\<^sup>*\<^sup>* s s'" "cb_ok e" "sm_cb_ok e" "length (session_vec s') \<le> 65536"
  shows "ring_entries_available s' + kSessionCredits * active (session_vec s') = kNumRxRingEntries"
proof -
  have "sm_inv s" using assms(1) by (auto simp: created_def rpc_ready_def sm_inv_def active_def numbered_def)
  then show ?thesis using esteps_tidy [OF assms(2-4)] assms(5) by (simp add: tidy_def sm_inv_def)
qed

lemma ib_created:
  assumes "nexus_inv n" "Some (ct_hook c) \<notin> set (nx_reg_hooks_arr n)" "\<not> tls_initialized (nx_tls n) (ct_thread c)"
    and "cfg e = ib_cfg" "bsrl_r0 e = 0" "\<forall>a. length (entry (ct_wheel_mem c a)) = kWheelBucketCap"
    and "0 < us_to_cycles kWheelSlotWidthUs (nx_freq_ghz n)"
    and "ct_init c = ib_tr_init reg ret t ring" "fresh_transport t" "length ring = kRQDepth"
  shows "case Rpc_init c e n of Inl er \<Rightarrow> os_error er \<or> ct_transport c = Inl er | Inr x \<Rightarrow> created c n x"
proof -
  have "case Rpc_init c e n of Inl er \<Rightarrow> os_error er \<or> ct_transport c = Inl er \<or> (\<exists>h. ib_tr_init reg ret t ring h = Inl er) | Inr x \<Rightarrow> created c n x"
    by (rule ib_tr.Rpc_init_ok) (use assms configs_ok in \<open>simp_all add: ib_cfg_def\<close>)
  then show ?thesis using ib_tr_init_error [OF assms(9,10)] by (auto split: sum.splits)
qed

lemma ib_tr_init_returns:
  assumes "fresh_transport t" "length ring = kRQDepth" "os_script h = ShmOk k a True # rest" "a \<noteq> 0"
  shows "\<exists>h' ring'. ib_tr_init reg 0 t ring h = Inr (h', ring') \<and> os_script h' = rest"
proof -
  obtain b h' where b: "alloc_raw reg (kNumRxRingEntries * kRecvSize) RegTrue h = Inr (b, h')" "b_buf b = Some a" "os_script h' = rest"
    using alloc_raw_returns [OF assms(3,4) ib_ring_small] by blast
  then show ?thesis using init_hugepage_structures_ok [OF b(2) assms(1,2)] by (auto simp: ib_tr_init_def)
qed

lemma ib_returns:
  assumes n: "nexus_inv n" "Some (ct_hook c) \<notin> set (nx_reg_hooks_arr n)" "\<not> tls_initialized (nx_tls n) (ct_thread c)" and valid: "valid_args c n"
    and e: "cfg e = ib_cfg" "bsrl_r0 e = 0" and mem: "\<forall>a. length (entry (ct_wheel_mem c a)) = kWheelBucketCap"
    and freq: "0 < us_to_cycles kWheelSlotWidthUs (nx_freq_ghz n)"
    and tr: "ct_init c = ib_tr_init reg 0 t ring" "fresh_transport t" "length ring = kRQDepth"
    and os: "ct_script c = ShmOk k1 a1 True # ShmOk k2 a2 True # ShmOk k3 a3 True # rest" "0 < a1" "0 < a2" "0 < a3" "a2 + 2 ^ 24 \<le> 2 ^ 48"
    and clk: "5 \<le> ct_samples c" "clock_ok (tsc e) (tsc_i (ct_raw c)) (us_to_cycles kWheelSlotWidthUs (nx_freq_ghz n))"
  shows "\<exists>x. Rpc_init c e n = Inr x \<and> created c n x"
proof -
  let ?h = "huge_alloc_init kInitialHugeAllocSize (ct_script c)"
  have "os_script ?h = ShmOk k1 a1 True # ShmOk k2 a2 True # ShmOk k3 a3 True # rest" using os(1) by (simp add: huge_alloc_init_def)
  then obtain h1 ring' where h1: "ib_tr_init reg 0 t ring ?h = Inr (h1, ring')" "os_script h1 = ShmOk k2 a2 True # ShmOk k3 a3 True # rest"
    using ib_tr_init_returns [OF tr(2,3), of ?h k1 a1] os(2) by blast
  obtain e1 n1 s1 where eq: "Rpc_init c e n = Rpc_build c e1 n1 s1" and st: "build_start c e n e1 n1 s1" using Rpc_init_build [OF n(1,3) valid] by blast
  have "\<exists>x. Rpc_build c e1 n1 s1 = Inr x"
    by (rule ib_tr.Rpc_build_returns [OF tr(1) h1, where i = "tsc_i (ct_raw c)"])
      (use os e mem freq clk n(2) st valid valid_rpc_id [of "ct_rpc_id c"] configs_ok in \<open>auto simp: build_start_def valid_args_def ib_cfg_def\<close>)
  then obtain x where "Rpc_init c e n = Inr x" using eq by auto
  then show ?thesis using ib_created [OF n e mem freq tr] by simp
qed



definition ex_ctor :: rpc_ctor where
  "ex_ctor = \<lparr>ct_thread = 0, ct_hook = 200, ct_rpc_id = 5, ct_phy_port = 0, ct_trace_ok = True, ct_transport = Inr (),
     ct_init = ib_tr_init (\<lambda>_ _. 0) 0 ex_transport (replicate 4096 0),
     ct_script = [ShmOk 1 0x10000000 True, ShmOk 2 0x20000000 True, ShmOk 3 0x30000000 True],
     ct_wheel_mem = (\<lambda>_. \<lparr>num_entries = 0, tx_tsc = 0, bk_last = 0, bk_next = None, entry = replicate kWheelBucketCap \<lparr>we_sslot = (0, 0), we_pkt_num = 0\<rparr>\<rparr>),
     ct_seed = 1, ct_bg_queue = (\<lambda>_. MtQueue_init), ct_samples = 5, ct_raw = demo_rpc\<rparr>"

definition ex_env :: env where
  "ex_env = demo_env\<lparr>cfg := ib_cfg, tsc := (\<lambda>i. 100 * i)\<rparr>"

lemma ex_ctor_facts:
  "Some (ct_hook ex_ctor) \<notin> set (nx_reg_hooks_arr demo_nx)" "\<not> tls_initialized (nx_tls demo_nx) (ct_thread ex_ctor)" "valid_args ex_ctor demo_nx"
  "cfg ex_env = ib_cfg" "bsrl_r0 ex_env = 0" "\<forall>a. length (entry (ct_wheel_mem ex_ctor a)) = kWheelBucketCap"
  "0 < us_to_cycles kWheelSlotWidthUs (nx_freq_ghz demo_nx)" "ct_init ex_ctor = ib_tr_init (\<lambda>_ _. 0) 0 ex_transport (replicate 4096 0)"
  "length (replicate 4096 (0 :: nat)) = kRQDepth"
  "ct_script ex_ctor = ShmOk 1 0x10000000 True # ShmOk 2 0x20000000 True # ShmOk 3 0x30000000 True # []"
  "5 \<le> ct_samples ex_ctor" "clock_ok (tsc ex_env) (tsc_i (ct_raw ex_ctor)) (us_to_cycles kWheelSlotWidthUs (nx_freq_ghz demo_nx))"
proof -
  have "x \<in> set (replicate 255 None) \<or> x = Some 100" if "x \<in> set ((replicate 255 None)[3 := Some (100 :: nat)])" for x
    using that set_update_subset_insert by fastforce
  then show "Some (ct_hook ex_ctor) \<notin> set (nx_reg_hooks_arr demo_nx)" by (force simp: ex_ctor_def demo_nx_def)
qed (simp_all add: ex_ctor_def demo_nx_def TlsRegistry_def valid_args_def ex_env_def demo_env_def ex_freq clock_ok_def demo_rpc_def)



text \<open>
  The destructor. All regions are detached, the registered ones deregistered before, and the identifier can be used again.
\<close>

definition detached :: "shm_release list \<Rightarrow> nat list" where
  "detached es = [a. Shmdt a \<leftarrow> es]"

definition deregistered :: "shm_release list \<Rightarrow> u32 list" where
  "deregistered es = [k. DeregMr k \<leftarrow> es]"

lemma HugeAlloc_destroy_ok:
  assumes "\<forall>r \<in> set rs. ok (sr_buf r)"
  shows "HugeAlloc_destroy ok rs = Inr (concat (map (\<lambda>r. (if sr_registered r then [DeregMr (sr_lkey r)] else []) @ [Shmdt (sr_buf r)]) rs))"
  using assms by (induction rs) auto

lemma Rpc_destroy_ok:
  assumes "nexus_inv n" "in_dispatch e s" "\<forall>r \<in> set (shm_list (huge_al s)). ok (sr_buf r)" "i < kMaxRpcId + 1" "nx_reg_hooks_arr n ! i = Some hk"
  shows "\<exists>es n'. Rpc_destroy ok (Inr ()) hk e s n = Inr (es, n') \<and> nexus_inv n' \<and> rpc_id_exists (of_nat i) n' = Inr False \<and>
    detached es = map sr_buf (shm_list (huge_al s)) \<and>
    deregistered es = map sr_lkey (filter sr_registered (shm_list (huge_al s)))"
proof -
  let ?n = "n\<lparr>nx_reg_hooks_arr := (nx_reg_hooks_arr n)[i := None]\<rparr>"
  have len: "length (nx_reg_hooks_arr n) = 255" and hk: "unat (hk_rpc_id (nx_hooks n hk)) = i"
    using assms(1,4,5) by (auto simp: nexus_inv_def hook_ok_def)
  have u: "unregister_hook hk n = Inr ?n" using hk len assms(4,5) by (simp add: unregister_hook_def)
  have inv: "nexus_inv ?n" using nstep_inv [OF nstep.unhook [OF u] assms(1)] .
  have i: "unat (of_nat i :: u8) = i" using assms(4) by (simp add: unat_of_nat take_bit_eq_mod)
  have "detached (concat (map (\<lambda>r. (if sr_registered r then [DeregMr (sr_lkey r)] else []) @ [Shmdt (sr_buf r)]) rs)) = map sr_buf rs"
    "deregistered (concat (map (\<lambda>r. (if sr_registered r then [DeregMr (sr_lkey r)] else []) @ [Shmdt (sr_buf r)]) rs)) = map sr_lkey (filter sr_registered rs)" for rs :: "shm_region list"
    by (induction rs) (auto simp: detached_def deregistered_def)
  then show ?thesis using HugeAlloc_destroy_ok [OF assms(3)] assms(2,4) u inv len i
    by (simp add: Rpc_destroy_def rpc_id_exists_def)
qed

subsection \<open>Accessors of the public interface (\<open>rpc.h\<close>)\<close>

text \<open>A session number is an \<open>int\<close> that is cast to an index; outside of the vector, or at a buried session, the access is out of range.\<close>

definition user_session :: "int \<Rightarrow> rpc \<Rightarrow> Session res" where
  "user_session session_num s = (if 0 \<le> session_num then get_sess (nat session_num) s else Inl OutOfRange)"

definition alloc_msg_buffer_or_die :: "env \<Rightarrow> nat \<Rightarrow> rpc \<Rightarrow> (MsgBuffer \<times> rpc) res" where
  "alloc_msg_buffer_or_die e mds s =
    bindE (alloc_msg_buffer (cfg e) (bsrl_r0 e) (reg_mr e) (mem_hdrs e) (mem_bytes e) mds (huge_al s)) (\<lambda>(m, h).
      case m of None \<Rightarrow> Inl RuntimeError | Some mb \<Rightarrow> Inr (mb, s\<lparr>huge_al := h\<rparr>))"

definition rpc_is_connected :: "int \<Rightarrow> rpc \<Rightarrow> bool res" where
  "rpc_is_connected session_num s = bindE (user_session session_num s) (\<lambda>se. Inr (is_connected se))"

definition get_num_re_tx :: "int \<Rightarrow> rpc \<Rightarrow> nat res" where
  "get_num_re_tx session_num s = bindE (user_session session_num s) (\<lambda>se. Inr (se_num_re_tx se))"

definition reset_num_re_tx :: "int \<Rightarrow> rpc \<Rightarrow> rpc res" where
  "reset_num_re_tx session_num s = bindE (user_session session_num s) (\<lambda>_.
    Inr (upd_sess (nat session_num) (\<lambda>se. se\<lparr>se_num_re_tx := 0\<rparr>) s))"

definition get_timely :: "int \<Rightarrow> rpc \<Rightarrow> timely res" where
  "get_timely session_num s = bindE (user_session session_num s) (\<lambda>se. Inr (se_timely se))"

definition rpc_get_remote_hostname :: "int \<Rightarrow> rpc \<Rightarrow> string res" where
  "rpc_get_remote_hostname session_num s = bindE (user_session session_num s) (\<lambda>se. Inr (get_remote_hostname se))"

definition get_stat_user_alloc_tot :: "rpc \<Rightarrow> nat" where
  "get_stat_user_alloc_tot s = user_alloc_tot (huge_al s)"

definition set_pre_resp_msgbuf_size :: "nat \<Rightarrow> rpc \<Rightarrow> rpc" where
  "set_pre_resp_msgbuf_size n s = s\<lparr>pre_resp_msgbuf_size := n\<rparr>"

definition get_huge_alloc :: "env \<Rightarrow> rpc \<Rightarrow> huge_alloc res" where
  "get_huge_alloc e s = rt_assert (num_bg_threads e = 0) (Inr (huge_al s))"

definition get_max_num_sessions :: nat where
  "get_max_num_sessions = kNumRxRingEntries div kSessionCredits"

definition in_background :: "env \<Rightarrow> rpc \<Rightarrow> bool" where
  "in_background e s \<longleftrightarrow> \<not> in_dispatch e s"

definition sec_since_creation :: "env \<Rightarrow> nat \<Rightarrow> rpc \<Rightarrow> real \<times> rpc" where
  "sec_since_creation e creation_tsc s = (let (now, s1) = rdtsc e s in (to_sec (sub64 now creation_tsc) (freq_ghz e), s1))"

text \<open>The operations of the interface that change the state respect what the runs of an endpoint keep.\<close>

lemma accessors_tidy:
  "reset_num_re_tx sn s = Inr t \<Longrightarrow> tidy s t" "tidy s (set_pre_resp_msgbuf_size n s)" "alloc_msg_buffer_or_die e mds s = Inr (m, t) \<Longrightarrow> tidy s t"
proof -
  show "tidy s t" if "reset_num_re_tx sn s = Inr t"
  proof -
    have "t = upd_sess (nat sn) (\<lambda>se. se\<lparr>se_num_re_tx := 0\<rparr>) s" using that by (auto simp: reset_num_re_tx_def bindE_eq_Inr)
    then show ?thesis using grows_upd_sess [of "\<lambda>se. se\<lparr>se_num_re_tx := 0\<rparr>" s "nat sn"] by (simp add: grows_tidy same_flow_def)
  qed
  show "tidy s (set_pre_resp_msgbuf_size n s)" by (rule tidy_cong) (simp_all add: set_pre_resp_msgbuf_size_def)
  show "tidy s t" if al: "alloc_msg_buffer_or_die e mds s = Inr (m, t)"
  proof -
    obtain h where "t = s\<lparr>huge_al := h\<rparr>" using al by (auto simp: alloc_msg_buffer_or_die_def bindE_eq_Inr split: option.splits)
    then show ?thesis by (intro tidy_cong) simp_all
  qed
qed

text \<open>The limit that the interface reports is the one the accounting of the receive ring enforces.\<close>

lemma max_num_sessions_enforced: "sm_inv s \<Longrightarrow> active (session_vec s) \<le> get_max_num_sessions"
  by (simp add: sm_inv_def get_max_num_sessions_def)

end
