(* ===== verification/Host_Setup.thy ===== *)
theory Host_Setup
  imports Dpdk_Transport
begin

section \<open>Talking to the host (\<open>virt2phy.h\<close>, \<open>pmem.h\<close>, \<open>udp_client.h\<close>, \<open>interface_addrs.h\<close>, \<open>dpdk_init.cc\<close>, \<open>dpdk_flow_rules.cc\<close>)\<close>

text \<open>
  Small components around the kernel and the driver: translation of addresses through the page map and its cache, mapping of
  persistent memory, sending of datagrams, addresses of interfaces, and the set-up of a DPDK port. The answers of the kernel, the
  resolver and the driver are arguments.
\<close>

subsection \<open>Physical addresses\<close>

abbreviation (input) kPfnMaskSize :: int where "kPfnMaskSize \<equiv> 8"
abbreviation (input) pfn_mask :: u64 where "pfn_mask \<equiv> 0x7fffffffffffff"
abbreviation (input) huge_mask :: u64 where "huge_mask \<equiv> 0x1fffff"

text \<open>\<open>pread off\<close> is what reading eight bytes of \<open>/proc/self/pagemap\<close> at an offset returns, and the bytes read.\<close>

definition v2p_translate :: "nat \<Rightarrow> (nat \<Rightarrow> int \<times> u64) \<Rightarrow> u64 \<Rightarrow> u64" where
  "v2p_translate page_size pread virtaddr =
    (let virt_pfn = unat virtaddr div page_size; offset = 8 * virt_pfn; ret = fst (pread offset); page = snd (pread offset)
     in if ret < 0 then 0
        else if ret \<noteq> kPfnMaskSize then 0
        else if page AND pfn_mask = 0 then 0
        else (page AND pfn_mask) * of_nat page_size + of_nat (unat virtaddr mod page_size))"

text \<open>The cache by hugepages; \<open>tr\<close> is the translation it asks on a miss.\<close>

type_synonym v2p_cache = "u64 \<rightharpoonup> u64"

definition hv2p_translate :: "(u64 \<Rightarrow> u64) \<Rightarrow> u64 \<Rightarrow> v2p_cache \<Rightarrow> u64 \<times> v2p_cache" where
  "hv2p_translate tr va cache =
    (let va_2_mb = va AND NOT huge_mask
     in case cache va_2_mb of
          Some p \<Rightarrow> (p + va mod 0x200000, cache)
        | None \<Rightarrow> (let phy_addr = tr va_2_mb in (phy_addr + va mod 0x200000, cache(va_2_mb \<mapsto> phy_addr))))"

fun hv2p_translates :: "(u64 \<Rightarrow> u64) \<Rightarrow> u64 list \<Rightarrow> v2p_cache \<Rightarrow> u64 list \<times> v2p_cache" where
  "hv2p_translates tr [] cache = ([], cache)"
| "hv2p_translates tr (va # vas) cache =
    (let (p, c1) = hv2p_translate tr va cache; (ps, c2) = hv2p_translates tr vas c1 in (p # ps, c2))"

subsection \<open>Persistent memory\<close>

text \<open>\<open>fd\<close> and \<open>buf\<close> are the results of \<open>open\<close> and \<open>mmap\<close>; the result is the address and the number of bytes mapped and cleared.\<close>

definition map_devdax_file :: "int \<Rightarrow> nat option \<Rightarrow> u64 \<Rightarrow> (nat \<times> nat) res" where
  "map_devdax_file fd buf len = rt_assert (0 \<le> fd)
    (let pmem_size = unat (round_up 0x200000 len)
     in case buf of None \<Rightarrow> Inl RuntimeError | Some a \<Rightarrow> rt_assert (a mod 256 = 0) (Inr (a, pmem_size)))"

subsection \<open>Datagrams\<close>

text \<open>
  An endpoint that the resolver returned, with whether it is an IPv4 one. \<open>send_to\<close> is the number of bytes sent to an address, or no
  value when the call throws. The state is the list of recorded packets.
\<close>

record asio_endpoint =
  ae_is_v4 :: bool
  ae_addr :: nat

abbreviation (input) SIZE_MAX :: nat where "SIZE_MAX \<equiv> 2 ^ 64 - 1"

fun udp_pick :: "asio_endpoint list \<Rightarrow> nat option" where
  "udp_pick [] = None"
| "udp_pick (ep # eps) = (if \<not> ae_is_v4 ep then udp_pick eps else Some (ae_addr ep))"

definition udp_send :: "asio_endpoint list \<Rightarrow> (nat \<Rightarrow> nat option) \<Rightarrow> bool \<Rightarrow> 'm \<Rightarrow> 'm list \<Rightarrow> nat \<times> 'm list" where
  "udp_send results send_to enable_recording_flag msg sent_vec =
    (if length results = 0 then (SIZE_MAX, sent_vec)
     else case udp_pick results of
       None \<Rightarrow> (SIZE_MAX, sent_vec)
     | Some a \<Rightarrow> (case send_to a of
         Some ret \<Rightarrow> (ret, if enable_recording_flag then sent_vec @ [msg] else sent_vec)
       | None \<Rightarrow> (SIZE_MAX, sent_vec)))"

subsection \<open>Addresses of interfaces\<close>

text \<open>An entry of \<open>getifaddrs\<close>: its name and, for an IPv4 address, the address in network order.\<close>

type_synonym ifaddr = "string \<times> u32 option"

definition get_interface_ipv4_addr :: "ifaddr list option \<Rightarrow> string \<Rightarrow> u32 res" where
  "get_interface_ipv4_addr ifaddrs interface =
    (case ifaddrs of
       None \<Rightarrow> Inl RuntimeError
     | Some ifs \<Rightarrow>
         (let ipv4_addr = foldl (\<lambda>acc (name, a). if name \<noteq> interface then acc else case a of None \<Rightarrow> acc | Some w \<Rightarrow> htonl w) 0 ifs
          in rt_assert (ipv4_addr \<noteq> 0) (Inr ipv4_addr)))"

text \<open>\<open>sa_data\<close> is what the ioctl with the name in \<open>ifr_name\<close> filled in; \<open>junk\<close> the old last byte of \<open>ifr_name\<close>.\<close>

definition ifr_name :: "char list \<Rightarrow> string \<Rightarrow> char list" where
  "ifr_name junk interface = take 15 (interface @ replicate 15 (CHR 0x00)) @ drop 15 junk"

definition fill_interface_mac :: "int \<Rightarrow> (char list \<Rightarrow> u8 list option) \<Rightarrow> char list \<Rightarrow> string \<Rightarrow> u8 list res" where
  "fill_interface_mac fd ioctl junk interface = assertE (0 \<le> fd)
    (case ioctl (ifr_name junk interface) of
       None \<Rightarrow> Inl RuntimeError
     | Some sa_data \<Rightarrow> rangeE (6 \<le> length sa_data) (Inr (take 6 sa_data)))"

subsection \<open>Set-up of a DPDK port\<close>

abbreviation (input) kNumRxRingEntriesDpdk :: nat where "kNumRxRingEntriesDpdk \<equiv> 4096"
abbreviation (input) kNumTxRingDesc :: nat where "kNumTxRingDesc \<equiv> 128"

record port_answers =
  pa_num_ports :: nat
  pa_rx_nb_max :: nat
  pa_tx_nb_max :: nat
  pa_configure :: int
  pa_pool :: "string \<Rightarrow> bool"
  pa_rx_setup :: "nat \<Rightarrow> int"
  pa_tx_setup :: "nat \<Rightarrow> int"
  pa_name_len :: nat

text \<open>A queue as it has been set up: its index, the name of its buffer pool, and its two ring sizes.\<close>

record port_queue =
  pq_index :: nat
  pq_pool :: string
  pq_rx_ring :: nat
  pq_tx_ring :: nat

definition setup_queue :: "port_answers \<Rightarrow> nat \<Rightarrow> nat \<Rightarrow> port_queue list \<Rightarrow> port_queue list res" where
  "setup_queue an phy_port i qs = bindE (get_mempool_name (pa_name_len an) phy_port i) (\<lambda>pname.
    rt_assert (pa_pool an pname) (rt_assert (pa_rx_setup an i = 0) (rt_assert (pa_tx_setup an i = 0)
      (Inr (qs @ [\<lparr>pq_index = i, pq_pool = pname, pq_rx_ring = kNumRxRingEntriesDpdk, pq_tx_ring = kNumTxRingDesc\<rparr>])))))"

definition setup_phy_port :: "port_answers \<Rightarrow> nat \<Rightarrow> port_queue list res" where
  "setup_phy_port an phy_port = rt_assert (phy_port < pa_num_ports an)
    (rt_assert (kNumRxRingEntriesDpdk \<le> pa_rx_nb_max an) (rt_assert (kNumTxRingDesc \<le> pa_tx_nb_max an)
    (rt_assert (pa_configure an = 0) (forE kMaxQueuesPerPort (setup_queue an phy_port) []))))"

subsection \<open>Flow rules\<close>

record ntuple_filter =
  nt_dst_port :: u16
  nt_dst_port_mask :: u16
  nt_dst_ip :: u32
  nt_dst_ip_mask :: u32
  nt_proto :: u8
  nt_proto_mask :: u8
  nt_priority :: nat
  nt_queue :: nat

record fdir_filter =
  fd_soft_id :: nat
  fd_dst_port :: u16
  fd_dst_ip :: u32
  fd_rx_queue :: nat

datatype flow_rule = Ntuple ntuple_filter | Fdir fdir_filter

text \<open>
  \<open>nt_sup\<close> and \<open>fd_sup\<close> are the answers to whether the filters are supported (0 is yes), \<open>ret\<close> that of adding a rule. The result is the
  rules that the NIC has accepted.
\<close>

definition install_flow_rule :: "int \<Rightarrow> int \<Rightarrow> (flow_rule \<Rightarrow> int) \<Rightarrow> nat \<Rightarrow> u32 \<Rightarrow> u16 \<Rightarrow> flow_rule list res" where
  "install_flow_rule nt_sup fd_sup ret qp_id ipv4_addr udp_port =
    (if nt_sup \<noteq> 0 \<and> fd_sup \<noteq> 0 then Inr []
     else
       (let nt = Ntuple \<lparr>nt_dst_port = htons udp_port, nt_dst_port_mask = 0xffff, nt_dst_ip = htonl ipv4_addr, nt_dst_ip_mask = 0xffffffff,
                         nt_proto = 17, nt_proto_mask = 0xff, nt_priority = 1, nt_queue = qp_id\<rparr>;
            fd = Fdir \<lparr>fd_soft_id = qp_id, fd_dst_port = htons udp_port, fd_dst_ip = htonl ipv4_addr, fd_rx_queue = qp_id\<rparr>;
            rules = (if nt_sup = 0 \<and> ret nt = 0 then [nt] else [])
        in if rules = [] \<and> fd_sup = 0 then rt_assert (ret fd = 0) (Inr [fd]) else Inr rules))"

subsection \<open>Correctness of the address cache\<close>

lemma hugepage_base: "unat ((va :: u64) AND NOT huge_mask) = unat va div 2 ^ 21 * 2 ^ 21"
proof -
  have m: "huge_mask = mask 21" by (simp add: mask_eq_exp_minus_1)
  have "va AND NOT (mask 21) = push_bit 21 (drop_bit 21 va)"
    by (rule bit_word_eqI) (auto simp: bit_simps)
  moreover have "unat (push_bit 21 (drop_bit 21 va)) = unat va div 2 ^ 21 * 2 ^ 21"
  proof -
    have "unat va < 2 ^ 64" using unsigned_less [of va] by simp
    then have "unat va div 2 ^ 21 * 2 ^ 21 < 2 ^ 64" by (rule le_less_trans [OF div_times_less_eq_dividend])
    then show ?thesis unfolding unsigned_push_bit_eq unsigned_drop_bit_eq by (simp add: take_bit_eq_mod push_bit_eq_mult drop_bit_eq_div)
  qed
  ultimately show ?thesis unfolding m by simp
qed

lemma hugepage_offset: "(va :: u64) mod 0x200000 = of_nat (unat va mod 2 ^ 21)"
proof -
  have "unat (va mod 0x200000) = unat va mod 2 ^ 21" by (simp add: unat_mod)
  moreover have "of_nat (unat (va mod 0x200000)) = va mod 0x200000" by simp
  ultimately show ?thesis by simp
qed

text \<open>
  A hugepage is mapped when the page map has a frame number for each of its 512 small pages, and these are consecutive: physical memory of a
  hugepage is contiguous.
\<close>

definition hugepage_mapped :: "(nat \<Rightarrow> int \<times> u64) \<Rightarrow> u64 \<Rightarrow> bool" where
  "hugepage_mapped pread va \<longleftrightarrow> (let pfn = unat va div 2 ^ 21 * 512; frame = (\<lambda>k. snd (pread (8 * (pfn + k))) AND pfn_mask)
     in \<forall>k < 512. fst (pread (8 * (pfn + k))) = 8 \<and> frame k \<noteq> 0 \<and> frame k = frame 0 + of_nat k)"

lemma small_pages: "(x :: nat) div 4096 = x div 2 ^ 21 * 512 + x mod 2 ^ 21 div 4096" "x mod 4096 = x mod 2 ^ 21 mod 4096"
proof -
  have x: "x = x mod 2 ^ 21 + (x div 2 ^ 21 * 512) * 4096" by simp
  show "x div 4096 = x div 2 ^ 21 * 512 + x mod 2 ^ 21 div 4096" using arg_cong [OF x, of "\<lambda>y. y div 4096"] div_mult_self1 [of 4096 "x mod 2 ^ 21" "x div 2 ^ 21 * 512"] by simp
  show "x mod 4096 = x mod 2 ^ 21 mod 4096" by (simp add: mod_mod_cancel)
qed

lemma translate_hugepage:
  assumes "hugepage_mapped pread va"
  shows "v2p_translate 4096 pread va = v2p_translate 4096 pread (va AND NOT huge_mask) + va mod 0x200000"
proof -
  let ?pfn = "unat va div 2 ^ 21 * 512" and ?r = "unat va mod 2 ^ 21"
  let ?k = "?r div 4096" and ?frame = "\<lambda>k. snd (pread (8 * (?pfn + k))) AND pfn_mask"
  have k: "?k < 512" by (simp add: less_mult_imp_div_less)
  have pfn: "unat va div 4096 = ?pfn + ?k" "unat va mod 4096 = ?r mod 4096" by (rule small_pages)+
  have base: "unat (va AND NOT huge_mask) = ?pfn * 4096" unfolding hugepage_base by simp
  have m: "fst (pread (8 * (?pfn + j))) = 8" "?frame j \<noteq> 0" "?frame j = ?frame 0 + of_nat j" if "j < 512" for j
    using assms that unfolding hugepage_mapped_def Let_def by blast+
  have "v2p_translate 4096 pread va = ?frame ?k * 4096 + of_nat (?r mod 4096)"
    using m(1,2) [OF k] unfolding v2p_translate_def Let_def pfn by simp
  also have "\<dots> = ?frame 0 * 4096 + of_nat (?k * 4096 + ?r mod 4096)" unfolding m(3) [OF k] by (simp only: of_nat_add of_nat_mult of_nat_numeral distrib_right add.assoc)
  also have "?k * 4096 + ?r mod 4096 = ?r" by simp
  also have "?frame 0 * 4096 = v2p_translate 4096 pread (va AND NOT huge_mask)"
    using m(1,2) [of 0] unfolding v2p_translate_def Let_def base by simp
  finally show ?thesis unfolding hugepage_offset .
qed

definition cache_ok :: "(u64 \<Rightarrow> u64) \<Rightarrow> v2p_cache \<Rightarrow> bool" where
  "cache_ok tr c \<longleftrightarrow> c \<subseteq>\<^sub>m (\<lambda>k. Some (tr k))"

lemma cache_okD: "cache_ok tr c \<Longrightarrow> c k = Some p \<Longrightarrow> p = tr k"
  by (auto simp: cache_ok_def map_le_def dom_def)

lemma cache_ok_upd: "cache_ok tr c \<Longrightarrow> cache_ok tr (c(k \<mapsto> tr k))"
  by (auto simp: cache_ok_def map_le_def dom_def)

lemma hv2p_translate_ok:
  assumes "cache_ok tr c"
  shows "fst (hv2p_translate tr va c) = tr (va AND NOT huge_mask) + va mod 0x200000" "cache_ok tr (snd (hv2p_translate tr va c))"
  using assms cache_okD [OF assms] cache_ok_upd [OF assms]
  by (auto simp: hv2p_translate_def Let_def split: option.splits)

lemma hv2p_translates_ok:
  assumes "cache_ok tr c" "\<forall>va \<in> set vas. tr va = tr (va AND NOT huge_mask) + va mod 0x200000"
  shows "fst (hv2p_translates tr vas c) = map tr vas \<and> cache_ok tr (snd (hv2p_translates tr vas c))"
  using assms
proof (induction vas arbitrary: c)
  case (Cons va vas)
  note s = hv2p_translate_ok [OF Cons.prems(1), of va]
  then show ?case using Cons.IH [OF s(2)] Cons.prems(2) by (simp add: Let_def split_def)
qed simp

text \<open>
  C29. The cache of address translations is transparent: for any sequence of addresses in mapped hugepages, whatever the order and however often
  a hugepage is hit, the translations through the cache are those that the page map gives for each address, and one
  look-up in the page map serves all 512 small pages of a hugepage.
\<close>

theorem cached_translation_correct:
  assumes "\<forall>va \<in> set vas. hugepage_mapped pread va"
  shows "fst (hv2p_translates (v2p_translate 4096 pread) vas Map.empty) = map (v2p_translate 4096 pread) vas"
proof -
  have "cache_ok (v2p_translate 4096 pread) Map.empty" by (simp add: cache_ok_def)
  then show ?thesis using hv2p_translates_ok assms translate_hugepage by blast
qed

lemma small_frame: "n < 2 ^ 55 \<Longrightarrow> (of_nat n :: u64) AND pfn_mask = of_nat n"
proof -
  assume n: "n < 2 ^ 55"
  have "unat (take_bit 55 (of_nat n :: u64)) = unat (of_nat n :: u64)"
    unfolding unsigned_take_bit_eq unat_of_nat using n by (simp add: take_bit_eq_mod)
  then have "take_bit 55 (of_nat n :: u64) = of_nat n" by (simp only: word_unat_eq_iff)
  moreover have "pfn_mask = mask 55" by (simp add: mask_eq_exp_minus_1)
  ultimately show ?thesis by (simp only: take_bit_eq_mask)
qed

theorem cached_translation_correct_witness:
  "fst (hv2p_translates (v2p_translate 4096 (\<lambda>off. (8, of_nat (off div 8) + 7))) [0x200010, 0x203020, 0x3ffff8] Map.empty) =
    [0x207010, 0x20a020, 0x406ff8]"
proof -
  let ?p = "\<lambda>off. (8, of_nat (off div 8) + 7) :: int \<times> u64"
  have frame: "(of_nat (512 + k) + 7 :: u64) AND pfn_mask = of_nat (519 + k)" if "k < 512" for k
    using small_frame [of "519 + k"] that by (simp add: add.assoc [symmetric])
  have "unat (of_nat (519 + k) :: u64) \<noteq> 0" if "k < 512" for k using that by (simp only: unat_of_nat) (simp add: take_bit_eq_mod)
  then have "of_nat (519 + k) \<noteq> (0 :: u64)" if "k < 512" for k using that by (metis unat_0)
  then have "hugepage_mapped ?p va" if "unat va div 2 ^ 21 = 1" for va
    using that frame frame [of 0] by (simp add: hugepage_mapped_def)
  then have "\<forall>va \<in> set [0x200010, 0x203020, 0x3ffff8]. hugepage_mapped ?p va" by simp
  from cached_translation_correct [OF this] show ?thesis by (simp add: v2p_translate_def)
qed

text \<open>
  A failed look-up is remembered: the translation returns 0 for failure, which is stored as the hugepage's address, so that the failure is reported
  as a small non-zero address from then on, even when the page has been mapped since.
\<close>

lemma failed_translation_sticks:
  assumes "cache (va AND NOT huge_mask) = None" "tr (va AND NOT huge_mask) = 0" "va' AND NOT huge_mask = va AND NOT huge_mask"
  shows "fst (hv2p_translate tr' va' (snd (hv2p_translate tr va cache))) = va' mod 0x200000"
  using assms by (simp add: hv2p_translate_def Let_def)

subsection \<open>Datagrams and interfaces\<close>

text \<open>At most one datagram leaves, to the first IPv4 endpoint; a packet is recorded exactly when its datagram was sent.\<close>

lemma udp_pick_first: "udp_pick eps = map_option ae_addr (find ae_is_v4 eps)"
  by (induction eps) auto

lemma udp_send_result:
  assumes "udp_send results send_to rec_on msg sent = (ret, sent')"
  shows "(\<exists>a. udp_pick results = Some a \<and> send_to a = Some ret \<and> sent' = (if rec_on then sent @ [msg] else sent)) \<or> (ret = SIZE_MAX \<and> sent' = sent)"
  using assms by (auto simp: udp_send_def split: if_splits option.splits)

text \<open>The address found is that of the last IPv4 entry of the interface, in host order.\<close>

lemma interface_addr_last:
  assumes "\<forall>(name, a) \<in> set post. name = interface \<longrightarrow> a = None" "w \<noteq> 0"
  shows "get_interface_ipv4_addr (Some (pre @ (interface, Some w) # post)) interface = Inr (htonl w)"
proof -
  let ?f = "\<lambda>acc (name, a). if name \<noteq> interface then acc else case a of None \<Rightarrow> acc | Some w \<Rightarrow> htonl w"
  have "foldl ?f x post = x" for x using assms(1) by (induction post) auto
  moreover have "htonl w \<noteq> 0"
  proof
    assume "htonl w = 0"
    then have "w = htonl 0" using htonl_htonl [of w] by simp
    then show False using assms(2) by (simp add: htonl_def of_le32_def)
  qed
  ultimately show ?thesis by (simp add: get_interface_ipv4_addr_def)
qed

text \<open>A name of fifteen characters is not terminated: the last byte that the kernel sees is the old content of the stack.\<close>

lemma interface_name_unterminated: "length interface = 15 \<Longrightarrow> length junk = 16 \<Longrightarrow> ifr_name junk interface = interface @ [junk ! 15]"
  using Cons_nth_drop_Suc [of 15 junk] by (simp add: ifr_name_def)

subsection \<open>Ports and flow rules\<close>

definition queue_ok :: "port_answers \<Rightarrow> nat \<Rightarrow> nat \<Rightarrow> port_queue \<Rightarrow> bool" where
  "queue_ok an phy_port i q \<longleftrightarrow> pq_index q = i \<and> get_mempool_name (pa_name_len an) phy_port i = Inr (pq_pool q) \<and> pa_pool an (pq_pool q) \<and>
     pq_rx_ring q = kNumRxRingEntriesDpdk \<and> pq_tx_ring q = kNumTxRingDesc"

text \<open>A port that is set up has all its queue pairs, each with the pool whose name the transport's constructor looks up.\<close>

lemma setup_phy_port_queues:
  assumes "setup_phy_port an phy_port = Inr qs"
  shows "length qs = kMaxQueuesPerPort \<and> (\<forall>i < kMaxQueuesPerPort. queue_ok an phy_port i (qs ! i))"
proof -
  have loop: "forE kMaxQueuesPerPort (setup_queue an phy_port) [] = Inr qs" using assms by (auto simp: setup_phy_port_def rt_assert_def split: if_splits)
  show ?thesis
  proof (rule forE_inv [OF loop, where P = "\<lambda>n qs. length qs = n \<and> (\<forall>i < n. queue_ok an phy_port i (qs ! i))"])
    fix n s s' assume "length s = n \<and> (\<forall>i < n. queue_ok an phy_port i (s ! i))" "setup_queue an phy_port n s = Inr s'"
    then show "length s' = Suc n \<and> (\<forall>i < Suc n. queue_ok an phy_port i (s' ! i))"
      by (auto simp: setup_queue_def bindE_eq_Inr rt_assert_def queue_ok_def nth_append less_Suc_eq split: if_splits)
  qed simp
qed

text \<open>An accepted rule steers exactly the datagrams that the transport of the queue accepts: its address and port, to its queue.\<close>

definition rule_steers :: "nat \<Rightarrow> u32 \<Rightarrow> u16 \<Rightarrow> flow_rule \<Rightarrow> bool" where
  "rule_steers qp_id ipv4_addr udp_port f = (case f of
      Ntuple n \<Rightarrow> nt_queue n = qp_id \<and> htonl (nt_dst_ip n) = ipv4_addr \<and> htons (nt_dst_port n) = udp_port \<and> nt_dst_ip_mask n = 0xffffffff \<and> nt_dst_port_mask n = 0xffff
    | Fdir d \<Rightarrow> fd_rx_queue d = qp_id \<and> htonl (fd_dst_ip d) = ipv4_addr \<and> htons (fd_dst_port d) = udp_port)"

lemma install_flow_rule_steers:
  assumes "install_flow_rule nt_sup fd_sup ret qp_id ipv4_addr udp_port = Inr rules"
  shows "length rules \<le> 1 \<and> (\<forall>f \<in> set rules. ret f = 0 \<and> rule_steers qp_id ipv4_addr udp_port f) \<and> (fd_sup = 0 \<longrightarrow> rules \<noteq> [])"
  using assms by (auto simp: install_flow_rule_def Let_def rt_assert_def rule_steers_def split: if_splits)

text \<open>Without the flow director, a refused filter leaves the queue without any rule, and the call succeeds.\<close>

lemma flow_rule_missing:
  assumes "fd_sup \<noteq> 0" "\<And>f. ret f \<noteq> 0"
  shows "install_flow_rule nt_sup fd_sup ret qp_id ipv4_addr udp_port = Inr []"
  using assms by (auto simp: install_flow_rule_def Let_def)

end
