(* ===== verification/Hello_App.thy ===== *)
theory Hello_App
  imports Rpc_Create
begin

section \<open>The client and server programs (\<open>peer/server/server.cc\<close>, \<open>peer/client/client.cc\<close>)\<close>

text \<open>
  The two programs of the repository that use the library: a server that answers every request with a greeting, and a client that sends one
  request. They close the development: the server's handler satisfies what the theorems on endpoints ask of the application's
  code, so that for this program they hold without a hypothesis on callbacks.
\<close>

abbreviation (input) kReqType :: nat where "kReqType \<equiv> 2"
abbreviation (input) kMsgSize :: nat where "kMsgSize \<equiv> 16"
abbreviation (input) server_uri :: string where "server_uri \<equiv> ''192.168.3.71:31850''"

subsection \<open>The server\<close>

text \<open>\<open>sprintf\<close> with its terminating null byte; the bytes after it stay.\<close>

definition sprintf_buf :: "string \<Rightarrow> MsgBuffer \<Rightarrow> MsgBuffer" where
  "sprintf_buf str m = m\<lparr>bytes := (\<lambda>j. if j < length str then of_char (str ! j) else if j = length str then 0 else bytes m j)\<rparr>"

definition req_handler :: "env \<Rightarrow> sref \<Rightarrow> rpc \<Rightarrow> rpc res" where
  "req_handler e req_handle s =
    bindE (resize_msg_buffer (cfg e) (mbufs s (PreResp req_handle)) kMsgSize) (\<lambda>resp.
      rangeE (mb_buf resp \<noteq> None)
        (enqueue_response e req_handle (PreResp req_handle) (upd_mbuf (PreResp req_handle) (\<lambda>_. sprintf_buf ''hello'' resp) s)))"

text \<open>
  The environment of the server: only the handler of type 2 is registered, the handler of session management events is a null pointer and there are
  no continuations. The handler reaches the Rpc object through the global variable that \<open>main\<close> sets.
\<close>

definition hello_server :: "env \<Rightarrow> env" where
  "hello_server e = e\<lparr>handler := (\<lambda>rt r s. if rt = kReqType then req_handler e r s else Inl OutOfRange),
     continue := (\<lambda>_ _ _. Inl OutOfRange), sm_handler := (\<lambda>_ _ _ _. Inl OutOfRange)\<rparr>"

text \<open>
  \<open>main\<close>. The arguments of the Nexus that are not given are zero: the first NUMA node, no background thread. When the event loop ends after 100
  seconds \<open>main\<close> returns and the Nexus, a local variable, is destroyed; the Rpc object is never deleted.
  \<open>hooks\<close>, \<open>junk_type\<close>, \<open>old_tt\<close> and \<open>junk\<close> are what uninitialised memory holds.
\<close>

definition server_setup :: "numa_env \<Rightarrow> real res \<Rightarrow> ReqFuncType \<Rightarrow> TransportType \<Rightarrow> (nat \<Rightarrow> hook) \<Rightarrow> rpc_ctor \<Rightarrow> env \<Rightarrow> (env \<times> rpc \<times> nexus) res" where
  "server_setup v freq junk_type old_tt hooks c e =
    bindE (Nexus_init v freq junk_type old_tt hooks server_uri 0 0) (\<lambda>n.
    bindE (register_req_func (of_nat kReqType) (Some 1) kForeground n) (\<lambda>(_, n1).
    bindE (Rpc_init (c\<lparr>ct_rpc_id := 0, ct_phy_port := 0\<rparr>) e n1) (\<lambda>(e1, s, n2). Inr (hello_server e1, s, n2))))"

definition server_main :: "numa_env \<Rightarrow> real res \<Rightarrow> ReqFuncType \<Rightarrow> TransportType \<Rightarrow> (nat \<Rightarrow> hook) \<Rightarrow> SmPkt \<Rightarrow> rpc_ctor \<Rightarrow> env \<Rightarrow> nat \<Rightarrow>
    (nat \<Rightarrow> rpc \<Rightarrow> packet list \<times> rpc) \<Rightarrow> nexus res" where
  "server_main v freq junk_type old_tt hooks junk c e fuel arrive =
    bindE (server_setup v freq junk_type old_tt hooks c e) (\<lambda>(e1, s, n).
    bindE (run_event_loop_timeout_st fuel e1 arrive 100000 s) (\<lambda>_. Nexus_destroy junk n))"

subsection \<open>The client\<close>

text \<open>The continuation prints the time and the reply, the handler of session management events does nothing.\<close>

abbreviation (input) client_uri :: string where "client_uri \<equiv> ''192.168.3.72:31850''"

definition hello_client :: "env \<Rightarrow> env" where
  "hello_client e = e\<lparr>handler := (\<lambda>_ _ _. Inl OutOfRange), continue := (\<lambda>_ _ s. Inr s), sm_handler := (\<lambda>_ _ _ s. Inr s)\<rparr>"

definition client_setup :: "numa_env \<Rightarrow> real res \<Rightarrow> ReqFuncType \<Rightarrow> TransportType \<Rightarrow> (nat \<Rightarrow> hook) \<Rightarrow> rpc_ctor \<Rightarrow> env \<Rightarrow> (env \<times> rpc \<times> nexus) res" where
  "client_setup v freq junk_type old_tt hooks c e =
    bindE (Nexus_init v freq junk_type old_tt hooks client_uri 0 0) (\<lambda>n.
    bindE (Rpc_init (c\<lparr>ct_rpc_id := 0, ct_phy_port := 0\<rparr>) e n) (\<lambda>(e1, s, n1). Inr (hello_client e1, s, n1)))"

text \<open>The loop that waits for the connection; \<open>arrive\<close> delivers what has come before an iteration, \<open>fuel\<close> bounds the iterations.\<close>

fun wait_connected :: "nat \<Rightarrow> env \<Rightarrow> (nat \<Rightarrow> rpc \<Rightarrow> packet list \<times> rpc) \<Rightarrow> nat \<Rightarrow> int \<Rightarrow> rpc \<Rightarrow> rpc res" where
  "wait_connected fuel e arrive i session_num s =
    bindE (rpc_is_connected session_num s) (\<lambda>c.
      if c then Inr s
      else (case fuel of
          0 \<Rightarrow> Inl NoReturn
        | Suc n \<Rightarrow> (let (pkts, s0) = arrive i s
                    in bindE (run_event_loop_do_one_st e pkts s0) (wait_connected n e arrive (i + 1) session_num))))"

declare wait_connected.simps [simp del]

text \<open>
  The two buffers are global variables of the program, here the user's buffers 1 and 2; \<open>cf\<close> and \<open>tag\<close> stand for the addresses of the
  continuation and of the time at which the request was made.
\<close>

definition client_run :: "env \<Rightarrow> nat \<Rightarrow> (nat \<Rightarrow> rpc \<Rightarrow> packet list \<times> rpc) \<Rightarrow> (nat \<Rightarrow> rpc \<Rightarrow> packet list \<times> rpc) \<Rightarrow> nat \<Rightarrow> nat \<Rightarrow> rpc \<Rightarrow> rpc res" where
  "client_run e fuel arrive arrive' cf tag s =
    bindE (create_session_st e server_uri 0 s) (\<lambda>(sn, s1).
    bindE (wait_connected fuel e arrive 0 sn s1) (\<lambda>s2.
    bindE (alloc_msg_buffer_or_die e kMsgSize s2) (\<lambda>(req, s3).
    bindE (alloc_msg_buffer_or_die e kMsgSize s3) (\<lambda>(resp, s4).
    bindE (enqueue_request e (nat sn) kReqType (UserBuf 1) (UserBuf 2) cf tag kInvalidBgETid
        (s4\<lparr>mbufs := (mbufs s4)(UserBuf 1 := req, UserBuf 2 := resp)\<rparr>)) (\<lambda>s5.
      run_event_loop_timeout_st fuel e arrive' 1000 s5)))))"

definition client_main :: "numa_env \<Rightarrow> real res \<Rightarrow> ReqFuncType \<Rightarrow> TransportType \<Rightarrow> (nat \<Rightarrow> hook) \<Rightarrow> SmPkt \<Rightarrow> rpc_ctor \<Rightarrow> env \<Rightarrow> nat \<Rightarrow>
    (nat \<Rightarrow> rpc \<Rightarrow> packet list \<times> rpc) \<Rightarrow> (nat \<Rightarrow> rpc \<Rightarrow> packet list \<times> rpc) \<Rightarrow> nat \<Rightarrow> nat \<Rightarrow> (nat \<Rightarrow> bool) \<Rightarrow> unit res \<Rightarrow>
    (shm_release list \<times> nexus) res" where
  "client_main v freq junk_type old_tt hooks junk c e fuel arrive arrive' cf tag shmdt_ok tr_delete =
    bindE (client_setup v freq junk_type old_tt hooks c e) (\<lambda>(e1, s, n).
    bindE (client_run e1 fuel arrive arrive' cf tag s) (\<lambda>s1.
    bindE (Rpc_destroy shmdt_ok tr_delete (ct_hook c) e1 s1 n) (\<lambda>(es, n1).
    bindE (Nexus_destroy junk n1) (\<lambda>n2. Inr (es, n2)))))"

subsection \<open>The handler keeps the rules of the interface\<close>

lemma hello_server_sel [simp]:
  "cfg (hello_server e) = cfg e" "tsc (hello_server e) = tsc e" "creator_etid (hello_server e) = creator_etid e" "bsrl_r0 (hello_server e) = bsrl_r0 e"
  "ring_rest (hello_server e) = ring_rest e"
  by (simp_all add: hello_server_def)

lemma hello_in_dispatch: "in_dispatch (hello_server e) = in_dispatch e"
  and hello_rdtsc: "rdtsc (hello_server e) = rdtsc e"
  by (simp_all add: fun_eq_iff in_dispatch_def rdtsc_def)

lemma hello_wire: "wire_of (hello_server e) = wire_of e"
  by (simp add: fun_eq_iff wire_of_def)

lemma hello_tx_burst: "do_tx_burst_st (hello_server e) = do_tx_burst_st e"
  unfolding fun_eq_iff do_tx_burst_st_def hello_in_dispatch hello_rdtsc hello_wire by simp

lemma hello_push: "push_tx_item (hello_server e) = push_tx_item e"
  unfolding fun_eq_iff push_tx_item_def hello_tx_burst hello_server_sel by simp

lemma hello_enqueue_pkt: "enqueue_pkt_tx_burst_st (hello_server e) = enqueue_pkt_tx_burst_st e"
  unfolding fun_eq_iff enqueue_pkt_tx_burst_st_def hello_push hello_in_dispatch hello_rdtsc by simp

lemma hello_bury: "bury_req_msgbuf_server_st (hello_server e) = bury_req_msgbuf_server_st e"
  unfolding fun_eq_iff bury_req_msgbuf_server_st_def hello_server_sel by simp

lemma hello_response: "enqueue_response (hello_server e) = enqueue_response e"
  unfolding fun_eq_iff enqueue_response_def hello_bury hello_enqueue_pkt hello_in_dispatch by simp

lemma req_handler_calls:
  assumes "req_handler e r s = Inr s'"
  shows "(api_call (hello_server e))\<^sup>*\<^sup>* s s'" and "srv s (fst r) \<Longrightarrow> (api (hello_server e))\<^sup>*\<^sup>* s s'"
proof -
  obtain resp where "enqueue_response (hello_server e) r (PreResp r) (upd_mbuf (PreResp r) (\<lambda>_. resp) s) = Inr s'"
    (is "enqueue_response _ _ _ ?u = _") using assms by (auto simp: req_handler_def res_Inr hello_response)
  then have r: "api_call (hello_server e) ?u s'" "srv ?u (fst r) \<Longrightarrow> api (hello_server e) ?u s'" by (auto intro: call_response api_response)
  have l: "api (hello_server e) s ?u" by (rule api_local) (simp_all add: upd_mbuf_def)
  show "(api_call (hello_server e))\<^sup>*\<^sup>* s s'" using l r(1) by (meson call_api converse_rtranclp_into_rtranclp r_into_rtranclp)
  show "(api (hello_server e))\<^sup>*\<^sup>* s s'" if "srv s (fst r)"
  proof -
    have "srv ?u (fst r)" using that by (simp add: srv_def get_sess_def)
    then show ?thesis using l r(2) by (meson converse_rtranclp_into_rtranclp r_into_rtranclp)
  qed
qed

lemma hello_server_cb: "cb_ok (hello_server e)" "sm_cb_ok (hello_server e)"
proof -
  have h: "handler (hello_server e) rt r s = Inr s' \<Longrightarrow> req_handler e r s = Inr s'" for rt r s s' by (simp add: hello_server_def split: if_splits)
  show "cb_ok (hello_server e)" unfolding cb_ok_def
    using req_handler_calls [OF h] by (auto simp: hello_server_def)
  show "sm_cb_ok (hello_server e)" by (simp add: sm_cb_ok_def hello_server_def)
qed

lemma hello_client_cb: "cb_ok (hello_client e)" "sm_cb_ok (hello_client e)"
  by (auto simp: cb_ok_def sm_cb_ok_def hello_client_def)

subsection \<open>The server along every run\<close>

lemma server_nexus:
  assumes "Nexus_init v (Inr f) junk_type old_tt hooks u 0 0 = Inr n"
  shows "nexus_inv n" "Some h \<notin> set (nx_reg_hooks_arr n)" "\<not> tls_initialized (nx_tls n) t" "nx_freq_ghz n = f"
proof -
  show "nexus_inv n" by (rule Nexus_init_inv [OF assms])
  have "nx_reg_hooks_arr n = replicate (kMaxRpcId + 1) None" "nx_tls n = TlsRegistry" "nx_freq_ghz n = f"
    using assms by (auto simp: Nexus_init_def res_Inr Let_def forE_def)
  then show "Some h \<notin> set (nx_reg_hooks_arr n)" "\<not> tls_initialized (nx_tls n) t" "nx_freq_ghz n = f"
    by (auto simp: TlsRegistry_def)
qed

lemma register_keeps:
  assumes "register_req_func rt g ft n = Inr (r, n')"
  shows "nx_reg_hooks_arr n' = nx_reg_hooks_arr n" "nx_tls n' = nx_tls n" "nx_freq_ghz n' = nx_freq_ghz n" "nexus_inv n \<Longrightarrow> nexus_inv n'"
  using assms nstep_inv [OF nstep.func [OF assms]] by (auto simp: register_req_func_def res_Inr split: if_splits)

lemma server_created:
  assumes "server_setup v (Inr f) junk_type old_tt hooks c e = Inr (e', s, n)"
    and "cfg e = ib_cfg" "bsrl_r0 e = 0" "\<forall>a. length (entry (ct_wheel_mem c a)) = kWheelBucketCap" "0 < us_to_cycles kWheelSlotWidthUs f"
    and "ct_init c = ib_tr_init reg ret t ring" "fresh_transport t" "length ring = kRQDepth"
  shows "\<exists>e1 n0. e' = hello_server e1 \<and> nexus_inv n0 \<and> created (c\<lparr>ct_rpc_id := 0, ct_phy_port := 0\<rparr>) n0 (e1, s, n)"
proof -
  let ?c = "c\<lparr>ct_rpc_id := 0, ct_phy_port := 0\<rparr>"
  obtain n0 r n1 e1 where a: "Nexus_init v (Inr f) junk_type old_tt hooks server_uri 0 0 = Inr n0"
    and b: "register_req_func (of_nat kReqType) (Some 1) kForeground n0 = Inr (r, n1)"
    and c: "Rpc_init ?c e n1 = Inr (e1, s, n)" and e': "e' = hello_server e1"
    using assms(1) by (auto simp: server_setup_def res_Inr split: prod.splits)
  note k = register_keeps [OF b] and i = server_nexus [OF a]
  have inv: "nexus_inv n1" using k(4) i(1) .
  have "created ?c n1 (e1, s, n)"
    using ib_created [OF inv, of ?c e reg ret t ring] c assms(2-) k(1-3) i by simp
  then show ?thesis using e' inv by blast
qed

text \<open>
  C11. The server program on the InfiniBand transport. Whatever requests, management packets and losses it meets, along every
  run of its endpoint the entries of the receive ring are accounted for, at most 128 clients are connected at a
  time, each session stands in the table under its number and flow control holds. Nothing is asked of the
  application: its handler and its null pointers are those of the program.
\<close>

theorem hello_server_invariant:
  assumes "server_setup v (Inr f) junk_type old_tt hooks c e = Inr (e', s, n)"
    and "cfg e = ib_cfg" "bsrl_r0 e = 0" "\<forall>a. length (entry (ct_wheel_mem c a)) = kWheelBucketCap" "0 < us_to_cycles kWheelSlotWidthUs f"
    and "ct_init c = ib_tr_init reg ret t ring" "fresh_transport t" "length ring = kRQDepth"
    and "(estep e')\<^sup>*\<^sup>* s s'" "length (session_vec s') \<le> 65536"
  shows "ring_entries_available s' + kSessionCredits * active (session_vec s') = kNumRxRingEntries \<and> active (session_vec s') \<le> 128 \<and>
    (\<forall>sn se. get_sess sn s' = Inr se \<longrightarrow> local_session_num se = sn \<and> (is_client se \<longrightarrow> flow_ok se))"
proof -
  obtain e1 n0 where e': "e' = hello_server e1" and c: "created (c\<lparr>ct_rpc_id := 0, ct_phy_port := 0\<rparr>) n0 (e1, s, n)"
    using server_created [OF assms(1-8)] by blast
  have s: "session_vec s = []" "ring_entries_available s = kNumRxRingEntries" using c by (auto simp: created_def rpc_ready_def)
  then have "sm_inv s" "sinv (clients s)" by (auto simp: sm_inv_def active_def numbered_def sinv_flow get_sess_Inr)
  then have i: "sm_inv s'" "sinv (clients s')"
    using esteps_tidy [OF assms(9)] hello_server_cb [of e1] assms(10) e' by (auto simp: tidy_def)
  have "local_session_num se = sn \<and> (is_client se \<longrightarrow> flow_ok se)" if "get_sess sn s' = Inr se" for sn se
    using i that assms(10) by (auto simp: sm_inv_def numbered_def get_sess_Inr u16_of_def sinv_flow)
  then show ?thesis using i(1) by (auto simp: sm_inv_def)
qed

text \<open>
  When the time is up the server does not end properly: its Rpc object is alive when the Nexus is destroyed, so that the
  destructor's assertion fails.
\<close>

lemma server_main_never_returns:
  assumes "cfg e = ib_cfg" "bsrl_r0 e = 0" "\<forall>a. length (entry (ct_wheel_mem c a)) = kWheelBucketCap" "0 < us_to_cycles kWheelSlotWidthUs f"
    and "ct_init c = ib_tr_init reg ret t ring" "fresh_transport t" "length ring = kRQDepth"
  shows "server_main v (Inr f) junk_type old_tt hooks junk c e fuel arrive \<noteq> Inr n'"
proof
  assume "server_main v (Inr f) junk_type old_tt hooks junk c e fuel arrive = Inr n'"
  then obtain e' s n where a: "server_setup v (Inr f) junk_type old_tt hooks c e = Inr (e', s, n)" and b: "Nexus_destroy junk n = Inr n'"
    by (auto simp: server_main_def res_Inr split: prod.splits)
  obtain n0 where inv: "nexus_inv n0" and r: "nx_reg_hooks_arr n = (nx_reg_hooks_arr n0)[0 := Some (ct_hook c)]"
    using server_created [OF a assms] by (auto simp: created_def)
  have "nx_reg_hooks_arr n \<noteq> []" using r inv by (auto simp: nexus_inv_def)
  then have "nx_reg_hooks_arr n ! 0 \<in> set (nx_reg_hooks_arr n)" by (intro nth_mem) simp
  moreover have "nx_reg_hooks_arr n ! 0 = Some (ct_hook c)" using r inv by (simp add: nexus_inv_def)
  ultimately show False using b by (auto simp: Nexus_destroy_def res_Inr Let_def)
qed

subsection \<open>The client's wait\<close>

text \<open>
  The client does not look at what \<open>create_session\<close> returns, and a session whose connection is refused is
  buried: in both cases the next test of the connection reads outside the table or through a null pointer.
\<close>

lemma wait_on_error_code: "sn < 0 \<Longrightarrow> wait_connected fuel e arrive i sn s = Inl OutOfRange"
  by (simp add: wait_connected.simps rpc_is_connected_def user_session_def)

lemma wait_on_buried_session:
  assumes "run_event_loop_do_one_st e (fst (arrive i s)) (snd (arrive i s)) = Inr s'" "session_vec s' ! nat sn = None" "nat sn < length (session_vec s')"
    and "rpc_is_connected sn s = Inr False"
  shows "wait_connected (Suc fuel) e arrive i sn s = Inl OutOfRange"
proof -
  have "wait_connected fuel e arrive (i + 1) sn s' = Inl OutOfRange"
    using assms(2,3) by (simp add: wait_connected.simps rpc_is_connected_def user_session_def get_sess_def)
  then show ?thesis using assms(1,4) by (simp add: wait_connected.simps [of "Suc fuel"] Let_def case_prod_beta)
qed

text \<open>When the wait ends, the session is connected.\<close>

lemma wait_connected_ends: "wait_connected fuel e arrive i sn s = Inr s' \<Longrightarrow> rpc_is_connected sn s' = Inr True"
proof (induction fuel e arrive i sn s rule: wait_connected.induct)
  case (1 fuel e arrive i sn s)
  show ?case
  proof (cases "rpc_is_connected sn s = Inr True")
    case True
    then show ?thesis using 1(2) by (simp add: wait_connected.simps)
  next
    case False
    then obtain n s1 where n: "fuel = Suc n" "wait_connected n e arrive (i + 1) sn s1 = Inr s'" "rpc_is_connected sn s = Inr False"
      and s1: "run_event_loop_do_one_st e (fst (arrive i s)) (snd (arrive i s)) = Inr s1"
      using 1(2) by (subst (asm) wait_connected.simps) (auto simp: res_Inr Let_def case_prod_beta split: if_splits nat.splits)
    then show ?thesis using 1(1) by (metis prod.collapse)
  qed
qed

subsection \<open>The server of the example starts\<close>

lemma hello_uri: "split_uri server_uri = Inr (''192.168.3.71'', 31850)"
  using split_uri_tokens [of "''192.168.3.71''" "''31850''"]
  by (simp add: split_uri_def is_valid_uri_def stoi_def is_digit_def is_space_def dec_val_def rt_assert_def)

lemma hello_starts:
  "\<exists>e' s n. server_setup demo_numa (Inr 2) kForeground kRaw (\<lambda>_. Hook_init 0) ex_ctor ex_env = Inr (e', s, n) \<and> session_vec s = []"
proof -
  let ?c = "ex_ctor\<lparr>ct_rpc_id := 0, ct_phy_port := 0\<rparr>"
  obtain n0 where a: "Nexus_init demo_numa (Inr 2) kForeground kRaw (\<lambda>_. Hook_init 0) server_uri 0 0 = Inr n0"
    using Nexus_init_ok [OF hello_uri, where lcores = "[0, 1, 2, 3]" and n_bg = 0 and numa_node = 0 and v = demo_numa and f = 2]
    by (force simp: get_lcores_for_numa_node_def num_lcores_per_numa_node_def demo_numa_def upt_4)
  have h: "nx_reg_hooks_arr n0 ! 0 = None" "nx_numa_node n0 = 0" "is_registered (nx_req_func_arr n0 ! 2) = False" "nx_registration_allowed n0"
    using a by (auto simp: Nexus_init_def res_Inr Let_def is_registered_def)
  obtain r n1 where b: "register_req_func (of_nat kReqType) (Some 1) kForeground n0 = Inr (r, n1)" and nn: "nx_numa_node n1 = nx_numa_node n0"
    using h by (auto simp: register_req_func_def ReqFunc_make_def res_Inr)
  note k = register_keeps [OF b] and i = server_nexus [OF a]
  have v: "valid_args ?c n1" using h nn k(1) by (simp add: valid_args_def ex_ctor_def)
  note f = ex_ctor_facts
  have "\<exists>x. Rpc_init ?c ex_env n1 = Inr x \<and> created ?c n1 x"
    by (rule ib_returns [OF k(4) [OF i(1)] _ _ v f(4,5) _ _ _ ex_fresh f(9), where ?k1.0 = 1 and ?a1.0 = "0x10000000" and ?k2.0 = 2
        and ?a2.0 = "0x20000000" and ?k3.0 = 3 and ?a3.0 = "0x30000000" and rest = "[]"])
      (use f i k(1-3) in \<open>simp_all add: demo_nx_def\<close>)
  then show ?thesis using a b by (auto simp: server_setup_def created_def rpc_ready_def)
qed

theorem hello_server_invariant_witness:
  "\<exists>e' s n. server_setup demo_numa (Inr 2) kForeground kRaw (\<lambda>_. Hook_init 0) ex_ctor ex_env = Inr (e', s, n) \<and>
    ring_entries_available s = 4096 \<and> active (session_vec s) = 0"
proof -
  obtain e' s n where x: "server_setup demo_numa (Inr 2) kForeground kRaw (\<lambda>_. Hook_init 0) ex_ctor ex_env = Inr (e', s, n)" "session_vec s = []"
    using hello_starts by blast
  note f = ex_ctor_facts
  have "0 < us_to_cycles kWheelSlotWidthUs 2" using f(7) by (simp add: demo_nx_def)
  then show ?thesis
    using hello_server_invariant [OF x(1) f(4-6) _ f(8) ex_fresh f(9), of s] x by (auto simp: active_def)
qed

end
