(* ===== verification/Raw_Send.thy ===== *)
theory Raw_Send
  imports Raw_Transport Ib_Transport Host_Setup
begin

section \<open>Sending of the raw Ethernet transport (\<open>raw_transport_datapath.cc\<close>)\<close>

text \<open>
  The send side of the raw transport has the members of the InfiniBand one (work requests, scatter-gather lists, the number of packets
  sent) with the same batch sizes, so that the record \<open>ib_transport\<close> and its device queue \<open>ib_sq\<close> are used for it; its receive members are not
  used here. In addition the transport writes the frame header of each packet into the headroom of the packet's header in the message
  buffer, which the NIC reads from there: the second component of the state is the store of message buffers.
\<close>

subsection \<open>Bursts\<close>

definition raw_init_sends :: "ib_transport \<Rightarrow> ib_transport res" where
  "raw_init_sends t = forE ibPostlist (\<lambda>i t. rangeE (i < length (ib_send_wr t))
    (Inr (t\<lparr>ib_send_wr := (ib_send_wr t)[i := (ib_send_wr t ! i)\<lparr>wr_next := Some (i + 1), wr_opcode := IBV_WR_SEND, wr_sg_list := i\<rparr>]\<rparr>))) t"

definition raw_item_sgl :: "MsgBuffer \<Rightarrow> nat \<Rightarrow> sge list res" where
  "raw_item_sgl m pkt_idx =
    (case mb_buf m of
       None \<Rightarrow> Inl OutOfRange
     | Some buf \<Rightarrow>
         if pkt_idx = 0
         then Inr [\<lparr>sge_addr = get_pkthdr_0 raw_cfg buf, sge_length = get_pkt_size raw_cfg m 0, sge_lkey = lkey (mb_buffer m)\<rparr>]
         else (let offset = pkt_idx * kMaxDataPerPkt raw_cfg
               in Inr [\<lparr>sge_addr = get_pkthdr_n raw_cfg buf (max_data_size m) pkt_idx, sge_length = sizeof_pkthdr raw_cfg, sge_lkey = lkey (mb_buffer m)\<rparr>,
                   \<lparr>sge_addr = buf + offset, sge_length = min (kMaxDataPerPkt raw_cfg) (sub64 (data_size m) offset), sge_lkey = lkey (mb_buffer m)\<rparr>]))"

text \<open>All but the UDP checksum, which is zero, is copied from the routing information; then the two lengths are set.\<close>

definition raw_format_hdr :: "u8 list \<Rightarrow> nat \<Rightarrow> pkthdr \<Rightarrow> pkthdr res" where
  "raw_format_hdr routing_info pkt_size h =
    (let hr0 = take 40 routing_info @ drop 40 (headroom h)
     in assertE (ip_check (get_ipv4_hdr (h\<lparr>headroom := hr0\<rparr>)) = 0)
       (let hr1 = set16 16 (htons (of_nat (sub64 pkt_size 14))) hr0
        in assertE (udp_check (get_udp_hdr (h\<lparr>headroom := hr1\<rparr>)) = 0)
          (Inr (h\<lparr>headroom := set16 38 (htons (of_nat (sub64 (sub64 pkt_size 14) 20))) hr1\<rparr>))))"

text \<open>With \<open>kMaxInline = 0\<close> no packet is sent inline.\<close>

definition raw_tx_one :: "nat \<Rightarrow> nat \<Rightarrow> dpdk_item \<Rightarrow> ib_transport \<times> mb_store \<Rightarrow> (ib_transport \<times> mb_store) res" where
  "raw_tx_one status i item = (\<lambda>(t, store). rangeE (i < length (ib_send_wr t) \<and> i < length (ib_send_sgl t))
    (let wr = ib_send_wr t ! i; m = store (di_msg_buffer item); idx = di_pkt_idx item
     in assertE (wr_next wr = Some (i + 1)) (assertE (wr_opcode wr = IBV_WR_SEND) (assertE (wr_sg_list wr = i)
        (bindE (get_signaled_flag status t) (\<lambda>(signaled, t1).
         bindE (raw_item_sgl m idx) (\<lambda>sgl.
         bindE (raw_format_hdr (di_routing_info item) (sum_list (map sge_length sgl)) (hdrs m idx)) (\<lambda>h.
           let wr1 = wr\<lparr>wr_signaled := signaled, wr_inline := False, wr_num_sge := length sgl\<rparr>
           in Inr (t1\<lparr>ib_send_wr := (ib_send_wr t1)[i := wr1], ib_send_sgl := (ib_send_sgl t1)[i := sgl @ drop (length sgl) (ib_send_sgl t1 ! i)]\<rparr>,
                   store(di_msg_buffer item := m\<lparr>hdrs := (hdrs m)(idx := h)\<rparr>))))))))))"

definition raw_tx_burst :: "nat \<Rightarrow> nat \<Rightarrow> dpdk_item list \<Rightarrow> ib_transport \<times> mb_store \<Rightarrow> (ib_transport \<times> mb_store) res" where
  "raw_tx_burst status ret items s =
    bindE (forE (length items) (\<lambda>i. raw_tx_one status i (items ! i)) s) (\<lambda>(t1, store).
    bindE (set_next (sub64 (length items) 1) None t1) (\<lambda>t2.
    bindE (ibv_post_send ret t2) (\<lambda>t3.
    bindE (set_next (sub64 (length items) 1) (Some (length items)) t3) (\<lambda>t4. Inr (t4, store)))))"

subsection \<open>Flushing\<close>

text \<open>
  \<open>tx_flush\<close> sends a frame of 50 bytes from a buffer of its own: the header of a packet to the endpoint itself, with the destination
  address cleared so that the switch drops it. \<open>self_ri\<close> has 48 bytes.
\<close>

abbreviation (input) flush_size :: nat where "flush_size \<equiv> 50"

definition raw_flush_frame :: "u8 list \<Rightarrow> u32 \<Rightarrow> u16 \<Rightarrow> u8 list res" where
  "raw_flush_frame mac ip port =
    (let self_ri = raw_resolve_remote_routing_info mac ip port (raw_fill_local_routing_info mac ip port) (replicate 6 0);
         bs = self_ri @ replicate 2 0
     in assertE (ip_check (ipv4_of (drop 14 bs)) = 0)
       (let bs1 = set16 32 0 (set16 30 0 (set16 16 (htons (of_nat (flush_size - 14))) bs))
        in assertE (udp_check (udp_of (drop 34 bs1)) = 0) (Inr (set16 38 (htons (of_nat (flush_size - 34))) bs1))))"

definition raw_tx_flush :: "nat \<Rightarrow> nat \<Rightarrow> nat \<Rightarrow> (nat \<Rightarrow> nat \<Rightarrow> u32) \<Rightarrow> u8 list \<Rightarrow> u32 \<Rightarrow> u16 \<Rightarrow> ib_transport \<times> huge_alloc \<Rightarrow> (ib_transport \<times> huge_alloc) res" where
  "raw_tx_flush status ret r0 reg mac ip port = (\<lambda>(t, ha).
    if ib_nb_tx t = 0 then Inr (t, ha)
    else bindE (poll_cq_one_helper status t) (\<lambda>t1.
      bindE (alloc r0 reg flush_size ha) (\<lambda>(b, ha1). assertE (b_buf b \<noteq> None)
      (bindE (raw_flush_frame mac ip port) (\<lambda>_.
       rangeE (0 < length (ib_send_wr t1) \<and> 0 < length (ib_send_sgl t1))
       (let wr = ib_send_wr t1 ! 0
        in assertE (wr_next wr = Some 1) (assertE (wr_opcode wr = IBV_WR_SEND) (assertE (wr_sg_list wr = 0)
          (let t2 = t1\<lparr>ib_send_sgl := (ib_send_sgl t1)[0 := (ib_send_sgl t1 ! 0)[0 := \<lparr>sge_addr = the (b_buf b), sge_length = flush_size, sge_lkey = lkey b\<rparr>]],
                       ib_send_wr := (ib_send_wr t1)[0 := wr\<lparr>wr_next := None, wr_signaled := True, wr_inline := False, wr_num_sge := 1\<rparr>]\<rparr>
           in bindE (ibv_post_send ret t2) (\<lambda>t3. bindE (set_next 0 (Some 1) t3) (\<lambda>t4.
              bindE (poll_cq_one_helper status t4) (\<lambda>t5. bindE (free_buf r0 b ha1) (\<lambda>ha2.
                Inr (t5\<lparr>ib_nb_tx := 0, ib_tx_flush_count := ib_tx_flush_count t5 + 1\<rparr>, ha2))))))))))))))"

subsection \<open>The flow rule of an endpoint\<close>

text \<open>
  The rule that \<open>install_flow_rule\<close> gives to the NIC: IPv4 and UDP frames for the endpoint's MAC address, which is checked
  in full, with any IPv4 addresses, for the endpoint's UDP port. \<open>rule_accepts\<close> is when the NIC steers a frame by it.
\<close>

record raw_flow =
  rf_dst_mac :: "u8 list"
  rf_mac_mask :: "u8 list"
  rf_dst_port :: u16
  rf_port_mask :: u16

definition raw_install_flow_rule :: "bool \<Rightarrow> u8 list \<Rightarrow> u16 \<Rightarrow> raw_flow res" where
  "raw_install_flow_rule created mac rx_flow_udp_port = rt_assert created
    (Inr \<lparr>rf_dst_mac = take 6 mac, rf_mac_mask = replicate 6 0xff, rf_dst_port = htons rx_flow_udp_port, rf_port_mask = 0xffff\<rparr>)"

definition rule_accepts :: "raw_flow \<Rightarrow> u8 list \<Rightarrow> bool" where
  "rule_accepts r bs \<longleftrightarrow> eth_type (eth_of bs) = htons 0x0800 \<and> protocol (ipv4_of (drop 14 bs)) = 17 \<and>
     map2 (AND) (rf_mac_mask r) (dst_mac (eth_of bs)) = map2 (AND) (rf_mac_mask r) (rf_dst_mac r) \<and>
     rf_port_mask r AND dst_port (udp_of (drop 34 bs)) = rf_port_mask r AND rf_dst_port r"

subsection \<open>Frame headers\<close>

definition raw_ri_ok :: "u8 list \<Rightarrow> bool" where
  "raw_ri_ok ri \<longleftrightarrow> (\<exists>e i u rest. mac_ok (dst_mac e) \<and> mac_ok (src_mac e) \<and> ip_check i = 0 \<and> udp_check u = 0 \<and>
     ri = eth_bytes e @ ipv4_bytes i @ udp_bytes u @ rest)"

definition raw_frame :: "u8 list \<Rightarrow> nat \<Rightarrow> u8 list" where
  "raw_frame ri sz = set16 38 (htons (of_nat (sz - 34))) (set16 16 (htons (of_nat (sz - 14))) (take 40 ri @ [0, 0]))"

lemma raw_frame_fields:
  assumes "mac_ok (dst_mac e)" "mac_ok (src_mac e)" "udp_check u = 0" and ri: "ri = eth_bytes e @ ipv4_bytes i @ udp_bytes u @ rest"
  shows "raw_frame ri sz = eth_bytes e @ ipv4_bytes (i\<lparr>tot_len := htons (of_nat (sz - 14))\<rparr>) @ udp_bytes (u\<lparr>udp_len := htons (of_nat (sz - 34))\<rparr>)"
proof -
  have l: "length (eth_bytes e) = 14" by (rule length_eth_bytes [OF assms(1,2)])
  have "take 40 ri @ [0, 0] = eth_bytes e @ ipv4_bytes i @ udp_bytes u" unfolding ri using l by (simp add: udp_bytes_split [OF assms(3)])
  then show ?thesis by (simp add: raw_frame_def set16_append2 set16_append1 l ipv4_set_tot_len udp_set_len)
qed

lemma raw_format_hdr_ok:
  assumes r: "raw_ri_ok ri" and h: "hdr_ok h" and sz: "34 \<le> pkt_size"
  shows "raw_format_hdr ri pkt_size h = Inr (h\<lparr>headroom := raw_frame ri pkt_size\<rparr>)" and "hdr_ok (h\<lparr>headroom := raw_frame ri pkt_size\<rparr>)"
proof -
  obtain e i u rest where e: "mac_ok (dst_mac e)" "mac_ok (src_mac e)" and z: "ip_check i = 0" "udp_check u = 0"
    and ri: "ri = eth_bytes e @ ipv4_bytes i @ udp_bytes u @ rest" using r by (auto simp: raw_ri_ok_def)
  let ?E = "eth_bytes e" and ?w = "htons (of_nat (pkt_size - 14)) :: u16"
  have l: "length ?E = 14" by (rule length_eth_bytes [OF e])
  have h0: "take 40 ri @ drop 40 (headroom h) = ?E @ ipv4_bytes i @ udp_bytes u" using l h by (simp add: ri hdr_ok_def udp_bytes_split [OF z(2)])
  have h1: "set16 16 ?w (?E @ ipv4_bytes i @ udp_bytes u) = ?E @ ipv4_bytes (i\<lparr>tot_len := ?w\<rparr>) @ udp_bytes u"
    by (simp add: set16_append2 set16_append1 l ipv4_set_tot_len)
  have c: "get_ipv4_hdr (h\<lparr>headroom := ?E @ ipv4_bytes i @ udp_bytes u\<rparr>) = i" "get_udp_hdr (h\<lparr>headroom := ?E @ ipv4_bytes j @ udp_bytes u\<rparr>) = u" for j
    using ipv4_of_bytes udp_of_bytes [of u "[]"] by (simp_all add: get_ipv4_hdr_def get_udp_hdr_def l)
  have s: "sub64 pkt_size 14 = pkt_size - 14" "sub64 (pkt_size - 14) 20 = pkt_size - 34" using sz by simp_all
  have f: "set16 38 (htons (of_nat (pkt_size - 34))) (?E @ ipv4_bytes (i\<lparr>tot_len := ?w\<rparr>) @ udp_bytes u) = raw_frame ri pkt_size"
    unfolding raw_frame_fields [OF e z(2) ri] by (simp add: set16_append2 l udp_set_len)
  show "raw_format_hdr ri pkt_size h = Inr (h\<lparr>headroom := raw_frame ri pkt_size\<rparr>)"
    unfolding raw_format_hdr_def h0 s Let_def h1 c f using z by simp
  have "drop 6 (udp_bytes (u\<lparr>udp_len := v\<rparr>)) = [0, 0]" for v using z(2) by (simp add: udp_bytes_def le16_def)
  then show "hdr_ok (h\<lparr>headroom := raw_frame ri pkt_size\<rparr>)" unfolding raw_frame_fields [OF e z(2) ri] by (simp add: hdr_ok_def l)
qed

subsection \<open>A burst\<close>

definition raw_send_ok :: "ib_transport \<Rightarrow> bool" where
  "raw_send_ok t \<longleftrightarrow> wr_linked t \<and> length (ib_send_sgl t) = ibPostlist \<and>
     (\<forall>i < ibPostlist. wr_opcode (ib_send_wr t ! i) = IBV_WR_SEND \<and> wr_sg_list (ib_send_wr t ! i) = i \<and> length (ib_send_sgl t ! i) = 2)"

definition raw_size :: "mb_store \<Rightarrow> dpdk_item \<Rightarrow> nat" where
  "raw_size store item = get_pkt_size raw_cfg (store (di_msg_buffer item)) (di_pkt_idx item)"

definition raw_items_ok :: "mb_store \<Rightarrow> dpdk_item list \<Rightarrow> bool" where
  "raw_items_ok store items \<longleftrightarrow> 0 < length items \<and> length items \<le> ibPostlist \<and>
     (\<forall>a \<in> set items. mb_buf (store (di_msg_buffer a)) \<noteq> None \<and> raw_ri_ok (di_routing_info a)) \<and>
     (\<forall>a \<in> set items. \<forall>b \<in> set items. di_msg_buffer a = di_msg_buffer b \<longrightarrow> di_routing_info a = di_routing_info b)"

definition raw_framed :: "mb_store \<Rightarrow> dpdk_item list \<Rightarrow> mb_store \<Rightarrow> bool" where
  "raw_framed store items store' \<longleftrightarrow> headrooms_only store store' \<and>
     (\<forall>a \<in> set items. headroom (hdrs (store' (di_msg_buffer a)) (di_pkt_idx a)) = raw_frame (di_routing_info a) (raw_size store a))"

definition raw_in_burst :: "ib_transport \<Rightarrow> mb_store \<Rightarrow> dpdk_item list \<Rightarrow> nat \<Rightarrow> ib_transport \<times> mb_store \<Rightarrow> bool" where
  "raw_in_burst t0 store0 items i = (\<lambda>(t, store). raw_send_ok t \<and> ib_nb_tx t = ib_nb_tx t0 + i \<and> sq_ok (ib_nb_tx t) (ib_nb_tx t0) t \<and>
     (\<exists>ds. ib_sq t0 = ds @ ib_sq t) \<and> raw_framed store0 (take i items) store \<and>
     (\<forall>k < i. wr_signaled (ib_send_wr t ! k) = (ibUnsigBatch dvd (ib_nb_tx t0 + k)) \<and>
        raw_item_sgl (store0 (di_msg_buffer (items ! k))) (di_pkt_idx (items ! k)) = Inr (take (wr_num_sge (ib_send_wr t ! k)) (ib_send_sgl t ! k))))"

lemma raw_item_sgl_cases:
  assumes "mb_buf m \<noteq> None"
  shows "\<exists>sgl. raw_item_sgl m idx = Inr sgl \<and> 0 < length sgl \<and> length sgl \<le> 2 \<and> sum_list (map sge_length sgl) = get_pkt_size raw_cfg m idx"
  using assms by (auto simp: raw_item_sgl_def Let_def get_pkt_size_def)

lemma raw_item_sgl_hdrs [simp]: "raw_item_sgl (m\<lparr>hdrs := hs\<rparr>) idx = raw_item_sgl m idx" "get_pkt_size c (m\<lparr>hdrs := hs\<rparr>) idx = get_pkt_size c m idx"
  by (auto simp: raw_item_sgl_def get_pkt_size_def Let_def split: option.splits)

lemma raw_framed_step:
  assumes f: "raw_framed store0 xs store" and r: "raw_ri_ok (di_routing_info a)"
    and same: "\<forall>b \<in> set xs. di_msg_buffer b = di_msg_buffer a \<longrightarrow> di_routing_info b = di_routing_info a"
  defines "m \<equiv> store (di_msg_buffer a)"
  shows "\<exists>h. raw_format_hdr (di_routing_info a) (raw_size store0 a) (hdrs m (di_pkt_idx a)) = Inr h \<and>
    raw_framed store0 (xs @ [a]) (store(di_msg_buffer a := m\<lparr>hdrs := (hdrs m)(di_pkt_idx a := h)\<rparr>))"
proof -
  let ?k = "di_msg_buffer a" and ?idx = "di_pkt_idx a"
  obtain hs where hs: "m = (store0 ?k)\<lparr>hdrs := hs\<rparr>" "\<And>idx. hdr_ok (hs idx)" "\<And>idx. \<exists>hr. hs idx = (hdrs (store0 ?k) idx)\<lparr>headroom := hr\<rparr>"
    using f unfolding raw_framed_def headrooms_only_def m_def by blast
  let ?h = "(hs ?idx)\<lparr>headroom := raw_frame (di_routing_info a) (raw_size store0 a)\<rparr>"
  have sz: "34 \<le> raw_size store0 a" by (simp add: raw_size_def get_pkt_size_def Let_def sizeof_pkthdr_def raw_cfg_def)
  note fm = raw_format_hdr_ok [OF r hs(2) [of ?idx] sz]
  have m1: "m\<lparr>hdrs := (hdrs m)(?idx := ?h)\<rparr> = (store0 ?k)\<lparr>hdrs := hs(?idx := ?h)\<rparr>" by (simp add: hs(1))
  have "hdr_ok ((hs(?idx := ?h)) idx) \<and> (\<exists>hr. (hs(?idx := ?h)) idx = (hdrs (store0 ?k) idx)\<lparr>headroom := hr\<rparr>)" for idx
  proof (cases "idx = ?idx")
    case True
    obtain hr0 where "hs ?idx = (hdrs (store0 ?k) ?idx)\<lparr>headroom := hr0\<rparr>" using hs(3) by blast
    then show ?thesis using True fm(2) by auto
  qed (use hs(2,3) in simp)
  then have "headrooms_only store0 (store(?k := m\<lparr>hdrs := (hdrs m)(?idx := ?h)\<rparr>))"
    using f unfolding m1 raw_framed_def headrooms_only_def by auto
  moreover have "headroom (hdrs ((store(?k := m\<lparr>hdrs := (hdrs m)(?idx := ?h)\<rparr>)) (di_msg_buffer b)) (di_pkt_idx b)) = raw_frame (di_routing_info b) (raw_size store0 b)"
    if "b \<in> set (xs @ [a])" for b
    using that f same by (auto simp: raw_framed_def raw_size_def m_def)
  ultimately show ?thesis using fm(1) by (intro exI [of _ ?h]) (auto simp: raw_framed_def hs(1))
qed

lemma raw_tx_one_ok:
  assumes b: "raw_in_burst t0 store0 items i s" and i: "i < length items" and it: "raw_items_ok store0 items"
  shows "holds (raw_in_burst t0 store0 items (Suc i)) (raw_tx_one 0 i (items ! i) s)"
proof -
  obtain t store where s: "s = (t, store)" by (cases s)
  let ?a = "items ! i" and ?wr = "ib_send_wr t ! i"
  let ?k = "di_msg_buffer ?a" and ?idx = "di_pkt_idx ?a"
  have l: "length items \<le> 16" and a: "mb_buf (store0 ?k) \<noteq> None" "raw_ri_ok (di_routing_info ?a)" using it i by (auto simp: raw_items_ok_def)
  have so: "raw_send_ok t" and f: "raw_framed store0 (take i items) store" using b by (auto simp: raw_in_burst_def s)
  have wr: "i < length (ib_send_wr t)" "i < length (ib_send_sgl t)" "wr_next ?wr = Some (i + 1)" "wr_opcode ?wr = IBV_WR_SEND" "wr_sg_list ?wr = i" "length (ib_send_sgl t ! i) = 2"
    using so i l by (auto simp: raw_send_ok_def wr_linked_def)
  obtain ws where ws: "get_signaled_flag 0 t = Inr (64 dvd ib_nb_tx t, t\<lparr>ib_sq := ws, ib_nb_tx := ib_nb_tx t + 1\<rparr>)"
      "sq_ok (ib_nb_tx t + 1) (ib_nb_tx t0) (t\<lparr>ib_sq := ws\<rparr>)" "\<exists>ds. ib_sq t = ds @ ws"
    using get_signaled_flag_ok [of t "ib_nb_tx t0"] b i l by (auto simp: raw_in_burst_def s)
  obtain hs where hs: "store ?k = (store0 ?k)\<lparr>hdrs := hs\<rparr>" using f unfolding raw_framed_def headrooms_only_def by blast
  obtain sgl where sgl: "raw_item_sgl (store0 ?k) ?idx = Inr sgl" "0 < length sgl" "length sgl \<le> 2" "sum_list (map sge_length sgl) = raw_size store0 ?a"
    using raw_item_sgl_cases [OF a(1)] unfolding raw_size_def by blast
  have sgl': "raw_item_sgl (store ?k) ?idx = Inr sgl" using sgl(1) by (simp add: hs)
  have "\<forall>b \<in> set (take i items). di_msg_buffer b = ?k \<longrightarrow> di_routing_info b = di_routing_info ?a"
    using it i unfolding raw_items_ok_def by (meson in_set_takeD nth_mem)
  then obtain h where h: "raw_format_hdr (di_routing_info ?a) (raw_size store0 ?a) (hdrs (store ?k) ?idx) = Inr h"
      "raw_framed store0 (take (Suc i) items) (store(?k := (store ?k)\<lparr>hdrs := (hdrs (store ?k))(?idx := h)\<rparr>))"
    using raw_framed_step [OF f a(2)] i by (auto simp: take_Suc_conv_app_nth)
  let ?t1 = "t\<lparr>ib_sq := ws, ib_nb_tx := ib_nb_tx t + 1,
      ib_send_wr := (ib_send_wr t)[i := ?wr\<lparr>wr_signaled := 64 dvd ib_nb_tx t, wr_inline := False, wr_num_sge := length sgl\<rparr>],
      ib_send_sgl := (ib_send_sgl t)[i := sgl @ drop (length sgl) (ib_send_sgl t ! i)]\<rparr>"
  have run: "raw_tx_one 0 i ?a s = Inr (?t1, store(?k := (store ?k)\<lparr>hdrs := (hdrs (store ?k))(?idx := h)\<rparr>))"
    using wr by (simp add: raw_tx_one_def s ws(1) sgl' sgl(4) h(1) Let_def)
  have "raw_send_ok ?t1" using so wr sgl by (auto simp: raw_send_ok_def wr_linked_def nth_list_update)
  moreover have "wr_signaled (ib_send_wr ?t1 ! k) = (64 dvd (ib_nb_tx t0 + k)) \<and>
      raw_item_sgl (store0 (di_msg_buffer (items ! k))) (di_pkt_idx (items ! k)) = Inr (take (wr_num_sge (ib_send_wr ?t1 ! k)) (ib_send_sgl ?t1 ! k))" if "k < Suc i" for k
    using that b wr(1,2) sgl by (cases "k = i") (auto simp: raw_in_burst_def s)
  moreover have "sq_ok (ib_nb_tx ?t1) (ib_nb_tx t0) ?t1" using ws(2) by (simp add: sq_ok_def)
  moreover have "\<exists>ds. ib_sq t0 = ds @ ib_sq ?t1" using b ws(3) by (auto simp: raw_in_burst_def s)
  moreover have "ib_nb_tx ?t1 = ib_nb_tx t0 + Suc i" using b by (simp add: raw_in_burst_def s)
  ultimately have "raw_in_burst t0 store0 items (Suc i) (?t1, store(?k := (store ?k)\<lparr>hdrs := (hdrs (store ?k))(?idx := h)\<rparr>))"
    using h(2) unfolding raw_in_burst_def prod.case by blast
  then show ?thesis unfolding run by simp
qed

definition raw_tx_inv :: "ib_transport \<Rightarrow> bool" where
  "raw_tx_inv t \<longleftrightarrow> raw_send_ok t \<and> sq_ok (ib_nb_tx t) (ib_nb_tx t) t"

text \<open>\<open>raw_sends store item w\<close>: the request starts at the item's packet header and has as many bytes as the packet.\<close>

definition raw_sends :: "mb_store \<Rightarrow> dpdk_item \<Rightarrow> wqe \<Rightarrow> bool" where
  "raw_sends store item w \<longleftrightarrow> wq_sgl w \<noteq> [] \<and> sum_list (map sge_length (wq_sgl w)) = raw_size store item \<and>
     (\<exists>buf. mb_buf (store (di_msg_buffer item)) = Some buf \<and>
        sge_addr (hd (wq_sgl w)) = get_pkthdr_n raw_cfg buf (max_data_size (store (di_msg_buffer item))) (di_pkt_idx item))"

lemma raw_item_sgl_sends: "raw_item_sgl (store (di_msg_buffer item)) (di_pkt_idx item) = Inr (wq_sgl w) \<Longrightarrow> raw_sends store item w"
  by (cases w) (auto simp: raw_sends_def raw_item_sgl_def raw_size_def get_pkt_size_def get_pkthdr_n_def Let_def split: option.splits if_splits)

lemma raw_tx_burst_ok:
  assumes inv: "raw_tx_inv t" and it: "raw_items_ok store items" and h: "\<forall>k idx. hdr_ok (hdrs (store k) idx)"
  shows "\<exists>t' store' ds ks ws. raw_tx_burst 0 0 items (t, store) = Inr (t', store') \<and> raw_tx_inv t' \<and> ib_sq t = ds @ ks \<and> ib_sq t' = ks @ ws \<and>
    list_all2 (raw_sends store) items ws \<and> raw_framed store items store'"
proof -
  let ?k = "length items"
  have k: "0 < ?k" "?k \<le> 16" using it by (auto simp: raw_items_ok_def)
  have "store k = (store k)\<lparr>hdrs := hdrs (store k)\<rparr>" "hdrs (store k) idx = (hdrs (store k) idx)\<lparr>headroom := headroom (hdrs (store k) idx)\<rparr>" for k idx by simp_all
  then have "headrooms_only store store" using h unfolding headrooms_only_def by blast
  then have b0: "raw_in_burst t store items 0 (t, store)" using inv by (simp add: raw_in_burst_def raw_tx_inv_def raw_framed_def)
  have "holds (raw_in_burst t store items ?k) (forE ?k (\<lambda>i. raw_tx_one 0 i (items ! i)) (t, store))"
    by (rule holds_forE) (use b0 it raw_tx_one_ok in auto)
  then obtain t1 store1 where t1: "forE ?k (\<lambda>i. raw_tx_one 0 i (items ! i)) (t, store) = Inr (t1, store1)" "raw_in_burst t store items ?k (t1, store1)"
    by (auto simp: holds_iff)
  have s1: "raw_send_ok t1" using t1(2) by (simp add: raw_in_burst_def)
  then have lk: "wr_linked t1" by (simp add: raw_send_ok_def)
  let ?ws = "(ib_send_wr t1)[?k - 1 := (ib_send_wr t1 ! (?k - 1))\<lparr>wr_next := None\<rparr>]"
  let ?new = "map (\<lambda>i. \<lparr>wq_wr = ?ws ! i, wq_sgl = take (wr_num_sge (?ws ! i)) (ib_send_sgl t1 ! wr_sg_list (?ws ! i))\<rparr>) [0..<?k]"
  let ?t' = "t1\<lparr>ib_sq := ib_sq t1 @ ?new\<rparr>"
  have sub: "sub64 ?k 1 = ?k - 1" "Suc (?k - 1) = ?k" using k(1) by (cases items; simp)+
  have post: "bindE (set_next (?k - 1) None t1) (\<lambda>t2. bindE (ibv_post_send 0 t2) (set_next (?k - 1) (Some ?k))) = Inr ?t'"
    using break_post_restore [OF lk _ refl, of "?k - 1", unfolded sub(2)] k by simp
  have run: "raw_tx_burst 0 0 items (t, store) = Inr (?t', store1)"
    using post unfolding raw_tx_burst_def t1(1) sub(1) by (auto simp: bindE_eq_Inr)
  have wr: "wr_signaled (?ws ! i) = (64 dvd (ib_nb_tx t + i))"
      "raw_item_sgl (store (di_msg_buffer (items ! i))) (di_pkt_idx (items ! i)) = Inr (take (wr_num_sge (?ws ! i)) (ib_send_sgl t1 ! wr_sg_list (?ws ! i)))" if "i < ?k" for i
    using t1(2) that k by (cases "i = ?k - 1"; auto simp: raw_in_burst_def raw_send_ok_def wr_linked_def)+
  have "map (\<lambda>w. wr_signaled (wq_wr w)) ?new = map (\<lambda>j. 64 dvd j) [ib_nb_tx t..<ib_nb_tx t + ?k]"
    by (rule nth_equalityI) (use wr(1) in auto)
  then have "sq_flags ?t' = map (\<lambda>j. 64 dvd j) ([sq_low (ib_nb_tx t + ?k)..<ib_nb_tx t] @ [ib_nb_tx t..<ib_nb_tx t + ?k])"
    using t1(2) by (simp add: raw_in_burst_def sq_ok_def)
  also have "[sq_low (ib_nb_tx t + ?k)..<ib_nb_tx t] @ [ib_nb_tx t..<ib_nb_tx t + ?k] = [sq_low (ib_nb_tx t + ?k)..<ib_nb_tx t + ?k]"
    by (rule sq_low_append) (use k in simp)
  finally have "sq_ok (ib_nb_tx t + ?k) (ib_nb_tx t + ?k) ?t'" by (simp add: sq_ok_def)
  then have inv': "raw_tx_inv ?t'" using t1(2) by (simp add: raw_tx_inv_def raw_in_burst_def raw_send_ok_def wr_linked_def)
  have sent: "list_all2 (raw_sends store) items ?new" using wr(2) raw_item_sgl_sends by (simp add: list_all2_conv_all_nth)
  obtain ds where ds: "ib_sq t = ds @ ib_sq t1" "raw_framed store items store1" using t1(2) by (auto simp: raw_in_burst_def)
  show ?thesis
    by (rule exI [of _ ?t'], rule exI [of _ store1], rule exI [of _ ds], rule exI [of _ "ib_sq t1"], rule exI [of _ ?new])
      (intro conjI run inv' sent ds, simp)
qed

subsection \<open>A flush\<close>

lemma raw_flush_frame_ok:
  assumes "mac_ok mac"
  shows "\<exists>bs. raw_flush_frame mac ip port = Inr bs \<and> length bs = flush_size \<and> dst_ip (ipv4_of (drop 14 bs)) = 0 \<and> tot_len (ipv4_of (drop 14 bs)) = htons 36"
proof -
  let ?e = "gen_eth_header mac (take 6 mac)" and ?i = "gen_ipv4_header ip ip 0" and ?u = "gen_udp_header port port 0" and ?z = "replicate 8 (0 :: u8)"
  have z: "replicate 6 (0 :: u8) @ replicate 2 0 = ?z" by (simp flip: replicate_add)
  have l: "length (eth_bytes ?e) = 14" using assms by (intro length_eth_bytes) (simp_all add: mac_ok_def gen_eth_header_def)
  have bs: "raw_resolve_remote_routing_info mac ip port (raw_fill_local_routing_info mac ip port) (replicate 6 0) @ replicate 2 0 =
      eth_bytes ?e @ ipv4_bytes ?i @ udp_bytes ?u @ ?z"
    by (simp add: raw_resolve_remote_routing_info_def raw_fill_local_routing_info_def z)
  have ip0: "set16 18 0 (set16 16 0 (ipv4_bytes j)) = ipv4_bytes (j\<lparr>dst_ip := 0\<rparr>)" for j
    by (simp add: set16_def ipv4_bytes_def le16_def le32_def)
  let ?i1 = "?i\<lparr>tot_len := htons 36, dst_ip := 0\<rparr>"
  have bs1: "set16 32 0 (set16 30 0 (set16 16 (htons 36) (eth_bytes ?e @ ipv4_bytes ?i @ udp_bytes ?u @ ?z))) = eth_bytes ?e @ ipv4_bytes ?i1 @ udp_bytes ?u @ ?z"
    by (simp add: set16_append2 set16_append1 l ipv4_set_tot_len ip0)
  have bs2: "set16 38 w (eth_bytes ?e @ ipv4_bytes ?i1 @ udp_bytes ?u @ ?z) = eth_bytes ?e @ ipv4_bytes ?i1 @ udp_bytes (?u\<lparr>udp_len := w\<rparr>) @ ?z" for w
    by (simp add: set16_append2 set16_append1 l udp_set_len)
  have d: "drop 14 (eth_bytes ?e @ ipv4_bytes j @ xs) = ipv4_bytes j @ xs" "drop 34 (eth_bytes ?e @ ipv4_bytes j @ xs) = xs" for j xs by (simp_all add: l)
  have c: "ip_check ?i = 0" "udp_check ?u = 0" by (simp_all add: gen_ipv4_header_def gen_udp_header_def)
  have n: "of_nat (flush_size - 14) = (36 :: u16)" by simp
  have "raw_flush_frame mac ip port = Inr (eth_bytes ?e @ ipv4_bytes ?i1 @ udp_bytes (?u\<lparr>udp_len := htons (of_nat (flush_size - 34))\<rparr>) @ ?z)"
    unfolding raw_flush_frame_def Let_def bs n bs1 bs2 d ipv4_of_bytes udp_of_bytes c by simp
  moreover have "ipv4_of (ipv4_bytes ?i1 @ xs) = ?i1" for xs by (rule ipv4_of_bytes)
  ultimately show ?thesis by (simp add: l)
qed

lemma raw_tx_flush_ok:
  assumes inv: "raw_tx_inv t" and mac: "mac_ok mac" and nb: "ib_nb_tx t \<noteq> 0"
    and ha: "ha_ready ha" and al: "alloc 0 reg flush_size ha = Inr (b, ha1)" "b_buf b \<noteq> None"
  shows "\<exists>t' ha'. raw_tx_flush 0 0 0 reg mac ip port (t, ha) = Inr (t', ha') \<and> raw_tx_inv t' \<and> ib_nb_tx t' = 0 \<and> ib_sq t' = [] \<and>
    ha_inv ha' \<and> free_foot ha' = free_foot ha1 + foot b \<and> user_alloc_tot ha' = user_alloc_tot ha"
proof -
  have so: "raw_send_ok t" using inv by (simp add: raw_tx_inv_def)
  obtain us vs where "sq_flags t = us @ True # vs" "True \<notin> set us" and vs: "True \<notin> set vs"
    using one_signaled [of "ib_nb_tx t"] inv nb by (auto simp: raw_tx_inv_def sq_ok_def)
  then obtain ws where ws: "poll_cq_one_helper 0 t = Inr (t\<lparr>ib_sq := ws\<rparr>)" "map (\<lambda>w. wr_signaled (wq_wr w)) ws = vs"
    using poll_flags [of t] by blast
  let ?wrN = "(ib_send_wr t ! 0)\<lparr>wr_next := None, wr_signaled := True, wr_inline := False, wr_num_sge := 1\<rparr>"
  let ?wr = "(ib_send_wr t ! 0)\<lparr>wr_signaled := True, wr_inline := False, wr_num_sge := 1\<rparr>"
  let ?sgl = "(ib_send_sgl t)[0 := (ib_send_sgl t ! 0)[0 := \<lparr>sge_addr = the (b_buf b), sge_length = flush_size, sge_lkey = lkey b\<rparr>]]"
  let ?t = "t\<lparr>ib_sq := ws, ib_send_sgl := ?sgl, ib_send_wr := (ib_send_wr t)[0 := ?wr]\<rparr>"
  have l: "length (ib_send_wr t) = 17" "length (ib_send_sgl t) = 16" using so by (auto simp: raw_send_ok_def wr_linked_def)
  then have ne: "ib_send_wr t \<noteq> []" "ib_send_sgl t \<noteq> []" by auto
  have wr0: "?wr\<lparr>wr_next := None\<rparr> = ?wrN" by (cases "ib_send_wr t ! 0") simp
  have so1: "raw_send_ok ?t" using so by (auto simp: raw_send_ok_def wr_linked_def nth_list_update)
  then have lk: "wr_linked ?t" by (simp add: raw_send_ok_def)
  obtain w where w: "bindE (set_next 0 None ?t) (\<lambda>t2. bindE (ibv_post_send 0 t2) (set_next 0 (Some (Suc 0)))) = Inr (?t\<lparr>ib_sq := ws @ [w]\<rparr>)"
      "wr_signaled (wq_wr w)"
    using break_post_restore [OF lk _ refl, of 0] l by simp
  have "sq_flags (?t\<lparr>ib_sq := ws @ [w]\<rparr>) = vs @ True # []" using ws(2) w(2) by simp
  from poll_flags [OF this vs] have p2: "poll_cq_one_helper 0 (?t\<lparr>ib_sq := ws @ [w]\<rparr>) = Inr (?t\<lparr>ib_sq := []\<rparr>)" by auto
  have "set_next 0 None ?t = Inr (t\<lparr>ib_sq := ws, ib_send_sgl := ?sgl, ib_send_wr := (ib_send_wr t)[0 := ?wrN]\<rparr>)"
    unfolding wr0 [symmetric] using l ne by (simp add: set_next_def)
  with w(1) obtain t3 where p1: "ibv_post_send 0 (t\<lparr>ib_sq := ws, ib_send_sgl := ?sgl, ib_send_wr := (ib_send_wr t)[0 := ?wrN]\<rparr>) = Inr t3"
      "set_next 0 (Some (Suc 0)) t3 = Inr (?t\<lparr>ib_sq := ws @ [w]\<rparr>)" by (auto simp: bindE_eq_Inr)
  have post: "alloc_post flush_size ha (b, ha1)" using alloc_ok [of ha flush_size 0 reg] ha al(1) by (simp add: ha_ready_def)
  have ow: "owned b" using alloc_post_owned [OF post _ al(2)] by simp
  obtain ha2 where ha2: "free_buf 0 b ha1 = Inr ha2" "ha_inv ha2" "free_foot ha2 = free_foot ha1 + foot b" "user_alloc_tot ha2 = sub64 (user_alloc_tot ha1) (class_size b)"
    using free_buf_ok [OF _ ow refl, of ha1] post by (auto simp: alloc_post_def holds_iff)
  have u: "user_alloc_tot ha2 = user_alloc_tot ha" using ha2(4) post al(2) by (simp add: alloc_post_def)
  have "raw_tx_flush 0 0 0 reg mac ip port (t, ha) = Inr (?t\<lparr>ib_sq := [], ib_nb_tx := 0, ib_tx_flush_count := ib_tx_flush_count t + 1\<rparr>, ha2)"
    using nb so l ne p1 p2 al ha2(1) raw_flush_frame_ok [OF mac, of ip port]
    by (auto simp: raw_tx_flush_def ws(1) raw_send_ok_def wr_linked_def Let_def)
  then show ?thesis using so1 ha2 u by (simp add: raw_tx_inv_def raw_send_ok_def wr_linked_def sq_ok_def)
qed

subsection \<open>Every state of the send side\<close>

lemma raw_init_sends_ok:
  assumes f: "fresh_transport t"
  shows "holds raw_tx_inv (raw_init_sends t)"
proof -
  have len: "length (ib_send_wr t) = 17" "length (ib_send_sgl t) = 16" "\<forall>sgl \<in> set (ib_send_sgl t). length sgl = 2" "ib_nb_tx t = 0" "ib_sq t = []"
    using f by (auto simp: fresh_transport_def)
  let ?P = "\<lambda>k t'. \<exists>ws. t' = t\<lparr>ib_send_wr := ws\<rparr> \<and> length ws = 17 \<and> (\<forall>i < k. wr_next (ws ! i) = Some (i + 1) \<and>
     wr_opcode (ws ! i) = IBV_WR_SEND \<and> wr_sg_list (ws ! i) = i)"
  have "holds (?P 16) (raw_init_sends t)"
    unfolding raw_init_sends_def
  proof (rule holds_forE)
    show "?P 0 t" using len by (intro exI [of _ "ib_send_wr t"]) simp
  qed (auto, rule exI, rule conjI, rule refl, auto simp: nth_list_update less_Suc_eq)
  then show ?thesis by (rule holds_weaken) (use len in \<open>auto simp: raw_tx_inv_def raw_send_ok_def wr_linked_def sq_ok_def\<close>)
qed

inductive raw_tx_reach :: "ib_transport \<Rightarrow> ib_transport \<Rightarrow> bool" for t0 where
  reach_init: "raw_init_sends t0 = Inr t \<Longrightarrow> raw_tx_reach t0 t"
| reach_burst: "raw_tx_reach t0 t \<Longrightarrow> raw_items_ok store items \<Longrightarrow> \<forall>k idx. hdr_ok (hdrs (store k) idx) \<Longrightarrow>
    raw_tx_burst 0 0 items (t, store) = Inr (t', store') \<Longrightarrow> raw_tx_reach t0 t'"
| reach_flush: "raw_tx_reach t0 t \<Longrightarrow> mac_ok mac \<Longrightarrow> ha_ready ha \<Longrightarrow> raw_tx_flush 0 0 0 reg mac ip port (t, ha) = Inr (t', ha') \<Longrightarrow> raw_tx_reach t0 t'"

lemma raw_tx_reach_inv:
  assumes "raw_tx_reach t0 t" "fresh_transport t0"
  shows "raw_tx_inv t"
  using assms
proof (induction rule: raw_tx_reach.induct)
  case (reach_init t)
  then show ?case using raw_init_sends_ok [of t0] by simp
next
  case (reach_burst t store items t' store')
  then show ?case using raw_tx_burst_ok [of t store items] by auto
next
  case (reach_flush t mac ha reg ip port t' ha')
  show ?case
  proof (cases "ib_nb_tx t = 0")
    case True
    then show ?thesis using reach_flush by (simp add: raw_tx_flush_def)
  next
    case False
    then obtain b ha1 where "alloc 0 reg flush_size ha = Inr (b, ha1)" "b_buf b \<noteq> None"
      using reach_flush.hyps(4) by (auto simp: raw_tx_flush_def res_Inr)
    moreover have "raw_tx_inv t" using reach_flush by simp
    ultimately show ?thesis using raw_tx_flush_ok [OF _ reach_flush.hyps(2) False reach_flush.hyps(3), of reg b ha1 ip port] reach_flush.hyps(4) by auto
  qed
qed

text \<open>The frame of a packet to a peer, whose routing information was resolved, passes the peer's flow rule.\<close>

lemma raw_ri_resolved:
  assumes "mac_ok mac" "mac_ok mac'"
  shows "raw_ri_ok (raw_resolve_remote_routing_info mac ip port (raw_fill_local_routing_info mac' ip' port') rest)"
proof -
  let ?e = "gen_eth_header mac (take 6 mac')" and ?i = "gen_ipv4_header ip ip' 0" and ?u = "gen_udp_header port port' 0"
  have "mac_ok (dst_mac ?e)" "mac_ok (src_mac ?e)" using assms by (simp_all add: mac_ok_def gen_eth_header_def)
  moreover have "ip_check ?i = 0" "udp_check ?u = 0" by (simp_all add: gen_ipv4_header_def gen_udp_header_def)
  ultimately show ?thesis unfolding raw_ri_ok_def raw_resolve_remote_routing_info_def
    by (intro exI [of _ ?e] exI [of _ ?i] exI [of _ ?u] exI [of _ rest]) (simp add: raw_fill_local_routing_info_def)
qed

lemma raw_frame_accepted:
  assumes "mac_ok mac" "mac_ok mac'" "raw_install_flow_rule True mac' port' = Inr r"
  shows "rule_accepts r (raw_frame (raw_resolve_remote_routing_info mac ip port (raw_fill_local_routing_info mac' ip' port') rest) sz)"
proof -
  let ?e = "gen_eth_header mac (take 6 mac')" and ?i = "gen_ipv4_header ip ip' 0" and ?u = "gen_udp_header port port' 0"
  have m: "mac_ok (dst_mac ?e)" "mac_ok (src_mac ?e)" using assms by (simp_all add: mac_ok_def gen_eth_header_def)
  have u: "udp_check ?u = 0" by (simp add: gen_udp_header_def)
  have l: "length (eth_bytes ?e) = 14" by (rule length_eth_bytes [OF m])
  have ri: "raw_resolve_remote_routing_info mac ip port (raw_fill_local_routing_info mac' ip' port') rest = eth_bytes ?e @ ipv4_bytes ?i @ udp_bytes ?u @ rest"
    by (simp add: raw_resolve_remote_routing_info_def raw_fill_local_routing_info_def)
  let ?i1 = "?i\<lparr>tot_len := htons (of_nat (sz - 14))\<rparr>" and ?u1 = "?u\<lparr>udp_len := htons (of_nat (sz - 34))\<rparr>"
  let ?f = "eth_bytes ?e @ ipv4_bytes ?i1 @ udp_bytes ?u1"
  have "eth_of ?f = ?e" by (rule eth_of_bytes [OF m])
  moreover have "ipv4_of (drop 14 ?f) = ?i1" using l ipv4_of_bytes by simp
  moreover have "udp_of (drop 34 ?f) = ?u1" using l udp_of_bytes [of ?u1 "[]"] by simp
  ultimately show ?thesis using assms(2,3)
    by (auto simp: raw_frame_fields [OF m u ri] rule_accepts_def raw_install_flow_rule_def gen_eth_header_def gen_ipv4_header_def gen_udp_header_def)
qed

text \<open>
  C?. Sending over raw Ethernet. In every state that initialisation, bursts and flushes reach, fewer than \<open>kSQDepth\<close> requests are
  outstanding, and a burst of up to \<open>kPostlist\<close> packets returns: it posts one request per packet, in order, that starts at the
  packet's header and has as many bytes as the packet; message buffers change only in their headrooms; and each packet for a peer whose
  routing information has been resolved carries a frame header that the flow rule installed by that peer accepts.
\<close>

theorem raw_burst_reaches_peers:
  assumes "fresh_transport t0" "raw_tx_reach t0 t" and items: "raw_items_ok store items" "\<forall>k idx. hdr_ok (hdrs (store k) idx)"
  shows "length (ib_sq t) < kSQDepth \<and>
    (\<exists>t' store' ds ks ws. raw_tx_burst 0 0 items (t, store) = Inr (t', store') \<and> ib_sq t = ds @ ks \<and> ib_sq t' = ks @ ws \<and>
       list_all2 (raw_sends store) items ws \<and> headrooms_only store store' \<and>
       (\<forall>a \<in> set items. \<forall>mac ip port mac' ip' port' rest r. mac_ok mac \<and> mac_ok mac' \<and>
          di_routing_info a = raw_resolve_remote_routing_info mac ip port (raw_fill_local_routing_info mac' ip' port') rest \<and>
          raw_install_flow_rule True mac' port' = Inr r \<longrightarrow> rule_accepts r (headroom (hdrs (store' (di_msg_buffer a)) (di_pkt_idx a)))))"
proof -
  have inv: "raw_tx_inv t" by (rule raw_tx_reach_inv [OF assms(2,1)])
  obtain t' store' ds ks ws where b: "raw_tx_burst 0 0 items (t, store) = Inr (t', store')" "ib_sq t = ds @ ks" "ib_sq t' = ks @ ws"
      "list_all2 (raw_sends store) items ws" "raw_framed store items store'"
    using raw_tx_burst_ok [OF inv items] by blast
  have acc: "rule_accepts r (headroom (hdrs (store' (di_msg_buffer a)) (di_pkt_idx a)))"
    if "a \<in> set items" "mac_ok mac \<and> mac_ok mac' \<and> di_routing_info a = raw_resolve_remote_routing_info mac ip port (raw_fill_local_routing_info mac' ip' port') rest \<and>
      raw_install_flow_rule True mac' port' = Inr r" for a mac ip port mac' ip' port' rest r
    using b(5) that raw_frame_accepted [of mac mac' port' r] by (simp add: raw_framed_def)
  have only: "headrooms_only store store'" using b(5) by (simp add: raw_framed_def)
  have len: "length (ib_sq t) < kSQDepth" using inv sq_length by (auto simp: raw_tx_inv_def)
  show ?thesis
    by (rule conjI [OF len], rule exI [of _ t'], rule exI [of _ store'], rule exI [of _ ds], rule exI [of _ ks], rule exI [of _ ws])
      (intro conjI b(1-4) only ballI allI impI, erule acc, assumption)
qed

definition ex_raw_item :: dpdk_item where
  "ex_raw_item = \<lparr>di_routing_info = raw_resolve_remote_routing_info [1, 2, 3, 4, 5, 6] 0x0A000001 10000
     (raw_fill_local_routing_info [7, 8, 9, 10, 11, 12] 0x0A000002 10500) (replicate 6 0), di_msg_buffer = 5, di_pkt_idx = 1\<rparr>"

definition ex_raw_store :: mb_store where
  "ex_raw_store = (\<lambda>_. \<lparr>mb_buffer = ex_extent, max_data_size = 1500, data_size = 1500, max_num_pkts = 2, num_pkts = 2, mb_buf = Some 0x20000000,
     hdrs = (\<lambda>_. \<lparr>headroom = replicate 42 0, req_type = 0, msg_size = 1500, dest_session_num = 0, pkt_type = kReq, pkt_num = 0, req_num = 0, magic = kPktHdrMagic\<rparr>), bytes = (\<lambda>_. 7)\<rparr>)"

theorem raw_burst_reaches_peers_witness:
  "\<exists>t t' store' r. raw_tx_reach ex_transport t \<and> raw_tx_burst 0 0 [ex_raw_item] (t, ex_raw_store) = Inr (t', store') \<and> length (ib_sq t') = 1 \<and>
    raw_install_flow_rule True [7, 8, 9, 10, 11, 12] 10500 = Inr r \<and> rule_accepts r (headroom (hdrs (store' 5) 1))"
proof -
  obtain t where i: "raw_init_sends ex_transport = Inr t" using raw_init_sends_ok [OF ex_fresh] by (auto simp: holds_iff)
  then have r: "raw_tx_reach ex_transport t" by (rule reach_init)
  have "holds (\<lambda>t'. ib_sq t' = []) (raw_init_sends ex_transport)"
    unfolding raw_init_sends_def by (rule holds_forE [where P = "\<lambda>_ t'. ib_sq t' = [] \<and> length (ib_send_wr t') = 17", THEN holds_weaken]) (auto simp: ex_transport_def)
  then have e: "ib_sq t = []" using i by simp
  have m: "mac_ok [1, 2, 3, 4, 5, 6]" "mac_ok [7, 8, 9, 10, 11, 12]" by (simp_all add: mac_ok_def)
  have it: "raw_items_ok ex_raw_store [ex_raw_item]" using raw_ri_resolved [OF m] by (simp add: raw_items_ok_def ex_raw_item_def ex_raw_store_def)
  have h: "\<forall>k idx. hdr_ok (hdrs (ex_raw_store k) idx)" by (simp add: hdr_ok_def ex_raw_store_def numeral_2_eq_2)
  obtain r' where r': "raw_install_flow_rule True [7, 8, 9, 10, 11, 12] 10500 = Inr r'" by (simp add: raw_install_flow_rule_def)
  note sent = raw_burst_reaches_peers [OF ex_fresh r it h]
  from conjunct2 [OF sent] obtain t' store' ds ks ws where b: "raw_tx_burst 0 0 [ex_raw_item] (t, ex_raw_store) = Inr (t', store')" "ib_sq t = ds @ ks"
      "ib_sq t' = ks @ ws" "list_all2 (raw_sends ex_raw_store) [ex_raw_item] ws"
      and acc: "\<forall>a \<in> set [ex_raw_item]. \<forall>mac ip port mac' ip' port' rest r. mac_ok mac \<and> mac_ok mac' \<and>
        di_routing_info a = raw_resolve_remote_routing_info mac ip port (raw_fill_local_routing_info mac' ip' port') rest \<and>
        raw_install_flow_rule True mac' port' = Inr r \<longrightarrow> rule_accepts r (headroom (hdrs (store' (di_msg_buffer a)) (di_pkt_idx a)))"
    by (elim exE conjE) (rule that)
  have ri: "di_routing_info ex_raw_item = raw_resolve_remote_routing_info [1, 2, 3, 4, 5, 6] 0x0A000001 10000
     (raw_fill_local_routing_info [7, 8, 9, 10, 11, 12] 0x0A000002 10500) (replicate 6 0)" by (simp add: ex_raw_item_def)
  have "ex_raw_item \<in> set [ex_raw_item]" by simp
  from bspec [OF acc this] m ri r' have "rule_accepts r' (headroom (hdrs (store' (di_msg_buffer ex_raw_item)) (di_pkt_idx ex_raw_item)))" by blast
  then have "rule_accepts r' (headroom (hdrs (store' 5) 1))" by (simp add: ex_raw_item_def)
  moreover have "length (ib_sq t') = 1" using b(2-4) e by (auto dest: list_all2_lengthD)
  ultimately show ?thesis using r b(1) r' by blast
qed

end
