(* ===== verification/Verbs_Objects.thy ===== *)
theory Verbs_Objects
  imports Raw_Send Rpc_Create Verbs_Common
begin

section \<open>The verbs objects of a transport (\<open>ib_transport.cc\<close>, \<open>raw_transport.cc\<close>)\<close>

text \<open>
  The constructors of the two verbs transports create a dozen objects of the driver, each from others, and their destructors release them. The
  driver is third-party; of it the model has the documented behaviour that the code relies on: an object can be released
  only while no other object refers to it, and a queue pair goes through its states in order. \<open>vb_live\<close> are the objects that
  exist, with the objects each was created from. Using an object that does not exist is a null or dangling pointer.
\<close>

datatype vobj = Device | Pd | SendCq | RecvCq | Qp | Wq | WqFamily | IndTbl | MpRecvQp | RecvFlow | Ah nat | Mr u32

datatype qp_state = IBV_QPS_RESET | IBV_QPS_INIT | IBV_QPS_RTR | IBV_QPS_RTS

record verbs =
  vb_live :: "(vobj \<times> vobj list) list"
  vb_qp_state :: qp_state

definition vcreate :: "bool \<Rightarrow> vobj \<Rightarrow> vobj list \<Rightarrow> verbs \<Rightarrow> verbs res" where
  "vcreate ok ob from v = rangeE (set from \<subseteq> fst ` set (vb_live v)) (rt_assert ok (Inr (v\<lparr>vb_live := (ob, from) # vb_live v\<rparr>)))"

definition vrelease :: "vobj \<Rightarrow> verbs \<Rightarrow> verbs res" where
  "vrelease ob v = rangeE (ob \<in> fst ` set (vb_live v))
    (if \<exists>p \<in> set (vb_live v). ob \<in> set (snd p) then Inl ExitProcess else Inr (v\<lparr>vb_live := filter (\<lambda>p. fst p \<noteq> ob) (vb_live v)\<rparr>))"

fun qp_next :: "qp_state \<Rightarrow> qp_state option" where
  "qp_next IBV_QPS_RESET = Some IBV_QPS_INIT"
| "qp_next IBV_QPS_INIT = Some IBV_QPS_RTR"
| "qp_next IBV_QPS_RTR = Some IBV_QPS_RTS"
| "qp_next IBV_QPS_RTS = None"

definition modify_qp :: "(qp_state \<Rightarrow> int) \<Rightarrow> qp_state \<Rightarrow> verbs \<Rightarrow> verbs res" where
  "modify_qp ret st v = rangeE (Qp \<in> fst ` set (vb_live v))
    (rt_assert (qp_next (vb_qp_state v) = Some st \<and> ret st = 0) (Inr (v\<lparr>vb_qp_state := st\<rparr>)))"

text \<open>\<open>common_resolve_phy_port\<close> has opened the device.\<close>

definition opened :: verbs where
  "opened = \<lparr>vb_live = [(Device, [])], vb_qp_state = IBV_QPS_RESET\<rparr>"

subsection \<open>InfiniBand\<close>

text \<open>\<open>ans\<close> says whether an object can be created, \<open>ret\<close> what modifying the queue pair returns, \<open>probe\<close> the result of probing for the modified driver.\<close>

abbreviation (input) kModdedProbeRet :: int where "kModdedProbeRet \<equiv> 3187"

definition ib_init_verbs_structs :: "(vobj \<Rightarrow> bool) \<Rightarrow> (qp_state \<Rightarrow> int) \<Rightarrow> int \<Rightarrow> verbs \<Rightarrow> (bool \<times> verbs) res" where
  "ib_init_verbs_structs ans ret probe v = assertE (Device \<in> fst ` set (vb_live v))
    (bindE (vcreate (ans Pd) Pd [Device] v) (\<lambda>v1.
     bindE (vcreate (ans SendCq) SendCq [Device] v1) (\<lambda>v2.
     bindE (vcreate (ans RecvCq) RecvCq [Device] v2) (\<lambda>v3.
     bindE (vcreate (ans Qp) Qp [Pd, SendCq, RecvCq] v3) (\<lambda>v4.
     bindE (modify_qp ret IBV_QPS_INIT v4) (\<lambda>v5.
     bindE (modify_qp ret IBV_QPS_RTR v5) (\<lambda>v6.
     bindE (vcreate (ans (Ah 0)) (Ah 0) [Pd] v6) (\<lambda>v7.
     bindE (modify_qp ret IBV_QPS_RTS v7) (\<lambda>v8. Inr (probe = kModdedProbeRet, v8))))))))))"

text \<open>The handles of remote endpoints, numbered in the order in which they are created.\<close>

definition ib_add_ah :: "nat \<Rightarrow> verbs \<Rightarrow> verbs res" where
  "ib_add_ah i v = vcreate True (Ah i) [Pd] v"

definition ib_release :: "nat list \<Rightarrow> verbs \<Rightarrow> verbs res" where
  "ib_release ah_to_free_vec v = foldE vrelease ([Qp, SendCq, RecvCq, Ah 0] @ map Ah ah_to_free_vec @ [Pd, Device]) v"

subsection \<open>Raw Ethernet, dumbpipe mode\<close>

definition raw_init_basic_qp :: "(vobj \<Rightarrow> bool) \<Rightarrow> (qp_state \<Rightarrow> int) \<Rightarrow> verbs \<Rightarrow> verbs res" where
  "raw_init_basic_qp ans ret v =
    bindE (vcreate (ans SendCq) SendCq [Device] v) (\<lambda>v1.
    bindE (vcreate (ans Qp) Qp [Pd, SendCq, SendCq] v1) (\<lambda>v2.
    bindE (modify_qp ret IBV_QPS_INIT v2) (\<lambda>v3. bindE (modify_qp ret IBV_QPS_RTR v3) (modify_qp ret IBV_QPS_RTS))))"

text \<open>\<open>ignore_overrun\<close> and \<open>wq_ready\<close> are the results of modifying the completion queue and the work queue.\<close>

definition raw_init_mp_recv_qp :: "(vobj \<Rightarrow> bool) \<Rightarrow> int \<Rightarrow> int \<Rightarrow> verbs \<Rightarrow> verbs res" where
  "raw_init_mp_recv_qp ans ignore_overrun wq_ready v = assertE (Device \<in> fst ` set (vb_live v) \<and> Pd \<in> fst ` set (vb_live v))
    (bindE (vcreate (ans RecvCq) RecvCq [Device] v) (\<lambda>v1. rt_assert (ignore_overrun = 0)
    (bindE (vcreate (ans Wq) Wq [Pd, RecvCq] v1) (\<lambda>v2. rt_assert (wq_ready = 0)
    (bindE (vcreate (ans WqFamily) WqFamily [Wq] v2) (\<lambda>v3.
     bindE (vcreate (ans IndTbl) IndTbl [Pd, Wq] v3) (\<lambda>v4.
     vcreate (ans MpRecvQp) MpRecvQp [Pd, IndTbl] v4)))))))"

definition raw_init_verbs_structs :: "(vobj \<Rightarrow> bool) \<Rightarrow> (qp_state \<Rightarrow> int) \<Rightarrow> int \<Rightarrow> int \<Rightarrow> nat \<Rightarrow> u8 list \<Rightarrow> u16 \<Rightarrow> raw_transport \<Rightarrow> verbs \<Rightarrow>
    (raw_flow \<times> mlx5_cqe list \<times> raw_transport \<times> verbs) res" where
  "raw_init_verbs_structs ans ret ignore_overrun wq_ready cq_log_size mac rx_flow_udp_port t v = assertE (Device \<in> fst ` set (vb_live v))
    (bindE (vcreate (ans Pd) Pd [Device] v) (\<lambda>v1.
     bindE (raw_init_basic_qp ans ret v1) (\<lambda>v2.
     bindE (raw_init_mp_recv_qp ans ignore_overrun wq_ready v2) (\<lambda>v3.
     assertE (MpRecvQp \<in> fst ` set (vb_live v3))
     (bindE (raw_install_flow_rule (ans RecvFlow) mac rx_flow_udp_port) (\<lambda>flow.
      bindE (vcreate (ans RecvFlow) RecvFlow [MpRecvQp] v3) (\<lambda>v4.
      bindE (map_mlx5_overrunning_recv_cqes cq_log_size t) (\<lambda>(cqes, t1). Inr (flow, cqes, t1, v4)))))))))"

definition raw_release :: "verbs \<Rightarrow> verbs res" where
  "raw_release v = foldE vrelease [Qp, SendCq, WqFamily, RecvFlow, MpRecvQp, IndTbl, Wq, RecvCq, Pd, Device] v"

text \<open>
  \<open>raw_resolve_phy_port\<close> and the constructor. \<open>netdev\<close> is the interface that \<open>ibdev2netdev\<close> finds for the device; the kernel's answers are those of
  \<open>interface_addrs.h\<close>.
\<close>

definition raw_resolve_phy_port :: "string res \<Rightarrow> ifaddr list option \<Rightarrow> int \<Rightarrow> (char list \<Rightarrow> u8 list option) \<Rightarrow> char list \<Rightarrow> (u32 \<times> u8 list) res" where
  "raw_resolve_phy_port netdev ifaddrs fd ioctl junk =
    bindE netdev (\<lambda>name. bindE (get_interface_ipv4_addr ifaddrs name) (\<lambda>ip. bindE (fill_interface_mac fd ioctl junk name) (\<lambda>mac. Inr (ip, mac))))"

definition RawTransport_init :: "unit res \<Rightarrow> (u32 \<times> u8 list) res \<Rightarrow> (vobj \<Rightarrow> bool) \<Rightarrow> (qp_state \<Rightarrow> int) \<Rightarrow> int \<Rightarrow> int \<Rightarrow> nat \<Rightarrow> u16 \<Rightarrow> u8 \<Rightarrow> raw_transport \<Rightarrow>
    (u32 \<times> u8 list \<times> u16 \<times> raw_flow \<times> mlx5_cqe list \<times> raw_transport \<times> verbs) res" where
  "RawTransport_init port_found addrs ans ret ignore_overrun wq_ready cq_log_size mgmt_port rid t =
    (let port = get_dpath_udp_port mgmt_port rid
     in rt_assert (kHeadroom raw_cfg = 40) (bindE port_found (\<lambda>_. bindE addrs (\<lambda>(ip, mac).
        bindE (raw_init_verbs_structs ans ret ignore_overrun wq_ready cq_log_size mac port t opened) (\<lambda>(flow, cqes, t1, v).
          Inr (ip, mac, port, flow, cqes, t1, v))))))"

text \<open>What the destructor of the allocator does to the objects; it runs before that of the transport.\<close>

fun release_event :: "shm_release \<Rightarrow> verbs \<Rightarrow> verbs res" where
  "release_event (DeregMr k) v = vrelease (Mr k) v"
| "release_event (Shmdt a) v = Inr v"

subsection \<open>Releasing in a good order\<close>

text \<open>In a good order an object comes after all those that were created from it.\<close>

definition good_order :: "vobj list \<Rightarrow> (vobj \<times> vobj list) set \<Rightarrow> bool" where
  "good_order order live \<longleftrightarrow> distinct order \<and> set order \<subseteq> fst ` live \<and>
     (\<forall>p \<in> live. \<forall>d \<in> set (snd p). d \<in> set order \<longrightarrow> fst p \<in> set (takeWhile (\<lambda>x. x \<noteq> d) order))"

lemma good_orderD:
  "good_order order live \<Longrightarrow> p \<in> live \<Longrightarrow> d \<in> set (snd p) \<Longrightarrow> d \<in> set order \<Longrightarrow> fst p \<in> set (takeWhile (\<lambda>x. x \<noteq> d) order)"
  by (auto simp: good_order_def)

lemma release_order:
  "good_order order (set (vb_live v)) \<Longrightarrow> foldE vrelease order v = Inr (v\<lparr>vb_live := filter (\<lambda>p. fst p \<notin> set order) (vb_live v)\<rparr>)"
proof (induction order arbitrary: v)
  case (Cons ob order)
  let ?live = "filter (\<lambda>p. fst p \<noteq> ob) (vb_live v)"
  have g: "ob \<notin> set order" "distinct order" "ob \<in> fst ` set (vb_live v)" "set order \<subseteq> fst ` set (vb_live v)"
    using Cons.prems by (auto simp: good_order_def)
  have free: "\<not> (\<exists>p \<in> set (vb_live v). ob \<in> set (snd p))" using good_orderD [OF Cons.prems, of _ ob] by auto
  have "set order \<subseteq> fst ` set ?live"
  proof
    fix x assume "x \<in> set order"
    then obtain p where "p \<in> set (vb_live v)" "fst p = x" "x \<noteq> ob" using g(1,4) by force
    then show "x \<in> fst ` set ?live" by force
  qed
  moreover have "fst p \<in> set (takeWhile (\<lambda>x. x \<noteq> d) order)" if "p \<in> set ?live" "d \<in> set (snd p)" "d \<in> set order" for p d
    using good_orderD [OF Cons.prems, of p d] that g(1) by (auto split: if_splits)
  ultimately have "good_order order (set ?live)" using g(2) unfolding good_order_def by blast
  from Cons.IH [of "v\<lparr>vb_live := ?live\<rparr>"] this have "foldE vrelease order (v\<lparr>vb_live := ?live\<rparr>) = Inr (v\<lparr>vb_live := filter (\<lambda>p. fst p \<notin> set order) ?live\<rparr>)" by simp
  moreover have "vrelease ob v = Inr (v\<lparr>vb_live := ?live\<rparr>)" using free g(3) by (simp add: vrelease_def)
  ultimately show ?case by simp
qed simp

text \<open>What a transport's user does with its objects: memory regions are registered and deregistered, address handles are created.\<close>

inductive vstep :: "verbs \<Rightarrow> verbs \<Rightarrow> bool" where
  register: "Mr k \<notin> fst ` set (vb_live v) \<Longrightarrow> vcreate True (Mr k) [Pd] v = Inr v' \<Longrightarrow> vstep v v'"
| deregister: "vrelease (Mr k) v = Inr v' \<Longrightarrow> vstep v v'"
| handle: "0 < i \<Longrightarrow> Ah i \<notin> fst ` set (vb_live v) \<Longrightarrow> ib_add_ah i v = Inr v' \<Longrightarrow> vstep v v'"

definition handles :: "verbs \<Rightarrow> nat list" where
  "handles v = [i. Ah i \<leftarrow> map fst (rev (vb_live v)), 0 < i]"

definition regions :: "verbs \<Rightarrow> u32 list" where
  "regions v = [k. Mr k \<leftarrow> map fst (vb_live v)]"

lemma set_handles: "set (handles v) = {i. 0 < i \<and> Ah i \<in> fst ` set (vb_live v)}"
  by (force simp: handles_def split: vobj.splits)

lemma set_regions: "set (regions v) = {k. Mr k \<in> fst ` set (vb_live v)}"
  by (force simp: regions_def split: vobj.splits)

lemma handles_drop: "handles (v\<lparr>vb_live := filter (\<lambda>p. fst p \<noteq> Mr k) (vb_live v)\<rparr>) = handles v"
proof -
  have "[i. Ah i \<leftarrow> map fst (filter (\<lambda>p. fst p \<noteq> Mr k) xs), 0 < i] = [i. Ah i \<leftarrow> map fst xs, 0 < i]" for xs :: "(vobj \<times> vobj list) list" by (induction xs) auto
  then show ?thesis unfolding handles_def by (simp add: rev_filter)
qed

lemma regions_drop: "set (regions (v\<lparr>vb_live := filter (\<lambda>p. fst p \<noteq> Mr k) (vb_live v)\<rparr>)) = set (regions v) - {k}"
  unfolding set_regions by force

lemma without_region: "(\<lambda>k. (Mr k, [Pd])) ` S - {p. fst p = Mr k} = (\<lambda>k. (Mr k, [Pd])) ` (S - {k})"
proof (intro equalityI subsetI)
  fix p assume p: "p \<in> (\<lambda>k. (Mr k, [Pd])) ` S - {p. fst p = Mr k}"
  then obtain x where x: "x \<in> S" "p = (Mr x, [Pd])" by (elim DiffE imageE)
  then have "x \<noteq> k" using p by simp
  then show "p \<in> (\<lambda>k. (Mr k, [Pd])) ` (S - {k})" using x by (intro image_eqI [of _ _ x]) simp_all
next
  fix p assume "p \<in> (\<lambda>k. (Mr k, [Pd])) ` (S - {k})"
  then obtain x where "x \<in> S - {k}" "p = (Mr x, [Pd])" by (elim imageE)
  then show "p \<in> (\<lambda>k. (Mr k, [Pd])) ` S - {p. fst p = Mr k}" by simp
qed

text \<open>
  The objects that a transport's constructor has made, and the order in which its destructor releases those other than the protection
  domain and the device, which come last.
\<close>

locale verbs_transport =
  fixes built :: "(vobj \<times> vobj list) list" and before :: "vobj list"
  assumes order: "good_order before (set built)"
    and objs: "fst ` set built = set before \<union> {Pd, Device}" "Pd \<notin> set before" "Device \<notin> set before"
    and deps: "\<forall>p \<in> set built. set (snd p) \<subseteq> fst ` set built"
    and last: "\<forall>p \<in> set built. fst p \<in> {Pd, Device} \<longrightarrow> p \<in> {(Pd, [Device]), (Device, [])}"
    and own: "\<forall>k. Mr k \<notin> fst ` set built" "\<forall>i > 0. Ah i \<notin> fst ` set built"
begin

definition holds_objs :: "verbs \<Rightarrow> bool" where
  "holds_objs v \<longleftrightarrow> set (vb_live v) = set built \<union> (\<lambda>i. (Ah i, [Pd])) ` set (handles v) \<union> (\<lambda>k. (Mr k, [Pd])) ` set (regions v) \<and> distinct (handles v)"

lemma holds_built: "vb_live v = built \<Longrightarrow> holds_objs v"
proof -
  assume v: "vb_live v = built"
  have "set (handles v) = {}" "set (regions v) = {}" unfolding set_handles set_regions v using own by auto
  then show ?thesis using v by (simp add: holds_objs_def)
qed

lemma holds_step: "vstep v v' \<Longrightarrow> holds_objs v \<Longrightarrow> holds_objs v'"
proof (induction rule: vstep.induct)
  case (register k v v')
  then have "vb_live v' = (Mr k, [Pd]) # vb_live v" by (auto simp: vcreate_def res_Inr)
  then show ?case using register.prems by (auto simp: holds_objs_def handles_def regions_def)
next
  case (deregister k v v')
  then have v': "vb_live v' = filter (\<lambda>p. fst p \<noteq> Mr k) (vb_live v)" by (auto simp: vrelease_def res_Inr split: if_splits)
  have h: "handles v' = handles v" using handles_drop [where v = v and k = k] v' by (simp add: handles_def)
  have r: "set (regions v') = set (regions v) - {k}" using regions_drop [where v = v and k = k] v' by (simp add: regions_def)
  have "set (vb_live v') = set (vb_live v) - {p. fst p = Mr k}" using v' by auto
  moreover have "fst p \<noteq> Mr k" if "p \<in> set built" for p using own(1) that by (metis imageI)
  then have "set built - {p. fst p = Mr k} = set built" by blast
  moreover have "(\<lambda>i. (Ah i, [Pd])) ` S - {p. fst p = Mr k} = (\<lambda>i. (Ah i, [Pd])) ` S" for S by auto
  moreover have "(\<lambda>k. (Mr k, [Pd])) ` S - {p. fst p = Mr k} = (\<lambda>k. (Mr k, [Pd])) ` (S - {k})" for S by (rule without_region)
  ultimately have "set (vb_live v') = set built \<union> (\<lambda>i. (Ah i, [Pd])) ` set (handles v) \<union> (\<lambda>k. (Mr k, [Pd])) ` (set (regions v) - {k})"
    using deregister.prems unfolding holds_objs_def by (simp only: Un_Diff)
  then show ?case using deregister.prems h r by (simp add: holds_objs_def)
next
  case (handle i v v')
  then have v': "vb_live v' = (Ah i, [Pd]) # vb_live v" by (auto simp: ib_add_ah_def vcreate_def res_Inr)
  have "i \<notin> set (handles v)" using handle.hyps(2) by (auto simp: set_handles)
  then show ?case using handle.prems handle.hyps(1) v' by (auto simp: holds_objs_def handles_def regions_def)
qed

lemma holds_steps: "vstep\<^sup>*\<^sup>* v v' \<Longrightarrow> holds_objs v \<Longrightarrow> holds_objs v'"
  by (induction rule: rtranclp_induct) (auto intro: holds_step)

lemma release_front:
  assumes v: "holds_objs v"
  shows "foldE vrelease (before @ map Ah (handles v)) v = Inr (v\<lparr>vb_live := filter (\<lambda>p. fst p \<notin> set (before @ map Ah (handles v))) (vb_live v)\<rparr>)"
proof (rule release_order)
  have new: "Ah i \<notin> fst ` set built" if "i \<in> set (handles v)" for i using own(2) that by (auto simp: set_handles)
  have bef: "set before \<subseteq> fst ` set built" using objs(1) by blast
  have "Ah i \<notin> set before" if "i \<in> set (handles v)" for i using new [OF that] bef by blast
  then have "distinct (before @ map Ah (handles v))" using order v by (auto simp: good_order_def holds_objs_def distinct_map inj_on_def)
  moreover have "set (before @ map Ah (handles v)) \<subseteq> fst ` set (vb_live v)" using bef v by (auto simp: set_handles holds_objs_def)
  moreover have "fst p \<in> set (takeWhile (\<lambda>x. x \<noteq> d) (before @ map Ah (handles v)))"
    if p: "p \<in> set (vb_live v)" "d \<in> set (snd p)" "d \<in> set (before @ map Ah (handles v))" for p d
  proof -
    have "Pd \<notin> set (before @ map Ah (handles v))" using objs(2) by auto
    then have b: "p \<in> set built" using p v by (auto simp: holds_objs_def)
    then have "d \<in> set before" using deps p(2,3) new by force
    then show ?thesis using good_orderD [OF order b p(2)] by (auto simp: takeWhile_append)
  qed
  ultimately show "good_order (before @ map Ah (handles v)) (set (vb_live v))" unfolding good_order_def by blast
qed

lemma left_over:
  assumes v: "holds_objs v" and l: "l = filter (\<lambda>p. fst p \<notin> set (before @ map Ah (handles v))) (vb_live v)"
  shows "set l = {(Pd, [Device]), (Device, [])} \<union> (\<lambda>k. (Mr k, [Pd])) ` set (regions v)"
proof -
  have m: "Mr k \<notin> set (before @ map Ah (handles v))" for k using own(1) objs(1) by auto
  have "{p \<in> set built. fst p \<notin> set (before @ map Ah (handles v))} = {(Pd, [Device]), (Device, [])}"
  proof (intro equalityI subsetI)
    fix p assume "p \<in> {p \<in> set built. fst p \<notin> set (before @ map Ah (handles v))}"
    then have "p \<in> set built" "fst p \<in> {Pd, Device}" using objs(1) by force+
    then show "p \<in> {(Pd, [Device]), (Device, [])}" using last by blast
  next
    fix p assume p: "p \<in> {(Pd, [Device]), (Device, [])}"
    then have "fst p \<in> fst ` set built" using objs(1) by auto
    then obtain q where q: "q \<in> set built" "fst q = fst p" by force
    then have "q \<in> {(Pd, [Device]), (Device, [])}" using last p by auto
    then show "p \<in> {p \<in> set built. fst p \<notin> set (before @ map Ah (handles v))}" using p q objs(2,3) by auto
  qed
  then show ?thesis using v m unfolding l holds_objs_def by auto
qed

text \<open>With all regions deregistered everything is released; with one left the release of the protection domain ends the process.\<close>

lemma released:
  assumes v: "holds_objs v"
  shows "foldE vrelease (before @ map Ah (handles v) @ [Pd, Device]) v = (if regions v = [] then Inr (v\<lparr>vb_live := []\<rparr>) else Inl ExitProcess)"
proof -
  define l where "l = filter (\<lambda>p. fst p \<notin> set (before @ map Ah (handles v))) (vb_live v)"
  have s: "set l = {(Pd, [Device]), (Device, [])} \<union> (\<lambda>k. (Mr k, [Pd])) ` set (regions v)" by (rule left_over [OF v l_def])
  have f: "foldE vrelease (before @ map Ah (handles v) @ [Pd, Device]) v = bindE (vrelease Pd (v\<lparr>vb_live := l\<rparr>)) (vrelease Device)"
  proof -
    have "foldE vrelease [Device] = vrelease Device"
    proof
      fix w show "foldE vrelease [Device] w = vrelease Device w" by (cases "vrelease Device w") simp_all
    qed
    then show ?thesis using release_front [OF v, folded l_def] foldE_append [of vrelease "before @ map Ah (handles v)" "[Pd, Device]" v] by simp
  qed
  show ?thesis
  proof (cases "regions v = []")
    case True
    then have s0: "set l = {(Pd, [Device]), (Device, [])}" using s by simp
    let ?m = "filter (\<lambda>p. fst p \<noteq> Pd) l"
    have "vrelease Pd (v\<lparr>vb_live := l\<rparr>) = Inr (v\<lparr>vb_live := ?m\<rparr>)" 
    proof -
      have "Pd \<in> fst ` set l" "\<not> (\<exists>p \<in> set l. Pd \<in> set (snd p))" unfolding s0 by simp_all
      then show ?thesis by (simp add: vrelease_def)
    qed
    moreover have m: "set ?m = {(Device, [])}" unfolding set_filter s0 by auto
    moreover have "filter (\<lambda>p. fst p \<noteq> Device) ?m = []" unfolding filter_empty_conv m by simp
    ultimately show ?thesis using True unfolding f by (simp add: vrelease_def)
  next
    case False
    then obtain k where "k \<in> set (regions v)" by (cases "regions v") auto
    then have "(Mr k, [Pd]) \<in> set l" unfolding s by blast
    moreover have "Pd \<in> fst ` set l" unfolding s by simp
    ultimately show ?thesis using False unfolding f vrelease_def verbs.simps by auto
  qed
qed

lemma no_region_used: "holds_objs v \<Longrightarrow> p \<in> set (vb_live v) \<Longrightarrow> Mr k \<notin> set (snd p)"
  using deps own(1) by (fastforce simp: holds_objs_def)

lemma deregister_all:
  assumes "holds_objs v" "set (regions v) = set (deregistered es)" "distinct (deregistered es)"
  shows "\<exists>v1. foldE release_event es v = Inr v1 \<and> holds_objs v1 \<and> regions v1 = [] \<and> handles v1 = handles v"
  using assms
proof (induction es arbitrary: v)
  case Nil
  then show ?case by (simp add: deregistered_def)
next
  case (Cons e es)
  show ?case
  proof (cases e)
    case (DeregMr k)
    have d: "deregistered (e # es) = k # deregistered es" by (simp add: DeregMr deregistered_def)
    have "Mr k \<in> fst ` set (vb_live v)" using Cons.prems(2) d by (auto simp: set_regions)
    moreover have "\<not> (\<exists>p \<in> set (vb_live v). Mr k \<in> set (snd p))" using no_region_used [OF Cons.prems(1)] by blast
    ultimately have r: "vrelease (Mr k) v = Inr (v\<lparr>vb_live := filter (\<lambda>p. fst p \<noteq> Mr k) (vb_live v)\<rparr>)" (is "_ = Inr ?v") by (simp add: vrelease_def)
    have "set (regions ?v) = set (regions v) - {k}" by (rule regions_drop)
    then have "set (regions ?v) = set (deregistered es)" using Cons.prems(2,3) d by auto
    moreover have "handles ?v = handles v" by (rule handles_drop)
    ultimately show ?thesis using Cons.IH [of ?v] holds_step [OF vstep.deregister [OF r] Cons.prems(1)] Cons.prems(3) d r by (simp add: DeregMr)
  next
    case (Shmdt a)
    then show ?thesis using Cons by (simp add: deregistered_def)
  qed
qed

lemma destroyed:
  assumes "vb_live v0 = built" "vstep\<^sup>*\<^sup>* v0 v" "set (regions v) = set (deregistered es)" "distinct (deregistered es)"
  shows "\<exists>v'. bindE (foldE release_event es v) (foldE vrelease (before @ map Ah (handles v) @ [Pd, Device])) = Inr v' \<and> vb_live v' = []"
    and "regions v \<noteq> [] \<Longrightarrow> foldE vrelease (before @ map Ah (handles v) @ [Pd, Device]) v = Inl ExitProcess"
proof -
  have h: "holds_objs v" by (rule holds_steps [OF assms(2) holds_built [OF assms(1)]])
  obtain v1 where v1: "foldE release_event es v = Inr v1" "holds_objs v1" "regions v1 = []" "handles v1 = handles v"
    using deregister_all [OF h assms(3,4)] by blast
  then show "\<exists>v'. bindE (foldE release_event es v) (foldE vrelease (before @ map Ah (handles v) @ [Pd, Device])) = Inr v' \<and> vb_live v' = []"
    using released [OF v1(2)] by simp
  show "regions v \<noteq> [] \<Longrightarrow> foldE vrelease (before @ map Ah (handles v) @ [Pd, Device]) v = Inl ExitProcess" using released [OF h] by simp
qed

end

subsection \<open>The two transports\<close>

definition ib_built :: "(vobj \<times> vobj list) list" where
  "ib_built = [(Ah 0, [Pd]), (Qp, [Pd, SendCq, RecvCq]), (RecvCq, [Device]), (SendCq, [Device]), (Pd, [Device]), (Device, [])]"

definition raw_built :: "(vobj \<times> vobj list) list" where
  "raw_built = [(RecvFlow, [MpRecvQp]), (MpRecvQp, [Pd, IndTbl]), (IndTbl, [Pd, Wq]), (WqFamily, [Wq]), (Wq, [Pd, RecvCq]), (RecvCq, [Device]),
     (Qp, [Pd, SendCq, SendCq]), (SendCq, [Device]), (Pd, [Device]), (Device, [])]"

interpretation ib_objs: verbs_transport ib_built "[Qp, SendCq, RecvCq, Ah 0]"
  by unfold_locales (auto simp: good_order_def ib_built_def)

interpretation raw_objs: verbs_transport raw_built "[Qp, SendCq, WqFamily, RecvFlow, MpRecvQp, IndTbl, Wq, RecvCq]"
  by unfold_locales (auto simp: good_order_def raw_built_def)

text \<open>The constructors use no object before it exists, and leave the queue pair ready to send; otherwise they throw.\<close>

lemma ib_init_objects:
  "case ib_init_verbs_structs ans ret probe opened of Inl er \<Rightarrow> er = RuntimeError | Inr (fast, v) \<Rightarrow> vb_live v = ib_built \<and> vb_qp_state v = IBV_QPS_RTS"
  by (simp add: ib_init_verbs_structs_def vcreate_def modify_qp_def opened_def rt_assert_def ib_built_def)

lemma raw_init_objects:
  "case raw_init_verbs_structs ans ret o1 o2 cq_log_size mac port t opened of
     Inl er \<Rightarrow> er = RuntimeError
   | Inr (flow, cqes, t1, v) \<Rightarrow> vb_live v = raw_built \<and> vb_qp_state v = IBV_QPS_RTS \<and> raw_install_flow_rule True mac port = Inr flow"
proof -
  have "case map_mlx5_overrunning_recv_cqes cq_log_size t of Inl er \<Rightarrow> er = RuntimeError | Inr x \<Rightarrow> True"
  proof (cases "kRecvCQDepth = (2 :: nat) ^ cq_log_size")
    case True
    then have "(2 :: nat) ^ cq_log_size = 2 ^ 3" by simp
    then have "cq_log_size = 3" by (rule power_inject_exp [THEN iffD1, rotated]) simp
    then show ?thesis using map_cqes_ok [of t] by auto
  qed (simp add: map_mlx5_overrunning_recv_cqes_def rt_assert_def)
  then show ?thesis
    by (cases "map_mlx5_overrunning_recv_cqes cq_log_size t")
      (auto simp: raw_init_verbs_structs_def raw_init_basic_qp_def raw_init_mp_recv_qp_def vcreate_def modify_qp_def opened_def rt_assert_def
        raw_install_flow_rule_def raw_built_def)
qed

text \<open>An endpoint whose construction succeeded receives what peers send to the routing information it gives out.\<close>

lemma raw_created_receives:
  assumes "RawTransport_init port_found addrs ans ret o1 o2 n mgmt_port rid t = Inr (ip, mac, port, flow, cqes, t1, v)" "mac_ok mac" "mac_ok mac0"
  shows "port = get_dpath_udp_port mgmt_port rid \<and>
    rule_accepts flow (raw_frame (raw_resolve_remote_routing_info mac0 ip0 port0 (raw_fill_local_routing_info mac ip port) rest) sz)"
proof -
  have p: "port = get_dpath_udp_port mgmt_port rid" and i: "raw_init_verbs_structs ans ret o1 o2 n mac port t opened = Inr (flow, cqes, t1, v)"
    using assms(1) by (auto simp: RawTransport_init_def Let_def res_Inr split: prod.splits)
  have "raw_install_flow_rule True mac port = Inr flow"
    using raw_init_objects [where ans = ans and ret = ret and ?o1.0 = o1 and ?o2.0 = o2 and cq_log_size = n and mac = mac and port = port and t = t] i by simp
  then show ?thesis using p raw_frame_accepted [OF assms(3,2)] by blast
qed

lemma destroy_deregisters: "HugeAlloc_destroy ok rs = Inr es \<Longrightarrow> deregistered es = map sr_lkey (filter sr_registered rs)"
  by (induction rs arbitrary: es) (auto simp: deregistered_def res_Inr split: if_splits)



end
