(* ===== verification/Spec2Isabelle.thy ===== *)
theory Spec2Isabelle
  imports Rpc_Handshake Rpc_Loop_Timeout Nexus_Process Coro_Scheduler Region_Alloc Latency_Hist
    Verbs_Common Dpdk_Transport Raw_Transport Rpc_Create Host_Setup Hello_App Raw_Send Verbs_Objects
begin

text \<open>
  \<^bold>\<open>A verification of the RPC library \<open>src/peer/erpc\<close> and of the RDMA runtime \<open>src/core\<close>.\<close>

  \<^bold>\<open>The program.\<close> A process has one \<open>Nexus\<close> (\<open>nexus.h\<close>), which owns the request handlers, the session
  management thread and the background threads. Each thread that sends or serves requests has an \<open>Rpc\<close>
  object (\<open>rpc.h\<close>, \<open>rpc_impl\<close>): it keeps sessions to remote Rpc objects, each with eight slots for requests
  in flight and a number of credits that bounds the packets in flight; its event loop receives packets,
  drives congestion control (\<open>cc\<close>), retransmits after losses and handles session management packets that
  the management thread has queued. Memory for messages comes from a hugepage allocator (\<open>util/huge_alloc\<close>).
  A heartbeat manager tracks remote processes. \<open>src/core\<close> holds the coroutine scheduler and the allocators
  of RDMA buffers of a transaction thread. Packets travel through one of four transports (\<open>transport_impl\<close>).

  \<^bold>\<open>The model.\<close> Every operation of the code is one definition, on a record of the component's state.
  Failed assertions, exceptions, accesses outside of memory and process exits are values of the result
  type \<open>error + 'a\<close> (\<open>Erpc_Prelude\<close>); \<open>holds P m\<close> says that \<open>m\<close> returns normally with a value in \<open>P\<close>, so that
  it excludes all of them. The model is that of the default build: \<open>assert\<close> is enabled, \<open>kTesting\<close> and
  \<open>kDatapathStats\<close> are false, congestion control is on. Counters that only grow are natural numbers,
  \<open>size_t\<close> subtraction wraps (\<open>sub64\<close>), header fields, ports and addresses are words, \<open>double\<close> is \<open>real\<close>. The clock, random
  numbers, the operating system, the network card and the application's callbacks are arguments or
  fields of the record \<open>env\<close>; what they must satisfy is a hypothesis of the theorems that need it.

  \<^bold>\<open>The theories, in the order of the code, and what they show.\<close>

  \<^item> \<open>Erpc_Prelude\<close>: result type, triples, loops over index ranges and lists, the collections of
    rewrite rules the components share.
  \<^item> \<open>Math_Utils\<close> (\<open>util/math_utils.h\<close>, \<open>util/rand.h\<close>), \<open>Huge_Alloc\<close> (\<open>util/huge_alloc\<close>): the fast size-class
    computation equals the loop it replaces; allocations are disjoint from everything held, fail only
    through the operating system, and freeing returns the memory.
  \<^item> \<open>Msg_Buffer\<close> (\<open>msg_buffer.h\<close>, \<open>pkthdr.h\<close>): layout of messages in packets; headers and data lie inside the
    buffer; reassembling the packets gives the message.
  \<^item> \<open>Containers\<close> (\<open>util/fixed_vector.h\<close>, \<open>fixed_queue.h\<close>, \<open>mt_queue.h\<close>, \<open>mempool.h\<close>): the locale \<open>fifo\<close> is
    the contract of a queue, interpreted on the three queues.
  \<^item> \<open>Timers\<close> (\<open>util/timer.h\<close>), \<open>Timing_Wheel\<close> (\<open>cc/timing_wheel.h\<close>), \<open>Timely_CC\<close> (\<open>cc/timely.h\<close>): the
    bucket chains of the wheel refine an abstract wheel of slots; packets leave it neither early nor late;
    rates stay between their bounds.
  \<^item> \<open>Sm_Types\<close> (\<open>sm_types.h\<close>, \<open>rpc_constants.h\<close>), \<open>Uri_Helpers\<close> (\<open>util/autorun_helpers.h\<close>): session management
    packets, ports, parsing of URIs.
  \<^item> \<open>Rpc_State\<close>, \<open>Rpc_Datapath\<close>, \<open>Rpc_Queues\<close>, \<open>Rpc_Sm\<close> (\<open>rpc.h\<close>, \<open>rpc_impl\<close>): the state of an endpoint and
    all operations of its datapath and its session management.
  \<^item> \<open>Rpc_Frame\<close>: the locale \<open>dp_rel\<close> states what a relation between states needs so that every datapath
    operation keeps it; it is interpreted for each relation the invariants use.
  \<^item> \<open>Rpc_Credits\<close>, \<open>Rpc_Invariant\<close>, with the small instance of \<open>Rpc_Example\<close>: the flow control invariant, by a
    simulation of the datapath by an abstract automaton of credits per session.
  \<^item> \<open>Rpc_Sm_Inv\<close>, \<open>Rpc_Event_Loop\<close>, \<open>Rpc_Loop_Timeout\<close> (\<open>rpc_ev_loop.cc\<close>): the invariant of a whole endpoint
    with its event loop and session management, and termination of the loop with a timeout.
  \<^item> \<open>Rpc_Handshake\<close>: client and server together; the connect handshake succeeds, is idempotent under
    duplicates, and failed calls change nothing.
  \<^item> \<open>Heartbeat\<close> (\<open>heartbeat_mgr.h\<close>), \<open>Nexus_Process\<close> (\<open>nexus.h\<close>, \<open>nexus_impl\<close>, \<open>tls_registry\<close>, \<open>numautils.cc\<close>):
    heartbeat events, registration of hooks and handlers, routing of management packets.
  \<^item> \<open>Coro_Scheduler\<close>, \<open>Region_Alloc\<close> (\<open>core\<close>), \<open>Latency_Hist\<close> (\<open>util/latency.h\<close>): the ring of coroutines and its
    wake-ups, disjointness of RDMA buffers, statistics of latency histograms.

  \<^item> \<open>Rx_Ring\<close>: the locale \<open>rx_contract\<close> is the contract of the receive side of a transport towards the endpoint; it
    is interpreted on the InfiniBand and on the DPDK transport.
  \<^item> \<open>Ib_Transport\<close> (\<open>transport_impl/infiniband\<close>): selective signaling never overruns the send queue and leaves exactly one
    signaled request for a flush; the circular chain of receive requests posts exactly the released ring entries.
    \<open>Verbs_Common\<close> (\<open>verbs_common.h\<close>): port resolution finds the port at its position among the active ones; address handles.
  \<^item> \<open>Eth_Common\<close> (\<open>eth_common.h\<close>): header images in memory and the IPv4 checksum. \<open>Dpdk_Transport\<close> (\<open>transport_impl/dpdk\<close>):
    ownership of queue pairs between processes, the frame header from the exchange of routing information to the
    receiver's check, sending with retries, and the receive ring as a queue.
  \<^item> \<open>Raw_Transport\<close> (\<open>transport_impl/raw\<close>): reception from an overrunning completion queue that the NIC writes concurrently.

  \<^item> \<open>Rpc_Create\<close> (\<open>rpc_impl/rpc.cc\<close>, accessors of \<open>rpc.h\<close>): construction and destruction of an endpoint, which tie the allocator, the
    wheel, the transport and the Nexus together. The locale \<open>transport_memory\<close> is what the constructor relies on of the transport's
    initialisation; it is interpreted on the InfiniBand and on the fake transport. The constructor fails only where the
    system does, the memory of the parts is disjoint, and with an obliging system it returns.
  \<^item> \<open>Raw_Send\<close> (\<open>raw_transport_datapath.cc\<close>): the sending side of the raw transport, with the lemmas on selective signaling of the InfiniBand one; the
    frame header that a burst writes passes the flow rule of the addressed peer. \<open>Verbs_Objects\<close> (\<open>ib_transport.cc\<close>,
    \<open>raw_transport.cc\<close>): the driver's objects with their dependencies; the locale \<open>verbs_transport\<close> is what a transport's constructor and destructor must
    satisfy so that the objects can be released, interpreted on both verbs transports.
  \<^item> \<open>Host_Setup\<close> (\<open>virt2phy.h\<close>, \<open>pmem.h\<close>, \<open>udp_client.h\<close>, \<open>interface_addrs.h\<close>, \<open>dpdk_init.cc\<close>, \<open>dpdk_flow_rules.cc\<close>): the cache of
    physical addresses agrees with the page map; sending of datagrams, interface addresses, queues and steering rules of a port.
  \<^item> \<open>Hello_App\<close> (\<open>peer/server\<close>, \<open>peer/client\<close>): the two programs. The server's handler meets the contract \<open>cb_ok\<close> of request
    handlers, so that the invariant of an endpoint holds for this program without a hypothesis on the application.

  \<^bold>\<open>Fuel.\<close> Loops that are not structurally recursive carry a bound that the code's own state provides and
  that is shown to be enough: the number of queued items for the queue loops (\<open>sm_rx_loop\<close>, \<open>do_one\<close>,
  \<open>reap_loop\<close>), the number of timestamps for the event loop (\<open>event_loop_ends\<close>). Loops that poll the environment consume a
  list of its answers and yield \<open>NoReturn\<close> when it is exhausted.

  \<^bold>\<open>Not modelled.\<close> Logging (\<open>util/logger.h\<close>) and the third-party histogram code, which only produce output; the attributes with which the
  driver's objects are created, and the mlx5 structure definitions beyond the counters that are read; the raw transport outside of its dumbpipe mode, which is
  compiled out; the blocking receive of the management socket (\<open>util/udp_server.h\<close>), which wraps a networking
  library; recordings and statistics that the default build leaves out (\<open>cc/wheel_record.h\<close>, datapath statistics).
\<close>

end
